(* ===== verification/Prelude.thy ===== *)
theory Prelude
  imports Main "HOL-Library.Product_Lexorder"
begin

text \<open>
  Shared vocabulary of the development: the development's theorem collections, the unsigned
  32-bit arithmetic the Rust sources use (wrapping \<open>+\<close>, saturating addition), and the
  iterator idioms of the standard library that several components share (\<open>windows(2)\<close>,
  \<open>Iterator::min\<close>, \<open>chunks_exact\<close>, \<open>position\<close>, \<open>dedup\<close>, slices by range),
  each with the lemmas the component proofs use.

  Conventions: an unsigned integer is a natural number, with its wrap-around written out
  where the code adds; identifiers that only index vectors (\<open>LayerId\<close>, \<open>NodeId\<close>) are
  plain natural numbers. A \<open>Result\<close> is an \<open>outcome\<close>, which also has the panic as a value; a
  total accessor that can panic returns an option, \<open>None\<close> being the panic.
\<close>

named_theorems u32_simps \<open>exactness of 32-bit arithmetic below the overflow bound\<close>
named_theorems range_simps \<open>slices and ranges of flat buffers\<close>

section \<open>Unsigned 32-bit arithmetic\<close>

abbreviation U32_MAX :: nat where
  "U32_MAX \<equiv> 4294967295"

definition u32_add :: "nat \<Rightarrow> nat \<Rightarrow> nat" where
  "u32_add a b = (a + b) mod 4294967296"

definition saturating_add :: "nat \<Rightarrow> nat \<Rightarrow> nat" where
  "saturating_add a b = min (a + b) U32_MAX"

lemma u32_add_exact [u32_simps]: "a + b \<le> U32_MAX \<Longrightarrow> u32_add a b = a + b"
  by (simp add: u32_add_def)

lemma saturating_add_exact [u32_simps]: "a + b \<le> U32_MAX \<Longrightarrow> saturating_add a b = a + b"
  by (simp add: saturating_add_def)

lemma saturating_add_min: "saturating_add (min a U32_MAX) b = min (a + b) U32_MAX"
  by (simp add: saturating_add_def)

section \<open>Consecutive pairs: \<open>windows(2)\<close>\<close>

definition windows2 :: "'a list \<Rightarrow> ('a \<times> 'a) list" where
  "windows2 xs = zip xs (tl xs)"

lemma length_windows2 [simp]: "length (windows2 xs) = length xs - 1"
  by (simp add: windows2_def)

lemma windows2_nth [simp]: "Suc i < length xs \<Longrightarrow> windows2 xs ! i = (xs ! i, xs ! Suc i)"
  by (simp add: windows2_def nth_tl)

lemma windows2_Cons2 [simp]: "windows2 (x # y # xs) = (x, y) # windows2 (y # xs)"
  by (simp add: windows2_def)

lemma windows2_small [simp]: "windows2 [] = []" "windows2 [x] = []"
  by (simp_all add: windows2_def)

section \<open>\<open>Iterator::position\<close>\<close>

fun position :: "('a \<Rightarrow> bool) \<Rightarrow> 'a list \<Rightarrow> nat option" where
  "position P [] = None"
| "position P (x # xs) = (if P x then Some 0 else map_option Suc (position P xs))"

lemma position_None_iff: "position P xs = None \<longleftrightarrow> (\<forall>x \<in> set xs. \<not> P x)"
  by (induction xs) auto

lemma position_SomeD:
  "position P xs = Some i \<Longrightarrow> i < length xs \<and> P (xs ! i) \<and> (\<forall>j < i. \<not> P (xs ! j))"
proof (induction xs arbitrary: i)
  case (Cons x xs)
  then show ?case
    by (cases i) (auto simp: less_Suc_eq_0_disj split: if_splits)
qed simp

lemma position_eqI:
  "i < length xs \<Longrightarrow> P (xs ! i) \<Longrightarrow> (\<And>j. j < i \<Longrightarrow> \<not> P (xs ! j)) \<Longrightarrow> position P xs = Some i"
proof (induction xs arbitrary: i)
  case (Cons x xs)
  show ?case
  proof (cases i)
    case 0
    with Cons.prems show ?thesis by simp
  next
    case (Suc k)
    have "\<not> P x" using Cons.prems(3) [of 0] Suc by simp
    moreover have "position P xs = Some k"
    proof (rule Cons.IH)
      show "\<not> P (xs ! j)" if "j < k" for j
        using Cons.prems(3) [of "Suc j"] that Suc by simp
    qed (use Cons.prems Suc in auto)
    ultimately show ?thesis using Suc by simp
  qed
qed simp

section \<open>\<open>Iterator::min\<close> and minima of folds\<close>

fun iter_min :: "'a::linorder list \<Rightarrow> 'a option" where
  "iter_min [] = None"
| "iter_min (x # xs) = Some (fold min xs x)"

lemma le_fold_min_iff: "(m::'a::linorder) \<le> fold min xs a \<longleftrightarrow> m \<le> a \<and> (\<forall>x \<in> set xs. m \<le> x)"
  by (induction xs arbitrary: a) auto

lemma fold_min_le: "fold min xs a \<le> (a::'a::linorder)"
  using le_fold_min_iff [of "fold min xs a" xs a] by simp

lemma fold_min_le_elem: "x \<in> set xs \<Longrightarrow> fold min xs a \<le> (x::'a::linorder)"
  using le_fold_min_iff [of "fold min xs a" xs a] by simp

lemma fold_min_in: "fold min xs (a::'a::linorder) \<in> insert a (set xs)"
  by (induction xs arbitrary: a) (auto simp: min_def split: if_splits)

lemma iter_min_None_iff [simp]: "iter_min xs = None \<longleftrightarrow> xs = []"
  by (cases xs) auto

lemma iter_min_SomeD:
  assumes "iter_min xs = Some m"
  shows "m \<in> set xs" and "\<And>x. x \<in> set xs \<Longrightarrow> m \<le> x"
proof -
  from assms obtain y ys where xs: "xs = y # ys" and m: "m = fold min ys y"
    by (cases xs) auto
  show "m \<in> set xs" using fold_min_in [of ys y] by (simp add: xs m)
  show "m \<le> x" if "x \<in> set xs" for x
    using that fold_min_le [of ys y] fold_min_le_elem [of x ys y] by (auto simp: xs m)
qed

text \<open>
  The cheapest position of a cost list, ties to the lowest index: the idiom
  \<open>iter().enumerate().map(|(i, c)| (c, i)).min()\<close>.
\<close>

definition min_index :: "nat list \<Rightarrow> (nat \<times> nat) option" where
  "min_index cs = iter_min (map (\<lambda>(i, c). (c, i)) (enumerate 0 cs))"

lemma set_min_index_pairs:
  "set (map (\<lambda>(i, c). (c, i)) (enumerate 0 cs)) = {(cs ! i, i) | i. i < length cs}"
  by (force simp: in_set_enumerate_eq image_iff)

lemma min_index_None_iff [simp]: "min_index cs = None \<longleftrightarrow> cs = []"
  by (cases cs) (auto simp: min_index_def)

lemma min_index_SomeD:
  assumes "min_index cs = Some (c, i)"
  shows "i < length cs" and "c = cs ! i" and "\<And>j. j < length cs \<Longrightarrow> cs ! i \<le> cs ! j"
    and "\<And>j. j < i \<Longrightarrow> cs ! i < cs ! j"
proof -
  let ?ps = "map (\<lambda>(i, c). (c, i)) (enumerate 0 cs)"
  have m: "iter_min ?ps = Some (c, i)" using assms by (simp add: min_index_def)
  from iter_min_SomeD(1) [OF m] have ci: "i < length cs \<and> c = cs ! i"
    unfolding set_min_index_pairs by blast
  then show "i < length cs" and "c = cs ! i" by auto
  have le: "(cs ! i, i) \<le> (cs ! j, j)" if "j < length cs" for j
  proof -
    from that have "(cs ! j, j) \<in> set ?ps" unfolding set_min_index_pairs by blast
    from iter_min_SomeD(2) [OF m this] ci show ?thesis by simp
  qed
  show "cs ! i \<le> cs ! j" if "j < length cs" for j
    using le [OF that] by (auto simp: less_eq_prod_def)
  show "cs ! i < cs ! j" if "j < i" for j
    using le [of j] that ci by (auto simp: less_eq_prod_def)
qed

section \<open>\<open>chunks_exact\<close>\<close>

fun chunks_exact :: "nat \<Rightarrow> 'a list \<Rightarrow> 'a list list" where
  "chunks_exact n xs =
     (if n = 0 \<or> length xs < n then [] else take n xs # chunks_exact n (drop n xs))"

declare chunks_exact.simps [simp del]

lemma chunks_exact_row:
  "0 < n \<Longrightarrow> chunks_exact n xs = map (\<lambda>i. take n (drop (i * n) xs)) [0..<length xs div n]"
proof (induction n xs rule: chunks_exact.induct)
  case (1 n xs)
  show ?case
  proof (cases "length xs < n")
    case True
    then show ?thesis by (subst chunks_exact.simps) simp
  next
    case False
    have len: "length xs div n = Suc (length (drop n xs) div n)"
      using False "1.prems" by (simp add: le_div_geq)
    have "chunks_exact n xs = take n xs # chunks_exact n (drop n xs)"
      using False "1.prems" by (subst chunks_exact.simps) simp
    also have "\<dots> = take n xs # map (\<lambda>i. take n (drop (i * n) (drop n xs))) [0..<length (drop n xs) div n]"
      using False "1.prems" by (simp add: "1.IH")
    also have "\<dots> = map (\<lambda>i. take n (drop (i * n) xs)) (0 # map Suc [0..<length (drop n xs) div n])"
      by (simp add: comp_def add.commute)
    also have "0 # map Suc [0..<length (drop n xs) div n] = [0..<length xs div n]"
      unfolding len by (simp add: map_Suc_upt upt_conv_Cons del: upt_Suc)
    finally show ?thesis .
  qed
qed

section \<open>Ranges and slices\<close>

type_synonym range = "nat \<times> nat"

definition range_len :: "range \<Rightarrow> nat" where
  "range_len r = snd r - fst r"

definition slice :: "range \<Rightarrow> 'a list \<Rightarrow> 'a list" where
  "slice r xs = take (range_len r) (drop (fst r) xs)"

definition put_slice :: "range \<Rightarrow> 'a list \<Rightarrow> 'a list \<Rightarrow> 'a list" where
  "put_slice r ys xs = take (fst r) xs @ ys @ drop (snd r) xs"

lemma length_slice [simp]: "snd r \<le> length xs \<Longrightarrow> length (slice r xs) = range_len r"
  by (auto simp: slice_def range_len_def)

lemma slice_nth [range_simps]:
  "i < range_len r \<Longrightarrow> snd r \<le> length xs \<Longrightarrow> slice r xs ! i = xs ! (fst r + i)"
  by (auto simp: slice_def range_len_def)

lemma length_put_slice [simp]:
  "fst r \<le> snd r \<Longrightarrow> snd r \<le> length xs \<Longrightarrow> length ys = range_len r \<Longrightarrow>
    length (put_slice r ys xs) = length xs"
  by (auto simp: put_slice_def range_len_def)

lemma slice_put_slice_same [range_simps]:
  "fst r \<le> snd r \<Longrightarrow> snd r \<le> length xs \<Longrightarrow> length ys = range_len r \<Longrightarrow>
    slice r (put_slice r ys xs) = ys"
  by (auto simp: slice_def put_slice_def range_len_def)

lemma slice_put_slice_before [range_simps]:
  assumes "snd q \<le> fst r" "snd r \<le> length xs" "fst r \<le> snd r"
  shows "slice q (put_slice r ys xs) = slice q xs"
proof (cases "fst q \<le> snd q")
  case True
  with assms show ?thesis
    by (simp add: slice_def put_slice_def range_len_def drop_take min_def)
next
  case False
  then show ?thesis by (simp add: slice_def range_len_def)
qed

lemma slice_put_slice_after [range_simps]:
  assumes "snd r \<le> fst q" "snd r \<le> length xs" "fst r \<le> snd r" "length ys = range_len r"
  shows "slice q (put_slice r ys xs) = slice q xs"
proof -
  have "drop (fst q) (put_slice r ys xs) = drop (fst q) xs"
    using assms by (simp add: put_slice_def range_len_def)
  then show ?thesis by (simp add: slice_def)
qed

lemma set_slice_subset: "set (slice r xs) \<subseteq> set xs"
  unfolding slice_def using set_take_subset set_drop_subset by fast

lemma in_set_sliceD: "x \<in> set (slice r xs) \<Longrightarrow> x \<in> set xs"
  using set_slice_subset by fast

section \<open>\<open>Vec::dedup\<close>: consecutive duplicates\<close>

fun dedup_by :: "('a \<Rightarrow> 'a \<Rightarrow> bool) \<Rightarrow> 'a list \<Rightarrow> 'a list" where
  "dedup_by same [] = []"
| "dedup_by same [x] = [x]"
| "dedup_by same (x # y # xs) =
     (if same y x then dedup_by same (x # xs) else x # dedup_by same (y # xs))"

abbreviation dedup :: "'a list \<Rightarrow> 'a list" where
  "dedup \<equiv> dedup_by (=)"

lemma hd_dedup_by: "xs \<noteq> [] \<Longrightarrow> dedup_by same xs \<noteq> [] \<and> hd (dedup_by same xs) = hd xs"
  by (induction same xs rule: dedup_by.induct) auto

lemma set_dedup_by_subset: "set (dedup_by same xs) \<subseteq> set xs"
  by (induction same xs rule: dedup_by.induct) auto

lemma set_dedup [simp]: "set (dedup xs) = set xs"
  by (induction "(=) :: 'a \<Rightarrow> 'a \<Rightarrow> bool" xs rule: dedup_by.induct) auto

lemma sorted_dedup_distinct: "sorted (xs::'a::linorder list) \<Longrightarrow> sorted (dedup xs) \<and> distinct (dedup xs)"
proof (induction "(=) :: 'a \<Rightarrow> 'a \<Rightarrow> bool" xs rule: dedup_by.induct)
  case (3 x y xs)
  then show ?case by (cases "y = x") auto
qed auto

lemma length_dedup_sorted: "sorted (xs::'a::linorder list) \<Longrightarrow> length (dedup xs) = card (set xs)"
  using sorted_dedup_distinct [of xs] distinct_card [of "dedup xs"] by simp

section \<open>Results: values, errors and panics\<close>

text \<open>
  The outcome of a fallible operation: a value, an error of the source's error type, or a
  panic (an index out of range, a failed \<open>expect\<close>). \<open>and_then\<close> is the \<open>?\<close> operator.
\<close>

datatype ('a, 'e) outcome = Ok 'a | Err 'e | Panic

fun and_then :: "('a, 'e) outcome \<Rightarrow> ('a \<Rightarrow> ('b, 'e) outcome) \<Rightarrow> ('b, 'e) outcome" where
  "and_then (Ok x) f = f x"
| "and_then (Err e) f = Err e"
| "and_then Panic f = Panic"

fun map_err :: "('e \<Rightarrow> 'f) \<Rightarrow> ('a, 'e) outcome \<Rightarrow> ('a, 'f) outcome" where
  "map_err f (Ok x) = Ok x"
| "map_err f (Err e) = Err (f e)"
| "map_err f Panic = Panic"

lemma and_then_Ok_iff [simp]: "and_then r f = Ok y \<longleftrightarrow> (\<exists>x. r = Ok x \<and> f x = Ok y)"
  by (cases r) auto

lemma map_err_Ok_iff [simp]: "map_err f r = Ok y \<longleftrightarrow> r = Ok y"
  by (cases r) auto

lemma map_err_Panic_iff [simp]: "map_err f r = Panic \<longleftrightarrow> r = Panic"
  by (cases r) auto

lemma in_map_filter: "y \<in> set (List.map_filter f xs) \<longleftrightarrow> (\<exists>x \<in> set xs. f x = Some y)"
  by (force simp: List.map_filter_def)

lemma map_filter_inverse: "(\<And>x. x \<in> set xs \<Longrightarrow> map_option h (f x) = Some x) \<Longrightarrow> map h (List.map_filter f xs) = xs"
proof (induction xs)
  case (Cons x xs)
  obtain y where "f x = Some y" "h y = x" using Cons.prems [of x] by auto
  then show ?case using Cons by (simp add: List.map_filter_simps)
qed (simp add: List.map_filter_simps)

text \<open>\<open>Iterator::find_map\<close>.\<close>

fun find_map :: "('a \<Rightarrow> 'b option) \<Rightarrow> 'a list \<Rightarrow> 'b option" where
  "find_map f [] = None"
| "find_map f (x # xs) = (case f x of None \<Rightarrow> find_map f xs | Some y \<Rightarrow> Some y)"

lemma find_map_None_iff: "find_map f xs = None \<longleftrightarrow> (\<forall>x \<in> set xs. f x = None)"
  by (induction xs) (auto split: option.splits)

lemma find_map_SomeD: "find_map f xs = Some y \<Longrightarrow> \<exists>x \<in> set xs. f x = Some y"
  by (induction xs) (auto split: option.splits)

text \<open>Elements whose key was not met before, as a filter that inserts into a set.\<close>

fun unseen :: "('a \<Rightarrow> 'k) \<Rightarrow> 'k set \<Rightarrow> 'a list \<Rightarrow> 'a list" where
  "unseen key seen [] = []"
| "unseen key seen (x # xs) =
     (if key x \<in> seen then unseen key seen xs else x # unseen key (insert (key x) seen) xs)"

lemma set_unseen_subset: "set (unseen key seen xs) \<subseteq> set xs"
proof (induction xs arbitrary: seen)
  case (Cons x xs)
  from Cons.IH [of seen] Cons.IH [of "insert (key x) seen"] show ?case by auto
qed simp

lemma keys_unseen: "key ` set (unseen key seen xs) = key ` set xs - seen"
  by (induction xs arbitrary: seen) auto

lemma distinct_unseen: "distinct (map key (unseen key seen xs))"
  using keys_unseen [of key] by (induction xs arbitrary: seen) fastforce+

lemma set_unseen_id [simp]: "set (unseen (\<lambda>x. x) {} xs) = set xs"
  using keys_unseen [of "\<lambda>x. x" "{}" xs] by simp

lemma those_map_Some: "(\<And>x. x \<in> set xs \<Longrightarrow> f x = Some (g x)) \<Longrightarrow> those (map f xs) = Some (map g xs)"
  by (induction xs) auto

text \<open>\<open>collect::<Result<Vec<_>, _>>()\<close>: every value in order, or the first failure.\<close>

fun collect_results :: "('a, 'e) outcome list \<Rightarrow> ('a list, 'e) outcome" where
  "collect_results [] = Ok []"
| "collect_results (r # rs) =
     and_then r (\<lambda>x. and_then (collect_results rs) (\<lambda>xs. Ok (x # xs)))"

lemma collect_results_Ok_iff: "collect_results rs = Ok xs \<longleftrightarrow> rs = map Ok xs"
proof (induction rs arbitrary: xs)
  case (Cons r rs)
  then show ?case by (cases xs) auto
qed auto

lemma collect_results_first:
  assumes "i < length rs" and "rs ! i = Err e" and "\<And>j. j < i \<Longrightarrow> \<exists>x. rs ! j = Ok x"
  shows "collect_results rs = Err e"
  using assms
proof (induction rs arbitrary: i)
  case (Cons r rs)
  show ?case
  proof (cases i)
    case 0
    with Cons.prems show ?thesis by simp
  next
    case (Suc k)
    from Cons.prems(3) [of 0] Suc obtain x where "r = Ok x" by auto
    moreover have "collect_results rs = Err e"
    proof (rule Cons.IH)
      show "\<exists>x. rs ! j = Ok x" if "j < k" for j
        using Cons.prems(3) [of "Suc j"] that Suc by simp
    qed (use Cons.prems Suc in auto)
    ultimately show ?thesis by simp
  qed
qed simp

section \<open>Maxima\<close>

text \<open>\<open>Iterator::max_by_key\<close>: the last of the elements with the greatest key.\<close>

fun max_by_key :: "('a \<Rightarrow> 'k::linorder) \<Rightarrow> 'a list \<Rightarrow> 'a option" where
  "max_by_key key [] = None"
| "max_by_key key (x # xs) = Some (fold (\<lambda>y best. if key best \<le> key y then y else best) xs x)"

lemma max_by_key_last:
  assumes "xs \<noteq> []"
  obtains as y bs where "max_by_key key xs = Some y" "xs = as @ y # bs" "\<forall>x \<in> set as. key x \<le> key y" "\<forall>x \<in> set bs. key x < key y"
proof -
  define best where "best = fold (\<lambda>y best. if key best \<le> key y then y else best)"
  have f: "\<exists>as bs. x # ys = as @ best ys x # bs \<and> (\<forall>z \<in> set as. key z \<le> key (best ys x)) \<and> (\<forall>z \<in> set bs. key z < key (best ys x))"
    for ys x
  proof (induction ys rule: rev_induct)
    case (snoc y ys)
    then obtain as bs where ih: "x # ys = as @ best ys x # bs" "\<forall>z \<in> set as. key z \<le> key (best ys x)" "\<forall>z \<in> set bs. key z < key (best ys x)"
      by blast
    have step: "best (ys @ [y]) x = (if key (best ys x) \<le> key y then y else best ys x)" by (simp add: best_def)
    show ?case
    proof (cases "key (best ys x) \<le> key y")
      case True
      then have "\<forall>z \<in> set (x # ys). key z \<le> key y" unfolding ih(1) using ih(2,3) by fastforce
      then show ?thesis using True step by (intro exI [of _ "x # ys"] exI [of _ "[]"]) simp
    next
      case False
      then show ?thesis using step ih by (intro exI [of _ as] exI [of _ "bs @ [y]"]) auto
    qed
  qed (auto simp: best_def intro: exI [of _ "[]"])
  obtain x ys where xs: "xs = x # ys" using assms by (cases xs) auto
  have "max_by_key key xs = Some (best ys x)" by (simp add: xs best_def)
  then show ?thesis using f [of x ys] that xs by auto
qed

lemma max_by_key_greatest:
  assumes "xs \<noteq> []"
  obtains y where "max_by_key key xs = Some y" "y \<in> set xs" "\<forall>x \<in> set xs. key x \<le> key y"
proof -
  obtain as y bs where "max_by_key key xs = Some y" "xs = as @ y # bs" "\<forall>x \<in> set as. key x \<le> key y" "\<forall>x \<in> set bs. key x < key y"
    by (rule max_by_key_last [OF assms])
  then show ?thesis by (intro that [of y]) fastforce+
qed

end
