(* ===== verification/Trellis_Model.thy ===== *)
theory Trellis_Model
  imports Prelude
begin

text \<open>
  The layered graph of \<open>routers_trellis\<close>: transitions between adjacent layers
  (\<open>transition.rs\<close>), the trellis with its node and edge weights and every operation on it
  (\<open>trellis.rs\<close>), and the result of a solve (\<open>path.rs\<close>, \<open>solver/mod.rs\<close>). The invariant
  \<open>trellis_ok\<close> relates the flat buffers to the layer widths; every operation keeps it, and
  under it no operation panics.
\<close>

section \<open>Data\<close>

type_synonym layer_id = nat
type_synonym node_id = nat

definition NO_EDGE :: nat where
  "NO_EDGE = U32_MAX"

definition INF_W :: nat where
  "INF_W = 2 ^ 30"

definition MAX_WEIGHT :: nat where
  "MAX_WEIGHT = INF_W - 1"

datatype trellis_error =
    Empty
  | ZeroWidthLayer layer_id
  | LayerOutOfRange layer_id
  | NodeOutOfRange layer_id node_id
  | WeightTooLarge nat
  | TransitionLenMismatch layer_id nat nat
  | NodeLenMismatch layer_id nat nat

datatype transition = Pending | Resolved "nat list"

fun is_resolved_transition :: "transition \<Rightarrow> bool" where
  "is_resolved_transition (Resolved w) = True"
| "is_resolved_transition Pending = False"

fun transition_weights :: "transition \<Rightarrow> nat list option" where
  "transition_weights (Resolved w) = Some w"
| "transition_weights Pending = None"

definition ensure_resolved :: "nat \<Rightarrow> transition \<Rightarrow> transition" where
  "ensure_resolved sz tr = (case tr of Pending \<Rightarrow> Resolved (replicate sz INF_W) | Resolved w \<Rightarrow> Resolved w)"

record trellis =
  widths :: "nat list"
  node_table :: "nat list"
  transitions :: "transition list"

record path =
  path_nodes :: "node_id list"
  path_total :: nat

datatype solve_error = NotResolved layer_id | Unreachable

section \<open>Operations\<close>

definition u32_sum :: "nat list \<Rightarrow> nat" where
  "u32_sum ws = foldl u32_add 0 ws"

definition trellis_new :: "nat list \<Rightarrow> (trellis, trellis_error) outcome" where
  "trellis_new ws =
     (if ws = [] then Err Empty
      else case position (\<lambda>w. w = 0) ws of
          Some l \<Rightarrow> Err (ZeroWidthLayer l)
        | None \<Rightarrow> Ok \<lparr>widths = ws, node_table = replicate (u32_sum ws) 0,
                      transitions = map (\<lambda>_. Pending) (windows2 ws)\<rparr>)"

definition layers :: "trellis \<Rightarrow> nat" where
  "layers t = length (widths t)"

definition trellis_boundaries :: "trellis \<Rightarrow> layer_id list" where
  "trellis_boundaries t = [0..<length (transitions t)]"

fun ranges_from :: "nat \<Rightarrow> nat list \<Rightarrow> range list" where
  "ranges_from start [] = []"
| "ranges_from start (w # ws) = (start, start + w) # ranges_from (start + w) ws"

definition layer_ranges :: "trellis \<Rightarrow> range list" where
  "layer_ranges t = ranges_from 0 (widths t)"

definition is_resolved :: "trellis \<Rightarrow> layer_id \<Rightarrow> bool" where
  "is_resolved t l = (l < length (transitions t) \<and> is_resolved_transition (transitions t ! l))"

definition fully_resolved :: "trellis \<Rightarrow> bool" where
  "fully_resolved t = list_all is_resolved_transition (transitions t)"

definition first_pending :: "trellis \<Rightarrow> layer_id option" where
  "first_pending t = position (\<lambda>tr. \<not> is_resolved_transition tr) (transitions t)"

definition mark_pending :: "trellis \<Rightarrow> layer_id \<Rightarrow> (trellis, trellis_error) outcome" where
  "mark_pending t l =
     (if l \<ge> length (transitions t) then Err (LayerOutOfRange l)
      else Ok (t\<lparr>transitions := (transitions t)[l := Pending]\<rparr>))"

definition trellis_layer :: "trellis \<Rightarrow> layer_id \<Rightarrow> nat list option" where
  "trellis_layer t l =
     (if l < length (transitions t) then transition_weights (transitions t ! l) else None)"

definition disconnections :: "trellis \<Rightarrow> layer_id list" where
  "disconnections t =
     map fst (filter (\<lambda>(i, tr). \<not> is_resolved_transition tr) (enumerate 0 (transitions t)))"

definition edge_weight :: "trellis \<Rightarrow> layer_id \<Rightarrow> node_id \<Rightarrow> node_id \<Rightarrow> nat option" where
  "edge_weight t l from to =
     (if l + 1 < length (widths t) \<and> l < length (transitions t) then
        (case transition_weights (transitions t ! l) of
           None \<Rightarrow> Some INF_W
         | Some w \<Rightarrow>
             (let i = from * widths t ! (l + 1) + to
              in if i < length w then Some (w ! i) else None))
      else None)"

definition set_edge ::
    "trellis \<Rightarrow> layer_id \<Rightarrow> node_id \<Rightarrow> node_id \<Rightarrow> nat \<Rightarrow> (trellis, trellis_error) outcome" where
  "set_edge t l from to weight =
     (if weight > MAX_WEIGHT then Err (WeightTooLarge weight)
      else if l + 1 \<ge> length (widths t) then Err (LayerOutOfRange l)
      else let cur_width = widths t ! l; next_width = widths t ! (l + 1) in
        if from \<ge> cur_width then Err (NodeOutOfRange l from)
        else if to \<ge> next_width then Err (NodeOutOfRange (l + 1) to)
        else if l \<ge> length (transitions t) then Panic
        else (case ensure_resolved (cur_width * next_width) (transitions t ! l) of
                Pending \<Rightarrow> Panic
              | Resolved w \<Rightarrow>
                  (let i = from * next_width + to
                   in if i \<ge> length w then Panic
                      else Ok (t\<lparr>transitions := (transitions t)[l := Resolved (w[i := weight])]\<rparr>))))"

definition add_layer :: "trellis \<Rightarrow> nat \<Rightarrow> (trellis \<times> layer_id, trellis_error) outcome" where
  "add_layer t width =
     (let id = length (widths t)
      in if width = 0 then Err (ZeroWidthLayer id)
         else Ok (t\<lparr>widths := widths t @ [width],
                     node_table := node_table t @ replicate width 0,
                     transitions := transitions t @ [Pending]\<rparr>, id))"

definition last_id :: "trellis \<Rightarrow> layer_id" where
  "last_id t = length (widths t) - 1"

definition fill_transition :: "trellis \<Rightarrow> layer_id \<Rightarrow> nat list \<Rightarrow> (trellis, trellis_error) outcome" where
  "fill_transition t l rows =
     (if l + 1 \<ge> length (widths t) then Err (LayerOutOfRange l)
      else let expected = widths t ! l * widths t ! (l + 1) in
        if length rows \<noteq> expected then Err (TransitionLenMismatch l expected (length rows))
        else case find (\<lambda>w. w \<noteq> NO_EDGE \<and> w > MAX_WEIGHT) rows of
            Some w \<Rightarrow> Err (WeightTooLarge w)
          | None \<Rightarrow>
              (if l \<ge> length (transitions t) then Panic
               else Ok (t\<lparr>transitions := (transitions t)
                      [l := Resolved (map (\<lambda>w. if w = NO_EDGE then INF_W else w) rows)]\<rparr>)))"

definition node_range :: "trellis \<Rightarrow> layer_id \<Rightarrow> (range, trellis_error) outcome" where
  "node_range t l =
     (if l < length (layer_ranges t) then Ok (layer_ranges t ! l) else Err (LayerOutOfRange l))"

definition fill_nodes :: "trellis \<Rightarrow> layer_id \<Rightarrow> nat list \<Rightarrow> (trellis, trellis_error) outcome" where
  "fill_nodes t l weights =
     and_then (node_range t l) (\<lambda>r.
       if length weights \<noteq> range_len r then Err (NodeLenMismatch l (range_len r) (length weights))
       else case find (\<lambda>w. w > MAX_WEIGHT) weights of
           Some w \<Rightarrow> Err (WeightTooLarge w)
         | None \<Rightarrow>
             (if snd r > length (node_table t) then Panic
              else Ok (t\<lparr>node_table := put_slice r weights (node_table t)\<rparr>)))"

text \<open>
  A layer's node weights: \<open>None\<close> for a layer out of range. The slice panics when the node
  table is shorter than the ranges claim; \<open>trellis_ok\<close> excludes that.
\<close>

definition node_weights :: "trellis \<Rightarrow> layer_id \<Rightarrow> nat list option" where
  "node_weights t l =
     (case node_range t l of
        Ok r \<Rightarrow> (if snd r \<le> length (node_table t) then Some (slice r (node_table t)) else None)
      | _ \<Rightarrow> None)"

definition node_weight :: "trellis \<Rightarrow> layer_id \<Rightarrow> node_id \<Rightarrow> nat option" where
  "node_weight t l n =
     (case node_weights t l of
        None \<Rightarrow> None
      | Some ws \<Rightarrow> if n < length ws then Some (ws ! n) else None)"

fun path_cost_hops :: "trellis \<Rightarrow> nat \<Rightarrow> nat \<Rightarrow> (node_id \<times> node_id) list \<Rightarrow> nat option" where
  "path_cost_hops t l cost [] = Some cost"
| "path_cost_hops t l cost ((a, b) # hops) =
     (case edge_weight t l a b of
        None \<Rightarrow> None
      | Some e \<Rightarrow>
          (case node_weight t (l + 1) b of
             None \<Rightarrow> None
           | Some nw \<Rightarrow>
               path_cost_hops t (l + 1) (saturating_add (saturating_add cost e) nw) hops))"

definition path_cost :: "trellis \<Rightarrow> node_id list \<Rightarrow> nat option" where
  "path_cost t ns =
     (case ns of
        [] \<Rightarrow> None
      | n # _ \<Rightarrow>
          (case node_weight t 0 n of
             None \<Rightarrow> None
           | Some c \<Rightarrow> path_cost_hops t 0 c (windows2 ns)))"

definition partition :: "trellis \<Rightarrow> layer_id \<Rightarrow> layer_id \<Rightarrow> (trellis, trellis_error) outcome" where
  "partition t start stop =
     (if start \<ge> stop then Err Empty
      else if stop > layers t then Err (LayerOutOfRange stop)
      else and_then (node_range t start) (\<lambda>rs.
        and_then (node_range t (stop - 1)) (\<lambda>re.
          if snd re > length (node_table t) \<or> stop - 1 > length (transitions t) then Panic
          else Ok \<lparr>widths = slice (start, stop) (widths t),
                   node_table = slice (fst rs, snd re) (node_table t),
                   transitions = slice (start, stop - 1) (transitions t)\<rparr>)))"

definition trellis_last :: "trellis \<Rightarrow> nat \<Rightarrow> (trellis, trellis_error) outcome" where
  "trellis_last t n = partition t (layers t - n) (layers t)"

section \<open>The invariant\<close>

text \<open>
  One positive width per layer, one node weight per node, one transition per boundary, and a
  resolved transition carries one weight per edge of its boundary. Node weights stay at or
  below \<open>MAX_WEIGHT\<close>; an edge weight is a real weight or the absent marker \<open>INF_W\<close>.
\<close>

definition weights_ok :: "nat \<Rightarrow> transition \<Rightarrow> bool" where
  "weights_ok n tr =
     (case tr of Pending \<Rightarrow> True | Resolved w \<Rightarrow> length w = n \<and> (\<forall>x \<in> set w. x \<le> INF_W))"

definition trellis_ok :: "trellis \<Rightarrow> bool" where
  "trellis_ok t =
     (widths t \<noteq> [] \<and> (\<forall>w \<in> set (widths t). 0 < w)
      \<and> length (node_table t) = sum_list (widths t) \<and> (\<forall>x \<in> set (node_table t). x \<le> MAX_WEIGHT)
      \<and> length (transitions t) = layers t - 1
      \<and> (\<forall>k < layers t - 1. weights_ok (widths t ! k * widths t ! Suc k) (transitions t ! k)))"

definition offset :: "trellis \<Rightarrow> layer_id \<Rightarrow> nat" where
  "offset t l = sum_list (take l (widths t))"

section \<open>Layer ranges\<close>

lemma length_ranges_from [simp]: "length (ranges_from s ws) = length ws"
  by (induction ws arbitrary: s) auto

lemma ranges_from_nth:
  "k < length ws \<Longrightarrow>
    ranges_from s ws ! k = (s + sum_list (take k ws), s + sum_list (take (Suc k) ws))"
proof (induction ws arbitrary: s k)
  case (Cons w ws)
  then show ?case by (cases k) auto
qed simp

lemma sum_list_take_Suc: "k < length ws \<Longrightarrow> sum_list (take (Suc k) ws) = sum_list (take k ws) + (ws ! k :: nat)"
  by (simp add: take_Suc_conv_app_nth)

lemma sum_list_take_mono: "i \<le> j \<Longrightarrow> sum_list (take i ws) \<le> sum_list (take j (ws :: nat list))"
proof (induction j)
  case (Suc j)
  then show ?case
    by (cases "i = Suc j"; cases "j < length ws") (auto simp: sum_list_take_Suc)
qed simp

lemma length_layer_ranges [simp]: "length (layer_ranges t) = layers t"
  by (simp add: layer_ranges_def layers_def)

lemma offset_0 [simp]: "offset t 0 = 0"
  by (simp add: offset_def)

lemma offset_Suc: "l < layers t \<Longrightarrow> offset t (Suc l) = offset t l + widths t ! l"
  by (simp add: offset_def layers_def sum_list_take_Suc)

lemma offset_mono: "i \<le> j \<Longrightarrow> offset t i \<le> offset t j"
  by (simp add: offset_def sum_list_take_mono)

lemma offset_layers: "trellis_ok t \<Longrightarrow> offset t (layers t) = length (node_table t)"
  by (simp add: offset_def layers_def trellis_ok_def)

lemma layer_ranges_nth: "l < layers t \<Longrightarrow> layer_ranges t ! l = (offset t l, offset t (Suc l))"
  by (simp add: layer_ranges_def offset_def layers_def ranges_from_nth)

lemma node_range_ok: "l < layers t \<Longrightarrow> node_range t l = Ok (offset t l, offset t (Suc l))"
  by (simp add: node_range_def layer_ranges_nth)

lemma range_len_layer: "l < layers t \<Longrightarrow> range_len (offset t l, offset t (Suc l)) = widths t ! l"
  by (simp add: range_len_def offset_Suc)

lemma offset_bound: "trellis_ok t \<Longrightarrow> l < layers t \<Longrightarrow> offset t (Suc l) \<le> length (node_table t)"
  using offset_mono [of "Suc l" "layers t" t] by (simp add: offset_layers)

lemma node_index_bound:
  "trellis_ok t \<Longrightarrow> l < layers t \<Longrightarrow> j < widths t ! l \<Longrightarrow> offset t l + j < length (node_table t)"
  using offset_bound [of t l] by (simp add: offset_Suc)

section \<open>Weights by layer and node\<close>

definition nw :: "trellis \<Rightarrow> layer_id \<Rightarrow> node_id \<Rightarrow> nat" where
  "nw t l j = node_table t ! (offset t l + j)"

definition layer_weights :: "trellis \<Rightarrow> layer_id \<Rightarrow> nat list" where
  "layer_weights t l = (case transitions t ! l of Resolved w \<Rightarrow> w | Pending \<Rightarrow> [])"

definition ew :: "trellis \<Rightarrow> layer_id \<Rightarrow> node_id \<Rightarrow> node_id \<Rightarrow> nat" where
  "ew t l i j = layer_weights t l ! (i * widths t ! Suc l + j)"

lemma node_weights_ok:
  assumes "trellis_ok t" and "l < layers t"
  shows "node_weights t l = Some (slice (offset t l, offset t (Suc l)) (node_table t))"
  using assms offset_bound [of t l] by (simp add: node_weights_def node_range_ok)

lemma node_weights_nth:
  assumes "trellis_ok t" and "l < layers t" and "j < widths t ! l"
  shows "slice (offset t l, offset t (Suc l)) (node_table t) ! j = nw t l j"
  using assms offset_bound [of t l] by (simp add: slice_nth range_len_layer nw_def)

lemma length_node_weights:
  assumes "trellis_ok t" and "l < layers t"
  shows "length (slice (offset t l, offset t (Suc l)) (node_table t)) = widths t ! l"
  using assms offset_bound [of t l] by (simp add: range_len_layer)

lemma node_weight_ok:
  assumes "trellis_ok t" and "l < layers t" and "j < widths t ! l"
  shows "node_weight t l j = Some (nw t l j)"
  using assms by (simp add: node_weight_def node_weights_ok length_node_weights node_weights_nth)

lemma nw_le: "trellis_ok t \<Longrightarrow> l < layers t \<Longrightarrow> j < widths t ! l \<Longrightarrow> nw t l j \<le> MAX_WEIGHT"
  unfolding nw_def using node_index_bound [of t l j] nth_mem [of "offset t l + j" "node_table t"]
  by (auto simp: trellis_ok_def)

lemma resolved_layer:
  assumes "trellis_ok t" and "fully_resolved t" and "Suc l < layers t"
  shows "transitions t ! l = Resolved (layer_weights t l)"
    and "length (layer_weights t l) = widths t ! l * widths t ! Suc l"
    and "\<And>x. x \<in> set (layer_weights t l) \<Longrightarrow> x \<le> INF_W"
proof -
  from assms have l: "l < length (transitions t)" and k: "l < layers t - 1"
    by (auto simp: trellis_ok_def)
  from assms(2) l have "is_resolved_transition (transitions t ! l)"
    by (simp add: fully_resolved_def list_all_length)
  then show *: "transitions t ! l = Resolved (layer_weights t l)"
    by (cases "transitions t ! l") (auto simp: layer_weights_def)
  from assms(1) k have "weights_ok (widths t ! l * widths t ! Suc l) (transitions t ! l)"
    by (simp add: trellis_ok_def)
  then show "length (layer_weights t l) = widths t ! l * widths t ! Suc l"
    and "\<And>x. x \<in> set (layer_weights t l) \<Longrightarrow> x \<le> INF_W"
    by (simp_all add: * weights_ok_def)
qed

lemma row_index_bound: "i < a \<Longrightarrow> j < b \<Longrightarrow> i * b + j < a * (b::nat)"
proof -
  assume "i < a" "j < b"
  then have "i * b + j < i * b + b" by simp
  also have "\<dots> = Suc i * b" by simp
  also have "\<dots> \<le> a * b" using \<open>i < a\<close> by (intro mult_le_mono1) simp
  finally show ?thesis .
qed

lemma ew_le:
  assumes "trellis_ok t" "fully_resolved t" "Suc l < layers t" "i < widths t ! l" "j < widths t ! Suc l"
  shows "ew t l i j \<le> INF_W"
  unfolding ew_def using assms
  by (intro resolved_layer(3) nth_mem) (auto simp: resolved_layer(2) row_index_bound)

lemma edge_weight_ok:
  assumes "trellis_ok t" "fully_resolved t" "Suc l < layers t" "i < widths t ! l" "j < widths t ! Suc l"
  shows "edge_weight t l i j = Some (ew t l i j)"
proof -
  have "l < length (transitions t)" using assms by (auto simp: trellis_ok_def)
  then show ?thesis
    using assms
    by (simp add: edge_weight_def ew_def resolved_layer row_index_bound layers_def Let_def)
qed

section \<open>Path costs\<close>

definition valid_path :: "trellis \<Rightarrow> node_id list \<Rightarrow> bool" where
  "valid_path t ns = (length ns = layers t \<and> (\<forall>l < layers t. ns ! l < widths t ! l))"

text \<open>The exact cost of a path, layer by layer, as a sum over unbounded numbers.\<close>

fun exact_cost :: "trellis \<Rightarrow> nat \<Rightarrow> node_id list \<Rightarrow> nat" where
  "exact_cost t l [] = 0"
| "exact_cost t l [n] = nw t l n"
| "exact_cost t l (a # b # ns) = nw t l a + ew t l a b + exact_cost t (Suc l) (b # ns)"

lemma path_cost_hops_exact:
  assumes "trellis_ok t" and "fully_resolved t" and "l + length ns \<le> layers t" and "ns \<noteq> []"
    and "\<And>i. i < length ns \<Longrightarrow> ns ! i < widths t ! (l + i)"
  shows "path_cost_hops t l (min (c + nw t l (hd ns)) U32_MAX) (windows2 ns)
    = Some (min (c + exact_cost t l ns) U32_MAX)"
  using assms(3-)
proof (induction ns arbitrary: l c)
  case (Cons a ns)
  show ?case
  proof (cases ns)
    case Nil
    then show ?thesis by simp
  next
    case (Cons b ns')
    have a: "a < widths t ! l" and b: "b < widths t ! Suc l"
      using Cons.prems(3) [of 0] Cons.prems(3) [of 1] Cons by auto
    have sl: "Suc l < layers t" using Cons.prems(1) Cons by simp
    have "path_cost_hops t (Suc l) (min ((c + nw t l a + ew t l a b) + nw t (Suc l) (hd ns)) U32_MAX)
        (windows2 ns)
      = Some (min ((c + nw t l a + ew t l a b) + exact_cost t (Suc l) ns) U32_MAX)"
    proof (rule Cons.IH)
      show "ns ! i < widths t ! (Suc l + i)" if "i < length ns" for i
        using Cons.prems(3) [of "Suc i"] that by simp
    qed (use Cons.prems Cons in auto)
    then show ?thesis
      using edge_weight_ok [OF assms(1,2) sl a b] node_weight_ok [OF assms(1) sl b] Cons
      by (simp add: saturating_add_min add.assoc)
  qed
qed simp

lemma path_cost_exact:
  assumes "trellis_ok t" and "fully_resolved t" and "valid_path t ns"
  shows "path_cost t ns = Some (min (exact_cost t 0 ns) U32_MAX)"
proof -
  have L: "0 < layers t" using assms(1) by (auto simp: trellis_ok_def layers_def)
  with assms(3) obtain n ns' where ns: "ns = n # ns'" and n: "n < widths t ! 0"
    by (cases ns) (auto simp: valid_path_def dest: spec [of _ 0])
  have "nw t 0 n \<le> U32_MAX"
    using nw_le [OF assms(1) L n] by (simp add: MAX_WEIGHT_def INF_W_def)
  moreover have "path_cost_hops t 0 (min (0 + nw t 0 (hd ns)) U32_MAX) (windows2 ns)
      = Some (min (0 + exact_cost t 0 ns) U32_MAX)"
    using assms ns by (intro path_cost_hops_exact) (auto simp: valid_path_def)
  ultimately show ?thesis
    using node_weight_ok [OF assms(1) L n] by (simp add: path_cost_def ns)
qed

end
