(* ===== verification/Trellis_Laws.thy ===== *)
theory Trellis_Laws
  imports Trellis_Model
begin

text \<open>
  The laws of the trellis operations: the trellises the API can build, the invariant over
  them, absence of panics, and what each accessor returns after each mutation.
\<close>

section \<open>Preservation of the invariant\<close>

lemma trellis_okD:
  assumes "trellis_ok t"
  shows "widths t \<noteq> []" "\<And>w. w \<in> set (widths t) \<Longrightarrow> 0 < w"
    "length (node_table t) = sum_list (widths t)"
    "\<And>x. x \<in> set (node_table t) \<Longrightarrow> x \<le> MAX_WEIGHT"
    "length (transitions t) = layers t - 1" "0 < layers t"
    "\<And>k. Suc k < layers t \<Longrightarrow> weights_ok (widths t ! k * widths t ! Suc k) (transitions t ! k)"
  using assms by (auto simp: trellis_ok_def layers_def)

lemma u32_sum_exact: "sum_list ws \<le> U32_MAX \<Longrightarrow> u32_sum ws = sum_list ws"
proof -
  have "a + sum_list ws \<le> U32_MAX \<Longrightarrow> foldl u32_add a ws = a + sum_list ws" for a
  proof (induction ws arbitrary: a)
    case (Cons w ws)
    then have "u32_add a w = a + w" by (intro u32_add_exact) simp
    with Cons show ?case by (simp add: add.assoc)
  qed simp
  from this [of 0] show "sum_list ws \<le> U32_MAX \<Longrightarrow> ?thesis" by (simp add: u32_sum_def)
qed

lemma u32_sum_bound: "u32_sum ws \<le> U32_MAX"
proof -
  have "a \<le> U32_MAX \<Longrightarrow> foldl u32_add a ws \<le> U32_MAX" for a
  proof (induction ws arbitrary: a)
    case (Cons w ws)
    then show ?case using Cons.IH [of "u32_add a w"] by (simp add: u32_add_def less_Suc_eq_le [symmetric])
  qed simp
  then show ?thesis by (simp add: u32_sum_def)
qed

lemma trellis_new_ok:
  assumes "trellis_new ws = Ok t" and "sum_list ws \<le> U32_MAX"
  shows "trellis_ok t"
proof -
  from assms(1) have ws: "ws \<noteq> []" "position (\<lambda>w. w = 0) ws = None"
    and t: "t = \<lparr>widths = ws, node_table = replicate (u32_sum ws) 0,
                 transitions = map (\<lambda>_. Pending) (windows2 ws)\<rparr>"
    by (auto simp: trellis_new_def split: if_splits option.splits)
  from ws show ?thesis
    by (auto simp: t trellis_ok_def layers_def u32_sum_exact [OF assms(2)] position_None_iff weights_ok_def)
qed

lemma trellis_ok_update_transition:
  assumes "trellis_ok t" and "Suc l < layers t" and "weights_ok (widths t ! l * widths t ! Suc l) tr"
  shows "trellis_ok (t\<lparr>transitions := (transitions t)[l := tr]\<rparr>)"
  using assms by (auto simp: trellis_ok_def layers_def nth_list_update)

lemma mark_pending_ok: "trellis_ok t \<Longrightarrow> mark_pending t l = Ok t' \<Longrightarrow> trellis_ok t'"
  by (auto simp: mark_pending_def trellis_okD weights_ok_def split: if_splits
      intro!: trellis_ok_update_transition)

lemma ensure_resolved_ok:
  assumes "weights_ok n tr"
  obtains w where "ensure_resolved n tr = Resolved w" "length w = n" "\<forall>x \<in> set w. x \<le> INF_W"
  using assms by (cases tr) (auto simp: ensure_resolved_def weights_ok_def)

lemma set_edge_cases:
  assumes ok: "trellis_ok t"
  obtains (err) e where "set_edge t l i j x = Err e"
  | (ok) w where "set_edge t l i j x
        = Ok (t\<lparr>transitions := (transitions t)[l := Resolved (w[i * widths t ! Suc l + j := x])]\<rparr>)"
      "x \<le> MAX_WEIGHT" "Suc l < layers t" "i < widths t ! l" "j < widths t ! Suc l"
      "ensure_resolved (widths t ! l * widths t ! Suc l) (transitions t ! l) = Resolved w"
      "length w = widths t ! l * widths t ! Suc l" "\<forall>y \<in> set w. y \<le> INF_W"
proof (cases "x \<le> MAX_WEIGHT \<and> Suc l < layers t \<and> i < widths t ! l \<and> j < widths t ! Suc l")
  case False
  then have "\<exists>e. set_edge t l i j x = Err e"
    by (auto simp: set_edge_def layers_def Let_def)
  with err show ?thesis by blast
next
  case True
  from True have "weights_ok (widths t ! l * widths t ! Suc l) (transitions t ! l)"
    by (intro trellis_okD(7) [OF assms]) simp
  then obtain w where w: "ensure_resolved (widths t ! l * widths t ! Suc l) (transitions t ! l) = Resolved w"
    "length w = widths t ! l * widths t ! Suc l" "\<forall>y \<in> set w. y \<le> INF_W"
    by (rule ensure_resolved_ok)
  have "l < length (transitions t)" using True trellis_okD(5) [OF assms] by auto
  moreover have "i * widths t ! Suc l + j < length w"
    using True w(2) by (simp add: row_index_bound)
  ultimately show ?thesis
    using True w by (intro ok [of w]) (auto simp: set_edge_def layers_def)
qed

lemma set_edge_ok: "trellis_ok t \<Longrightarrow> set_edge t l i j x = Ok t' \<Longrightarrow> trellis_ok t'"
proof -
  assume t: "trellis_ok t" and "set_edge t l i j x = Ok t'"
  then obtain w where w: "t' = t\<lparr>transitions := (transitions t)[l := Resolved (w[i * widths t ! Suc l + j := x])]\<rparr>"
    "x \<le> MAX_WEIGHT" "Suc l < layers t" "length w = widths t ! l * widths t ! Suc l"
    "\<forall>y \<in> set w. y \<le> INF_W"
    by (cases rule: set_edge_cases [OF t, of l i j x]) auto
  have "\<forall>y \<in> set (w[i * widths t ! Suc l + j := x]). y \<le> INF_W"
    using w(2,5) set_update_subset_insert [of w "i * widths t ! Suc l + j" x]
    by (auto simp: MAX_WEIGHT_def INF_W_def)
  then show ?thesis
    using w t by (simp add: trellis_ok_update_transition weights_ok_def)
qed

lemma add_layer_ok:
  assumes "trellis_ok t" and "add_layer t w = Ok (t', lid)"
  shows "trellis_ok t'" and "lid = layers t" and "layers t' = Suc (layers t)" and "0 < w"
proof -
  from assms(2) have w: "0 < w" and lid: "lid = length (widths t)"
    and t': "t' = t\<lparr>widths := widths t @ [w], node_table := node_table t @ replicate w 0,
                    transitions := transitions t @ [Pending]\<rparr>"
    by (auto simp: add_layer_def Let_def split: if_splits)
  show "lid = layers t" "layers t' = Suc (layers t)" "0 < w"
    by (simp_all add: lid t' layers_def w)
  have "weights_ok (widths t' ! k * widths t' ! Suc k) (transitions t' ! k)" if k: "k < layers t" for k
  proof (cases "Suc k < layers t")
    case True
    then show ?thesis
      using trellis_okD(5) [OF assms(1)] trellis_okD(7) [OF assms(1), of k]
      by (simp add: t' nth_append layers_def less_diff_conv)
  next
    case False
    then have "k = length (transitions t)" using k trellis_okD(5) [OF assms(1)] by simp
    then show ?thesis by (simp add: t' nth_append weights_ok_def)
  qed
  then show "trellis_ok t'"
    using assms(1) w by (auto simp: trellis_ok_def t' layers_def)
qed

lemma fill_transition_cases:
  assumes ok: "trellis_ok t"
  obtains (err) e where "fill_transition t l rows = Err e"
  | (ok) "fill_transition t l rows = Ok (t\<lparr>transitions := (transitions t)
        [l := Resolved (map (\<lambda>w. if w = NO_EDGE then INF_W else w) rows)]\<rparr>)"
      "Suc l < layers t" "length rows = widths t ! l * widths t ! Suc l"
      "\<forall>w \<in> set rows. w = NO_EDGE \<or> w \<le> MAX_WEIGHT"
proof (cases "Suc l < layers t \<and> length rows = widths t ! l * widths t ! Suc l
    \<and> find (\<lambda>w. w \<noteq> NO_EDGE \<and> w > MAX_WEIGHT) rows = None")
  case False
  then have "\<exists>e. fill_transition t l rows = Err e"
    by (auto simp: fill_transition_def layers_def Let_def)
  with err show ?thesis by blast
next
  case True
  then have "l < length (transitions t)" using trellis_okD(5) [OF assms] by auto
  moreover have "\<forall>w \<in> set rows. w = NO_EDGE \<or> w \<le> MAX_WEIGHT"
    using True by (auto simp: find_None_iff not_less)
  ultimately show ?thesis
    using True by (intro ok) (simp_all add: fill_transition_def layers_def)
qed

lemma fill_transition_ok: "trellis_ok t \<Longrightarrow> fill_transition t l rows = Ok t' \<Longrightarrow> trellis_ok t'"
  by (cases rule: fill_transition_cases [of t l rows])
    (fastforce intro!: trellis_ok_update_transition simp: weights_ok_def MAX_WEIGHT_def INF_W_def)+

lemma fill_nodes_cases:
  assumes ok: "trellis_ok t"
  obtains (err) e where "fill_nodes t l ws = Err e"
  | (ok) "fill_nodes t l ws = Ok (t\<lparr>node_table := put_slice (offset t l, offset t (Suc l)) ws (node_table t)\<rparr>)"
      "l < layers t" "length ws = widths t ! l" "\<forall>w \<in> set ws. w \<le> MAX_WEIGHT"
proof (cases "l < layers t \<and> length ws = widths t ! l \<and> find (\<lambda>w. w > MAX_WEIGHT) ws = None")
  case False
  then have "\<exists>e. fill_nodes t l ws = Err e"
    by (cases "l < layers t") (auto simp: fill_nodes_def node_range_def layer_ranges_nth range_len_layer)
  with err show ?thesis by blast
next
  case True
  then have "\<forall>w \<in> set ws. w \<le> MAX_WEIGHT"
    by (auto simp: find_None_iff not_less)
  with True show ?thesis
    using offset_bound [OF assms, of l]
    by (intro ok) (simp_all add: fill_nodes_def node_range_ok range_len_layer)
qed

lemma fill_nodes_ok: "trellis_ok t \<Longrightarrow> fill_nodes t l ws = Ok t' \<Longrightarrow> trellis_ok t'"
proof -
  assume t: "trellis_ok t" and "fill_nodes t l ws = Ok t'"
  then have *: "t' = t\<lparr>node_table := put_slice (offset t l, offset t (Suc l)) ws (node_table t)\<rparr>"
      "l < layers t" "length ws = widths t ! l" "\<forall>w \<in> set ws. w \<le> MAX_WEIGHT"
    by (cases rule: fill_nodes_cases [OF t, of l ws]; simp)+
  have "length (node_table t') = length (node_table t)"
    using * offset_bound [OF t, of l] by (simp add: range_len_def offset_Suc)
  moreover have "\<forall>x \<in> set (node_table t'). x \<le> MAX_WEIGHT"
    using * trellis_okD(4) [OF t] set_take_subset [of _ "node_table t"] set_drop_subset [of _ "node_table t"]
    by (fastforce simp: put_slice_def)
  ultimately show ?thesis
    using t by (simp add: trellis_ok_def *(1) layers_def)
qed

lemma fill_nodes_keeps:
  "fill_nodes t l ws = Ok t' \<Longrightarrow> widths t' = widths t \<and> transitions t' = transitions t"
  by (auto simp: fill_nodes_def split: if_splits option.splits)

lemma fill_transition_keeps:
  "fill_transition t l rows = Ok t' \<Longrightarrow> widths t' = widths t \<and> node_table t' = node_table t
    \<and> (\<forall>k. k \<noteq> l \<longrightarrow> transitions t' ! k = transitions t ! k)"
  by (auto simp: fill_transition_def Let_def split: if_splits option.splits)

lemma sum_list_slice:
  "a \<le> b \<Longrightarrow> b \<le> length ws \<Longrightarrow>
    sum_list (slice (a, b) ws) = sum_list (take b ws) - sum_list (take a (ws::nat list))"
proof -
  assume "a \<le> b" "b \<le> length ws"
  then have "take b ws = take a ws @ slice (a, b) ws"
    by (simp add: slice_def range_len_def take_add [symmetric])
  then show ?thesis by simp
qed

lemma partition_cases:
  assumes ok: "trellis_ok t"
  obtains (empty) "start \<ge> stop" "partition t start stop = Err Empty"
  | (range) "start < stop" "stop > layers t" "partition t start stop = Err (LayerOutOfRange stop)"
  | (ok) "start < stop" "stop \<le> layers t"
      "partition t start stop = Ok \<lparr>widths = slice (start, stop) (widths t),
          node_table = slice (offset t start, offset t stop) (node_table t),
          transitions = slice (start, stop - 1) (transitions t)\<rparr>"
proof -
  consider "start \<ge> stop" | "start < stop" "stop > layers t" | "start < stop" "stop \<le> layers t"
    by linarith
  then show ?thesis
  proof cases
    case 1
    then show ?thesis by (intro empty) (simp_all add: partition_def)
  next
    case 2
    then show ?thesis by (intro range) (simp_all add: partition_def)
  next
    case 3
    then have "offset t stop \<le> length (node_table t)"
      using offset_mono [of stop "layers t" t] offset_layers [OF assms] by simp
    with 3 trellis_okD(5) [OF assms] show ?thesis
      by (intro ok) (simp_all add: partition_def node_range_ok)
  qed
qed

lemma partition_ok: "trellis_ok t \<Longrightarrow> partition t start stop = Ok t' \<Longrightarrow> trellis_ok t'"
proof -
  assume t: "trellis_ok t" and "partition t start stop = Ok t'"
  then have *: "start < stop" "stop \<le> layers t" "t' = \<lparr>widths = slice (start, stop) (widths t),
          node_table = slice (offset t start, offset t stop) (node_table t),
          transitions = slice (start, stop - 1) (transitions t)\<rparr>"
    by (cases rule: partition_cases [OF t, of stop start]; simp)+
  have lw: "length (slice (start, stop) (widths t)) = stop - start"
    using *(2) by (simp add: layers_def range_len_def)
  have "offset t stop \<le> length (node_table t)"
    using offset_mono [of stop "layers t" t] offset_layers [OF t] *(2) by simp
  then have nt: "length (slice (offset t start, offset t stop) (node_table t)) = sum_list (slice (start, stop) (widths t))"
    using *(1,2) by (simp add: sum_list_slice range_len_def offset_def layers_def)
  have "weights_ok (widths t' ! k * widths t' ! Suc k) (transitions t' ! k)"
    if "Suc k < stop - start" for k
    using that *(2) trellis_okD(5) [OF t] trellis_okD(7) [OF t, of "start + k"]
    by (simp add: *(3) slice_nth range_len_def layers_def)
  moreover have "slice (start, stop) (widths t) \<noteq> []" using lw *(1) by fastforce
  moreover have "length (slice (start, stop - 1) (transitions t)) = stop - start - 1"
    using *(1,2) trellis_okD(5) [OF t] by (simp add: range_len_def)
  ultimately show ?thesis
    using trellis_okD(2,4) [OF t]
    by (auto simp: trellis_ok_def *(3) layers_def lw nt dest: in_set_sliceD)
qed

section \<open>Trellises the API builds\<close>

text \<open>
  Every sequence of public mutations: a trellis starts from \<open>new\<close> with some widths and each further
  step is one successful operation. \<open>new\<close> sizes the node table by a \<open>u32\<close> sum of the widths, which wraps in
  a release build (and panics in a debug build), so what it returns is well-formed exactly when the sum
  stays in range.
\<close>

inductive built :: "nat list \<Rightarrow> trellis \<Rightarrow> bool" for ws :: "nat list" where
  built_new: "trellis_new ws = Ok t \<Longrightarrow> built ws t"
| built_add: "built ws t \<Longrightarrow> add_layer t w = Ok (t', l) \<Longrightarrow> built ws t'"
| built_set: "built ws t \<Longrightarrow> set_edge t l i j w = Ok t' \<Longrightarrow> built ws t'"
| built_fill: "built ws t \<Longrightarrow> fill_transition t l rows = Ok t' \<Longrightarrow> built ws t'"
| built_nodes: "built ws t \<Longrightarrow> fill_nodes t l vs = Ok t' \<Longrightarrow> built ws t'"
| built_mark: "built ws t \<Longrightarrow> mark_pending t l = Ok t' \<Longrightarrow> built ws t'"
| built_partition: "built ws t \<Longrightarrow> partition t a b = Ok t' \<Longrightarrow> built ws t'"
| built_last: "built ws t \<Longrightarrow> trellis_last t n = Ok t' \<Longrightarrow> built ws t'"

lemma new_ok_iff:
  assumes "trellis_new ws = Ok t"
  shows "trellis_ok t \<longleftrightarrow> sum_list ws \<le> U32_MAX"
proof
  assume "trellis_ok t"
  moreover have "widths t = ws" "length (node_table t) = u32_sum ws"
    using assms by (auto simp: trellis_new_def split: if_splits option.splits)
  ultimately have "u32_sum ws = sum_list ws" by (simp add: trellis_ok_def)
  moreover have "u32_sum ws \<le> U32_MAX" by (rule u32_sum_bound)
  ultimately show "sum_list ws \<le> U32_MAX" by simp
qed (rule trellis_new_ok [OF assms])

lemmas trellis_op_ok =
  trellis_new_ok add_layer_ok(1) set_edge_ok fill_transition_ok fill_nodes_ok mark_pending_ok partition_ok

lemma built_ok: "built ws t \<Longrightarrow> sum_list ws \<le> U32_MAX \<Longrightarrow> trellis_ok t"
  by (induction rule: built.induct) (auto intro: trellis_op_ok simp: trellis_last_def)

section \<open>No operation panics\<close>

lemma set_edge_no_panic: "trellis_ok t \<Longrightarrow> set_edge t l i j w \<noteq> Panic"
  by (cases rule: set_edge_cases [of t l i j w]) auto

lemma fill_transition_no_panic: "trellis_ok t \<Longrightarrow> fill_transition t l rows \<noteq> Panic"
  by (cases rule: fill_transition_cases [of t l rows]) auto

lemma fill_nodes_no_panic: "trellis_ok t \<Longrightarrow> fill_nodes t l ws \<noteq> Panic"
  by (cases rule: fill_nodes_cases [of t l ws]) auto

lemma partition_no_panic: "trellis_ok t \<Longrightarrow> partition t a b \<noteq> Panic"
  by (cases rule: partition_cases [of t b a]) auto

text \<open>
  An operation succeeds on exactly the inputs it documents; everything else is one of its
  errors.
\<close>

lemma set_edge_succeeds_iff:
  assumes "trellis_ok t"
  shows "(\<exists>t'. set_edge t l i j w = Ok t')
    \<longleftrightarrow> w \<le> MAX_WEIGHT \<and> Suc l < layers t \<and> i < widths t ! l \<and> j < widths t ! Suc l"
proof
  assume "\<exists>t'. set_edge t l i j w = Ok t'"
  then show "w \<le> MAX_WEIGHT \<and> Suc l < layers t \<and> i < widths t ! l \<and> j < widths t ! Suc l"
    by (cases rule: set_edge_cases [OF assms, of l i j w]) auto
next
  assume *: "w \<le> MAX_WEIGHT \<and> Suc l < layers t \<and> i < widths t ! l \<and> j < widths t ! Suc l"
  then have "weights_ok (widths t ! l * widths t ! Suc l) (transitions t ! l)"
    by (intro trellis_okD(7) [OF assms]) simp
  moreover have "l < length (transitions t)" using * trellis_okD(5) [OF assms] by auto
  ultimately show "\<exists>t'. set_edge t l i j w = Ok t'"
    using * row_index_bound [of i "widths t ! l" j "widths t ! Suc l"]
    by (auto simp: set_edge_def layers_def Let_def elim!: ensure_resolved_ok)
qed

section \<open>Reads after writes\<close>

lemma edge_weight_cases:
  "trellis_ok t \<Longrightarrow> Suc l < layers t \<Longrightarrow> i < widths t ! l \<Longrightarrow> j < widths t ! Suc l \<Longrightarrow>
    edge_weight t l i j = (case transitions t ! l of
        Pending \<Rightarrow> Some INF_W | Resolved w \<Rightarrow> Some (w ! (i * widths t ! Suc l + j)))"
  using trellis_okD(5,7) [of t] row_index_bound [of i "widths t ! l" j "widths t ! Suc l"]
  by (force simp: edge_weight_def layers_def weights_ok_def Let_def split: transition.splits)

lemma row_index_inj:
  "i * b + j = i' * b + j' \<Longrightarrow> j < b \<Longrightarrow> j' < (b::nat) \<Longrightarrow> i = i' \<and> j = j'"
proof -
  assume eq: "i * b + j = i' * b + j'" and j: "j < b" "j' < b"
  have "i = (i * b + j) div b" "i' = (i' * b + j') div b" using j by simp_all
  with eq have "i = i'" by simp
  with eq show ?thesis by simp
qed

lemma edge_weight_set_edge:
  assumes t: "trellis_ok t" and set: "set_edge t l i j w = Ok t'"
    and r: "Suc l' < layers t" "i' < widths t ! l'" "j' < widths t ! Suc l'"
  shows "edge_weight t' l' i' j'
    = (if l' = l \<and> i' = i \<and> j' = j then Some w else edge_weight t l' i' j')"
proof -
  let ?n = "widths t ! l * widths t ! Suc l"
  from set obtain v where v: "t' = t\<lparr>transitions := (transitions t)
        [l := Resolved (v[i * widths t ! Suc l + j := w])]\<rparr>"
    and b: "Suc l < layers t" "i < widths t ! l" "j < widths t ! Suc l"
    and ens: "ensure_resolved ?n (transitions t ! l) = Resolved v" "length v = ?n"
    by (cases rule: set_edge_cases [OF t, of l i j w]) auto
  have t': "trellis_ok t'" by (rule set_edge_ok [OF t set])
  have l: "l < length (transitions t)" using b trellis_okD(5) [OF t] by auto
  have W: "widths t' = widths t" by (simp add: v)
  have *: "edge_weight t' l' i' j' = (case transitions t' ! l' of
        Pending \<Rightarrow> Some INF_W | Resolved w \<Rightarrow> Some (w ! (i' * widths t ! Suc l' + j')))"
    using edge_weight_cases [OF t', of l' i' j'] r unfolding layers_def W by simp
  show ?thesis
  proof (cases "l' = l")
    case True
    have idx: "i' * widths t ! Suc l + j' < ?n" using r True by (simp add: row_index_bound)
    have old: "edge_weight t l i' j' = Some (v ! (i' * widths t ! Suc l + j'))"
      using edge_weight_cases [OF t, of l i' j'] r True ens idx
      by (auto simp: ensure_resolved_def split: transition.splits)
    show ?thesis
    proof (cases "i * widths t ! Suc l + j = i' * widths t ! Suc l + j'")
      case eq: True
      then have "i = i' \<and> j = j'" using b r True row_index_inj by blast
      with * True l idx ens(2) show ?thesis by (simp add: v)
    next
      case False
      with * True l old show ?thesis by (auto simp: v)
    qed
  next
    case False
    then show ?thesis using * edge_weight_cases [OF t r] by (simp add: v)
  qed
qed

lemma edge_weight_fill_transition:
  assumes t: "trellis_ok t" and fill: "fill_transition t l rows = Ok t'"
    and r: "i < widths t ! l" "j < widths t ! Suc l"
  shows "edge_weight t' l i j
    = Some (let w = rows ! (i * widths t ! Suc l + j) in if w = NO_EDGE then INF_W else w)"
proof -
  from fill have *: "t' = t\<lparr>transitions := (transitions t)
        [l := Resolved (map (\<lambda>w. if w = NO_EDGE then INF_W else w) rows)]\<rparr>"
    "Suc l < layers t" "length rows = widths t ! l * widths t ! Suc l"
    by (cases rule: fill_transition_cases [OF t, of l rows]; simp)+
  moreover have "trellis_ok t'" by (rule fill_transition_ok [OF t fill])
  moreover have "l < length (transitions t)" using * trellis_okD(5) [OF t] by auto
  ultimately show ?thesis
    using edge_weight_cases [of t' l i j] r by (simp add: layers_def row_index_bound Let_def)
qed

lemma node_weights_fill_nodes:
  assumes t: "trellis_ok t" and fill: "fill_nodes t l ws = Ok t'" and l': "l' < layers t"
  shows "node_weights t' l' = (if l' = l then Some ws else node_weights t l')"
proof -
  from fill have *: "t' = t\<lparr>node_table := put_slice (offset t l, offset t (Suc l)) ws (node_table t)\<rparr>"
    "l < layers t" "length ws = widths t ! l"
    by (cases rule: fill_nodes_cases [OF t, of l ws]; simp)+
  have o: "offset t' k = offset t k" for k by (simp add: offset_def *)
  have "node_weights t' l' = Some (slice (offset t l', offset t (Suc l')) (node_table t'))"
    using node_weights_ok [OF fill_nodes_ok [OF t fill], of l'] l' by (simp only: o) (simp add: * layers_def)
  also have "slice (offset t l', offset t (Suc l')) (node_table t')
      = (if l' = l then ws else slice (offset t l', offset t (Suc l')) (node_table t))"
    using offset_bound [OF t *(2)] offset_mono [of l "Suc l" t]
      offset_mono [of "Suc l'" l t] offset_mono [of "Suc l" l' t]
    by (cases l' l rule: linorder_cases) (auto simp: * range_simps range_len_layer)
  finally show ?thesis using node_weights_ok [OF t l'] by simp
qed

section \<open>Windows keep their weights\<close>

lemma partition_offset:
  assumes "start + l \<le> stop" and "stop \<le> length (widths t)"
    and "widths t' = slice (start, stop) (widths t)"
  shows "offset t' l = offset t (start + l) - offset t start"
  using assms by (simp add: offset_def slice_def range_len_def take_add drop_take min_def)

lemma partition_weights:
  assumes t: "trellis_ok t" and part: "partition t start stop = Ok t'" and l: "l < stop - start"
  shows "layers t' = stop - start" and "widths t' ! l = widths t ! (start + l)"
    and "node_weight t' l j = node_weight t (start + l) j"
    and "Suc l < stop - start \<Longrightarrow> edge_weight t' l i j = edge_weight t (start + l) i j"
proof -
  from part have *: "start < stop" "stop \<le> layers t" "t' = \<lparr>widths = slice (start, stop) (widths t),
          node_table = slice (offset t start, offset t stop) (node_table t),
          transitions = slice (start, stop - 1) (transitions t)\<rparr>"
    by (cases rule: partition_cases [OF t, of stop start]; simp)+
  show L: "layers t' = stop - start"
    using *(2) by (simp add: *(3) layers_def range_len_def)
  show w: "widths t' ! l = widths t ! (start + l)"
    using l *(2) by (simp add: *(3) slice_nth range_len_def layers_def)
  have ok': "trellis_ok t'" by (rule partition_ok [OF t part])
  have off: "offset t' l = offset t (start + l) - offset t start"
    using l *(2) by (intro partition_offset) (auto simp: *(3) layers_def)
  have le: "offset t start \<le> offset t (start + l)" by (simp add: offset_mono)
  have bnd: "offset t stop \<le> length (node_table t)"
    using offset_mono [of stop "layers t" t] offset_layers [OF t] *(2) by simp
  have sl: "start + l < layers t" using l *(2) by simp
  have hi: "offset t (start + l) + widths t ! (start + l) \<le> offset t stop"
    using offset_mono [of "Suc (start + l)" stop t] offset_Suc [OF sl] l by simp
  show "node_weight t' l j = node_weight t (start + l) j"
  proof (cases "j < widths t ! (start + l)")
    case True
    have "nw t' l j = nw t (start + l) j"
      unfolding nw_def off using True le hi bnd by (simp add: *(3) slice_nth range_len_def)
    then show ?thesis
      using node_weight_ok [OF ok', of l j] node_weight_ok [OF t sl True] True l by (simp add: L w)
  next
    case False
    then show ?thesis
      using l node_weights_ok [OF ok', of l] node_weights_ok [OF t sl]
        length_node_weights [OF ok', of l] length_node_weights [OF t sl]
      by (simp add: node_weight_def L w)
  qed
  show "edge_weight t' l i j = edge_weight t (start + l) i j" if "Suc l < stop - start"
  proof -
    have "widths t' ! Suc l = widths t ! Suc (start + l)" "transitions t' ! l = transitions t ! (start + l)"
      using that *(2) trellis_okD(5) [OF t] by (simp_all add: *(3) slice_nth range_len_def layers_def)
    moreover have "Suc l < length (widths t')" "Suc (start + l) < length (widths t)"
      using that L *(2) by (simp_all add: layers_def)
    moreover have "l < length (transitions t')" "start + l < length (transitions t)"
      using that *(2) trellis_okD(5) [OF t] by (simp_all add: *(3) range_len_def layers_def)
    ultimately show ?thesis by (simp add: edge_weight_def Let_def split: option.split)
  qed
qed

section \<open>Pending boundaries\<close>

lemma first_pending_None_iff: "first_pending t = None \<longleftrightarrow> fully_resolved t"
  by (auto simp: first_pending_def fully_resolved_def position_None_iff list_all_iff)

lemma set_disconnections: "set (disconnections t) = {l. l < length (transitions t) \<and> \<not> is_resolved t l}"
  by (force simp: disconnections_def is_resolved_def in_set_enumerate_eq image_iff)

lemma sorted_disconnections: "sorted (disconnections t)" "distinct (disconnections t)"
proof -
  have "sorted_wrt (<) (map fst (enumerate 0 (transitions t)))" by simp
  then have "sorted_wrt (<) (disconnections t)"
    unfolding disconnections_def sorted_wrt_map by (rule sorted_wrt_filter)
  then show "sorted (disconnections t)" "distinct (disconnections t)"
    by (auto simp: strict_sorted_iff)
qed

lemma first_pending_hd:
  "first_pending t = (if disconnections t = [] then None else Some (hd (disconnections t)))"
proof (cases "first_pending t")
  case None
  then show ?thesis
    using set_disconnections [of t]
    by (auto simp: first_pending_None_iff fully_resolved_def list_all_length is_resolved_def)
next
  case (Some l)
  then have l: "l < length (transitions t)" "\<not> is_resolved t l" "\<forall>k < l. is_resolved t k"
    using position_SomeD [of "\<lambda>tr. \<not> is_resolved_transition tr" "transitions t" l]
    by (auto simp: first_pending_def is_resolved_def)
  then have "l \<in> set (disconnections t)" by (simp add: set_disconnections)
  then obtain d ds where d: "disconnections t = d # ds" by (cases "disconnections t") auto
  with sorted_disconnections(1) [of t] \<open>l \<in> _\<close> have "d \<le> l" by auto
  moreover have "\<not> is_resolved t d" using d set_disconnections [of t] by auto
  ultimately have "d = l" using l(3) by (metis order_le_less)
  then show ?thesis using Some d by simp
qed

end
