(* ===== verification/Viterbi.thy ===== *)
theory Viterbi
  imports Trellis_Laws
begin

text \<open>
  The production solver (\<open>solver/viterbi.rs\<close>): the resolved boundaries, the forward pass over
  the flat distance table with its 32-bit arithmetic, the predecessor choice, the backtrack and
  the convergence sweep. The second half shows that the flat table holds, layer by layer, the
  values of a recurrence \<open>dp\<close> over unbounded numbers: no addition of the hot loop wraps and no
  index is out of range.
\<close>

section \<open>The solver\<close>

record boundary =
  b_id :: layer_id
  b_cur :: range
  b_next :: range
  b_weights :: "nat list"
  b_nodes :: "nat list"

definition boundaries :: "trellis \<Rightarrow> (boundary list, solve_error) outcome" where
  "boundaries t =
     (let ranges = layer_ranges t in
      collect_results (map (\<lambda>(i, cur, next).
          case trellis_layer t i of
            None \<Rightarrow> Err (NotResolved i)
          | Some weights \<Rightarrow>
              (if snd next > length (node_table t) then Panic
               else Ok \<lparr>b_id = i, b_cur = cur, b_next = next, b_weights = weights,
                        b_nodes = slice next (node_table t)\<rparr>))
        (zip (trellis_boundaries t) (zip ranges (tl ranges)))))"

text \<open>
  One boundary of the forward pass. \<open>iter_mut().zip(row)\<close> updates the common prefix and
  leaves the rest.
\<close>

definition relax_row :: "nat \<Rightarrow> nat list \<Rightarrow> nat list \<Rightarrow> nat list" where
  "relax_row cost row next =
     map (\<lambda>(n, edge). min n (u32_add cost edge)) (zip next row) @ drop (length row) next"

definition enter_nodes :: "nat list \<Rightarrow> nat list \<Rightarrow> nat list" where
  "enter_nodes weights next =
     map (\<lambda>(n, w). if n < INF_W then u32_add n w else n) (zip next weights)
       @ drop (length weights) next"

definition relax_boundary :: "boundary \<Rightarrow> nat list \<Rightarrow> nat list option" where
  "relax_boundary b dist =
     (if fst (b_next b) > length dist \<or> snd (b_cur b) > fst (b_next b)
         \<or> snd (b_next b) > length dist \<or> range_len (b_next b) = 0 then None
      else
        let cur_costs = slice (b_cur b) dist;
            rows = chunks_exact (range_len (b_next b)) (b_weights b);
            reachable = filter (\<lambda>(cost, row). cost < INF_W) (zip cur_costs rows);
            next = fold (\<lambda>(cost, row). relax_row cost row) reachable
                     (replicate (range_len (b_next b)) INF_W)
        in Some (put_slice (b_next b) (enter_nodes (b_nodes b) next) dist))"

fun forward_pass :: "boundary list \<Rightarrow> nat list \<Rightarrow> nat list option" where
  "forward_pass [] dist = Some dist"
| "forward_pass (b # bs) dist =
     (case relax_boundary b dist of None \<Rightarrow> None | Some dist' \<Rightarrow> forward_pass bs dist')"

text \<open>\<open>Iterator::step_by\<close> (which panics on a zero step; the forward pass has ruled that out).\<close>

fun step_by :: "nat \<Rightarrow> 'a list \<Rightarrow> 'a list" where
  "step_by n [] = []"
| "step_by n (x # xs) = x # step_by n (drop (n - 1) xs)"

text \<open>
  The boundaries handed to the functions below have passed \<open>forward_pass\<close> on a table of the same
  length, so their slices of \<open>dist\<close> are in range.
\<close>

definition predecessor :: "boundary \<Rightarrow> nat list \<Rightarrow> node_id \<Rightarrow> node_id option" where
  "predecessor b dist chosen =
     (let into_chosen = step_by (range_len (b_next b)) (drop chosen (b_weights b))
      in map_option snd
           (min_index (map (\<lambda>(cost, edge). saturating_add cost edge)
                            (zip (slice (b_cur b) dist) into_chosen))))"

fun backtrack_scan :: "nat list \<Rightarrow> node_id \<Rightarrow> boundary list \<Rightarrow> node_id list" where
  "backtrack_scan dist chosen [] = []"
| "backtrack_scan dist chosen (b # bs) =
     (case predecessor b dist chosen of
        None \<Rightarrow> []
      | Some p \<Rightarrow> p # backtrack_scan dist p bs)"

definition backtrack :: "range \<Rightarrow> boundary list \<Rightarrow> nat list \<Rightarrow> (path, solve_error) outcome" where
  "backtrack last_range bs dist =
     (if snd last_range > length dist then Panic
      else case min_index (slice last_range dist) of
          None \<Rightarrow> Err Unreachable
        | Some (best_cost, final_node) \<Rightarrow>
            (if best_cost \<ge> INF_W then Err Unreachable
             else let tail_to_head = backtrack_scan dist final_node (rev bs)
                  in Ok \<lparr>path_nodes = rev tail_to_head @ [final_node], path_total = best_cost\<rparr>))"

fun converge_scan :: "nat list \<Rightarrow> node_id list \<Rightarrow> boundary list \<Rightarrow> layer_id option" where
  "converge_scan dist frontier [] = None"
| "converge_scan dist frontier (b # bs) =
     (let frontier' = dedup (sort (List.map_filter (predecessor b dist) frontier))
      in if length frontier' = 1 then Some (b_id b) else converge_scan dist frontier' bs)"

definition converged_layer :: "range \<Rightarrow> boundary list \<Rightarrow> nat list \<Rightarrow> layer_id option" where
  "converged_layer last_range bs dist =
     (let frontier = map fst (filter (\<lambda>(node, cost). cost < INF_W) (enumerate 0 (slice last_range dist)))
      in if length frontier = 1 then Some (length bs) else converge_scan dist frontier (rev bs))"

definition tables :: "trellis \<Rightarrow> (boundary list \<times> range \<times> nat list, solve_error) outcome" where
  "tables t =
     and_then (boundaries t) (\<lambda>bs.
       let last_range = (if layer_ranges t = [] then (0, 0) else last (layer_ranges t))
       in case forward_pass bs (node_table t) of
            None \<Rightarrow> Panic
          | Some dist \<Rightarrow> Ok (bs, last_range, dist))"

definition convergence :: "trellis \<Rightarrow> (layer_id option, solve_error) outcome" where
  "convergence t =
     and_then (tables t) (\<lambda>(bs, last_range, dist).
       if snd last_range > length dist then Panic
       else if list_all (\<lambda>cost. cost \<ge> INF_W) (slice last_range dist) then Err Unreachable
       else Ok (converged_layer last_range bs dist))"

definition viterbi_solve :: "trellis \<Rightarrow> (path, solve_error) outcome" where
  "viterbi_solve t = and_then (tables t) (\<lambda>(bs, last_range, dist). backtrack last_range bs dist)"

section \<open>The recurrence\<close>

text \<open>
  The cheapest way to reach and enter node \<open>j\<close> of layer \<open>l\<close>, capped at \<open>INF_W\<close> before the node's
  own weight is paid; only live nodes (below \<open>INF_W\<close>) are extended.
\<close>

definition relaxed :: "(nat \<Rightarrow> nat) \<Rightarrow> nat \<Rightarrow> (nat \<Rightarrow> nat) \<Rightarrow> nat" where
  "relaxed d w e = fold min (map (\<lambda>i. d i + e i) (filter (\<lambda>i. d i < INF_W) [0..<w])) INF_W"

fun dp :: "trellis \<Rightarrow> layer_id \<Rightarrow> node_id \<Rightarrow> nat" where
  "dp t 0 j = nw t 0 j"
| "dp t (Suc l) j =
     (let m = relaxed (dp t l) (widths t ! l) (\<lambda>i. ew t l i j)
      in if m < INF_W then m + nw t (Suc l) j else m)"

definition dp_row :: "trellis \<Rightarrow> layer_id \<Rightarrow> nat list" where
  "dp_row t l = map (dp t l) [0..<widths t ! l]"

lemma length_dp_row [simp]: "length (dp_row t l) = widths t ! l"
  by (simp add: dp_row_def)

lemma dp_row_nth [simp]: "j < widths t ! l \<Longrightarrow> dp_row t l ! j = dp t l j"
  by (simp add: dp_row_def)

lemma relaxed_le_INF: "relaxed d w e \<le> INF_W"
  by (simp add: relaxed_def fold_min_le)

lemma relaxed_le: "i < w \<Longrightarrow> d i < INF_W \<Longrightarrow> relaxed d w e \<le> d i + e i"
  unfolding relaxed_def by (rule fold_min_le_elem) auto

lemma relaxed_attained:
  assumes "relaxed d w e < INF_W"
  obtains i where "i < w" "d i < INF_W" "relaxed d w e = d i + e i"
  using assms fold_min_in [of "map (\<lambda>i. d i + e i) (filter (\<lambda>i. d i < INF_W) [0..<w])" INF_W]
  by (auto simp: relaxed_def)

lemma dp_bound:
  assumes "trellis_ok t" and "l < layers t" and "j < widths t ! l"
  shows "dp t l j \<le> 2 * INF_W - 2"
proof (cases l)
  case 0
  then show ?thesis using nw_le [OF assms] by (simp add: MAX_WEIGHT_def INF_W_def)
next
  case (Suc k)
  then show ?thesis
    using nw_le [OF assms] relaxed_le_INF [of "dp t k" "widths t ! k" "\<lambda>i. ew t k i j"]
    by (auto simp: Let_def MAX_WEIGHT_def INF_W_def)
qed

section \<open>Boundaries of a resolved trellis\<close>

definition boundary_of :: "trellis \<Rightarrow> layer_id \<Rightarrow> boundary" where
  "boundary_of t l = \<lparr>b_id = l, b_cur = (offset t l, offset t (Suc l)),
     b_next = (offset t (Suc l), offset t (Suc (Suc l))), b_weights = layer_weights t l,
     b_nodes = slice (offset t (Suc l), offset t (Suc (Suc l))) (node_table t)\<rparr>"

definition boundary_attempt :: "trellis \<Rightarrow> layer_id \<Rightarrow> (boundary, solve_error) outcome" where
  "boundary_attempt t l = (if is_resolved t l then Ok (boundary_of t l) else Err (NotResolved l))"

lemma boundaries_attempts:
  assumes "trellis_ok t"
  shows "boundaries t = collect_results (map (boundary_attempt t) [0..<layers t - 1])"
proof -
  have "map (\<lambda>(i, cur, next).
          case trellis_layer t i of
            None \<Rightarrow> Err (NotResolved i)
          | Some weights \<Rightarrow>
              (if snd next > length (node_table t) then Panic
               else Ok \<lparr>b_id = i, b_cur = cur, b_next = next, b_weights = weights,
                        b_nodes = slice next (node_table t)\<rparr>))
        (zip (trellis_boundaries t) (zip (layer_ranges t) (tl (layer_ranges t))))
     = map (boundary_attempt t) [0..<layers t - 1]" (is "?L = ?R")
  proof (rule nth_equalityI)
    show "length ?L = length ?R"
      using trellis_okD(5) [OF assms] by (simp add: trellis_boundaries_def)
    fix l assume "l < length ?L"
    then have l: "Suc l < layers t" "l < length (transitions t)"
      using trellis_okD(5) [OF assms] by (auto simp: trellis_boundaries_def)
    then have "?R ! l = boundary_attempt t l" by simp
    moreover have "offset t (Suc (Suc l)) \<le> length (node_table t)" using offset_bound [OF assms l(1)] .
    ultimately show "?L ! l = ?R ! l"
      using l by (cases "transitions t ! l")
        (auto simp: trellis_boundaries_def nth_tl layer_ranges_nth trellis_layer_def boundary_attempt_def
          is_resolved_def boundary_of_def layer_weights_def)
  qed
  then show ?thesis by (simp add: boundaries_def Let_def)
qed

lemma boundaries_resolved:
  assumes "trellis_ok t" and "fully_resolved t"
  shows "boundaries t = Ok (map (boundary_of t) [0..<layers t - 1])"
proof -
  have "map (boundary_attempt t) [0..<layers t - 1] = map Ok (map (boundary_of t) [0..<layers t - 1])"
    using assms by (auto simp: boundary_attempt_def is_resolved_def fully_resolved_def
        list_all_length trellis_okD(5))
  then show ?thesis by (simp add: boundaries_attempts [OF assms(1)] collect_results_Ok_iff)
qed

lemma boundaries_pending:
  assumes "trellis_ok t" and "first_pending t = Some l"
  shows "boundaries t = Err (NotResolved l)"
proof -
  from assms(2) have l: "l < length (transitions t)" "\<not> is_resolved t l" "\<And>k. k < l \<Longrightarrow> is_resolved t k"
    using position_SomeD [of "\<lambda>tr. \<not> is_resolved_transition tr" "transitions t" l]
    by (auto simp: first_pending_def is_resolved_def)
  show ?thesis
    unfolding boundaries_attempts [OF assms(1)]
    by (rule collect_results_first [of l])
      (use l trellis_okD(5) [OF assms(1)] in \<open>auto simp: boundary_attempt_def\<close>)
qed

section \<open>The forward pass fills the table with the recurrence\<close>

lemma length_relax_row [simp]: "length (relax_row c row next) = length next"
  by (simp add: relax_row_def min_def)

lemma relax_row_nth: "j < length next \<Longrightarrow> j < length row \<Longrightarrow>
    relax_row c row next ! j = min (next ! j) (u32_add c (row ! j))"
  by (simp add: relax_row_def nth_append)

lemma length_enter_nodes [simp]: "length (enter_nodes ws next) = length next"
  by (simp add: enter_nodes_def min_def)

lemma enter_nodes_nth: "j < length next \<Longrightarrow> j < length ws \<Longrightarrow>
    enter_nodes ws next ! j = (if next ! j < INF_W then u32_add (next ! j) (ws ! j) else next ! j)"
  by (simp add: enter_nodes_def nth_append)

lemma length_fold_relax [simp]:
  "length (fold (\<lambda>(c, row). relax_row c row) rs nx) = length nx"
  by (induction rs arbitrary: nx) auto

lemma fold_relax_nth:
  assumes "j < length nx" and "\<And>c row. (c, row) \<in> set rs \<Longrightarrow> j < length row"
  shows "fold (\<lambda>(c, row). relax_row c row) rs nx ! j
    = fold min (map (\<lambda>(c, row). u32_add c (row ! j)) rs) (nx ! j)"
  using assms
proof (induction rs arbitrary: nx)
  case (Cons r rs)
  obtain c row where r: "r = (c, row)" by (cases r)
  have IH: "fold (\<lambda>(c, row). relax_row c row) rs (relax_row c row nx) ! j
      = fold min (map (\<lambda>(c, row). u32_add c (row ! j)) rs) (relax_row c row nx ! j)"
    using Cons.prems by (intro Cons.IH) auto
  have "j < length row" using Cons.prems(2) [of c row] r by simp
  then show ?case using IH Cons.prems(1) by (simp add: r relax_row_nth min.commute)
qed simp

lemma zip_rows:
  assumes "0 < n" and "length cur * n = length ws"
  shows "zip cur (chunks_exact n ws) = map (\<lambda>i. (cur ! i, take n (drop (i * n) ws))) [0..<length cur]"
proof -
  have "length ws div n = length cur" using assms by (metis div_mult_self_is_m)
  then show ?thesis
    using assms(1) by (intro nth_equalityI) (simp_all add: chunks_exact_row)
qed

lemma relax_rows_nth:
  assumes n: "0 < n" and len: "length cur * n = length ws" and j: "j < n"
    and small: "\<And>w. w \<in> set ws \<Longrightarrow> w \<le> INF_W"
  shows "fold (\<lambda>(c, row). relax_row c row)
      (filter (\<lambda>(c, row). c < INF_W) (zip cur (chunks_exact n ws))) (replicate n INF_W) ! j
    = relaxed (\<lambda>i. cur ! i) (length cur) (\<lambda>i. ws ! (i * n + j))"
proof -
  let ?live = "filter (\<lambda>i. cur ! i < INF_W) [0..<length cur]"
  let ?rs = "map (\<lambda>i. (cur ! i, take n (drop (i * n) ws))) ?live"
  have idx: "i * n + j < length ws" if "i < length cur" for i
    using row_index_bound [OF that j] len by simp
  have val: "u32_add (cur ! i) (take n (drop (i * n) ws) ! j) = cur ! i + ws ! (i * n + j)"
    if "i < length cur" "cur ! i < INF_W" for i
    using that small [OF nth_mem [OF idx [OF that(1)]]] j idx [OF that(1)]
    by (simp add: u32_simps INF_W_def)
  have "filter (\<lambda>(c, row). c < INF_W) (zip cur (chunks_exact n ws)) = ?rs"
    by (simp add: zip_rows [OF n len] filter_map comp_def)
  moreover have "fold (\<lambda>(c, row). relax_row c row) ?rs (replicate n INF_W) ! j
      = fold min (map (\<lambda>(c, row). u32_add c (row ! j)) ?rs) (replicate n INF_W ! j)"
    using j idx by (intro fold_relax_nth) (auto simp: less_diff_conv add.commute)
  moreover have "map (\<lambda>(c, row). u32_add c (row ! j)) ?rs = map (\<lambda>i. cur ! i + ws ! (i * n + j)) ?live"
    using val by auto
  ultimately show ?thesis using j by (simp only: relaxed_def nth_replicate)
qed

lemma relaxed_cong:
  assumes "\<And>i. i < w \<Longrightarrow> d i = d' i \<and> e i = e' i"
  shows "relaxed d w e = relaxed d' w e'"
proof -
  have "filter (\<lambda>i. d i < INF_W) [0..<w] = filter (\<lambda>i. d' i < INF_W) [0..<w]"
    using assms by (intro filter_cong) auto
  then have "map (\<lambda>i. d i + e i) (filter (\<lambda>i. d i < INF_W) [0..<w])
      = map (\<lambda>i. d' i + e' i) (filter (\<lambda>i. d' i < INF_W) [0..<w])"
    using assms by simp
  then show ?thesis by (simp add: relaxed_def)
qed

lemma relax_boundary_dp:
  assumes t: "trellis_ok t" "fully_resolved t" and l: "Suc l < layers t"
    and len: "length dist = length (node_table t)"
    and cur: "slice (offset t l, offset t (Suc l)) dist = dp_row t l"
  shows "relax_boundary (boundary_of t l) dist
    = Some (put_slice (offset t (Suc l), offset t (Suc (Suc l))) (dp_row t (Suc l)) dist)"
proof -
  let ?n = "widths t ! Suc l" and ?ws = "layer_weights t l"
  have n: "0 < ?n" using trellis_okD(2) [OF t(1)] l by (simp add: layers_def)
  have rl: "range_len (offset t (Suc l), offset t (Suc (Suc l))) = ?n" by (rule range_len_layer [OF l])
  let ?next = "fold (\<lambda>(c, row). relax_row c row)
      (filter (\<lambda>(c, row). c < INF_W) (zip (dp_row t l) (chunks_exact ?n ?ws))) (replicate ?n INF_W)"
  let ?nodes = "slice (offset t (Suc l), offset t (Suc (Suc l))) (node_table t)"
  have "enter_nodes ?nodes ?next = dp_row t (Suc l)"
  proof (rule nth_equalityI)
    fix j assume "j < length (enter_nodes ?nodes ?next)"
    then have j: "j < ?n" by simp
    have "?next ! j = relaxed (\<lambda>i. dp_row t l ! i) (widths t ! l) (\<lambda>i. ?ws ! (i * ?n + j))"
      using relax_rows_nth [OF n _ j, of "dp_row t l" ?ws] resolved_layer(2,3) [OF t l] by simp
    also have "\<dots> = relaxed (dp t l) (widths t ! l) (\<lambda>i. ew t l i j)"
      by (rule relaxed_cong) (simp add: ew_def)
    finally have m: "?next ! j = relaxed (dp t l) (widths t ! l) (\<lambda>i. ew t l i j)" .
    show "enter_nodes ?nodes ?next ! j = dp_row t (Suc l) ! j"
      using j m nw_le [OF t(1) l j] relaxed_le_INF [of "dp t l" "widths t ! l" "\<lambda>i. ew t l i j"]
      by (simp add: enter_nodes_nth length_node_weights [OF t(1) l] node_weights_nth [OF t(1) l]
          u32_simps MAX_WEIGHT_def INF_W_def)
  qed simp
  then show ?thesis
    using n offset_mono [of "Suc l" "Suc (Suc l)" t] offset_bound [OF t(1) l]
    by (simp add: relax_boundary_def boundary_of_def cur rl len)
qed

text \<open>After the boundaries up to layer \<open>k\<close>, the table holds the recurrence on layers \<open>0 .. k\<close>.\<close>

definition table_upto :: "trellis \<Rightarrow> layer_id \<Rightarrow> nat list \<Rightarrow> bool" where
  "table_upto t k dist \<longleftrightarrow> length dist = length (node_table t)
     \<and> (\<forall>l \<le> k. slice (offset t l, offset t (Suc l)) dist = dp_row t l)"

lemma table_upto_init: "trellis_ok t \<Longrightarrow> table_upto t 0 (node_table t)"
  using length_node_weights [of t 0] node_weights_nth [of t 0] trellis_okD(6) [of t]
  by (auto simp: table_upto_def intro!: nth_equalityI)

lemma table_upto_step:
  assumes t: "trellis_ok t" "fully_resolved t" and l: "Suc l < layers t" and tab: "table_upto t l dist"
  obtains dist' where "relax_boundary (boundary_of t l) dist = Some dist'" "table_upto t (Suc l) dist'"
proof
  let ?r = "(offset t (Suc l), offset t (Suc (Suc l)))"
  from tab have len: "length dist = length (node_table t)" by (simp add: table_upto_def)
  have b: "offset t (Suc (Suc l)) \<le> length dist" using offset_bound [OF t(1) l] len by simp
  have mono: "offset t (Suc l) \<le> offset t (Suc (Suc l))" by (simp add: offset_mono)
  show "relax_boundary (boundary_of t l) dist = Some (put_slice ?r (dp_row t (Suc l)) dist)"
    using tab by (intro relax_boundary_dp [OF t l len]) (simp add: table_upto_def)
  have rl: "range_len ?r = length (dp_row t (Suc l))" using range_len_layer [OF l] by simp
  have "slice (offset t k, offset t (Suc k)) (put_slice ?r (dp_row t (Suc l)) dist) = dp_row t k"
    if "k \<le> Suc l" for k
  proof (cases "k = Suc l")
    case True
    then show ?thesis using b mono rl by (simp add: slice_put_slice_same)
  next
    case False
    then have "offset t (Suc k) \<le> offset t (Suc l)" using that by (simp add: offset_mono)
    then show ?thesis using that False tab b mono by (simp add: slice_put_slice_before table_upto_def)
  qed
  then show "table_upto t (Suc l) (put_slice ?r (dp_row t (Suc l)) dist)"
    using b mono rl len by (simp add: table_upto_def)
qed

lemma forward_pass_dp:
  assumes "trellis_ok t" "fully_resolved t" "k < layers t" "table_upto t k dist"
  shows "\<exists>dist'. forward_pass (map (boundary_of t) [k..<layers t - 1]) dist = Some dist'
    \<and> table_upto t (layers t - 1) dist'"
  using assms(3,4)
proof (induction "layers t - 1 - k" arbitrary: k dist)
  case 0
  then have "k = layers t - 1" by simp
  then show ?case using 0 by simp
next
  case (Suc n)
  then have k: "Suc k < layers t" by simp
  obtain d' where d': "relax_boundary (boundary_of t k) dist = Some d'" "table_upto t (Suc k) d'"
    using table_upto_step [OF assms(1,2) k Suc.prems(2)] .
  have "[k..<layers t - 1] = k # [Suc k..<layers t - 1]" using k by (simp add: upt_conv_Cons)
  then show ?case using Suc.hyps(1) [of "Suc k" d'] Suc.hyps(2) k d' by simp
qed

lemma tables_ok:
  assumes "trellis_ok t" "fully_resolved t"
  obtains dist where "tables t = Ok (map (boundary_of t) [0..<layers t - 1],
      (offset t (layers t - 1), offset t (layers t)), dist)"
    "table_upto t (layers t - 1) dist"
proof -
  have L: "0 < layers t" by (rule trellis_okD(6) [OF assms(1)])
  then have "layer_ranges t \<noteq> []" using length_layer_ranges [of t] by fastforce
  then have lst: "last (layer_ranges t) = (offset t (layers t - 1), offset t (layers t))"
    using L by (simp add: last_conv_nth layer_ranges_nth)
  from forward_pass_dp [OF assms L table_upto_init [OF assms(1)]] obtain dist
    where "forward_pass (map (boundary_of t) [0..<layers t - 1]) (node_table t) = Some dist"
      "table_upto t (layers t - 1) dist" by auto
  then show ?thesis
    using \<open>layer_ranges t \<noteq> []\<close> by (intro that) (simp_all add: tables_def boundaries_resolved [OF assms] lst)
qed

lemma tables_pending:
  "trellis_ok t \<Longrightarrow> first_pending t = Some l \<Longrightarrow> tables t = Err (NotResolved l)"
  by (simp add: tables_def boundaries_pending)

end
