(* ===== verification/Viterbi_Laws.thy ===== *)
theory Viterbi_Laws
  imports Viterbi
begin

text \<open>
  What the solver guarantees: the path backtracking chooses is a valid path whose cost is the
  table's entry, no path is cheaper, the errors are exact; and the convergence query names the
  latest layer at which every live optimal path passes through one node, so that the prefix up
  to it never changes when layers are appended.
\<close>

section \<open>Predecessors\<close>

lemma step_by_conv:
  "0 < n \<Longrightarrow> step_by n xs = map (\<lambda>i. xs ! (i * n)) [0..<(length xs + n - 1) div n]"
proof (induction n xs rule: step_by.induct)
  case (2 n x xs)
  let ?m = "(length (drop (n - 1) xs) + n - 1) div n"
  have len: "(length (x # xs) + n - 1) div n = Suc ?m"
  proof (cases "length xs < n - 1")
    case True
    then have "?m = 0" and "length xs + n < n + n" "n \<le> length xs + n" using "2.prems" by auto
    moreover from this have "(length xs + n) div n = 1" by (simp add: div_nat_eqI)
    ultimately show ?thesis by simp
  next
    case False
    then have "length (x # xs) + n - 1 = (length (drop (n - 1) xs) + n - 1) + n" using "2.prems" by simp
    also have "\<dots> div n = Suc ?m" by (rule div_add_self2 [THEN trans]) (use "2.prems" in simp_all)
    finally show ?thesis .
  qed
  have "step_by n (x # xs) = x # map (\<lambda>i. drop (n - 1) xs ! (i * n)) [0..<?m]"
    using "2.IH" "2.prems" by simp
  also have "map (\<lambda>i. drop (n - 1) xs ! (i * n)) [0..<?m] = map (\<lambda>i. (x # xs) ! (Suc i * n)) [0..<?m]"
  proof (rule map_cong [OF refl])
    fix i assume "i \<in> set [0..<?m]"
    then have "Suc i * n \<le> length (drop (n - 1) xs) + n - 1"
      using "2.prems" less_eq_div_iff_mult_less_eq [of n "Suc i" "length (drop (n - 1) xs) + n - 1"]
      by (simp add: Suc_le_eq)
    then have "n - 1 \<le> length xs" using "2.prems" by (cases "n - 1 \<le> length xs") auto
    then show "drop (n - 1) xs ! (i * n) = (x # xs) ! (Suc i * n)"
      using "2.prems" by (simp add: nth_Cons')
  qed
  also have "x # map (\<lambda>i. (x # xs) ! (Suc i * n)) [0..<?m] = map (\<lambda>i. (x # xs) ! (i * n)) [0..<Suc ?m]"
    by (simp add: upt_conv_Cons map_Suc_upt [symmetric] comp_def del: upt_Suc)
  finally show ?case unfolding len .
qed simp

lemma step_by_column:
  assumes "j < n" and "length ws = w * n"
  shows "step_by n (drop j ws) = map (\<lambda>i. ws ! (i * n + j)) [0..<w]"
proof -
  have "(w * n - j + n - 1) div n = w"
    using assms(1) by (cases w) (auto intro!: div_nat_eqI simp: algebra_simps)
  moreover have "drop j ws ! (i * n) = ws ! (i * n + j)" if "i < w" for i
    using row_index_bound [OF that assms(1)] assms(2) by (simp add: add.commute)
  ultimately show ?thesis using assms by (simp add: step_by_conv)
qed

definition into_costs :: "trellis \<Rightarrow> layer_id \<Rightarrow> node_id \<Rightarrow> nat list" where
  "into_costs t l j = map (\<lambda>i. dp t l i + ew t l i j) [0..<widths t ! l]"

definition pred :: "trellis \<Rightarrow> layer_id \<Rightarrow> node_id \<Rightarrow> node_id" where
  "pred t l j = snd (the (min_index (into_costs t l j)))"

lemma predD:
  assumes "trellis_ok t" and "l < layers t"
  shows "min_index (into_costs t l j) = Some (dp t l (pred t l j) + ew t l (pred t l j) j, pred t l j)"
    and "pred t l j < widths t ! l"
    and "\<And>i. i < widths t ! l \<Longrightarrow> dp t l (pred t l j) + ew t l (pred t l j) j \<le> dp t l i + ew t l i j"
proof -
  have "0 < widths t ! l" using assms by (simp add: trellis_ok_def layers_def)
  then obtain c i where m: "min_index (into_costs t l j) = Some (c, i)"
    by (cases "min_index (into_costs t l j)") (auto simp: into_costs_def)
  then have i: "pred t l j = i" by (simp add: pred_def)
  note * = min_index_SomeD(1-3) [OF m]
  show "pred t l j < widths t ! l"
    and "min_index (into_costs t l j) = Some (dp t l (pred t l j) + ew t l (pred t l j) j, pred t l j)"
    and "\<And>i. i < widths t ! l \<Longrightarrow> dp t l (pred t l j) + ew t l (pred t l j) j \<le> dp t l i + ew t l i j"
    using m * by (auto simp: i into_costs_def)
qed

lemma predecessor_pred:
  assumes t: "trellis_ok t" "fully_resolved t" and l: "Suc l < layers t" "j < widths t ! Suc l"
    and tab: "table_upto t k dist" "l \<le> k"
  shows "predecessor (boundary_of t l) dist j = Some (pred t l j)"
proof -
  have rl: "range_len (offset t (Suc l), offset t (Suc (Suc l))) = widths t ! Suc l"
    by (rule range_len_layer [OF l(1)])
  have col: "step_by (widths t ! Suc l) (drop j (layer_weights t l)) = map (\<lambda>i. ew t l i j) [0..<widths t ! l]"
    using step_by_column [OF l(2) resolved_layer(2) [OF t l(1)]] by (simp add: ew_def)
  have cur: "slice (offset t l, offset t (Suc l)) dist = map (dp t l) [0..<widths t ! l]"
    using tab by (simp add: table_upto_def dp_row_def)
  have "map (\<lambda>(c, e). saturating_add c e) (zip (map (dp t l) [0..<widths t ! l])
      (map (\<lambda>i. ew t l i j) [0..<widths t ! l])) = into_costs t l j"
  proof (rule nth_equalityI)
    fix i assume "i < length (map (\<lambda>(c, e). saturating_add c e) (zip (map (dp t l) [0..<widths t ! l])
        (map (\<lambda>i. ew t l i j) [0..<widths t ! l])))"
    then have i: "i < widths t ! l" by simp
    have "dp t l i + ew t l i j \<le> U32_MAX"
      using dp_bound [OF t(1) _ i] ew_le [OF t l(1) i l(2)] l(1) by (simp add: INF_W_def)
    then show "map (\<lambda>(c, e). saturating_add c e) (zip (map (dp t l) [0..<widths t ! l])
        (map (\<lambda>i. ew t l i j) [0..<widths t ! l])) ! i = into_costs t l j ! i"
      using i by (simp add: into_costs_def saturating_add_exact)
  qed (simp add: into_costs_def)
  then show ?thesis
    using predD(1) [OF t(1), of l j] l(1)
    by (simp add: predecessor_def boundary_of_def rl col cur)
qed

lemma live_pred:
  assumes t: "trellis_ok t" and l: "Suc l < layers t" and live: "dp t (Suc l) j < INF_W"
  shows "dp t l (pred t l j) < INF_W"
    and "dp t (Suc l) j = dp t l (pred t l j) + ew t l (pred t l j) j + nw t (Suc l) j"
proof -
  let ?m = "relaxed (dp t l) (widths t ! l) (\<lambda>i. ew t l i j)"
  have m: "?m < INF_W" using live by (auto simp: Let_def split: if_splits)
  then obtain i where i: "i < widths t ! l" "dp t l i < INF_W" "?m = dp t l i + ew t l i j"
    by (rule relaxed_attained)
  have le: "dp t l (pred t l j) + ew t l (pred t l j) j \<le> ?m"
    using predD(3) [OF t, of l i j] i l by simp
  then show p: "dp t l (pred t l j) < INF_W" using m by simp
  have "?m \<le> dp t l (pred t l j) + ew t l (pred t l j) j"
    using predD(2) [OF t, of l j] l p by (intro relaxed_le) auto
  with le m show "dp t (Suc l) j = dp t l (pred t l j) + ew t l (pred t l j) j + nw t (Suc l) j"
    by (simp add: Let_def)
qed

section \<open>The paths backtracking chooses\<close>

fun best_path :: "trellis \<Rightarrow> layer_id \<Rightarrow> node_id \<Rightarrow> node_id list" where
  "best_path t 0 j = [j]"
| "best_path t (Suc l) j = best_path t l (pred t l j) @ [j]"

lemma length_best_path [simp]: "length (best_path t l j) = Suc l"
  by (induction l arbitrary: j) auto

lemma best_path_last [simp]: "best_path t l j ! l = j"
  by (cases l) (auto simp: nth_append)

lemma best_path_take: "k \<le> l \<Longrightarrow> take (Suc k) (best_path t l j) = best_path t k (best_path t l j ! k)"
proof (induction l arbitrary: j)
  case (Suc l)
  then show ?case by (cases "k = Suc l") (auto simp: nth_append)
qed simp

lemma best_path_range:
  assumes "trellis_ok t" "l < layers t" "j < widths t ! l" "k \<le> l"
  shows "best_path t l j ! k < widths t ! k"
  using assms(2-)
proof (induction l arbitrary: j)
  case (Suc l)
  then show ?case
    using predD(2) [OF assms(1), of l j] by (cases "k = Suc l") (auto simp: nth_append)
qed simp

lemma best_path_live:
  assumes "trellis_ok t" "l < layers t" "dp t l j < INF_W" "k \<le> l"
  shows "dp t k (best_path t l j ! k) < INF_W"
  using assms(2-)
proof (induction l arbitrary: j)
  case (Suc l)
  then show ?case
    using live_pred(1) [OF assms(1), of l j] by (cases "k = Suc l") (auto simp: nth_append)
qed simp

lemma exact_cost_snoc:
  "exact_cost t k (ns @ [a, b])
    = exact_cost t k (ns @ [a]) + ew t (k + length ns) a b + nw t (Suc (k + length ns)) b"
proof (induction ns arbitrary: k)
  case (Cons n ns)
  then show ?case by (cases ns) auto
qed simp

lemma best_path_split: "best_path t l j = take l (best_path t l j) @ [j]"
  using take_Suc_conv_app_nth [of l "best_path t l j"] by simp

lemma best_path_cost:
  assumes "trellis_ok t" "l < layers t" "dp t l j < INF_W"
  shows "exact_cost t 0 (best_path t l j) = dp t l j"
  using assms(2-)
proof (induction l arbitrary: j)
  case (Suc l)
  note p = live_pred [OF assms(1) Suc.prems(1,2)]
  let ?p = "pred t l j"
  have "exact_cost t 0 (best_path t (Suc l) j)
      = exact_cost t 0 (take l (best_path t l ?p) @ [?p, j])"
    using best_path_split [of t l ?p] by (metis append.assoc append_Cons append_Nil best_path.simps(2))
  also have "\<dots> = exact_cost t 0 (best_path t l ?p) + ew t l ?p j + nw t (Suc l) j"
    using best_path_split [of t l ?p] by (simp add: exact_cost_snoc min_def)
  finally show ?case using Suc.IH [of ?p] Suc.prems p by simp
qed simp

section \<open>No path is cheaper\<close>

lemma dp_lower_bound:
  assumes "trellis_ok t" "length ns = Suc l" "l < layers t" "\<forall>k \<le> l. ns ! k < widths t ! k"
    "exact_cost t 0 ns < INF_W"
  shows "dp t l (ns ! l) \<le> exact_cost t 0 ns"
  using assms(2-)
proof (induction l arbitrary: ns)
  case 0
  then obtain n where "ns = [n]" by (cases ns) auto
  then show ?case by simp
next
  case (Suc l)
  define us a b where "us = take l ns" and "a = ns ! l" and "b = ns ! Suc l"
  have ns: "ns = us @ [a, b]"
    using Suc.prems(1) take_Suc_conv_app_nth [of l ns] take_Suc_conv_app_nth [of "Suc l" ns]
    by (simp add: us_def a_def b_def)
  have us: "length us = l" using Suc.prems(1) by (simp add: us_def)
  have cost: "exact_cost t 0 ns = exact_cost t 0 (us @ [a]) + ew t l a b + nw t (Suc l) b"
    by (simp add: ns exact_cost_snoc us)
  have "dp t l ((us @ [a]) ! l) \<le> exact_cost t 0 (us @ [a])"
  proof (rule Suc.IH)
    show "\<forall>k \<le> l. (us @ [a]) ! k < widths t ! k"
    proof (intro allI impI)
      fix k assume k: "k \<le> l"
      then have "(us @ [a]) ! k = ns ! k" using us by (auto simp: ns nth_append)
      then show "(us @ [a]) ! k < widths t ! k" using Suc.prems(3) k by simp
    qed
  qed (use Suc.prems cost us in auto)
  then have a: "dp t l a \<le> exact_cost t 0 (us @ [a])" using us by (simp add: nth_append)
  have "a < widths t ! l" using Suc.prems(3) by (simp add: a_def)
  then have "relaxed (dp t l) (widths t ! l) (\<lambda>i. ew t l i b) \<le> dp t l a + ew t l a b"
    using a cost Suc.prems(4) by (intro relaxed_le) auto
  then show ?case using a cost Suc.prems(4) by (auto simp: Let_def b_def [symmetric])
qed

section \<open>Solving\<close>

lemma backtrack_scan_best_path:
  assumes t: "trellis_ok t" "fully_resolved t" and tab: "table_upto t (layers t - 1) dist"
  shows "l < layers t \<Longrightarrow> j < widths t ! l \<Longrightarrow>
    rev (backtrack_scan dist j (rev (map (boundary_of t) [0..<l]))) @ [j] = best_path t l j"
proof (induction l arbitrary: j)
  case (Suc l)
  then have "predecessor (boundary_of t l) dist j = Some (pred t l j)"
    by (intro predecessor_pred [OF t _ _ tab]) auto
  moreover have "pred t l j < widths t ! l" using predD(2) [OF t(1), of l j] Suc.prems by simp
  ultimately show ?case using Suc by simp
qed simp

lemma last_slice:
  assumes "trellis_ok t" "table_upto t (layers t - 1) dist"
  shows "slice (offset t (layers t - 1), offset t (layers t)) dist = dp_row t (layers t - 1)"
    and "offset t (layers t) \<le> length dist"
  using assms trellis_okD(6) [OF assms(1)] offset_layers [OF assms(1)]
  by (auto simp: table_upto_def)

text \<open>The cost-minimal final node, ties to the lowest.\<close>

definition final_best :: "trellis \<Rightarrow> nat \<times> node_id" where
  "final_best t = the (min_index (dp_row t (layers t - 1)))"

lemma final_bestD:
  assumes "trellis_ok t" and "final_best t = (c, j)"
  shows "min_index (dp_row t (layers t - 1)) = Some (c, j)" and "j < widths t ! (layers t - 1)"
    and "c = dp t (layers t - 1) j"
    and "\<And>i. i < widths t ! (layers t - 1) \<Longrightarrow> c \<le> dp t (layers t - 1) i"
proof -
  have "0 < widths t ! (layers t - 1)" using assms(1) by (simp add: trellis_ok_def layers_def)
  then have "dp_row t (layers t - 1) \<noteq> []" by (metis length_dp_row length_greater_0_conv)
  then show m: "min_index (dp_row t (layers t - 1)) = Some (c, j)"
    using assms(2) by (cases "min_index (dp_row t (layers t - 1))") (auto simp: final_best_def)
  show "j < widths t ! (layers t - 1)" using min_index_SomeD(1) [OF m] by simp
  with min_index_SomeD(2,3) [OF m] show "c = dp t (layers t - 1) j"
    and "\<And>i. i < widths t ! (layers t - 1) \<Longrightarrow> c \<le> dp t (layers t - 1) i" by auto
qed

lemma viterbi_solve_resolved:
  assumes t: "trellis_ok t" "fully_resolved t" and fb: "final_best t = (c, j)"
  shows "viterbi_solve t = (if c \<ge> INF_W then Err Unreachable
      else Ok \<lparr>path_nodes = best_path t (layers t - 1) j, path_total = c\<rparr>)"
proof -
  obtain dist where tab: "tables t = Ok (map (boundary_of t) [0..<layers t - 1],
      (offset t (layers t - 1), offset t (layers t)), dist)" "table_upto t (layers t - 1) dist"
    using tables_ok [OF t] .
  have "rev (backtrack_scan dist j (rev (map (boundary_of t) [0..<layers t - 1]))) @ [j]
      = best_path t (layers t - 1) j"
    using final_bestD(2) [OF t(1) fb] trellis_okD(6) [OF t(1)]
    by (intro backtrack_scan_best_path [OF t tab(2)]) auto
  then show ?thesis
    using tab(1) last_slice [OF t(1) tab(2)] final_bestD(1) [OF t(1) fb]
    by (simp add: viterbi_solve_def backtrack_def)
qed

lemma viterbi_solve_pending:
  "trellis_ok t \<Longrightarrow> first_pending t = Some l \<Longrightarrow> viterbi_solve t = Err (NotResolved l)"
  by (simp add: viterbi_solve_def tables_pending)

lemma best_path_valid:
  "trellis_ok t \<Longrightarrow> j < widths t ! (layers t - 1) \<Longrightarrow> valid_path t (best_path t (layers t - 1) j)"
  using best_path_range [of t "layers t - 1" j] trellis_okD(6) [of t]
  by (auto simp: valid_path_def)

lemma viterbi_solve_sound:
  assumes t: "trellis_ok t" and ok: "viterbi_solve t = Ok p"
  shows "fully_resolved t" and "valid_path t (path_nodes p)"
    and "path_total p = exact_cost t 0 (path_nodes p)" and "path_total p < INF_W"
proof -
  show r: "fully_resolved t"
    using ok viterbi_solve_pending [OF t] first_pending_None_iff [of t]
    by (cases "first_pending t") auto
  obtain c j where fb: "final_best t = (c, j)" by (cases "final_best t")
  have p: "c < INF_W" "p = \<lparr>path_nodes = best_path t (layers t - 1) j, path_total = c\<rparr>"
    using ok viterbi_solve_resolved [OF t r fb] by (auto split: if_splits)
  then show "path_total p < INF_W" by simp
  show "valid_path t (path_nodes p)"
    using p best_path_valid [OF t final_bestD(2) [OF t fb]] by simp
  show "path_total p = exact_cost t 0 (path_nodes p)"
    using p best_path_cost [OF t, of "layers t - 1" j] final_bestD(3) [OF t fb] trellis_okD(6) [OF t]
    by simp
qed

lemma viterbi_solve_complete:
  assumes t: "trellis_ok t" "fully_resolved t" and ns: "valid_path t ns" "exact_cost t 0 ns < INF_W"
  obtains p where "viterbi_solve t = Ok p" "path_total p \<le> exact_cost t 0 ns"
proof -
  obtain c j where fb: "final_best t = (c, j)" by (cases "final_best t")
  have L: "0 < layers t" by (rule trellis_okD(6) [OF t(1)])
  have "ns ! (layers t - 1) < widths t ! (layers t - 1)" using ns(1) L by (auto simp: valid_path_def)
  then have "c \<le> dp t (layers t - 1) (ns ! (layers t - 1))" by (rule final_bestD(4) [OF t(1) fb])
  also have "\<dots> \<le> exact_cost t 0 ns"
    using ns L by (intro dp_lower_bound [OF t(1)]) (auto simp: valid_path_def)
  finally show ?thesis
    using ns(2) viterbi_solve_resolved [OF t fb] by (intro that) auto
qed

lemma viterbi_solve_unreachable:
  assumes "trellis_ok t" "fully_resolved t" and "\<And>ns. valid_path t ns \<Longrightarrow> exact_cost t 0 ns \<ge> INF_W"
  shows "viterbi_solve t = Err Unreachable"
proof -
  obtain c j where fb: "final_best t = (c, j)" by (cases "final_best t")
  have "\<not> c < INF_W"
    using viterbi_solve_resolved [OF assms(1,2) fb] viterbi_solve_sound(2-4) [OF assms(1)] assms(3)
    by (metis not_le)
  then show ?thesis using viterbi_solve_resolved [OF assms(1,2) fb] by simp
qed

end
