(* ===== verification/Convergence.thy ===== *)
theory Convergence
  imports Viterbi_Laws "HOL-Library.Sublist"
begin

text \<open>
  The convergence query of \<open>ViterbiSolver\<close>: it names the latest layer all live optimal paths
  share, and appending layers never changes what was chosen up to it.
\<close>

section \<open>Live paths and their frontier\<close>

definition live :: "trellis \<Rightarrow> node_id set" where
  "live t = {j. j < widths t ! (layers t - 1) \<and> dp t (layers t - 1) j < INF_W}"

definition frontier :: "trellis \<Rightarrow> layer_id \<Rightarrow> node_id set" where
  "frontier t l = (\<lambda>j. best_path t (layers t - 1) j ! l) ` live t"

definition fused_at :: "trellis \<Rightarrow> layer_id \<Rightarrow> bool" where
  "fused_at t l \<longleftrightarrow> (\<exists>n. \<forall>j \<in> live t. best_path t (layers t - 1) j ! l = n)"

lemma finite_live [simp]: "finite (live t)"
  by (simp add: live_def)

lemma finite_frontier [simp]: "finite (frontier t l)"
  by (simp add: frontier_def)

lemma frontier_last: "frontier t (layers t - 1) = live t"
  by (simp add: frontier_def)

lemma best_path_pred:
  assumes "l < k"
  shows "best_path t k j ! l = pred t l (best_path t k j ! Suc l)"
proof -
  have "best_path t k j ! l = take (Suc (Suc l)) (best_path t k j) ! l" by simp
  also have "\<dots> = best_path t (Suc l) (best_path t k j ! Suc l) ! l"
    using assms by (simp only: best_path_take Suc_leI)
  also have "\<dots> = pred t l (best_path t k j ! Suc l)" by (simp add: nth_append)
  finally show ?thesis .
qed

lemma frontier_pred: "Suc l < layers t \<Longrightarrow> frontier t l = pred t l ` frontier t (Suc l)"
  unfolding frontier_def image_image by (rule image_cong [OF refl]) (simp add: best_path_pred)

lemma frontier_range:
  "trellis_ok t \<Longrightarrow> l < layers t \<Longrightarrow> n \<in> frontier t l \<Longrightarrow> n < widths t ! l"
  using best_path_range [of t "layers t - 1"] by (auto simp: frontier_def live_def)

lemma fused_at_card: "live t \<noteq> {} \<Longrightarrow> fused_at t l \<longleftrightarrow> card (frontier t l) = 1"
  by (auto simp: fused_at_def frontier_def card_1_singleton_iff image_iff) blast+

section \<open>The sweep\<close>

lemma map_filter_Some: "(\<And>x. x \<in> set xs \<Longrightarrow> f x = Some (g x)) \<Longrightarrow> List.map_filter f xs = map g xs"
  by (induction xs) (auto simp: List.map_filter_def)

lemma converge_step:
  assumes t: "trellis_ok t" "fully_resolved t" and tab: "table_upto t (layers t - 1) dist"
    and l: "Suc l < layers t" and fs: "set fs = frontier t (Suc l)"
  defines "fs' \<equiv> dedup (sort (List.map_filter (predecessor (boundary_of t l) dist) fs))"
  shows "set fs' = frontier t l" and "length fs' = card (frontier t l)"
proof -
  have "List.map_filter (predecessor (boundary_of t l) dist) fs = map (pred t l) fs"
    using frontier_range [OF t(1) l] fs l
    by (intro map_filter_Some predecessor_pred [OF t l _ tab]) auto
  then have *: "fs' = dedup (sort (map (pred t l) fs))" by (simp add: fs'_def)
  then show "set fs' = frontier t l" by (simp add: fs frontier_pred [OF l])
  with * show "length fs' = card (frontier t l)" by (simp add: length_dedup_sorted)
qed

lemma converge_scan_spec:
  assumes t: "trellis_ok t" "fully_resolved t" and tab: "table_upto t (layers t - 1) dist"
  shows "k < layers t \<Longrightarrow> set fs = frontier t k \<Longrightarrow>
    (case converge_scan dist fs (rev (map (boundary_of t) [0..<k])) of
       None \<Rightarrow> \<forall>l < k. card (frontier t l) \<noteq> 1
     | Some l \<Rightarrow> l < k \<and> card (frontier t l) = 1 \<and> (\<forall>m. l < m \<longrightarrow> m < k \<longrightarrow> card (frontier t m) \<noteq> 1))"
proof (induction k arbitrary: fs)
  case (Suc k)
  define fs' where "fs' = dedup (sort (List.map_filter (predecessor (boundary_of t k) dist) fs))"
  note step = converge_step [OF t tab Suc.prems, folded fs'_def]
  show ?case
  proof (cases "length fs' = 1")
    case True
    then show ?thesis using step(2) by (simp add: fs'_def boundary_of_def)
  next
    case False
    moreover have "k < layers t" using Suc.prems(1) by simp
    ultimately show ?thesis
      using Suc.IH [OF _ step(1)] step(2)
      by (auto simp: fs'_def [symmetric] less_Suc_eq split: option.splits)
  qed
qed simp

lemma length_live_list:
  assumes "trellis_ok t" "table_upto t (layers t - 1) dist"
  defines "fs \<equiv> map fst (filter (\<lambda>(node, cost). cost < INF_W)
      (enumerate 0 (slice (offset t (layers t - 1), offset t (layers t)) dist)))"
  shows "set fs = live t" and "length fs = card (live t)"
proof -
  have fs: "fs = map fst (filter (\<lambda>(node, cost). cost < INF_W) (enumerate 0 (dp_row t (layers t - 1))))"
    using last_slice(1) [OF assms(1,2)] by (simp add: fs_def)
  show set: "set fs = live t" unfolding fs by (force simp: in_set_enumerate_eq live_def image_iff)
  have "sorted_wrt (<) (map fst (enumerate 0 (dp_row t (layers t - 1))))" by simp
  then have "distinct fs"
    unfolding fs by (metis distinct_map_filter strict_sorted_iff)
  then show "length fs = card (live t)" using set distinct_card by metis
qed

lemma convergence_resolved:
  assumes t: "trellis_ok t" "fully_resolved t"
  shows "live t = {} \<Longrightarrow> convergence t = Err Unreachable"
    and "live t \<noteq> {} \<Longrightarrow> \<exists>r. convergence t = Ok r \<and> (case r of
        None \<Rightarrow> \<forall>l < layers t. \<not> fused_at t l
      | Some l \<Rightarrow> l < layers t \<and> fused_at t l \<and> (\<forall>m. l < m \<longrightarrow> m < layers t \<longrightarrow> \<not> fused_at t m))"
proof -
  obtain dist where tab: "tables t = Ok (map (boundary_of t) [0..<layers t - 1],
      (offset t (layers t - 1), offset t (layers t)), dist)" "table_upto t (layers t - 1) dist"
    using tables_ok [OF t] .
  have L: "0 < layers t" by (rule trellis_okD(6) [OF t(1)])
  define fs where "fs = map fst (filter (\<lambda>(node, cost). cost < INF_W)
      (enumerate 0 (slice (offset t (layers t - 1), offset t (layers t)) dist)))"
  note fs = length_live_list [OF t(1) tab(2), folded fs_def]
  have dead: "list_all (\<lambda>c. INF_W \<le> c) (dp_row t (layers t - 1)) \<longleftrightarrow> live t = {}"
    by (auto simp: list_all_length live_def)
  note ls = last_slice [OF t(1) tab(2)]
  show "convergence t = Err Unreachable" if "live t = {}"
    using that dead tab(1) ls by (simp add: convergence_def)
  assume ne: "live t \<noteq> {}"
  define r where "r = (if length fs = 1 then Some (layers t - 1)
      else converge_scan dist fs (rev (map (boundary_of t) [0..<layers t - 1])))"
  have "convergence t = Ok r"
    using ne dead tab(1) ls by (simp add: convergence_def converged_layer_def r_def fs_def Let_def)
  moreover have "case r of None \<Rightarrow> \<forall>l < layers t. \<not> fused_at t l
      | Some l \<Rightarrow> l < layers t \<and> fused_at t l \<and> (\<forall>m. l < m \<longrightarrow> m < layers t \<longrightarrow> \<not> fused_at t m)"
  proof (cases "length fs = 1")
    case True
    then show ?thesis using L fs(2) frontier_last [of t] by (auto simp: r_def fused_at_card [OF ne])
  next
    case False
    obtain K where K: "layers t = Suc K" using L by (cases "layers t") auto
    have top: "card (frontier t K) \<noteq> 1" using False fs(2) frontier_last [of t] K by simp
    have "case r of None \<Rightarrow> \<forall>l < K. card (frontier t l) \<noteq> 1
      | Some l \<Rightarrow> l < K \<and> card (frontier t l) = 1 \<and> (\<forall>m. l < m \<longrightarrow> m < K \<longrightarrow> card (frontier t m) \<noteq> 1)"
      using converge_scan_spec [OF t tab(2), of K fs] fs(1) False frontier_last [of t] K
      by (simp add: r_def)
    then show ?thesis
      using top by (cases r) (auto simp: fused_at_card [OF ne] K less_Suc_eq)
  qed
  ultimately show "\<exists>r. convergence t = Ok r \<and> (case r of None \<Rightarrow> \<forall>l < layers t. \<not> fused_at t l
      | Some l \<Rightarrow> l < layers t \<and> fused_at t l \<and> (\<forall>m. l < m \<longrightarrow> m < layers t \<longrightarrow> \<not> fused_at t m))"
    by blast
qed

lemma convergence_pending:
  "trellis_ok t \<Longrightarrow> first_pending t = Some l \<Longrightarrow> convergence t = Err (NotResolved l)"
  by (simp add: convergence_def tables_pending)

lemma live_iff_solvable:
  assumes t: "trellis_ok t" "fully_resolved t"
  shows "live t = {} \<longleftrightarrow> viterbi_solve t = Err Unreachable"
proof -
  obtain c j where fb: "final_best t = (c, j)" by (cases "final_best t")
  have "live t = {} \<longleftrightarrow> c \<ge> INF_W"
    using final_bestD(2-4) [OF t(1) fb] by (fastforce simp: live_def not_less)
  then show ?thesis using viterbi_solve_resolved [OF t fb] by auto
qed

lemma convergence_Some_iff:
  assumes t: "trellis_ok t" "fully_resolved t" and ne: "live t \<noteq> {}"
  shows "convergence t = Ok (Some l) \<longleftrightarrow>
    l < layers t \<and> fused_at t l \<and> (\<forall>m. l < m \<longrightarrow> m < layers t \<longrightarrow> \<not> fused_at t m)"
proof -
  from convergence_resolved(2) [OF t ne] obtain r where r: "convergence t = Ok r"
    "case r of None \<Rightarrow> \<forall>l < layers t. \<not> fused_at t l
      | Some l \<Rightarrow> l < layers t \<and> fused_at t l \<and> (\<forall>m. l < m \<longrightarrow> m < layers t \<longrightarrow> \<not> fused_at t m)"
    by blast
  then show ?thesis
    by (auto split: option.splits) (metis linorder_less_linear)+
qed

lemma convergence_okD:
  assumes "trellis_ok t" "convergence t = Ok r"
  shows "fully_resolved t" "live t \<noteq> {}"
proof -
  show "fully_resolved t"
    using assms convergence_pending [OF assms(1)] first_pending_None_iff [of t]
    by (cases "first_pending t") auto
  then show "live t \<noteq> {}" using assms convergence_resolved(1) by fastforce
qed

lemma convergence_Err_iff:
  assumes "trellis_ok t"
  shows "convergence t = Err e \<longleftrightarrow> viterbi_solve t = Err e"
proof (cases "first_pending t")
  case None
  then have r: "fully_resolved t" by (simp add: first_pending_None_iff)
  obtain c j where fb: "final_best t = (c, j)" by (cases "final_best t")
  have "viterbi_solve t = Err e \<longleftrightarrow> e = Unreachable \<and> live t = {}"
    using live_iff_solvable [OF assms r] viterbi_solve_resolved [OF assms r fb] by auto
  moreover have "convergence t = Err e \<longleftrightarrow> e = Unreachable \<and> live t = {}"
    using convergence_resolved [OF assms r] by (cases "live t = {}") auto
  ultimately show ?thesis by simp
next
  case (Some k)
  then show ?thesis
    by (simp add: viterbi_solve_pending [OF assms] convergence_pending [OF assms])
qed

section \<open>Growth\<close>

text \<open>\<open>t'\<close> continues \<open>t\<close>: the layers, node weights and transitions of \<open>t\<close> are a prefix of its own.\<close>

definition extends :: "trellis \<Rightarrow> trellis \<Rightarrow> bool" where
  "extends t t' \<longleftrightarrow> prefix (widths t) (widths t') \<and> prefix (node_table t) (node_table t')
     \<and> prefix (transitions t) (transitions t')"

lemma extends_refl [simp]: "extends t t"
  by (simp add: extends_def)

lemma extends_trans: "extends t t1 \<Longrightarrow> extends t1 t2 \<Longrightarrow> extends t t2"
  by (auto simp: extends_def intro: prefix_order.trans)

lemma extends_layers: "extends t t' \<Longrightarrow> layers t \<le> layers t'"
  by (simp add: extends_def layers_def prefix_length_le)

lemma prefix_nth: "prefix xs ys \<Longrightarrow> i < length xs \<Longrightarrow> ys ! i = xs ! i"
  by (auto simp: prefix_def nth_append)

lemma extends_widths: "extends t t' \<Longrightarrow> l < layers t \<Longrightarrow> widths t' ! l = widths t ! l"
  by (simp add: extends_def layers_def prefix_nth)

lemma extends_offset: "extends t t' \<Longrightarrow> l \<le> layers t \<Longrightarrow> offset t' l = offset t l"
  by (auto simp: extends_def layers_def offset_def prefix_def)

lemma extends_nw:
  "trellis_ok t \<Longrightarrow> extends t t' \<Longrightarrow> l < layers t \<Longrightarrow> j < widths t ! l \<Longrightarrow> nw t' l j = nw t l j"
  using node_index_bound [of t l j] by (simp add: nw_def extends_offset) (simp add: extends_def prefix_nth)

lemma extends_ew:
  assumes "trellis_ok t" "extends t t'" "Suc l < layers t"
  shows "ew t' l i j = ew t l i j"
proof -
  have "l < length (transitions t)" using assms by (auto simp: trellis_okD(5))
  then have "transitions t' ! l = transitions t ! l" using assms(2) by (simp add: extends_def prefix_nth)
  then show ?thesis using assms extends_widths [of t t' "Suc l"] by (simp add: ew_def layer_weights_def)
qed

lemma extends_dp:
  assumes t: "trellis_ok t" "extends t t'"
  shows "l < layers t \<Longrightarrow> j < widths t ! l \<Longrightarrow> dp t' l j = dp t l j"
proof (induction l arbitrary: j)
  case 0
  then show ?case by (simp add: extends_nw [OF t])
next
  case (Suc l)
  have "relaxed (dp t' l) (widths t' ! l) (\<lambda>i. ew t' l i j) = relaxed (dp t l) (widths t ! l) (\<lambda>i. ew t l i j)"
    unfolding extends_widths [OF t(2) Suc_lessD [OF Suc.prems(1)]]
    using Suc by (intro relaxed_cong) (simp add: extends_ew [OF t])
  then show ?case using Suc.prems by (simp add: extends_nw [OF t] Let_def)
qed

lemma extends_pred:
  assumes t: "trellis_ok t" "extends t t'" and l: "Suc l < layers t"
  shows "pred t' l j = pred t l j"
proof -
  have "into_costs t' l j = into_costs t l j"
    unfolding into_costs_def using extends_widths [OF t(2)] extends_dp [OF t] extends_ew [OF t l] l by auto
  then show ?thesis by (simp add: pred_def)
qed

lemma extends_best_path:
  assumes t: "trellis_ok t" "extends t t'"
  shows "l < layers t \<Longrightarrow> best_path t' l j = best_path t l j"
proof (induction l arbitrary: j)
  case (Suc l)
  then show ?case by (simp add: extends_pred [OF t])
qed simp

text \<open>Every live path of the grown trellis passes through a live final node of the old one.\<close>

lemma live_through:
  assumes t: "trellis_ok t" and t': "trellis_ok t'" and e: "extends t t'" and j: "j \<in> live t'"
  shows "best_path t' (layers t' - 1) j ! (layers t - 1) \<in> live t"
    and "\<And>l. l < layers t \<Longrightarrow> take (Suc l) (best_path t' (layers t' - 1) j)
      = take (Suc l) (best_path t (layers t - 1) (best_path t' (layers t' - 1) j ! (layers t - 1)))"
proof -
  let ?L = "layers t - 1" and ?L' = "layers t' - 1"
  let ?i = "best_path t' ?L' j ! ?L"
  have L: "0 < layers t" "layers t \<le> layers t'" using trellis_okD(6) [OF t] extends_layers [OF e] by auto
  have i: "?i < widths t ! ?L"
    using best_path_range [OF t', of ?L' j ?L] j L extends_widths [OF e, of ?L] by (auto simp: live_def)
  moreover have "dp t' ?L ?i < INF_W"
    using best_path_live [OF t', of ?L' j ?L] j L by (auto simp: live_def)
  ultimately show "?i \<in> live t" using extends_dp [OF t e, of ?L ?i] L by (simp add: live_def)
  fix l assume l: "l < layers t"
  have "take (Suc l) (best_path t' ?L' j) = take (Suc l) (take (Suc ?L) (best_path t' ?L' j))"
    using l by (simp add: min_def)
  also have "take (Suc ?L) (best_path t' ?L' j) = best_path t' ?L ?i" using L by (intro best_path_take) simp
  also have "best_path t' ?L ?i = best_path t ?L ?i" using L by (intro extends_best_path [OF t e]) simp
  finally show "take (Suc l) (best_path t' ?L' j) = take (Suc l) (best_path t ?L ?i)" .
qed

lemma fused_extends:
  assumes "trellis_ok t" "trellis_ok t'" "extends t t'" "l < layers t" "fused_at t l"
  shows "fused_at t' l"
proof -
  from assms(5) obtain n where n: "\<forall>i \<in> live t. best_path t (layers t - 1) i ! l = n"
    by (auto simp: fused_at_def)
  have "best_path t' (layers t' - 1) j ! l = n" if "j \<in> live t'" for j
  proof -
    note * = live_through [OF assms(1-3) that]
    have "best_path t' (layers t' - 1) j ! l = take (Suc l) (best_path t' (layers t' - 1) j) ! l" by simp
    also have "\<dots> = n" using *(1) n by (simp only: *(2) [OF assms(4)]) simp
    finally show ?thesis .
  qed
  then show ?thesis by (auto simp: fused_at_def)
qed

lemma solved_path:
  assumes "trellis_ok t" "viterbi_solve t = Ok p"
  obtains j where "j \<in> live t" "path_nodes p = best_path t (layers t - 1) j"
proof -
  have r: "fully_resolved t" by (rule viterbi_solve_sound(1) [OF assms])
  obtain c j where fb: "final_best t = (c, j)" by (cases "final_best t")
  show ?thesis
    using assms viterbi_solve_resolved [OF assms(1) r fb] final_bestD(2,3) [OF assms(1) fb]
    by (intro that [of j]) (auto simp: live_def split: if_splits)
qed

lemma converged_prefix:
  assumes t: "trellis_ok t" "convergence t = Ok (Some l)"
    and t': "trellis_ok t'" "extends t t'" and sol: "viterbi_solve t = Ok p" "viterbi_solve t' = Ok p'"
  shows "take (Suc l) (path_nodes p') = take (Suc l) (path_nodes p)"
proof -
  have l: "l < layers t" and "fused_at t l"
    using convergence_Some_iff [OF t(1) convergence_okD [OF t]] t(2) by auto
  then obtain n where n: "\<And>i. i \<in> live t \<Longrightarrow> best_path t (layers t - 1) i ! l = n"
    by (auto simp: fused_at_def)
  obtain j where j: "j \<in> live t" "path_nodes p = best_path t (layers t - 1) j"
    using solved_path [OF t(1) sol(1)] .
  obtain j' where j': "j' \<in> live t'" "path_nodes p' = best_path t' (layers t' - 1) j'"
    using solved_path [OF t'(1) sol(2)] .
  have pre: "take (Suc l) (best_path t (layers t - 1) i) = best_path t l n" if "i \<in> live t" for i
    using best_path_take [of l "layers t - 1" t i] l n [OF that] by simp
  show ?thesis
    using live_through [OF t(1) t'(1,2) j'(1)] l pre j j'(2) by simp
qed

lemma convergence_monotone:
  assumes t: "trellis_ok t" "convergence t = Ok (Some l)"
    and t': "trellis_ok t'" "extends t t'" "convergence t' = Ok r"
  shows "\<exists>l' \<ge> l. r = Some l'"
proof -
  note r' = convergence_okD [OF t'(1,3)]
  have l: "l < layers t" "fused_at t l"
    using convergence_Some_iff [OF t(1) convergence_okD [OF t]] t(2) by auto
  then have f: "fused_at t' l" by (intro fused_extends [OF t(1) t'(1,2)])
  have l': "l < layers t'" using l extends_layers [OF t'(2)] by simp
  from convergence_resolved(2) [OF t'(1) r'] t'(3) have
    spec: "case r of None \<Rightarrow> \<forall>l < layers t'. \<not> fused_at t' l
      | Some k \<Rightarrow> k < layers t' \<and> fused_at t' k \<and> (\<forall>m. k < m \<longrightarrow> m < layers t' \<longrightarrow> \<not> fused_at t' m)"
    by auto
  show ?thesis
  proof (cases r)
    case None
    then show ?thesis using spec f l' by auto
  next
    case (Some k)
    then have "\<not> k < l" using spec f l' by auto
    then show ?thesis using Some by auto
  qed
qed

section \<open>Appending through the API extends\<close>

lemma add_layer_extends: "add_layer t w = Ok (t', l) \<Longrightarrow> extends t t'"
  by (auto simp: add_layer_def Let_def extends_def split: if_splits)

lemma prefix_list_update: "prefix xs ys \<Longrightarrow> length xs \<le> k \<Longrightarrow> prefix xs (ys[k := y])"
  by (auto simp: prefix_def list_update_append)

lemma fill_transition_extends:
  assumes "trellis_ok t1" "extends t t1" "trellis_ok t" "layers t - 1 \<le> l" "fill_transition t1 l rows = Ok t2"
  shows "extends t t2"
  using assms(5)
  by (cases rule: fill_transition_cases [OF assms(1), of l rows])
    (use assms in \<open>auto simp: extends_def trellis_okD(5) intro!: prefix_list_update\<close>)

lemma set_edge_extends:
  assumes "trellis_ok t1" "extends t t1" "trellis_ok t" "layers t - 1 \<le> l" "set_edge t1 l i j w = Ok t2"
  shows "extends t t2"
  using assms(5)
  by (cases rule: set_edge_cases [OF assms(1), of l i j w])
    (use assms in \<open>auto simp: extends_def trellis_okD(5) intro!: prefix_list_update\<close>)

lemma fill_nodes_extends:
  assumes "trellis_ok t1" "extends t t1" "trellis_ok t" "layers t \<le> l" "fill_nodes t1 l ws = Ok t2"
  shows "extends t t2"
proof -
  from assms(5) have *: "t2 = t1\<lparr>node_table := put_slice (offset t1 l, offset t1 (Suc l)) ws (node_table t1)\<rparr>"
    "l < layers t1" by (cases rule: fill_nodes_cases [OF assms(1), of l ws]; simp)+
  have "length (node_table t) = offset t1 (layers t)"
    using offset_layers [OF assms(3)] extends_offset [OF assms(2), of "layers t"] by simp
  also have "\<dots> \<le> offset t1 l" by (rule offset_mono [OF assms(4)])
  finally have "prefix (node_table t) (take (offset t1 l) (node_table t1))"
    using assms(2) by (auto simp: extends_def prefix_def)
  then show ?thesis using assms(2) by (auto simp: * extends_def put_slice_def intro: prefix_prefix)
qed

end
