(* ===== verification/Brute.thy ===== *)
theory Brute
  imports Trellis_Laws
begin

text \<open>
  The reference solver (\<open>solver/brute.rs\<close>): a mixed-radix counter enumerates every node path and
  the loop keeps the cheapest. The loop terminates because the counter's rank grows, and it has
  seen every valid path when the carry leaves the first layer.
\<close>

section \<open>The solver\<close>

text \<open>
  \<open>for layer in (0..layers).rev()\<close> with its carry flag, over the reversed path and widths. A digit
  is below its layer's width, a \<open>u32\<close>, so its increment does not wrap.
\<close>

fun advance :: "bool \<Rightarrow> nat list \<Rightarrow> nat list \<Rightarrow> bool \<times> nat list" where
  "advance carry (n # ns) (w # ws) =
     (let (carry', n') = (if carry then (if n + 1 < w then (False, n + 1) else (True, 0)) else (False, n));
          (carry'', ns') = advance carry' ns ws
      in (carry'', n' # ns'))"
| "advance carry ns ws = (carry, ns)"

definition next_path :: "nat list \<Rightarrow> node_id list \<Rightarrow> bool \<times> node_id list" where
  "next_path ws ns = (let (carry, ns') = advance True (rev ns) (rev ws) in (carry, rev ns'))"

definition brute_finish :: "nat \<Rightarrow> node_id list \<Rightarrow> (path, solve_error) outcome" where
  "brute_finish best_cost best_nodes =
     (if best_cost \<ge> INF_W then Err Unreachable
      else Ok \<lparr>path_nodes = best_nodes, path_total = best_cost\<rparr>)"

text \<open>The counter's rank, the least significant digit first; it bounds the loop.\<close>

fun rank :: "nat list \<Rightarrow> nat list \<Rightarrow> nat" where
  "rank (n # ns) (w # ws) = min n (max w 1 - 1) + max w 1 * rank ns ws"
| "rank ns ws = 0"

lemma prod_widths_pos: "0 < prod_list (map (\<lambda>w. max w (1::nat)) ws)"
  by (induction ws) auto

lemma rank_bound: "rank ns ws < prod_list (map (\<lambda>w. max w 1) ws)"
proof (induction ns ws rule: rank.induct)
  case (1 n ns w ws)
  have "rank (n # ns) (w # ws) < max w 1 + max w 1 * rank ns ws" by simp
  also have "\<dots> = max w 1 * Suc (rank ns ws)" by simp
  also have "\<dots> \<le> max w 1 * prod_list (map (\<lambda>w. max w 1) ws)" using 1 by (intro mult_le_mono2) simp
  finally show ?case by simp
qed (use prod_widths_pos in simp_all)

lemma advance_False [simp]: "advance False ns ws = (False, ns)"
  by (induction "False" ns ws rule: advance.induct) auto

lemma advance_rank: "advance True ns ws = (False, ns') \<Longrightarrow> rank ns ws < rank ns' ws"
proof (induction True ns ws arbitrary: ns' rule: advance.induct)
  case (1 n ns w ws)
  show ?case
  proof (cases "n + 1 < w")
    case True
    then show ?thesis using 1 by auto
  next
    case False
    then obtain ms where ms: "advance True ns ws = (False, ms)" "ns' = 0 # ms"
      using "1.prems" by (auto split: prod.splits)
    with False "1.hyps" have "rank ns ws < rank ms ws" by simp
    then have "max w 1 * Suc (rank ns ws) \<le> max w 1 * rank ms ws" by (intro mult_le_mono2) simp
    then show ?thesis using False ms(2) by simp
  qed
qed auto

function brute_loop :: "trellis \<Rightarrow> node_id list \<Rightarrow> nat \<Rightarrow> node_id list \<Rightarrow> (path, solve_error) outcome" where
  "brute_loop t ns best_cost best_nodes =
     (case path_cost t ns of
        None \<Rightarrow> Panic
      | Some cost \<Rightarrow>
          (let (best_cost', best_nodes') =
                 (if cost < best_cost then (cost, ns) else (best_cost, best_nodes));
               (carry, ns') = next_path (widths t) ns
           in if carry then brute_finish best_cost' best_nodes'
              else brute_loop t ns' best_cost' best_nodes'))"
  by auto
termination
proof (relation "measure (\<lambda>(t, ns, _). prod_list (map (\<lambda>w. max w 1) (rev (widths t))) - rank (rev ns) (rev (widths t)))",
    goal_cases)
  case (2 t ns c n cost x bc bn y carry ns')
  then have "advance True (rev ns) (rev (widths t)) = (False, rev ns')"
    by (auto simp: next_path_def split: prod.splits)
  from advance_rank [OF this] rank_bound [of "rev ns'" "rev (widths t)"] show ?case by simp
qed simp

declare brute_loop.simps [simp del]

definition brute_solve :: "trellis \<Rightarrow> (path, solve_error) outcome" where
  "brute_solve t =
     (case first_pending t of
        Some l \<Rightarrow> Err (NotResolved l)
      | None \<Rightarrow> brute_loop t (replicate (layers t) 0) INF_W [])"

section \<open>The counter visits every path\<close>

abbreviation digits_ok :: "nat list \<Rightarrow> nat list \<Rightarrow> bool" where
  "digits_ok ns ws \<equiv> list_all2 (<) ns ws"

lemma rank_Cons: "n < w \<Longrightarrow> rank (n # ns) (w # ws) = n + w * rank ns ws"
  by simp

lemma rank_inj: "digits_ok ns ws \<Longrightarrow> digits_ok ms ws \<Longrightarrow> rank ns ws = rank ms ws \<Longrightarrow> ns = ms"
proof (induction ns ws arbitrary: ms rule: list_all2_induct)
  case (Cons n ns w ws)
  then obtain m ms' where ms: "ms = m # ms'" "m < w" "digits_ok ms' ws" by (cases ms) auto
  have "rank ns ws * w + n = rank ms' ws * w + m"
    using Cons.prems(2) Cons.hyps(1) ms by (simp add: mult.commute)
  then have "rank ns ws = rank ms' ws \<and> n = m"
    using Cons.hyps(1) ms(2) by (intro row_index_inj)
  then show ?case using Cons.IH ms by simp
qed simp

lemma advance_valid:
  "digits_ok ns ws \<Longrightarrow> advance True ns ws = (c, ns') \<Longrightarrow>
    digits_ok ns' ws \<and> (if c then \<forall>ms. digits_ok ms ws \<longrightarrow> rank ms ws \<le> rank ns ws
                        else rank ns' ws = Suc (rank ns ws))"
proof (induction ns ws arbitrary: ns' c rule: list_all2_induct)
  case (Cons n ns w ws)
  show ?case
  proof (cases "n + 1 < w")
    case True
    then show ?thesis using Cons by auto
  next
    case False
    then obtain ms where ms: "advance True ns ws = (c, ms)" "ns' = 0 # ms"
      using Cons.prems by (auto split: prod.splits)
    have n: "n = w - 1" "0 < w" using False Cons.hyps(1) by auto
    note IH = Cons.IH [OF ms(1)]
    have "rank (n # ns) (w # ws) = w - 1 + w * rank ns ws" using n by simp
    moreover have "rank ks (w # ws) \<le> w - 1 + w * rank ns ws" if c and ks: "digits_ok ks (w # ws)" for ks
    proof -
      from ks obtain k ks' where k: "ks = k # ks'" "k < w" "digits_ok ks' ws" by (cases ks) auto
      have "rank ks' ws \<le> rank ns ws" using IH \<open>c\<close> k(3) by simp
      then have "k + w * rank ks' ws \<le> w - 1 + w * rank ns ws" using k(2) by (intro add_mono) simp_all
      then show ?thesis using k by simp
    qed
    moreover have "rank ns' (w # ws) = Suc (rank (n # ns) (w # ws))" if "\<not> c"
      using IH that n ms(2) by simp
    ultimately show ?thesis using IH ms(2) n(2) by auto
  qed
qed simp

lemma valid_path_digits: "valid_path t ns \<longleftrightarrow> digits_ok (rev ns) (rev (widths t))"
  unfolding list_all2_rev by (auto simp: valid_path_def layers_def list_all2_conv_all_nth)

abbreviation path_rank :: "trellis \<Rightarrow> node_id list \<Rightarrow> nat" where
  "path_rank t ns \<equiv> rank (rev ns) (rev (widths t))"

lemma next_path_valid:
  assumes "valid_path t ns" and "next_path (widths t) ns = (c, ns')"
  shows "valid_path t ns'" and "\<not> c \<Longrightarrow> path_rank t ns' = Suc (path_rank t ns)"
    and "c \<Longrightarrow> valid_path t ms \<Longrightarrow> path_rank t ms \<le> path_rank t ns"
proof -
  from assms(2) have "advance True (rev ns) (rev (widths t)) = (c, rev ns')"
    by (auto simp: next_path_def split: prod.splits)
  note * = advance_valid [OF assms(1) [unfolded valid_path_digits] this]
  show "valid_path t ns'" using * by (simp add: valid_path_digits)
  show "\<not> c \<Longrightarrow> path_rank t ns' = Suc (path_rank t ns)" using * by simp
  show "c \<Longrightarrow> valid_path t ms \<Longrightarrow> path_rank t ms \<le> path_rank t ns"
    using * by (simp add: valid_path_digits)
qed

lemma path_rank_inj: "valid_path t ns \<Longrightarrow> valid_path t ms \<Longrightarrow> path_rank t ns = path_rank t ms \<Longrightarrow> ns = ms"
  using rank_inj [of "rev ns" "rev (widths t)" "rev ms"] by (simp add: valid_path_digits)

section \<open>The loop keeps the cheapest path\<close>

definition capped_cost :: "trellis \<Rightarrow> node_id list \<Rightarrow> nat" where
  "capped_cost t ns = min (exact_cost t 0 ns) U32_MAX"

lemma path_cost_capped:
  "trellis_ok t \<Longrightarrow> fully_resolved t \<Longrightarrow> valid_path t ns \<Longrightarrow> path_cost t ns = Some (capped_cost t ns)"
  by (simp add: path_cost_exact capped_cost_def)

lemma brute_loop_spec:
  "trellis_ok t \<Longrightarrow> fully_resolved t \<Longrightarrow> valid_path t ns \<Longrightarrow>
    \<exists>c n. brute_loop t ns bc bn = brute_finish c n
      \<and> (c = bc \<and> n = bn \<or> c < bc \<and> valid_path t n \<and> c = capped_cost t n)
      \<and> (\<forall>q. valid_path t q \<longrightarrow> path_rank t ns \<le> path_rank t q \<longrightarrow> c \<le> capped_cost t q)"
proof (induction t ns bc bn rule: brute_loop.induct)
  case (1 t ns bc bn)
  note cost = path_cost_capped [OF "1.prems"]
  obtain carry ns' where nx: "next_path (widths t) ns = (carry, ns')" by (cases "next_path (widths t) ns")
  define bc' bn' where "bc' = (if capped_cost t ns < bc then capped_cost t ns else bc)"
    and "bn' = (if capped_cost t ns < bc then ns else bn)"
  have upd: "(if capped_cost t ns < bc then (capped_cost t ns, ns) else (bc, bn)) = (bc', bn')"
    by (simp add: bc'_def bn'_def)
  have here: "bc' = bc \<and> bn' = bn \<or> bc' < bc \<and> valid_path t bn' \<and> bc' = capped_cost t bn'"
    "bc' \<le> bc" "bc' \<le> capped_cost t ns"
    using "1.prems"(3) by (auto simp: bc'_def bn'_def)
  have loop: "brute_loop t ns bc bn = (if carry then brute_finish bc' bn' else brute_loop t ns' bc' bn')"
    by (subst brute_loop.simps) (simp add: cost upd nx)
  note nxt = next_path_valid [OF "1.prems"(3) nx]
  show ?case
  proof (cases carry)
    case True
    have "bc' \<le> capped_cost t q" if "valid_path t q" "path_rank t ns \<le> path_rank t q" for q
      using path_rank_inj [OF "1.prems"(3) that(1)] nxt(3) [OF True that(1)] that(2) here(3) by simp
    with here(1) loop True show ?thesis by (intro exI [of _ bc'] exI [of _ bn']) simp
  next
    case False
    obtain c n where IH: "brute_loop t ns' bc' bn' = brute_finish c n"
      "c = bc' \<and> n = bn' \<or> c < bc' \<and> valid_path t n \<and> c = capped_cost t n"
      "\<forall>q. valid_path t q \<longrightarrow> path_rank t ns' \<le> path_rank t q \<longrightarrow> c \<le> capped_cost t q"
      using "1.IH" [OF cost upd [symmetric] refl nx [symmetric] refl False "1.prems"(1,2) nxt(1)] by blast
    have "c \<le> capped_cost t q" if "valid_path t q" "path_rank t ns \<le> path_rank t q" for q
    proof (cases "path_rank t ns = path_rank t q")
      case True
      then show ?thesis using path_rank_inj [OF "1.prems"(3) that(1)] here(3) IH(2) by auto
    next
      case False
      then show ?thesis using IH(3) that nxt(2) [OF \<open>\<not> carry\<close>] by simp
    qed
    then show ?thesis using IH(1,2) here(1,2) loop False by (intro exI [of _ c] exI [of _ n]) auto
  qed
qed

lemma brute_solve_resolved:
  assumes t: "trellis_ok t" "fully_resolved t"
  obtains c n where "brute_solve t = brute_finish c n"
    "c = INF_W \<or> c < INF_W \<and> valid_path t n \<and> c = exact_cost t 0 n"
    "\<And>q. valid_path t q \<Longrightarrow> exact_cost t 0 q < INF_W \<Longrightarrow> c \<le> exact_cost t 0 q"
proof -
  let ?z = "replicate (layers t) 0"
  have z: "valid_path t ?z" using trellis_okD(2) [OF t(1)] by (auto simp: valid_path_def layers_def)
  have r0: "rank (replicate k 0) ws = 0" for k ws
  proof (induction ws arbitrary: k)
    case (Cons w ws)
    then show ?case by (cases k) auto
  qed (cases k; simp)
  from brute_loop_spec [OF t z, of INF_W "[]"] obtain c n where
    *: "brute_loop t ?z INF_W [] = brute_finish c n"
      "c = INF_W \<and> n = [] \<or> c < INF_W \<and> valid_path t n \<and> c = capped_cost t n"
      "\<forall>q. valid_path t q \<longrightarrow> path_rank t ?z \<le> path_rank t q \<longrightarrow> c \<le> capped_cost t q" by blast
  have "brute_solve t = brute_finish c n"
    using first_pending_None_iff [of t] t(2) *(1) by (simp add: brute_solve_def)
  moreover have "c = INF_W \<or> c < INF_W \<and> valid_path t n \<and> c = exact_cost t 0 n"
    using *(2) by (auto simp: capped_cost_def INF_W_def min_def split: if_splits)
  moreover have "c \<le> exact_cost t 0 q" if "valid_path t q" "exact_cost t 0 q < INF_W" for q
    using *(3) that by (auto simp: r0 capped_cost_def)
  ultimately show ?thesis by (rule that)
qed

lemma brute_solve_pending: "first_pending t = Some l \<Longrightarrow> brute_solve t = Err (NotResolved l)"
  by (simp add: brute_solve_def)

end
