(* ===== verification/Solvers.thy ===== *)
theory Solvers
  imports Convergence Brute
begin

text \<open>
  The \<open>Solve\<close> trait (\<open>solver/mod.rs\<close>) as a locale: what a strategy for finding the cheapest path
  promises. Both solvers are interpretations, so they agree on costs and errors although they
  break ties differently; the \<open>Solved\<close> certificate (\<open>solved.rs\<close>) is stated over the contract.
\<close>

section \<open>The contract of a solver\<close>

locale solver =
  fixes solve :: "trellis \<Rightarrow> (path, solve_error) outcome"
  assumes pending: "trellis_ok t \<Longrightarrow> first_pending t = Some l \<Longrightarrow> solve t = Err (NotResolved l)"
    and sound: "trellis_ok t \<Longrightarrow> solve t = Ok p \<Longrightarrow> fully_resolved t \<and> valid_path t (path_nodes p)
        \<and> path_total p = exact_cost t 0 (path_nodes p) \<and> path_total p < INF_W"
    and complete: "trellis_ok t \<Longrightarrow> fully_resolved t \<Longrightarrow> valid_path t ns \<Longrightarrow> exact_cost t 0 ns < INF_W
        \<Longrightarrow> \<exists>p. solve t = Ok p \<and> path_total p \<le> exact_cost t 0 ns"
    and unreachable: "trellis_ok t \<Longrightarrow> fully_resolved t
        \<Longrightarrow> \<forall>ns. valid_path t ns \<longrightarrow> exact_cost t 0 ns \<ge> INF_W \<Longrightarrow> solve t = Err Unreachable"
begin

lemma ok_iff:
  assumes "trellis_ok t"
  shows "(\<exists>p. solve t = Ok p)
    \<longleftrightarrow> fully_resolved t \<and> (\<exists>ns. valid_path t ns \<and> exact_cost t 0 ns < INF_W)"
proof
  assume "\<exists>p. solve t = Ok p"
  then obtain p where "solve t = Ok p" ..
  from sound [OF assms this] show "fully_resolved t \<and> (\<exists>ns. valid_path t ns \<and> exact_cost t 0 ns < INF_W)"
    by (intro conjI exI [of _ "path_nodes p"]) auto
qed (use complete [OF assms] in blast)

lemma trichotomy:
  assumes "trellis_ok t"
  shows "(\<exists>l. first_pending t = Some l \<and> solve t = Err (NotResolved l))
    \<or> fully_resolved t \<and> solve t = Err Unreachable
    \<or> fully_resolved t \<and> (\<exists>p. solve t = Ok p)"
proof (cases "first_pending t")
  case None
  then have "fully_resolved t" by (simp add: first_pending_None_iff)
  then show ?thesis using ok_iff [OF assms] unreachable [OF assms] by (metis not_le)
qed (use pending [OF assms] in auto)

lemma no_panic: "trellis_ok t \<Longrightarrow> solve t \<noteq> Panic"
  using trichotomy [of t] by auto

lemma unreachable_iff:
  "trellis_ok t \<Longrightarrow> solve t = Err Unreachable
    \<longleftrightarrow> fully_resolved t \<and> (\<forall>ns. valid_path t ns \<longrightarrow> exact_cost t 0 ns \<ge> INF_W)"
  using trichotomy [of t] ok_iff [of t] unreachable [of t] by (auto simp: not_less [symmetric])

lemma path_cost_total:
  "trellis_ok t \<Longrightarrow> solve t = Ok p \<Longrightarrow> path_cost t (path_nodes p) = Some (path_total p)"
  using sound [of t p] path_cost_exact [of t "path_nodes p"] by (simp add: INF_W_def)

lemma optimal:
  assumes "trellis_ok t" "solve t = Ok p" "valid_path t ns"
  shows "\<exists>c. path_cost t ns = Some c \<and> path_total p \<le> c"
proof -
  note s = sound [OF assms(1,2)]
  have "path_total p \<le> exact_cost t 0 ns"
    using complete [OF assms(1) _ assms(3)] s assms(2) by (cases "exact_cost t 0 ns < INF_W") auto
  then show ?thesis
    using path_cost_exact [OF assms(1) _ assms(3)] s by (simp add: INF_W_def)
qed

end

text \<open>Two strategies for the same trait agree up to the choice between equally cheap paths.\<close>

locale solver_pair = one: solver solve1 + two: solver solve2
  for solve1 :: "trellis \<Rightarrow> (path, solve_error) outcome"
    and solve2 :: "trellis \<Rightarrow> (path, solve_error) outcome"
begin

lemma agree:
  assumes "trellis_ok t"
  shows "(case solve1 t of
      Ok p \<Rightarrow> (\<exists>q. solve2 t = Ok q \<and> path_total q = path_total p)
    | Err e \<Rightarrow> solve2 t = Err e
    | Panic \<Rightarrow> False)"
proof (cases "solve1 t")
  case (Ok p)
  then obtain q where q: "solve2 t = Ok q" using one.ok_iff two.ok_iff assms by blast
  have "path_total q \<le> path_total p" "path_total p \<le> path_total q"
    using two.optimal [OF assms q] one.optimal [OF assms Ok] one.path_cost_total [OF assms Ok]
      two.path_cost_total [OF assms q] one.sound [OF assms Ok] two.sound [OF assms q] by fastforce+
  then show ?thesis using Ok q by simp
next
  case (Err e)
  then show ?thesis
    using one.trichotomy [OF assms] two.trichotomy [OF assms] one.ok_iff [OF assms] two.ok_iff [OF assms]
    by (auto simp: first_pending_None_iff [symmetric])
next
  case Panic
  then show ?thesis using one.no_panic assms by simp
qed

end

interpretation viterbi: solver viterbi_solve
proof unfold_locales
  fix t ns
  assume "trellis_ok t" "fully_resolved t" "valid_path t ns" "exact_cost t 0 ns < INF_W"
  then show "\<exists>p. viterbi_solve t = Ok p \<and> path_total p \<le> exact_cost t 0 ns"
    using viterbi_solve_complete by metis
qed (auto intro: viterbi_solve_pending viterbi_solve_sound viterbi_solve_unreachable)

interpretation brute: solver brute_solve
proof unfold_locales
  fix t p assume t: "trellis_ok t" and ok: "brute_solve t = Ok p"
  then have r: "fully_resolved t"
    using brute_solve_pending [of t] first_pending_None_iff [of t] by (cases "first_pending t") auto
  show "fully_resolved t \<and> valid_path t (path_nodes p)
      \<and> path_total p = exact_cost t 0 (path_nodes p) \<and> path_total p < INF_W"
    by (rule brute_solve_resolved [OF t r]) (use ok r in \<open>auto simp: brute_finish_def split: if_splits\<close>)
next
  fix t ns assume t: "trellis_ok t" "fully_resolved t" and ns: "valid_path t ns" "exact_cost t 0 ns < INF_W"
  show "\<exists>p. brute_solve t = Ok p \<and> path_total p \<le> exact_cost t 0 ns"
    by (rule brute_solve_resolved [OF t]) (use ns in \<open>fastforce simp: brute_finish_def\<close>)
next
  fix t assume t: "trellis_ok t" "fully_resolved t"
    and none: "\<forall>ns. valid_path t ns \<longrightarrow> exact_cost t 0 ns \<ge> INF_W"
  show "brute_solve t = Err Unreachable"
    by (rule brute_solve_resolved [OF t]) (use none in \<open>auto simp: brute_finish_def\<close>)
qed (auto intro: brute_solve_pending)

interpretation solvers: solver_pair viterbi_solve brute_solve
  by unfold_locales

section \<open>The \<open>Solved\<close> certificate\<close>

record solved =
  solved_trellis :: trellis
  solved_path :: path

definition trellis_solve ::
    "(trellis \<Rightarrow> (path, solve_error) outcome) \<Rightarrow> trellis \<Rightarrow> (solved, trellis \<times> solve_error) outcome" where
  "trellis_solve solve t =
     (case solve t of
        Ok p \<Rightarrow> Ok \<lparr>solved_trellis = t, solved_path = p\<rparr>
      | Err e \<Rightarrow> Err (t, e)
      | Panic \<Rightarrow> Panic)"

definition solved_append :: "solved \<Rightarrow> nat \<Rightarrow> (trellis \<times> layer_id, solved \<times> trellis_error) outcome" where
  "solved_append s width =
     (case add_layer (solved_trellis s) width of
        Ok (t, l) \<Rightarrow> Ok (t, l)
      | Err e \<Rightarrow> Err (s, e)
      | Panic \<Rightarrow> Panic)"

definition reopen :: "solved \<Rightarrow> trellis" where
  "reopen s = solved_trellis s"

text \<open>
  A certificate is only ever made by \<open>Trellis::solve\<close>; \<open>certified\<close> is what holding one means.
\<close>

definition certified :: "solved \<Rightarrow> bool" where
  "certified s \<longleftrightarrow> trellis_ok (solved_trellis s) \<and> fully_resolved (solved_trellis s)
     \<and> valid_path (solved_trellis s) (path_nodes (solved_path s))
     \<and> path_cost (solved_trellis s) (path_nodes (solved_path s)) = Some (path_total (solved_path s))
     \<and> (\<forall>ns c. valid_path (solved_trellis s) ns \<longrightarrow> path_cost (solved_trellis s) ns = Some c
          \<longrightarrow> path_total (solved_path s) \<le> c)"

context solver
begin

lemma certificate:
  assumes "trellis_ok t" "trellis_solve solve t = Ok s"
  shows "certified s" and "reopen s = t"
proof -
  from assms(2) obtain p where p: "solve t = Ok p" and s: "s = \<lparr>solved_trellis = t, solved_path = p\<rparr>"
    by (auto simp: trellis_solve_def split: outcome.splits)
  show "reopen s = t" by (simp add: s reopen_def)
  show "certified s"
    using assms(1) sound [OF assms(1) p] path_cost_total [OF assms(1) p] optimal [OF assms(1) p]
    by (fastforce simp: certified_def s)
qed

lemma failed_solve: "trellis_solve solve t = Err (t', e) \<Longrightarrow> t' = t \<and> solve t = Err e"
  by (auto simp: trellis_solve_def split: outcome.splits)

end

lemma solved_append_Err:
  "solved_append s w = Err r \<longleftrightarrow> w = 0 \<and> r = (s, ZeroWidthLayer (layers (solved_trellis s)))"
  by (auto simp: solved_append_def add_layer_def layers_def Let_def)

lemma solved_append_Ok:
  assumes "certified s" "solved_append s w = Ok (t, l)"
  shows "trellis_ok t" "extends (solved_trellis s) t" "l = layers (solved_trellis s)" "layers t = Suc l"
proof -
  from assms(2) have add: "add_layer (solved_trellis s) w = Ok (t, l)"
    by (auto simp: solved_append_def split: outcome.splits prod.splits)
  from assms(1) have ok: "trellis_ok (solved_trellis s)" by (simp add: certified_def)
  show "trellis_ok t" "l = layers (solved_trellis s)" "layers t = Suc l"
    using add_layer_ok [OF ok add] by simp_all
  show "extends (solved_trellis s) t" by (rule add_layer_extends [OF add])
qed

end
