(* ===== verification/Trellis_Theorems.thy ===== *)
theory Trellis_Theorems
  imports Solvers
begin

text \<open>
  The properties of the trellis crate, each with a concrete run on a small trellis. The sample
  has three layers of one, two and two nodes; its grown version adds a fourth layer.
\<close>

section \<open>Sample runs\<close>

definition sample :: trellis where
  "sample = \<lparr>widths = [1, 2, 2], node_table = [0, 3, 1, 0, 0],
     transitions = [Resolved [5, 2], Resolved [1, INF_W, 4, 1]]\<rparr>"

definition sample_grown :: trellis where
  "sample_grown = \<lparr>widths = [1, 2, 2, 1], node_table = [0, 3, 1, 0, 0, 0],
     transitions = [Resolved [5, 2], Resolved [1, INF_W, 4, 1], Resolved [10, 20]]\<rparr>"

lemma INF_W_num: "INF_W = 1073741824"
  by (simp add: INF_W_def)

lemmas run_defs =
  viterbi_solve_def convergence_def tables_def boundaries_def backtrack_def converged_layer_def
  predecessor_def relax_boundary_def relax_row_def enter_nodes_def layer_ranges_def
  trellis_boundaries_def trellis_layer_def slice_def put_slice_def range_len_def
  chunks_exact.simps min_index_def u32_add_def saturating_add_def INF_W_num Let_def
  List.map_filter_def

lemmas query_defs =
  trellis_ok_def layers_def weights_ok_def MAX_WEIGHT_def INF_W_num fully_resolved_def
  valid_path_def path_cost_def node_weight_def node_weights_def node_range_def layer_ranges_def
  edge_weight_def slice_def range_len_def saturating_add_def windows2_def

lemma sample_ok: "trellis_ok sample"
  by (simp add: sample_def query_defs All_less_Suc numeral_2_eq_2)

lemma sample_shape: "layers sample = 3" "widths sample ! 2 = 2"
  by (simp_all add: sample_def layers_def)

lemma sample_solve: "viterbi_solve sample = Ok \<lparr>path_nodes = [0, 1, 1], path_total = 4\<rparr>"
  by (simp add: sample_def run_defs)

lemma sample_convergence: "convergence sample = Ok (Some 1)"
  by (simp add: sample_def run_defs)

lemma sample_grown_ok: "trellis_ok sample_grown"
  by (simp add: sample_grown_def query_defs All_less_Suc numeral_2_eq_2 numeral_3_eq_3)

lemma sample_grown_solve: "viterbi_solve sample_grown = Ok \<lparr>path_nodes = [0, 1, 0, 0], path_total = 17\<rparr>"
  by (simp add: sample_grown_def run_defs)

lemma sample_grown_convergence: "convergence sample_grown = Ok (Some 3)"
  by (simp add: sample_grown_def run_defs)

lemma sample_extends: "extends sample sample_grown"
  by (simp add: extends_def sample_def sample_grown_def)

section \<open>Solving\<close>

text \<open>
  (C1) Optimality of the Viterbi solver: on a well-formed trellis, a returned path names one
  valid node per layer, its reported cost is exactly what \<open>path_cost\<close> charges for it and stays
  below the infinity marker, and no other path through the trellis is cheaper.
\<close>

theorem viterbi_optimal:
  assumes "trellis_ok t" and "viterbi_solve t = Ok p"
  shows "valid_path t (path_nodes p) \<and> path_cost t (path_nodes p) = Some (path_total p)
    \<and> path_total p < INF_W
    \<and> (\<forall>ns. valid_path t ns \<longrightarrow> (\<exists>c. path_cost t ns = Some c \<and> path_total p \<le> c))"
  using viterbi.sound [OF assms] viterbi.path_cost_total [OF assms] viterbi.optimal [OF assms]
  by blast

theorem viterbi_optimal_witness:
  "valid_path sample [0, 1, 1] \<and> path_cost sample [0, 1, 1] = Some 4
    \<and> (\<exists>c. path_cost sample [0, 0, 0] = Some c \<and> 4 \<le> c)"
proof -
  have "valid_path sample [0, 0, 0]"
    by (simp add: sample_def query_defs All_less_Suc numeral_3_eq_3)
  then show ?thesis
    using viterbi_optimal [OF sample_ok sample_solve] by simp
qed

text \<open>
  (C2) The solver's outcome is decided exactly: it never panics on a well-formed trellis, it
  reports the first pending boundary when there is one, and otherwise reports unreachability
  precisely when every path through the trellis costs at least the infinity marker.
\<close>

theorem viterbi_errors_exact:
  assumes "trellis_ok t"
  shows "viterbi_solve t \<noteq> Panic
    \<and> (\<forall>l. viterbi_solve t = Err (NotResolved l) \<longleftrightarrow> first_pending t = Some l)
    \<and> (viterbi_solve t = Err Unreachable
      \<longleftrightarrow> fully_resolved t \<and> (\<forall>ns. valid_path t ns \<longrightarrow> exact_cost t 0 ns \<ge> INF_W))"
  using viterbi.no_panic [OF assms] viterbi.pending [OF assms] viterbi.trichotomy [OF assms]
    viterbi.unreachable_iff [OF assms]
  by (auto simp: first_pending_None_iff [symmetric])

theorem viterbi_errors_exact_witness:
  "viterbi_solve (sample\<lparr>transitions := [Resolved [5, 2], Pending]\<rparr>) = Err (NotResolved 1)"
proof -
  have "trellis_ok (sample\<lparr>transitions := [Resolved [5, 2], Pending]\<rparr>)"
    by (simp add: sample_def query_defs All_less_Suc numeral_2_eq_2)
  from viterbi_errors_exact [OF this] show ?thesis
    by (simp add: first_pending_def)
qed

text \<open>
  (C3) The optimised solver and the exhaustive reference agree: on every well-formed trellis
  both return paths of the same cost, or both return the same error.
\<close>

theorem viterbi_agrees_with_brute_force:
  assumes "trellis_ok t"
  shows "(case viterbi_solve t of
      Ok p \<Rightarrow> (\<exists>q. brute_solve t = Ok q \<and> path_total q = path_total p)
    | Err e \<Rightarrow> brute_solve t = Err e
    | Panic \<Rightarrow> False)"
  by (rule solvers.agree [OF assms])

theorem viterbi_agrees_with_brute_force_witness:
  "\<exists>q. brute_solve sample = Ok q \<and> path_total q = 4"
  using viterbi_agrees_with_brute_force [OF sample_ok] by (simp add: sample_solve)

text \<open>
  (C6) The flat distance table: the forward pass over a resolved trellis touches no index out of
  range and leaves, at the flat position of every node, the value of the recurrence over
  unbounded numbers, at most \<open>2 * INF_W - 2\<close>; the wrapping additions of the hot loop never wrap.
\<close>

theorem forward_pass_refines_recurrence:
  assumes "trellis_ok t" and "fully_resolved t"
  shows "\<exists>bs dist. boundaries t = Ok bs \<and> forward_pass bs (node_table t) = Some dist
    \<and> (\<forall>l j. l < layers t \<and> j < widths t ! l \<longrightarrow>
         dist ! (offset t l + j) = dp t l j \<and> dp t l j \<le> 2 * INF_W - 2)"
proof -
  obtain dist where dist: "forward_pass (map (boundary_of t) [0..<layers t - 1]) (node_table t) = Some dist"
    "table_upto t (layers t - 1) dist"
    using forward_pass_dp [OF assms _ table_upto_init [OF assms(1)]] trellis_okD(6) [OF assms(1)] by auto
  have "dist ! (offset t l + j) = dp t l j" if "l < layers t" "j < widths t ! l" for l j
  proof -
    from dist(2) that(1) have row: "slice (offset t l, offset t (Suc l)) dist = dp_row t l"
      and len: "offset t (Suc l) \<le> length dist"
      using offset_bound [OF assms(1) that(1)] by (auto simp: table_upto_def)
    have "slice (offset t l, offset t (Suc l)) dist ! j = dist ! (offset t l + j)"
      using that len by (simp add: slice_nth range_len_layer)
    then show ?thesis using row that(2) by simp
  qed
  then show ?thesis
    using dist(1) boundaries_resolved [OF assms] dp_bound [OF assms(1)] by blast
qed

theorem forward_pass_refines_recurrence_witness:
  "\<exists>bs dist. boundaries sample = Ok bs \<and> forward_pass bs (node_table sample) = Some dist
    \<and> dist ! 3 = dp sample 2 0"
proof -
  have "fully_resolved sample" by (simp add: sample_def fully_resolved_def)
  from forward_pass_refines_recurrence [OF sample_ok this] obtain bs dist where
    run: "boundaries sample = Ok bs" "forward_pass bs (node_table sample) = Some dist"
    and "\<forall>l j. l < layers sample \<and> j < widths sample ! l \<longrightarrow>
        dist ! (offset sample l + j) = dp sample l j \<and> dp sample l j \<le> 2 * INF_W - 2" by blast
  from this(3) [rule_format, of 2 0] run have "boundaries sample = Ok bs"
    "forward_pass bs (node_table sample) = Some dist" "dist ! (offset sample 2 + 0) = dp sample 2 0"
    by (simp_all add: sample_shape)
  moreover have "offset sample 2 = 3" by (simp add: offset_def sample_def numeral_2_eq_2)
  ultimately show ?thesis by auto
qed

section \<open>Convergence\<close>

text \<open>
  (C5) What the convergence query reports: it fails exactly where solving fails; otherwise a
  reported layer is the latest one at which the optimal paths into every live final node pass
  through a single node, and no layer is reported precisely when there is no such layer.
\<close>

theorem convergence_exact:
  assumes "trellis_ok t"
  shows "(\<forall>e. convergence t = Err e \<longleftrightarrow> viterbi_solve t = Err e)
    \<and> (\<forall>l. convergence t = Ok (Some l) \<longrightarrow> l < layers t \<and> fused_at t l
      \<and> (\<forall>m. l < m \<longrightarrow> m < layers t \<longrightarrow> \<not> fused_at t m))
    \<and> (convergence t = Ok None \<longrightarrow> (\<forall>l < layers t. \<not> fused_at t l))"
proof (intro conjI allI impI)
  show "l < layers t" "fused_at t l" "l < m \<Longrightarrow> m < layers t \<Longrightarrow> \<not> fused_at t m"
    if "convergence t = Ok (Some l)" for l m
    using convergence_Some_iff [OF assms convergence_okD [OF assms that]] that by blast+
  show "\<not> fused_at t l" if "convergence t = Ok None" "l < layers t" for l
    using convergence_resolved(2) [OF assms convergence_okD [OF assms that(1)]] that by force
  show "convergence t = Err e \<longleftrightarrow> viterbi_solve t = Err e" for e
    by (rule convergence_Err_iff [OF assms])
qed

theorem convergence_exact_witness: "fused_at sample 1 \<and> \<not> fused_at sample 2"
proof -
  show ?thesis using convergence_exact [OF sample_ok] sample_convergence sample_shape by auto
qed

text \<open>
  (C4) Emitting the converged prefix is safe: when the trellis is extended by further layers, the
  path chosen for the extended trellis keeps, up to and including the converged layer, the nodes
  chosen before.
\<close>

theorem converged_prefix_is_final:
  assumes "trellis_ok t" and "convergence t = Ok (Some l)" and "viterbi_solve t = Ok p"
    and "trellis_ok t'" and "extends t t'" and "viterbi_solve t' = Ok p'"
  shows "take (Suc l) (path_nodes p') = take (Suc l) (path_nodes p)"
  by (rule converged_prefix [OF assms(1,2,4,5,3,6)])

theorem converged_prefix_is_final_witness:
  "take (Suc 1) [0, 1, 0, 0] = take (Suc 1) [0, 1, 1::node_id]"
  using converged_prefix_is_final [OF sample_ok sample_convergence sample_solve
      sample_grown_ok sample_extends sample_grown_solve] by simp

text \<open>
  The convergence point never moves backwards: once a trellis converges at a layer, every
  solvable extension of it converges at that layer or a later one.
\<close>

theorem convergence_never_recedes:
  assumes "trellis_ok t" and "convergence t = Ok (Some l)"
    and "trellis_ok t'" and "extends t t'" and "convergence t' = Ok r"
  shows "\<exists>l'. r = Some l' \<and> l \<le> l'"
  using convergence_monotone [OF assms] by blast

theorem convergence_never_recedes_witness: "\<exists>l'. Some 3 = Some l' \<and> (1::layer_id) \<le> l'"
  by (rule convergence_never_recedes [OF sample_ok sample_convergence sample_grown_ok sample_extends
        sample_grown_convergence])

text \<open>
  Growing through the API extends: after \<open>append\<close> on a solved trellis, filling the new
  layer's node weights and the new boundary yields a well-formed trellis that continues the old
  one, so the two properties above apply to streaming growth.
\<close>

theorem append_and_fill_extends:
  assumes "certified s" and "solved_append s w = Ok (t1, l)"
    and "fill_nodes t1 l ns = Ok t2" and "fill_transition t2 (l - 1) rows = Ok t3"
  shows "trellis_ok t3 \<and> extends (solved_trellis s) t3 \<and> layers t3 = Suc (layers (solved_trellis s))"
proof (intro conjI)
  let ?t = "solved_trellis s"
  have t: "trellis_ok ?t" using assms(1) by (simp add: certified_def)
  note a = solved_append_Ok [OF assms(1,2)]
  have t2: "trellis_ok t2" by (rule fill_nodes_ok [OF a(1) assms(3)])
  show "trellis_ok t3" by (rule fill_transition_ok [OF t2 assms(4)])
  have "extends ?t t2" by (rule fill_nodes_extends [OF a(1,2) t _ assms(3)]) (simp add: a(3))
  then show "extends ?t t3" by (rule fill_transition_extends [OF t2 _ t _ assms(4)]) (simp add: a(3))
  have "layers t3 = layers t2"
    using assms(4) by (cases rule: fill_transition_cases [OF t2, of "l - 1" rows]) (auto simp: layers_def)
  also have "\<dots> = layers t1"
    using assms(3) by (cases rule: fill_nodes_cases [OF a(1), of l ns]) (auto simp: layers_def)
  finally show "layers t3 = Suc (layers ?t)" using a(3,4) by simp
qed

theorem append_and_fill_extends_witness:
  "extends sample \<lparr>widths = [1, 2, 2, 1], node_table = [0, 3, 1, 0, 0, 7],
     transitions = [Resolved [5, 2], Resolved [1, INF_W, 4, 1], Resolved [10, INF_W]]\<rparr>"
proof -
  let ?s = "\<lparr>solved_trellis = sample, solved_path = \<lparr>path_nodes = [0, 1, 1], path_total = 4\<rparr>\<rparr>"
  let ?t = "sample\<lparr>widths := [1, 2, 2, 1], node_table := [0, 3, 1, 0, 0, 0],
     transitions := [Resolved [5, 2], Resolved [1, INF_W, 4, 1], Pending]\<rparr>"
  have "trellis_solve viterbi_solve sample = Ok ?s" by (simp add: trellis_solve_def sample_solve)
  then have c: "certified ?s" by (rule viterbi.certificate(1) [OF sample_ok])
  have 1: "solved_append ?s 1 = Ok (?t, 3)" by (simp add: solved_append_def add_layer_def sample_def)
  have 2: "fill_nodes ?t 3 [7] = Ok (?t\<lparr>node_table := [0, 3, 1, 0, 0, 7]\<rparr>)"
    by (simp add: fill_nodes_def node_range_def layer_ranges_def layers_def range_len_def put_slice_def
        MAX_WEIGHT_def INF_W_num)
  have 3: "fill_transition (?t\<lparr>node_table := [0, 3, 1, 0, 0, 7]\<rparr>) (3 - 1) [10, NO_EDGE]
      = Ok (?t\<lparr>node_table := [0, 3, 1, 0, 0, 7],
          transitions := [Resolved [5, 2], Resolved [1, INF_W, 4, 1], Resolved [10, INF_W]]\<rparr>)"
    by (simp add: fill_transition_def NO_EDGE_def MAX_WEIGHT_def INF_W_num)
  from append_and_fill_extends [OF c 1 2 3] show ?thesis by (simp add: sample_def)
qed

section \<open>The certificate and the trellis operations\<close>

text \<open>
  (C7) A solved trellis is a certificate: whatever \<open>Trellis::solve\<close> returns with the Viterbi
  solver pairs the untouched trellis with a valid path of that exact, minimal cost; a failed
  solve hands the trellis back with the error, and a rejected append hands the certificate back.
\<close>

theorem solved_is_a_certificate:
  assumes "trellis_ok t"
  shows "(\<forall>s. trellis_solve viterbi_solve t = Ok s \<longrightarrow> certified s \<and> reopen s = t)
    \<and> (\<forall>t' e. trellis_solve viterbi_solve t = Err (t', e) \<longrightarrow> t' = t \<and> viterbi_solve t = Err e)
    \<and> (\<forall>s w s' e. solved_append s w = Err (s', e) \<longrightarrow> w = 0 \<and> s' = s)"
  using viterbi.certificate [OF assms] viterbi.failed_solve [of t] by (auto simp: solved_append_Err)

theorem solved_is_a_certificate_witness:
  "certified \<lparr>solved_trellis = sample, solved_path = \<lparr>path_nodes = [0, 1, 1], path_total = 4\<rparr>\<rparr>"
  using solved_is_a_certificate [OF sample_ok] by (simp add: trellis_solve_def sample_solve)

text \<open>
  (C8) A new trellis is well-formed exactly when its widths add up to less than \<open>2 ^ 32\<close>, the range of the
  sum that sizes its node table. Every trellis the public operations build from such widths is
  well-formed, and none of the operations panics on it: each returns its result or one of its
  documented errors.
\<close>

theorem built_trellis_never_panics:
  assumes "built ws t" and "sum_list ws \<le> U32_MAX"
  shows "(\<forall>vs t0. trellis_new vs = Ok t0 \<longrightarrow> (trellis_ok t0 \<longleftrightarrow> sum_list vs \<le> U32_MAX))
    \<and> trellis_ok t \<and> set_edge t l i j w \<noteq> Panic \<and> fill_transition t l rows \<noteq> Panic
    \<and> fill_nodes t l ws \<noteq> Panic \<and> add_layer t w \<noteq> Panic \<and> mark_pending t l \<noteq> Panic
    \<and> partition t a b \<noteq> Panic \<and> trellis_last t n \<noteq> Panic"
  using built_ok [OF assms] new_ok_iff set_edge_no_panic fill_transition_no_panic fill_nodes_no_panic
    partition_no_panic
  by (auto simp: add_layer_def mark_pending_def trellis_last_def Let_def)

theorem built_trellis_never_panics_witness:
  "trellis_ok \<lparr>widths = [1, 2], node_table = [0, 0, 0], transitions = [Pending]\<rparr>"
proof -
  let ?t = "\<lparr>widths = [1, 2], node_table = [0, 0, 0], transitions = [Pending]\<rparr>"
  have "u32_sum [1, 2] = Suc (Suc (Suc 0))" by (simp add: u32_sum_def u32_add_def)
  then have "trellis_new [1, 2] = Ok ?t" by (simp add: trellis_new_def)
  then have "built [1, 2] ?t" by (rule built_new)
  moreover have "sum_list [1, 2] \<le> U32_MAX" by simp
  ultimately show ?thesis using built_trellis_never_panics by blast
qed

text \<open>
  Reading an edge back: after \<open>set_edge\<close> succeeds, that edge has the new weight and every
  other edge of the trellis, in any boundary, keeps the weight it had (absent edges of a boundary
  that was still pending stay absent).
\<close>

theorem set_edge_reads_back:
  assumes "trellis_ok t" and "set_edge t l i j w = Ok t'"
    and "Suc l' < layers t" and "i' < widths t ! l'" and "j' < widths t ! Suc l'"
  shows "edge_weight t' l' i' j'
    = (if l' = l \<and> i' = i \<and> j' = j then Some w else edge_weight t l' i' j')"
  by (rule edge_weight_set_edge [OF assms])

theorem set_edge_reads_back_witness:
  "edge_weight \<lparr>widths = [1, 2], node_table = [0, 0, 0], transitions = [Resolved [INF_W, 9]]\<rparr> 0 0 1 = Some 9"
proof -
  let ?t = "\<lparr>widths = [1, 2], node_table = [0, 0, 0], transitions = [Pending]\<rparr>"
  have ok: "trellis_ok ?t" by (simp add: query_defs)
  have weight: "\<not> MAX_WEIGHT < 9" by (simp add: MAX_WEIGHT_def INF_W_num)
  have set: "set_edge ?t 0 0 1 9
      = Ok \<lparr>widths = [1, 2], node_table = [0, 0, 0], transitions = [Resolved [INF_W, 9]]\<rparr>"
    using weight by (simp add: set_edge_def ensure_resolved_def numeral_2_eq_2)
  show ?thesis using set_edge_reads_back [OF ok set, of 0 0 1] by (simp add: layers_def)
qed

text \<open>
  Windowing keeps weights: a partition has the layers of its range, and every node and edge
  weight strictly inside the range is the one of the original trellis, shifted by the start.
\<close>

theorem partition_keeps_weights:
  assumes "trellis_ok t" and "partition t a b = Ok t'"
  shows "trellis_ok t' \<and> layers t' = b - a
    \<and> (\<forall>l j. l < b - a \<longrightarrow> node_weight t' l j = node_weight t (a + l) j)
    \<and> (\<forall>l i j. Suc l < b - a \<longrightarrow> edge_weight t' l i j = edge_weight t (a + l) i j)"
proof -
  have "a < b" using assms(2) by (cases rule: partition_cases [OF assms(1), of b a]) auto
  then have "layers t' = b - a" using partition_weights(1) [OF assms, of 0] by simp
  then show ?thesis
    using partition_ok [OF assms] partition_weights(3,4) [OF assms] Suc_lessD by blast
qed

theorem partition_keeps_weights_witness:
  "edge_weight \<lparr>widths = [2, 2], node_table = [3, 1, 0, 0], transitions = [Resolved [1, INF_W, 4, 1]]\<rparr> 0 1 0
    = edge_weight sample 1 1 0"
proof -
  have "partition sample 1 3 = Ok \<lparr>widths = [2, 2], node_table = [3, 1, 0, 0],
      transitions = [Resolved [1, INF_W, 4, 1]]\<rparr>"
    by (simp add: partition_def layers_def node_range_def layer_ranges_def slice_def range_len_def
        sample_def numeral_2_eq_2)
  from partition_keeps_weights [OF sample_ok this] show ?thesis by simp
qed

end
