(* ===== verification/Dijkstra_Model.thy ===== *)
theory Dijkstra_Model
  imports Prelude Complex_Main "HOL-Library.Multiset"
begin

text \<open>
  The bounded search behind reachability (\<open>primitives/weight_and_distance.rs\<close>,
  \<open>primitives/algorithms/dijkstra.rs\<close>) and the walk along parent pointers
  (\<open>weigh/expansion.rs\<close>). The priority queue is a contract (\<open>cost_heap\<close>): popping returns an
  element of least cost, ties in any order, so the results hold for whatever order the standard
  library's heap picks.
\<close>

section \<open>Accumulated cost\<close>

record wad =
  numerator :: nat
  denominator :: nat
  distance_cm :: nat

text \<open>\<open>as u32\<close> on a float truncates towards zero and saturates.\<close>

definition f64_as_u32 :: "real \<Rightarrow> nat" where
  "f64_as_u32 x = min (nat \<lfloor>x\<rfloor>) U32_MAX"

definition wad_new :: "nat \<Rightarrow> real \<Rightarrow> wad" where
  "wad_new w centimetres = \<lparr>numerator = w, denominator = 1, distance_cm = f64_as_u32 centimetres\<rparr>"

definition wad_weight :: "wad \<Rightarrow> nat" where
  "wad_weight c = (if denominator c = 0 then 0 else numerator c div denominator c)"

text \<open>
  The product is computed in floating point and cast with saturation. Below \<open>2 ^ 32\<close> every
  intermediate value is an exactly represented integer; above, the cast saturates.
\<close>

definition wad_repr :: "wad \<Rightarrow> nat" where
  "wad_repr c = min (wad_weight c ^ 2 * distance_cm c) U32_MAX"

definition wad_add :: "wad \<Rightarrow> wad \<Rightarrow> wad" where
  "wad_add a b = \<lparr>numerator = u32_add (numerator a) (numerator b),
     denominator = u32_add (denominator a) (denominator b),
     distance_cm = u32_add (distance_cm a) (distance_cm b)\<rparr>"

definition wad_zero :: wad where
  "wad_zero = \<lparr>numerator = 0, denominator = 0, distance_cm = 0\<rparr>"

definition wad_metres :: "wad \<Rightarrow> real" where
  "wad_metres c = real (distance_cm c) / 100"

section \<open>The search\<close>

record 'e dijkstra_item =
  item_node :: 'e
  item_parent :: "'e option"
  item_cost :: wad

text \<open>
  \<open>parents\<close> is the insertion-ordered map: entry \<open>n\<close> is a node with the index it was reached from
  and its cost. The start's parent index (\<open>usize::MAX\<close>, never a valid index) is \<open>None\<close>.
\<close>

record 'e dijkstra =
  to_see :: "(wad \<times> nat) list"
  seen :: "nat list"
  parents :: "('e \<times> nat option \<times> wad) list"

definition dijkstra_reach :: "'e \<Rightarrow> 'e dijkstra" where
  "dijkstra_reach start =
     \<lparr>to_see = [(wad_zero, 0)], seen = [], parents = [(start, None, wad_zero)]\<rparr>"

definition relax_successor :: "wad \<Rightarrow> nat \<Rightarrow> 'e \<times> wad \<Rightarrow> 'e dijkstra \<Rightarrow> 'e dijkstra" where
  "relax_successor cost index sm st =
     (let new_cost = wad_add cost (snd sm)
      in case position (\<lambda>entry. fst entry = fst sm) (parents st) of
           None \<Rightarrow>
             st\<lparr>parents := parents st @ [(fst sm, Some index, new_cost)],
                to_see := to_see st @ [(new_cost, length (parents st))]\<rparr>
         | Some n \<Rightarrow>
             (if wad_repr (snd (snd (parents st ! n))) > wad_repr new_cost
              then st\<lparr>parents := (parents st)[n := (fst sm, Some index, new_cost)],
                      to_see := to_see st @ [(new_cost, n)]\<rparr>
              else st))"

type_synonym pop_fn = "(wad \<times> nat) list \<Rightarrow> ((wad \<times> nat) \<times> (wad \<times> nat) list) option"

text \<open>
  \<open>next\<close>: pop until an unseen index appears. Each turn of the loop pops one element, so the
  length of the queue bounds it. The result is \<open>None\<close> for the panic of \<open>get_index(..).unwrap()\<close>.
\<close>

fun next_loop ::
    "pop_fn \<Rightarrow> ('e \<Rightarrow> ('e \<times> wad) list) \<Rightarrow> nat \<Rightarrow> 'e dijkstra \<Rightarrow> ('e dijkstra_item option \<times> 'e dijkstra) option" where
  "next_loop pop succs 0 st = Some (None, st)"
| "next_loop pop succs (Suc fuel) st =
     (case pop (to_see st) of
        None \<Rightarrow> Some (None, st)
      | Some ((cost, index), rest) \<Rightarrow>
          (let st1 = st\<lparr>to_see := rest\<rparr>
           in if index \<in> set (seen st1) then next_loop pop succs fuel st1
              else let st2 = st1\<lparr>seen := index # seen st1\<rparr>
                   in if index \<ge> length (parents st2) then None
                      else let (node, parent_index, total) = parents st2 ! index;
                               item = \<lparr>item_node = node,
                                 item_parent = (case parent_index of
                                     Some i \<Rightarrow> (if i < length (parents st2) then Some (fst (parents st2 ! i)) else None)
                                   | None \<Rightarrow> None),
                                 item_cost = total\<rparr>
                           in Some (Some item, fold (relax_successor cost index) (succs node) st2)))"

definition dijkstra_next ::
    "pop_fn \<Rightarrow> ('e \<Rightarrow> ('e \<times> wad) list) \<Rightarrow> 'e dijkstra \<Rightarrow> ('e dijkstra_item option \<times> 'e dijkstra) option" where
  "dijkstra_next pop succs st = next_loop pop succs (Suc (length (to_see st))) st"

text \<open>
  \<open>take_while\<close> over the iterator. The outer \<open>None\<close> is exhausted fuel, the inner one the panic.
\<close>

fun dijkstra_take_while ::
    "pop_fn \<Rightarrow> ('e \<Rightarrow> ('e \<times> wad) list) \<Rightarrow> ('e dijkstra_item \<Rightarrow> bool) \<Rightarrow> nat \<Rightarrow> 'e dijkstra
      \<Rightarrow> 'e dijkstra_item list option option" where
  "dijkstra_take_while pop succs P 0 st = None"
| "dijkstra_take_while pop succs P (Suc fuel) st =
     (case dijkstra_next pop succs st of
        None \<Rightarrow> Some None
      | Some (None, st') \<Rightarrow> Some (Some [])
      | Some (Some item, st') \<Rightarrow>
          (if P item then map_option (map_option ((#) item)) (dijkstra_take_while pop succs P fuel st')
           else Some (Some [])))"

section \<open>Parent pointers\<close>

text \<open>\<open>ParentPath::path\<close>: the outer \<open>None\<close> is exhausted fuel, the inner one an absent node.\<close>

fun parent_walk :: "nat \<Rightarrow> ('e \<rightharpoonup> 'e) \<Rightarrow> 'e \<Rightarrow> 'e \<Rightarrow> 'e list \<Rightarrow> 'e list option option" where
  "parent_walk 0 m origin_node cursor nodes = None"
| "parent_walk (Suc fuel) m origin_node cursor nodes =
     (if cursor = origin_node then Some (Some nodes)
      else case m cursor of
             None \<Rightarrow> Some None
           | Some parent \<Rightarrow> parent_walk fuel m origin_node parent (parent # nodes))"

definition parent_path :: "nat \<Rightarrow> ('e \<rightharpoonup> 'e) \<Rightarrow> 'e \<Rightarrow> 'e \<Rightarrow> 'e list option option" where
  "parent_path fuel m origin_node leaf = parent_walk fuel m origin_node leaf [leaf]"

section \<open>The contract of the queue\<close>

locale cost_heap =
  fixes pop :: pop_fn
  assumes pop_empty: "pop [] = None"
    and pop_least: "q \<noteq> [] \<Longrightarrow> \<exists>x rest. pop q = Some (x, rest) \<and> mset q = add_mset x (mset rest)
        \<and> (\<forall>y \<in> set q. wad_repr (fst x) \<le> wad_repr (fst y))"
begin

lemma pop_SomeD:
  assumes "pop q = Some (x, rest)"
  shows "x \<in> set q" and "set rest \<subseteq> set q" and "length q = Suc (length rest)"
    and "\<And>y. y \<in> set q \<Longrightarrow> wad_repr (fst x) \<le> wad_repr (fst y)"
proof -
  have "q \<noteq> []" using assms pop_empty by auto
  from pop_least [OF this] assms have m: "mset q = add_mset x (mset rest)"
    and least: "\<forall>y \<in> set q. wad_repr (fst x) \<le> wad_repr (fst y)" by auto
  from m have "set_mset (mset q) = insert x (set_mset (mset rest))" by simp
  then have "set q = insert x (set rest)" by simp
  then show "x \<in> set q" "set rest \<subseteq> set q" by auto
  from m have "size (mset q) = Suc (size (mset rest))" by simp
  then show "length q = Suc (length rest)" by simp
  show "\<And>y. y \<in> set q \<Longrightarrow> wad_repr (fst x) \<le> wad_repr (fst y)" using least by blast
qed

lemma pop_None_iff: "pop q = None \<longleftrightarrow> q = []"
  using pop_empty pop_least [of q] by (cases "q = []") auto

end

text \<open>A queue that pops the oldest element of least cost.\<close>

fun min_holder :: "(wad \<times> nat) \<Rightarrow> (wad \<times> nat) list \<Rightarrow> wad \<times> nat" where
  "min_holder best [] = best"
| "min_holder best (x # xs) =
     min_holder (if wad_repr (fst x) < wad_repr (fst best) then x else best) xs"

definition pop_min :: pop_fn where
  "pop_min q = (case q of [] \<Rightarrow> None
     | x # xs \<Rightarrow> (let m = min_holder x xs in Some (m, remove1 m q)))"

lemma min_holder_in: "min_holder best xs \<in> insert best (set xs)"
  by (induction best xs rule: min_holder.induct) (auto split: if_splits)

lemma min_holder_least:
  "y \<in> insert best (set xs) \<Longrightarrow> wad_repr (fst (min_holder best xs)) \<le> wad_repr (fst y)"
proof (induction best xs arbitrary: y rule: min_holder.induct)
  case (2 best x xs)
  let ?b = "if wad_repr (fst x) < wad_repr (fst best) then x else best"
  have "wad_repr (fst (min_holder ?b xs)) \<le> wad_repr (fst ?b)" using "2.IH" by blast
  moreover have "y \<in> set xs \<or> wad_repr (fst ?b) \<le> wad_repr (fst y)" using "2.prems" by auto
  ultimately show ?case using "2.IH" [of y] by (auto intro: order_trans simp del: fst_conv)
qed simp

interpretation list_heap: cost_heap pop_min
proof unfold_locales
  fix q :: "(wad \<times> nat) list"
  assume "q \<noteq> []"
  then obtain x xs where q: "q = x # xs" by (cases q) auto
  have "min_holder x xs \<in> set q" using min_holder_in [of x xs] by (simp add: q)
  then show "\<exists>x rest. pop_min q = Some (x, rest) \<and> mset q = add_mset x (mset rest)
      \<and> (\<forall>y \<in> set q. wad_repr (fst x) \<le> wad_repr (fst y))"
    using min_holder_least [of _ x xs] by (auto simp: pop_min_def q Let_def)
qed (simp add: pop_min_def)

section \<open>Invariant of the search\<close>

text \<open>
  Node indices are those of \<open>parents\<close>; a parent index names a node already settled, and the entry's
  node is one of its successors; only the start has no parent.
\<close>

definition search_ok :: "('e \<Rightarrow> ('e \<times> wad) list) \<Rightarrow> 'e \<Rightarrow> 'e dijkstra \<Rightarrow> bool" where
  "search_ok succs start st \<longleftrightarrow>
     distinct (map fst (parents st)) \<and> distinct (seen st)
     \<and> (\<forall>(c, i) \<in> set (to_see st). i < length (parents st))
     \<and> (\<forall>i \<in> set (seen st). i < length (parents st))
     \<and> parents st \<noteq> [] \<and> fst (parents st ! 0) = start
     \<and> (\<forall>n < length (parents st). case fst (snd (parents st ! n)) of
          None \<Rightarrow> n = 0
        | Some i \<Rightarrow> n \<noteq> 0 \<and> i \<in> set (seen st) \<and> fst (parents st ! n) \<in> fst ` set (succs (fst (parents st ! i))))
     \<and> wad_repr (snd (snd (parents st ! 0))) = 0"

definition settled :: "'e dijkstra \<Rightarrow> 'e set" where
  "settled st = (\<lambda>i. fst (parents st ! i)) ` set (seen st)"

lemma search_ok_start: "search_ok succs start (dijkstra_reach start)"
  by (simp add: search_ok_def dijkstra_reach_def wad_zero_def wad_repr_def)

lemma relax_successor_keeps:
  fixes cost :: wad and st :: "'e dijkstra"
  assumes "fst sm \<in> fst ` set (succs (fst (parents st ! index)))" and "index \<in> set (seen st)"
    and "search_ok succs start st"
  defines "st' \<equiv> relax_successor cost index sm st"
  shows "search_ok succs start st'" and "seen st' = seen st"
    and "\<exists>added. map fst (parents st') = map fst (parents st) @ added"
proof -
  let ?new = "(fst sm, Some index, wad_add cost (snd sm))"
  have ix: "index < length (parents st)" using assms(2,3) by (auto simp: search_ok_def)
  have "search_ok succs start st' \<and> seen st' = seen st \<and> (\<exists>added. map fst (parents st') = map fst (parents st) @ added)"
  proof (cases "position (\<lambda>entry. fst entry = fst sm) (parents st)")
    case None
    then have fresh: "fst sm \<notin> fst ` set (parents st)" by (auto simp: position_None_iff)
    have st': "st' = st\<lparr>parents := parents st @ [?new], to_see := to_see st @ [(wad_add cost (snd sm), length (parents st))]\<rparr>"
      using None by (simp add: st'_def relax_successor_def Let_def)
    show ?thesis
      using assms(1-3) fresh ix
      by (auto simp: st' search_ok_def nth_append less_Suc_eq split: option.splits)
  next
    case (Some n)
    then have n: "n < length (parents st)" "fst (parents st ! n) = fst sm"
      using position_SomeD by fastforce+
    show ?thesis
    proof (cases "wad_repr (snd (snd (parents st ! n))) > wad_repr (wad_add cost (snd sm))")
      case True
      then have st': "st' = st\<lparr>parents := (parents st)[n := ?new], to_see := to_see st @ [(wad_add cost (snd sm), n)]\<rparr>"
        using Some by (simp add: st'_def relax_successor_def Let_def)
      have "wad_repr (snd (snd (parents st ! 0))) = 0" using assms(3) by (simp add: search_ok_def)
      then have n0: "n \<noteq> 0" using True by (cases n) auto
      have names: "map fst (parents st') = map fst (parents st)"
        using n by (intro nth_equalityI) (auto simp: st' nth_list_update)
      have fst_eq: "fst (parents st' ! k) = fst (parents st ! k)" if "k < length (parents st)" for k
        using n that by (auto simp: st' nth_list_update)
      have "search_ok succs start st'"
        using assms(1-3) n n0 ix names fst_eq
        by (auto simp: search_ok_def st' nth_list_update split: option.splits if_splits)
      then show ?thesis using names by (simp add: st')
    next
      case False
      then have "st' = st" using Some by (simp add: st'_def relax_successor_def Let_def)
      then show ?thesis using assms(3) by simp
    qed
  qed
  then show "search_ok succs start st'" "seen st' = seen st"
    "\<exists>added. map fst (parents st') = map fst (parents st) @ added" by auto
qed

lemma fold_relax_keeps:
  assumes "set ss \<subseteq> set (succs (fst (parents st ! index)))" and "index \<in> set (seen st)"
    and "search_ok succs start st"
  shows "search_ok succs start (fold (relax_successor cost index) ss st)
    \<and> seen (fold (relax_successor cost index) ss st) = seen st
    \<and> (\<exists>added. map fst (parents (fold (relax_successor cost index) ss st)) = map fst (parents st) @ added
        \<and> set added \<subseteq> fst ` set ss)"
  using assms
proof (induction ss arbitrary: st)
  case (Cons sm ss)
  let ?st = "relax_successor cost index sm st"
  have sm: "fst sm \<in> fst ` set (succs (fst (parents st ! index)))" using Cons.prems(1) by auto
  note k = relax_successor_keeps [OF sm Cons.prems(2,3), of cost]
  obtain m1 where m1: "map fst (parents ?st) = map fst (parents st) @ m1" "set m1 \<subseteq> {fst sm}"
  proof (cases "position (\<lambda>entry. fst entry = fst sm) (parents st)")
    case None
    then show ?thesis by (intro that [of "[fst sm]"]) (auto simp: relax_successor_def Let_def)
  next
    case (Some n)
    then have "n < length (parents st) \<and> fst (parents st ! n) = fst sm" using position_SomeD by fastforce
    then have "map fst ((parents st)[n := (fst sm, Some index, c)]) = map fst (parents st)" for c
      by (auto simp: map_update intro!: list_update_same_conv [THEN iffD2])
    then show ?thesis using Some by (intro that [of "[]"]) (auto simp: relax_successor_def Let_def)
  qed
  have ix: "index < length (parents st)" using Cons.prems(2,3) by (auto simp: search_ok_def)
  have "fst (parents ?st ! index) = map fst (parents ?st) ! index"
    using ix m1(1) [THEN arg_cong, of length] by simp
  also have "\<dots> = fst (parents st ! index)" using ix by (simp add: m1(1) nth_append)
  finally have eq: "fst (parents ?st ! index) = fst (parents st ! index)" .
  have "set ss \<subseteq> set (succs (fst (parents ?st ! index)))" "index \<in> set (seen ?st)"
    using Cons.prems eq k(2) by auto
  note IH = Cons.IH [OF this k(1)]
  then obtain m2 where "map fst (parents (fold (relax_successor cost index) ss ?st)) = map fst (parents ?st) @ m2"
    "set m2 \<subseteq> fst ` set ss" by blast
  then show ?case using IH k(2) m1 by (auto intro!: exI [of _ "m1 @ m2"])
qed auto

lemma settled_append:
  assumes "map fst (parents st') = map fst (parents st) @ added" and "seen st' = seen st"
    and "\<forall>i \<in> set (seen st). i < length (parents st)"
  shows "settled st' = settled st"
proof -
  have "fst (parents st' ! i) = fst (parents st ! i)" if i: "i < length (parents st)" for i
  proof -
    have "length (parents st) \<le> length (parents st')" using assms(1) [THEN arg_cong, of length] by simp
    then have "fst (parents st' ! i) = map fst (parents st') ! i" using i by simp
    also have "\<dots> = fst (parents st ! i)" using i by (simp add: assms(1) nth_append)
    finally show ?thesis .
  qed
  then show ?thesis using assms(2,3) by (auto simp: settled_def image_iff)
qed

text \<open>What one step of the iterator emits, given the nodes \<open>E\<close> emitted before it.\<close>

definition emits :: "('e \<Rightarrow> ('e \<times> wad) list) \<Rightarrow> 'e \<Rightarrow> 'e set \<Rightarrow> 'e dijkstra_item \<Rightarrow> bool" where
  "emits succs start E item \<longleftrightarrow> item_node item \<notin> E
     \<and> (case item_parent item of
          None \<Rightarrow> item_node item = start
        | Some p \<Rightarrow> item_node item \<noteq> start \<and> p \<in> E \<and> item_node item \<in> fst ` set (succs p))"

lemma search_ok_entry:
  assumes "search_ok succs start st" and "n < length (parents st)" and "parents st ! n = (e, pidx, c)"
  shows "pidx = None \<Longrightarrow> e = start"
    and "pidx = Some i \<Longrightarrow> e \<noteq> start \<and> i < length (parents st) \<and> i \<in> set (seen st)
      \<and> e \<in> fst ` set (succs (fst (parents st ! i)))"
proof -
  have names: "distinct (map fst (parents st))" and z: "fst (parents st ! 0) = start" "0 < length (parents st)"
    using assms(1) by (auto simp: search_ok_def)
  from assms(1,2) have *: "case fst (snd (parents st ! n)) of None \<Rightarrow> n = 0
      | Some i \<Rightarrow> n \<noteq> 0 \<and> i \<in> set (seen st) \<and> fst (parents st ! n) \<in> fst ` set (succs (fst (parents st ! i)))"
    by (simp add: search_ok_def)
  show "pidx = None \<Longrightarrow> e = start" using * assms(3) z by auto
  assume pidx: "pidx = Some i"
  have "n \<noteq> 0" using * assms(3) pidx by simp
  then have "fst (parents st ! n) \<noteq> fst (parents st ! 0)"
    using names assms(2) z(2) nth_eq_iff_index_eq [of "map fst (parents st)" n 0] by simp
  then show "e \<noteq> start \<and> i < length (parents st) \<and> i \<in> set (seen st) \<and> e \<in> fst ` set (succs (fst (parents st ! i)))"
    using * assms(1,3) pidx z by (auto simp: search_ok_def)
qed

context cost_heap
begin

lemma next_loop_spec:
  assumes "search_ok succs start st" and "length (to_see st) < fuel"
  shows "\<exists>out st'. next_loop pop succs fuel st = Some (out, st')
    \<and> (case out of
         None \<Rightarrow> to_see st' = []
       | Some item \<Rightarrow> search_ok succs start st' \<and> emits succs start (settled st) item
           \<and> item_node item \<in> fst ` set (parents st)
           \<and> settled st' = insert (item_node item) (settled st)
           \<and> (\<exists>added. map fst (parents st') = map fst (parents st) @ added
                \<and> set added \<subseteq> fst ` set (succs (item_node item))))"
  using assms
proof (induction fuel arbitrary: st)
  case (Suc fuel)
  show ?case
  proof (cases "pop (to_see st)")
    case None
    then have "to_see st = []" by (simp add: pop_None_iff)
    then show ?thesis using None by simp
  next
    case (Some r)
    obtain cost index rest where r: "r = ((cost, index), rest)" by (metis surj_pair)
    note p = pop_SomeD [OF Some [unfolded r]]
    let ?st1 = "st\<lparr>to_see := rest\<rparr>"
    have ok1: "search_ok succs start ?st1" using Suc.prems(1) p(2) by (auto simp: search_ok_def split: option.splits)
    have ix: "index < length (parents st)" using Suc.prems(1) p(1) by (auto simp: search_ok_def)
    show ?thesis
    proof (cases "index \<in> set (seen st)")
      case True
      have same: "settled ?st1 = settled st" "parents ?st1 = parents st" by (simp_all add: settled_def)
      from True show ?thesis
        using Suc.IH [OF ok1, unfolded same] Suc.prems(2) p(3) Some r by simp
    next
      case False
      let ?st2 = "?st1\<lparr>seen := index # seen st\<rparr>"
      obtain node pidx c where e: "parents st ! index = (node, pidx, c)" by (metis surj_pair)
      have ok2: "search_ok succs start ?st2"
        using ok1 False ix by (auto simp: search_ok_def split: option.splits)
      let ?item = "\<lparr>item_node = node, item_parent = (case pidx of
            Some i \<Rightarrow> (if i < length (parents st) then Some (fst (parents st ! i)) else None) | None \<Rightarrow> None),
          item_cost = c\<rparr>"
      let ?st' = "fold (relax_successor cost index) (succs node) ?st2"
      have run: "next_loop pop succs (Suc fuel) st = Some (Some ?item, ?st')"
        using Some r False ix e by (simp add: Let_def split: option.split)
      have f: "search_ok succs start ?st' \<and> seen ?st' = index # seen st
          \<and> (\<exists>added. map fst (parents ?st') = map fst (parents st) @ added \<and> set added \<subseteq> fst ` set (succs node))"
        using fold_relax_keeps [of "succs node" succs ?st2 index start cost] ok2 e by simp
      then obtain added where added: "map fst (parents ?st') = map fst (parents ?st2) @ added"
        "set added \<subseteq> fst ` set (succs node)" by auto
      have "settled ?st' = settled ?st2"
        by (rule settled_append [OF added(1)]) (use f ok2 in \<open>auto simp: search_ok_def\<close>)
      also have "\<dots> = insert node (settled st)" by (simp add: settled_def e)
      finally have "settled ?st' = insert node (settled st)" .
      moreover have "emits succs start (settled st) ?item"
      proof -
        have "node \<notin> settled st"
        proof
          assume "node \<in> settled st"
          then obtain i where i: "i \<in> set (seen st)" "fst (parents st ! i) = node" by (auto simp: settled_def)
          then have "i < length (parents st)" using Suc.prems(1) by (auto simp: search_ok_def)
          moreover have "distinct (map fst (parents st))" using Suc.prems(1) by (simp add: search_ok_def)
          ultimately have "i = index"
            using ix i(2) e nth_eq_iff_index_eq [of "map fst (parents st)" i index] by simp
          then show False using i(1) False by simp
        qed
        then show ?thesis
          using search_ok_entry [OF Suc.prems(1) ix e] by (cases pidx) (auto simp: emits_def settled_def)
      qed
      moreover have "node \<in> fst ` set (parents st)" using ix e nth_mem [of index "parents st"] by force
      ultimately show ?thesis using run f by auto
    qed
  qed
qed simp

lemma dijkstra_next_spec:
  "search_ok succs start st \<Longrightarrow> \<exists>out st'. dijkstra_next pop succs st = Some (out, st')
    \<and> (case out of
         None \<Rightarrow> to_see st' = []
       | Some item \<Rightarrow> search_ok succs start st' \<and> emits succs start (settled st) item
           \<and> item_node item \<in> fst ` set (parents st)
           \<and> settled st' = insert (item_node item) (settled st)
           \<and> (\<exists>added. map fst (parents st') = map fst (parents st) @ added
                \<and> set added \<subseteq> fst ` set (succs (item_node item))))"
  unfolding dijkstra_next_def by (rule next_loop_spec) simp_all

end

section \<open>Runs of the search\<close>

fun emitted :: "('e \<Rightarrow> ('e \<times> wad) list) \<Rightarrow> 'e \<Rightarrow> 'e set \<Rightarrow> 'e dijkstra_item list \<Rightarrow> bool" where
  "emitted succs start E [] = True"
| "emitted succs start E (it # its) =
     (emits succs start E it \<and> emitted succs start (insert (item_node it) E) its)"

definition closed_under :: "('e \<Rightarrow> ('e \<times> wad) list) \<Rightarrow> 'e set \<Rightarrow> bool" where
  "closed_under succs V \<longleftrightarrow> (\<forall>v \<in> V. fst ` set (succs v) \<subseteq> V)"

context cost_heap
begin

lemma take_while_spec:
  assumes V: "finite V" "closed_under succs V"
  shows "search_ok succs start st \<Longrightarrow> fst ` set (parents st) \<subseteq> V \<Longrightarrow> card (V - settled st) < fuel \<Longrightarrow>
    \<exists>items. dijkstra_take_while pop succs P fuel st = Some (Some items)
      \<and> emitted succs start (settled st) items \<and> (\<forall>it \<in> set items. P it)"
proof (induction fuel arbitrary: st)
  case (Suc fuel)
  obtain out st' where n: "dijkstra_next pop succs st = Some (out, st')"
    and sp: "case out of
         None \<Rightarrow> to_see st' = []
       | Some item \<Rightarrow> search_ok succs start st' \<and> emits succs start (settled st) item
           \<and> item_node item \<in> fst ` set (parents st)
           \<and> settled st' = insert (item_node item) (settled st)
           \<and> (\<exists>added. map fst (parents st') = map fst (parents st) @ added
                \<and> set added \<subseteq> fst ` set (succs (item_node item)))"
    using dijkstra_next_spec [OF Suc.prems(1)] by blast
  show ?case
  proof (cases out)
    case None
    then show ?thesis using n by simp
  next
    case (Some item)
    note s = sp [unfolded Some option.case]
    show ?thesis
    proof (cases "P item")
      case False
      then show ?thesis using n Some by simp
    next
      case True
      have v: "item_node item \<in> V" "item_node item \<notin> settled st"
        using s Suc.prems(2) by (auto simp: emits_def)
      have "fst ` set (parents st') \<subseteq> V"
      proof -
        obtain added where a: "map fst (parents st') = map fst (parents st) @ added"
          "set added \<subseteq> fst ` set (succs (item_node item))" using s by blast
        have "fst ` set (succs (item_node item)) \<subseteq> V" using V(2) v(1) by (simp only: closed_under_def)
        with a(2) have "set added \<subseteq> V" by (rule subset_trans)
        moreover have "fst ` set (parents st') = fst ` set (parents st) \<union> set added"
          using a(1) [THEN arg_cong, of set] by simp
        ultimately show ?thesis using Suc.prems(2) by simp
      qed
      moreover have "card (V - settled st') < fuel"
      proof -
        have "V - settled st' = (V - settled st) - {item_node item}" using s by auto
        moreover have "card ((V - settled st) - {item_node item}) < card (V - settled st)"
          using v V(1) by (intro card_Diff1_less) auto
        ultimately show ?thesis using Suc.prems(3) by simp
      qed
      ultimately obtain items where "dijkstra_take_while pop succs P fuel st' = Some (Some items)"
        "emitted succs start (settled st') items" "\<forall>it \<in> set items. P it"
        using Suc.IH s by blast
      then show ?thesis using n Some s True by (intro exI [of _ "item # items"]) simp
    qed
  qed
qed simp

end

section \<open>Walking back\<close>

lemma emitted_nth:
  assumes "emitted succs start E items" and "k < length items"
  shows "emits succs start (E \<union> item_node ` set (take k items)) (items ! k)"
  using assms
proof (induction items arbitrary: E k)
  case (Cons it its)
  show ?case
  proof (cases k)
    case 0
    then show ?thesis using Cons.prems by simp
  next
    case (Suc j)
    then show ?thesis using Cons.IH [of "insert (item_node it) E" j] Cons.prems by simp
  qed
qed simp

lemma emitted_distinct:
  assumes "emitted succs start E items"
  shows "distinct (map item_node items)" "item_node ` set items \<inter> E = {}"
  using assms by (induction items arbitrary: E) (fastforce simp: emits_def)+

definition parent_entry :: "'e \<Rightarrow> 'e dijkstra_item \<Rightarrow> 'e \<times> 'e" where
  "parent_entry fallback it = (item_node it, case item_parent it of None \<Rightarrow> fallback | Some p \<Rightarrow> p)"

lemma parent_map_nth:
  assumes "emitted succs start E items" and "k < length items"
  shows "map_of (map (parent_entry d) items) (item_node (items ! k)) = Some (snd (parent_entry d (items ! k)))"
proof -
  have "distinct (map fst (map (parent_entry d) items))"
    using emitted_distinct(1) [OF assms(1)] by (simp add: comp_def parent_entry_def)
  moreover have "(item_node (items ! k), snd (parent_entry d (items ! k))) \<in> set (map (parent_entry d) items)"
    using assms(2) by (auto simp: parent_entry_def image_iff intro!: bexI [of _ "items ! k"])
  ultimately show ?thesis by (rule map_of_is_SomeI)
qed

abbreviation linked :: "('e \<Rightarrow> ('e \<times> wad) list) \<Rightarrow> 'e list \<Rightarrow> bool" where
  "linked succs \<equiv> successively (\<lambda>a b. b \<in> fst ` set (succs a))"

lemma parent_walk_emitted:
  assumes "emitted succs start {} items"
  shows "k < length items \<Longrightarrow> k < fuel \<Longrightarrow>
    \<exists>ns. parent_walk fuel (map_of (map (parent_entry d) items)) start (item_node (items ! k)) acc
        = Some (Some (ns @ acc))
      \<and> hd (ns @ [item_node (items ! k)]) = start \<and> linked succs (ns @ [item_node (items ! k)])"
proof (induction k arbitrary: fuel acc rule: less_induct)
  case (less k)
  obtain f where f: "fuel = Suc f" using less.prems(2) by (cases fuel) auto
  let ?m = "map_of (map (parent_entry d) items)" and ?c = "item_node (items ! k)"
  show ?case
  proof (cases "?c = start")
    case True
    then show ?thesis by (intro exI [of _ "[]"]) (simp add: f)
  next
    case False
    with emitted_nth [OF assms less.prems(1)] obtain p where p: "item_parent (items ! k) = Some p"
      "p \<in> item_node ` set (take k items)" "?c \<in> fst ` set (succs p)"
      by (auto simp: emits_def split: option.splits)
    then obtain j where j: "j < k" "p = item_node (items ! j)"
      using less.prems(1) by (auto simp: in_set_conv_nth)
    have m: "?m ?c = Some p" using parent_map_nth [OF assms less.prems(1), of d] p(1) by (simp add: parent_entry_def)
    obtain ns where ns: "parent_walk f ?m start p (p # acc) = Some (Some (ns @ (p # acc)))"
      "hd (ns @ [p]) = start" "linked succs (ns @ [p])"
      using less.IH [OF j(1), of f "p # acc"] less.prems j f by auto
    have "hd (ns @ [p, ?c]) = start" using ns(2) by (cases ns) auto
    moreover have "linked succs (ns @ [p, ?c])" using ns(3) p(3) by (auto simp: successively_append_iff)
    ultimately show ?thesis using ns(1) m False f by (intro exI [of _ "ns @ [p]"]) simp
  qed
qed

lemma parent_path_emitted:
  assumes "emitted succs start {} items" and "length items < fuel"
  shows "leaf \<in> item_node ` set items \<Longrightarrow> \<exists>ns. parent_path fuel (map_of (map (parent_entry d) items)) start leaf
      = Some (Some ns) \<and> ns \<noteq> [] \<and> hd ns = start \<and> last ns = leaf \<and> linked succs ns"
    and "leaf \<notin> item_node ` set items \<Longrightarrow> leaf \<noteq> start \<Longrightarrow>
      parent_path fuel (map_of (map (parent_entry d) items)) start leaf = Some None"
    and "parent_path fuel (map_of (map (parent_entry d) items)) start start = Some (Some [start])"
proof -
  obtain f where f: "fuel = Suc f" using assms(2) by (cases fuel) auto
  assume "leaf \<in> item_node ` set items"
  then obtain k where k: "k < length items" "leaf = item_node (items ! k)" by (auto simp: in_set_conv_nth)
  from parent_walk_emitted [OF assms(1) k(1), of fuel d "[leaf]"] assms(2) k obtain ns where
    "parent_walk fuel (map_of (map (parent_entry d) items)) start leaf [leaf] = Some (Some (ns @ [leaf]))"
    "hd (ns @ [leaf]) = start" "linked succs (ns @ [leaf])" by auto
  then show "\<exists>ns. parent_path fuel (map_of (map (parent_entry d) items)) start leaf
      = Some (Some ns) \<and> ns \<noteq> [] \<and> hd ns = start \<and> last ns = leaf \<and> linked succs ns"
    by (intro exI [of _ "ns @ [leaf]"]) (simp add: parent_path_def)
next
  obtain f where f: "fuel = Suc f" using assms(2) by (cases fuel) auto
  show "parent_path fuel (map_of (map (parent_entry d) items)) start start = Some (Some [start])"
    by (simp add: parent_path_def f)
  assume "leaf \<notin> item_node ` set items" "leaf \<noteq> start"
  moreover from this have "map_of (map (parent_entry d) items) leaf = None"
    by (auto simp: map_of_eq_None_iff parent_entry_def image_image)
  ultimately show "parent_path fuel (map_of (map (parent_entry d) items)) start leaf = Some None"
    by (simp add: parent_path_def f)
qed

end
