(* ===== verification/Network_Model.thy ===== *)
theory Network_Model
  imports Prelude Complex_Main
begin

text \<open>
  The primitives of \<open>routers_network\<close>: edge identifiers with their direction and derived order,
  edges, nodes, and the network as the record of the trait methods the matcher calls
  (\<open>DataPlane\<close>, \<open>Discovery\<close>, \<open>Scan\<close>). Entries are any type \<open>'e\<close>, positions any type \<open>'p\<close>;
  spherical geometry (the \<open>geo\<close> crate) is the record \<open>geo\<close> of the functions the sources use,
  over real numbers.
\<close>

section \<open>Identifiers and their order\<close>

datatype direction = Outgoing | Incoming

instantiation direction :: linorder
begin

definition less_eq_direction :: "direction \<Rightarrow> direction \<Rightarrow> bool" where
  "less_eq_direction a b \<longleftrightarrow> a = Outgoing \<or> b = Incoming"

definition less_direction :: "direction \<Rightarrow> direction \<Rightarrow> bool" where
  "less_direction a b \<longleftrightarrow> a = Outgoing \<and> b = Incoming"

instance
proof
  fix a b c :: direction
  show "a < b \<longleftrightarrow> a \<le> b \<and> \<not> b \<le> a" "a \<le> a" "a \<le> b \<or> b \<le> a"
    "a \<le> b \<Longrightarrow> b \<le> a \<Longrightarrow> a = b" "a \<le> b \<Longrightarrow> b \<le> c \<Longrightarrow> a \<le> c"
    by (cases a; cases b; cases c; simp add: less_eq_direction_def less_direction_def)+
qed

end

datatype 'e edge_id = EdgeId (edge_index: 'e) (edge_direction: direction)

fun edge_id_new :: "'e \<Rightarrow> 'e edge_id" where
  "edge_id_new i = EdgeId i Outgoing"

fun with_direction :: "'e edge_id \<Rightarrow> direction \<Rightarrow> 'e edge_id" where
  "with_direction (EdgeId i d) d' = EdgeId i d'"

fun edge_forward :: "'e edge_id \<Rightarrow> 'e edge_id" where
  "edge_forward (EdgeId i d) = EdgeId i Outgoing"

fun edge_backward :: "'e edge_id \<Rightarrow> 'e edge_id" where
  "edge_backward (EdgeId i d) = EdgeId i Incoming"

text \<open>\<open>Ord for DirectionAwareEdgeId\<close>: by identifier, then by direction.\<close>

fun edge_id_le :: "'e::linorder edge_id \<Rightarrow> 'e edge_id \<Rightarrow> bool" where
  "edge_id_le (EdgeId i d) (EdgeId j d') = (if i = j then d \<le> d' else i < j)"

instantiation edge_id :: (linorder) linorder
begin

definition less_eq_edge_id :: "'a edge_id \<Rightarrow> 'a edge_id \<Rightarrow> bool" where
  "less_eq_edge_id a b \<longleftrightarrow> edge_id_le a b"

definition less_edge_id :: "'a edge_id \<Rightarrow> 'a edge_id \<Rightarrow> bool" where
  "less_edge_id a b \<longleftrightarrow> edge_id_le a b \<and> \<not> edge_id_le b a"

instance
proof
  fix a b c :: "'a edge_id"
  show "a < b \<longleftrightarrow> a \<le> b \<and> \<not> b \<le> a" by (simp add: less_eq_edge_id_def less_edge_id_def)
  show "a \<le> a" "a \<le> b \<or> b \<le> a" "a \<le> b \<Longrightarrow> b \<le> a \<Longrightarrow> a = b"
    by (cases a; cases b; auto simp: less_eq_edge_id_def split: if_splits)+
  show "a \<le> b \<Longrightarrow> b \<le> c \<Longrightarrow> a \<le> c"
    by (cases a; cases b; cases c; auto simp: less_eq_edge_id_def split: if_splits)
qed

end

section \<open>Edges and nodes\<close>

record 'e edge =
  source :: 'e
  target :: 'e
  weight :: nat
  edge_ident :: "'e edge_id"

record ('e, 'p) node =
  node_ident :: 'e
  node_position :: 'p

definition edge_key :: "'e edge \<Rightarrow> 'e" where
  "edge_key e = edge_index (edge_ident e)"

definition edge_from :: "'e \<times> 'e \<times> nat \<times> 'e edge_id \<Rightarrow> 'e edge" where
  "edge_from g = (case g of (s, t, w, i) \<Rightarrow> \<lparr>source = s, target = t, weight = w, edge_ident = i\<rparr>)"

text \<open>\<open>Edge<Node<E>>::thin\<close>: the direction of the identifier is reset to outgoing.\<close>

definition thin :: "('e, 'p) node edge \<Rightarrow> 'e edge" where
  "thin e = \<lparr>source = node_ident (source e), target = node_ident (target e), weight = weight e,
     edge_ident = edge_id_new (node_ident (edge_key e))\<rparr>"

section \<open>The traits\<close>

text \<open>The functions of the \<open>geo\<close> crate the sources call.\<close>

record 'p geo =
  haversine :: "'p \<Rightarrow> 'p \<Rightarrow> real"
  bearing :: "'p \<Rightarrow> 'p \<Rightarrow> real"
  line_locate_point :: "'p list \<Rightarrow> 'p \<Rightarrow> real option"
  point_at_ratio :: "'p \<Rightarrow> 'p \<Rightarrow> real \<Rightarrow> 'p"
  square_box :: "'p \<Rightarrow> real \<Rightarrow> 'p \<times> 'p"

record ('e, 'p, 'm) network =
  metadata :: "'e \<Rightarrow> 'm option"
  net_point :: "'e \<Rightarrow> 'p option"
  edges_outof :: "'e \<Rightarrow> ('e \<times> 'e \<times> nat \<times> 'e edge_id) list"
  edges_into :: "'e \<Rightarrow> ('e \<times> 'e \<times> nat \<times> 'e edge_id) list"
  fatten :: "'e edge \<Rightarrow> ('e, 'p) node edge option"
  edges_in_box :: "'p \<times> 'p \<Rightarrow> ('e, 'p) node edge list"
  nodes_in_box :: "'p \<times> 'p \<Rightarrow> ('e, 'p) node list"
  net_edge :: "'e \<Rightarrow> 'e \<Rightarrow> 'e edge option"
  nearest_node :: "'p \<Rightarrow> ('e, 'p) node option"
  route_nodes :: "'e \<Rightarrow> 'e \<Rightarrow> (nat \<times> ('e, 'p) node list) option"

definition net_line :: "('e, 'p, 'm) network \<Rightarrow> 'e list \<Rightarrow> 'p list" where
  "net_line n es = List.map_filter (net_point n) es"

definition nodes_at_distance :: "'p geo \<Rightarrow> ('e, 'p, 'm) network \<Rightarrow> 'p \<Rightarrow> real \<Rightarrow> ('e, 'p) node list" where
  "nodes_at_distance g n p d = nodes_in_box n (square_box g p d)"

definition edges_at_distance :: "'p geo \<Rightarrow> ('e, 'p, 'm) network \<Rightarrow> 'p \<Rightarrow> real \<Rightarrow> ('e, 'p) node edge list" where
  "edges_at_distance g n p d = edges_in_box n (square_box g p d)"

text \<open>
  Each nearby edge paired with the position on it closest to the point; an edge on which the
  point cannot be located is skipped.
\<close>

definition nearest_nodes_projected ::
    "'p geo \<Rightarrow> ('e, 'p, 'm) network \<Rightarrow> 'p \<Rightarrow> real \<Rightarrow> ('p \<times> ('e, 'p) node edge) list" where
  "nearest_nodes_projected g n p d =
     List.map_filter (\<lambda>edge.
         let a = node_position (source edge); b = node_position (target edge)
         in map_option (\<lambda>frac. (point_at_ratio g a b frac, edge)) (line_locate_point g [a, b] p))
       (edges_at_distance g n p d)"

definition route_points :: "('e, 'p, 'm) network \<Rightarrow> 'p \<Rightarrow> 'p \<Rightarrow> (nat \<times> ('e, 'p) node list) option" where
  "route_points n start finish =
     (case nearest_node n start of
        None \<Rightarrow> None
      | Some a \<Rightarrow> (case nearest_node n finish of
            None \<Rightarrow> None
          | Some b \<Rightarrow> route_nodes n (node_ident a) (node_ident b)))"

lemma net_line_all:
  "(\<And>e. e \<in> set es \<Longrightarrow> net_point n e \<noteq> None) \<Longrightarrow> net_line n es = map (the \<circ> net_point n) es"
  by (induction es) (auto simp: net_line_def List.map_filter_def)

lemma length_net_line: "length (net_line n es) \<le> length es"
  by (simp add: net_line_def List.map_filter_def)

end
