(* ===== verification/Candidates.thy ===== *)
theory Candidates
  imports Network_Model Trellis_Model
begin

text \<open>
  Candidates of a map match (\<open>candidate/\<close>, \<open>matcher/origin.rs\<close>, \<open>primitives/resolve.rs\<close>,
  \<open>primitives/error.rs\<close>, \<open>layer/generation/\<close>): a candidate's identity is its place, the store keeps
  one row of candidates per layer, and the standard generator turns a point into a layer.
\<close>

section \<open>Identity\<close>

datatype candidate_ref = CandidateRef (ref_layer: layer_id) (ref_node: node_id)

instantiation candidate_ref :: linorder
begin

definition less_eq_candidate_ref :: "candidate_ref \<Rightarrow> candidate_ref \<Rightarrow> bool" where
  "less_eq_candidate_ref a b \<longleftrightarrow> (ref_layer a, ref_node a) \<le> (ref_layer b, ref_node b)"

definition less_candidate_ref :: "candidate_ref \<Rightarrow> candidate_ref \<Rightarrow> bool" where
  "less_candidate_ref a b \<longleftrightarrow> (ref_layer a, ref_node a) < (ref_layer b, ref_node b)"

instance
  by standard (auto simp: less_eq_candidate_ref_def less_candidate_ref_def less_eq_prod_def
      less_prod_def intro: candidate_ref.expand)

end

section \<open>Data\<close>

record ('e, 'p) candidate =
  edge :: "'e edge"
  position_on :: 'p
  emission :: nat
  location :: candidate_ref

record 'p origin =
  origin_point :: 'p
  timestamp :: int

type_synonym ('e, 'p) candidate_store = "('e, 'p) candidate list list"

datatype virtual_tail = ToSource | ToTarget

datatype resolution_method = Standard | DistanceOnly

record 'e reachable =
  reach_source :: candidate_ref
  reach_target :: candidate_ref
  reach_path :: "'e edge list"
  resolution :: resolution_method

record 'p unanchored =
  unanchored_layer :: nat
  unanchored_origin :: 'p

record 'p disconnected =
  from_layer :: nat
  to_layer :: nat
  from_origin :: 'p
  to_origin :: 'p

datatype 'p match_error =
    Unanchored "'p unanchored list"
  | Disconnected "'p disconnected list"
  | TrellisError trellis_error
  | SolveError solve_error

section \<open>The store\<close>

definition store_push_layer ::
    "('e, 'p) candidate_store \<Rightarrow> ('e, 'p) candidate list \<Rightarrow> ('e, 'p) candidate_store" where
  "store_push_layer st cs = st @ [cs]"

definition stamp_layer :: "layer_id \<Rightarrow> ('e, 'p) candidate \<Rightarrow> ('e, 'p) candidate" where
  "stamp_layer l c = c\<lparr>location := CandidateRef l (ref_node (location c))\<rparr>"

definition store_tail :: "nat \<Rightarrow> ('e, 'p) candidate_store \<Rightarrow> ('e, 'p) candidate_store" where
  "store_tail n st =
     (let cut = length st - n
      in if cut = 0 then st
         else map (\<lambda>(l, cs). map (stamp_layer l) cs) (enumerate 0 (drop cut st)))"

definition store_layer :: "('e, 'p) candidate_store \<Rightarrow> layer_id \<Rightarrow> ('e, 'p) candidate list option" where
  "store_layer st l = (if l < length st then Some (st ! l) else None)"

definition store_candidate :: "('e, 'p) candidate_store \<Rightarrow> candidate_ref \<Rightarrow> ('e, 'p) candidate option" where
  "store_candidate st r =
     (case store_layer st (ref_layer r) of
        None \<Rightarrow> None
      | Some cs \<Rightarrow> if ref_node r < length cs then Some (cs ! ref_node r) else None)"

definition store_len :: "('e, 'p) candidate_store \<Rightarrow> nat" where
  "store_len st = sum_list (map length st)"

definition store_iter :: "('e, 'p) candidate_store \<Rightarrow> ('e, 'p) candidate list" where
  "store_iter st = concat st"

section \<open>Geometry of one candidate\<close>

definition percentage :: "'p geo \<Rightarrow> ('e, 'p, 'm) network \<Rightarrow> ('e, 'p) candidate \<Rightarrow> real option" where
  "percentage g n c = line_locate_point g (net_line n [source (edge c), target (edge c)]) (position_on c)"

definition directly_reachable ::
    "'p geo \<Rightarrow> ('e, 'p, 'm) network \<Rightarrow> ('e, 'p) candidate \<Rightarrow> ('e, 'p) candidate \<Rightarrow> bool option" where
  "directly_reachable g n c c' =
     (if edge_index (edge_ident (edge c)) \<noteq> edge_index (edge_ident (edge c')) then Some False
      else
        let same_direction = (source (edge c) = source (edge c') \<and> target (edge c) = target (edge c'))
        in case percentage g n c of
             None \<Rightarrow> None
           | Some a \<Rightarrow> (case percentage g n c' of
                 None \<Rightarrow> None
               | Some b \<Rightarrow> Some (same_direction \<and> a \<le> b)))"

definition edge_heading :: "'p geo \<Rightarrow> ('e, 'p, 'm) network \<Rightarrow> ('e, 'p) candidate \<Rightarrow> real option" where
  "edge_heading g n c =
     (case net_point n (source (edge c)) of
        None \<Rightarrow> None
      | Some s \<Rightarrow> (case net_point n (target (edge c)) of
            None \<Rightarrow> None
          | Some t \<Rightarrow> if haversine g s t < 1 then None else Some (bearing g s t)))"

fun offset_by :: "'p geo \<Rightarrow> ('e, 'p, 'm) network \<Rightarrow> ('e, 'p) candidate \<Rightarrow> virtual_tail \<Rightarrow> real option" where
  "offset_by g n c ToSource =
     map_option (\<lambda>s. haversine g s (position_on c)) (net_point n (source (edge c)))"
| "offset_by g n c ToTarget =
     map_option (\<lambda>t. haversine g (position_on c) t) (net_point n (target (edge c)))"

section \<open>Reachables\<close>

definition reachable_new :: "candidate_ref \<Rightarrow> candidate_ref \<Rightarrow> 'e edge list \<Rightarrow> 'e reachable" where
  "reachable_new s t p = \<lparr>reach_source = s, reach_target = t, reach_path = p, resolution = Standard\<rparr>"

definition distance_only :: "'e reachable \<Rightarrow> 'e reachable" where
  "distance_only r = r\<lparr>resolution := DistanceOnly\<rparr>"

definition reachable_direct :: "candidate_ref \<Rightarrow> candidate_ref \<Rightarrow> 'e reachable" where
  "reachable_direct s t = distance_only (reachable_new s t [])"

definition reach_nodes :: "'e reachable \<Rightarrow> 'e list" where
  "reach_nodes r =
     (if reach_path r = [] then []
      else map source (reach_path r) @ [target (last (reach_path r))])"

section \<open>Generation\<close>

text \<open>
  \<open>StandardGenerator::candidates\<close>; \<open>cost\<close> is the emission strategy's cost of an
  \<open>EmissionContext\<close>: candidate position, source position, distance and edge weight.
\<close>

definition standard_candidates ::
    "'p geo \<Rightarrow> ('e, 'p, 'm) network \<Rightarrow> ('p \<Rightarrow> 'p \<Rightarrow> real \<Rightarrow> nat \<Rightarrow> nat) \<Rightarrow> real \<Rightarrow> 'p \<Rightarrow> layer_id
      \<Rightarrow> ('e, 'p) candidate list" where
  "standard_candidates g n cost search_distance origin l =
     map (\<lambda>(node, p, e).
         \<lparr>edge = thin e, position_on = p,
          emission = cost p origin (haversine g p origin) (weight e),
          location = CandidateRef l node\<rparr>)
       (enumerate 0 (nearest_nodes_projected g n origin search_distance))"

definition generate ::
    "('p \<Rightarrow> layer_id \<Rightarrow> ('e, 'p) candidate list) \<Rightarrow> 'p list \<Rightarrow> layer_id \<Rightarrow> ('e, 'p) candidate list list" where
  "generate candidates ps first_layer =
     map (\<lambda>(off, p). candidates p (first_layer + off)) (enumerate 0 ps)"

section \<open>Identity is placement\<close>

definition positional :: "('e, 'p) candidate_store \<Rightarrow> bool" where
  "positional st \<longleftrightarrow> (\<forall>l < length st. \<forall>n < length (st ! l). location (st ! l ! n) = CandidateRef l n)"

lemma store_candidate_Some:
  "store_candidate st (CandidateRef l n) = Some c \<longleftrightarrow> l < length st \<and> n < length (st ! l) \<and> c = st ! l ! n"
  by (auto simp: store_candidate_def store_layer_def)

lemma positional_candidate:
  "positional st \<Longrightarrow> store_candidate st r = Some c \<Longrightarrow> location c = r"
  by (cases r) (auto simp: store_candidate_Some positional_def)

lemma length_store_tail: "length (store_tail n st) = min n (length st)"
  by (simp add: store_tail_def Let_def)

lemma store_tail_nth:
  "l < min n (length st) \<Longrightarrow>
    store_tail n st ! l = (if length st \<le> n then st ! l
      else map (stamp_layer l) (st ! (length st - n + l)))"
  by (auto simp: store_tail_def Let_def nth_enumerate_eq)

lemma positional_tail: "positional st \<Longrightarrow> positional (store_tail n st)"
  by (auto simp: positional_def length_store_tail store_tail_nth stamp_layer_def)

lemma positional_push:
  "positional st \<Longrightarrow> \<forall>n < length cs. location (cs ! n) = CandidateRef (length st) n \<Longrightarrow>
    positional (store_push_layer st cs)"
  by (auto simp: positional_def store_push_layer_def nth_append less_Suc_eq)

lemma length_generate [simp]: "length (generate gen ps l) = length ps"
  by (simp add: generate_def)

lemma generate_nth: "i < length ps \<Longrightarrow> generate gen ps l ! i = gen (ps ! i) (l + i)"
  by (simp add: generate_def nth_enumerate_eq)

end
