(* ===== verification/Reachability.thy ===== *)
theory Reachability
  imports Dijkstra_Model Candidates
begin

text \<open>
  Reachability between candidates: the read-through caches over the bounded search
  (\<open>primitives/cache.rs\<close>) and the expansion of one candidate into another
  (\<open>weigh/expansion.rs\<close>). The cache container (the \<open>scc\<close> crate's \<open>HashCache\<close>) is the parameter
  \<open>put\<close>: all that is relied on is that storing an entry may evict others but never alters them.
\<close>

section \<open>Read-through caches\<close>

definition evicting :: "(('k \<rightharpoonup> 'v) \<Rightarrow> 'k \<Rightarrow> 'v \<Rightarrow> ('k \<rightharpoonup> 'v)) \<Rightarrow> bool" where
  "evicting put \<longleftrightarrow> (\<forall>c k v. put c k v \<subseteq>\<^sub>m c(k \<mapsto> v))"

definition cache_query ::
    "(('k \<rightharpoonup> 'v) \<Rightarrow> 'k \<Rightarrow> 'v \<Rightarrow> ('k \<rightharpoonup> 'v)) \<Rightarrow> ('k \<Rightarrow> 'v) \<Rightarrow> ('k \<rightharpoonup> 'v) \<Rightarrow> 'k \<Rightarrow> 'v \<times> ('k \<rightharpoonup> 'v)" where
  "cache_query put calculate c key =
     (case c key of
        Some v \<Rightarrow> (v, c)
      | None \<Rightarrow> (let v = calculate key in (v, put c key v)))"

definition coherent :: "('k \<Rightarrow> 'v) \<Rightarrow> ('k \<rightharpoonup> 'v) \<Rightarrow> bool" where
  "coherent calculate c \<longleftrightarrow> (\<forall>k v. c k = Some v \<longrightarrow> v = calculate k)"

lemma evicting_SomeD:
  assumes "evicting put" and "put c k v k' = Some w"
  shows "if k' = k then w = v else c k' = Some w"
proof -
  have "put c k v \<subseteq>\<^sub>m c(k \<mapsto> v)" using assms(1) by (simp add: evicting_def)
  then have "(c(k \<mapsto> v)) k' = Some w" using assms(2) by (auto simp: map_le_def dom_def)
  then show ?thesis by (auto split: if_splits)
qed

lemma cache_query_coherent:
  assumes "evicting put" and "coherent calculate c"
  shows "fst (cache_query put calculate c key) = calculate key"
    and "coherent calculate (snd (cache_query put calculate c key))"
proof -
  show "fst (cache_query put calculate c key) = calculate key"
    using assms(2) by (auto simp: cache_query_def coherent_def Let_def split: option.splits)
  show "coherent calculate (snd (cache_query put calculate c key))"
  proof (cases "c key")
    case None
    have "w = calculate k'" if "put c key (calculate key) k' = Some w" for k' w
      using evicting_SomeD [OF assms(1) that] assms(2) by (auto simp: coherent_def split: if_splits)
    then show ?thesis using None by (simp add: cache_query_def coherent_def Let_def)
  qed (use assms(2) in \<open>simp add: cache_query_def\<close>)
qed

section \<open>Successors\<close>

text \<open>
  \<open>SuccessorsCache::calculate\<close>: the outgoing edges open to the runtime, with their cost. \<open>None\<close>
  stands for the undefined behaviour of \<open>unwrap_unchecked\<close> on a node without a position.
\<close>

definition successors_calculate ::
    "'p geo \<Rightarrow> ('e, 'p, 'm) network \<Rightarrow> ('m \<Rightarrow> 'r \<Rightarrow> direction \<Rightarrow> bool) \<Rightarrow> 'r \<Rightarrow> 'e
      \<Rightarrow> ('e \<times> 'e edge_id \<times> wad) list option" where
  "successors_calculate g n accessible runtime key =
     (case net_point n key of
        None \<Rightarrow> None
      | Some src \<Rightarrow>
          those (map (\<lambda>(_, nxt, w, e).
              map_option (\<lambda>p. (nxt, e, wad_new w (100 * haversine g src p))) (net_point n nxt))
            (filter (\<lambda>(_, _, _, e). case metadata n (edge_index e) of
                Some meta \<Rightarrow> accessible meta runtime (edge_direction e) | None \<Rightarrow> False)
              (edges_outof n key))))"

definition successor_costs ::
    "'p geo \<Rightarrow> ('e, 'p, 'm) network \<Rightarrow> ('m \<Rightarrow> 'r \<Rightarrow> direction \<Rightarrow> bool) \<Rightarrow> 'r \<Rightarrow> 'e \<Rightarrow> ('e \<times> wad) list" where
  "successor_costs g n accessible runtime key =
     (case successors_calculate g n accessible runtime key of
        None \<Rightarrow> [] | Some l \<Rightarrow> map (\<lambda>(a, _, b). (a, b)) l)"

section \<open>Predicates\<close>

text \<open>The map is collected from pairs; a later pair with the same key wins.\<close>

definition collect_map :: "('k \<times> 'v) list \<Rightarrow> ('k \<rightharpoonup> 'v)" where
  "collect_map ps = map_of (rev ps)"

definition predicates_calculate ::
    "pop_fn \<Rightarrow> ('e \<Rightarrow> ('e \<times> wad) list) \<Rightarrow> real \<Rightarrow> 'e \<Rightarrow> nat \<Rightarrow> 'e \<Rightarrow> ('e \<times> 'e) list option option" where
  "predicates_calculate pop succs reach fallback fuel key =
     map_option (map_option (map (parent_entry fallback)))
       (dijkstra_take_while pop succs (\<lambda>it. wad_metres (item_cost it) < reach) fuel (dijkstra_reach key))"

text \<open>
  The predicate cache binds itself to the runtime of its first calculation. Only a miss
  calculates, so only a miss checks the binding.
\<close>

record ('e, 'v, 'r) predicate_cache =
  pc_entries :: "'e \<rightharpoonup> 'v"
  pc_bound :: "'r option"

definition predicate_query ::
    "(('e \<rightharpoonup> 'v) \<Rightarrow> 'e \<Rightarrow> 'v \<Rightarrow> ('e \<rightharpoonup> 'v)) \<Rightarrow> ('r \<Rightarrow> 'e \<Rightarrow> 'v) \<Rightarrow> 'r \<Rightarrow> ('e, 'v, 'r) predicate_cache \<Rightarrow> 'e
      \<Rightarrow> ('v, unit) outcome \<times> ('e, 'v, 'r) predicate_cache" where
  "predicate_query put calculate runtime pc key =
     (case pc_entries pc key of
        Some v \<Rightarrow> (Ok v, pc)
      | None \<Rightarrow>
          (let bound = (case pc_bound pc of Some b \<Rightarrow> b | None \<Rightarrow> runtime);
               pc' = pc\<lparr>pc_bound := Some bound\<rparr>
           in if bound \<noteq> runtime then (Panic, pc')
              else let v = calculate runtime key
                   in (Ok v, pc'\<lparr>pc_entries := put (pc_entries pc') key v\<rparr>)))"

definition predicate_cache_new :: "('e, 'v, 'r) predicate_cache" where
  "predicate_cache_new = \<lparr>pc_entries = Map.empty, pc_bound = None\<rparr>"

definition pc_coherent :: "('r \<Rightarrow> 'e \<Rightarrow> 'v) \<Rightarrow> ('e, 'v, 'r) predicate_cache \<Rightarrow> bool" where
  "pc_coherent calculate pc \<longleftrightarrow>
     (case pc_bound pc of None \<Rightarrow> pc_entries pc = Map.empty | Some b \<Rightarrow> coherent (calculate b) (pc_entries pc))"

lemma predicate_query_bound:
  assumes "evicting put" and "pc_coherent calculate pc" and "pc_bound pc \<in> {None, Some runtime}"
  shows "fst (predicate_query put calculate runtime pc key) = Ok (calculate runtime key)"
    and "pc_coherent calculate (snd (predicate_query put calculate runtime pc key))"
    and "pc_bound (snd (predicate_query put calculate runtime pc key)) \<in> {pc_bound pc, Some runtime}"
proof -
  have "coherent (calculate runtime) (pc_entries pc)"
    using assms(2,3) by (auto simp: pc_coherent_def coherent_def)
  note q = cache_query_coherent [OF assms(1) this, of key]
  show "fst (predicate_query put calculate runtime pc key) = Ok (calculate runtime key)"
    and "pc_coherent calculate (snd (predicate_query put calculate runtime pc key))"
    and "pc_bound (snd (predicate_query put calculate runtime pc key)) \<in> {pc_bound pc, Some runtime}"
    using q assms(2,3)
    by (auto simp: predicate_query_def cache_query_def pc_coherent_def Let_def split: option.splits)
qed

section \<open>Expansion\<close>

text \<open>
  The road edges linking two candidates, walked from the predicate map rooted at the source
  edge's target. The walk over a map of \<open>n\<close> entries is given \<open>n + 1\<close> steps; a map the search
  produced needs no more (\<open>parent_path_emitted\<close>).
\<close>

definition expansion_route ::
    "('e, 'p, 'm) network \<Rightarrow> ('e \<Rightarrow> ('e \<times> 'e) list) \<Rightarrow> ('e, 'p) candidate \<Rightarrow> ('e, 'p) candidate \<Rightarrow> 'e edge list option" where
  "expansion_route n query c c' =
     (let ps = query (target (edge c))
      in case parent_path (Suc (length ps)) (collect_map ps) (target (edge c)) (source (edge c')) of
           Some (Some nodes) \<Rightarrow> Some (List.map_filter (\<lambda>(a, b). net_edge n a b) (windows2 nodes))
         | _ \<Rightarrow> None)"

definition expansion_reach ::
    "'p geo \<Rightarrow> ('e, 'p, 'm) network \<Rightarrow> ('e \<Rightarrow> ('e \<times> 'e) list) \<Rightarrow> ('e, 'p) candidate_store
      \<Rightarrow> candidate_ref \<Rightarrow> candidate_ref \<Rightarrow> 'e reachable option" where
  "expansion_reach g n query st from to =
     (case store_candidate st from of
        None \<Rightarrow> None
      | Some c \<Rightarrow> (case store_candidate st to of
            None \<Rightarrow> None
          | Some c' \<Rightarrow> (case directly_reachable g n c c' of
                None \<Rightarrow> None
              | Some True \<Rightarrow> Some (reachable_direct from to)
              | Some False \<Rightarrow> map_option (reachable_new from to) (expansion_route n query c c'))))"

section \<open>The routes are connected\<close>

lemma collect_map_distinct: "distinct (map fst ps) \<Longrightarrow> collect_map ps = map_of ps"
  unfolding collect_map_def by (subst map_of_inject_set) (simp_all add: rev_map [symmetric])

lemma windows2_successively:
  "successively P xs \<longleftrightarrow> (\<forall>(a, b) \<in> set (windows2 xs). P a b)"
  by (induction xs rule: induct_list012) auto

text \<open>\<open>net_edge\<close> finds the edge between any two nodes one of which is a successor of the other.\<close>

definition edges_agree :: "('e, 'p, 'm) network \<Rightarrow> ('e \<Rightarrow> ('e \<times> wad) list) \<Rightarrow> bool" where
  "edges_agree n succs \<longleftrightarrow> (\<forall>a b. b \<in> fst ` set (succs a) \<longrightarrow>
     (\<exists>e. net_edge n a b = Some e \<and> source e = a \<and> target e = b))"

lemma edges_of_linked:
  assumes "edges_agree n succs" and "linked succs ns"
  defines "es \<equiv> List.map_filter (\<lambda>(a, b). net_edge n a b) (windows2 ns)"
  shows "map (\<lambda>e. (source e, target e)) es = windows2 ns"
  unfolding es_def using assms(2)
proof (induction ns rule: induct_list012)
  case (3 a b ns)
  then obtain e where "net_edge n a b = Some e" "source e = a" "target e = b"
    using assms(1) by (auto simp: edges_agree_def)
  then show ?case using 3 by (simp add: List.map_filter_def)
qed (simp_all add: List.map_filter_def)

lemma map_snd_windows2: "map snd (windows2 xs) = tl xs" "map fst (windows2 xs) = butlast xs"
  by (induction xs rule: induct_list012) auto

lemma reach_nodes_windows:
  assumes "map (\<lambda>e. (source e, target e)) (reach_path r) = windows2 ns" and "2 \<le> length ns"
  shows "reach_nodes r = ns"
proof -
  have "map source (reach_path r) = butlast ns" "map target (reach_path r) = tl ns"
    using assms(1) [THEN arg_cong, of "map fst"] assms(1) [THEN arg_cong, of "map snd"]
    by (simp_all add: map_snd_windows2 comp_def)
  moreover have ne: "reach_path r \<noteq> []" using assms by (cases "reach_path r"; cases ns; cases "tl ns") auto
  moreover have "target (last (reach_path r)) = last (map target (reach_path r))"
    using ne by (simp add: last_map)
  ultimately show ?thesis
    using assms(2) by (cases ns rule: rev_cases) (auto simp: reach_nodes_def last_tl)
qed

context cost_heap
begin

lemma predicates_spec:
  assumes "finite V" "closed_under succs V" "key \<in> V" "card V < fuel"
  shows "\<exists>items. predicates_calculate pop succs reach fallback fuel key = Some (Some (map (parent_entry fallback) items))
    \<and> emitted succs key {} items \<and> (\<forall>it \<in> set items. wad_metres (item_cost it) < reach)"
proof -
  have "settled (dijkstra_reach key) = {}" "fst ` set (parents (dijkstra_reach key)) \<subseteq> V"
    using assms(3) by (auto simp: settled_def dijkstra_reach_def)
  with take_while_spec [OF assms(1,2) search_ok_start, of key fuel "\<lambda>it. wad_metres (item_cost it) < reach"] assms(4)
  show ?thesis by (auto simp: predicates_calculate_def)
qed

lemma route_connected:
  assumes V: "finite V" "closed_under succs V" "target (edge c) \<in> V" "card V < fuel"
    and agree: "edges_agree n succs"
    and query: "predicates_calculate pop succs reach fallback fuel (target (edge c)) = Some (Some (query (target (edge c))))"
    and route: "expansion_route n query c c' = Some es"
  shows "\<exists>ns. ns \<noteq> [] \<and> hd ns = target (edge c) \<and> last ns = source (edge c') \<and> linked succs ns
    \<and> map (\<lambda>e. (source e, target e)) es = windows2 ns"
proof -
  let ?key = "target (edge c)" and ?leaf = "source (edge c')"
  obtain items where items: "query ?key = map (parent_entry fallback) items" "emitted succs ?key {} items"
    using predicates_spec [OF V, of reach fallback] query by auto
  have "distinct (map fst (query ?key))"
    using emitted_distinct(1) [OF items(2)] by (simp add: items(1) comp_def parent_entry_def)
  then have m: "collect_map (query ?key) = map_of (map (parent_entry fallback) items)"
    by (simp add: collect_map_distinct items(1))
  have len: "length items < Suc (length (query ?key))" by (simp add: items(1))
  note pp = parent_path_emitted [OF items(2) len, where d = fallback, unfolded m [symmetric]]
  obtain ns where ns: "parent_path (Suc (length (query ?key))) (collect_map (query ?key)) ?key ?leaf = Some (Some ns)"
    and es: "es = List.map_filter (\<lambda>(a, b). net_edge n a b) (windows2 ns)"
    using route by (auto simp: expansion_route_def Let_def split: option.splits)
  have "ns \<noteq> [] \<and> hd ns = ?key \<and> last ns = ?leaf \<and> linked succs ns"
  proof (cases "?leaf \<in> item_node ` set items")
    case True
    then show ?thesis using pp(1) [OF True] ns by auto
  next
    case False
    show ?thesis
    proof (cases "?leaf = ?key")
      case True
      then have "ns = [?key]"
        using ns pp(3) by auto
      then show ?thesis using True by simp
    next
      case neq: False
      then show ?thesis using pp(2) [OF False neq] ns by simp
    qed
  qed
  then show ?thesis using edges_of_linked [OF agree, of ns] es by auto
qed

end

end
