(* ===== verification/Costing.thy ===== *)
theory Costing
  imports Reachability
begin

text \<open>
  The heuristics a match is priced by (\<open>costing/\<close>) and the path geometry they read
  (\<open>map_path/entity.rs\<close>). Floating point numbers are real numbers here; the two places where the
  code's result differs from a real computation, a not-a-number quotient and the saturating
  cast, are written out.
\<close>

section \<open>Clamping and decay\<close>

definition clamp :: "real \<Rightarrow> real \<Rightarrow> real \<Rightarrow> real" where
  "clamp lo hi x = max lo (min hi x)"

definition EPSILON :: real where
  "EPSILON = 1 / 1000000"

definition PRECISION :: real where
  "PRECISION = 100"

text \<open>
  A calculated value is absent (\<open>calculate\<close> returned \<open>None\<close>), not a number, or a real. Not-a-number
  passes through clamping and arithmetic, and casts to zero.
\<close>

datatype cost_value = Absent | NaN | Real real

definition strategy_cost :: "real \<Rightarrow> real \<Rightarrow> cost_value \<Rightarrow> nat" where
  "strategy_cost zeta beta v =
     (case v of
        NaN \<Rightarrow> 0
      | Absent \<Rightarrow> f64_as_u32 (PRECISION * zeta * (1 / clamp EPSILON 1 0) powr beta)
      | Real x \<Rightarrow> f64_as_u32 (PRECISION * zeta * (1 / clamp EPSILON 1 x) powr beta))"

lemma clamp_bounds: "lo \<le> hi \<Longrightarrow> lo \<le> clamp lo hi x \<and> clamp lo hi x \<le> hi"
  by (auto simp: clamp_def)

lemma clamp_mono: "x \<le> y \<Longrightarrow> clamp lo hi x \<le> clamp lo hi y"
  by (auto simp: clamp_def)

lemma EPSILON_pos: "0 < EPSILON" "EPSILON \<le> 1"
  by (simp_all add: EPSILON_def)

lemma f64_as_u32_mono: "x \<le> y \<Longrightarrow> f64_as_u32 x \<le> f64_as_u32 y"
  unfolding f64_as_u32_def by (intro min.mono nat_mono floor_mono) simp_all

text \<open>With unit decay parameters the cost is the scaled reciprocal of the clamped value.\<close>

lemma unit_cost: "strategy_cost 1 1 (Real x) = f64_as_u32 (100 / clamp EPSILON 1 x)"
proof -
  have "0 < clamp EPSILON 1 x"
    using clamp_bounds [OF EPSILON_pos(2), of x] EPSILON_pos(1) by linarith
  then show ?thesis by (simp add: strategy_cost_def PRECISION_def powr_one)
qed

lemma unit_cost_bounds: "100 \<le> strategy_cost 1 1 (Real x)" "strategy_cost 1 1 (Real x) \<le> 100000000"
proof -
  note c = clamp_bounds [OF EPSILON_pos(2), of x]
  have "100 \<le> 100 / clamp EPSILON 1 x" using c EPSILON_pos by (simp add: field_simps)
  from f64_as_u32_mono [OF this] show "100 \<le> strategy_cost 1 1 (Real x)"
    by (simp add: unit_cost f64_as_u32_def)
  have "100 / clamp EPSILON 1 x \<le> 100 / EPSILON"
    using c EPSILON_pos by (intro divide_left_mono) (auto intro!: mult_pos_pos)
  then have "100 / clamp EPSILON 1 x \<le> 100000000" by (simp add: EPSILON_def)
  from f64_as_u32_mono [OF this] show "strategy_cost 1 1 (Real x) \<le> 100000000"
    by (simp add: unit_cost f64_as_u32_def)
qed

lemma unit_cost_antimono: "x \<le> y \<Longrightarrow> strategy_cost 1 1 (Real y) \<le> strategy_cost 1 1 (Real x)"
proof -
  assume "x \<le> y"
  then have "clamp EPSILON 1 x \<le> clamp EPSILON 1 y" by (rule clamp_mono)
  moreover have "0 < clamp EPSILON 1 x" for x
    using clamp_bounds [OF EPSILON_pos(2), of x] EPSILON_pos(1) by linarith
  ultimately have "100 / clamp EPSILON 1 y \<le> 100 / clamp EPSILON 1 x"
    by (intro divide_left_mono) auto
  then show ?thesis unfolding unit_cost by (rule f64_as_u32_mono)
qed

lemma unit_cost_absent: "strategy_cost 1 1 Absent = strategy_cost 1 1 (Real 0)"
  by (simp add: strategy_cost_def)

section \<open>Emission\<close>

definition DEFAULT_EMISSION_ERROR :: real where
  "DEFAULT_EMISSION_ERROR = 25"

definition emission_calculate :: "real \<Rightarrow> real \<Rightarrow> cost_value" where
  "emission_calculate emission_error distance = Real (exp (- sqrt (distance / emission_error)))"

definition default_emission_cost :: "'p \<Rightarrow> 'p \<Rightarrow> real \<Rightarrow> nat \<Rightarrow> nat" where
  "default_emission_cost candidate_position source_position distance w =
     strategy_cost 1 1 (emission_calculate DEFAULT_EMISSION_ERROR distance)"

section \<open>Paths over the network\<close>

type_synonym ('e, 'p) map_path = "('e, 'p) node list"

definition map_path_new :: "('e, 'p, 'm) network \<Rightarrow> 'e list \<Rightarrow> ('e, 'p) map_path" where
  "map_path_new n es = map (\<lambda>(p, e). \<lparr>node_ident = e, node_position = p\<rparr>) (zip (net_line n es) es)"

definition linestring :: "('e, 'p) map_path \<Rightarrow> 'p list" where
  "linestring path = map node_position path"

text \<open>Rust's \<open>%\<close> on floats takes the sign of the dividend.\<close>

definition frem :: "real \<Rightarrow> real \<Rightarrow> real" where
  "frem x y = x - y * (if x / y \<ge> 0 then of_int \<lfloor>x / y\<rfloor> else of_int \<lceil>x / y\<rceil>)"

definition heading_delta :: "real \<Rightarrow> real \<Rightarrow> real" where
  "heading_delta prev current =
     (let delta = frem (current - prev) 360
      in if delta > 180 then delta - 360 else if delta \<le> - 180 then delta + 360 else delta)"

definition deltas_from_headings :: "real list \<Rightarrow> real list" where
  "deltas_from_headings hs = map (\<lambda>(p, c). heading_delta p c) (windows2 hs)"

definition headings_from_positions :: "'p geo \<Rightarrow> 'p list \<Rightarrow> real list" where
  "headings_from_positions g ps =
     List.map_filter (\<lambda>(a, b). if haversine g a b < 1 then None else Some (bearing g a b)) (windows2 ps)"

definition headings :: "'p geo \<Rightarrow> ('e, 'p) map_path \<Rightarrow> real list" where
  "headings g path = headings_from_positions g (map node_position path)"

definition delta_angle :: "'p geo \<Rightarrow> ('e, 'p) map_path \<Rightarrow> real list" where
  "delta_angle g path = deltas_from_headings (headings g path)"

definition total_angle :: "'p geo \<Rightarrow> ('e, 'p) map_path \<Rightarrow> real" where
  "total_angle g path = sum_list (map abs (delta_angle g path))"

text \<open>Division by the node count; the source divides by zero for an empty path.\<close>

definition immediate_angle :: "'p geo \<Rightarrow> ('e, 'p) map_path \<Rightarrow> cost_value" where
  "immediate_angle g path =
     (if path = [] then NaN else Real (total_angle g path / real (length path)))"

definition complexity_from_deltas :: "real list \<Rightarrow> real" where
  "complexity_from_deltas angles =
     (if angles = [] then 1
      else
        let costs = map (\<lambda>a. clamp 0 1 (cos (clamp (- 180) 180 a * pi / 180 * (8 / 10)))) angles
        in if list_ex (\<lambda>c. c \<le> 0) costs then 0
           else clamp 0 1 (real (length angles) / sum_list (map (\<lambda>c. 1 / c) costs)))"

definition angular_complexity :: "'p geo \<Rightarrow> ('e, 'p) map_path \<Rightarrow> real" where
  "angular_complexity g path = complexity_from_deltas (delta_angle g path)"

definition angular_complexity_with_endpoints :: "'p geo \<Rightarrow> ('e, 'p) map_path \<Rightarrow> 'p \<Rightarrow> 'p \<Rightarrow> real" where
  "angular_complexity_with_endpoints g path s t =
     complexity_from_deltas (deltas_from_headings
       (headings_from_positions g (s # map node_position path @ [t])))"

definition angular_complexity_with_headings ::
    "'p geo \<Rightarrow> ('e, 'p) map_path \<Rightarrow> real option \<Rightarrow> real option \<Rightarrow> 'p \<Rightarrow> 'p \<Rightarrow> real" where
  "angular_complexity_with_headings g path start_heading end_heading s t =
     (let hs = (case start_heading of Some h \<Rightarrow> [h] | None \<Rightarrow> [])
             @ headings_from_positions g (s # map node_position path @ [t])
             @ (case end_heading of Some h \<Rightarrow> [h] | None \<Rightarrow> [])
      in complexity_from_deltas (deltas_from_headings hs))"

definition path_length :: "'p geo \<Rightarrow> ('e, 'p) map_path \<Rightarrow> real" where
  "path_length g path =
     foldl (\<lambda>len (a, b). len + haversine g (node_position a) (node_position b)) 0 (windows2 path)"

definition straightline_length :: "'p geo \<Rightarrow> ('e, 'p) map_path \<Rightarrow> real" where
  "straightline_length g path =
     (if path = [] then 0 else haversine g (node_position (hd path)) (node_position (last path)))"

section \<open>Transition\<close>

record ('e, 'p) transition_context =
  optimal_path :: "('e, 'p) map_path"
  source_position :: 'p
  target_position :: 'p
  map_nodes :: "'e list"
  source_candidate :: candidate_ref
  target_candidate :: candidate_ref
  ctx_candidates :: "('e, 'p) candidate_store"
  requested_method :: resolution_method
  source_heading :: "real option"
  target_heading :: "real option"
  source_tail :: "real option"
  target_tail :: "real option"

definition transition_context_new ::
    "'p geo \<Rightarrow> ('e, 'p, 'm) network \<Rightarrow> ('e, 'p) candidate_store \<Rightarrow> candidate_ref \<Rightarrow> candidate_ref \<Rightarrow> 'e list
      \<Rightarrow> ('e, 'p) transition_context option" where
  "transition_context_new g n st src trg es =
     (case store_candidate st src of
        None \<Rightarrow> None
      | Some c \<Rightarrow> (case store_candidate st trg of
            None \<Rightarrow> None
          | Some c' \<Rightarrow> Some
              \<lparr>optimal_path = map_path_new n es, source_position = position_on c,
               target_position = position_on c', map_nodes = es, source_candidate = src,
               target_candidate = trg, ctx_candidates = st, requested_method = Standard,
               source_heading = edge_heading g n c, target_heading = edge_heading g n c',
               source_tail = offset_by g n c ToTarget, target_tail = offset_by g n c' ToSource\<rparr>))"

definition with_resolution_method ::
    "('e, 'p) transition_context \<Rightarrow> resolution_method \<Rightarrow> ('e, 'p) transition_context" where
  "with_resolution_method ctx m = ctx\<lparr>requested_method := m\<rparr>"

definition total_offset ::
    "'p geo \<Rightarrow> ('e, 'p) transition_context \<Rightarrow> ('e, 'p) candidate \<Rightarrow> ('e, 'p) candidate \<Rightarrow> real option" where
  "total_offset g ctx c c' =
     (case requested_method ctx of
        Standard \<Rightarrow> (case source_tail ctx of
            None \<Rightarrow> None
          | Some a \<Rightarrow> map_option (\<lambda>b. a + b) (target_tail ctx))
      | DistanceOnly \<Rightarrow> Some (haversine g (position_on c) (position_on c')))"

definition deviance :: "real \<Rightarrow> real \<Rightarrow> real" where
  "deviance straightline_distance route_length =
     (if route_length \<le> 0 then 1 else straightline_distance / route_length)"

text \<open>
  \<open>lengths\<close> as (straight line, route). The context is only built from refs that resolve, so its
  \<open>expect\<close> on the two candidates does not fire; both are arguments here.
\<close>

definition lengths ::
    "'p geo \<Rightarrow> ('e, 'p) transition_context \<Rightarrow> ('e, 'p) candidate \<Rightarrow> ('e, 'p) candidate \<Rightarrow> (real \<times> real) option" where
  "lengths g ctx c c' =
     map_option (\<lambda>off. (haversine g (position_on c) (position_on c'), path_length g (optimal_path ctx) + off))
       (total_offset g ctx c c')"

text \<open>The quotient of two weights as floats: zero over zero is not a number, others clamp.\<close>

definition class_continuity :: "nat \<Rightarrow> nat \<Rightarrow> cost_value" where
  "class_continuity s t =
     (if t = 0 then (if s = 0 then NaN else Real 1)
      else Real (clamp EPSILON 1 (real s / real t)))"

definition transition_calculate :: "'p geo \<Rightarrow> ('e, 'p) transition_context \<Rightarrow> cost_value" where
  "transition_calculate g ctx =
     (case store_candidate (ctx_candidates ctx) (source_candidate ctx) of
        None \<Rightarrow> Absent
      | Some c \<Rightarrow> (case store_candidate (ctx_candidates ctx) (target_candidate ctx) of
            None \<Rightarrow> Absent
          | Some c' \<Rightarrow> (case lengths g ctx c c' of
                None \<Rightarrow> Absent
              | Some (straight, route) \<Rightarrow>
                  (let dev = clamp EPSILON 1 (deviance straight route);
                       turn = clamp EPSILON 1 (angular_complexity_with_headings g (optimal_path ctx)
                           (source_heading ctx) (target_heading ctx) (source_position ctx) (target_position ctx))
                   in case class_continuity (weight (edge c)) (weight (edge c')) of
                        Real k \<Rightarrow> Real (sqrt (dev * turn * k))
                      | v \<Rightarrow> v))))"

definition default_transition_cost :: "'p geo \<Rightarrow> ('e, 'p) transition_context \<Rightarrow> nat" where
  "default_transition_cost g ctx = strategy_cost 1 1 (transition_calculate g ctx)"

section \<open>Bounds\<close>

lemma frem_360:
  shows "\<bar>frem x 360\<bar> < 360" and "\<exists>k::int. frem x 360 = x - 360 * of_int k"
proof -
  have b: "360 * of_int \<lfloor>x / 360\<rfloor> \<le> x" "x < 360 * of_int \<lfloor>x / 360\<rfloor> + 360"
    "x \<le> 360 * of_int \<lceil>x / 360\<rceil>" "360 * of_int \<lceil>x / 360\<rceil> - 360 < x" by linarith+
  show "\<bar>frem x 360\<bar> < 360"
  proof (cases "x / 360 \<ge> 0")
    case True
    then have "frem x 360 = x - 360 * of_int \<lfloor>x / 360\<rfloor>" by (simp add: frem_def)
    then show ?thesis using b(1,2) by linarith
  next
    case False
    then have "frem x 360 = x - 360 * of_int \<lceil>x / 360\<rceil>" by (simp add: frem_def)
    then show ?thesis using b(3,4) by linarith
  qed
  show "\<exists>k::int. frem x 360 = x - 360 * of_int k" by (auto simp: frem_def)
qed

lemma heading_delta_range: "- 180 < heading_delta p c \<and> heading_delta p c \<le> 180"
  using frem_360(1) [of "c - p"] by (auto simp: heading_delta_def Let_def abs_less_iff)

lemma heading_delta_congruent: "\<exists>k::int. heading_delta p c = c - p + 360 * of_int k"
proof -
  obtain k :: int where k: "frem (c - p) 360 = c - p - 360 * of_int k" using frem_360(2) by blast
  have "heading_delta p c \<in> {c - p + 360 * of_int (- k), c - p + 360 * of_int (- k - 1), c - p + 360 * of_int (1 - k)}"
    by (auto simp: heading_delta_def Let_def k)
  then show ?thesis by blast
qed

lemma complexity_bounds: "0 \<le> complexity_from_deltas as" "complexity_from_deltas as \<le> 1"
  by (auto simp: complexity_from_deltas_def Let_def clamp_def)

lemma emission_decreasing:
  assumes "0 < err" "d \<le> d'"
  shows "exp (- sqrt (d' / err)) \<le> exp (- sqrt (d / err))"
  using assms by (simp add: divide_right_mono)

end
