(* ===== verification/Trip.thy ===== *)
theory Trip
  imports Candidates Solvers
begin

text \<open>
  The caller-owned state of a match (\<open>matcher/trip.rs\<close>) and its reconciliation with a committed
  history (\<open>matcher/continuation.rs\<close>). A trip keeps its origins, its candidates and its trellis
  aligned, layer by layer; \<open>trip_ok\<close> is that invariant.
\<close>

section \<open>State and operations\<close>

datatype trip_state = TripEmpty | Building trellis | Solved solved

record ('e, 'p) trip =
  origins :: "'p origin list"
  candidates :: "('e, 'p) candidate_store"
  state :: trip_state

definition trip_new :: "('e, 'p) trip" where
  "trip_new = \<lparr>origins = [], candidates = [], state = TripEmpty\<rparr>"

definition trip_layers :: "('e, 'p) trip \<Rightarrow> nat" where
  "trip_layers tr = length (origins tr)"

definition trip_last_id :: "('e, 'p) trip \<Rightarrow> layer_id option" where
  "trip_last_id tr = (if origins tr = [] then None else Some (length (origins tr) - 1))"

definition trip_next_id :: "('e, 'p) trip \<Rightarrow> layer_id" where
  "trip_next_id tr = length (origins tr)"

definition trip_point :: "('e, 'p) trip \<Rightarrow> layer_id \<Rightarrow> 'p option" where
  "trip_point tr l = (if l < length (origins tr) then Some (origin_point (origins tr ! l)) else None)"

definition trip_trellis :: "('e, 'p) trip \<Rightarrow> trellis option" where
  "trip_trellis tr =
     (case state tr of TripEmpty \<Rightarrow> None | Building t \<Rightarrow> Some t | Solved s \<Rightarrow> Some (solved_trellis s))"

definition trip_path :: "('e, 'p) trip \<Rightarrow> path option" where
  "trip_path tr = (case state tr of Solved s \<Rightarrow> Some (solved_path s) | _ \<Rightarrow> None)"

definition is_solved :: "('e, 'p) trip \<Rightarrow> bool" where
  "is_solved tr = (case state tr of Solved s \<Rightarrow> True | _ \<Rightarrow> False)"

text \<open>\<open>tail\<close>; \<open>None\<close> is the panic of its \<open>expect\<close>.\<close>

definition trip_tail :: "nat \<Rightarrow> ('e, 'p) trip \<Rightarrow> ('e, 'p) trip option" where
  "trip_tail n tr =
     (let len = trip_layers tr
      in if n \<ge> len then Some tr
         else if n = 0 then Some trip_new
         else
           let tr' = tr\<lparr>origins := drop (len - n) (origins tr), candidates := store_tail n (candidates tr)\<rparr>
           in case state tr of
                TripEmpty \<Rightarrow> Some (tr'\<lparr>state := TripEmpty\<rparr>)
              | Building t \<Rightarrow> (case trellis_last t n of
                    Ok t' \<Rightarrow> Some (tr'\<lparr>state := Building t'\<rparr>) | _ \<Rightarrow> None)
              | Solved s \<Rightarrow> (case trellis_last (solved_trellis s) n of
                    Ok t' \<Rightarrow> Some (tr'\<lparr>state := Building t'\<rparr>) | _ \<Rightarrow> None))"

text \<open>
  \<open>push_layer\<close> returns the trip as it is left behind together with the result. The state is
  taken out first: a rejected width puts a solved certificate back, while a building trellis is
  dropped with the error.
\<close>

definition stamp :: "layer_id \<Rightarrow> ('e, 'p) candidate list \<Rightarrow> ('e, 'p) candidate list" where
  "stamp l cs = map (\<lambda>(n, c). c\<lparr>location := CandidateRef l n\<rparr>) (enumerate 0 cs)"

definition push_layer ::
    "('e, 'p) trip \<Rightarrow> 'p origin \<Rightarrow> ('e, 'p) candidate list
      \<Rightarrow> ('e, 'p) trip \<times> (layer_id, trellis_error) outcome" where
  "push_layer tr og cs =
     (let width = length cs;
          taken = tr\<lparr>state := TripEmpty\<rparr>;
          grown = (case state tr of
              TripEmpty \<Rightarrow> (taken, and_then (trellis_new [width]) (\<lambda>t. Ok (t, 0)))
            | Building t \<Rightarrow> (taken, add_layer t width)
            | Solved s \<Rightarrow> (case solved_append s width of
                  Ok r \<Rightarrow> (taken, Ok r)
                | Err (s', e) \<Rightarrow> (taken\<lparr>state := Solved s'\<rparr>, Err e)
                | Panic \<Rightarrow> (taken, Panic)))
      in case grown of
           (left, Ok (t, l)) \<Rightarrow>
             (let cs' = stamp l cs;
                  emissions = map (\<lambda>c. min (emission c) MAX_WEIGHT) cs'
              in case fill_nodes t l emissions of
                   Ok t' \<Rightarrow> (left\<lparr>origins := origins left @ [og],
                                candidates := store_push_layer (candidates left) cs',
                                state := Building t'\<rparr>, Ok l)
                 | Err e \<Rightarrow> (left, Err e)
                 | Panic \<Rightarrow> (left, Panic))
         | (left, Err e) \<Rightarrow> (left, Err e)
         | (left, Panic) \<Rightarrow> (left, Panic))"

section \<open>The invariant\<close>

text \<open>
  What it means for a trellis to mirror a candidate store: it is well-formed, it has one layer
  per row of candidates with one node per candidate, and each node weighs its candidate's emission
  cost, clamped to the ceiling.
\<close>

definition mirrors :: "trellis \<Rightarrow> ('e, 'p) candidate_store \<Rightarrow> bool" where
  "mirrors t st \<longleftrightarrow> trellis_ok t \<and> widths t = map length st
     \<and> (\<forall>l < length st. \<forall>n < length (st ! l). nw t l n = min (emission (st ! l ! n)) MAX_WEIGHT)"

definition trip_ok :: "('e, 'p) trip \<Rightarrow> bool" where
  "trip_ok tr \<longleftrightarrow> length (candidates tr) = length (origins tr) \<and> positional (candidates tr)
     \<and> (case state tr of
          TripEmpty \<Rightarrow> origins tr = []
        | Building t \<Rightarrow> mirrors t (candidates tr)
        | Solved s \<Rightarrow> mirrors (solved_trellis s) (candidates tr) \<and> certified s)"

lemma mirrors_layers: "mirrors t st \<Longrightarrow> layers t = length st"
  by (simp add: mirrors_def layers_def)

lemma mirrors_ok [dest]: "mirrors t st \<Longrightarrow> trellis_ok t"
  by (simp add: mirrors_def)

lemma trip_new_ok: "trip_ok trip_new"
  by (simp add: trip_ok_def trip_new_def positional_def)

lemma trip_ok_cases:
  assumes "trip_ok tr"
  obtains (empty) "state tr = TripEmpty" "origins tr = []" "candidates tr = []"
  | (building) t where "state tr = Building t" "mirrors t (candidates tr)" "candidates tr \<noteq> []"
  | (solved) s where "state tr = Solved s" "mirrors (solved_trellis s) (candidates tr)" "certified s"
      "candidates tr \<noteq> []"
proof (cases "state tr")
  case TripEmpty
  with assms show ?thesis by (intro empty) (auto simp: trip_ok_def)
next
  case (Building t)
  with assms have m: "mirrors t (candidates tr)" by (simp add: trip_ok_def)
  then have "candidates tr \<noteq> []" using trellis_okD(6) [of t] by (auto simp: mirrors_layers)
  with Building m show ?thesis by (rule building)
next
  case (Solved s)
  with assms have m: "mirrors (solved_trellis s) (candidates tr)" "certified s" by (auto simp: trip_ok_def)
  then have "candidates tr \<noteq> []" using trellis_okD(6) [of "solved_trellis s"] by (auto simp: mirrors_layers)
  with Solved m show ?thesis by (intro solved)
qed

lemma trip_ok_empty_iff: "trip_ok tr \<Longrightarrow> state tr = TripEmpty \<longleftrightarrow> origins tr = []"
proof -
  assume ok: "trip_ok tr"
  then have "length (candidates tr) = length (origins tr)" by (simp add: trip_ok_def)
  then show ?thesis by (cases rule: trip_ok_cases [OF ok]) auto
qed

section \<open>Pushing a layer\<close>

lemma length_stamp [simp]: "length (stamp l cs) = length cs"
  by (simp add: stamp_def)

lemma stamp_nth: "n < length cs \<Longrightarrow> stamp l cs ! n = (cs ! n)\<lparr>location := CandidateRef l n\<rparr>"
  by (simp add: stamp_def nth_enumerate_eq)

lemma mirrors_push:
  assumes t: "trellis_ok t" and w: "widths t = map length st @ [length cs]"
    and old: "\<And>l n. l < length st \<Longrightarrow> n < length (st ! l) \<Longrightarrow> nw t l n = min (emission (st ! l ! n)) MAX_WEIGHT"
    and fill: "fill_nodes t (length st) (map (\<lambda>c. min (emission c) MAX_WEIGHT) cs) = Ok t'"
  shows "mirrors t' (st @ [cs])"
proof -
  let ?l = "length st"
  have L: "layers t = Suc ?l" using w by (simp add: layers_def)
  have t': "trellis_ok t'" by (rule fill_nodes_ok [OF t fill])
  have w': "widths t' = map length (st @ [cs])"
    using fill_nodes_keeps [OF fill] w by simp
  have L': "layers t' = Suc ?l" using w' by (simp add: layers_def)
  have "nw t' l n = min (emission ((st @ [cs]) ! l ! n)) MAX_WEIGHT"
    if l: "l < length (st @ [cs])" and n: "n < length ((st @ [cs]) ! l)" for l n
  proof -
    have ls: "l < layers t" "l < layers t'" "n < widths t ! l" "n < widths t' ! l"
      using l n w w' L L' by (auto simp: nth_append less_Suc_eq)
    have "node_weight t' l n = (if l = ?l then Some (min (emission (cs ! n)) MAX_WEIGHT) else node_weight t l n)"
      using node_weights_fill_nodes [OF t fill ls(1)] n by (auto simp: node_weight_def)
    then show ?thesis
      using node_weight_ok [OF t' ls(2,4)] node_weight_ok [OF t ls(1,3)] old [of l n] l n
      by (auto simp: nth_append split: if_splits)
  qed
  then show ?thesis using t' w' by (simp add: mirrors_def)
qed

lemma fill_emissions:
  assumes "trellis_ok t" and "l < layers t" and "widths t ! l = length cs"
  obtains t' where "fill_nodes t l (map (\<lambda>c. min (emission c) MAX_WEIGHT) cs) = Ok t'"
proof -
  have "find (\<lambda>w. w > MAX_WEIGHT) (map (\<lambda>c. min (emission c) MAX_WEIGHT) cs) = None"
    by (auto simp: find_None_iff)
  then show ?thesis
    using assms offset_bound [OF assms(1,2)] by (intro that) (simp add: fill_nodes_def node_range_ok range_len_layer)
qed

text \<open>The trellis the new layer lands in, before its emissions are filled.\<close>

definition grown_trellis :: "('e, 'p) trip \<Rightarrow> nat \<Rightarrow> trellis" where
  "grown_trellis tr w = (case trip_trellis tr of
      None \<Rightarrow> \<lparr>widths = [w], node_table = replicate w 0, transitions = []\<rparr>
    | Some t \<Rightarrow> t\<lparr>widths := widths t @ [w], node_table := node_table t @ replicate w 0,
                  transitions := transitions t @ [Pending]\<rparr>)"

lemma grown_trellis_add:
  "trip_trellis tr = Some t \<Longrightarrow> 0 < w \<Longrightarrow> add_layer t w = Ok (grown_trellis tr w, layers t)"
  by (simp add: grown_trellis_def add_layer_def layers_def)

lemma push_layer_steps:
  assumes ok: "trip_ok tr" and w: "cs \<noteq> []" "length cs \<le> U32_MAX"
  shows "push_layer tr og cs =
    (case fill_nodes (grown_trellis tr (length cs)) (trip_next_id tr)
        (map (\<lambda>c. min (emission c) MAX_WEIGHT) (stamp (trip_next_id tr) cs)) of
       Ok t' \<Rightarrow> (\<lparr>origins = origins tr @ [og],
           candidates = candidates tr @ [stamp (trip_next_id tr) cs], state = Building t'\<rparr>, Ok (trip_next_id tr))
     | Err e \<Rightarrow> (tr\<lparr>state := TripEmpty\<rparr>, Err e)
     | Panic \<Rightarrow> (tr\<lparr>state := TripEmpty\<rparr>, Panic))"
proof -
  have len: "length (candidates tr) = length (origins tr)" using ok by (simp add: trip_ok_def)
  show ?thesis
  proof (cases rule: trip_ok_cases [OF ok])
    case 1
    then have "trellis_new [length cs] = Ok (grown_trellis tr (length cs))"
      using w by (simp add: trellis_new_def u32_sum_def u32_simps grown_trellis_def trip_trellis_def)
    with 1 show ?thesis
      by (simp add: push_layer_def Let_def trip_next_id_def store_push_layer_def split: outcome.split)
  next
    case (2 t)
    then have "add_layer t (length cs) = Ok (grown_trellis tr (length cs), trip_next_id tr)"
      using grown_trellis_add [of tr t "length cs"] w len
      by (simp add: trip_trellis_def trip_next_id_def mirrors_layers)
    with 2 show ?thesis
      by (simp add: push_layer_def Let_def store_push_layer_def split: outcome.split)
  next
    case (3 s)
    then have "add_layer (solved_trellis s) (length cs) = Ok (grown_trellis tr (length cs), trip_next_id tr)"
      using grown_trellis_add [of tr "solved_trellis s" "length cs"] w len
      by (simp add: trip_trellis_def trip_next_id_def mirrors_layers)
    with 3 show ?thesis
      by (simp add: push_layer_def solved_append_def Let_def store_push_layer_def split: outcome.split)
  qed
qed

lemma trip_trellis_mirrors: "trip_ok tr \<Longrightarrow> trip_trellis tr = Some t \<Longrightarrow> mirrors t (candidates tr)"
  by (cases rule: trip_ok_cases [of tr]) (auto simp: trip_trellis_def)

lemma grown_trellis_mirror:
  assumes ok: "trip_ok tr" and w: "0 < w"
  shows "trellis_ok (grown_trellis tr w)" and "widths (grown_trellis tr w) = map length (candidates tr) @ [w]"
    and "\<And>l n. l < length (candidates tr) \<Longrightarrow> n < length (candidates tr ! l) \<Longrightarrow>
      nw (grown_trellis tr w) l n = min (emission (candidates tr ! l ! n)) MAX_WEIGHT"
proof -
  have "trellis_ok (grown_trellis tr w) \<and> widths (grown_trellis tr w) = map length (candidates tr) @ [w]
    \<and> (\<forall>l n. l < length (candidates tr) \<longrightarrow> n < length (candidates tr ! l) \<longrightarrow>
        nw (grown_trellis tr w) l n = min (emission (candidates tr ! l ! n)) MAX_WEIGHT)"
  proof (cases "trip_trellis tr")
    case None
    then have "candidates tr = []"
      using ok trip_ok_empty_iff [OF ok] by (auto simp: trip_trellis_def trip_ok_def split: trip_state.splits)
    then show ?thesis using None w by (simp add: grown_trellis_def trellis_ok_def layers_def)
  next
    case (Some t)
    have m: "mirrors t (candidates tr)" by (rule trip_trellis_mirrors [OF ok Some])
    note add = grown_trellis_add [OF Some w]
    have "extends t (grown_trellis tr w)" by (rule add_layer_extends [OF add])
    then show ?thesis
      using m add_layer_ok(1) [OF _ add] Some extends_nw [of t "grown_trellis tr w"] mirrors_layers [OF m]
      by (auto simp: mirrors_def grown_trellis_def)
  qed
  then show "trellis_ok (grown_trellis tr w)" and "widths (grown_trellis tr w) = map length (candidates tr) @ [w]"
    and "\<And>l n. l < length (candidates tr) \<Longrightarrow> n < length (candidates tr ! l) \<Longrightarrow>
      nw (grown_trellis tr w) l n = min (emission (candidates tr ! l ! n)) MAX_WEIGHT" by auto
qed

text \<open>A non-empty layer is always accepted, lands at the next id and reopens the trip.\<close>

lemma push_layer_ok:
  assumes ok: "trip_ok tr" and w: "cs \<noteq> []" "length cs \<le> U32_MAX"
  obtains t' where "push_layer tr og cs = (\<lparr>origins = origins tr @ [og],
      candidates = candidates tr @ [stamp (trip_next_id tr) cs], state = Building t'\<rparr>, Ok (trip_next_id tr))"
    "fill_nodes (grown_trellis tr (length cs)) (trip_next_id tr)
        (map (\<lambda>c. min (emission c) MAX_WEIGHT) (stamp (trip_next_id tr) cs)) = Ok t'"
    "trip_ok (fst (push_layer tr og cs))"
proof -
  let ?g = "grown_trellis tr (length cs)" and ?l = "trip_next_id tr"
  let ?cs = "stamp ?l cs"
  have len: "?l = length (candidates tr)" using ok by (simp add: trip_ok_def trip_next_id_def)
  note g = grown_trellis_mirror [OF ok, of "length cs"]
  have "?l < layers ?g" "widths ?g ! ?l = length ?cs"
    using g(2) w by (auto simp: layers_def len nth_append)
  then obtain t' where fill: "fill_nodes ?g ?l (map (\<lambda>c. min (emission c) MAX_WEIGHT) ?cs) = Ok t'"
    using fill_emissions [OF g(1), of ?l ?cs] w by auto
  have push: "push_layer tr og cs = (\<lparr>origins = origins tr @ [og],
      candidates = candidates tr @ [?cs], state = Building t'\<rparr>, Ok ?l)"
    by (simp add: push_layer_steps [OF ok w] fill)
  have "mirrors t' (candidates tr @ [?cs])"
    by (rule mirrors_push [OF g(1)]) (use w g(2,3) fill len in auto)
  moreover have "positional (candidates tr @ [?cs])"
    using positional_push [of "candidates tr" ?cs] ok len
    by (auto simp: trip_ok_def store_push_layer_def stamp_nth)
  ultimately have "trip_ok (fst (push_layer tr og cs))" using ok by (simp add: push trip_ok_def)
  then show ?thesis by (rule that [OF push fill])
qed

text \<open>An empty layer is rejected; only a building trip loses its state.\<close>

lemma push_layer_empty:
  "trip_ok tr \<Longrightarrow> push_layer tr og [] =
    ((case state tr of Solved s \<Rightarrow> tr | _ \<Rightarrow> tr\<lparr>state := TripEmpty\<rparr>), Err (ZeroWidthLayer (trip_next_id tr)))"
  by (cases rule: trip_ok_cases [of tr])
    (auto simp: push_layer_def trellis_new_def add_layer_def solved_append_def trip_next_id_def
      mirrors_layers [unfolded layers_def] trip_ok_def)

section \<open>Windowing\<close>

lemma mirrors_last:
  assumes m: "mirrors t st" and n: "0 < n" "n < length st"
  obtains t' where "trellis_last t n = Ok t'" "mirrors t' (store_tail n st)"
    "partition t (layers t - n) (layers t) = Ok t'"
proof -
  have t: "trellis_ok t" using m by blast
  have L: "layers t = length st" by (rule mirrors_layers [OF m])
  obtain t' where p: "partition t (layers t - n) (layers t) = Ok t'"
    using n L by (cases rule: partition_cases [OF t, of "layers t" "layers t - n"]) auto
  have t': "trellis_ok t'" by (rule partition_ok [OF t p])
  have L': "layers t' = n" using partition_weights(1) [OF t p, of 0] n L by simp
  have w: "widths t' ! l = length (st ! (length st - n + l))" if "l < n" for l
    using partition_weights(2) [OF t p, of l] that n L m by (simp add: mirrors_def)
  have "widths t' = map length (store_tail n st)"
    using L' n w by (intro nth_equalityI) (simp_all add: layers_def length_store_tail store_tail_nth)
  moreover have "nw t' l j = min (emission (store_tail n st ! l ! j)) MAX_WEIGHT"
    if "l < n" and j: "j < length (st ! (length st - n + l))" for l j
  proof -
    have "node_weight t' l j = node_weight t (length st - n + l) j"
      using partition_weights(3) [OF t p, of l j] that n L by simp
    moreover have "node_weight t' l j = Some (nw t' l j)"
      using that L' w by (intro node_weight_ok [OF t']) auto
    moreover have "node_weight t (length st - n + l) j = Some (nw t (length st - n + l) j)"
      using that n L m by (intro node_weight_ok [OF t]) (auto simp: mirrors_def)
    ultimately show ?thesis using m that n by (simp add: mirrors_def store_tail_nth stamp_layer_def)
  qed
  ultimately have "mirrors t' (store_tail n st)"
    using t' n by (auto simp: mirrors_def length_store_tail store_tail_nth)
  then show ?thesis using p by (intro that) (simp_all add: trellis_last_def)
qed

lemma trip_tail_ok:
  assumes ok: "trip_ok tr"
  shows "\<exists>tr'. trip_tail n tr = Some tr' \<and> trip_ok tr'
    \<and> origins tr' = drop (length (origins tr) - n) (origins tr)"
proof (cases "n < trip_layers tr \<and> 0 < n")
  case False
  then show ?thesis
    using ok trip_new_ok
    by (cases "n \<ge> trip_layers tr") (auto simp: trip_tail_def trip_layers_def trip_new_def)
next
  case True
  have len: "length (candidates tr) = length (origins tr)" using ok by (simp add: trip_ok_def)
  then have n: "0 < n" "n < length (candidates tr)" using True by (auto simp: trip_layers_def)
  let ?tr = "\<lambda>t. tr\<lparr>origins := drop (length (origins tr) - n) (origins tr),
      candidates := store_tail n (candidates tr), state := Building t\<rparr>"
  have fin: ?thesis if "trip_tail n tr = Some (?tr t')" "mirrors t' (store_tail n (candidates tr))" for t'
    using that ok n len
    by (intro exI [of _ "?tr t'"]) (simp add: trip_ok_def length_store_tail positional_tail)
  show ?thesis
  proof (cases rule: trip_ok_cases [OF ok])
    case 1
    then show ?thesis using n by simp
  next
    case (2 t)
    obtain t' where "trellis_last t n = Ok t'" "mirrors t' (store_tail n (candidates tr))"
      using mirrors_last [OF 2(2) n] .
    then show ?thesis using True 2 by (intro fin [of t']) (simp_all add: trip_tail_def trip_layers_def)
  next
    case (3 s)
    obtain t' where "trellis_last (solved_trellis s) n = Ok t'" "mirrors t' (store_tail n (candidates tr))"
      using mirrors_last [OF 3(2) n] .
    then show ?thesis using True 3 by (intro fin [of t']) (simp_all add: trip_tail_def trip_layers_def)
  qed
qed

section \<open>A sample trip\<close>

definition sample_origin :: "nat \<Rightarrow> nat origin" where
  "sample_origin k = \<lparr>origin_point = 10 * k, timestamp = int k\<rparr>"

definition sample_candidate :: "layer_id \<Rightarrow> (nat, nat) candidate" where
  "sample_candidate l = \<lparr>edge = \<lparr>source = l, target = Suc l, weight = 1, edge_ident = EdgeId l Outgoing\<rparr>,
     position_on = 10 * l, emission = 3, location = CandidateRef l 0\<rparr>"

definition sample_trip :: "(nat, nat) trip" where
  "sample_trip = \<lparr>origins = [sample_origin 0, sample_origin 1],
     candidates = [[sample_candidate 0], [sample_candidate 1]],
     state = Building \<lparr>widths = [1, 1], node_table = [3, 3], transitions = [Resolved [5]]\<rparr>\<rparr>"

lemma sample_trip_ok: "trip_ok sample_trip"
  by (simp add: sample_trip_def trip_ok_def mirrors_def positional_def sample_candidate_def less_Suc_eq
      trellis_ok_def weights_ok_def layers_def nw_def offset_def MAX_WEIGHT_def INF_W_def)

end
