(* ===== verification/Weigh.thy ===== *)
theory Weigh
  imports Costing Trip
begin

text \<open>
  Weighing (\<open>weigh/\<close>): filling the pending boundaries of a trellis with transition costs, and the
  walk that locates where a fully weighed trellis is cut (\<open>frontier_collapse\<close>). A weigher is its
  strategy together with the world it reads: geometry, network, the answers of its predicate
  cache, and the transition cost of a context.
\<close>

section \<open>Weighers\<close>

datatype strategy = AllCompute | Selective nat

datatype solver_variant = Fastest | Precompute | SelectiveVariant

definition DEFAULT_FANOUT :: nat where
  "DEFAULT_FANOUT = 16"

fun variant_strategy :: "solver_variant \<Rightarrow> strategy" where
  "variant_strategy SelectiveVariant = Selective DEFAULT_FANOUT"
| "variant_strategy Fastest = AllCompute"
| "variant_strategy Precompute = AllCompute"

record ('e, 'p, 'm) weigher =
  w_strategy :: strategy
  w_geo :: "'p geo"
  w_net :: "('e, 'p, 'm) network"
  w_query :: "'e \<Rightarrow> ('e \<times> 'e) list"
  w_cost :: "('e, 'p) transition_context \<Rightarrow> nat"

text \<open>
  The selective strategy keeps the \<open>fanout\<close> nearest targets by partial selection; which of
  several equally near targets survive, and their order, is not specified there. Here the
  selection is stable.
\<close>

fun select_targets :: "strategy \<Rightarrow> 'p geo \<Rightarrow> ('e, 'p) candidate \<Rightarrow> ('e, 'p) candidate list \<Rightarrow> node_id list" where
  "select_targets AllCompute g c tos = [0..<length tos]"
| "select_targets (Selective fanout) g c tos =
     (if length tos > fanout
      then take fanout (sort_key (\<lambda>i. haversine g (position_on c) (position_on (tos ! i))) [0..<length tos])
      else [0..<length tos])"

definition weigher_reach ::
    "('e, 'p, 'm) weigher \<Rightarrow> ('e, 'p) candidate_store \<Rightarrow> candidate_ref \<Rightarrow> candidate_ref \<Rightarrow> 'e reachable option" where
  "weigher_reach w st from to = expansion_reach (w_geo w) (w_net w) (w_query w) st from to"

definition hop ::
    "('e, 'p, 'm) weigher \<Rightarrow> ('e, 'p) candidate_store \<Rightarrow> candidate_ref \<Rightarrow> candidate_ref \<Rightarrow> nat option" where
  "hop w st from to =
     (case weigher_reach w st from to of
        None \<Rightarrow> None
      | Some r \<Rightarrow>
          (case transition_context_new (w_geo w) (w_net w) st (reach_source r) (reach_target r) (reach_nodes r) of
             None \<Rightarrow> None
           | Some ctx \<Rightarrow> Some (min (w_cost w (with_resolution_method ctx (resolution r))) MAX_WEIGHT)))"

definition weigh_source ::
    "('e, 'p, 'm) weigher \<Rightarrow> ('e, 'p) candidate_store \<Rightarrow> ('e, 'p) candidate \<Rightarrow> ('e, 'p) candidate list \<Rightarrow> nat list" where
  "weigh_source w st c tos =
     fold (\<lambda>to row. case hop w st (location c) (location (tos ! to)) of
         Some cost \<Rightarrow> row[to := cost] | None \<Rightarrow> row)
       (select_targets (w_strategy w) (w_geo w) c tos) (replicate (length tos) NO_EDGE)"

definition weigh_boundary ::
    "('e, 'p, 'm) weigher \<Rightarrow> ('e, 'p) candidate_store \<Rightarrow> layer_id \<Rightarrow> nat list" where
  "weigh_boundary w st l =
     (case (store_layer st l, store_layer st (l + 1)) of
        (Some sources, Some targets) \<Rightarrow> concat (map (\<lambda>c. weigh_source w st c targets) sources)
      | _ \<Rightarrow> [])"

fun weigh_fill :: "trellis \<Rightarrow> (layer_id \<times> nat list) list \<Rightarrow> trellis \<times> (unit, 'p match_error) outcome" where
  "weigh_fill t [] = (t, Ok ())"
| "weigh_fill t ((l, matrix) # rest) =
     (if list_all (\<lambda>w. w = NO_EDGE) matrix then weigh_fill t rest
      else case fill_transition t l matrix of
             Ok t' \<Rightarrow> weigh_fill t' rest
           | Err e \<Rightarrow> (t, Err (TrellisError e))
           | Panic \<Rightarrow> (t, Panic))"

definition weigh ::
    "('e, 'p, 'm) weigher \<Rightarrow> ('e, 'p) candidate_store \<Rightarrow> trellis \<Rightarrow> trellis \<times> (unit, 'p match_error) outcome" where
  "weigh w st t =
     (let pending = filter (\<lambda>l. \<not> is_resolved t l) (trellis_boundaries t)
      in weigh_fill t (map (\<lambda>l. (l, weigh_boundary w st l)) pending))"

section \<open>Where a weighed trellis is cut\<close>

fun collapse_loop :: "trellis \<Rightarrow> node_id list \<Rightarrow> layer_id list \<Rightarrow> layer_id list \<Rightarrow> layer_id list" where
  "collapse_loop t reachable breaks [] = breaks"
| "collapse_loop t reachable breaks (b # bs) =
     (let to_width = widths t ! (b + 1);
          next = (case trellis_layer t b of
              None \<Rightarrow> []
            | Some matrix \<Rightarrow>
                filter (\<lambda>to. list_ex (\<lambda>s. matrix ! (s * to_width + to) \<le> MAX_WEIGHT) reachable) [0..<to_width])
      in if next = [] then collapse_loop t [0..<to_width] (breaks @ [b]) bs
         else collapse_loop t next breaks bs)"

definition frontier_collapse :: "trellis \<Rightarrow> layer_id list" where
  "frontier_collapse t = collapse_loop t [0..<widths t ! 0] [] (trellis_boundaries t)"

section \<open>The rows of a boundary\<close>

lemma select_in_range: "to \<in> set (select_targets s g c tos) \<Longrightarrow> to < length tos"
  by (cases s) (auto split: if_splits dest!: in_set_takeD)

lemma hop_le: "hop w st a b = Some x \<Longrightarrow> x \<le> MAX_WEIGHT"
  by (auto simp: hop_def split: option.splits)

lemma fold_row:
  fixes f :: "nat \<Rightarrow> nat option"
  assumes "\<And>i. i \<in> set is \<Longrightarrow> i < length row" and "j < length row"
  shows "length (fold (\<lambda>i row. case f i of Some c \<Rightarrow> row[i := c] | None \<Rightarrow> row) is row) = length row"
    and "fold (\<lambda>i row. case f i of Some c \<Rightarrow> row[i := c] | None \<Rightarrow> row) is row ! j
      = (if j \<in> set is then (case f j of Some c \<Rightarrow> c | None \<Rightarrow> row ! j) else row ! j)"
proof -
  have "length (fold (\<lambda>i row. case f i of Some c \<Rightarrow> row[i := c] | None \<Rightarrow> row) is row) = length row
    \<and> (j < length row \<longrightarrow> fold (\<lambda>i row. case f i of Some c \<Rightarrow> row[i := c] | None \<Rightarrow> row) is row ! j
      = (if j \<in> set is then (case f j of Some c \<Rightarrow> c | None \<Rightarrow> row ! j) else row ! j))" for row
  proof (induction "is" arbitrary: row)
    case (Cons i "is")
    show ?case using Cons.IH [of "case f i of Some c \<Rightarrow> row[i := c] | None \<Rightarrow> row"]
      by (cases "i = j") (auto split: option.splits)
  qed simp
  then show "length (fold (\<lambda>i row. case f i of Some c \<Rightarrow> row[i := c] | None \<Rightarrow> row) is row) = length row"
    and "fold (\<lambda>i row. case f i of Some c \<Rightarrow> row[i := c] | None \<Rightarrow> row) is row ! j
      = (if j \<in> set is then (case f j of Some c \<Rightarrow> c | None \<Rightarrow> row ! j) else row ! j)"
    using assms(2) by auto
qed

text \<open>The weight of one hop as it is written in the matrix.\<close>

definition hop_weight ::
    "('e, 'p, 'm) weigher \<Rightarrow> ('e, 'p) candidate_store \<Rightarrow> ('e, 'p) candidate \<Rightarrow> ('e, 'p) candidate list \<Rightarrow> node_id \<Rightarrow> nat" where
  "hop_weight w st c tos j =
     (if j \<in> set (select_targets (w_strategy w) (w_geo w) c tos)
      then (case hop w st (location c) (location (tos ! j)) of Some x \<Rightarrow> x | None \<Rightarrow> NO_EDGE)
      else NO_EDGE)"

lemma length_weigh_source [simp]: "length (weigh_source w st c tos) = length tos"
proof (cases tos)
  case Nil
  then show ?thesis using select_in_range [of _ "w_strategy w" "w_geo w" c tos]
    by (cases "select_targets (w_strategy w) (w_geo w) c tos") (auto simp: weigh_source_def)
next
  case (Cons t ts)
  then show ?thesis
    unfolding weigh_source_def
    by (subst fold_row(1) [where j = 0]) (auto dest: select_in_range)
qed

lemma weigh_source_nth: "j < length tos \<Longrightarrow> weigh_source w st c tos ! j = hop_weight w st c tos j"
  unfolding weigh_source_def hop_weight_def
  by (subst fold_row(2)) (auto dest: select_in_range split: option.split)

lemma hop_weight_cases: "hop_weight w st c tos j = NO_EDGE \<or> hop_weight w st c tos j \<le> MAX_WEIGHT"
  by (auto simp: hop_weight_def split: option.splits dest: hop_le)

lemma concat_rows:
  assumes "\<And>x. x \<in> set xs \<Longrightarrow> length (f x) = n"
  shows "length (concat (map f xs)) = length xs * n"
    and "i < length xs \<Longrightarrow> j < n \<Longrightarrow> concat (map f xs) ! (i * n + j) = f (xs ! i) ! j"
proof -
  show len: "length (concat (map f xs)) = length xs * n"
    using assms by (induction xs) auto
  show "i < length xs \<Longrightarrow> j < n \<Longrightarrow> concat (map f xs) ! (i * n + j) = f (xs ! i) ! j"
    using assms
  proof (induction xs arbitrary: i)
    case (Cons x xs)
    then show ?case
      by (cases i) (auto simp: nth_append algebra_simps)
  qed simp
qed

lemma weigh_boundary_matrix:
  assumes "Suc l < length st"
  shows "length (weigh_boundary w st l) = length (st ! l) * length (st ! Suc l)"
    and "i < length (st ! l) \<Longrightarrow> j < length (st ! Suc l) \<Longrightarrow>
      weigh_boundary w st l ! (i * length (st ! Suc l) + j) = hop_weight w st (st ! l ! i) (st ! Suc l) j"
    and "\<forall>x \<in> set (weigh_boundary w st l). x = NO_EDGE \<or> x \<le> MAX_WEIGHT"
proof -
  have wb: "weigh_boundary w st l = concat (map (\<lambda>c. weigh_source w st c (st ! Suc l)) (st ! l))"
    using assms by (simp add: weigh_boundary_def store_layer_def)
  note rows = concat_rows [where f = "\<lambda>c. weigh_source w st c (st ! Suc l)" and n = "length (st ! Suc l)"]
  show "length (weigh_boundary w st l) = length (st ! l) * length (st ! Suc l)"
    unfolding wb by (rule rows(1)) simp
  show "i < length (st ! l) \<Longrightarrow> j < length (st ! Suc l) \<Longrightarrow>
      weigh_boundary w st l ! (i * length (st ! Suc l) + j) = hop_weight w st (st ! l ! i) (st ! Suc l) j"
    unfolding wb by (subst rows(2)) (simp_all add: weigh_source_nth)
  show "\<forall>x \<in> set (weigh_boundary w st l). x = NO_EDGE \<or> x \<le> MAX_WEIGHT"
    using hop_weight_cases [of w st] by (fastforce simp: wb in_set_conv_nth weigh_source_nth)
qed

section \<open>Weighing a mirrored trellis\<close>

text \<open>The matrix a boundary is resolved to: its weighed rows with absent hops at infinity.\<close>

definition resolved_matrix :: "('e, 'p, 'm) weigher \<Rightarrow> ('e, 'p) candidate_store \<Rightarrow> layer_id \<Rightarrow> nat list" where
  "resolved_matrix w st l = map (\<lambda>x. if x = NO_EDGE then INF_W else x) (weigh_boundary w st l)"

definition unbridged :: "('e, 'p, 'm) weigher \<Rightarrow> ('e, 'p) candidate_store \<Rightarrow> layer_id \<Rightarrow> bool" where
  "unbridged w st l \<longleftrightarrow> list_all (\<lambda>x. x = NO_EDGE) (weigh_boundary w st l)"

lemma fill_weighed:
  assumes m: "mirrors t st" and l: "Suc l < length st"
  shows "fill_transition t l (weigh_boundary w st l)
    = Ok (t\<lparr>transitions := (transitions t)[l := Resolved (resolved_matrix w st l)]\<rparr>)"
proof -
  have "find (\<lambda>x. x \<noteq> NO_EDGE \<and> x > MAX_WEIGHT) (weigh_boundary w st l) = None"
    using weigh_boundary_matrix(3) [OF l, of w] by (auto simp: find_None_iff)
  moreover have "l < length (transitions t)"
    using l mirrors_layers [OF m] trellis_okD(5) [OF mirrors_ok [OF m]] by simp
  ultimately show ?thesis
    using m l weigh_boundary_matrix(1) [OF l, of w]
    by (simp add: fill_transition_def mirrors_def resolved_matrix_def)
qed

lemma mirrors_transitions:
  "mirrors t st \<Longrightarrow> trellis_ok (t\<lparr>transitions := ts\<rparr>) \<Longrightarrow> mirrors (t\<lparr>transitions := ts\<rparr>) st"
  by (auto simp: mirrors_def nw_def offset_def)

lemma mirrors_fill:
  assumes "mirrors t st" and "Suc l < length st"
  shows "mirrors (t\<lparr>transitions := (transitions t)[l := Resolved (resolved_matrix w st l)]\<rparr>) st"
  using mirrors_transitions [OF assms(1)] fill_transition_ok [OF mirrors_ok [OF assms(1)] fill_weighed [OF assms]]
  by blast

lemma weigh_fill_spec:
  fixes st :: "('e, 'p) candidate_store"
  assumes "mirrors t st" and "\<forall>l \<in> set ls. Suc l < length st" and "distinct ls"
  shows "\<exists>t'. weigh_fill t (map (\<lambda>l. (l, weigh_boundary w st l)) ls) = (t', Ok () :: (unit, 'p match_error) outcome)
    \<and> mirrors t' st \<and> (\<forall>k. transitions t' ! k =
        (if k \<in> set ls \<and> \<not> unbridged w st k then Resolved (resolved_matrix w st k) else transitions t ! k))"
  using assms
proof (induction ls arbitrary: t)
  case (Cons l ls)
  show ?case
  proof (cases "unbridged w st l")
    case True
    then have skip: "weigh_fill t (map (\<lambda>l. (l, weigh_boundary w st l)) (l # ls))
        = (weigh_fill t (map (\<lambda>l. (l, weigh_boundary w st l)) ls) :: trellis \<times> (unit, 'p match_error) outcome)"
      by (simp add: unbridged_def)
    have "\<forall>l \<in> set ls. Suc l < length st" "distinct ls" using Cons.prems(2,3) by auto
    from Cons.IH [OF Cons.prems(1) this] show ?thesis
      unfolding skip using True by auto
  next
    case False
    let ?t = "t\<lparr>transitions := (transitions t)[l := Resolved (resolved_matrix w st l)]\<rparr>"
    have l: "Suc l < length st" and rest: "\<forall>l \<in> set ls. Suc l < length st" "distinct ls"
      using Cons.prems(2,3) by auto
    have tl: "l < length (transitions t)"
      using l mirrors_layers [OF Cons.prems(1)] trellis_okD(5) [OF mirrors_ok [OF Cons.prems(1)]] by simp
    have "weigh_fill t (map (\<lambda>l. (l, weigh_boundary w st l)) (l # ls))
        = (weigh_fill ?t (map (\<lambda>l. (l, weigh_boundary w st l)) ls) :: trellis \<times> (unit, 'p match_error) outcome)"
      using False by (simp add: unbridged_def fill_weighed [OF Cons.prems(1) l])
    moreover obtain t' where t': "weigh_fill ?t (map (\<lambda>l. (l, weigh_boundary w st l)) ls) = (t', Ok () :: (unit, 'p match_error) outcome)"
      "mirrors t' st" "\<forall>k. transitions t' ! k =
        (if k \<in> set ls \<and> \<not> unbridged w st k then Resolved (resolved_matrix w st k) else transitions ?t ! k)"
      using Cons.IH [OF mirrors_fill [OF Cons.prems(1) l, of w]] rest by blast
    ultimately show ?thesis using False tl Cons.prems(3) by (auto simp: nth_list_update)
  qed
qed simp

lemma weigh_spec:
  fixes st :: "('e, 'p) candidate_store"
  assumes m: "mirrors t st"
  shows "\<exists>t'. weigh w st t = (t', Ok ()) \<and> mirrors t' st
    \<and> (\<forall>k. Suc k < length st \<longrightarrow> transitions t' ! k =
        (if is_resolved t k then transitions t ! k
         else if unbridged w st k then Pending else Resolved (resolved_matrix w st k)))"
proof -
  let ?p = "filter (\<lambda>l. \<not> is_resolved t l) (trellis_boundaries t)"
  have len: "length (transitions t) = length st - 1"
    using mirrors_layers [OF m] trellis_okD(5) [OF mirrors_ok [OF m]] by simp
  have "\<forall>l \<in> set ?p. Suc l < length st" "distinct ?p"
    using len by (auto simp: trellis_boundaries_def)
  from weigh_fill_spec [OF m this, of w] obtain t' where t':
    "weigh_fill t (map (\<lambda>l. (l, weigh_boundary w st l)) ?p) = (t', Ok () :: (unit, 'p match_error) outcome)" "mirrors t' st"
    "\<forall>k. transitions t' ! k = (if k \<in> set ?p \<and> \<not> unbridged w st k then Resolved (resolved_matrix w st k)
        else transitions t ! k)" by blast
  have "transitions t' ! k = (if is_resolved t k then transitions t ! k
         else if unbridged w st k then Pending else Resolved (resolved_matrix w st k))"
    if "Suc k < length st" for k
  proof -
    have k: "k < length (transitions t)" using that len by simp
    then have "k \<in> set ?p \<longleftrightarrow> \<not> is_resolved t k" by (auto simp: trellis_boundaries_def)
    moreover have "\<not> is_resolved t k \<Longrightarrow> transitions t ! k = Pending"
      using k by (cases "transitions t ! k") (auto simp: is_resolved_def)
    ultimately show ?thesis using t'(3) by auto
  qed
  then show ?thesis using t'(1,2) by (intro exI [of _ t']) (simp add: weigh_def)
qed

section \<open>What the collapse walk reports\<close>

text \<open>The nodes of a layer that some chain of present edges reaches from the first layer.\<close>

fun present_reach :: "trellis \<Rightarrow> layer_id \<Rightarrow> node_id set" where
  "present_reach t 0 = {0..<widths t ! 0}"
| "present_reach t (Suc l) = {j. j < widths t ! Suc l \<and> (\<exists>i \<in> present_reach t l. ew t l i j \<le> MAX_WEIGHT)}"

definition present_path :: "trellis \<Rightarrow> layer_id \<Rightarrow> node_id list \<Rightarrow> bool" where
  "present_path t l ns \<longleftrightarrow> length ns = Suc l \<and> (\<forall>k \<le> l. ns ! k < widths t ! k)
     \<and> (\<forall>k < l. ew t k (ns ! k) (ns ! Suc k) \<le> MAX_WEIGHT)"

lemma present_reach_path: "j \<in> present_reach t l \<longleftrightarrow> (\<exists>ns. present_path t l ns \<and> ns ! l = j)"
proof (induction l arbitrary: j)
  case 0
  show ?case
    by (auto simp: present_path_def length_Suc_conv intro!: exI [of _ "[j]"])
next
  case (Suc l)
  show ?case
  proof
    assume "j \<in> present_reach t (Suc l)"
    then obtain i where i: "i \<in> present_reach t l" "j < widths t ! Suc l" "ew t l i j \<le> MAX_WEIGHT" by auto
    then obtain ns where ns: "present_path t l ns" "ns ! l = i" using Suc by blast
    have "present_path t (Suc l) (ns @ [j])"
      using ns i by (auto simp: present_path_def nth_append le_Suc_eq less_Suc_eq)
    moreover have "(ns @ [j]) ! Suc l = j" using ns by (simp add: present_path_def nth_append)
    ultimately show "\<exists>ns. present_path t (Suc l) ns \<and> ns ! Suc l = j" by blast
  next
    assume "\<exists>ns. present_path t (Suc l) ns \<and> ns ! Suc l = j"
    then obtain ns where ns: "present_path t (Suc l) ns" "ns ! Suc l = j" by blast
    have "present_path t l (take (Suc l) ns)" using ns by (auto simp: present_path_def)
    then have "ns ! l \<in> present_reach t l" using Suc [of "ns ! l"] by (auto intro!: exI [of _ "take (Suc l) ns"])
    then show "j \<in> present_reach t (Suc l)" using ns by (auto simp: present_path_def)
  qed
qed

lemma present_reach_range: "present_reach t l \<subseteq> {..<widths t ! l}"
  by (cases l) auto

lemma present_reach_mono: "present_reach t (l + n) \<noteq> {} \<Longrightarrow> present_reach t l \<noteq> {}"
  by (induction n) auto

declare present_reach.simps(2) [simp del]

lemma collapse_loop_accumulates: "collapse_loop t r br bs = br @ collapse_loop t r [] bs"
proof (induction bs arbitrary: r br)
  case (Cons b bs)
  show ?case
    unfolding collapse_loop.simps Let_def
    using Cons.IH [of _ "br @ [b]"] Cons.IH [of _ br] Cons.IH [of _ "[b]"] by simp
qed simp

lemma collapse_loop_step:
  assumes t: "trellis_ok t" "fully_resolved t" and k: "Suc k < layers t" and r: "set r = present_reach t k"
  defines "nx \<equiv> filter (\<lambda>to. list_ex (\<lambda>s. layer_weights t k ! (s * widths t ! Suc k + to) \<le> MAX_WEIGHT) r)
      [0..<widths t ! Suc k]"
  shows "set nx = present_reach t (Suc k)"
    and "collapse_loop t r br (k # bs) = (if nx = [] then collapse_loop t [0..<widths t ! Suc k] (br @ [k]) bs
      else collapse_loop t nx br bs)"
proof -
  show "set nx = present_reach t (Suc k)"
    unfolding nx_def by (auto simp: list_ex_iff r ew_def present_reach.simps(2))
  have "trellis_layer t k = Some (layer_weights t k)"
    using resolved_layer(1) [OF t k] k trellis_okD(5) [OF t(1)] by (simp add: trellis_layer_def)
  then show "collapse_loop t r br (k # bs) = (if nx = [] then collapse_loop t [0..<widths t ! Suc k] (br @ [k]) bs
      else collapse_loop t nx br bs)"
    by (simp add: nx_def Let_def)
qed

lemma collapse_loop_spec:
  assumes t: "trellis_ok t" "fully_resolved t"
  shows "k + n < layers t \<Longrightarrow> set r = present_reach t k \<Longrightarrow> present_reach t k \<noteq> {} \<Longrightarrow>
    (case collapse_loop t r [] [k..<k + n] of
       [] \<Rightarrow> present_reach t (k + n) \<noteq> {}
     | b # bs \<Rightarrow> k \<le> b \<and> b < k + n \<and> present_reach t b \<noteq> {} \<and> present_reach t (Suc b) = {})"
proof (induction n arbitrary: k r)
  case (Suc n)
  have k: "Suc k < layers t" using Suc.prems(1) by simp
  define nx where "nx = filter (\<lambda>to. list_ex (\<lambda>s. layer_weights t k ! (s * widths t ! Suc k + to) \<le> MAX_WEIGHT) r)
      [0..<widths t ! Suc k]"
  note step = collapse_loop_step [OF t k Suc.prems(2), folded nx_def]
  have upt: "[k..<k + Suc n] = k # [Suc k..<Suc k + n]" by (simp add: upt_conv_Cons)
  show ?case
  proof (cases "nx = []")
    case True
    have "collapse_loop t r [] [k..<k + Suc n]
        = k # collapse_loop t [0..<widths t ! Suc k] [] [Suc k..<Suc k + n]"
      unfolding upt step(2) using True collapse_loop_accumulates [of t _ "[k]"] by simp
    moreover have "present_reach t (Suc k) = {}" using True step(1) by (metis set_empty)
    ultimately show ?thesis using Suc.prems(3) by simp
  next
    case False
    then have ne: "present_reach t (Suc k) \<noteq> {}" using step(1) by (metis set_empty)
    have "collapse_loop t r [] [k..<k + Suc n] = collapse_loop t nx [] [Suc k..<Suc k + n]"
      unfolding upt using step(2) False by simp
    then show ?thesis
      using Suc.IH [of "Suc k" nx] Suc.prems(1) step(1) ne
      by (cases "collapse_loop t nx [] [Suc k..<Suc k + n]") simp_all
  qed
qed simp

lemma frontier_collapse_spec:
  assumes t: "trellis_ok t" "fully_resolved t"
  shows "frontier_collapse t = [] \<longleftrightarrow> (\<exists>ns. present_path t (layers t - 1) ns)"
    and "frontier_collapse t = b # bs \<Longrightarrow> Suc b < layers t \<and> (\<exists>ns. present_path t b ns)
      \<and> \<not> (\<exists>ns. present_path t (Suc b) ns)"
proof -
  have L: "0 < layers t" by (rule trellis_okD(6) [OF t(1)])
  have ne: "present_reach t 0 \<noteq> {}" using trellis_okD(2) [OF t(1)] L by (auto simp: layers_def)
  have reach: "present_reach t l = {} \<longleftrightarrow> \<not> (\<exists>ns. present_path t l ns)" for l
    using present_reach_path [of _ t l] by auto
  have "[0..<layers t - 1] = trellis_boundaries t" by (simp add: trellis_boundaries_def trellis_okD(5) [OF t(1)])
  then have *: "case frontier_collapse t of
       [] \<Rightarrow> present_reach t (layers t - 1) \<noteq> {}
     | b # bs \<Rightarrow> b < layers t - 1 \<and> present_reach t b \<noteq> {} \<and> present_reach t (Suc b) = {}"
    using collapse_loop_spec [OF t, of 0 "layers t - 1" "[0..<widths t ! 0]"] L ne
    by (auto simp: frontier_collapse_def split: list.splits)
  show "frontier_collapse t = b # bs \<Longrightarrow> Suc b < layers t \<and> (\<exists>ns. present_path t b ns)
      \<and> \<not> (\<exists>ns. present_path t (Suc b) ns)"
    using * by (auto simp: reach)
  show "frontier_collapse t = [] \<longleftrightarrow> (\<exists>ns. present_path t (layers t - 1) ns)"
  proof (cases "frontier_collapse t")
    case Nil
    then show ?thesis using * by (simp add: reach)
  next
    case (Cons b bs)
    then have b: "b < layers t - 1" "present_reach t (Suc b) = {}" using * by auto
    have top: "layers t - 1 = Suc b + (layers t - 1 - Suc b)" using b(1) by simp
    have "present_reach t (layers t - 1) = {}"
      by (subst top, rule ccontr) (use present_reach_mono b(2) in blast)
    then show ?thesis using Cons by (simp add: reach)
  qed
qed

end
