(* ===== verification/Continuation.thy ===== *)
theory Continuation
  imports Trip
begin

text \<open>
  Reconciling a persisted trip with the committed history (\<open>matcher/continuation.rs\<close>): the trip
  resumes on the longest suffix of its origins that is a prefix of the history, and restarts
  when there is none.
\<close>

datatype ('e, 'p) continuation =
    Resume "('e, 'p) trip" "'p origin list"
  | Restart "'p origin list"

definition overlap_at :: "'a list \<Rightarrow> 'a list \<Rightarrow> nat \<Rightarrow> bool" where
  "overlap_at os history k \<longleftrightarrow> drop (length os - k) os = take k history"

definition overlap :: "'a list \<Rightarrow> 'a list \<Rightarrow> nat" where
  "overlap os history =
     (let bound = min (length os) (length history)
      in case find (overlap_at os history) (rev [0..<Suc bound]) of Some k \<Rightarrow> k | None \<Rightarrow> 0)"

text \<open>\<open>None\<close> is the panic of \<open>Trip::tail\<close>.\<close>

definition reconcile ::
    "('e, 'p) trip option \<Rightarrow> 'p origin list \<Rightarrow> ('e, 'p) continuation option" where
  "reconcile trip history =
     (case trip of
        None \<Rightarrow> Some (Restart history)
      | Some tr \<Rightarrow>
          (let k = overlap (origins tr) history
           in if k = 0 then Some (Restart history)
              else map_option (\<lambda>tr'. Resume tr' (drop k history)) (trip_tail k tr)))"

section \<open>The overlap is the longest\<close>

lemma find_rev_upt:
  assumes "P 0"
  shows "\<exists>k. find P (rev [0..<Suc n]) = Some k \<and> k \<le> n \<and> P k \<and> (\<forall>j \<le> n. P j \<longrightarrow> j \<le> k)"
proof (induction n)
  case (Suc n)
  then obtain k where k: "find P (rev [0..<Suc n]) = Some k" "k \<le> n" "P k" "\<forall>j \<le> n. P j \<longrightarrow> j \<le> k" by blast
  show ?case
  proof (cases "P (Suc n)")
    case True
    then show ?thesis by (intro exI [of _ "Suc n"]) auto
  next
    case False
    then have "\<forall>j \<le> Suc n. P j \<longrightarrow> j \<le> k" using k(4) by (auto simp: le_Suc_eq)
    then show ?thesis using False k by (intro exI [of _ k]) auto
  qed
qed (use assms in auto)

lemma overlap_longest:
  fixes os history :: "'a list"
  defines "k \<equiv> overlap os history"
  shows "k \<le> length os" and "k \<le> length history" and "overlap_at os history k"
    and "\<And>j. j \<le> length os \<Longrightarrow> j \<le> length history \<Longrightarrow> overlap_at os history j \<Longrightarrow> j \<le> k"
proof -
  let ?b = "min (length os) (length history)"
  have "overlap_at os history 0" by (simp add: overlap_at_def)
  from find_rev_upt [of "overlap_at os history", OF this, of ?b] obtain m where
    m: "find (overlap_at os history) (rev [0..<Suc ?b]) = Some m" "m \<le> ?b" "overlap_at os history m"
      "\<forall>j \<le> ?b. overlap_at os history j \<longrightarrow> j \<le> m" by blast
  have "k = m" unfolding k_def overlap_def Let_def m(1) by simp
  with m show "k \<le> length os" "k \<le> length history" "overlap_at os history k"
    "\<And>j. j \<le> length os \<Longrightarrow> j \<le> length history \<Longrightarrow> overlap_at os history j \<Longrightarrow> j \<le> k" by auto
qed

section \<open>What reconciliation decides\<close>

lemma reconcile_Some:
  fixes history :: "'p origin list" and tr :: "('e, 'p) trip"
  assumes ok: "trip_ok tr"
  defines "k \<equiv> overlap (origins tr) history"
  shows "k = 0 \<Longrightarrow> reconcile (Some tr) history = Some (Restart history)"
    and "0 < k \<Longrightarrow> \<exists>tr'. reconcile (Some tr) history = Some (Resume tr' (drop k history))
      \<and> trip_ok tr' \<and> origins tr' = take k history \<and> origins tr' = drop (length (origins tr) - k) (origins tr)"
proof -
  show "k = 0 \<Longrightarrow> reconcile (Some tr) history = Some (Restart history)"
    by (simp add: reconcile_def k_def)
  assume "0 < k"
  obtain tr' where tr': "trip_tail k tr = Some tr'" "trip_ok tr'"
    "origins tr' = drop (length (origins tr) - k) (origins tr)"
    using trip_tail_ok [OF ok, of k] by blast
  have "drop (length (origins tr) - k) (origins tr) = take k history"
    using overlap_longest(3) [of "origins tr" history] by (simp add: overlap_at_def k_def)
  then show "\<exists>tr'. reconcile (Some tr) history = Some (Resume tr' (drop k history))
      \<and> trip_ok tr' \<and> origins tr' = take k history \<and> origins tr' = drop (length (origins tr) - k) (origins tr)"
    using tr' \<open>0 < k\<close> by (intro exI [of _ tr']) (simp add: reconcile_def k_def)
qed

text \<open>
  (C15) Reconciliation with a committed history never panics on a well-formed trip. A resumed trip
  is well-formed, its origins are a non-empty suffix of the persisted ones, and its origins
  followed by the fresh observations are exactly the history; no longer suffix of the persisted
  origins is a prefix of the history. A restart replays the whole history, and happens only when
  no non-empty suffix of the persisted origins starts the history.
\<close>

theorem reconcile_longest_overlap:
  assumes "trip_ok tr"
  shows "case reconcile (Some tr) history of
      None \<Rightarrow> False
    | Some (Resume tr' fresh) \<Rightarrow> trip_ok tr' \<and> origins tr' \<noteq> [] \<and> origins tr' @ fresh = history
        \<and> (\<exists>older. origins tr = older @ origins tr')
        \<and> (\<forall>older later. origins tr = older @ later \<and> (\<exists>rest. history = later @ rest)
             \<longrightarrow> length later \<le> length (origins tr'))
    | Some (Restart fresh) \<Rightarrow> fresh = history
        \<and> (\<forall>older later. origins tr = older @ later \<and> (\<exists>rest. history = later @ rest) \<longrightarrow> later = [])"
proof -
  define k where "k = overlap (origins tr) history"
  note ov = overlap_longest [where os = "origins tr" and history = history, folded k_def]
  have longest: "length later \<le> k" if "origins tr = older @ later" "history = later @ rest" for older later rest
    using that by (intro ov(4)) (auto simp: overlap_at_def)
  show ?thesis
  proof (cases "k = 0")
    case True
    then show ?thesis using reconcile_Some(1) [OF assms, of history] longest by (auto simp: k_def [symmetric])
  next
    case False
    then obtain tr' where r: "reconcile (Some tr) history = Some (Resume tr' (drop k history))" "trip_ok tr'"
      "origins tr' = take k history" "origins tr' = drop (length (origins tr) - k) (origins tr)"
      using reconcile_Some(2) [OF assms, of history] by (auto simp: k_def [symmetric])
    have "length (origins tr') = k" using r(3) ov(2) by simp
    moreover have "origins tr = take (length (origins tr) - k) (origins tr) @ origins tr'"
      using r(4) by simp
    ultimately show ?thesis using r False longest by auto
  qed
qed

theorem reconcile_longest_overlap_witness:
  "\<exists>tr'. reconcile (Some sample_trip) [sample_origin 1, sample_origin 2] = Some (Resume tr' [sample_origin 2])
    \<and> trip_ok tr' \<and> origins tr' = [sample_origin 1]"
proof -
  let ?h = "[sample_origin 1, sample_origin 2]"
  have "overlap (origins sample_trip) ?h = 1"
    by (simp add: overlap_def overlap_at_def sample_trip_def sample_origin_def upt_rec)
  then obtain tr' where r: "reconcile (Some sample_trip) ?h = Some (Resume tr' (drop 1 ?h))"
    using reconcile_Some(2) [OF sample_trip_ok, of ?h] by auto
  with reconcile_longest_overlap [OF sample_trip_ok, of ?h] show ?thesis by auto
qed

end
