(* ===== verification/Matcher.thy ===== *)
theory Matcher
  imports Weigh Continuation
begin

text \<open>
  The matcher (\<open>matcher/entity.rs\<close>): pushing and extending a trip, solving it, asking for its
  convergence, and collapsing the solution. A matcher is its candidate generator and its weigher;
  \<open>null_point\<close> is the default of the point type, which the error report falls back on.
\<close>

section \<open>Operations\<close>

record ('e, 'p, 'm) matcher =
  generator :: "'p \<Rightarrow> layer_id \<Rightarrow> ('e, 'p) candidate list"
  weigher_of :: "('e, 'p, 'm) weigher"
  null_point :: 'p

definition begin_trip :: "('e, 'p) trip" where
  "begin_trip = trip_new"

definition push ::
    "('e, 'p, 'm) matcher \<Rightarrow> ('e, 'p) trip \<Rightarrow> 'p origin \<Rightarrow> ('e, 'p) trip \<times> (layer_id, 'p match_error) outcome" where
  "push m tr og =
     (let layer = trip_next_id tr;
          cs = generator m (origin_point og) layer
      in if cs = [] then (tr, Err (Unanchored [\<lparr>unanchored_layer = layer, unanchored_origin = origin_point og\<rparr>]))
         else (case push_layer tr og cs of (tr', r) \<Rightarrow> (tr', map_err TrellisError r)))"

fun push_all ::
    "('e, 'p) trip \<Rightarrow> ('p origin \<times> ('e, 'p) candidate list) list \<Rightarrow> ('e, 'p) trip \<times> (unit, 'p match_error) outcome" where
  "push_all tr [] = (tr, Ok ())"
| "push_all tr ((og, cs) # rest) =
     (case push_layer tr og cs of
        (tr', Ok l) \<Rightarrow> push_all tr' rest
      | (tr', Err e) \<Rightarrow> (tr', Err (TrellisError e))
      | (tr', Panic) \<Rightarrow> (tr', Panic))"

definition unanchored_points :: "layer_id \<Rightarrow> 'p list \<Rightarrow> ('e, 'p) candidate list list \<Rightarrow> 'p unanchored list" where
  "unanchored_points first_layer ps per_layer =
     map (\<lambda>(off, cs, p). \<lparr>unanchored_layer = first_layer + off, unanchored_origin = p\<rparr>)
       (filter (\<lambda>(off, cs, p). cs = []) (enumerate 0 (zip per_layer ps)))"

definition extend_trip ::
    "('e, 'p, 'm) matcher \<Rightarrow> ('e, 'p) trip \<Rightarrow> 'p origin list \<Rightarrow> ('e, 'p) trip \<times> (unit, 'p match_error) outcome" where
  "extend_trip m tr ogs =
     (let first_layer = trip_next_id tr;
          ps = map origin_point ogs;
          per_layer = generate (generator m) ps first_layer;
          missing = unanchored_points first_layer ps per_layer
      in if missing \<noteq> [] then (tr, Err (Unanchored missing))
         else push_all tr (zip ogs per_layer))"

definition report_breaks :: "('e, 'p, 'm) matcher \<Rightarrow> ('e, 'p) trip \<Rightarrow> layer_id list \<Rightarrow> 'p match_error" where
  "report_breaks m tr bs =
     Disconnected (map (\<lambda>b. \<lparr>from_layer = b, to_layer = b + 1,
         from_origin = (case trip_point tr b of Some p \<Rightarrow> p | None \<Rightarrow> null_point m),
         to_origin = (case trip_point tr (b + 1) of Some p \<Rightarrow> p | None \<Rightarrow> null_point m)\<rparr>) bs)"

definition matcher_solve ::
    "('e, 'p, 'm) matcher \<Rightarrow> ('e, 'p) trip \<Rightarrow> ('e, 'p) trip \<times> (path, 'p match_error) outcome" where
  "matcher_solve m tr =
     (case state tr of
        TripEmpty \<Rightarrow> (tr, Err (TrellisError Empty))
      | Solved s \<Rightarrow> (tr, Ok (solved_path s))
      | Building t \<Rightarrow>
          (case weigh (weigher_of m) (candidates tr) t of
             (t', Err e) \<Rightarrow> (tr\<lparr>state := Building t'\<rparr>, Err e)
           | (t', Panic) \<Rightarrow> (tr\<lparr>state := TripEmpty\<rparr>, Panic)
           | (t', Ok u) \<Rightarrow>
               (let gaps = disconnections t'
                in if gaps \<noteq> [] then (tr\<lparr>state := Building t'\<rparr>, Err (report_breaks m tr gaps))
                   else case trellis_solve viterbi_solve t' of
                          Ok s \<Rightarrow> (tr\<lparr>state := Solved s\<rparr>, Ok (solved_path s))
                        | Err (t'', Unreachable) \<Rightarrow>
                            (tr\<lparr>state := Building t''\<rparr>, Err (report_breaks m tr (frontier_collapse t'')))
                        | Err (t'', e) \<Rightarrow> (tr\<lparr>state := Building t''\<rparr>, Err (SolveError e))
                        | Panic \<Rightarrow> (tr\<lparr>state := TripEmpty\<rparr>, Panic))))"

definition supports :: "('e, 'p, 'm) matcher \<Rightarrow> ('e, 'p) trip \<Rightarrow> bool" where
  "supports m tr =
     list_all (\<lambda>c. net_point (w_net (weigher_of m)) (source (edge c)) \<noteq> None
         \<and> net_point (w_net (weigher_of m)) (target (edge c)) \<noteq> None)
       (store_iter (candidates tr))"

definition matcher_convergence :: "('e, 'p) trip \<Rightarrow> (layer_id option, 'p match_error) outcome" where
  "matcher_convergence tr =
     (case trip_trellis tr of
        None \<Rightarrow> Err (TrellisError Empty)
      | Some t \<Rightarrow> map_err SolveError (convergence t))"

definition matcher_hop ::
    "('e, 'p, 'm) matcher \<Rightarrow> ('e, 'p) trip \<Rightarrow> candidate_ref \<Rightarrow> candidate_ref \<Rightarrow> 'e reachable option" where
  "matcher_hop m tr from to = weigher_reach (weigher_of m) (candidates tr) from to"

definition route_of :: "path \<Rightarrow> candidate_ref list" where
  "route_of p = map (\<lambda>(l, n). CandidateRef l n) (enumerate 0 (path_nodes p))"

record 'e collapse =
  collapse_cost :: nat
  collapse_route :: "candidate_ref list"
  collapse_interpolated :: "'e reachable list"

definition collapse ::
    "('e, 'p, 'm) matcher \<Rightarrow> ('e, 'p) trip \<Rightarrow> ('e, 'p) trip \<times> ('e collapse, 'p match_error) outcome" where
  "collapse m tr =
     (case matcher_solve m tr of
        (tr', r) \<Rightarrow> (tr', and_then r (\<lambda>p.
          let route = route_of p
          in Ok \<lparr>collapse_cost = path_total p, collapse_route = route,
                 collapse_interpolated =
                   List.map_filter (\<lambda>(a, b). weigher_reach (weigher_of m) (candidates tr') a b) (windows2 route)\<rparr>)))"

record ('e, 'p) collapsed_path =
  cp_cost :: nat
  cp_route :: "candidate_ref list"
  cp_interpolated :: "'e reachable list"
  cp_candidates :: "('e, 'p) candidate_store"

definition snapshot ::
    "('e, 'p, 'm) matcher \<Rightarrow> ('e, 'p) trip \<Rightarrow> ('e, 'p) trip \<times> (('e, 'p) collapsed_path, 'p match_error) outcome" where
  "snapshot m tr =
     (case collapse m tr of
        (tr', r) \<Rightarrow> (tr', and_then r (\<lambda>c. Ok \<lparr>cp_cost = collapse_cost c, cp_route = collapse_route c,
            cp_interpolated = collapse_interpolated c, cp_candidates = candidates tr'\<rparr>)))"

definition match_points ::
    "('e, 'p, 'm) matcher \<Rightarrow> 'p list \<Rightarrow> (('e, 'p) collapsed_path, 'p match_error) outcome" where
  "match_points m ps =
     (let ogs = map (\<lambda>(i, p). \<lparr>origin_point = p, timestamp = int i\<rparr>) (enumerate 0 ps)
      in case extend_trip m begin_trip ogs of
           (tr, Ok u) \<Rightarrow> snd (snapshot m tr)
         | (tr, Err e) \<Rightarrow> Err e
         | (tr, Panic) \<Rightarrow> Panic)"

section \<open>Pushing and extending\<close>

definition generates_u32 :: "('e, 'p, 'm) matcher \<Rightarrow> bool" where
  "generates_u32 m \<longleftrightarrow> (\<forall>p l. length (generator m p l) \<le> U32_MAX)"

lemma push_all_ok:
  assumes "trip_ok tr" and "\<forall>(og, cs) \<in> set ls. cs \<noteq> [] \<and> length cs \<le> U32_MAX"
  shows "\<exists>tr'. push_all tr ls = (tr', Ok ()) \<and> trip_ok tr' \<and> origins tr' = origins tr @ map fst ls
    \<and> (\<exists>added. candidates tr' = candidates tr @ added \<and> map length added = map (length \<circ> snd) ls)
    \<and> (\<forall>t. trip_trellis tr = Some t \<longrightarrow> (\<exists>t'. trip_trellis tr' = Some t' \<and> extends t t'))
    \<and> (ls \<noteq> [] \<longrightarrow> (\<exists>t'. state tr' = Building t'))"
  using assms
proof (induction ls arbitrary: tr)
  case (Cons x ls)
  obtain og cs where x: "x = (og, cs)" by (cases x)
  have cs: "cs \<noteq> []" "length cs \<le> U32_MAX" using Cons.prems(2) by (auto simp: x)
  let ?cs = "stamp (trip_next_id tr) cs"
  obtain t1 where push: "push_layer tr og cs = (\<lparr>origins = origins tr @ [og],
      candidates = candidates tr @ [?cs], state = Building t1\<rparr>, Ok (trip_next_id tr))"
    and fill: "fill_nodes (grown_trellis tr (length cs)) (trip_next_id tr)
        (map (\<lambda>c. min (emission c) MAX_WEIGHT) ?cs) = Ok t1"
    and ok: "trip_ok (fst (push_layer tr og cs))"
    using push_layer_ok [OF Cons.prems(1) cs, of og] by blast
  let ?tr = "\<lparr>origins = origins tr @ [og], candidates = candidates tr @ [?cs], state = Building t1\<rparr>"
  have "trip_ok ?tr" using ok by (simp add: push)
  moreover have "\<forall>(og, cs) \<in> set ls. cs \<noteq> [] \<and> length cs \<le> U32_MAX" using Cons.prems(2) by auto
  ultimately obtain tr' where tr': "push_all ?tr ls = (tr', Ok ())" "trip_ok tr'"
    "origins tr' = origins ?tr @ map fst ls"
    "\<exists>added. candidates tr' = candidates ?tr @ added \<and> map length added = map (length \<circ> snd) ls"
    "\<forall>t. trip_trellis ?tr = Some t \<longrightarrow> (\<exists>t'. trip_trellis tr' = Some t' \<and> extends t t')"
    "ls \<noteq> [] \<longrightarrow> (\<exists>t'. state tr' = Building t')"
    using Cons.IH by blast
  have ext: "extends t t1" if "trip_trellis tr = Some t" for t
  proof -
    have t: "trellis_ok t" and L: "layers t = trip_next_id tr"
      using trip_trellis_mirrors [OF Cons.prems(1) that] Cons.prems(1)
      by (auto simp: mirrors_layers trip_ok_def trip_next_id_def)
    have add: "add_layer t (length cs) = Ok (grown_trellis tr (length cs), layers t)"
      using grown_trellis_add [OF that] cs(1) by simp
    show ?thesis
      by (rule fill_nodes_extends [OF add_layer_ok(1) [OF t add] add_layer_extends [OF add] t _ fill]) (simp add: L)
  qed
  obtain t2 where t2: "trip_trellis tr' = Some t2" "extends t1 t2"
    using tr'(5) by (auto simp: trip_trellis_def)
  have "\<exists>t'. state tr' = Building t'"
  proof (cases "ls = []")
    case True
    then show ?thesis using tr'(1) by auto
  qed (use tr'(6) in simp)
  moreover have "push_all tr (x # ls) = (tr', Ok ())" using tr'(1) by (simp add: x push)
  moreover have "\<exists>added. candidates tr' = candidates tr @ added \<and> map length added = map (length \<circ> snd) (x # ls)"
  proof -
    obtain added where "candidates tr' = candidates ?tr @ added" "map length added = map (length \<circ> snd) ls"
      using tr'(4) by blast
    then show ?thesis by (intro exI [of _ "?cs # added"]) (simp add: x)
  qed
  ultimately show ?case
    using tr'(2,3) t2 ext by (intro exI [of _ tr']) (auto simp: x intro: extends_trans)
qed auto

lemma unanchored_points_exact:
  assumes "length per_layer = length ps"
  shows "set (unanchored_points l ps per_layer)
    = {\<lparr>unanchored_layer = l + i, unanchored_origin = ps ! i\<rparr> | i. i < length ps \<and> per_layer ! i = []}"
  using assms by (force simp: unanchored_points_def in_set_enumerate_eq image_iff)

lemma unanchored_points_Nil_iff:
  assumes "length per_layer = length ps"
  shows "unanchored_points l ps per_layer = [] \<longleftrightarrow> (\<forall>cs \<in> set per_layer. cs \<noteq> [])"
proof -
  have "unanchored_points l ps per_layer = [] \<longleftrightarrow> (\<forall>i < length ps. per_layer ! i \<noteq> [])"
    unfolding set_empty [symmetric] unanchored_points_exact [OF assms] by blast
  then show ?thesis using assms by (auto simp: in_set_conv_nth)
qed

lemma anchored_layers:
  assumes "generates_u32 m" and "unanchored_points l ps (generate (generator m) ps l) = []"
  shows "\<forall>(og, cs) \<in> set (zip ogs (generate (generator m) ps l)). cs \<noteq> [] \<and> length cs \<le> U32_MAX"
proof -
  have "\<forall>cs \<in> set (generate (generator m) ps l). cs \<noteq> []"
    using assms(2) by (simp add: unanchored_points_Nil_iff)
  moreover have "\<forall>cs \<in> set (generate (generator m) ps l). length cs \<le> U32_MAX"
    using assms(1) by (auto simp: generate_def generates_u32_def)
  ultimately show ?thesis by (auto dest: set_zip_rightD)
qed

lemma extend_trip_cases:
  assumes ok: "trip_ok tr" and gen: "generates_u32 m"
  obtains (missing) us where "extend_trip m tr ogs = (tr, Err (Unanchored us))" "us \<noteq> []"
      "set us = {\<lparr>unanchored_layer = trip_next_id tr + i, unanchored_origin = origin_point (ogs ! i)\<rparr> | i.
        i < length ogs \<and> generator m (origin_point (ogs ! i)) (trip_next_id tr + i) = []}"
  | (all) tr' where "extend_trip m tr ogs = (tr', Ok ())" "trip_ok tr'" "origins tr' = origins tr @ ogs"
      "\<exists>added. candidates tr' = candidates tr @ added"
      "\<forall>t. trip_trellis tr = Some t \<longrightarrow> (\<exists>t'. trip_trellis tr' = Some t' \<and> extends t t')"
      "ogs \<noteq> [] \<longrightarrow> (\<exists>t'. state tr' = Building t')"
proof -
  let ?ps = "map origin_point ogs" and ?l = "trip_next_id tr"
  let ?per = "generate (generator m) ?ps ?l"
  let ?un = "unanchored_points ?l ?ps ?per"
  have nth: "?per ! i = generator m (origin_point (ogs ! i)) (?l + i)" if "i < length ogs" for i
    using that by (simp add: generate_nth)
  show ?thesis
  proof (cases "?un = []")
    case False
    have "set ?un = {\<lparr>unanchored_layer = ?l + i, unanchored_origin = origin_point (ogs ! i)\<rparr> | i.
        i < length ogs \<and> generator m (origin_point (ogs ! i)) (?l + i) = []}"
      unfolding unanchored_points_exact [of ?per ?ps ?l, simplified] using nth by fastforce
    then show ?thesis using False by (intro missing [of ?un]) (simp_all add: extend_trip_def Let_def)
  next
    case True
    then have "\<forall>(og, cs) \<in> set (zip ogs ?per). cs \<noteq> [] \<and> length cs \<le> U32_MAX"
      by (rule anchored_layers [OF gen])
    moreover have "zip ogs ?per = [] \<longleftrightarrow> ogs = []" by (cases ogs) (auto simp: generate_def)
    ultimately show ?thesis
      using push_all_ok [OF ok, of "zip ogs ?per"] True
      by (auto simp: extend_trip_def Let_def intro!: all)
  qed
qed

end
