(* ===== verification/Matcher_Laws.thy ===== *)
theory Matcher_Laws
  imports Matcher
begin

text \<open>
  What the matcher guarantees: solving keeps the trip well-formed on every branch and weighs only
  pending boundaries; a solved trip carries the cheapest sequence of candidates under the
  weigher's own hop costs; the breaks it reports are where the trajectory is really cut.
\<close>

section \<open>The branches of a solve\<close>

lemma solve_cases:
  assumes ok: "trip_ok tr"
  obtains (empty) "origins tr = []" "matcher_solve m tr = (tr, Err (TrellisError Empty))"
  | (solved) s where "state tr = Solved s" "certified s" "matcher_solve m tr = (tr, Ok (solved_path s))"
  | (gaps) t t' where "state tr = Building t" "weigh (weigher_of m) (candidates tr) t = (t', Ok ())"
      "mirrors t' (candidates tr)" "disconnections t' \<noteq> []"
      "matcher_solve m tr = (tr\<lparr>state := Building t'\<rparr>, Err (report_breaks m tr (disconnections t')))"
  | (cut) t t' where "state tr = Building t" "weigh (weigher_of m) (candidates tr) t = (t', Ok ())"
      "mirrors t' (candidates tr)" "fully_resolved t'" "viterbi_solve t' = Err Unreachable"
      "matcher_solve m tr = (tr\<lparr>state := Building t'\<rparr>, Err (report_breaks m tr (frontier_collapse t')))"
  | (found) t t' p where "state tr = Building t" "weigh (weigher_of m) (candidates tr) t = (t', Ok ())"
      "mirrors t' (candidates tr)" "fully_resolved t'" "viterbi_solve t' = Ok p"
      "matcher_solve m tr = (tr\<lparr>state := Solved \<lparr>solved_trellis = t', solved_path = p\<rparr>\<rparr>, Ok p)"
proof (cases rule: trip_ok_cases [OF ok])
  case 1
  then show ?thesis by (intro empty) (simp_all add: matcher_solve_def)
next
  case (2 t)
  obtain t' where t': "weigh (weigher_of m) (candidates tr) t = (t', Ok ())" "mirrors t' (candidates tr)"
    using weigh_spec [OF 2(2), of "weigher_of m"] by blast
  have dis: "disconnections t' = [] \<longleftrightarrow> fully_resolved t'"
    using first_pending_hd [of t'] first_pending_None_iff [of t'] by (auto split: if_splits)
  note vit = viterbi.trichotomy [OF mirrors_ok [OF t'(2)]]
  show ?thesis
  proof (cases "disconnections t' = []")
    case False
    then show ?thesis using 2 t' by (intro gaps) (simp_all add: matcher_solve_def)
  next
    case True
    then have r: "fully_resolved t'" "first_pending t' = None" using dis by (auto simp: first_pending_None_iff)
    with vit consider "viterbi_solve t' = Err Unreachable" | p where "viterbi_solve t' = Ok p" by auto
    then show ?thesis
    proof cases
      case a: 1
      show ?thesis
        by (rule cut [OF 2(1) t' r(1) a]) (simp add: matcher_solve_def 2 t' True trellis_solve_def a)
    next
      case (2 p)
      show ?thesis
        by (rule found [OF \<open>state tr = Building t\<close> t' r(1) 2])
          (simp add: matcher_solve_def \<open>state tr = Building t\<close> t' True trellis_solve_def 2)
    qed
  qed
next
  case (3 s)
  then show ?thesis by (intro solved) (simp_all add: matcher_solve_def)
qed

lemma trip_ok_building: "trip_ok tr \<Longrightarrow> mirrors t (candidates tr) \<Longrightarrow> trip_ok (tr\<lparr>state := Building t\<rparr>)"
  by (simp add: trip_ok_def)

lemma solved_certified:
  "trellis_ok t \<Longrightarrow> viterbi_solve t = Ok p \<Longrightarrow> certified \<lparr>solved_trellis = t, solved_path = p\<rparr>"
  using viterbi.certificate(1) [of t "\<lparr>solved_trellis = t, solved_path = p\<rparr>"]
  by (simp add: trellis_solve_def)

lemma solve_keeps_trip:
  assumes ok: "trip_ok tr" and s: "matcher_solve m tr = (tr', r)"
  shows "trip_ok tr'" and "origins tr' = origins tr" and "candidates tr' = candidates tr" and "r \<noteq> Panic"
    and "r = Ok p \<Longrightarrow> \<exists>sv. state tr' = Solved sv \<and> solved_path sv = p"
proof -
  have "trip_ok tr' \<and> origins tr' = origins tr \<and> candidates tr' = candidates tr \<and> r \<noteq> Panic
    \<and> (r = Ok p \<longrightarrow> (\<exists>sv. state tr' = Solved sv \<and> solved_path sv = p))"
  proof (cases rule: solve_cases [OF ok, of m])
    case 1
    then show ?thesis using s ok by auto
  next
    case (2 sv)
    then show ?thesis using s ok by auto
  next
    case (3 t t')
    then show ?thesis using s ok by (auto simp: trip_ok_building)
  next
    case (4 t t')
    then show ?thesis using s ok by (auto simp: trip_ok_building)
  next
    case (5 t t' q)
    have "certified \<lparr>solved_trellis = t', solved_path = q\<rparr>" using 5 by (blast intro: solved_certified)
    then show ?thesis using s ok 5 by (auto simp: trip_ok_def)
  qed
  then show "trip_ok tr'" "origins tr' = origins tr" "candidates tr' = candidates tr" "r \<noteq> Panic"
    "r = Ok p \<Longrightarrow> \<exists>sv. state tr' = Solved sv \<and> solved_path sv = p" by auto
qed

text \<open>Boundaries that were resolved before a solve carry the same weights after it.\<close>

lemma solve_keeps_resolved:
  assumes ok: "trip_ok tr" and s: "matcher_solve m tr = (tr', r)"
    and t: "trip_trellis tr = Some t" and k: "is_resolved t k"
  shows "\<exists>t'. trip_trellis tr' = Some t' \<and> transitions t' ! k = transitions t ! k"
proof -
  have kl: "Suc k < length (candidates tr)"
    using k trip_trellis_mirrors [OF ok t] trellis_okD(5) [of t] by (auto simp: is_resolved_def mirrors_layers)
  have weighed: "transitions t' ! k = transitions t ! k"
    if "weigh (weigher_of m) (candidates tr) t = (t', Ok ())" for t'
    using weigh_spec [OF trip_trellis_mirrors [OF ok t], of "weigher_of m"] that k kl by auto
  show ?thesis
  proof (cases rule: solve_cases [OF ok, of m])
    case 1
    then show ?thesis using s t by auto
  next
    case (2 sv)
    then show ?thesis using s t by auto
  next
    case (3 u u')
    then show ?thesis using s t weighed by (auto simp: trip_trellis_def)
  next
    case (4 u u')
    then show ?thesis using s t weighed by (auto simp: trip_trellis_def)
  next
    case (5 u u' q)
    then show ?thesis using s t weighed by (auto simp: trip_trellis_def)
  qed
qed

section \<open>Trips weighed by one weigher\<close>

text \<open>
  The transition cost reads the store only to resolve the two refs of its context, so a grown
  store changes nothing. The default costing is of this kind.
\<close>

definition cost_stable :: "('e, 'p, 'm) weigher \<Rightarrow> bool" where
  "cost_stable w \<longleftrightarrow> (\<forall>ctx added.
     store_candidate (ctx_candidates ctx) (source_candidate ctx) \<noteq> None \<longrightarrow>
     store_candidate (ctx_candidates ctx) (target_candidate ctx) \<noteq> None \<longrightarrow>
     w_cost w (ctx\<lparr>ctx_candidates := ctx_candidates ctx @ added\<rparr>) = w_cost w ctx)"

lemma store_candidate_append:
  "store_candidate st r = Some c \<Longrightarrow> store_candidate (st @ added) r = Some c"
  by (cases r) (auto simp: store_candidate_Some nth_append)

lemma transition_calculate_grown:
  assumes "store_candidate (ctx_candidates ctx) (source_candidate ctx) = Some c"
    and "store_candidate (ctx_candidates ctx) (target_candidate ctx) = Some c'"
  shows "transition_calculate g (ctx\<lparr>ctx_candidates := ctx_candidates ctx @ added\<rparr>) = transition_calculate g ctx"
proof -
  have "total_offset g (ctx\<lparr>ctx_candidates := ctx_candidates ctx @ added\<rparr>) c c' = total_offset g ctx c c'"
    by (simp add: total_offset_def split: resolution_method.split option.split)
  then have "lengths g (ctx\<lparr>ctx_candidates := ctx_candidates ctx @ added\<rparr>) c c' = lengths g ctx c c'"
    by (simp add: lengths_def)
  then show ?thesis
    using assms by (simp add: transition_calculate_def store_candidate_append Let_def split: option.split)
qed

lemma default_cost_stable: "w_cost w = default_transition_cost g \<Longrightarrow> cost_stable w"
  by (auto simp: cost_stable_def default_transition_cost_def transition_calculate_grown)

lemma hop_append:
  assumes st: "cost_stable w" and a: "store_candidate st a = Some c" and b: "store_candidate st b = Some c'"
  shows "hop w (st @ added) a b = hop w st a b"
proof -
  have reach: "weigher_reach w (st @ added) a b = weigher_reach w st a b"
    by (simp add: weigher_reach_def expansion_reach_def a b store_candidate_append)
  have ends: "reach_source r = a \<and> reach_target r = b" if "weigher_reach w st a b = Some r" for r
    using that by (auto simp: weigher_reach_def expansion_reach_def a b reachable_direct_def reachable_new_def
        distance_only_def split: option.splits bool.splits)
  show ?thesis
  proof (cases "weigher_reach w st a b")
    case None
    then show ?thesis by (simp add: hop_def reach)
  next
    case (Some r)
    obtain ctx where ctx: "transition_context_new (w_geo w) (w_net w) st a b (reach_nodes r) = Some ctx"
      and f: "ctx_candidates ctx = st" "source_candidate ctx = a" "target_candidate ctx = b"
      by (simp add: transition_context_new_def a b)
    have ctx': "transition_context_new (w_geo w) (w_net w) (st @ added) a b (reach_nodes r)
        = Some (ctx\<lparr>ctx_candidates := st @ added\<rparr>)"
      using ctx by (auto simp: transition_context_new_def a b store_candidate_append)
    let ?c = "with_resolution_method ctx (resolution r)"
    have "w_cost w (?c\<lparr>ctx_candidates := ctx_candidates ?c @ added\<rparr>) = w_cost w ?c"
      by (rule st [unfolded cost_stable_def, rule_format])
        (simp_all add: a b f with_resolution_method_def)
    moreover have "with_resolution_method (ctx\<lparr>ctx_candidates := st @ added\<rparr>) (resolution r)
        = ?c\<lparr>ctx_candidates := ctx_candidates ?c @ added\<rparr>"
      using f(1) by (cases ctx) (simp add: with_resolution_method_def)
    ultimately show ?thesis
      using Some ends [OF Some] ctx ctx' by (simp add: hop_def reach)
  qed
qed

lemma resolved_matrix_append:
  assumes st: "cost_stable w" and pos: "positional st" and l: "Suc l < length st"
  shows "resolved_matrix w (st @ added) l = resolved_matrix w st l"
    and "unbridged w (st @ added) l = unbridged w st l"
proof -
  have l': "Suc l < length (st @ added)" using l by simp
  have look: "store_candidate st (location (st ! k ! i)) = Some (st ! k ! i)"
    if "k < length st" "i < length (st ! k)" for k i
    using pos that by (simp add: positional_def store_candidate_Some)
  have src: "weigh_source w (st @ added) c (st ! Suc l) = weigh_source w st c (st ! Suc l)"
    if "c \<in> set (st ! l)" for c
  proof -
    obtain i where i: "i < length (st ! l)" "c = st ! l ! i" using \<open>c \<in> set (st ! l)\<close> by (auto simp: in_set_conv_nth)
    have "hop_weight w (st @ added) c (st ! Suc l) j = hop_weight w st c (st ! Suc l) j"
      if "j < length (st ! Suc l)" for j
      using hop_append [OF st look [of l i] look [of "Suc l" j]] i l that by (simp add: hop_weight_def)
    then show ?thesis by (intro nth_equalityI) (simp_all add: weigh_source_nth)
  qed
  have "weigh_boundary w (st @ added) l = weigh_boundary w st l"
    using l src by (simp add: weigh_boundary_def store_layer_def nth_append cong: map_cong)
  then show "resolved_matrix w (st @ added) l = resolved_matrix w st l"
    and "unbridged w (st @ added) l = unbridged w st l" by (simp_all add: resolved_matrix_def unbridged_def)
qed

text \<open>Every boundary is pending or bridged and holds the weights this weigher gives it.\<close>

definition weighed_by :: "('e, 'p, 'm) weigher \<Rightarrow> ('e, 'p) trip \<Rightarrow> bool" where
  "weighed_by w tr \<longleftrightarrow> (\<forall>t k. trip_trellis tr = Some t \<longrightarrow> Suc k < length (candidates tr) \<longrightarrow>
     transitions t ! k = Pending \<or>
     transitions t ! k = Resolved (resolved_matrix w (candidates tr) k) \<and> \<not> unbridged w (candidates tr) k)"

lemma weighed_by_new: "weighed_by w trip_new"
  by (simp add: weighed_by_def trip_new_def trip_trellis_def)

lemma weighed_by_push:
  assumes ok: "trip_ok tr" and w: "weighed_by w tr" and st: "cost_stable w"
    and cs: "cs \<noteq> []" "length cs \<le> U32_MAX"
  shows "weighed_by w (fst (push_layer tr og cs))"
proof -
  let ?l = "trip_next_id tr" and ?cs = "stamp (trip_next_id tr) cs"
  obtain t1 where push: "push_layer tr og cs = (\<lparr>origins = origins tr @ [og],
      candidates = candidates tr @ [?cs], state = Building t1\<rparr>, Ok ?l)"
    and fill: "fill_nodes (grown_trellis tr (length cs)) ?l (map (\<lambda>c. min (emission c) MAX_WEIGHT) ?cs) = Ok t1"
    using push_layer_ok [OF ok cs, of og] by blast
  have pos: "positional (candidates tr)" using ok by (simp add: trip_ok_def)
  have tr1: "transitions t1 = transitions (grown_trellis tr (length cs))" using fill_nodes_keeps [OF fill] by simp
  have "transitions t1 ! k = Pending \<or> transitions t1 ! k = Resolved (resolved_matrix w (candidates tr @ [?cs]) k)
      \<and> \<not> unbridged w (candidates tr @ [?cs]) k"
    if k: "k < length (candidates tr)" for k
  proof (cases "trip_trellis tr")
    case None
    then have "candidates tr = []"
      using ok trip_ok_empty_iff [OF ok] by (auto simp: trip_trellis_def trip_ok_def split: trip_state.splits)
    then show ?thesis using k by simp
  next
    case (Some t)
    have m: "mirrors t (candidates tr)" by (rule trip_trellis_mirrors [OF ok Some])
    have len: "length (transitions t) = length (candidates tr) - 1"
      using trellis_okD(5) [OF mirrors_ok [OF m]] mirrors_layers [OF m] by simp
    have g: "transitions t1 = transitions t @ [Pending]" by (simp add: tr1 grown_trellis_def Some)
    show ?thesis
    proof (cases "Suc k < length (candidates tr)")
      case True
      then have "k < length (transitions t)" using len by linarith
      then have "transitions t1 ! k = transitions t ! k" by (simp add: g nth_append)
      then show ?thesis
        using w Some True resolved_matrix_append [OF st pos True, of "[?cs]"] by (auto simp: weighed_by_def)
    next
      case False
      then have "k = length (transitions t)" using k len by simp
      then show ?thesis by (simp add: g)
    qed
  qed
  then show ?thesis by (simp add: push weighed_by_def trip_trellis_def)
qed

lemma weighed_by_push_all:
  assumes "trip_ok tr" "weighed_by w tr" "cost_stable w"
    "\<forall>(og, cs) \<in> set ls. cs \<noteq> [] \<and> length cs \<le> U32_MAX"
  shows "weighed_by w (fst (push_all tr ls))"
  using assms
proof (induction ls arbitrary: tr)
  case (Cons x ls)
  obtain og cs where x: "x = (og, cs)" by (cases x)
  have cs: "cs \<noteq> []" "length cs \<le> U32_MAX" using Cons.prems(4) by (auto simp: x)
  obtain t1 where push: "push_layer tr og cs = (\<lparr>origins = origins tr @ [og],
      candidates = candidates tr @ [stamp (trip_next_id tr) cs], state = Building t1\<rparr>, Ok (trip_next_id tr))"
    and ok: "trip_ok (fst (push_layer tr og cs))"
    using push_layer_ok [OF Cons.prems(1) cs, of og] by blast
  have "weighed_by w (fst (push_layer tr og cs))"
    by (rule weighed_by_push [OF Cons.prems(1-3) cs])
  then show ?case using Cons.IH [OF ok] Cons.prems(3,4) by (auto simp: x push)
qed simp

lemma weighed_by_weigh:
  assumes m: "mirrors t st" and w: "\<forall>k. Suc k < length st \<longrightarrow>
      transitions t ! k = Pending \<or> transitions t ! k = Resolved (resolved_matrix w st k) \<and> \<not> unbridged w st k"
    and r: "weigh w st t = (t', Ok ())" and k: "Suc k < length st"
  shows "transitions t' ! k = (if unbridged w st k then Pending else Resolved (resolved_matrix w st k))"
proof -
  have kl: "k < length (transitions t)"
    using k mirrors_layers [OF m] trellis_okD(5) [OF mirrors_ok [OF m]] by simp
  have "is_resolved t k \<longleftrightarrow> transitions t ! k \<noteq> Pending"
    using kl by (cases "transitions t ! k") (auto simp: is_resolved_def)
  then show ?thesis using weigh_spec [OF m, of w] r w k by auto
qed

section \<open>The cost of a sequence of candidates\<close>

text \<open>
  The price of choosing one candidate per layer: their emission costs and, between neighbours,
  the weigher's hop cost; \<open>None\<close> when a hop is not reachable or not considered.
\<close>

definition hop_cost ::
    "('e, 'p, 'm) weigher \<Rightarrow> ('e, 'p) candidate_store \<Rightarrow> layer_id \<Rightarrow> node_id \<Rightarrow> node_id \<Rightarrow> nat option" where
  "hop_cost w st l a b =
     (if b \<in> set (select_targets (w_strategy w) (w_geo w) (st ! l ! a) (st ! Suc l))
      then hop w st (CandidateRef l a) (CandidateRef (Suc l) b) else None)"

fun sequence_cost ::
    "('e, 'p, 'm) weigher \<Rightarrow> ('e, 'p) candidate_store \<Rightarrow> layer_id \<Rightarrow> node_id list \<Rightarrow> nat option" where
  "sequence_cost w st l [] = Some 0"
| "sequence_cost w st l [n] = Some (min (emission (st ! l ! n)) MAX_WEIGHT)"
| "sequence_cost w st l (a # b # ns) =
     (case hop_cost w st l a b of
        None \<Rightarrow> None
      | Some x \<Rightarrow> map_option (\<lambda>r. min (emission (st ! l ! a)) MAX_WEIGHT + x + r)
          (sequence_cost w st (Suc l) (b # ns)))"

definition choice_ok :: "('e, 'p) candidate_store \<Rightarrow> node_id list \<Rightarrow> bool" where
  "choice_ok st ns \<longleftrightarrow> length ns = length st \<and> (\<forall>l < length st. ns ! l < length (st ! l))"

lemma hop_weight_cost:
  assumes "positional st" "Suc l < length st" "a < length (st ! l)" "b < length (st ! Suc l)"
  shows "hop_weight w st (st ! l ! a) (st ! Suc l) b
    = (case hop_cost w st l a b of Some x \<Rightarrow> x | None \<Rightarrow> NO_EDGE)"
  using assms by (simp add: hop_weight_def hop_cost_def positional_def)

lemma hop_cost_le: "hop_cost w st l a b = Some x \<Longrightarrow> x \<le> MAX_WEIGHT"
  by (auto simp: hop_cost_def dest: hop_le split: if_splits)

lemma ew_hop_cost:
  assumes m: "mirrors t st" and pos: "positional st" and l: "Suc l < length st"
    and r: "transitions t ! l = Resolved (resolved_matrix w st l)"
    and ab: "a < length (st ! l)" "b < length (st ! Suc l)"
  shows "ew t l a b = (case hop_cost w st l a b of Some x \<Rightarrow> x | None \<Rightarrow> INF_W)"
proof -
  have w: "widths t ! Suc l = length (st ! Suc l)" using m l by (simp add: mirrors_def)
  have "a * length (st ! Suc l) + b < length (weigh_boundary w st l)"
    using weigh_boundary_matrix(1) [OF l, of w] ab by (simp add: row_index_bound)
  then have "ew t l a b = (let x = hop_weight w st (st ! l ! a) (st ! Suc l) b in if x = NO_EDGE then INF_W else x)"
    using weigh_boundary_matrix(2) [OF l ab, of w] by (simp add: ew_def layer_weights_def r resolved_matrix_def w)
  then show ?thesis
    using hop_weight_cost [OF pos l ab, of w] hop_cost_le [of w st l a b]
    by (auto simp: NO_EDGE_def MAX_WEIGHT_def INF_W_def split: option.splits)
qed

lemma sequence_cost_exact:
  assumes m: "mirrors t st" and pos: "positional st"
    and r: "\<forall>k. Suc k < length st \<longrightarrow> transitions t ! k = Resolved (resolved_matrix w st k)"
  shows "ns \<noteq> [] \<Longrightarrow> l + length ns \<le> length st \<Longrightarrow> \<forall>i < length ns. ns ! i < length (st ! (l + i)) \<Longrightarrow>
    (case sequence_cost w st l ns of
       Some c \<Rightarrow> exact_cost t l ns = c
     | None \<Rightarrow> exact_cost t l ns \<ge> INF_W)"
proof (induction ns arbitrary: l)
  case (Cons a ns)
  have a: "a < length (st ! l)" "l < length st" using Cons.prems(2,3) by (auto dest: spec [of _ 0])
  have na: "nw t l a = min (emission (st ! l ! a)) MAX_WEIGHT" using m a by (simp add: mirrors_def)
  show ?case
  proof (cases ns)
    case Nil
    then show ?thesis using na by simp
  next
    case (Cons b ns')
    have b: "b < length (st ! Suc l)" "Suc l < length st"
      using Cons.prems(2,3) Cons by (auto dest: spec [of _ 1])
    have e: "ew t l a b = (case hop_cost w st l a b of Some x \<Rightarrow> x | None \<Rightarrow> INF_W)"
      using ew_hop_cost [OF m pos b(2) _ a(1) b(1)] r b(2) by blast
    have "\<forall>i < length ns. ns ! i < length (st ! (Suc l + i))"
    proof (intro allI impI)
      fix i assume "i < length ns"
      then show "ns ! i < length (st ! (Suc l + i))" using Cons.prems(3) [rule_format, of "Suc i"] by simp
    qed
    then have IH: "case sequence_cost w st (Suc l) (b # ns') of
       Some c \<Rightarrow> exact_cost t (Suc l) (b # ns') = c
     | None \<Rightarrow> exact_cost t (Suc l) (b # ns') \<ge> INF_W"
      using Cons.IH [of "Suc l"] Cons.prems(2) unfolding Cons by simp
    show ?thesis using IH e na Cons by (auto split: option.splits)
  qed
qed simp

lemma choice_ok_valid: "mirrors t st \<Longrightarrow> choice_ok st ns \<longleftrightarrow> valid_path t ns"
  using mirrors_layers [of t st] by (auto simp: choice_ok_def valid_path_def mirrors_def)

lemma solved_cheapest:
  assumes m: "mirrors t st" and pos: "positional st" and ne: "st \<noteq> []"
    and r: "\<forall>k. Suc k < length st \<longrightarrow> transitions t ! k = Resolved (resolved_matrix w st k)"
    and p: "viterbi_solve t = Ok p"
  shows "choice_ok st (path_nodes p) \<and> sequence_cost w st 0 (path_nodes p) = Some (path_total p)
    \<and> (\<forall>ns c. choice_ok st ns \<longrightarrow> sequence_cost w st 0 ns = Some c \<longrightarrow> path_total p \<le> c)"
proof -
  have t: "trellis_ok t" using m by blast
  note s = viterbi_solve_sound [OF t p]
  have cost: "case sequence_cost w st 0 ns of Some c \<Rightarrow> exact_cost t 0 ns = c | None \<Rightarrow> exact_cost t 0 ns \<ge> INF_W"
    if "choice_ok st ns" for ns
    by (rule sequence_cost_exact [OF m pos r]) (use that ne in \<open>auto simp: choice_ok_def\<close>)
  have ok: "choice_ok st (path_nodes p)" using choice_ok_valid [OF m] s(2) by simp
  have "path_total p \<le> c" if ns: "choice_ok st ns" "sequence_cost w st 0 ns = Some c" for ns c
  proof (cases "c < INF_W")
    case True
    have "exact_cost t 0 ns = c" using cost [OF ns(1)] ns(2) by simp
    with True viterbi.complete [OF t s(1), of ns] choice_ok_valid [OF m] ns(1) p show ?thesis by auto
  qed (use s(4) in simp)
  moreover have "sequence_cost w st 0 (path_nodes p) = Some (path_total p)"
    using cost [OF ok] s(3,4) by (auto split: option.splits)
  ultimately show ?thesis using ok by blast
qed

end
