(* ===== verification/Sessions.thy ===== *)
theory Sessions
  imports Matcher_Laws
begin

text \<open>
  The life of a trip under one matcher as a step relation: it starts empty and is pushed to,
  extended, solved, collapsed and, when \<open>windowed\<close>, cut to its tail. What the steps keep, and
  what a solve of any trip reached this way decides.
\<close>

section \<open>Steps\<close>

inductive session :: "bool \<Rightarrow> ('e, 'p, 'm) matcher \<Rightarrow> ('e, 'p) trip \<Rightarrow> bool"
  for windowed :: bool and m :: "('e, 'p, 'm) matcher" where
  start: "session windowed m trip_new"
| pushed: "session windowed m tr \<Longrightarrow> session windowed m (fst (push m tr og))"
| extended: "session windowed m tr \<Longrightarrow> session windowed m (fst (extend_trip m tr ogs))"
| solved: "session windowed m tr \<Longrightarrow> session windowed m (fst (matcher_solve m tr))"
| cut: "windowed \<Longrightarrow> session windowed m tr \<Longrightarrow> trip_tail n tr = Some tr' \<Longrightarrow> session windowed m tr'"

lemma session_mono: "session v m tr \<Longrightarrow> session True m tr"
  by (induction rule: session.induct) (auto intro: session.intros)

text \<open>A solution held by a trip is the one the Viterbi solver gives for its trellis.\<close>

definition solved_by_viterbi :: "('e, 'p) trip \<Rightarrow> bool" where
  "solved_by_viterbi tr \<longleftrightarrow>
     (\<forall>s. state tr = Solved s \<longrightarrow> viterbi_solve (solved_trellis s) = Ok (solved_path s))"

lemma push_cases:
  assumes ok: "trip_ok tr" and gen: "generates_u32 m"
  obtains (missing) "push m tr og = (tr, Err (Unanchored
        [\<lparr>unanchored_layer = trip_next_id tr, unanchored_origin = origin_point og\<rparr>]))"
      "generator m (origin_point og) (trip_next_id tr) = []"
  | (added) tr' cs t where "push m tr og = (tr', Ok (trip_next_id tr))" "push_layer tr og cs = (tr', Ok (trip_next_id tr))"
      "cs = generator m (origin_point og) (trip_next_id tr)" "cs \<noteq> []" "length cs \<le> U32_MAX"
      "trip_ok tr'" "state tr' = Building t" "origins tr' = origins tr @ [og]"
proof -
  let ?cs = "generator m (origin_point og) (trip_next_id tr)"
  show ?thesis
  proof (cases "?cs = []")
    case True
    then show ?thesis by (intro missing) (simp_all add: push_def)
  next
    case False
    have len: "length ?cs \<le> U32_MAX" using gen by (simp add: generates_u32_def)
    obtain t where t: "push_layer tr og ?cs = (\<lparr>origins = origins tr @ [og],
        candidates = candidates tr @ [stamp (trip_next_id tr) ?cs], state = Building t\<rparr>, Ok (trip_next_id tr))"
      "trip_ok (fst (push_layer tr og ?cs))"
      using push_layer_ok [OF ok False len, of og] by blast
    then show ?thesis using False len by (intro added [OF _ t(1)]) (simp_all add: push_def Let_def)
  qed
qed

lemma trip_tail_state: "trip_tail n tr = Some tr' \<Longrightarrow> tr' = tr \<or> (\<forall>s. state tr' \<noteq> Solved s)"
  by (auto simp: trip_tail_def Let_def trip_new_def split: if_splits trip_state.splits outcome.splits)

text \<open>A sound trip stays sound under every operation of every matcher.\<close>

definition sound_trip :: "('e, 'p) trip \<Rightarrow> bool" where
  "sound_trip tr \<longleftrightarrow> trip_ok tr \<and> solved_by_viterbi tr"

lemma sound_new: "sound_trip trip_new"
  using trip_new_ok by (simp add: sound_trip_def solved_by_viterbi_def trip_new_def)

lemma sound_pushed: "generates_u32 m \<Longrightarrow> sound_trip tr \<Longrightarrow> sound_trip (fst (push m tr og))"
  using push_cases [of tr m og thesis for thesis] unfolding sound_trip_def
  by (metis fst_conv solved_by_viterbi_def trip_state.distinct(5))

lemma sound_extended:
  assumes "generates_u32 m" "sound_trip tr"
  shows "sound_trip (fst (extend_trip m tr ogs))"
proof -
  have ok: "trip_ok tr" using assms(2) by (simp add: sound_trip_def)
  show ?thesis
  proof (cases rule: extend_trip_cases [OF ok assms(1), of ogs])
    case (2 tr')
    then show ?thesis
    proof (cases "ogs = []")
      case True
      then have "tr' = tr" using 2(1) by (simp add: extend_trip_def unanchored_points_def generate_def)
      then show ?thesis using 2 assms by simp
    qed (use 2 in \<open>auto simp: solved_by_viterbi_def sound_trip_def\<close>)
  qed (use assms in simp)
qed

lemma sound_solved:
  assumes "sound_trip tr"
  shows "sound_trip (fst (matcher_solve m tr))"
proof -
  have ok: "trip_ok tr" using assms by (simp add: sound_trip_def)
  obtain tr' r where s: "matcher_solve m tr = (tr', r)" by (cases "matcher_solve m tr")
  have "solved_by_viterbi tr'"
    by (cases rule: solve_cases [OF ok, of m]) (use s assms in \<open>auto simp: solved_by_viterbi_def sound_trip_def\<close>)
  then show ?thesis using solve_keeps_trip(1) [OF ok s] s by (simp add: sound_trip_def)
qed

lemma sound_cut: "sound_trip tr \<Longrightarrow> trip_tail n tr = Some tr' \<Longrightarrow> sound_trip tr'"
  using trip_tail_ok [of tr n] trip_tail_state [of n tr tr'] by (auto simp: sound_trip_def solved_by_viterbi_def)

lemma session_ok:
  assumes gen: "generates_u32 m" and "session v m tr"
  shows "trip_ok tr \<and> solved_by_viterbi tr"
  unfolding sound_trip_def [symmetric] using assms(2)
  by (induction rule: session.induct)
    (auto intro: sound_new sound_pushed [OF gen] sound_extended [OF gen] sound_solved sound_cut)

lemma weighed_by_state: "weighed_by w tr \<Longrightarrow> trip_trellis tr = Some t \<Longrightarrow> Suc k < length (candidates tr) \<Longrightarrow>
    transitions t ! k = Pending \<or>
    transitions t ! k = Resolved (resolved_matrix w (candidates tr) k) \<and> \<not> unbridged w (candidates tr) k"
  by (simp add: weighed_by_def)

lemma weighed_by_solve:
  assumes ok: "trip_ok tr" and w: "weighed_by (weigher_of m) tr"
  shows "weighed_by (weigher_of m) (fst (matcher_solve m tr))"
proof -
  have after: "weighed_by (weigher_of m) tr'"
    if t: "state tr = Building t" "weigh (weigher_of m) (candidates tr) t = (t', Ok ())" "mirrors t' (candidates tr)"
      and tr': "trip_trellis tr' = Some t'" "candidates tr' = candidates tr" for t t' tr'
  proof -
    have tt: "trip_trellis tr = Some t" by (simp add: trip_trellis_def t)
    note ww = weighed_by_weigh [OF trip_trellis_mirrors [OF ok tt] _ t(2)]
    show ?thesis using ww weighed_by_state [OF w tt] tr' by (auto simp: weighed_by_def)
  qed
  show ?thesis
    by (cases rule: solve_cases [OF ok, of m]) (use w in \<open>auto simp: trip_trellis_def intro: after\<close>)
qed

lemma session_weighed:
  assumes gen: "generates_u32 m" and st: "cost_stable (weigher_of m)" and "session False m tr"
  shows "weighed_by (weigher_of m) tr"
  using assms(3)
proof (induction rule: session.induct)
  case (pushed tr og)
  have ok: "trip_ok tr" using session_ok [OF gen pushed(1)] by simp
  show ?case
  proof (cases rule: push_cases [OF ok gen, of og])
    case (2 tr' cs t)
    then show ?thesis using weighed_by_push [OF ok pushed(2) st 2(4,5), of og] by simp
  qed (use pushed in simp)
next
  case (extended tr ogs)
  have ok: "trip_ok tr" using session_ok [OF gen extended(1)] by simp
  let ?per = "generate (generator m) (map origin_point ogs) (trip_next_id tr)"
  let ?un = "unanchored_points (trip_next_id tr) (map origin_point ogs) ?per"
  show ?case
  proof (cases "?un = []")
    case True
    show ?thesis
      using weighed_by_push_all [OF ok extended(2) st anchored_layers [OF gen True]] True
      by (simp add: extend_trip_def Let_def)
  qed (use extended in \<open>simp add: extend_trip_def Let_def\<close>)
next
  case (solved tr)
  then show ?case using weighed_by_solve session_ok [OF gen solved(1)] by blast
qed (simp_all add: weighed_by_new)

section \<open>What a solve decides\<close>

definition gaps :: "('e, 'p, 'm) weigher \<Rightarrow> ('e, 'p) candidate_store \<Rightarrow> layer_id list" where
  "gaps w st = filter (unbridged w st) [0..<length st - 1]"

lemma disconnections_gaps:
  assumes m: "mirrors t st"
    and tr: "\<And>k. Suc k < length st \<Longrightarrow>
      transitions t ! k = (if unbridged w st k then Pending else Resolved (resolved_matrix w st k))"
  shows "disconnections t = gaps w st"
proof (rule sorted_distinct_set_unique)
  have len: "length (transitions t) = length st - 1"
    using mirrors_layers [OF m] trellis_okD(5) [OF mirrors_ok [OF m]] by simp
  show "set (disconnections t) = set (gaps w st)"
    using tr by (auto simp: set_disconnections gaps_def len is_resolved_def split: if_splits)
  show "sorted (gaps w st)" unfolding gaps_def by (intro sorted_wrt_filter) simp
qed (simp_all add: sorted_disconnections gaps_def)

lemma no_gaps_resolved:
  assumes "mirrors t st" "gaps w st = []"
    and "\<And>k. Suc k < length st \<Longrightarrow>
      transitions t ! k = (if unbridged w st k then Pending else Resolved (resolved_matrix w st k))"
  shows "\<forall>k. Suc k < length st \<longrightarrow> transitions t ! k = Resolved (resolved_matrix w st k)"
proof (intro allI impI)
  fix k assume k: "Suc k < length st"
  then have "\<not> unbridged w st k" using assms(2) by (auto simp: gaps_def filter_empty_conv)
  then show "transitions t ! k = Resolved (resolved_matrix w st k)" using assms(3) [OF k] by simp
qed

lemma cut_costs:
  assumes m: "mirrors t st" and pos: "positional st" and ne: "st \<noteq> []"
    and r: "\<forall>k. Suc k < length st \<longrightarrow> transitions t ! k = Resolved (resolved_matrix w st k)"
    and un: "viterbi_solve t = Err Unreachable" and ns: "choice_ok st ns" "sequence_cost w st 0 ns = Some c"
  shows "INF_W \<le> c"
proof -
  have "exact_cost t 0 ns \<ge> INF_W"
    using viterbi.unreachable_iff [OF mirrors_ok [OF m]] un choice_ok_valid [OF m] ns(1) by blast
  moreover have "case sequence_cost w st 0 ns of Some c \<Rightarrow> exact_cost t 0 ns = c | None \<Rightarrow> exact_cost t 0 ns \<ge> INF_W"
    by (rule sequence_cost_exact [OF m pos r]) (use ns(1) ne in \<open>auto simp: choice_ok_def\<close>)
  ultimately show ?thesis using ns(2) by simp
qed

lemma no_pending:
  assumes m: "mirrors t st" and r: "fully_resolved t" and k: "Suc k < length st"
  shows "transitions t ! k \<noteq> Pending"
proof -
  have "k < length (transitions t)"
    using k mirrors_layers [OF m] trellis_okD(5) [OF mirrors_ok [OF m]] by simp
  then show ?thesis using r by (fastforce simp: fully_resolved_def list_all_length)
qed

lemma resolved_no_gaps:
  assumes m: "mirrors t st" and r: "fully_resolved t"
    and w: "\<And>k. Suc k < length st \<Longrightarrow>
      transitions t ! k = Pending \<or> transitions t ! k = Resolved (resolved_matrix w st k) \<and> \<not> unbridged w st k"
  shows "gaps w st = []" and "\<forall>k. Suc k < length st \<longrightarrow> transitions t ! k = Resolved (resolved_matrix w st k)"
proof -
  have *: "transitions t ! k = Resolved (resolved_matrix w st k) \<and> \<not> unbridged w st k" if "Suc k < length st" for k
    using w [OF that] no_pending [OF m r that] by simp
  then show "gaps w st = []" by (auto simp: gaps_def filter_empty_conv)
  show "\<forall>k. Suc k < length st \<longrightarrow> transitions t ! k = Resolved (resolved_matrix w st k)" using * by blast
qed

text \<open>Everything a solve can answer about a trip only ever weighed by this matcher.\<close>

definition cheapest ::
    "('e, 'p, 'm) weigher \<Rightarrow> ('e, 'p) candidate_store \<Rightarrow> path \<Rightarrow> bool" where
  "cheapest w st p \<longleftrightarrow> choice_ok st (path_nodes p) \<and> sequence_cost w st 0 (path_nodes p) = Some (path_total p)
    \<and> (\<forall>ns c. choice_ok st ns \<longrightarrow> sequence_cost w st 0 ns = Some c \<longrightarrow> path_total p \<le> c)"

lemma solve_decides:
  assumes ok: "trip_ok tr" "solved_by_viterbi tr" and w: "weighed_by (weigher_of m) tr" and ne: "origins tr \<noteq> []"
  shows "case snd (matcher_solve m tr) of
      Ok p \<Rightarrow> gaps (weigher_of m) (candidates tr) = [] \<and> cheapest (weigher_of m) (candidates tr) p
    | Err e \<Rightarrow>
        (if gaps (weigher_of m) (candidates tr) \<noteq> []
         then e = report_breaks m tr (gaps (weigher_of m) (candidates tr))
         else (\<exists>bs. e = report_breaks m tr bs)
           \<and> (\<forall>ns c. choice_ok (candidates tr) ns \<longrightarrow> sequence_cost (weigher_of m) (candidates tr) 0 ns = Some c
                \<longrightarrow> INF_W \<le> c))
    | Panic \<Rightarrow> False"
proof -
  let ?w = "weigher_of m" and ?st = "candidates tr"
  have pos: "positional ?st" and st: "?st \<noteq> []" using ok(1) ne by (auto simp: trip_ok_def)
  have weighed: "transitions t' ! k = (if unbridged ?w ?st k then Pending else Resolved (resolved_matrix ?w ?st k))"
    if "state tr = Building t" "weigh ?w ?st t = (t', Ok ())" "Suc k < length ?st" for t t' k
  proof -
    have tt: "trip_trellis tr = Some t" by (simp add: trip_trellis_def that)
    show ?thesis
      using weighed_by_weigh [OF trip_trellis_mirrors [OF ok(1) tt] _ that(2,3)] weighed_by_state [OF w tt] by blast
  qed
  have dis: "disconnections t' = gaps ?w ?st"
    if "state tr = Building t" "weigh ?w ?st t = (t', Ok ())" "mirrors t' ?st" for t t'
    using disconnections_gaps [OF that(3) weighed [OF that(1,2)]] by blast
  have none: "gaps ?w ?st = []" and full: "\<forall>k. Suc k < length ?st \<longrightarrow> transitions t' ! k = Resolved (resolved_matrix ?w ?st k)"
    if "state tr = Building t" "weigh ?w ?st t = (t', Ok ())" "mirrors t' ?st" "fully_resolved t'" for t t'
    by (rule resolved_no_gaps [OF that(3,4)]; use weighed [OF that(1,2)] that(4) dis [OF that(1-3)] in
        \<open>simp add: no_pending [OF that(3,4)] split: if_splits\<close>)+
  show ?thesis
  proof (cases rule: solve_cases [OF ok(1), of m])
    case 1
    then show ?thesis using ne by simp
  next
    case (2 s)
    have tt: "trip_trellis tr = Some (solved_trellis s)" by (simp add: trip_trellis_def 2)
    have m: "mirrors (solved_trellis s) ?st" by (rule trip_trellis_mirrors [OF ok(1) tt])
    have v: "viterbi_solve (solved_trellis s) = Ok (solved_path s)" using ok(2) 2 by (simp add: solved_by_viterbi_def)
    note r = resolved_no_gaps [OF m viterbi_solve_sound(1) [OF mirrors_ok [OF m] v] weighed_by_state [OF w tt]]
    show ?thesis using 2 r(1) solved_cheapest [OF m pos st r(2) v] by (simp add: cheapest_def)
  next
    case (3 t t')
    then show ?thesis using dis [of t t'] by simp
  next
    case (4 t t')
    then show ?thesis using none [of t t'] cut_costs [OF 4(3) pos st full [OF 4(1-4)] 4(5)] by auto
  next
    case (5 t t' p)
    then show ?thesis
      using none [of t t'] solved_cheapest [OF 5(3) pos st full [OF 5(1-4)] 5(5)] by (simp add: cheapest_def)
  qed
qed

section \<open>Growing a solved trip\<close>

lemma fill_transition_length: "fill_transition t l rows = Ok t' \<Longrightarrow> length (transitions t') = length (transitions t)"
  by (auto simp: fill_transition_def Let_def split: if_splits option.splits)

lemma weigh_fill_keeps:
  "weigh_fill t ls = (t', r) \<Longrightarrow> widths t' = widths t \<and> node_table t' = node_table t
    \<and> length (transitions t') = length (transitions t)"
proof (induction t ls arbitrary: t' r rule: weigh_fill.induct)
  case (2 t l matrix rest)
  show ?case
  proof (cases "list_all (\<lambda>w. w = NO_EDGE) matrix")
    case True
    then show ?thesis using 2 by simp
  next
    case False
    show ?thesis
    proof (cases "fill_transition t l matrix")
      case (Ok u)
      have "weigh_fill u rest = (t', r)" using "2.prems" False Ok by simp
      then show ?thesis
        using "2.IH"(2) [OF False Ok] fill_transition_keeps [OF Ok] fill_transition_length [OF Ok] by metis
    qed (use False "2.prems" in simp_all)
  qed
qed simp

lemma weigh_extends:
  assumes m: "mirrors t st" and r: "weigh w st t = (t', Ok ())"
    and e: "extends t0 t" and t0: "trellis_ok t0" "fully_resolved t0"
  shows "extends t0 t'"
proof -
  have keep: "widths t' = widths t" "node_table t' = node_table t" "length (transitions t') = length (transitions t)"
    using weigh_fill_keeps [of t _ t'] r by (auto simp: weigh_def)
  have len: "length (transitions t) = length st - 1"
    using mirrors_layers [OF m] trellis_okD(5) [OF mirrors_ok [OF m]] by simp
  have pre: "prefix (transitions t0) (transitions t)" using e by (simp add: extends_def)
  have "transitions t' ! k = transitions t0 ! k" if k: "k < length (transitions t0)" for k
  proof -
    have k': "k < length (transitions t)" using k prefix_length_le [OF pre] by simp
    have eq: "transitions t ! k = transitions t0 ! k" by (rule prefix_nth [OF pre k])
    have "is_resolved t k" using t0(2) k k' eq by (simp add: fully_resolved_def list_all_length is_resolved_def)
    then show ?thesis using weigh_spec [OF m, of w] r eq k' len by auto
  qed
  then have "take (length (transitions t0)) (transitions t') = transitions t0"
    using prefix_length_le [OF pre] keep(3) by (intro nth_equalityI) simp_all
  then have "prefix (transitions t0) (transitions t')" by (metis take_is_prefix)
  then show ?thesis using e keep by (simp add: extends_def)
qed

lemma solve_Ok_trellis:
  assumes ok: "trip_ok tr" "solved_by_viterbi tr" and s: "matcher_solve m tr = (tr', Ok p)"
  obtains t where "trip_trellis tr' = Some t" "viterbi_solve t = Ok p" "trellis_ok t" "fully_resolved t"
    "state tr' = Solved \<lparr>solved_trellis = t, solved_path = p\<rparr>"
proof (cases rule: solve_cases [OF ok(1), of m])
  case (2 sv)
  have "trip_ok tr'" by (rule solve_keeps_trip(1) [OF ok(1) s])
  then show ?thesis
    using 2 s ok(2) by (intro that [of "solved_trellis sv"]) (auto simp: trip_trellis_def solved_by_viterbi_def certified_def)
next
  case (5 t t' q)
  then show ?thesis using s by (intro that [of t']) (auto simp: trip_trellis_def)
qed (use s in \<open>auto simp: report_breaks_def\<close>)

lemma solve_grown:
  assumes ok: "trip_ok tr" "solved_by_viterbi tr" and t: "trip_trellis tr = Some t"
    and e: "extends t0 t" and t0: "trellis_ok t0" "fully_resolved t0" and s: "matcher_solve m tr = (tr', Ok p)"
  shows "\<exists>t'. viterbi_solve t' = Ok p \<and> trellis_ok t' \<and> extends t0 t'"
proof (cases rule: solve_cases [OF ok(1), of m])
  case (2 sv)
  then show ?thesis
    using s ok(2) t e by (intro exI [of _ t]) (auto simp: trip_trellis_def solved_by_viterbi_def certified_def)
next
  case (5 u t' q)
  have "mirrors u (candidates tr)" using trip_trellis_mirrors [OF ok(1), of u] 5 by (simp add: trip_trellis_def)
  then have "extends t0 t'" using weigh_extends [OF _ 5(2) _ t0] e t 5(1) by (simp add: trip_trellis_def)
  then show ?thesis using 5 s by auto
qed (use s in \<open>auto simp: report_breaks_def\<close>)

end
