(* ===== verification/Routed.thy ===== *)
theory Routed
  imports Sessions
begin

text \<open>
  Reading a match: the chosen candidates and the driven geometry of a collapsed path
  (\<open>candidate/collapse.rs\<close>), the routed path of the facade (\<open>candidate/route.rs\<close>) and the facade
  itself (\<open>match/\<close>).
\<close>

section \<open>Collapsed paths\<close>

definition matched :: "('e, 'p) collapsed_path \<Rightarrow> ('e, 'p) candidate list" where
  "matched cp = List.map_filter (store_candidate (cp_candidates cp)) (cp_route cp)"

definition collapsed :: "('e, 'p) collapsed_path \<Rightarrow> 'p list" where
  "collapsed cp = map position_on (matched cp)"

definition hop_geometry :: "('e, 'p, 'm) network \<Rightarrow> ('e, 'p) collapsed_path \<Rightarrow> nat \<Rightarrow> 'p list" where
  "hop_geometry n cp h =
     (if h \<ge> length (cp_interpolated cp) then []
      else let r = cp_interpolated cp ! h
           in if resolution r \<noteq> Standard then []
              else let exit = map_option (\<lambda>c. target (edge c)) (store_candidate (cp_candidates cp) (reach_source r));
                       entry = map_option (\<lambda>c. source (edge c)) (store_candidate (cp_candidates cp) (reach_target r))
                   in dedup (List.map_filter (net_point n)
                        (case_option [] (\<lambda>x. [x]) exit @ reach_nodes r @ case_option [] (\<lambda>x. [x]) entry)))"

definition interpolated :: "('e, 'p, 'm) network \<Rightarrow> ('e, 'p) collapsed_path \<Rightarrow> 'p list" where
  "interpolated n cp =
     (let ms = matched cp
      in (case ms of [] \<Rightarrow> [] | c # _ \<Rightarrow> [position_on c])
         @ concat (map (\<lambda>(i, c). hop_geometry n cp (i - 1) @ [position_on c]) (drop 1 (enumerate 0 ms))))"

section \<open>Routed paths\<close>

record ('e, 'p, 'm) path_element =
  element_point :: 'p
  element_edge :: "('e, 'p) node edge"
  element_metadata :: 'm

definition path_element_new ::
    "('e, 'p, 'm) network \<Rightarrow> ('e, 'p) candidate \<Rightarrow> ('e, 'p, 'm) path_element option" where
  "path_element_new n c =
     (case fatten n (edge c) of
        None \<Rightarrow> None
      | Some fat \<Rightarrow> map_option (\<lambda>meta. \<lparr>element_point = position_on c, element_edge = fat, element_metadata = meta\<rparr>)
          (metadata n (edge_key (edge c))))"

definition from_edge_source ::
    "('e, 'p, 'm) network \<Rightarrow> ('e, 'p) node edge \<Rightarrow> ('e, 'p, 'm) path_element option" where
  "from_edge_source n fat =
     map_option (\<lambda>meta. \<lparr>element_point = node_position (source fat), element_edge = fat, element_metadata = meta\<rparr>)
       (metadata n (node_ident (edge_key fat)))"

definition from_edge_target ::
    "('e, 'p, 'm) network \<Rightarrow> ('e, 'p) node edge \<Rightarrow> ('e, 'p, 'm) path_element option" where
  "from_edge_target n fat =
     map_option (\<lambda>meta. \<lparr>element_point = node_position (target fat), element_edge = fat, element_metadata = meta\<rparr>)
       (metadata n (node_ident (edge_key fat)))"

definition opt_list :: "'a option \<Rightarrow> 'a list" where
  "opt_list x = (case x of None \<Rightarrow> [] | Some y \<Rightarrow> [y])"

definition edge_source_element ::
    "('e, 'p, 'm) network \<Rightarrow> 'e edge \<Rightarrow> ('e, 'p, 'm) path_element list" where
  "edge_source_element n e = opt_list (Option.bind (fatten n e) (from_edge_source n))"

record ('e, 'p, 'm) routed_path =
  discretized :: "('e, 'p, 'm) path_element list"
  rp_interpolated :: "('e, 'p, 'm) path_element list"

text \<open>The elements of one hop: the current candidate, then the roads to the next one.\<close>

definition hop_elements ::
    "('e, 'p, 'm) network \<Rightarrow> ('e, 'p) candidate list \<Rightarrow> nat \<times> 'e reachable \<Rightarrow> ('e, 'p, 'm) path_element list" where
  "hop_elements n ms h = (case h of (i, r) \<Rightarrow>
     opt_list (path_element_new n (ms ! i))
     @ (if resolution r = Standard
        then opt_list (Option.bind (fatten n (edge (ms ! i))) (from_edge_target n))
          @ concat (map (edge_source_element n) (reach_path r))
          @ (if i + 1 < length ms then edge_source_element n (edge (ms ! (i + 1))) else [])
        else []))"

text \<open>\<open>None\<close> is the panic of indexing a matched candidate that is not there.\<close>

definition routed_path_new ::
    "('e, 'p, 'm) network \<Rightarrow> ('e, 'p) collapsed_path \<Rightarrow> ('e, 'p, 'm) routed_path option" where
  "routed_path_new n cp =
     (let ms = List.map_filter (store_candidate (cp_candidates cp)) (cp_route cp)
      in if length (cp_interpolated cp) > length ms then None
         else Some
           \<lparr>discretized = List.map_filter (path_element_new n) ms,
            rp_interpolated = dedup_by (\<lambda>a b. element_point a = element_point b)
              ((case ms of [] \<Rightarrow> [] | c # _ \<Rightarrow> edge_source_element n (edge c))
               @ concat (map (hop_elements n ms) (enumerate 0 (cp_interpolated cp)))
               @ (if ms = [] then [] else opt_list (path_element_new n (last ms))))\<rparr>)"

section \<open>The facade\<close>

definition DEFAULT_SEARCH_DISTANCE :: real where
  "DEFAULT_SEARCH_DISTANCE = 50"

text \<open>
  The options of a facade call. The cache is the answers it gives; \<open>None\<close> builds a fresh one,
  whose answers are the argument \<open>fresh\<close> of the calls below.
\<close>

record ('e, 'r) match_options =
  search_distance :: real
  runtime :: 'r
  solver :: solver_variant
  cache :: "('e \<Rightarrow> ('e \<times> 'e) list) option"

definition match_options_default :: "'r \<Rightarrow> ('e, 'r) match_options" where
  "match_options_default default_runtime =
     \<lparr>search_distance = DEFAULT_SEARCH_DISTANCE, runtime = default_runtime, solver = Fastest, cache = None\<rparr>"

definition with_runtime :: "('e, 'r) match_options \<Rightarrow> 'r \<Rightarrow> ('e, 'r) match_options" where
  "with_runtime opts r = opts\<lparr>runtime := r\<rparr>"

definition with_cache :: "('e, 'r) match_options \<Rightarrow> ('e \<Rightarrow> ('e \<times> 'e) list) \<Rightarrow> ('e, 'r) match_options" where
  "with_cache opts c = opts\<lparr>cache := Some c\<rparr>"

definition with_solver :: "('e, 'r) match_options \<Rightarrow> solver_variant \<Rightarrow> ('e, 'r) match_options" where
  "with_solver opts v = opts\<lparr>solver := v\<rparr>"

definition with_search_distance :: "('e, 'r) match_options \<Rightarrow> real option \<Rightarrow> ('e, 'r) match_options" where
  "with_search_distance opts d =
     opts\<lparr>search_distance := (case d of Some x \<Rightarrow> x | None \<Rightarrow> search_distance opts)\<rparr>"

definition facade_matcher ::
    "'p geo \<Rightarrow> ('e, 'p, 'm) network \<Rightarrow> 'p \<Rightarrow> ('r \<Rightarrow> 'e \<Rightarrow> ('e \<times> 'e) list) \<Rightarrow> ('e, 'r) match_options
      \<Rightarrow> ('e, 'p, 'm) matcher" where
  "facade_matcher g n null fresh opts =
     \<lparr>generator = standard_candidates g n default_emission_cost (search_distance opts),
      weigher_of = \<lparr>w_strategy = variant_strategy (solver opts), w_geo = g, w_net = n,
        w_query = (case cache opts of Some q \<Rightarrow> q | None \<Rightarrow> fresh (runtime opts)),
        w_cost = default_transition_cost g\<rparr>,
      null_point = null\<rparr>"

definition facade_match ::
    "'p geo \<Rightarrow> ('e, 'p, 'm) network \<Rightarrow> 'p \<Rightarrow> ('r \<Rightarrow> 'e \<Rightarrow> ('e \<times> 'e) list) \<Rightarrow> ('e, 'r) match_options \<Rightarrow> 'p list
      \<Rightarrow> (('e, 'p, 'm) routed_path, 'p match_error) outcome" where
  "facade_match g n null fresh opts ps =
     (case match_points (facade_matcher g n null fresh opts) ps of
        Ok cp \<Rightarrow> (case routed_path_new n cp of Some rp \<Rightarrow> Ok rp | None \<Rightarrow> Panic)
      | Err e \<Rightarrow> Err e
      | Panic \<Rightarrow> Panic)"

section \<open>Every hop of a solution is routed\<close>

lemma sequence_hops:
  "sequence_cost w st l ns = Some c \<Longrightarrow> Suc k < length ns \<Longrightarrow>
    \<exists>x. hop_cost w st (l + k) (ns ! k) (ns ! Suc k) = Some x"
proof (induction w st l ns arbitrary: c k rule: sequence_cost.induct)
  case (3 w st l a b ns)
  then show ?case by (cases k) (auto split: option.splits)
qed simp_all

lemma hop_cost_reach:
  "hop_cost w st l a b = Some x \<Longrightarrow> \<exists>r. weigher_reach w st (CandidateRef l a) (CandidateRef (Suc l) b) = Some r"
  by (auto simp: hop_cost_def hop_def split: if_splits option.splits)

lemma reach_ends:
  "weigher_reach w st a b = Some r \<Longrightarrow> reach_source r = a \<and> reach_target r = b"
  by (auto simp: weigher_reach_def expansion_reach_def reachable_direct_def reachable_new_def
      distance_only_def split: option.splits bool.splits)

lemma route_of_nth: "l < length (path_nodes p) \<Longrightarrow> route_of p ! l = CandidateRef l (path_nodes p ! l)"
  by (simp add: route_of_def nth_enumerate_eq)

lemma length_route_of [simp]: "length (route_of p) = length (path_nodes p)"
  by (simp add: route_of_def)

text \<open>The bridges of a cheapest sequence: one per hop, from its candidate to the next.\<close>

lemma cheapest_bridges:
  assumes "cheapest w st p"
  shows "\<exists>rs. List.map_filter (\<lambda>(a, b). weigher_reach w st a b) (windows2 (route_of p)) = rs
    \<and> length rs = length (route_of p) - 1
    \<and> (\<forall>k < length rs. weigher_reach w st (route_of p ! k) (route_of p ! Suc k) = Some (rs ! k))"
proof -
  let ?ns = "path_nodes p" and ?ws = "windows2 (route_of p)"
  let ?f = "\<lambda>(a, b). weigher_reach w st a b"
  have some: "\<exists>r. weigher_reach w st (route_of p ! k) (route_of p ! Suc k) = Some r" if "Suc k < length ?ns" for k
    using sequence_hops [of w st 0 ?ns "path_total p" k] assms that hop_cost_reach
    by (fastforce simp: cheapest_def route_of_nth)
  have "?f x = Some (the (?f x))" if x: "x \<in> set ?ws" for x
  proof -
    obtain k where k: "k < length ?ns - 1" "x = (route_of p ! k, route_of p ! Suc k)"
      using x by (auto simp: in_set_conv_nth)
    then show ?thesis using some [of k] by auto
  qed
  then have "List.map_filter ?f ?ws = map (\<lambda>x. the (?f x)) ?ws" by (rule map_filter_Some)
  moreover have "weigher_reach w st (route_of p ! k) (route_of p ! Suc k) = Some (map (\<lambda>x. the (?f x)) ?ws ! k)"
    if "k < length ?ns - 1" for k
    using some [of k] that by auto
  ultimately show ?thesis by auto
qed

section \<open>A matched trajectory\<close>

lemma extend_new_session: "extend_trip m trip_new ogs = (tr, r) \<Longrightarrow> session False m tr"
  using session.extended [OF session.start, of False m ogs] by simp

lemma match_points_cases:
  assumes gen: "generates_u32 m" and st: "cost_stable (weigher_of m)" and ne: "ps \<noteq> []"
  shows "case match_points m ps of
      Ok cp \<Rightarrow> length (cp_route cp) = length ps \<and> length (cp_interpolated cp) = length ps - 1
        \<and> (\<forall>k < length ps. \<exists>c. store_candidate (cp_candidates cp) (cp_route cp ! k) = Some c \<and> ref_layer (cp_route cp ! k) = k)
        \<and> (\<forall>k < length ps - 1. weigher_reach (weigher_of m) (cp_candidates cp) (cp_route cp ! k) (cp_route cp ! Suc k)
              = Some (cp_interpolated cp ! k))
        \<and> sequence_cost (weigher_of m) (cp_candidates cp) 0 (map ref_node (cp_route cp)) = Some (cp_cost cp)
        \<and> (\<forall>ns c. choice_ok (cp_candidates cp) ns \<longrightarrow> sequence_cost (weigher_of m) (cp_candidates cp) 0 ns = Some c
              \<longrightarrow> cp_cost cp \<le> c)
    | Err (Unanchored us) \<Rightarrow> set us = {\<lparr>unanchored_layer = i, unanchored_origin = ps ! i\<rparr> | i.
        i < length ps \<and> generator m (ps ! i) i = []}
    | Err (Disconnected ds) \<Rightarrow> True
    | Err e \<Rightarrow> False
    | Panic \<Rightarrow> False"
proof -
  define ogs where "ogs = map (\<lambda>(i, p). \<lparr>origin_point = p, timestamp = int i\<rparr>) (enumerate 0 ps)"
  have ogs: "length ogs = length ps" "\<And>i. i < length ps \<Longrightarrow> origin_point (ogs ! i) = ps ! i"
    by (simp_all add: ogs_def nth_enumerate_eq)
  have next0: "trip_next_id trip_new = 0" by (simp add: trip_next_id_def trip_new_def)
  show ?thesis
  proof (cases rule: extend_trip_cases [OF trip_new_ok gen, of ogs])
    case (1 us)
    have "match_points m ps = Err (Unanchored us)"
      using 1(1) by (simp add: match_points_def begin_trip_def ogs_def [symmetric] Let_def)
    then show ?thesis using 1(3) ogs by (auto simp: next0)
  next
    case (2 tr)
    have or: "origins tr = ogs" using 2(3) by (simp add: trip_new_def)
    have s: "session False m tr" by (rule extend_new_session [OF 2(1)])
    have ok: "trip_ok tr" "solved_by_viterbi tr" using session_ok [OF gen s] by auto
    have ne': "origins tr \<noteq> []" using ne ogs(1) or by auto
    have len: "length (candidates tr) = length ps" using ok(1) or ogs(1) by (simp add: trip_ok_def)
    note d = solve_decides [OF ok session_weighed [OF gen st s] ne']
    obtain tr' r where sol: "matcher_solve m tr = (tr', r)" by (cases "matcher_solve m tr")
    have cand: "candidates tr' = candidates tr" by (rule solve_keeps_trip(3) [OF ok(1) sol])
    have run: "match_points m ps = snd (snapshot m tr)"
      using 2(1) by (simp add: match_points_def begin_trip_def ogs_def [symmetric] Let_def)
    show ?thesis
    proof (cases r)
      case (Ok p)
      have ch: "cheapest (weigher_of m) (candidates tr) p" using d sol Ok by simp
      obtain rs where rs: "List.map_filter (\<lambda>(a, b). weigher_reach (weigher_of m) (candidates tr) a b)
          (windows2 (route_of p)) = rs" "length rs = length (route_of p) - 1"
        "\<forall>k < length rs. weigher_reach (weigher_of m) (candidates tr) (route_of p ! k) (route_of p ! Suc k) = Some (rs ! k)"
        using cheapest_bridges [OF ch] by blast
      have res: "match_points m ps = Ok \<lparr>cp_cost = path_total p, cp_route = route_of p, cp_interpolated = rs,
          cp_candidates = candidates tr\<rparr>"
        by (simp add: run snapshot_def collapse_def sol Ok cand rs(1) Let_def)
      have co: "choice_ok (candidates tr) (path_nodes p)" using ch by (simp add: cheapest_def)
      have "map ref_node (route_of p) = path_nodes p"
        by (intro nth_equalityI) (simp_all add: route_of_nth)
      then show ?thesis
        using ch co rs(2,3) len by (auto simp: res cheapest_def choice_ok_def route_of_nth store_candidate_Some)
    next
      case (Err e)
      then have "\<exists>ds. e = Disconnected ds" using d sol by (auto simp: report_breaks_def split: if_splits)
      then show ?thesis using Err by (auto simp: run snapshot_def collapse_def sol)
    next
      case Panic
      then show ?thesis using d sol by simp
    qed
  qed
qed

end
