(* ===== verification/Matcher_Theorems.thy ===== *)
theory Matcher_Theorems
  imports Routed Trellis_Theorems
begin

text \<open>
  The properties of the transition crate, each run on a small world: nodes on a line ten metres
  apart, one edge from each to the next, one candidate per point.
\<close>

section \<open>A small world\<close>

definition line_geo :: "nat geo" where
  "line_geo = \<lparr>haversine = (\<lambda>a b. \<bar>real a - real b\<bar>), bearing = (\<lambda>a b. if a \<le> b then 90 else 270),
     line_locate_point = (\<lambda>ls p. case ls of [a, b] \<Rightarrow> Some ((real p - real a) / (real b - real a)) | _ \<Rightarrow> None),
     point_at_ratio = (\<lambda>a b r. a), square_box = (\<lambda>p d. (p, p))\<rparr>"

definition line_edge :: "nat \<Rightarrow> nat edge" where
  "line_edge k = \<lparr>source = k, target = Suc k, weight = 1, edge_ident = EdgeId k Outgoing\<rparr>"

definition line_net :: "(nat, nat, unit) network" where
  "line_net = \<lparr>metadata = (\<lambda>k. Some ()), net_point = (\<lambda>k. Some (10 * k)),
     edges_outof = (\<lambda>k. [(k, Suc k, 1, EdgeId k Outgoing)]), edges_into = (\<lambda>k. [(k - 1, k, 1, EdgeId (k - 1) Outgoing)]),
     fatten = (\<lambda>e. None), edges_in_box = (\<lambda>b. []), nodes_in_box = (\<lambda>b. []),
     net_edge = (\<lambda>a b. if b = Suc a then Some (line_edge a) else None),
     nearest_node = (\<lambda>p. None), route_nodes = (\<lambda>a b. None)\<rparr>"

text \<open>Node \<open>9\<close> is off the map: no candidates there. From \<open>5\<close> on, nothing is reachable.\<close>

definition line_matcher :: "(nat, nat, unit) matcher" where
  "line_matcher = \<lparr>generator = (\<lambda>p l. if p = 9 then [] else
       [\<lparr>edge = line_edge p, position_on = 10 * p, emission = 3, location = CandidateRef l 0\<rparr>]),
     weigher_of = \<lparr>w_strategy = AllCompute, w_geo = line_geo, w_net = line_net,
       w_query = (\<lambda>k. if k \<ge> 5 then [(k, k)] else [(k, k), (Suc k, k)]), w_cost = (\<lambda>ctx. 7)\<rparr>,
     null_point = 0\<rparr>"

definition pt :: "nat \<Rightarrow> nat origin" where
  "pt k = \<lparr>origin_point = k, timestamp = 0\<rparr>"

lemma line_matcher_fits: "generates_u32 line_matcher" "cost_stable (weigher_of line_matcher)"
  by (simp_all add: generates_u32_def cost_stable_def line_matcher_def)

lemmas line_defs = line_matcher_def line_net_def line_geo_def line_edge_def pt_def

lemmas match_defs =
  match_points_def begin_trip_def extend_trip_def generate_def unanchored_points_def trip_next_id_def trip_new_def
  push_layer_def trellis_new_def u32_sum_def stamp_def fill_nodes_def node_range_def layer_ranges_def range_len_def
  put_slice_def store_push_layer_def add_layer_def layers_def Let_def 

lemmas solve_defs =
  matcher_solve_def weigh_def trellis_boundaries_def is_resolved_def weigh_boundary_def store_layer_def
  weigh_source_def hop_def weigher_reach_def expansion_reach_def store_candidate_def directly_reachable_def
  expansion_route_def parent_path_def collect_map_def reachable_new_def transition_context_new_def
  with_resolution_method_def fill_transition_def disconnections_def trellis_solve_def List.map_filter_def

definition two_points :: "(nat, nat) trip" where
  "two_points = fst (extend_trip line_matcher trip_new [pt 0, pt 2])"

lemma two_points_eq: "extend_trip line_matcher trip_new [pt 0, pt 2] =
   (\<lparr>origins = [pt 0, pt 2],
     candidates = [[\<lparr>edge = line_edge 0, position_on = 0, emission = 3, location = CandidateRef 0 0\<rparr>],
       [\<lparr>edge = line_edge 2, position_on = 20, emission = 3, location = CandidateRef 1 0\<rparr>]],
     state = Building \<lparr>widths = [1, 1], node_table = [3, 3], transitions = [Pending]\<rparr>\<rparr>, Ok ())"
  by (simp add: match_defs line_defs MAX_WEIGHT_def INF_W_num u32_add_def)

lemma two_points_solved: "matcher_solve line_matcher two_points =
   (two_points\<lparr>state := Solved \<lparr>solved_trellis = \<lparr>widths = [1, 1], node_table = [3, 3], transitions = [Resolved [7]]\<rparr>,
      solved_path = \<lparr>path_nodes = [0, 0], path_total = 13\<rparr>\<rparr>\<rparr>, Ok \<lparr>path_nodes = [0, 0], path_total = 13\<rparr>)"
  unfolding two_points_def two_points_eq
  by (simp add: solve_defs run_defs line_defs numeral_2_eq_2 NO_EDGE_def MAX_WEIGHT_def)

lemma two_points_session: "session v line_matcher two_points"
  unfolding two_points_def by (intro session.intros)

lemma two_points_shape: "origins two_points = [pt 0, pt 2]" "length (candidates two_points) = 2"
    "trip_next_id two_points = 2"
  by (simp_all add: two_points_def two_points_eq trip_next_id_def)

section \<open>Matching\<close>

text \<open>
  (C9) A batch match of a non-empty trajectory never panics. When it succeeds it names one existing
  candidate per input point, in order, routes every hop between neighbouring candidates, and its
  cost is the least over all choices of one candidate per point, where a choice costs its emissions
  and the weigher's hop costs. When points have no candidates it fails with exactly those points;
  the only other failure is a disconnection.
\<close>

theorem match_is_cheapest:
  assumes "generates_u32 m" and "cost_stable (weigher_of m)" and "ps \<noteq> []"
  shows "case match_points m ps of
      Ok cp \<Rightarrow> length (cp_route cp) = length ps \<and> length (cp_interpolated cp) = length ps - 1
        \<and> (\<forall>k < length ps. \<exists>c. store_candidate (cp_candidates cp) (cp_route cp ! k) = Some c \<and> ref_layer (cp_route cp ! k) = k)
        \<and> (\<forall>k < length ps - 1. weigher_reach (weigher_of m) (cp_candidates cp) (cp_route cp ! k) (cp_route cp ! Suc k)
              = Some (cp_interpolated cp ! k))
        \<and> sequence_cost (weigher_of m) (cp_candidates cp) 0 (map ref_node (cp_route cp)) = Some (cp_cost cp)
        \<and> (\<forall>ns c. choice_ok (cp_candidates cp) ns \<longrightarrow> sequence_cost (weigher_of m) (cp_candidates cp) 0 ns = Some c
              \<longrightarrow> cp_cost cp \<le> c)
    | Err (Unanchored us) \<Rightarrow> set us = {\<lparr>unanchored_layer = i, unanchored_origin = ps ! i\<rparr> | i.
        i < length ps \<and> generator m (ps ! i) i = []}
    | Err (Disconnected ds) \<Rightarrow> True
    | Err e \<Rightarrow> False
    | Panic \<Rightarrow> False"
  by (rule match_points_cases [OF assms])

theorem match_is_cheapest_witness:
  "\<exists>us. match_points line_matcher [0, 9] = Err (Unanchored us) \<and> set us = {\<lparr>unanchored_layer = 1, unanchored_origin = 9\<rparr>}"
proof -
  have "match_points line_matcher [0, 9] = Err (Unanchored [\<lparr>unanchored_layer = 1, unanchored_origin = 9\<rparr>])"
    by (simp add: match_defs line_defs)
  then show ?thesis
    using match_is_cheapest [OF line_matcher_fits, of "[0, 9]"] by simp
qed

text \<open>
  (C10) What a solve decides, for any trip grown by one matcher. Its gaps are the boundaries the
  weigher cannot bridge. A solve succeeds only without gaps, with a cheapest choice of candidates;
  with gaps it reports exactly those, in order; and when it reports a break without a gap, every
  choice of candidates costs at least the infinity marker.
\<close>

theorem solve_decides_connectivity:
  assumes "generates_u32 m" and "cost_stable (weigher_of m)" and "session False m tr" and "origins tr \<noteq> []"
  shows "case snd (matcher_solve m tr) of
      Ok p \<Rightarrow> gaps (weigher_of m) (candidates tr) = [] \<and> cheapest (weigher_of m) (candidates tr) p
    | Err e \<Rightarrow>
        (if gaps (weigher_of m) (candidates tr) \<noteq> []
         then e = report_breaks m tr (gaps (weigher_of m) (candidates tr))
         else (\<exists>bs. e = report_breaks m tr bs)
           \<and> (\<forall>ns c. choice_ok (candidates tr) ns \<longrightarrow> sequence_cost (weigher_of m) (candidates tr) 0 ns = Some c
                \<longrightarrow> INF_W \<le> c))
    | Panic \<Rightarrow> False"
  using solve_decides [OF _ _ session_weighed [OF assms(1-3)] assms(4)] session_ok [OF assms(1,3)] by blast

theorem solve_decides_connectivity_witness:
  "snd (matcher_solve line_matcher two_points) = Ok \<lparr>path_nodes = [0, 0], path_total = 13\<rparr>
    \<and> cheapest (weigher_of line_matcher) (candidates two_points) \<lparr>path_nodes = [0, 0], path_total = 13\<rparr>"
  using solve_decides_connectivity [OF line_matcher_fits two_points_session]
  by (simp add: two_points_solved two_points_shape)

text \<open>
  (C11) Whatever a caller does with a trip (push, extend, solve, cut to its tail, in any order), it
  stays well-formed: origins, candidates and trellis agree layer by layer and a held solution is a
  certificate. No operation on it panics, and solving it twice changes nothing more.
\<close>

theorem session_invariant:
  assumes "generates_u32 m" and "session v m tr"
  shows "trip_ok tr \<and> snd (push m tr og) \<noteq> Panic \<and> snd (extend_trip m tr ogs) \<noteq> Panic
    \<and> snd (matcher_solve m tr) \<noteq> Panic \<and> trip_tail n tr \<noteq> None
    \<and> (\<forall>tr' p. matcher_solve m tr = (tr', Ok p) \<longrightarrow> matcher_solve m tr' = (tr', Ok p))"
proof -
  have ok: "trip_ok tr" using session_ok [OF assms] by simp
  have "snd (push m tr og) \<noteq> Panic" by (cases rule: push_cases [OF ok assms(1), of og]) auto
  moreover have "snd (extend_trip m tr ogs) \<noteq> Panic" by (cases rule: extend_trip_cases [OF ok assms(1), of ogs]) auto
  moreover have "snd (matcher_solve m tr) \<noteq> Panic"
    using solve_keeps_trip(4) [OF ok, of m] by (metis prod.collapse)
  moreover have "matcher_solve m tr' = (tr', Ok p)" if "matcher_solve m tr = (tr', Ok p)" for tr' p
    using solve_keeps_trip(5) [OF ok that] by (auto simp: matcher_solve_def)
  moreover have "trip_tail n tr \<noteq> None" using trip_tail_ok [OF ok, of n] by auto
  ultimately show ?thesis using ok by blast
qed

theorem session_invariant_witness:
  "trip_ok two_points \<and> trip_tail 1 two_points \<noteq> None
    \<and> matcher_solve line_matcher (fst (matcher_solve line_matcher two_points)) = matcher_solve line_matcher two_points"
proof -
  obtain tr' p where s: "matcher_solve line_matcher two_points = (tr', Ok p)" by (simp add: two_points_solved)
  with session_invariant [OF line_matcher_fits(1) two_points_session, where n = 1] show ?thesis by simp
qed

text \<open>
  (C12) Extending a trip is all or nothing: when a point has no candidates the trip is returned
  unchanged with exactly those points, at the layers they would have had; otherwise every origin
  is appended, the old candidates stay in place and the old trellis is a prefix of the new one.
\<close>

theorem extend_all_or_nothing:
  assumes "generates_u32 m" and "session v m tr"
  shows "case extend_trip m tr ogs of
      (tr', Err (Unanchored us)) \<Rightarrow> tr' = tr \<and> us \<noteq> []
        \<and> set us = {\<lparr>unanchored_layer = length (origins tr) + i, unanchored_origin = origin_point (ogs ! i)\<rparr> | i.
             i < length ogs \<and> generator m (origin_point (ogs ! i)) (length (origins tr) + i) = []}
    | (tr', Ok u) \<Rightarrow> trip_ok tr' \<and> origins tr' = origins tr @ ogs
        \<and> (\<exists>added. candidates tr' = candidates tr @ added)
        \<and> (\<forall>t. trip_trellis tr = Some t \<longrightarrow> (\<exists>t'. trip_trellis tr' = Some t' \<and> extends t t'))
    | _ \<Rightarrow> False"
proof -
  have ok: "trip_ok tr" using session_ok [OF assms] by simp
  show ?thesis
    by (cases rule: extend_trip_cases [OF ok assms(1), of ogs]) (simp_all add: trip_next_id_def)
qed

theorem extend_all_or_nothing_witness:
  "\<exists>us. extend_trip line_matcher two_points [pt 1, pt 9] = (two_points, Err (Unanchored us))
    \<and> set us = {\<lparr>unanchored_layer = 3, unanchored_origin = 9\<rparr>}"
proof -
  have "snd (extend_trip line_matcher two_points [pt 1, pt 9]) = Err (Unanchored [\<lparr>unanchored_layer = 3, unanchored_origin = 9\<rparr>])"
    by (simp add: two_points_shape match_defs [unfolded trip_next_id_def] line_defs)
  then show ?thesis
    using extend_all_or_nothing [OF line_matcher_fits(1) two_points_session, of "[pt 1, pt 9]"]
    by (cases "extend_trip line_matcher two_points [pt 1, pt 9]") simp
qed

section \<open>Streaming\<close>

lemma three_points_run:
  "extend_trip line_matcher (fst (matcher_solve line_matcher two_points)) [pt 4] =
   (\<lparr>origins = [pt 0, pt 2, pt 4],
     candidates = candidates two_points @
       [[\<lparr>edge = line_edge 4, position_on = 40, emission = 3, location = CandidateRef 2 0\<rparr>]],
     state = Building \<lparr>widths = [1, 1, 1], node_table = [3, 3, 3], transitions = [Resolved [7], Pending]\<rparr>\<rparr>, Ok ())"
  unfolding two_points_solved fst_conv unfolding two_points_def two_points_eq
  by (simp add: match_defs line_defs solved_append_def MAX_WEIGHT_def INF_W_num u32_add_def numeral_2_eq_2)

definition three_points :: "(nat, nat) trip" where
  "three_points = fst (extend_trip line_matcher (fst (matcher_solve line_matcher two_points)) [pt 4])"

lemma three_points_solved:
  "snd (matcher_solve line_matcher three_points) = Ok \<lparr>path_nodes = [0, 0, 0], path_total = 23\<rparr>"
  unfolding three_points_def unfolding three_points_run fst_conv unfolding two_points_def two_points_eq
  by (simp add: solve_defs run_defs line_defs numeral_2_eq_2 NO_EDGE_def MAX_WEIGHT_def)

lemma two_points_converged:
  "matcher_convergence (fst (matcher_solve line_matcher two_points)) = Ok (Some 1)"
  unfolding two_points_solved by (simp add: matcher_convergence_def trip_trellis_def run_defs)

text \<open>
  (C13) A converged prefix is final: once a solved trip converges at a layer, extending the trip by
  any further observations and solving again returns a path that agrees with the old one up to
  and including that layer.
\<close>

theorem streamed_prefix_is_final:
  assumes "generates_u32 m" and "session v m tr" and "matcher_solve m tr = (tr1, Ok p)"
    and "matcher_convergence tr1 = Ok (Some l)" and "extend_trip m tr1 ogs = (tr2, Ok ())"
    and "matcher_solve m tr2 = (tr3, Ok p')"
  shows "take (Suc l) (path_nodes p') = take (Suc l) (path_nodes p)"
proof -
  have s1: "session v m tr1" using session.solved [OF assms(2)] assms(3) by simp
  have s2: "session v m tr2" using session.extended [OF s1, of ogs] assms(5) by simp
  note ok = session_ok [OF assms(1,2)] and ok1 = session_ok [OF assms(1) s1] and ok2 = session_ok [OF assms(1) s2]
  obtain t1 where t1: "trip_trellis tr1 = Some t1" "viterbi_solve t1 = Ok p" "trellis_ok t1" "fully_resolved t1"
    using solve_Ok_trellis [OF conjunct1 [OF ok] conjunct2 [OF ok] assms(3)] by blast
  have conv: "convergence t1 = Ok (Some l)" using assms(4) t1(1) by (simp add: matcher_convergence_def)
  obtain t2 where t2: "trip_trellis tr2 = Some t2" "extends t1 t2"
    using extend_all_or_nothing [OF assms(1) s1, of ogs] assms(5) t1(1) by auto
  obtain t3 where "viterbi_solve t3 = Ok p'" "trellis_ok t3" "extends t1 t3"
    using solve_grown [OF conjunct1 [OF ok2] conjunct2 [OF ok2] t2 t1(3,4) assms(6)] by blast
  then show ?thesis using converged_prefix [OF t1(3) conv _ _ t1(2)] by blast
qed

theorem streamed_prefix_is_final_witness:
  "take 2 (path_nodes \<lparr>path_nodes = [0, 0, 0], path_total = 23\<rparr>) = take 2 (path_nodes \<lparr>path_nodes = [0, 0], path_total = 13\<rparr>)
    \<and> snd (matcher_solve line_matcher three_points) = Ok \<lparr>path_nodes = [0, 0, 0], path_total = 23\<rparr>"
proof -
  obtain tr3 where "matcher_solve line_matcher three_points = (tr3, Ok \<lparr>path_nodes = [0, 0, 0], path_total = 23\<rparr>)"
    using three_points_solved by (cases "matcher_solve line_matcher three_points") simp
  moreover have "extend_trip line_matcher (fst (matcher_solve line_matcher two_points)) [pt 4] = (three_points, Ok ())"
    by (simp add: three_points_def three_points_run)
  ultimately show ?thesis
    using streamed_prefix_is_final [OF line_matcher_fits(1) two_points_session two_points_solved, of 1 "[pt 4]"]
      two_points_converged [unfolded two_points_solved fst_conv] unfolding two_points_solved fst_conv
    by (simp add: numeral_2_eq_2)
qed

text \<open>
  Solving weighs only what is pending: whatever a solve answers, the trip keeps its origins and
  candidates, and every boundary that was resolved before carries the same weights after.
\<close>

theorem solve_weighs_only_pending:
  assumes "generates_u32 m" and "session v m tr" and "trip_trellis tr = Some t" and "is_resolved t k"
  shows "origins (fst (matcher_solve m tr)) = origins tr \<and> candidates (fst (matcher_solve m tr)) = candidates tr
    \<and> (\<exists>t'. trip_trellis (fst (matcher_solve m tr)) = Some t' \<and> transitions t' ! k = transitions t ! k)"
proof -
  have ok: "trip_ok tr" using session_ok [OF assms(1,2)] by simp
  obtain tr' r where s: "matcher_solve m tr = (tr', r)" by (cases "matcher_solve m tr")
  show ?thesis
    using solve_keeps_trip(2,3) [OF ok s] solve_keeps_resolved [OF ok s assms(3,4)] by (simp add: s)
qed

theorem solve_weighs_only_pending_witness:
  "origins (fst (matcher_solve line_matcher three_points)) = origins three_points
    \<and> (\<exists>t'. trip_trellis (fst (matcher_solve line_matcher three_points)) = Some t' \<and> transitions t' ! 0 = Resolved [7])"
proof -
  have "session False line_matcher three_points"
    unfolding three_points_def by (rule session.extended [OF session.solved [OF two_points_session]])
  moreover have "trip_trellis three_points =
      Some \<lparr>widths = [1, 1, 1], node_table = [3, 3, 3], transitions = [Resolved [7], Pending]\<rparr>"
    unfolding three_points_def three_points_run by (simp add: trip_trellis_def)
  ultimately show ?thesis
    using solve_weighs_only_pending [OF line_matcher_fits(1), of False three_points _ 0] by (simp add: is_resolved_def)
qed

section \<open>Locating a cut\<close>

text \<open>
  (C14) The walk that locates the cut of a weighed trellis: it reports no break exactly when some
  chain of present edges crosses the whole trellis, and the first break it reports is the first
  boundary no such chain from the first layer gets across.
\<close>

theorem first_break_exact:
  assumes "trellis_ok t" and "fully_resolved t"
  shows "case frontier_collapse t of
      [] \<Rightarrow> \<exists>ns. present_path t (layers t - 1) ns
    | b # bs \<Rightarrow> Suc b < layers t \<and> (\<exists>ns. present_path t b ns) \<and> \<not> (\<exists>ns. present_path t (Suc b) ns)
        \<and> \<not> (\<exists>ns. present_path t (layers t - 1) ns)"
proof (cases "frontier_collapse t")
  case (Cons b bs)
  then show ?thesis
    using frontier_collapse_spec(2) [OF assms Cons] frontier_collapse_spec(1) [OF assms] by simp
qed (use frontier_collapse_spec(1) [OF assms] in simp)

definition cut_trellis :: trellis where
  "cut_trellis = \<lparr>widths = [1, 2, 1], node_table = [0, 0, 0, 0],
     transitions = [Resolved [5, INF_W], Resolved [INF_W, 4]]\<rparr>"

theorem first_break_exact_witness:
  "frontier_collapse cut_trellis = [1] \<and> (\<exists>ns. present_path cut_trellis 1 ns) \<and> \<not> (\<exists>ns. present_path cut_trellis 2 ns)"
proof -
  have "trellis_ok cut_trellis" "fully_resolved cut_trellis"
    by (simp_all add: cut_trellis_def query_defs All_less_Suc numeral_2_eq_2)
  moreover have "frontier_collapse cut_trellis = [1]"
    by (simp add: cut_trellis_def frontier_collapse_def trellis_boundaries_def trellis_layer_def MAX_WEIGHT_def
        INF_W_num numeral_2_eq_2 Let_def)
  ultimately show ?thesis using first_break_exact [of cut_trellis] by (simp add: numeral_2_eq_2)
qed

end
