(* ===== verification/Reach_Theorems.thy ===== *)
theory Reach_Theorems
  imports Matcher_Theorems
begin

text \<open>
  The properties of reachability, of its caches, of the costs and of target selection. The sample
  graph has the nodes 0 to 3 in a row.
\<close>

section \<open>The bounded search\<close>

definition row_succs :: "nat \<Rightarrow> (nat \<times> wad) list" where
  "row_succs k = (if k < 3 then [(Suc k, \<lparr>numerator = 1, denominator = 1, distance_cm = 1000\<rparr>)] else [])"

lemma row_closed: "finite {0..<4::nat}" "closed_under row_succs {0..<4}"
  by (auto simp: closed_under_def row_succs_def)

lemma row_agrees: "edges_agree line_net row_succs"
  by (auto simp: edges_agree_def row_succs_def line_net_def line_edge_def)

lemma row_search:
  "predicates_calculate pop_min row_succs 25 0 (Suc (Suc (Suc (Suc (Suc 0))))) 1 = Some (Some [(1, 0), (2, 1), (3, 2)])"
  by (simp add: predicates_calculate_def dijkstra_reach_def dijkstra_next_def pop_min_def
      row_succs_def relax_successor_def wad_add_def wad_zero_def wad_repr_def wad_weight_def
      wad_metres_def u32_add_def parent_entry_def Let_def)

text \<open>
  (C16) The bounded search over a finite graph terminates without a panic, whatever order the heap
  pops equal costs in: a node count of fuel is enough. It settles each node at most once, starting
  from the root, every other node with a parent settled earlier and an edge from that parent, and
  keeps only nodes within reach.
\<close>

theorem bounded_search_terminates:
  assumes "cost_heap pop" and "finite V" and "closed_under succs V" and "key \<in> V" and "card V < fuel"
  shows "\<exists>items. predicates_calculate pop succs reach fallback fuel key = Some (Some (map (parent_entry fallback) items))
    \<and> emitted succs key {} items \<and> distinct (map item_node items)
    \<and> (\<forall>it \<in> set items. wad_metres (item_cost it) < reach)"
proof -
  obtain items where i: "predicates_calculate pop succs reach fallback fuel key = Some (Some (map (parent_entry fallback) items))"
    "emitted succs key {} items" "\<forall>it \<in> set items. wad_metres (item_cost it) < reach"
    using cost_heap.predicates_spec [OF assms, of reach fallback] by (elim exE conjE) rule
  show ?thesis by (intro exI [of _ items] conjI i emitted_distinct(1) [OF i(2)])
qed

theorem bounded_search_terminates_witness:
  "\<exists>items. [(1, 0), (2, 1), (3, 2)] = map (parent_entry 0) items \<and> emitted row_succs 1 {} items"
proof -
  have "card {0..<4::nat} < Suc (Suc (Suc (Suc (Suc 0))))" by simp
  from bounded_search_terminates [OF list_heap.cost_heap_axioms row_closed _ this, of 1 25 0]
  obtain items where "predicates_calculate pop_min row_succs 25 0 (Suc (Suc (Suc (Suc (Suc 0))))) 1
      = Some (Some (map (parent_entry 0) items))" "emitted row_succs 1 {} items" by auto
  then show ?thesis unfolding row_search option.inject by (intro exI [of _ items]) simp
qed

text \<open>
  (C17) A routed hop is a walk on the network: when the expansion of one candidate into another
  returns road edges, they are consecutive edges of a node sequence that starts at the end of the
  source candidate's edge, finishes at the start of the target candidate's edge, and follows
  successors all the way.
\<close>

theorem route_is_connected:
  assumes "cost_heap pop" and "finite V" and "closed_under succs V" and "target (edge c) \<in> V" and "card V < fuel"
    and "edges_agree n succs"
    and "predicates_calculate pop succs reach fallback fuel (target (edge c)) = Some (Some (query (target (edge c))))"
    and "expansion_route n query c c' = Some es"
  shows "\<exists>ns. ns \<noteq> [] \<and> hd ns = target (edge c) \<and> last ns = source (edge c') \<and> linked succs ns
    \<and> map (\<lambda>e. (source e, target e)) es = windows2 ns"
  by (rule cost_heap.route_connected [OF assms])

theorem route_is_connected_witness:
  "\<exists>ns. hd ns = 1 \<and> last ns = 3 \<and> linked row_succs ns
    \<and> map (\<lambda>e. (source e, target e)) [line_edge 1, line_edge 2] = windows2 ns"
proof -
  let ?c = "\<lparr>edge = line_edge 0, position_on = 0, emission = 3, location = CandidateRef 0 0\<rparr>"
  let ?c' = "\<lparr>edge = line_edge 3, position_on = 30, emission = 3, location = CandidateRef 1 0\<rparr>"
  let ?q = "\<lambda>k. if k = 1 then [(1, 0), (2, 1), (3, 2)] else ([] :: (nat \<times> nat) list)"
  have fuel: "card {0..<4::nat} < Suc (Suc (Suc (Suc (Suc 0))))" by simp
  have "expansion_route line_net ?q ?c ?c' = Some [line_edge 1, line_edge 2]"
    by (simp add: expansion_route_def parent_path_def collect_map_def line_net_def line_edge_def
        List.map_filter_def numeral_2_eq_2 numeral_3_eq_3 Let_def)
  from route_is_connected [OF list_heap.cost_heap_axioms row_closed _ fuel row_agrees _ this, of 25 0]
  show ?thesis unfolding line_edge_def edge.simps candidate.simps using row_search by auto
qed

text \<open>
  The accumulated cost of a longer path can be the smaller one: averaging in a light edge divides
  the squared weight by more than the distance grows.
\<close>

lemma longer_can_be_cheaper:
  "wad_repr (wad_add \<lparr>numerator = 10, denominator = 1, distance_cm = 100\<rparr> \<lparr>numerator = 1, denominator = 1, distance_cm = 1\<rparr>)
    < wad_repr \<lparr>numerator = 10, denominator = 1, distance_cm = 100\<rparr>"
proof -
  have "(11::nat) div 2 = 5" by simp
  then show ?thesis by (simp add: wad_repr_def wad_add_def wad_weight_def u32_add_def del: One_nat_def)
qed

section \<open>Caches\<close>

text \<open>
  (C18) The predicate cache is transparent to the runtime it is bound to: from an empty cache on,
  every query under that runtime answers what the search would, whatever the container evicts.
  Under another runtime a miss panics, and a hit answers for the runtime the cache is bound to.
\<close>

theorem predicate_cache_transparent:
  assumes "evicting put" and "pc_coherent calculate pc"
  shows "(pc_bound pc \<in> {None, Some r} \<longrightarrow>
        fst (predicate_query put calculate r pc key) = Ok (calculate r key)
        \<and> pc_coherent calculate (snd (predicate_query put calculate r pc key))
        \<and> pc_bound (snd (predicate_query put calculate r pc key)) \<in> {None, Some r})
    \<and> (\<forall>b. pc_bound pc = Some b \<longrightarrow> b \<noteq> r \<longrightarrow> fst (predicate_query put calculate r pc key)
        = (case pc_entries pc key of None \<Rightarrow> Panic | Some v \<Rightarrow> Ok (calculate b key)))"
proof -
  have "pc_entries pc key = Some v \<Longrightarrow> pc_bound pc = Some b \<Longrightarrow> v = calculate b key" for v b
    using assms(2) by (simp add: pc_coherent_def coherent_def)
  then show ?thesis
    using predicate_query_bound [OF assms, of r key] by (auto simp: predicate_query_def split: option.splits)
qed

definition fun_put :: "('k \<rightharpoonup> 'v) \<Rightarrow> 'k \<Rightarrow> 'v \<Rightarrow> ('k \<rightharpoonup> 'v)" where
  "fun_put c k v = [k \<mapsto> v]"

theorem predicate_cache_transparent_witness:
  "let calc = (\<lambda>r k. r + k); pc = snd (predicate_query fun_put calc (2::nat) predicate_cache_new 3)
   in fst (predicate_query fun_put calc 2 pc 3) = Ok 5 \<and> fst (predicate_query fun_put calc 4 pc 3) = Ok 5
    \<and> fst (predicate_query fun_put calc 4 pc 1) = Panic"
proof -
  let ?calc = "\<lambda>r k. r + k :: nat"
  let ?pc = "snd (predicate_query fun_put ?calc 2 predicate_cache_new 3)"
  have ev: "evicting (fun_put :: (nat \<rightharpoonup> nat) \<Rightarrow> _)" by (auto simp: evicting_def fun_put_def map_le_def)
  have new: "pc_coherent ?calc predicate_cache_new" by (simp add: pc_coherent_def predicate_cache_new_def)
  have pc: "pc_coherent ?calc ?pc"
    using predicate_cache_transparent [OF ev new, of 2 3] by (simp add: predicate_cache_new_def)
  have b: "pc_bound ?pc = Some 2" "pc_entries ?pc 3 = Some 5" "pc_entries ?pc 1 = None"
    by (simp_all add: predicate_query_def predicate_cache_new_def fun_put_def Let_def)
  show ?thesis
    using predicate_cache_transparent [OF ev pc, of 2 3] predicate_cache_transparent [OF ev pc, of 4 3]
      predicate_cache_transparent [OF ev pc, of 4 1] b by (simp add: Let_def)
qed

section \<open>Costs\<close>

text \<open>
  The default costs are tame: an emission or a well-defined transition costs between 100 and
  100,000,000, which is below the ceiling of the trellis, so clamping never changes it; and a
  candidate further from its point never costs less.
\<close>

theorem default_costs_bounded:
  assumes "d \<le> d'" and "transition_calculate g ctx \<noteq> NaN"
  shows "100 \<le> default_emission_cost a b d w \<and> default_emission_cost a b d w \<le> 100000000
    \<and> 100 \<le> default_transition_cost g ctx \<and> default_transition_cost g ctx \<le> 100000000
    \<and> 100000000 < MAX_WEIGHT
    \<and> default_emission_cost a b d w \<le> default_emission_cost a b d' w"
proof -
  have e: "default_emission_cost a b x w = strategy_cost 1 1 (Real (exp (- sqrt (x / 25))))" for x
    by (simp add: default_emission_cost_def emission_calculate_def DEFAULT_EMISSION_ERROR_def)
  obtain v where v: "default_transition_cost g ctx = strategy_cost 1 1 (Real v)"
    using assms(2) by (cases "transition_calculate g ctx") (auto simp: default_transition_cost_def unit_cost_absent)
  have "default_emission_cost a b d w \<le> default_emission_cost a b d' w"
    unfolding e by (intro unit_cost_antimono emission_decreasing assms(1)) simp
  then show ?thesis using unit_cost_bounds by (simp add: e v MAX_WEIGHT_def INF_W_num)
qed

definition lost_context :: "(nat, nat) transition_context" where
  "lost_context = \<lparr>optimal_path = [], source_position = 0, target_position = 0, map_nodes = [],
     source_candidate = CandidateRef 0 0, target_candidate = CandidateRef 1 0, ctx_candidates = [],
     requested_method = Standard, source_heading = None, target_heading = None, source_tail = None, target_tail = None\<rparr>"

theorem default_costs_bounded_witness:
  "default_emission_cost (0::nat) 0 5 1 \<le> default_emission_cost (0::nat) 0 20 1
    \<and> 100 \<le> default_transition_cost line_geo lost_context"
proof -
  have "transition_calculate line_geo lost_context \<noteq> NaN"
    by (simp add: transition_calculate_def lost_context_def store_candidate_def store_layer_def)
  from default_costs_bounded [OF _ this, of 5 20 "0::nat" 0 1] show ?thesis by simp
qed

text \<open>
  Turning angles are normalised: the difference of two headings lies in (-180, 180], differs
  from the plain difference by whole turns, and the turn complexity of any path is in [0, 1].
\<close>

theorem turning_angles_normalised:
  "- 180 < heading_delta p c \<and> heading_delta p c \<le> 180
    \<and> (\<exists>k::int. heading_delta p c = c - p + 360 * of_int k)
    \<and> 0 \<le> angular_complexity_with_headings g path a b s t \<and> angular_complexity_with_headings g path a b s t \<le> 1"
  using heading_delta_range heading_delta_congruent complexity_bounds
  by (simp add: angular_complexity_with_headings_def Let_def)

section \<open>Selecting targets\<close>

text \<open>
  The selective strategy keeps at most its fan-out of distinct, existing targets (all of them
  when there are no more), and every target it drops is at least as far as every target it keeps.
\<close>

theorem selective_keeps_nearest:
  "distinct (select_targets (Selective fanout) g c tos)
    \<and> length (select_targets (Selective fanout) g c tos) = min fanout (length tos)
    \<and> set (select_targets (Selective fanout) g c tos) \<subseteq> {..<length tos}
    \<and> (\<forall>i j. i \<in> set (select_targets (Selective fanout) g c tos) \<and> j < length tos
        \<and> j \<notin> set (select_targets (Selective fanout) g c tos) \<longrightarrow>
        haversine g (position_on c) (position_on (tos ! i)) \<le> haversine g (position_on c) (position_on (tos ! j)))"
proof (cases "length tos > fanout")
  case True
  define away where "away i = haversine g (position_on c) (position_on (tos ! i))" for i
  let ?s = "sort_key away [0..<length tos]"
  have sel: "select_targets (Selective fanout) g c tos = take fanout ?s" using True by (simp add: away_def [abs_def])
  have "away i \<le> away j" if ij: "i \<in> set (take fanout ?s)" "j < length tos" "j \<notin> set (take fanout ?s)" for i j
  proof -
    have "j \<in> set (take fanout ?s @ drop fanout ?s)" using ij(2) by simp
    then have "j \<in> set (drop fanout ?s)" using ij(3) unfolding set_append by blast
    moreover have "sorted (map away (take fanout ?s @ drop fanout ?s))" by (simp only: append_take_drop_id sorted_sort_key)
    ultimately show ?thesis using ij(1) unfolding map_append sorted_append by auto
  qed
  moreover have "set (take fanout ?s) \<subseteq> {..<length tos}" using set_take_subset [of fanout ?s] by auto
  ultimately show ?thesis using True unfolding sel away_def [symmetric] by (auto simp: distinct_take)
qed auto

definition target_at :: "nat \<Rightarrow> (nat, nat) candidate" where
  "target_at p = \<lparr>edge = line_edge 0, position_on = p, emission = 3, location = CandidateRef 0 0\<rparr>"

theorem selective_keeps_nearest_witness:
  "select_targets (Selective 1) line_geo (target_at 0) [target_at 30, target_at 20] = [1]
    \<and> haversine line_geo (position_on (target_at 0)) (position_on ([target_at 30, target_at 20] ! 1))
      \<le> haversine line_geo (position_on (target_at 0)) (position_on ([target_at 30, target_at 20] ! 0))"
proof -
  have "select_targets (Selective 1) line_geo (target_at 0) [target_at 30, target_at 20] = [1]"
    by (simp add: target_at_def line_geo_def)
  moreover from this have "1 \<in> set (select_targets (Selective 1) line_geo (target_at 0) [target_at 30, target_at 20])"
    "0 \<notin> set (select_targets (Selective 1) line_geo (target_at 0) [target_at 30, target_at 20])" by simp_all
  ultimately show ?thesis
    using selective_keeps_nearest [of 1 line_geo "target_at 0" "[target_at 30, target_at 20]"]
    by (metis length_Cons zero_less_Suc)
qed

end
