(* ===== verification/Strategy.thy ===== *)
theory Strategy
  imports Prelude Complex_Main
begin

text \<open>
  What a sharding strategy promises (\<open>routers_shard\<close>, \<open>strategy/mod.rs\<close>): a point has one cell, cells
  tile the world, and the neighbours of a cell are found by probing just past its edges. Coordinates
  are reals: every midpoint of the world rectangle down to the deepest cell is a binary fraction of
  45 that a float represents exactly.
\<close>

section \<open>Rectangles\<close>

type_synonym point = "real \<times> real"

record rect =
  min_x :: real
  min_y :: real
  max_x :: real
  max_y :: real

definition world :: rect where
  "world = \<lparr>min_x = - 180, min_y = - 90, max_x = 180, max_y = 90\<rparr>"

definition rect_contains :: "rect \<Rightarrow> point \<Rightarrow> bool" where
  "rect_contains r p = (fst p \<ge> min_x r \<and> fst p \<le> max_x r \<and> snd p \<ge> min_y r \<and> snd p \<le> max_y r)"

text \<open>\<open>ShardingStrategy::contains\<close>.\<close>

definition strategy_contains :: "('id \<Rightarrow> rect) \<Rightarrow> 'id \<Rightarrow> point \<Rightarrow> bool" where
  "strategy_contains bounds i p = rect_contains (bounds i) p"

definition clamp_world :: "point \<Rightarrow> point" where
  "clamp_world p = (max (- 180) (min 180 (fst p)), max (- 90) (min 90 (snd p)))"

text \<open>One halving of each axis, towards the upper half or away from it.\<close>

definition halve_x :: "rect \<Rightarrow> bool \<Rightarrow> rect" where
  "halve_x r east =
     (let mid = (min_x r + max_x r) / 2 in if east then r\<lparr>min_x := mid\<rparr> else r\<lparr>max_x := mid\<rparr>)"

definition halve_y :: "rect \<Rightarrow> bool \<Rightarrow> rect" where
  "halve_y r north =
     (let mid = (min_y r + max_y r) / 2 in if north then r\<lparr>min_y := mid\<rparr> else r\<lparr>max_y := mid\<rparr>)"

lemma halve_contains:
  assumes "rect_contains r p"
  shows "rect_contains (halve_x r (fst p \<ge> (min_x r + max_x r) / 2)) p"
    and "rect_contains (halve_y r (snd p \<ge> (min_y r + max_y r) / 2)) p"
  using assms by (auto simp: halve_x_def halve_y_def rect_contains_def Let_def)

lemma halve_other_axis [simp]:
  "min_y (halve_x r e) = min_y r" "max_y (halve_x r e) = max_y r"
  "min_x (halve_y r e) = min_x r" "max_x (halve_y r e) = max_x r"
  by (simp_all add: halve_x_def halve_y_def Let_def)

lemma clamp_world_contains: "rect_contains world (clamp_world p)"
  by (simp add: rect_contains_def world_def clamp_world_def)

section \<open>Neighbours\<close>

definition probes :: "rect \<Rightarrow> point list" where
  "probes r =
     (let w = max_x r - min_x r; h = max_y r - min_y r;
          eps_x = w * (1 / 4); eps_y = h * (1 / 4);
          cx = (min_x r + max_x r) / 2; cy = (min_y r + max_y r) / 2
      in [(cx, max_y r + eps_y), (max_x r + eps_x, max_y r + eps_y), (max_x r + eps_x, cy),
          (max_x r + eps_x, min_y r - eps_y), (cx, min_y r - eps_y), (min_x r - eps_x, min_y r - eps_y),
          (min_x r - eps_x, cy), (min_x r - eps_x, max_y r + eps_y)])"

text \<open>
  \<open>neighbours\<close>, the same loop in both strategies: probes outside the world are skipped, the cell
  itself and repeated cells are left out.
\<close>

definition probe_neighbours :: "(point \<Rightarrow> 'id) \<Rightarrow> ('id \<Rightarrow> rect) \<Rightarrow> 'id \<Rightarrow> 'id list" where
  "probe_neighbours locate bounds i =
     fold (\<lambda>p out.
         if fst p < - 180 \<or> fst p > 180 \<or> snd p < - 90 \<or> snd p > 90 then out
         else let n = locate p in if n \<noteq> i \<and> n \<notin> set out then out @ [n] else out)
       (probes (bounds i)) []"

lemma fold_collect:
  fixes f :: "'a \<Rightarrow> 'b" and bad :: "'a \<Rightarrow> bool" and i :: 'b
  defines "step \<equiv> \<lambda>p out. if bad p then out else let n = f p in if n \<noteq> i \<and> n \<notin> set out then out @ [n] else out"
  shows "set (fold step ps out) = set out \<union> ({f p | p. p \<in> set ps \<and> \<not> bad p} - {i})"
    and "distinct out \<Longrightarrow> distinct (fold step ps out)"
proof -
  show "set (fold step ps out) = set out \<union> ({f p | p. p \<in> set ps \<and> \<not> bad p} - {i})"
    by (induction ps arbitrary: out) (auto simp: step_def Let_def)
  show "distinct out \<Longrightarrow> distinct (fold step ps out)"
    by (induction ps arbitrary: out) (auto simp: step_def Let_def)
qed

lemma set_probe_neighbours:
  "set (probe_neighbours locate bounds i)
    = {locate p | p. p \<in> set (probes (bounds i)) \<and> rect_contains world p} - {i}"
  unfolding probe_neighbours_def fold_collect(1) by (auto simp: rect_contains_def world_def not_less)

lemma distinct_probe_neighbours: "distinct (probe_neighbours locate bounds i)"
  unfolding probe_neighbours_def by (rule fold_collect(2)) simp

section \<open>Grids\<close>

text \<open>The cell in column \<open>i\<close> and row \<open>j\<close> of an \<open>nx\<close> by \<open>ny\<close> grid over the world.\<close>

definition cell :: "nat \<Rightarrow> nat \<Rightarrow> nat \<Rightarrow> nat \<Rightarrow> rect" where
  "cell nx ny i j =
     \<lparr>min_x = - 180 + 360 * real i / real nx, min_y = - 90 + 180 * real j / real ny,
      max_x = - 180 + 360 * real (Suc i) / real nx, max_y = - 90 + 180 * real (Suc j) / real ny\<rparr>"

lemma world_cell: "world = cell 1 1 0 0"
  by (simp add: world_def cell_def)

lemma halve_cell:
  "0 < nx \<Longrightarrow> halve_x (cell nx ny a b) e = cell (2 * nx) ny (2 * a + of_bool e) b"
  "0 < ny \<Longrightarrow> halve_y (cell nx ny a b) e = cell nx (2 * ny) a (2 * b + of_bool e)"
  by (auto simp: halve_x_def halve_y_def cell_def Let_def field_simps)

text \<open>Closed rectangles that share a point.\<close>

definition touches :: "rect \<Rightarrow> rect \<Rightarrow> bool" where
  "touches r s \<longleftrightarrow> min_x r \<le> max_x s \<and> min_x s \<le> max_x r \<and> min_y r \<le> max_y s \<and> min_y s \<le> max_y r"

definition in_half_open :: "rect \<Rightarrow> point \<Rightarrow> bool" where
  "in_half_open r p \<longleftrightarrow> min_x r \<le> fst p \<and> fst p < max_x r \<and> min_y r \<le> snd p \<and> snd p < max_y r"

text \<open>Halving shrinks the half-open rectangle, on the side of the midpoint it names.\<close>

lemma halve_half_open:
  assumes "min_x r \<le> max_x r" "min_y r \<le> max_y r"
  shows "in_half_open (halve_x r e) p \<Longrightarrow> in_half_open r p \<and> (e \<longleftrightarrow> fst p \<ge> (min_x r + max_x r) / 2)"
    and "in_half_open (halve_y r e) p \<Longrightarrow> in_half_open r p \<and> (e \<longleftrightarrow> snd p \<ge> (min_y r + max_y r) / 2)"
  using assms by (auto simp: halve_x_def halve_y_def in_half_open_def Let_def split: if_splits)

lemma halve_ordered:
  assumes "min_x r \<le> max_x r" "min_y r \<le> max_y r"
  shows "min_x (halve_x r e) \<le> max_x (halve_x r e)" "min_y (halve_y r e) \<le> max_y (halve_y r e)"
  using assms by (simp_all add: halve_x_def halve_y_def Let_def)

text \<open>
  Alternating halvings as a path of bits, the first one of the axis that \<open>ev\<close> names: the
  rectangle a path leads to, and the path a point takes.
\<close>

fun refine :: "bool list \<Rightarrow> rect \<Rightarrow> bool \<Rightarrow> rect" where
  "refine [] r ev = r"
| "refine (b # bs) r ev = refine bs (if ev then halve_x r b else halve_y r b) (\<not> ev)"

definition decision :: "point \<Rightarrow> rect \<Rightarrow> bool \<Rightarrow> bool" where
  "decision p r ev \<longleftrightarrow>
     (if ev then fst p \<ge> (min_x r + max_x r) / 2 else snd p \<ge> (min_y r + max_y r) / 2)"

fun decide :: "nat \<Rightarrow> point \<Rightarrow> rect \<Rightarrow> bool \<Rightarrow> bool list" where
  "decide 0 p r ev = []"
| "decide (Suc n) p r ev =
     (let b = decision p r ev in b # decide n p (if ev then halve_x r b else halve_y r b) (\<not> ev))"

lemma length_decide [simp]: "length (decide n p r ev) = n"
  by (induction n arbitrary: r ev) (simp_all add: Let_def)

lemma refine_append: "refine (xs @ ys) r ev = refine ys (refine xs r ev) (if length xs mod 2 = 0 then ev else \<not> ev)"
  by (induction xs arbitrary: r ev) (auto simp: mod_Suc)

lemma refine_decide: "rect_contains r p \<Longrightarrow> rect_contains (refine (decide n p r ev) r ev) p"
proof (induction n arbitrary: r ev)
  case (Suc n)
  then show ?case using halve_contains [OF Suc.prems] by (simp add: Let_def decision_def)
qed simp

lemma refine_ordered:
  "min_x r \<le> max_x r \<Longrightarrow> min_y r \<le> max_y r \<Longrightarrow>
    min_x (refine bs r ev) \<le> max_x (refine bs r ev) \<and> min_y (refine bs r ev) \<le> max_y (refine bs r ev)"
proof (induction bs arbitrary: r ev)
  case (Cons b bs)
  show ?case using halve_ordered [OF Cons.prems, of b] Cons.prems Cons.IH by simp
qed simp

lemma refine_inside:
  "min_x r \<le> max_x r \<Longrightarrow> min_y r \<le> max_y r \<Longrightarrow> in_half_open (refine bs r ev) p
    \<Longrightarrow> in_half_open r p \<and> decide (length bs) p r ev = bs"
proof (induction bs arbitrary: r ev)
  case (Cons b bs)
  let ?r = "if ev then halve_x r b else halve_y r b"
  have o: "min_x ?r \<le> max_x ?r" "min_y ?r \<le> max_y ?r" using halve_ordered [OF Cons.prems(1,2), of b] Cons.prems(1,2) by auto
  from Cons.IH [OF o] Cons.prems(3) have i: "in_half_open ?r p" "decide (length bs) p ?r (\<not> ev) = bs" by auto
  have "in_half_open r p \<and> b = decision p r ev"
    using halve_half_open [OF Cons.prems(1,2), of b p] i(1) by (auto simp: decision_def split: if_splits)
  then show ?case using i(2) by (auto simp: Let_def)
qed simp

lemma refine_cell:
  assumes "a < 2 ^ i" "b < 2 ^ j"
  shows "\<exists>a' b'. a' < 2 ^ (i + (length bs + of_bool ev) div 2) \<and> b' < 2 ^ (j + (length bs + of_bool (\<not> ev)) div 2)
    \<and> refine bs (cell (2 ^ i) (2 ^ j) a b) ev
      = cell (2 ^ (i + (length bs + of_bool ev) div 2)) (2 ^ (j + (length bs + of_bool (\<not> ev)) div 2)) a' b'"
  using assms
proof (induction bs arbitrary: i j a b ev)
  case (Cons c bs)
  show ?case
  proof (cases ev)
    case True
    have "2 * a + of_bool c < 2 ^ Suc i" using Cons.prems by (simp add: of_bool_def)
    from Cons.IH [OF this Cons.prems(2), of False] show ?thesis using True by (simp add: halve_cell)
  next
    case False
    have "2 * b + of_bool c < 2 ^ Suc j" using Cons.prems by (simp add: of_bool_def)
    from Cons.IH [OF Cons.prems(1) this, of True] show ?thesis using False by (simp add: halve_cell)
  qed
qed auto

lemma cell_touches:
  assumes "0 < nx" "0 < ny"
  shows "touches (cell nx ny i j) (cell nx ny i' j') \<longleftrightarrow> i \<le> Suc i' \<and> i' \<le> Suc i \<and> j \<le> Suc j' \<and> j' \<le> Suc j"
proof -
  have x: "- 180 + 360 * real a / real nx \<le> - 180 + 360 * real b / real nx \<longleftrightarrow> a \<le> b" for a b
    using assms by (simp add: divide_le_cancel)
  have y: "- 90 + 180 * real a / real ny \<le> - 90 + 180 * real b / real ny \<longleftrightarrow> a \<le> b" for a b
    using assms by (simp add: divide_le_cancel)
  show ?thesis unfolding touches_def cell_def rect.simps x y by blast
qed

text \<open>An abscissa three quarters or a quarter into a column lies inside it.\<close>

lemma grid_inside:
  assumes "0 < (n::nat)" "0 < f" "f < 1" "0 < (c::real)"
  shows "a + c * real k / real n \<le> a + c * (real k + f) / real n"
    and "a + c * (real k + f) / real n < a + c * real (Suc k) / real n"
  using assms by (auto simp: divide_le_cancel divide_less_cancel)

lemma image_pairs: "(\<lambda>(x, y). f x y) ` {(x, y) | x y. P x y} = {f x y | x y. P x y}"
  by (auto simp: image_iff)

text \<open>Probes in grid coordinates: one column or row off, a quarter past the edge, or centred.\<close>

definition probe_offset :: "int \<Rightarrow> real" where
  "probe_offset d = (if d = 0 then 1 / 2 else if d = 1 then 5 / 4 else - 1 / 4)"

lemma probe_in_range:
  assumes "d \<in> {-1, 0, 1}" "a < n" "0 < (c::real)"
  shows "lo \<le> lo + c * (real a + probe_offset d) / real n \<and> lo + c * (real a + probe_offset d) / real n \<le> lo + c
    \<longleftrightarrow> 0 \<le> int a + d \<and> int a + d < int n"
proof -
  have "0 \<le> c * (real a + probe_offset d) / real n \<longleftrightarrow> 0 \<le> real a + probe_offset d"
    using assms by (simp add: zero_le_divide_iff zero_le_mult_iff)
  moreover have "c * (real a + probe_offset d) / real n \<le> c \<longleftrightarrow> real a + probe_offset d \<le> real n"
    using assms by (simp add: divide_le_eq)
  moreover have "0 \<le> real a + probe_offset d \<longleftrightarrow> 0 \<le> int a + d"
    using assms(1) by (auto simp: probe_offset_def)
  moreover have "real a + probe_offset d \<le> real n \<longleftrightarrow> int a + d < int n"
    using assms(1,2) by (auto simp: probe_offset_def)
  ultimately show ?thesis by simp
qed

lemma probe_fraction:
  assumes "d \<in> {-1, 0, 1}" "int a' = int a + d"
  obtains f where "0 < f" "f < 1" "real a + probe_offset d = real a' + f"
proof -
  have "real a' = real a + of_int d" using assms(2) by (metis of_int_add of_int_of_nat_eq)
  then show ?thesis
    using assms(1) by (intro that [of "probe_offset d - of_int d"]) (auto simp: probe_offset_def)
qed

definition probe_point :: "nat \<Rightarrow> nat \<Rightarrow> nat \<Rightarrow> nat \<Rightarrow> int \<Rightarrow> int \<Rightarrow> point" where
  "probe_point nx ny a b dx dy =
     (- 180 + 360 * (real a + probe_offset dx) / real nx, - 90 + 180 * (real b + probe_offset dy) / real ny)"

lemma probes_cell:
  assumes "0 < nx" "0 < ny"
  shows "probes (cell nx ny a b) = map (\<lambda>(dx, dy). probe_point nx ny a b dx dy)
    [(0, 1), (1, 1), (1, 0), (1, -1), (0, -1), (-1, -1), (-1, 0), (-1, 1)]"
  using assms by (simp add: probes_def cell_def probe_point_def probe_offset_def Let_def field_simps)

locale sharding_grid =
  fixes locate :: "point \<Rightarrow> 'id" and bounds :: "'id \<Rightarrow> rect" and valid :: "'id \<Rightarrow> bool" and nx ny :: nat
  assumes nx: "0 < nx" and ny: "0 < ny"
    and valid_locate: "valid (locate p)"
    and grid: "valid i \<Longrightarrow> \<exists>a < nx. \<exists>b < ny. bounds i = cell nx ny a b"
    and locate_inside: "valid i \<Longrightarrow> in_half_open (bounds i) p \<Longrightarrow> locate p = i"
    and locate_contains: "rect_contains (bounds (locate p)) (clamp_world p)"
begin

text \<open>A cell is the cell of its own centre, so distinct cells have distinct bounds.\<close>

lemma inside_cell:
  assumes "a < nx" "b < ny" "0 < f" "f < 1" "0 < g" "g < 1"
  shows "in_half_open (cell nx ny a b) (- 180 + 360 * (real a + f) / real nx, - 90 + 180 * (real b + g) / real ny)"
  unfolding in_half_open_def cell_def rect.simps fst_conv snd_conv
  using nx ny assms by (intro conjI grid_inside) simp_all

lemma bounds_inj:
  assumes "valid i" "valid j" "bounds i = bounds j"
  shows "i = j"
proof -
  obtain a b where ab: "a < nx" "b < ny" "bounds i = cell nx ny a b" using grid [OF assms(1)] by blast
  let ?p = "(- 180 + 360 * (real a + 1 / 2) / real nx, - 90 + 180 * (real b + 1 / 2) / real ny)"
  have "in_half_open (bounds i) ?p" using inside_cell [OF ab(1,2), of "1/2" "1/2"] ab(3) by simp
  then show ?thesis using locate_inside [OF assms(1)] locate_inside [OF assms(2)] assms(3) by auto
qed

lemma cell_located:
  assumes "a < nx" "b < ny"
  obtains i where "valid i" "bounds i = cell nx ny a b"
proof -
  let ?p = "(- 180 + 360 * (real a + 1 / 2) / real nx, - 90 + 180 * (real b + 1 / 2) / real ny)"
  have inside: "in_half_open (cell nx ny a b) ?p" using inside_cell [OF assms, of "1/2" "1/2"] by simp
  obtain a' b' where c: "a' < nx" "b' < ny" "bounds (locate ?p) = cell nx ny a' b'"
    using grid [OF valid_locate] by blast
  have w: "- 180 \<le> fst ?p" "fst ?p \<le> 180" "- 90 \<le> snd ?p" "snd ?p \<le> 90"
  proof -
    have "real a + 1 \<le> real nx" "real b + 1 \<le> real ny" using assms by linarith+
    then show "- 180 \<le> fst ?p" "fst ?p \<le> 180" "- 90 \<le> snd ?p" "snd ?p \<le> 90"
      using nx ny by (auto simp: divide_simps)
  qed
  then have "clamp_world ?p = ?p" by (simp add: clamp_world_def)
  then have "rect_contains (cell nx ny a' b') ?p" using locate_contains [of ?p] c(3) by simp
  then have "360 * real a' \<le> 360 * real a + 180" "360 * real a + 180 \<le> 360 * real (Suc a')"
      "180 * real b' \<le> 180 * real b + 90" "180 * real b + 90 \<le> 180 * real (Suc b')"
    using nx ny by (auto simp: rect_contains_def cell_def divide_le_cancel simp flip: of_nat_Suc)
  then have "real a' < real (Suc a)" "real a < real (Suc a')" "real b' < real (Suc b)" "real b < real (Suc b')"
    by simp_all
  then have "a' = a" "b' = b" unfolding of_nat_less_iff by simp_all
  then show ?thesis using c(3) valid_locate that by blast
qed


text \<open>The neighbours are exactly the other cells that touch the cell.\<close>

lemma locate_probe:
  assumes d: "dx \<in> {-1, 0, 1}" "dy \<in> {-1, 0, 1}" and j: "valid j" "bounds j = cell nx ny a' b'"
    and o: "int a' = int a + dx" "int b' = int b + dy" "a' < nx" "b' < ny"
  shows "locate (probe_point nx ny a b dx dy) = j"
proof -
  obtain f where f: "0 < f" "f < 1" "real a + probe_offset dx = real a' + f" using probe_fraction [OF d(1) o(1)] .
  obtain g where g: "0 < g" "g < 1" "real b + probe_offset dy = real b' + g" using probe_fraction [OF d(2) o(2)] .
  have "in_half_open (cell nx ny a' b') (probe_point nx ny a b dx dy)"
    unfolding probe_point_def f(3) g(3) by (rule inside_cell [OF o(3,4) f(1,2) g(1,2)])
  then show ?thesis using locate_inside [OF j(1)] j(2) by simp
qed

lemma probe_in_world:
  assumes "dx \<in> {-1, 0, 1}" "dy \<in> {-1, 0, 1}" "a < nx" "b < ny"
  shows "rect_contains world (probe_point nx ny a b dx dy) \<longleftrightarrow>
    0 \<le> int a + dx \<and> int a + dx < int nx \<and> 0 \<le> int b + dy \<and> int b + dy < int ny"
  using probe_in_range [OF assms(1,3), of 360 "-180"] probe_in_range [OF assms(2,4), of 180 "-90"]
  by (auto simp: rect_contains_def world_def probe_point_def)

lemma neighbours_exact:
  assumes i: "valid i"
  shows "set (probe_neighbours locate bounds i) = {j. valid j \<and> j \<noteq> i \<and> touches (bounds i) (bounds j)}"
proof -
  obtain a b where ab: "a < nx" "b < ny" "bounds i = cell nx ny a b" using grid [OF i] by blast
  let ?D = "{-1, 0, 1::int}"
  have ps: "set (probes (bounds i)) = {probe_point nx ny a b dx dy | dx dy. dx \<in> ?D \<and> dy \<in> ?D \<and> (dx, dy) \<noteq> (0, 0)}"
  proof -
    have "set [(0, 1), (1, 1), (1, 0), (1, -1), (0, -1), (-1, -1), (-1, 0), (-1, 1)]
        = {(dx, dy) | dx dy. dx \<in> ?D \<and> dy \<in> ?D \<and> (dx, dy) \<noteq> (0, 0)}" by auto
    then show ?thesis
      unfolding ab(3) probes_cell [OF nx ny] set_map
      using image_pairs [of "\<lambda>dx dy. probe_point nx ny a b dx dy"] by (simp only:)
  qed
  have hit: "\<exists>j a' b'. valid j \<and> bounds j = cell nx ny a' b' \<and> int a' = int a + dx \<and> int b' = int b + dy
      \<and> locate (probe_point nx ny a b dx dy) = j"
    if d: "dx \<in> ?D" "dy \<in> ?D" and w: "rect_contains world (probe_point nx ny a b dx dy)" for dx dy
  proof -
    have r: "0 \<le> int a + dx" "int a + dx < int nx" "0 \<le> int b + dy" "int b + dy < int ny"
      using probe_in_world [OF d ab(1,2)] w by auto
    obtain j where "valid j" "bounds j = cell nx ny (nat (int a + dx)) (nat (int b + dy))"
      using cell_located [of "nat (int a + dx)" "nat (int b + dy)"] r by (metis nat_less_iff)
    then show ?thesis
      using locate_probe [OF d, of j "nat (int a + dx)" "nat (int b + dy)" a b] r by (metis int_nat_eq nat_less_iff)
  qed
  show ?thesis
  proof (intro equalityI subsetI)
    fix j assume "j \<in> set (probe_neighbours locate bounds i)"
    then obtain dx dy where d: "dx \<in> ?D" "dy \<in> ?D" and w: "rect_contains world (probe_point nx ny a b dx dy)"
      and j: "j = locate (probe_point nx ny a b dx dy)" "j \<noteq> i"
      unfolding set_probe_neighbours ps by blast
    from hit [OF d w] obtain a' b' where h: "valid j" "bounds j = cell nx ny a' b'" "int a' = int a + dx" "int b' = int b + dy"
      using j(1) by blast
    have "touches (bounds i) (bounds j)" unfolding ab(3) h(2) cell_touches [OF nx ny] using h(3,4) d by auto
    then show "j \<in> {j. valid j \<and> j \<noteq> i \<and> touches (bounds i) (bounds j)}" using h(1) j(2) by blast
  next
    fix j assume "j \<in> {j. valid j \<and> j \<noteq> i \<and> touches (bounds i) (bounds j)}"
    then have j: "valid j" "j \<noteq> i" "touches (bounds i) (bounds j)" by auto
    obtain a' b' where ab': "a' < nx" "b' < ny" "bounds j = cell nx ny a' b'" using grid [OF j(1)] by blast
    define dx dy where "dx = int a' - int a" and "dy = int b' - int b"
    have d: "dx \<in> ?D" "dy \<in> ?D" using j(3) unfolding ab(3) ab'(3) cell_touches [OF nx ny] dx_def dy_def by auto
    have "(dx, dy) \<noteq> (0, 0)"
      using bounds_inj [OF i j(1)] j(2) ab(3) ab'(3) by (auto simp: dx_def dy_def)
    moreover have "rect_contains world (probe_point nx ny a b dx dy)"
      using probe_in_world [OF d ab(1,2)] ab'(1,2) by (auto simp: dx_def dy_def)
    moreover have "locate (probe_point nx ny a b dx dy) = j"
      by (rule locate_probe [OF d j(1) ab'(3) _ _ ab'(1,2)]) (simp_all add: dx_def dy_def)
    ultimately show "j \<in> set (probe_neighbours locate bounds i)"
      unfolding set_probe_neighbours ps using d j(2) by blast
  qed
qed

end

end
