(* ===== verification/Decimal.thy ===== *)
theory Decimal
  imports Prelude
begin

text \<open>
  The text operations of the standard library the sources use: integers in decimal, printed and
  parsed as \<open>u64\<close>, and the splitting and trimming of strings. Characters are bytes, so only ASCII white
  space is trimmed.
\<close>

definition digit_char :: "nat \<Rightarrow> char" where
  "digit_char n = char_of (48 + n)"

fun show_nat :: "nat \<Rightarrow> string" where
  "show_nat n = (if n < 10 then [digit_char n] else show_nat (n div 10) @ [digit_char (n mod 10)])"

declare show_nat.simps [simp del]

definition digit_value :: "char \<Rightarrow> nat option" where
  "digit_value c = (let n = (of_char c :: nat) in if 48 \<le> n \<and> n \<le> 57 then Some (n - 48) else None)"

text \<open>\<open>u64::from_str\<close>: an optional plus sign, at least one digit, no overflow.\<close>

fun digits_value :: "nat \<Rightarrow> string \<Rightarrow> nat option" where
  "digits_value acc [] = Some acc"
| "digits_value acc (c # cs) =
     (case digit_value c of
        None \<Rightarrow> None
      | Some d \<Rightarrow> if acc * 10 + d < 2 ^ 64 then digits_value (acc * 10 + d) cs else None)"

definition parse_u64 :: "string \<Rightarrow> nat option" where
  "parse_u64 s =
     (case s of
        [] \<Rightarrow> None
      | c # cs \<Rightarrow> if c = CHR ''+'' then (if cs = [] then None else digits_value 0 cs) else digits_value 0 s)"

definition is_space :: "char \<Rightarrow> bool" where
  "is_space c \<longleftrightarrow> (let n = (of_char c :: nat) in n = 32 \<or> 9 \<le> n \<and> n \<le> 13 \<or> n = 133 \<or> n = 160)"

definition trim :: "string \<Rightarrow> string" where
  "trim s = rev (dropWhile is_space (rev (dropWhile is_space s)))"

definition split_once :: "char \<Rightarrow> string \<Rightarrow> (string \<times> string) option" where
  "split_once c s =
     (case dropWhile (\<lambda>x. x \<noteq> c) s of [] \<Rightarrow> None | _ # after \<Rightarrow> Some (takeWhile (\<lambda>x. x \<noteq> c) s, after))"

text \<open>\<open>rsplit(c).next()\<close>: what follows the last separator, or everything.\<close>

definition rsplit_next :: "char \<Rightarrow> string \<Rightarrow> string" where
  "rsplit_next c s = rev (takeWhile (\<lambda>x. x \<noteq> c) (rev s))"

text \<open>\<open>split(c)\<close>: the pieces between separators, at least one.\<close>

fun split_all :: "char \<Rightarrow> string \<Rightarrow> string list" where
  "split_all c [] = [[]]"
| "split_all c (x # xs) = (if x = c then [] # split_all c xs else (case split_all c xs of [] \<Rightarrow> [[x]] | s # ss \<Rightarrow> (x # s) # ss))"

lemma split_all_piece: "c \<notin> set a \<Longrightarrow> split_all c (a @ c # b) = a # split_all c b"
  by (induction a) auto

lemma split_all_whole: "c \<notin> set a \<Longrightarrow> split_all c a = [a]"
  by (induction a) auto

section \<open>Printing and parsing\<close>

lemma digit_char_inj: "a < 10 \<Longrightarrow> b < 10 \<Longrightarrow> digit_char a = digit_char b \<Longrightarrow> a = b"
proof -
  assume "a < 10" "b < 10" "digit_char a = digit_char b"
  then have "(48 + a) mod 256 = (48 + b) mod 256" unfolding digit_char_def by (metis of_char_of)
  then show ?thesis using \<open>a < 10\<close> \<open>b < 10\<close> by simp
qed

lemma digit_value_char: "n < 10 \<Longrightarrow> digit_value (digit_char n) = Some n"
  by (simp add: digit_value_def digit_char_def)

lemma digits_value_append:
  "digits_value acc (xs @ ys) = (case digits_value acc xs of None \<Rightarrow> None | Some v \<Rightarrow> digits_value v ys)"
  by (induction acc xs rule: digits_value.induct) (auto split: option.splits)

lemma digits_value_show: "n < 2 ^ 64 \<Longrightarrow> digits_value 0 (show_nat n) = Some n"
proof (induction n rule: less_induct)
  case (less n)
  show ?case
  proof (cases "n < 10")
    case True
    then show ?thesis by (subst show_nat.simps) (simp add: digit_value_char)
  next
    case False
    then have "digits_value 0 (show_nat (n div 10)) = Some (n div 10)" using less.prems by (intro less.IH) simp_all
    then show ?thesis using False less.prems by (subst show_nat.simps) (simp add: digits_value_append digit_value_char)
  qed
qed

lemma show_nat_digits: "c \<in> set (show_nat n) \<Longrightarrow> \<exists>d < 10. c = digit_char d"
proof (induction n rule: less_induct)
  case (less n)
  show ?case
  proof (cases "n < 10")
    case True
    then show ?thesis using less.prems by (subst (asm) show_nat.simps) auto
  next
    case False
    then show ?thesis using less.prems less.IH [of "n div 10"]
      by (subst (asm) show_nat.simps) (auto intro: exI [of _ "n mod 10"])
  qed
qed

lemma show_nat_nonempty [simp]: "show_nat n \<noteq> []"
  by (subst show_nat.simps) simp

lemma digit_not_special: "d < 10 \<Longrightarrow> digit_char d \<noteq> CHR ''-'' \<and> digit_char d \<noteq> CHR ''+'' \<and> \<not> is_space (digit_char d)"
proof -
  assume less: "d < 10"
  then have val: "(of_char (digit_char d) :: nat) = 48 + d" by (simp add: digit_char_def)
  have "\<not> is_space (digit_char d)" unfolding is_space_def Let_def val using less by linarith
  moreover have "digit_char d \<noteq> CHR ''-''" "digit_char d \<noteq> CHR ''+''" using val by auto
  ultimately show ?thesis by blast
qed

lemma parse_show: "n < 2 ^ 64 \<Longrightarrow> parse_u64 (show_nat n) = Some n"
proof -
  assume n: "n < 2 ^ 64"
  obtain c cs where s: "show_nat n = c # cs" by (cases "show_nat n") auto
  then have "c \<noteq> CHR ''+''" using show_nat_digits [of c n] digit_not_special by auto
  then show ?thesis using digits_value_show [OF n] by (simp add: parse_u64_def s)
qed

lemma rsplit_show: "rsplit_next (CHR ''-'') (name @ CHR ''-'' # show_nat n) = show_nat n"
proof -
  have "takeWhile (\<lambda>x. x \<noteq> CHR ''-'') (rev (show_nat n)) = rev (show_nat n)"
    using show_nat_digits digit_not_special by (intro takeWhile_eq_all_conv [THEN iffD2]) fastforce
  then show ?thesis by (simp add: rsplit_next_def takeWhile_append)
qed

lemma show_nat_inj: "show_nat m = show_nat n \<Longrightarrow> m < 2 ^ 64 \<Longrightarrow> n < 2 ^ 64 \<Longrightarrow> m = n"
  using parse_show by (metis option.inject)

end
