(* ===== verification/Quadtree.thy ===== *)
theory Quadtree
  imports Strategy Decimal "HOL-Library.Word"
begin

unbundle bit_operations_syntax

text \<open>
  The quad-tree strategy (\<open>strategy/quadtree.rs\<close>): a key packs two bits per level, lowest level
  first, into a 64-bit word. With at most 31 levels (\<open>with_depth\<close> asserts it) no bit is lost, the
  keys of one depth are a grid over the world, and \<open>locate\<close> inverts \<open>bounds\<close>.
\<close>

section \<open>Keys\<close>

definition MAX_DEPTH :: nat where
  "MAX_DEPTH = 31"

record quadkey =
  qk_depth :: nat
  qk_bits :: "64 word"

text \<open>\<open>derive(PartialOrd, Ord)\<close>: by depth, then by bits.\<close>

instantiation quadkey_ext :: (linorder) linorder
begin

definition less_eq_quadkey_ext :: "'a quadkey_ext \<Rightarrow> 'a quadkey_ext \<Rightarrow> bool" where
  "less_eq_quadkey_ext a b \<longleftrightarrow> qk_depth a < qk_depth b \<or> qk_depth a = qk_depth b
     \<and> (qk_bits a < qk_bits b \<or> qk_bits a = qk_bits b \<and> quadkey.more a \<le> quadkey.more b)"

definition less_quadkey_ext :: "'a quadkey_ext \<Rightarrow> 'a quadkey_ext \<Rightarrow> bool" where
  "less_quadkey_ext a b \<longleftrightarrow> a \<le> b \<and> \<not> b \<le> a"

instance
proof
  fix a b c :: "'a quadkey_ext"
  show "a < b \<longleftrightarrow> a \<le> b \<and> \<not> b \<le> a" by (rule less_quadkey_ext_def)
  show "a \<le> a" "a \<le> b \<or> b \<le> a" by (auto simp: less_eq_quadkey_ext_def)
  show "a \<le> b \<Longrightarrow> b \<le> a \<Longrightarrow> a = b" by (auto simp: less_eq_quadkey_ext_def intro: quadkey.equality)
  show "a \<le> b \<Longrightarrow> b \<le> c \<Longrightarrow> a \<le> c" by (auto simp: less_eq_quadkey_ext_def)
qed

end

definition quadkey_root :: quadkey where
  "quadkey_root = \<lparr>qk_depth = 0, qk_bits = 0\<rparr>"

definition child_at :: "quadkey \<Rightarrow> nat \<Rightarrow> 8 word" where
  "child_at k level = ucast (drop_bit (2 * level) (qk_bits k) AND 3)"

text \<open>\<open>Display\<close>: the depth in decimal and the quadrant of each level as a digit.\<close>

definition quadkey_display :: "quadkey \<Rightarrow> string" where
  "quadkey_display k =
     ''QuadKey(d'' @ show_nat (qk_depth k) @ ''|''
       @ concat (map (\<lambda>l. show_nat (unat (child_at k l))) [0..<qk_depth k]) @ '')''"

text \<open>\<open>None\<close> is the failed assertion of \<open>with_depth\<close>; the strategy is its depth.\<close>

definition quad_with_depth :: "nat \<Rightarrow> nat option" where
  "quad_with_depth d = (if d \<le> MAX_DEPTH then Some d else None)"

section \<open>The strategy\<close>

definition quadrant :: "bool \<Rightarrow> bool \<Rightarrow> 64 word" where
  "quadrant north east = push_bit 1 (of_bool north) OR of_bool east"

fun quad_locate_loop :: "nat \<Rightarrow> nat \<Rightarrow> point \<Rightarrow> rect \<Rightarrow> 64 word \<Rightarrow> 64 word" where
  "quad_locate_loop 0 level p r bits = bits"
| "quad_locate_loop (Suc n) level p r bits =
     (let east = fst p \<ge> (min_x r + max_x r) / 2;
          north = snd p \<ge> (min_y r + max_y r) / 2;
          q = quadrant north east
      in quad_locate_loop n (Suc level) p (halve_y (halve_x r east) north)
           (bits OR push_bit (2 * level) q))"

definition quad_locate :: "nat \<Rightarrow> point \<Rightarrow> quadkey" where
  "quad_locate d p = \<lparr>qk_depth = d, qk_bits = quad_locate_loop d 0 (clamp_world p) world 0\<rparr>"

fun quad_bounds_loop :: "nat \<Rightarrow> nat \<Rightarrow> quadkey \<Rightarrow> rect \<Rightarrow> rect" where
  "quad_bounds_loop 0 level k r = r"
| "quad_bounds_loop (Suc n) level k r =
     (let q = child_at k level
      in quad_bounds_loop n (Suc level) k (halve_y (halve_x r (q AND 1 \<noteq> 0)) (q AND 2 \<noteq> 0)))"

definition quad_bounds :: "quadkey \<Rightarrow> rect" where
  "quad_bounds k = quad_bounds_loop (qk_depth k) 0 k world"

definition quad_neighbours :: "nat \<Rightarrow> quadkey \<Rightarrow> quadkey list" where
  "quad_neighbours d k = probe_neighbours (quad_locate d) quad_bounds k"

section \<open>Bits\<close>

definition quad_valid :: "nat \<Rightarrow> quadkey \<Rightarrow> bool" where
  "quad_valid d k \<longleftrightarrow> qk_depth k = d \<and> (\<forall>n \<ge> 2 * d. \<not> bit (qk_bits k) n)"

lemma child_east: "child_at k l AND 1 \<noteq> 0 \<longleftrightarrow> bit (qk_bits k) (2 * l)"
  using bit_iff_and_push_bit_not_eq_0 [of "child_at k l" 0]
  by (simp add: child_at_def bit_simps)

lemma child_north: "child_at k l AND 2 \<noteq> 0 \<longleftrightarrow> bit (qk_bits k) (Suc (2 * l))"
  using bit_iff_and_push_bit_not_eq_0 [of "child_at k l" 1]
  by (simp add: child_at_def bit_simps)

lemma bit_quadrant: "bit (quadrant north east) m \<longleftrightarrow> m = 0 \<and> east \<or> m = 1 \<and> north"
  unfolding quadrant_def bit_or_iff bit_push_bit_iff bit_of_bool_iff by auto

lemma bit_add_quadrant:
  fixes bits :: "64 word"
  shows "bit (bits OR push_bit (2 * l) (quadrant north east)) m
    \<longleftrightarrow> bit bits m \<or> m < 64 \<and> (m = 2 * l \<and> east \<or> m = Suc (2 * l) \<and> north)"
  unfolding bit_or_iff bit_push_bit_iff bit_quadrant by auto

section \<open>Locating and bounding\<close>

text \<open>The loop leaves the bits below its level alone and sets two bits per step.\<close>

lemma quad_locate_bits:
  assumes "\<forall>m \<ge> 2 * level. \<not> bit bits m"
  shows "(\<forall>m < 2 * level. bit (quad_locate_loop n level p r bits) m = bit bits m)
    \<and> (\<forall>m \<ge> 2 * (level + n). \<not> bit (quad_locate_loop n level p r bits) m)"
  using assms
proof (induction n level p r bits rule: quad_locate_loop.induct)
  case (2 n level p r bits)
  let ?e = "fst p \<ge> (min_x r + max_x r) / 2" and ?n = "snd p \<ge> (min_y r + max_y r) / 2"
  let ?q = "quadrant ?n ?e"
  let ?b = "bits OR push_bit (2 * level) ?q"
  have "\<forall>m \<ge> 2 * Suc level. \<not> bit ?b m" using 2(2) by (auto simp: bit_add_quadrant)
  then have IH: "(\<forall>m < 2 * Suc level. bit (quad_locate_loop n (Suc level) p (halve_y (halve_x r ?e) ?n) ?b) m = bit ?b m)
      \<and> (\<forall>m \<ge> 2 * (Suc level + n). \<not> bit (quad_locate_loop n (Suc level) p (halve_y (halve_x r ?e) ?n) ?b) m)"
    using "2.IH" by blast
  have step: "quad_locate_loop (Suc n) level p r bits = quad_locate_loop n (Suc level) p (halve_y (halve_x r ?e) ?n) ?b"
    by (simp add: Let_def)
  show ?case unfolding step using IH by (simp add: bit_add_quadrant)
qed simp

lemma quad_bounds_locate:
  assumes "level + n \<le> 32" "\<forall>m \<ge> 2 * level. \<not> bit bits m" "rect_contains r p"
    and "qk_bits k = quad_locate_loop n level p r bits"
  shows "rect_contains (quad_bounds_loop n level k r) p"
  using assms
proof (induction n arbitrary: level r bits)
  case (Suc n)
  let ?e = "fst p \<ge> (min_x r + max_x r) / 2" and ?n = "snd p \<ge> (min_y r + max_y r) / 2"
  let ?q = "quadrant ?n ?e"
  let ?b = "bits OR push_bit (2 * level) ?q"
  have up: "\<forall>m \<ge> 2 * Suc level. \<not> bit ?b m" using Suc.prems(2) by (auto simp: bit_add_quadrant)
  have k: "qk_bits k = quad_locate_loop n (Suc level) p (halve_y (halve_x r ?e) ?n) ?b"
    using Suc.prems(4) by (simp add: Let_def)
  have keep: "bit (qk_bits k) m = bit ?b m" if "m < 2 * Suc level" for m
    using quad_locate_bits [OF up, of n p "halve_y (halve_x r ?e) ?n"] that unfolding k by blast
  have q: "(child_at k level AND 1 \<noteq> 0) = ?e" "(child_at k level AND 2 \<noteq> 0) = ?n"
    unfolding child_east child_north using keep [of "2 * level"] keep [of "Suc (2 * level)"] Suc.prems(1,2)
    by (auto simp: bit_add_quadrant)
  have "rect_contains (halve_y (halve_x r ?e) ?n) p"
    using halve_contains(2) [OF halve_contains(1) [OF Suc.prems(3)]] by simp
  then have "rect_contains (quad_bounds_loop n (Suc level) k (halve_y (halve_x r ?e) ?n)) p"
    using Suc.IH [of "Suc level" ?b] Suc.prems(1) up k by simp
  then show ?case by (simp only: quad_bounds_loop.simps Let_def q)
qed simp

lemma quad_bounds_cell:
  assumes "a < 2 ^ l" "b < 2 ^ l"
  shows "\<exists>a' < 2 ^ (l + n). \<exists>b' < 2 ^ (l + n).
    quad_bounds_loop n level k (cell (2 ^ l) (2 ^ l) a b) = cell (2 ^ (l + n)) (2 ^ (l + n)) a' b'"
  using assms
proof (induction n arbitrary: l level a b)
  case (Suc n)
  let ?e = "child_at k level AND 1 \<noteq> 0" and ?n = "child_at k level AND 2 \<noteq> 0"
  have half: "halve_y (halve_x (cell (2 ^ l) (2 ^ l) a b) ?e) ?n
      = cell (2 ^ Suc l) (2 ^ Suc l) (2 * a + of_bool ?e) (2 * b + of_bool ?n)"
    by (simp add: halve_cell)
  have "2 * a + of_bool ?e < 2 ^ Suc l" "2 * b + of_bool ?n < 2 ^ Suc l" using Suc.prems by (simp_all add: of_bool_def)
  from Suc.IH [OF this, of "Suc level"] show ?case by (simp only: quad_bounds_loop.simps Let_def half) simp
qed auto

text \<open>A point inside a key's cell is sent back to the key, level by level.\<close>

lemma quad_bounds_decides:
  assumes "min_x r \<le> max_x r" "min_y r \<le> max_y r"
  shows "in_half_open (quad_bounds_loop n level k r) p \<Longrightarrow> in_half_open r p"
  using assms
proof (induction n arbitrary: level r)
  case (Suc n)
  let ?e = "child_at k level AND 1 \<noteq> 0" and ?n = "child_at k level AND 2 \<noteq> 0"
  have o: "min_x (halve_y (halve_x r ?e) ?n) \<le> max_x (halve_y (halve_x r ?e) ?n)"
      "min_y (halve_y (halve_x r ?e) ?n) \<le> max_y (halve_y (halve_x r ?e) ?n)"
    using halve_ordered [of r ?e] halve_ordered [of "halve_x r ?e" ?n] Suc.prems(2,3) by simp_all
  have "in_half_open (halve_y (halve_x r ?e) ?n) p"
    using Suc.IH [OF _ o] Suc.prems(1) by (simp only: quad_bounds_loop.simps Let_def)
  then have "in_half_open (halve_x r ?e) p"
    using halve_half_open(2) [of "halve_x r ?e"] halve_ordered(1) [OF Suc.prems(2,3), of ?e] Suc.prems(3) by simp
  then show ?case using halve_half_open(1) [OF Suc.prems(2,3)] by blast
qed simp

lemma quad_locate_decided:
  assumes "in_half_open (quad_bounds_loop n level k r) p" "min_x r \<le> max_x r" "min_y r \<le> max_y r"
    and "bits = take_bit (2 * level) (qk_bits k)"
  shows "quad_locate_loop n level p r bits = take_bit (2 * (level + n)) (qk_bits k)"
  using assms
proof (induction n arbitrary: level r bits)
  case (Suc n)
  let ?e = "child_at k level AND 1 \<noteq> 0" and ?n = "child_at k level AND 2 \<noteq> 0"
  let ?r = "halve_y (halve_x r ?e) ?n"
  have o: "min_x (halve_x r ?e) \<le> max_x (halve_x r ?e)" "min_y (halve_x r ?e) \<le> max_y (halve_x r ?e)"
    using halve_ordered [of r ?e] Suc.prems(2,3) by simp_all
  have o': "min_x ?r \<le> max_x ?r" "min_y ?r \<le> max_y ?r" using halve_ordered [OF o, of ?n] o by simp_all
  have in': "in_half_open (quad_bounds_loop n (Suc level) k ?r) p"
    using Suc.prems(1) by (simp only: quad_bounds_loop.simps Let_def)
  have in_r: "in_half_open ?r p" by (rule quad_bounds_decides [OF o' in'])
  have n: "?n \<longleftrightarrow> snd p \<ge> (min_y r + max_y r) / 2" using halve_half_open(2) [OF o in_r] by simp
  have e: "?e \<longleftrightarrow> fst p \<ge> (min_x r + max_x r) / 2"
    using halve_half_open(1) [OF Suc.prems(2,3)] halve_half_open(2) [OF o in_r] by blast
  have "bits OR push_bit (2 * level) (quadrant ?n ?e) = take_bit (2 * Suc level) (qk_bits k)"
    unfolding child_east child_north Suc.prems(4)
    by (rule bit_word_eqI) (auto simp: bit_take_bit_iff bit_add_quadrant less_Suc_eq)
  then have "quad_locate_loop n (Suc level) p ?r (bits OR push_bit (2 * level) (quadrant ?n ?e))
      = take_bit (2 * (Suc level + n)) (qk_bits k)" by (rule Suc.IH [OF in' o'])
  then show ?case unfolding e n by (simp add: Let_def)
qed simp

locale quad_strategy =
  fixes d :: nat
  assumes depth: "d \<le> MAX_DEPTH"

sublocale quad_strategy \<subseteq> sharding_grid "quad_locate d" quad_bounds "quad_valid d" "2 ^ d" "2 ^ d"
proof unfold_locales
  show "quad_valid d (quad_locate d p)" for p
    using quad_locate_bits [of 0 0 d] by (simp add: quad_valid_def quad_locate_def)
  show "\<exists>a < 2 ^ d. \<exists>b < 2 ^ d. quad_bounds i = cell (2 ^ d) (2 ^ d) a b" if "quad_valid d i" for i
    using quad_bounds_cell [of 0 0 0 d 0 i] that by (simp add: quad_bounds_def quad_valid_def world_cell)
  show "quad_locate d p = i" if i: "quad_valid d i" "in_half_open (quad_bounds i) p" for i p
  proof -
    have w: "min_x world \<le> max_x world" "min_y world \<le> max_y world" by (simp_all add: world_def)
    have "in_half_open world p" using quad_bounds_decides [OF w] i(2) by (auto simp: quad_bounds_def)
    then have "clamp_world p = p" by (cases p) (auto simp: clamp_world_def in_half_open_def world_def)
    moreover have "take_bit (2 * d) (qk_bits i) = qk_bits i"
      using i(1) by (intro bit_word_eqI) (metis bit_take_bit_iff not_less quad_valid_def)
    ultimately show ?thesis
      using quad_locate_decided [of d 0 i world p 0] i w by (simp add: quad_locate_def quad_bounds_def quad_valid_def)
  qed
  show "rect_contains (quad_bounds (quad_locate d p)) (clamp_world p)" for p
    using quad_bounds_locate [of 0 d 0 world "clamp_world p"] depth clamp_world_contains
    by (simp add: quad_locate_def quad_bounds_def MAX_DEPTH_def)
qed simp_all

context quad_strategy
begin

lemma quad_valid_locate: "quad_valid d (quad_locate d p)"
  by (rule valid_locate)

lemma quad_tiles:
  assumes "quad_valid d k"
  shows "quad_valid d (quad_locate d p) \<and> strategy_contains quad_bounds (quad_locate d p) (clamp_world p)
    \<and> (in_half_open (quad_bounds k) p \<longrightarrow> quad_locate d p = k)
    \<and> distinct (quad_neighbours d k)
    \<and> set (quad_neighbours d k) = {j. quad_valid d j \<and> j \<noteq> k \<and> touches (quad_bounds k) (quad_bounds j)}"
  unfolding quad_neighbours_def strategy_contains_def
  using valid_locate locate_contains locate_inside [OF assms] neighbours_exact [OF assms]
    distinct_probe_neighbours [of "quad_locate d" quad_bounds k] by auto

text \<open>A cell and its neighbours are the cells that meet it.\<close>

lemma quad_block:
  assumes "quad_valid d k"
  shows "insert k (set (quad_neighbours d k)) = {j. quad_valid d j \<and> touches (quad_bounds k) (quad_bounds j)}"
proof -
  obtain a b where "quad_bounds k = cell (2 ^ d) (2 ^ d) a b" using grid [OF assms] by blast
  then have "touches (quad_bounds k) (quad_bounds k)" using cell_touches [OF nx ny] by simp
  then show ?thesis unfolding quad_neighbours_def neighbours_exact [OF assms] using assms by auto
qed

end

interpretation deepest_quad: quad_strategy MAX_DEPTH
  by unfold_locales simp

section \<open>Names\<close>

text \<open>Shards are fetched by the display of their key, so distinct keys need distinct names.\<close>

lemma child_less: "unat (child_at k l) < 4"
proof -
  have "child_at k l = take_bit 2 (child_at k l)"
    by (rule bit_word_eqI) (auto simp: child_at_def bit_simps bit_numeral_rec less_Suc_eq numeral_3_eq_3 split: nat.splits)
  then have "unat (child_at k l) < 2 ^ 2" by (metis take_bit_nat_less_exp unsigned_take_bit_eq)
  then show ?thesis by simp
qed

lemma quadkey_display_inj:
  assumes "quad_valid d k" "quad_valid d k'" "quadkey_display k = quadkey_display k'"
  shows "k = k'"
proof -
  have depth: "qk_depth k = d" "qk_depth k' = d" using assms(1,2) by (auto simp: quad_valid_def)
  have digits: "concat (map (\<lambda>l. show_nat (unat (child_at k l))) [0..<d]) = map (\<lambda>l. digit_char (unat (child_at k l))) [0..<d]" for k
  proof -
    have "show_nat (unat (child_at k l)) = [digit_char (unat (child_at k l))]" for l
      using child_less [of k l] by (subst show_nat.simps) simp
    then show ?thesis by (simp add: concat_map_singleton)
  qed
  have "map (\<lambda>l. digit_char (unat (child_at k l))) [0..<d] = map (\<lambda>l. digit_char (unat (child_at k' l))) [0..<d]"
    using assms(3) unfolding quadkey_display_def depth digits by simp
  then have "child_at k l = child_at k' l" if "l < d" for l
    using that child_less [of k l] child_less [of k' l] digit_char_inj [of "unat (child_at k l)" "unat (child_at k' l)"]
    by (simp add: map_eq_conv unsigned_word_eqI)
  then have pair: "bit (qk_bits k) (2 * l) = bit (qk_bits k') (2 * l) \<and> bit (qk_bits k) (Suc (2 * l)) = bit (qk_bits k') (Suc (2 * l))"
    if "l < d" for l
    using that by (metis child_east child_north)
  have "bit (qk_bits k) m = bit (qk_bits k') m" for m
  proof (cases "m < 2 * d")
    case True
    then have "m div 2 < d" by simp
    moreover have "m = 2 * (m div 2) \<or> m = Suc (2 * (m div 2))" by presburger
    ultimately show ?thesis using pair by metis
  qed (use assms(1,2) in \<open>simp add: quad_valid_def\<close>)
  then have "qk_bits k = qk_bits k'" by (simp add: bit_eq_iff)
  then show ?thesis using depth by (cases k, cases k') simp
qed

end
