(* ===== verification/Geohash.thy ===== *)
theory Geohash
  imports Strategy "HOL-Library.Word"
begin

unbundle bit_operations_syntax

text \<open>
  The geohash strategy (\<open>strategy/geohash.rs\<close>): five alternating halvings per base-32 character,
  at most twelve characters. Text is a list of Unicode scalar values, so that the byte length of a
  string and its characters are told apart as in the source.
\<close>

section \<open>Hashes as text\<close>

definition MAX_PRECISION :: nat where
  "MAX_PRECISION = 12"

definition BASE32 :: "nat list" where
  "BASE32 = map of_char ''0123456789bcdefghjkmnpqrstuvwxyz''"

record geohash =
  gh_data :: "8 word list"
  gh_precision :: nat

datatype geohash_parse_error = InvalidLength nat | InvalidChar nat

definition utf8_len :: "nat \<Rightarrow> nat" where
  "utf8_len c = (if c < 128 then 1 else if c < 2048 then 2 else if c < 65536 then 3 else 4)"

text \<open>\<open>None\<close> is the panic of indexing the alphabet with a value above 31.\<close>

definition geohash_display :: "geohash \<Rightarrow> nat list option" where
  "geohash_display g =
     those (map (\<lambda>c. if unat c < 32 then Some (BASE32 ! unat c) else None) (take (gh_precision g) (gh_data g)))"

fun parse_chars :: "nat list \<Rightarrow> nat \<Rightarrow> 8 word list \<Rightarrow> (8 word list, geohash_parse_error) outcome" where
  "parse_chars [] i data = Ok data"
| "parse_chars (ch # cs) i data =
     (case position (\<lambda>b. b = ch mod 256) BASE32 of
        None \<Rightarrow> Err (InvalidChar ch)
      | Some idx \<Rightarrow> if i < length data then parse_chars cs (Suc i) (data[i := of_nat idx]) else Panic)"

definition geohash_from_str :: "nat list \<Rightarrow> (geohash, geohash_parse_error) outcome" where
  "geohash_from_str s =
     (let precision = sum_list (map utf8_len s)
      in if precision = 0 \<or> precision > MAX_PRECISION then Err (InvalidLength precision)
         else and_then (parse_chars s 0 (replicate MAX_PRECISION 0))
                (\<lambda>data. Ok \<lparr>gh_data = data, gh_precision = precision\<rparr>))"

text \<open>\<open>None\<close> is the failed assertion; the strategy is its precision.\<close>

definition geohash_with_precision :: "nat \<Rightarrow> nat option" where
  "geohash_with_precision n = (if 1 \<le> n \<and> n \<le> 12 then Some n else None)"

section \<open>The strategy\<close>

function geohash_loop ::
    "nat \<Rightarrow> point \<Rightarrow> rect \<Rightarrow> 8 word list \<Rightarrow> nat \<Rightarrow> nat \<Rightarrow> 8 word \<Rightarrow> bool \<Rightarrow> 8 word list \<times> nat" where
  "geohash_loop precision p r out cursor b ch ev =
     (if cursor < precision then
        let upper = (if ev then fst p \<ge> (min_x r + max_x r) / 2 else snd p \<ge> (min_y r + max_y r) / 2);
            ch' = (if upper then ch OR push_bit (4 - b) 1 else ch);
            r' = (if ev then halve_x r upper else halve_y r upper)
        in if b < 4 then geohash_loop precision p r' out cursor (b + 1) ch' (\<not> ev)
           else geohash_loop precision p r' (out[cursor := ch']) (cursor + 1) 0 0 (\<not> ev)
      else (out, cursor))"
  by pat_completeness auto

termination
  by (relation "measure (\<lambda>(precision, p, r, out, cursor, b, ch, ev). 5 * (precision - cursor) + (4 - b))") auto

declare geohash_loop.simps [simp del]

definition geohash_locate :: "nat \<Rightarrow> point \<Rightarrow> geohash" where
  "geohash_locate precision p =
     (case geohash_loop precision (clamp_world p) world (replicate MAX_PRECISION 0) 0 0 0 True of
        (out, cursor) \<Rightarrow> \<lparr>gh_data = out, gh_precision = cursor\<rparr>)"

fun geohash_char_loop :: "8 word \<Rightarrow> nat list \<Rightarrow> rect \<times> bool \<Rightarrow> rect \<times> bool" where
  "geohash_char_loop idx [] st = st"
| "geohash_char_loop idx (i # is) (r, ev) =
     (let b = (drop_bit i idx AND 1 = 1)
      in geohash_char_loop idx is (if ev then halve_x r b else halve_y r b, \<not> ev))"

definition geohash_bounds :: "geohash \<Rightarrow> rect" where
  "geohash_bounds g =
     fst (fold (\<lambda>idx. geohash_char_loop idx (rev [0..<5])) (take (gh_precision g) (gh_data g)) (world, True))"

definition geohash_neighbours :: "nat \<Rightarrow> geohash \<Rightarrow> geohash list" where
  "geohash_neighbours precision g = probe_neighbours (geohash_locate precision) geohash_bounds g"

section \<open>Characters as bits\<close>

definition places :: "nat list" where
  "places = [4, 3, 2, 1, 0]"

definition char_bits :: "8 word \<Rightarrow> bool list" where
  "char_bits w = map (bit w) places"

definition path_bits :: "8 word list \<Rightarrow> bool list" where
  "path_bits ws = concat (map char_bits ws)"

definition small :: "8 word \<Rightarrow> bool" where
  "small w \<longleftrightarrow> (\<forall>n \<ge> 5. \<not> bit w n)"

definition geohash_valid :: "nat \<Rightarrow> geohash \<Rightarrow> bool" where
  "geohash_valid n g \<longleftrightarrow> gh_precision g = n \<and> length (gh_data g) = 12
     \<and> list_all small (take n (gh_data g)) \<and> drop n (gh_data g) = replicate (12 - n) 0"

lemma length_char_bits [simp]: "length (char_bits w) = 5"
  by (simp add: char_bits_def places_def)

lemma path_bits_simps [simp]:
  "path_bits [] = []" "path_bits (w # ws) = char_bits w @ path_bits ws" "path_bits (ws @ vs) = path_bits ws @ path_bits vs"
  by (simp_all add: path_bits_def)

lemma length_path_bits [simp]: "length (path_bits ws) = 5 * length ws"
  by (induction ws) simp_all

lemma char_bits_inj: "small v \<Longrightarrow> small w \<Longrightarrow> char_bits v = char_bits w \<Longrightarrow> v = w"
proof (rule bit_word_eqI)
  fix n assume "small v" "small w" "char_bits v = char_bits w" "n < LENGTH(8)"
  then show "bit v n = bit w n"
    by (cases "n \<ge> 5") (auto simp: small_def char_bits_def places_def not_le less_Suc_eq numeral_eq_Suc)
qed

lemma path_bits_inj:
  "list_all small vs \<Longrightarrow> list_all small ws \<Longrightarrow> path_bits vs = path_bits ws \<Longrightarrow> vs = ws"
proof (induction vs arbitrary: ws)
  case (Cons v vs)
  have "length (path_bits (v # vs)) = length (path_bits ws)" using Cons.prems(3) by (rule arg_cong)
  then have "length ws = Suc (length vs)" by simp
  then obtain w ws' where ws: "ws = w # ws'" by (cases ws) auto
  then have "char_bits v = char_bits w" "path_bits vs = path_bits ws'"
    using Cons.prems(3) by (auto simp: append_eq_append_conv)
  then show ?case using Cons ws char_bits_inj by auto
next
  case Nil
  have "length (path_bits []) = length (path_bits ws)" using Nil(3) by (rule arg_cong)
  then show ?case by simp
qed

lemma char_loop_refine:
  "geohash_char_loop idx is (r, ev) = (refine (map (bit idx) is) r ev, if length is mod 2 = 0 then ev else \<not> ev)"
proof (induction "is" arbitrary: r ev)
  case (Cons i "is")
  have "(drop_bit i idx AND 1 = 1) = bit idx i"
    by (simp add: bit_iff_odd_drop_bit and_one_eq odd_iff_mod_2_eq_one)
  then show ?case using Cons by (auto simp: Let_def mod_Suc)
qed simp

lemma rev_upt_5: "rev [0..<5] = [4, 3, 2, 1, 0::nat]"
  by code_simp

lemma bounds_refine:
  "fold (\<lambda>idx. geohash_char_loop idx (rev [0..<5])) ws (r, ev)
    = (refine (path_bits ws) r ev, if length ws mod 2 = 0 then ev else \<not> ev)"
proof (induction ws arbitrary: r ev)
  case (Cons w ws)
  have "geohash_char_loop w (rev [0..<5]) (r, ev) = (refine (char_bits w) r ev, \<not> ev)"
    by (simp add: char_loop_refine char_bits_def places_def rev_upt_5)
  then show ?case using Cons by (auto simp: refine_append mod_Suc)
qed simp

lemma geohash_bounds_refine: "geohash_bounds g = refine (path_bits (take (gh_precision g) (gh_data g))) world True"
  by (simp add: geohash_bounds_def bounds_refine)

section \<open>The loop\<close>

lemma bit_shift_one: "b \<le> 4 \<Longrightarrow> bit (ch OR push_bit (4 - b) 1 :: 8 word) n \<longleftrightarrow> bit ch n \<or> n = 4 - b"
  unfolding bit_or_iff bit_push_bit_iff bit_1_iff by auto

lemma take_places: "b \<le> 4 \<Longrightarrow> take (Suc b) places = take b places @ [4 - b]"
  "b \<le> 4 \<Longrightarrow> 4 - b \<notin> set (take b places)"
  by (auto simp: places_def le_Suc_eq numeral_eq_Suc)

lemma grown_char:
  fixes ch :: "8 word" and upper :: bool
  assumes "b \<le> 4" "\<forall>n. bit ch n \<longrightarrow> 4 - b < n \<and> n \<le> 4"
  defines "ch' \<equiv> if upper then ch OR push_bit (4 - b) 1 else ch"
  shows "map (bit ch') (take (Suc b) places) = map (bit ch) (take b places) @ [upper]"
    and "\<forall>n. bit ch' n \<longrightarrow> 4 - b \<le> n \<and> n \<le> 4"
proof -
  have bit': "bit ch' n \<longleftrightarrow> bit ch n \<or> upper \<and> n = 4 - b" for n
    using bit_shift_one [OF assms(1)] by (simp add: ch'_def)
  have "\<not> bit ch (4 - b)" using assms(2) by blast
  moreover have "map (bit ch') (take b places) = map (bit ch) (take b places)"
    using take_places(2) [OF assms(1)] by (auto simp: bit')
  ultimately show "map (bit ch') (take (Suc b) places) = map (bit ch) (take b places) @ [upper]"
    unfolding take_places(1) [OF assms(1)] by (simp add: bit')
  show "\<forall>n. bit ch' n \<longrightarrow> 4 - b \<le> n \<and> n \<le> 4" using assms(2) by (auto simp: bit')
qed

lemma geohash_loop_spec:
  assumes "cursor \<le> precision" "precision \<le> length out" "b \<le> 4" "cursor = precision \<longrightarrow> b = 0"
    "\<forall>n. bit ch n \<longrightarrow> 4 - b < n \<and> n \<le> 4" "list_all small (take cursor out)"
  shows "\<exists>out'. geohash_loop precision p r out cursor b ch ev = (out', precision) \<and> length out' = length out
    \<and> drop precision out' = drop precision out \<and> list_all small (take precision out')
    \<and> path_bits (take precision out') = path_bits (take cursor out)
        @ map (bit ch) (take b places) @ decide (5 * (precision - cursor) - b) p r ev"
  using assms
proof (induction precision p r out cursor b ch ev rule: geohash_loop.induct)
  case (1 precision p r out cursor b ch ev)
  show ?case
  proof (cases "cursor < precision")
    case False
    then show ?thesis using "1.prems" by (simp add: geohash_loop.simps)
  next
    case True
    define upper where "upper = (if ev then fst p \<ge> (min_x r + max_x r) / 2 else snd p \<ge> (min_y r + max_y r) / 2)"
    define ch' where "ch' = (if upper then ch OR push_bit (4 - b) 1 else ch)"
    define r' where "r' = (if ev then halve_x r upper else halve_y r upper)"
    note g = grown_char [OF "1.prems"(3,5), of upper, folded ch'_def]
    have dec: "decide (Suc n) p r ev = upper # decide n p r' (\<not> ev)" for n
      by (simp add: Let_def decision_def upper_def r'_def)
    show ?thesis
    proof (cases "b < 4")
      case b: True
      have step: "geohash_loop precision p r out cursor b ch ev = geohash_loop precision p r' out cursor (b + 1) ch' (\<not> ev)"
        using True b by (subst geohash_loop.simps) (simp add: Let_def upper_def ch'_def r'_def)
      have n: "5 * (precision - cursor) - b = Suc (5 * (precision - cursor) - (b + 1))" using True b by linarith
      have fresh: "\<forall>n. bit ch' n \<longrightarrow> 4 - (b + 1) < n \<and> n \<le> 4" using g(2) b by fastforce
      have "\<exists>out'. geohash_loop precision p r' out cursor (b + 1) ch' (\<not> ev) = (out', precision) \<and> length out' = length out
          \<and> drop precision out' = drop precision out \<and> list_all small (take precision out')
          \<and> path_bits (take precision out') = path_bits (take cursor out)
            @ map (bit ch') (take (b + 1) places) @ decide (5 * (precision - cursor) - (b + 1)) p r' (\<not> ev)"
        by (rule "1.IH"(1) [OF True upper_def ch'_def r'_def b]) (use "1.prems" True b fresh in auto)
      then show ?thesis unfolding step n dec using g(1) by simp
    next
      case b: False
      then have b4: "b = 4" using "1.prems"(3) by simp
      let ?out = "out[cursor := ch']"
      have step: "geohash_loop precision p r out cursor b ch ev = geohash_loop precision p r' ?out (cursor + 1) 0 0 (\<not> ev)"
        using True b by (subst geohash_loop.simps) (simp add: Let_def upper_def ch'_def r'_def)
      have n: "5 * (precision - cursor) - b = Suc (5 * (precision - (cursor + 1)) - 0)" using True b4 by linarith
      have cl: "cursor < length out" using True "1.prems"(2) by simp
      have tk: "take (cursor + 1) ?out = take cursor out @ [ch']" using cl by (simp add: take_Suc_conv_app_nth)
      have sm: "small ch'" using g(2) by (force simp: small_def)
      have "\<exists>out'. geohash_loop precision p r' ?out (cursor + 1) 0 0 (\<not> ev) = (out', precision) \<and> length out' = length ?out
          \<and> drop precision out' = drop precision ?out \<and> list_all small (take precision out')
          \<and> path_bits (take precision out') = path_bits (take (cursor + 1) ?out)
            @ map (bit (0 :: 8 word)) (take 0 places) @ decide (5 * (precision - (cursor + 1)) - 0) p r' (\<not> ev)"
        by (rule "1.IH"(2) [OF True upper_def ch'_def r'_def b])
          (use "1.prems" True sm in \<open>simp_all only: tk, auto\<close>)
      moreover have "char_bits ch' = map (bit ch) (take b places) @ [upper]"
        using g(1) by (simp add: char_bits_def b4 places_def)
      ultimately show ?thesis unfolding step n dec tk using True by (simp add: drop_update_cancel)
    qed
  qed
qed

section \<open>The grid of one precision\<close>

lemma geohash_locate_spec:
  assumes "n \<le> 12"
  shows "geohash_valid n (geohash_locate n p)"
    and "path_bits (take n (gh_data (geohash_locate n p))) = decide (5 * n) (clamp_world p) world True"
proof -
  obtain out where out: "geohash_loop n (clamp_world p) world (replicate MAX_PRECISION 0) 0 0 0 True = (out, n)"
    "length out = 12" "drop n out = replicate (12 - n) 0" "list_all small (take n out)"
    "path_bits (take n out) = decide (5 * n) (clamp_world p) world True"
    using geohash_loop_spec [of 0 n "replicate MAX_PRECISION 0" 0 0 "clamp_world p" world True] assms
    by (auto simp: MAX_PRECISION_def)
  then show "geohash_valid n (geohash_locate n p)"
    and "path_bits (take n (gh_data (geohash_locate n p))) = decide (5 * n) (clamp_world p) world True"
    by (simp_all add: geohash_locate_def geohash_valid_def)
qed

locale geohash_strategy =
  fixes n :: nat
  assumes precision: "1 \<le> n" "n \<le> 12"

sublocale geohash_strategy \<subseteq> sharding_grid "geohash_locate n" geohash_bounds "geohash_valid n"
  "2 ^ ((5 * n + 1) div 2)" "2 ^ (5 * n div 2)"
proof unfold_locales
  show "geohash_valid n (geohash_locate n p)" for p by (rule geohash_locate_spec(1) [OF precision(2)])
  show "\<exists>a < 2 ^ ((5 * n + 1) div 2). \<exists>b < 2 ^ (5 * n div 2).
      geohash_bounds i = cell (2 ^ ((5 * n + 1) div 2)) (2 ^ (5 * n div 2)) a b" if "geohash_valid n i" for i
    using refine_cell [of 0 0 0 0 "path_bits (take n (gh_data i))" True] that precision
    by (auto simp: geohash_bounds_refine geohash_valid_def world_cell)
  show "geohash_locate n p = i" if i: "geohash_valid n i" "in_half_open (geohash_bounds i) p" for i p
  proof -
    let ?d = "gh_data i" and ?l = "geohash_locate n p"
    have w: "min_x world \<le> max_x world" "min_y world \<le> max_y world" by (simp_all add: world_def)
    have len: "length (take n ?d) = n" using i(1) precision by (simp add: geohash_valid_def)
    have "in_half_open world p" "decide (5 * n) p world True = path_bits (take n ?d)"
      using refine_inside [OF w, of "path_bits (take n ?d)" True p] i len
      by (auto simp: geohash_bounds_refine geohash_valid_def)
    moreover from this have "clamp_world p = p" by (cases p) (auto simp: clamp_world_def in_half_open_def world_def)
    ultimately have "path_bits (take n (gh_data ?l)) = path_bits (take n ?d)"
      using geohash_locate_spec(2) [OF precision(2)] by simp
    moreover have v: "geohash_valid n ?l" by (rule geohash_locate_spec(1) [OF precision(2)])
    ultimately have "take n (gh_data ?l) = take n ?d"
      using i(1) by (intro path_bits_inj) (auto simp: geohash_valid_def)
    then have "gh_data ?l = ?d" using v i(1) by (metis append_take_drop_id geohash_valid_def)
    then show ?thesis using v i(1) by (cases ?l, cases i) (simp add: geohash_valid_def)
  qed
  show "rect_contains (geohash_bounds (geohash_locate n p)) (clamp_world p)" for p
    using refine_decide [OF clamp_world_contains [of p], of "5 * n" True] geohash_locate_spec [OF precision(2), of p]
    by (simp add: geohash_bounds_refine geohash_valid_def)
qed simp_all

context geohash_strategy
begin

lemma geohash_tiles:
  assumes "geohash_valid n k"
  shows "geohash_valid n (geohash_locate n p) \<and> strategy_contains geohash_bounds (geohash_locate n p) (clamp_world p)
    \<and> (in_half_open (geohash_bounds k) p \<longrightarrow> geohash_locate n p = k)
    \<and> distinct (geohash_neighbours n k)
    \<and> set (geohash_neighbours n k) = {j. geohash_valid n j \<and> j \<noteq> k \<and> touches (geohash_bounds k) (geohash_bounds j)}"
  unfolding geohash_neighbours_def strategy_contains_def
  using valid_locate locate_contains locate_inside [OF assms] neighbours_exact [OF assms]
    distinct_probe_neighbours [of "geohash_locate n" geohash_bounds k] by auto

text \<open>A cell and its neighbours are the cells that meet it.\<close>

lemma geohash_block:
  assumes "geohash_valid n k"
  shows "insert k (set (geohash_neighbours n k)) = {j. geohash_valid n j \<and> touches (geohash_bounds k) (geohash_bounds j)}"
proof -
  obtain a b where "geohash_bounds k = cell (2 ^ ((5 * n + 1) div 2)) (2 ^ (5 * n div 2)) a b" using grid [OF assms] by blast
  then have "touches (geohash_bounds k) (geohash_bounds k)" using cell_touches [OF nx ny] by simp
  then show ?thesis unfolding geohash_neighbours_def neighbours_exact [OF assms] using assms by auto
qed

end

interpretation finest_geohash: geohash_strategy 12
  by unfold_locales simp_all

section \<open>Printing and parsing\<close>

lemma BASE32_ascii: "\<forall>c \<in> set BASE32. c < 128" "length BASE32 = 32" "distinct BASE32"
  by code_simp+

lemma parse_base32:
  assumes "k < 32"
  shows "position (\<lambda>b. b = (BASE32 ! k) mod 256) BASE32 = Some k" and "utf8_len (BASE32 ! k) = 1"
proof -
  have c: "BASE32 ! k < 128" using BASE32_ascii(1,2) assms by simp
  show "position (\<lambda>b. b = (BASE32 ! k) mod 256) BASE32 = Some k"
    by (rule position_eqI) (use c BASE32_ascii(2,3) assms in \<open>auto simp: nth_eq_iff_index_eq\<close>)
  show "utf8_len (BASE32 ! k) = 1" using c by (simp add: utf8_len_def)
qed

lemma small_unat: "small w \<Longrightarrow> unat w < 32"
proof -
  assume "small w"
  then have "w = take_bit 5 w" by (intro bit_word_eqI) (metis bit_take_bit_iff not_le small_def)
  then have "unat w < 2 ^ 5" by (metis take_bit_nat_less_exp unsigned_take_bit_eq)
  then show ?thesis by simp
qed

lemma parse_printed:
  assumes "list_all small ws" "i + length ws \<le> length data"
  shows "parse_chars (map (\<lambda>w. BASE32 ! unat w) ws) i data = Ok (take i data @ ws @ drop (i + length ws) data)"
  using assms
proof (induction ws arbitrary: i data)
  case (Cons w ws)
  have "parse_chars (map (\<lambda>w. BASE32 ! unat w) (w # ws)) i data
      = parse_chars (map (\<lambda>w. BASE32 ! unat w) ws) (Suc i) (data[i := w])"
    using parse_base32(1) [of "unat w"] small_unat [of w] Cons.prems by simp
  also have "\<dots> = Ok (take (Suc i) (data[i := w]) @ ws @ drop (Suc i + length ws) (data[i := w]))"
    by (rule Cons.IH) (use Cons.prems in auto)
  finally show ?case using Cons.prems by (simp add: take_Suc_conv_app_nth)
qed simp

lemma geohash_print_parse:
  assumes "geohash_valid n g" "1 \<le> n" "n \<le> 12"
  shows "\<exists>s. geohash_display g = Some s \<and> length s = n \<and> geohash_from_str s = Ok g"
proof -
  let ?ws = "take n (gh_data g)"
  have v: "gh_precision g = n" "length (gh_data g) = 12" "list_all small ?ws" "drop n (gh_data g) = replicate (12 - n) 0"
    using assms(1) by (auto simp: geohash_valid_def)
  have s: "unat w < 32" if "w \<in> set ?ws" for w using v(3) that small_unat by (auto simp: list_all_iff)
  let ?s = "map (\<lambda>w. BASE32 ! unat w) ?ws"
  have d: "geohash_display g = Some ?s"
    unfolding geohash_display_def v(1) by (rule those_map_Some) (use s in simp)
  have len: "length ?s = n" using v(2) assms(3) by simp
  have "sum_list (map utf8_len ?s) = sum_list (map (\<lambda>w. 1) ?ws)"
    unfolding map_map by (intro arg_cong [of _ _ sum_list] map_cong) (use s parse_base32(2) in auto)
  then have p: "sum_list (map utf8_len ?s) = n" using v(2) assms(3) by (simp add: sum_list_triv)
  have "parse_chars ?s 0 (replicate MAX_PRECISION 0) = Ok (gh_data g)"
    using parse_printed [OF v(3), of 0 "replicate MAX_PRECISION 0"] v assms(3)
    by (simp add: MAX_PRECISION_def) (metis append_take_drop_id)
  then have "geohash_from_str ?s = Ok g"
    using p assms v(1) by (simp add: geohash_from_str_def MAX_PRECISION_def)
  then show ?thesis using d len by blast
qed

end
