(* ===== verification/Shard_Index.thy ===== *)
theory Shard_Index
  imports Strategy Network_Model
begin

text \<open>
  What the shard networks are built on: the row index (\<open>primitive/index.rs\<close>) over a packed R-tree,
  and the directed graph map. Both containers come from other crates (\<open>geo_index\<close>, \<open>petgraph\<close>), so
  their operations are parameters with their documented laws as locales; each law set is shown to
  be met by a plain list implementation.
\<close>

section \<open>Row indices\<close>

text \<open>
  The tree over a list of envelopes: the row numbers whose envelope meets a box, in no defined
  order, and the row numbers by distance from a point.
\<close>

record rtree =
  tree_search :: "rect list \<Rightarrow> rect \<Rightarrow> nat list"
  tree_nearest :: "rect list \<Rightarrow> point \<Rightarrow> nat list"

record 'r row_index =
  envelopes :: "rect list"
  rows :: "'r list"

definition row_index_default :: "'r row_index" where
  "row_index_default = \<lparr>envelopes = [], rows = []\<rparr>"

definition rect_new :: "point \<Rightarrow> point \<Rightarrow> rect" where
  "rect_new a b = \<lparr>min_x = min (fst a) (fst b), min_y = min (snd a) (snd b),
     max_x = max (fst a) (fst b), max_y = max (snd a) (snd b)\<rparr>"

definition row_index_build :: "'r list \<Rightarrow> ('r \<Rightarrow> point \<times> point) \<Rightarrow> 'r row_index" where
  "row_index_build rs envelope =
     \<lparr>envelopes = map (\<lambda>r. case envelope r of (lo, hi) \<Rightarrow>
          \<lparr>min_x = fst lo, min_y = snd lo, max_x = fst hi, max_y = snd hi\<rparr>) rs,
      rows = rs\<rparr>"

definition row_get :: "'r row_index \<Rightarrow> nat \<Rightarrow> 'r option" where
  "row_get ix i = (if i < length (rows ix) then Some (rows ix ! i) else None)"

definition row_search :: "rtree \<Rightarrow> 'r row_index \<Rightarrow> rect \<Rightarrow> 'r list" where
  "row_search t ix b = List.map_filter (row_get ix) (tree_search t (envelopes ix) b)"

definition row_nearest :: "rtree \<Rightarrow> 'r row_index \<Rightarrow> point \<Rightarrow> 'r option" where
  "row_nearest t ix p = (case tree_nearest t (envelopes ix) p of [] \<Rightarrow> None | i # _ \<Rightarrow> row_get ix i)"

definition envelope_of :: "point \<Rightarrow> point \<Rightarrow> point \<times> point" where
  "envelope_of a b = ((min (fst a) (fst b), min (snd a) (snd b)), (max (fst a) (fst b), max (snd a) (snd b)))"

definition corners_rect :: "point \<times> point \<Rightarrow> rect" where
  "corners_rect c = \<lparr>min_x = fst (fst c), min_y = snd (fst c), max_x = fst (snd c), max_y = snd (snd c)\<rparr>"

lemma row_index_build_corners: "row_index_build rs env = \<lparr>envelopes = map (corners_rect \<circ> env) rs, rows = rs\<rparr>"
  by (auto simp: row_index_build_def corners_rect_def comp_def split: prod.splits)

locale spatial_tree =
  fixes t :: rtree
  assumes search_exact: "set (tree_search t es b) = {i. i < length es \<and> touches (es ! i) b}"
    and search_distinct: "distinct (tree_search t es b)"
    and nearest_range: "set (tree_nearest t es p) \<subseteq> {..<length es}"
begin

lemma row_search_exact:
  "set (row_search t (row_index_build rs env) b) =
    {r \<in> set rs. touches (corners_rect (env r)) b}"
  by (force simp: row_search_def row_index_build_corners List.map_filter_def search_exact row_get_def in_set_conv_nth image_iff)

lemma row_search_subset: "set (row_search t ix b) \<subseteq> set (rows ix)"
  by (auto simp: row_search_def List.map_filter_def row_get_def)

lemma row_nearest_in: "row_nearest t ix p = Some r \<Longrightarrow> r \<in> set (rows ix)"
  by (auto simp: row_nearest_def row_get_def split: list.splits if_splits)

end

definition scan_tree :: rtree where
  "scan_tree = \<lparr>tree_search = (\<lambda>es b. filter (\<lambda>i. touches (es ! i) b) [0..<length es]),
     tree_nearest = (\<lambda>es p. [0..<length es])\<rparr>"

interpretation scan: spatial_tree scan_tree
  by unfold_locales (auto simp: scan_tree_def)

section \<open>Graphs\<close>

type_synonym 'e edge_data = "nat \<times> 'e edge_id"

record ('e, 'g) graph_ops =
  dg_new :: 'g
  dg_add_node :: "'g \<Rightarrow> 'e \<Rightarrow> 'g"
  dg_add_edge :: "'g \<Rightarrow> 'e \<Rightarrow> 'e \<Rightarrow> 'e edge_data \<Rightarrow> 'g"
  dg_nodes :: "'g \<Rightarrow> 'e list"
  dg_all_edges :: "'g \<Rightarrow> ('e \<times> 'e \<times> 'e edge_data) list"
  dg_edge_weight :: "'g \<Rightarrow> 'e \<Rightarrow> 'e \<Rightarrow> 'e edge_data option"
  dg_outgoing :: "'g \<Rightarrow> 'e \<Rightarrow> ('e \<times> 'e \<times> 'e edge_data) list"
  dg_incoming :: "'g \<Rightarrow> 'e \<Rightarrow> ('e \<times> 'e \<times> 'e edge_data) list"
  dg_astar :: "'g \<Rightarrow> 'e \<Rightarrow> 'e \<Rightarrow> (nat \<times> 'e list) option"

locale graph_map =
  fixes G :: "('e, 'g) graph_ops"
  assumes nodes_new: "dg_nodes G (dg_new G) = []"
    and nodes_add_node: "set (dg_nodes G (dg_add_node G g n)) = insert n (set (dg_nodes G g))"
    and nodes_add_edge: "set (dg_nodes G (dg_add_edge G g a b w)) = insert a (insert b (set (dg_nodes G g)))"
    and weight_new: "dg_edge_weight G (dg_new G) a b = None"
    and weight_add_node: "dg_edge_weight G (dg_add_node G g n) a b = dg_edge_weight G g a b"
    and weight_add_edge: "dg_edge_weight G (dg_add_edge G g a b w) a' b'
      = (if a' = a \<and> b' = b then Some w else dg_edge_weight G g a' b')"
    and all_edges: "(a, b, w) \<in> set (dg_all_edges G g) \<longleftrightarrow> dg_edge_weight G g a b = Some w"
    and outgoing: "(a', b, w) \<in> set (dg_outgoing G g a) \<longleftrightarrow> a' = a \<and> dg_edge_weight G g a b = Some w"
    and incoming: "(a, b', w) \<in> set (dg_incoming G g b) \<longleftrightarrow> b' = b \<and> dg_edge_weight G g a b = Some w"

text \<open>A graph as its node list and its association list of edges.\<close>

type_synonym 'e list_graph = "'e list \<times> (('e \<times> 'e) \<times> 'e edge_data) list"

definition edge_list :: "('e \<times> 'e \<Rightarrow> bool) \<Rightarrow> (('e \<times> 'e) \<times> 'e edge_data) list \<Rightarrow> ('e \<times> 'e \<times> 'e edge_data) list" where
  "edge_list P es = List.map_filter (\<lambda>k. map_option (\<lambda>w. (fst k, snd k, w)) (map_of es k)) (filter P (remdups (map fst es)))"

definition list_graph :: "('e, 'e list_graph) graph_ops" where
  "list_graph = \<lparr>dg_new = ([], []),
     dg_add_node = (\<lambda>(ns, es) n. (List.insert n ns, es)),
     dg_add_edge = (\<lambda>(ns, es) a b w. (List.insert a (List.insert b ns), ((a, b), w) # es)),
     dg_nodes = fst,
     dg_all_edges = (\<lambda>(ns, es). edge_list (\<lambda>k. True) es),
     dg_edge_weight = (\<lambda>(ns, es) a b. map_of es (a, b)),
     dg_outgoing = (\<lambda>(ns, es) a. edge_list (\<lambda>k. fst k = a) es),
     dg_incoming = (\<lambda>(ns, es) b. edge_list (\<lambda>k. snd k = b) es),
     dg_astar = (\<lambda>g a b. None)\<rparr>"

lemma edge_list_iff: "(a, b, w) \<in> set (edge_list P es) \<longleftrightarrow> P (a, b) \<and> map_of es (a, b) = Some w"
proof
  assume "P (a, b) \<and> map_of es (a, b) = Some w"
  moreover from this have "(a, b) \<in> set (map fst es)" by (force dest: map_of_SomeD)
  ultimately show "(a, b, w) \<in> set (edge_list P es)"
    unfolding edge_list_def List.map_filter_def by (force intro!: image_eqI [of _ _ "(a, b)"])
qed (auto simp: edge_list_def List.map_filter_def)

interpretation lists: graph_map list_graph
  by unfold_locales (auto simp: list_graph_def edge_list_iff split: prod.splits)

end
