(* ===== verification/Shard_Network.thy ===== *)
theory Shard_Network
  imports Shard_Index Reachability "HOL-Library.Word"
begin

unbundle bit_operations_syntax

text \<open>
  Shard selection (\<open>selection.rs\<close>) and the network of one selection (\<open>network.rs\<close>): its assembly
  from a source, its indices, the trait methods the matcher calls and its cache bytes. A hash map is
  a partial function together with the order in which its keys are iterated, which is a parameter;
  the graph map and the packed tree are the parameters of \<open>Shard_Index\<close>.
\<close>

section \<open>Selection\<close>

record 's strategy_ops =
  st_locate :: "point \<Rightarrow> 's"
  st_bounds :: "'s \<Rightarrow> rect"
  st_neighbours :: "'s \<Rightarrow> 's list"

datatype selection_mode = Owned | OwnedAndNeighbours | OwnedAndPadded real

record 's selection =
  owned :: 's
  loaded :: "'s set"
  padding :: "rect option"

definition padded_bounds :: "rect \<Rightarrow> real \<Rightarrow> rect" where
  "padded_bounds r padding_meters =
     (let cy = (min_y r + max_y r) / 2;
          pad_y = padding_meters / 111320;
          pad_x = padding_meters / (111320 * max \<bar>cos (cy * pi / 180)\<bar> (1 / 1000000))
      in rect_new (min_x r - pad_x, min_y r - pad_y) (max_x r + pad_x, max_y r + pad_y))"

definition selection_new :: "'s strategy_ops \<Rightarrow> 's \<Rightarrow> selection_mode \<Rightarrow> 's selection" where
  "selection_new st own mode =
     (case mode of
        Owned \<Rightarrow> \<lparr>owned = own, loaded = {own}, padding = None\<rparr>
      | OwnedAndNeighbours \<Rightarrow> \<lparr>owned = own, loaded = fold insert (st_neighbours st own) {own}, padding = None\<rparr>
      | OwnedAndPadded d \<Rightarrow> \<lparr>owned = own, loaded = {own}, padding = Some (padded_bounds (st_bounds st own) d)\<rparr>)"

definition selection_contains :: "'s selection \<Rightarrow> 's \<Rightarrow> bool" where
  "selection_contains sel i = (i \<in> loaded sel)"

definition padding_contains :: "'s selection \<Rightarrow> point \<Rightarrow> bool" where
  "padding_contains sel p =
     (case padding sel of
        None \<Rightarrow> False
      | Some r \<Rightarrow> fst p \<ge> min_x r \<and> fst p \<le> max_x r \<and> snd p \<ge> min_y r \<and> snd p \<le> max_y r)"

definition admits :: "'s strategy_ops \<Rightarrow> 's selection \<Rightarrow> point \<Rightarrow> bool" where
  "admits st sel pos = (padding_contains sel pos \<or> selection_contains sel (st_locate st pos))"

section \<open>The network of a selection\<close>

record ('e, 'm) shard_source =
  source_nodes :: "('e \<times> point) list"
  source_edges :: "('e \<times> 'e \<times> nat \<times> 'm) list"

record ('e, 'm, 's, 'g) sharded =
  sn_graph :: 'g
  sn_hash :: "'e \<rightharpoonup> ('e, point) node"
  sn_meta :: "'e \<rightharpoonup> 'm"
  sn_index :: "'e row_index"
  sn_index_edge :: "('e \<times> 'e) row_index"
  sn_owned :: 's
  sn_loaded :: "'s set"

definition node_new :: "point \<Rightarrow> 'e \<Rightarrow> ('e, point) node" where
  "node_new pos i = \<lparr>node_ident = i, node_position = pos\<rparr>"

definition num_nodes :: "('e, 'g) graph_ops \<Rightarrow> ('e, 'm, 's, 'g) sharded \<Rightarrow> nat" where
  "num_nodes G N = length (dg_nodes G (sn_graph N))"

definition num_edges :: "('e, 'g) graph_ops \<Rightarrow> ('e, 'm, 's, 'g) sharded \<Rightarrow> nat" where
  "num_edges G N = length (dg_all_edges G (sn_graph N))"

text \<open>
  \<open>order\<close> lists the keys of a hash map. The positions are read with \<open>hash[id]\<close>, whose panic on a
  missing key cannot occur: the rows are keys of the map.
\<close>

definition rebuild_indices ::
    "('e, 'g) graph_ops \<Rightarrow> ('e set \<Rightarrow> 'e list) \<Rightarrow> ('e, 'm, 's, 'g) sharded \<Rightarrow> ('e, 'm, 's, 'g) sharded" where
  "rebuild_indices G order N =
     (let hash = sn_hash N;
          nodes = order (dom hash);
          edges = map (\<lambda>(s, t, _). (s, t))
            (filter (\<lambda>(s, t, _). s \<in> dom hash \<and> t \<in> dom hash) (dg_all_edges G (sn_graph N)))
      in N\<lparr>sn_index := row_index_build nodes
             (\<lambda>i. (node_position (the (hash i)), node_position (the (hash i)))),
           sn_index_edge := row_index_build edges
             (\<lambda>(s, t). envelope_of (node_position (the (hash s))) (node_position (the (hash t))))\<rparr>)"

definition admit_node ::
    "('e, 'g) graph_ops \<Rightarrow> 's strategy_ops \<Rightarrow> 's selection \<Rightarrow> ('e \<rightharpoonup> point) \<Rightarrow> 'e
      \<Rightarrow> 'g \<times> ('e \<rightharpoonup> ('e, point) node) \<Rightarrow> 'g \<times> ('e \<rightharpoonup> ('e, point) node)" where
  "admit_node G st sel all_nodes i gh =
     (case all_nodes i of
        None \<Rightarrow> gh
      | Some pos \<Rightarrow>
          if admits st sel pos then (dg_add_node G (fst gh) i, (snd gh)(i \<mapsto> node_new pos i)) else gh)"

fun add_source_edge ::
    "('e, 'g) graph_ops \<Rightarrow> ('e \<rightharpoonup> point) \<Rightarrow> 'e \<times> 'e \<times> nat \<times> 'm
      \<Rightarrow> 'g \<times> ('e \<rightharpoonup> ('e, point) node) \<times> ('e \<rightharpoonup> 'm) \<Rightarrow> 'g \<times> ('e \<rightharpoonup> ('e, point) node) \<times> ('e \<rightharpoonup> 'm)" where
  "add_source_edge G all_nodes (from, to, w, m) (g, hash, meta) =
     (if hash from = None then (g, hash, meta)
      else
        (let connect = (\<lambda>g hash. (dg_add_edge G g from to (w, edge_id_new from), hash,
               if meta from = None then meta(from \<mapsto> m) else meta))
         in if hash to = None then
              (case all_nodes to of
                 Some pos \<Rightarrow> connect (dg_add_node G g to) (hash(to \<mapsto> node_new pos to))
               | None \<Rightarrow> (g, hash, meta))
            else connect g hash))"

definition from_source ::
    "('e, 'g) graph_ops \<Rightarrow> ('e set \<Rightarrow> 'e list) \<Rightarrow> ('e set \<Rightarrow> 'e list) \<Rightarrow> ('e, 'm) shard_source
      \<Rightarrow> 's strategy_ops \<Rightarrow> 's selection \<Rightarrow> ('e, 'm, 's, 'g) sharded" where
  "from_source G order order' src st sel =
     (let all_nodes = map_of (rev (source_nodes src));
          (g, hash) = fold (admit_node G st sel all_nodes) (order (dom all_nodes)) (dg_new G, Map.empty);
          (g', hash', meta) = fold (add_source_edge G all_nodes) (source_edges src) (g, hash, Map.empty)
      in rebuild_indices G order'
           \<lparr>sn_graph = g', sn_hash = hash', sn_meta = meta, sn_index = row_index_default,
            sn_index_edge = row_index_default, sn_owned = owned sel, sn_loaded = loaded sel\<rparr>)"

section \<open>The trait methods\<close>

definition fat_edge_id :: "'e \<Rightarrow> ('e, point) node edge_id" where
  "fat_edge_id i = edge_id_new (node_new (0, 0) i)"

definition fat_lookup ::
    "('e, 'g) graph_ops \<Rightarrow> ('e \<rightharpoonup> ('e, point) node) \<Rightarrow> 'g \<Rightarrow> 'e \<times> 'e \<Rightarrow> ('e, point) node edge option" where
  "fat_lookup G lookup g st =
     (case lookup (fst st) of None \<Rightarrow> None | Some src \<Rightarrow>
     (case lookup (snd st) of None \<Rightarrow> None | Some tgt \<Rightarrow>
     (case dg_edge_weight G g (node_ident src) (node_ident tgt) of None \<Rightarrow> None | Some (w, i) \<Rightarrow>
        Some \<lparr>source = src, target = tgt, weight = w,
              edge_ident = with_direction (fat_edge_id (edge_index i)) (edge_direction i)\<rparr>)))"

definition sn_edges_in_box ::
    "('e, 'g) graph_ops \<Rightarrow> rtree \<Rightarrow> ('e, 'm, 's, 'g) sharded \<Rightarrow> rect \<Rightarrow> ('e, point) node edge list" where
  "sn_edges_in_box G t N b =
     List.map_filter (fat_lookup G (sn_hash N) (sn_graph N)) (row_search t (sn_index_edge N) b)"

definition sn_nodes_in_box :: "rtree \<Rightarrow> ('e, 'm, 's, 'g) sharded \<Rightarrow> rect \<Rightarrow> ('e, point) node list" where
  "sn_nodes_in_box t N b = List.map_filter (sn_hash N) (row_search t (sn_index N) b)"

definition sn_node :: "('e, 'm, 's, 'g) sharded \<Rightarrow> 'e \<Rightarrow> ('e, point) node option" where
  "sn_node N i = sn_hash N i"

definition sn_edge :: "('e, 'g) graph_ops \<Rightarrow> ('e, 'm, 's, 'g) sharded \<Rightarrow> 'e \<Rightarrow> 'e \<Rightarrow> 'e edge option" where
  "sn_edge G N s t =
     map_option (\<lambda>(w, i). \<lparr>source = s, target = t, weight = w, edge_ident = i\<rparr>) (dg_edge_weight G (sn_graph N) s t)"

definition sn_nearest_node :: "rtree \<Rightarrow> ('e, 'm, 's, 'g) sharded \<Rightarrow> point \<Rightarrow> ('e, point) node option" where
  "sn_nearest_node t N p = (case row_nearest t (sn_index N) p of None \<Rightarrow> None | Some i \<Rightarrow> sn_hash N i)"

definition sn_route_nodes ::
    "('e, 'g) graph_ops \<Rightarrow> ('e, 'm, 's, 'g) sharded \<Rightarrow> 'e \<Rightarrow> 'e \<Rightarrow> (nat \<times> ('e, point) node list) option" where
  "sn_route_nodes G N start finish =
     map_option (\<lambda>(score, path). (score, List.map_filter (sn_hash N) path)) (dg_astar G (sn_graph N) start finish)"

definition sn_metadata :: "('e, 'm, 's, 'g) sharded \<Rightarrow> 'e \<Rightarrow> 'm option" where
  "sn_metadata N i = sn_meta N i"

definition sn_point :: "('e, 'm, 's, 'g) sharded \<Rightarrow> 'e \<Rightarrow> point option" where
  "sn_point N i = map_option node_position (sn_hash N i)"

definition sn_edges_into ::
    "('e, 'g) graph_ops \<Rightarrow> ('e, 'm, 's, 'g) sharded \<Rightarrow> 'e \<Rightarrow> ('e \<times> 'e \<times> nat \<times> 'e edge_id) list" where
  "sn_edges_into G N i = dg_incoming G (sn_graph N) i"

definition sn_edges_outof ::
    "('e, 'g) graph_ops \<Rightarrow> ('e, 'm, 's, 'g) sharded \<Rightarrow> 'e \<Rightarrow> ('e \<times> 'e \<times> nat \<times> 'e edge_id) list" where
  "sn_edges_outof G N i = dg_outgoing G (sn_graph N) i"

definition sn_fatten :: "('e, 'm, 's, 'g) sharded \<Rightarrow> 'e edge \<Rightarrow> ('e, point) node edge option" where
  "sn_fatten N e =
     (case sn_hash N (source e) of None \<Rightarrow> None | Some src \<Rightarrow>
     (case sn_hash N (target e) of None \<Rightarrow> None | Some tgt \<Rightarrow>
        Some \<lparr>source = src, target = tgt, weight = weight e, edge_ident = fat_edge_id (edge_key e)\<rparr>))"

definition sharded_network ::
    "('e, 'g) graph_ops \<Rightarrow> rtree \<Rightarrow> ('e, 'm, 's, 'g) sharded \<Rightarrow> ('e, point, 'm) network" where
  "sharded_network G t N =
     \<lparr>metadata = sn_metadata N, net_point = sn_point N, edges_outof = sn_edges_outof G N,
      edges_into = sn_edges_into G N, fatten = sn_fatten N,
      edges_in_box = (\<lambda>(lo, hi). sn_edges_in_box G t N (rect_new lo hi)),
      nodes_in_box = (\<lambda>(lo, hi). sn_nodes_in_box t N (rect_new lo hi)),
      net_edge = sn_edge G N, nearest_node = sn_nearest_node t N, route_nodes = sn_route_nodes G N\<rparr>"

end
