(* ===== verification/Shard_Laws.thy ===== *)
theory Shard_Laws
  imports Shard_Network
begin

text \<open>
  What assembling a shard establishes: the invariant of the loop over the edges of the source, and
  from it the shape of the finished network, its indices and its answers to the matcher. The laws of
  the graph, of the tree and of the iteration order are the locale \<open>shard_build\<close>, met by the list
  graph, the scanning tree and the sorted order of keys.
\<close>

section \<open>The invariant of assembly\<close>

definition known_nodes :: "('e, 'm) shard_source \<Rightarrow> 'e \<rightharpoonup> point" where
  "known_nodes src = map_of (rev (source_nodes src))"

definition admitted :: "('e, 'm) shard_source \<Rightarrow> 's strategy_ops \<Rightarrow> 's selection \<Rightarrow> 'e set" where
  "admitted src st sel = {k \<in> dom (known_nodes src). admits st sel (the (known_nodes src k))}"

definition has_edge :: "('e, 'g) graph_ops \<Rightarrow> 'g \<Rightarrow> 'e \<Rightarrow> 'e \<Rightarrow> bool" where
  "has_edge G g a b \<longleftrightarrow> dg_edge_weight G g a b \<noteq> None"

definition nodes_ok ::
    "('e, 'g) graph_ops \<Rightarrow> ('e \<rightharpoonup> point) \<Rightarrow> 'g \<Rightarrow> ('e \<rightharpoonup> ('e, point) node) \<Rightarrow> bool" where
  "nodes_ok G all_nodes g hash \<longleftrightarrow>
     set (dg_nodes G g) = dom hash \<and> (\<forall>k \<in> dom hash. k \<in> dom all_nodes \<and> hash k = map_option (\<lambda>p. node_new p k) (all_nodes k))"

text \<open>The weight of the last edge of the source between two nodes.\<close>

definition last_weight :: "('e \<times> 'e \<times> nat \<times> 'm) list \<Rightarrow> 'e \<Rightarrow> 'e \<Rightarrow> nat option" where
  "last_weight es a b = map_of (rev (map (\<lambda>(a, b, w, m). ((a, b), w)) es)) (a, b)"

lemma last_weight_append:
  "last_weight (es @ [(a, b, w, m)]) x y = (if x = a \<and> y = b then Some w else last_weight es x y)"
  by (simp add: last_weight_def)

lemma last_weight_in: "last_weight es a b = Some w \<Longrightarrow> \<exists>m. (a, b, w, m) \<in> set es"
  by (auto simp: last_weight_def dest!: map_of_SomeD)

definition edges_ok ::
    "('e, 'g) graph_ops \<Rightarrow> ('e \<times> 'e \<times> nat \<times> 'm) list \<Rightarrow> 'g \<Rightarrow> ('e \<rightharpoonup> ('e, point) node) \<Rightarrow> ('e \<rightharpoonup> 'm) \<Rightarrow> bool" where
  "edges_ok G es g hash meta \<longleftrightarrow>
     (\<forall>a b w i. dg_edge_weight G g a b = Some (w, i) \<longrightarrow> a \<in> dom hash \<and> b \<in> dom hash \<and> a \<in> dom meta
        \<and> i = edge_id_new a \<and> last_weight es a b = Some w)"

definition meta_ok ::
    "('e, 'g) graph_ops \<Rightarrow> ('e \<times> 'e \<times> nat \<times> 'm) list \<Rightarrow> 'g \<Rightarrow> ('e \<rightharpoonup> 'm) \<Rightarrow> bool" where
  "meta_ok G es g meta \<longleftrightarrow>
     (\<forall>a m. meta a = Some m \<longrightarrow> (\<exists>b w. (a, b, w, m) \<in> set es \<and> dg_edge_weight G g a b \<noteq> None))"

definition complete_for ::
    "('e, 'g) graph_ops \<Rightarrow> ('e \<rightharpoonup> point) \<Rightarrow> 'e set \<Rightarrow> ('e \<times> 'e \<times> nat \<times> 'm) list \<Rightarrow> 'g \<Rightarrow> ('e \<rightharpoonup> ('e, point) node) \<Rightarrow> bool" where
  "complete_for G all_nodes adm es g hash \<longleftrightarrow>
     adm \<subseteq> dom hash
     \<and> (\<forall>a b w m. (a, b, w, m) \<in> set es \<longrightarrow> a \<in> adm \<longrightarrow> b \<in> dom all_nodes \<longrightarrow> has_edge G g a b)
     \<and> (\<forall>k \<in> dom hash. k \<in> adm \<or> (\<exists>a. has_edge G g a k))"

definition orders :: "('e set \<Rightarrow> 'e list) \<Rightarrow> bool" where
  "orders order \<longleftrightarrow> (\<forall>A. finite A \<longrightarrow> set (order A) = A \<and> distinct (order A))"

lemma orders_sorted [simp]: "orders (sorted_list_of_set :: 'e::linorder set \<Rightarrow> 'e list)"
  by (simp add: orders_def)

lemma finite_known: "finite (dom (known_nodes src))"
  by (simp add: known_nodes_def finite_dom_map_of)

context graph_map
begin

lemma admit_step:
  assumes "nodes_ok G all_nodes g hash" "\<And>a b. dg_edge_weight G g a b = None"
  shows "\<exists>g' hash'. admit_node G st sel all_nodes k (g, hash) = (g', hash') \<and> nodes_ok G all_nodes g' hash'
    \<and> (\<forall>a b. dg_edge_weight G g' a b = None)
    \<and> dom hash' = dom hash \<union> ({k} \<inter> {k \<in> dom all_nodes. admits st sel (the (all_nodes k))})"
proof (cases "k \<in> dom all_nodes \<and> admits st sel (the (all_nodes k))")
  case True
  then obtain p where p: "all_nodes k = Some p" "admits st sel p" by auto
  have "nodes_ok G all_nodes (dg_add_node G g k) (hash(k \<mapsto> node_new p k))"
    using assms(1) p by (auto simp: nodes_ok_def nodes_add_node)
  then show ?thesis
    using assms(2) p by (intro exI [of _ "dg_add_node G g k"] exI [of _ "hash(k \<mapsto> node_new p k)"])
      (auto simp: admit_node_def weight_add_node)
next
  case False
  then have "admit_node G st sel all_nodes k (g, hash) = (g, hash)" by (auto simp: admit_node_def split: option.splits)
  then show ?thesis using assms False by auto
qed

lemma admit_fold:
  assumes "nodes_ok G all_nodes g hash" "\<And>a b. dg_edge_weight G g a b = None"
  shows "\<exists>g' hash'. fold (admit_node G st sel all_nodes) ks (g, hash) = (g', hash') \<and> nodes_ok G all_nodes g' hash'
    \<and> (\<forall>a b. dg_edge_weight G g' a b = None)
    \<and> dom hash' = dom hash \<union> (set ks \<inter> {k \<in> dom all_nodes. admits st sel (the (all_nodes k))})"
  using assms
proof (induction ks arbitrary: g hash)
  case (Cons k ks)
  from admit_step [OF Cons.prems, of st sel k] obtain g1 h1 where 1: "admit_node G st sel all_nodes k (g, hash) = (g1, h1)"
    "nodes_ok G all_nodes g1 h1" "\<And>a b. dg_edge_weight G g1 a b = None"
    "dom h1 = dom hash \<union> ({k} \<inter> {k \<in> dom all_nodes. admits st sel (the (all_nodes k))})" by auto
  from Cons.IH [OF 1(2,3)] obtain g' h' where 2: "fold (admit_node G st sel all_nodes) ks (g1, h1) = (g', h')"
    "nodes_ok G all_nodes g' h'" "\<forall>a b. dg_edge_weight G g' a b = None"
    "dom h' = dom h1 \<union> (set ks \<inter> {k \<in> dom all_nodes. admits st sel (the (all_nodes k))})" by auto
  show ?case
  proof (intro exI conjI)
    show "fold (admit_node G st sel all_nodes) (k # ks) (g, hash) = (g', h')" by (simp add: 1(1) 2(1))
    show "dom h' = dom hash \<union> (set (k # ks) \<inter> {k \<in> dom all_nodes. admits st sel (the (all_nodes k))})"
      unfolding 2(4) 1(4) by auto
  qed (fact 2)+
qed auto

text \<open>One edge between nodes of the hash.\<close>

lemma connect_ok:
  assumes "edges_ok G es g hash meta" "a \<in> dom hash" "b \<in> dom hash'" "dom hash \<subseteq> dom hash'"
    and w: "\<And>x y. dg_edge_weight G g' x y = dg_edge_weight G g x y"
  shows "edges_ok G (es @ [(a, b, w, m)]) (dg_add_edge G g' a b (w, edge_id_new a)) hash'
    (if meta a = None then meta(a \<mapsto> m) else meta)"
  unfolding edges_ok_def weight_add_edge assms(5)
proof (intro allI impI)
  fix x y v i assume v: "(if x = a \<and> y = b then Some (w, edge_id_new a) else dg_edge_weight G g x y) = Some (v, i)"
  show "x \<in> dom hash' \<and> y \<in> dom hash' \<and> x \<in> dom (if meta a = None then meta(a \<mapsto> m) else meta)
      \<and> i = edge_id_new x \<and> last_weight (es @ [(a, b, w, m)]) x y = Some v"
  proof (cases "x = a \<and> y = b")
    case True
    then have "v = w" "i = edge_id_new x" using v by auto
    then show ?thesis using True assms(2-4) by (auto simp: last_weight_append)
  next
    case False
    then have "dg_edge_weight G g x y = Some (v, i)" using v by auto
    from assms(1) [unfolded edges_ok_def, rule_format, OF this] show ?thesis
      using assms(4) False by (auto simp: last_weight_append)
  qed
qed

lemma connect_meta:
  assumes "meta_ok G es g meta" and w: "\<And>x y. dg_edge_weight G g' x y = dg_edge_weight G g x y"
  shows "meta_ok G (es @ [(a, b, w, m)]) (dg_add_edge G g' a b (w, edge_id_new a)) (if meta a = None then meta(a \<mapsto> m) else meta)"
  unfolding meta_ok_def weight_add_edge w
proof (intro allI impI)
  fix x m' assume m': "(if meta a = None then meta(a \<mapsto> m) else meta) x = Some m'"
  show "\<exists>y v. (x, y, v, m') \<in> set (es @ [(a, b, w, m)])
      \<and> (if x = a \<and> y = b then Some (w, edge_id_new a) else dg_edge_weight G g x y) \<noteq> None"
  proof (cases "meta x = Some m'")
    case True
    from assms(1) [unfolded meta_ok_def, rule_format, OF this] show ?thesis by auto
  next
    case False
    then have "x = a" "m' = m" using m' by (auto split: if_splits)
    then show ?thesis by auto
  qed
qed

definition assembled ::
    "('e \<rightharpoonup> point) \<Rightarrow> 'e set \<Rightarrow> ('e \<times> 'e \<times> nat \<times> 'm) list \<Rightarrow> 'g \<times> ('e \<rightharpoonup> ('e, point) node) \<times> ('e \<rightharpoonup> 'm) \<Rightarrow> bool" where
  "assembled all_nodes adm es st \<longleftrightarrow> (case st of (g, hash, meta) \<Rightarrow>
     nodes_ok G all_nodes g hash \<and> edges_ok G es g hash meta \<and> meta_ok G es g meta \<and> complete_for G all_nodes adm es g hash)"

lemma assembled_skip:
  assumes "assembled all_nodes adm es (g, hash, meta)" "a \<notin> dom hash \<or> b \<notin> dom all_nodes"
  shows "assembled all_nodes adm (es @ [(a, b, w, m)]) (g, hash, meta)"
proof -
  have "a \<notin> dom hash \<or> b \<notin> dom hash" using assms by (auto simp: assembled_def nodes_ok_def dom_def)
  then have "edges_ok G (es @ [(a, b, w, m)]) g hash meta"
    using assms(1) unfolding assembled_def edges_ok_def last_weight_append by (auto iff del: domIff)
  moreover have "meta_ok G (es @ [(a, b, w, m)]) g meta"
    using assms(1) unfolding assembled_def meta_ok_def by fastforce
  moreover have "complete_for G all_nodes adm (es @ [(a, b, w, m)]) g hash"
    using assms unfolding assembled_def complete_for_def by (auto iff del: domIff) blast+
  ultimately show ?thesis using assms(1) by (simp add: assembled_def)
qed

lemma assembled_link:
  assumes "assembled all_nodes adm es (g, hash, meta)" "a \<in> dom hash" "dom hash' = insert b (dom hash)"
    and "nodes_ok G all_nodes g' hash'" and w: "\<And>x y. dg_edge_weight G g' x y = dg_edge_weight G g x y"
  shows "assembled all_nodes adm (es @ [(a, b, w, m)])
    (dg_add_edge G g' a b (w, edge_id_new a), hash', if meta a = None then meta(a \<mapsto> m) else meta)"
proof -
  have "nodes_ok G all_nodes (dg_add_edge G g' a b (w, edge_id_new a)) hash'"
    using assms(2-4) by (auto simp: nodes_ok_def nodes_add_edge)
  moreover have "has_edge G (dg_add_edge G g' a b (w, edge_id_new a)) x y \<longleftrightarrow> x = a \<and> y = b \<or> has_edge G g x y" for x y
    by (auto simp: has_edge_def weight_add_edge w)
  then have "complete_for G all_nodes adm (es @ [(a, b, w, m)]) (dg_add_edge G g' a b (w, edge_id_new a)) hash'"
    using assms(1,3) unfolding assembled_def complete_for_def by auto
  moreover have "edges_ok G (es @ [(a, b, w, m)]) (dg_add_edge G g' a b (w, edge_id_new a)) hash'
      (if meta a = None then meta(a \<mapsto> m) else meta)"
    by (rule connect_ok [of es g hash]) (use assms in \<open>simp_all add: assembled_def subset_insertI\<close>)
  moreover have "meta_ok G (es @ [(a, b, w, m)]) (dg_add_edge G g' a b (w, edge_id_new a))
      (if meta a = None then meta(a \<mapsto> m) else meta)"
    by (rule connect_meta [of es g]) (use assms in \<open>simp_all add: assembled_def\<close>)
  ultimately show ?thesis by (simp add: assembled_def)
qed

lemma assembled_step:
  assumes "assembled all_nodes adm es (g, hash, meta)"
  shows "assembled all_nodes adm (es @ [(a, b, w, m)]) (add_source_edge G all_nodes (a, b, w, m) (g, hash, meta))"
proof -
  have n: "nodes_ok G all_nodes g hash" using assms by (simp add: assembled_def)
  consider "a \<notin> dom hash \<or> b \<notin> dom all_nodes \<and> b \<notin> dom hash" | "a \<in> dom hash" "b \<in> dom hash"
    | p where "a \<in> dom hash" "b \<notin> dom hash" "all_nodes b = Some p" by blast
  then show ?thesis
  proof cases
    case 1
    then have "add_source_edge G all_nodes (a, b, w, m) (g, hash, meta) = (g, hash, meta)"
      by (auto simp: Let_def domIff split: option.splits)
    then show ?thesis using assembled_skip [OF assms] 1 by auto
  next
    case 2
    then have "dom hash = insert b (dom hash)" by blast
    from assembled_link [OF assms 2(1) this n refl, of w m] show ?thesis using 2 by (auto simp: Let_def)
  next
    case 3
    have "nodes_ok G all_nodes (dg_add_node G g b) (hash(b \<mapsto> node_new p b))"
      using n 3 by (auto simp: nodes_ok_def nodes_add_node)
    then show ?thesis
      using assembled_link [OF assms, of a "hash(b \<mapsto> node_new p b)" b "dg_add_node G g b" w m] 3
      by (auto simp: Let_def weight_add_node domIff)
  qed
qed

lemma assembled_fold:
  "assembled all_nodes adm es st \<Longrightarrow> assembled all_nodes adm (es @ es') (fold (add_source_edge G all_nodes) es' st)"
proof (induction es' arbitrary: es st)
  case (Cons e es')
  have "assembled all_nodes adm (es @ [e]) (add_source_edge G all_nodes e st)"
    using assembled_step Cons.prems by (metis prod_cases3 prod_cases4)
  from Cons.IH [OF this] show ?case by simp
qed simp

text \<open>
  Nodes join only along edges of the source to known nodes, so a set that holds the admitted nodes and is
  closed under these edges holds all nodes of the network.
\<close>

lemma add_source_edge_within:
  assumes "dom hash \<subseteq> R" "a \<in> R \<Longrightarrow> b \<in> dom all_nodes \<Longrightarrow> b \<in> R"
    and "add_source_edge G all_nodes (a, b, w, m) (g, hash, meta) = (g', hash', meta')"
  shows "dom hash' \<subseteq> R"
proof -
  have "hash' = hash \<or> a \<in> dom hash \<and> b \<in> dom all_nodes \<and> (\<exists>n. hash' = hash(b \<mapsto> n))"
    using assms(3) by (auto simp: Let_def split: if_splits option.splits)
  moreover have "dom (hash(b \<mapsto> n)) \<subseteq> R" if "a \<in> dom hash" "b \<in> dom all_nodes" for n
    using assms(1) assms(2) [OF subsetD [OF assms(1) that(1)] that(2)] by simp
  ultimately show ?thesis using assms(1) by metis
qed

lemma fold_add_within:
  assumes "dom (fst (snd s)) \<subseteq> R" "\<And>a b w m. (a, b, w, m) \<in> set es \<Longrightarrow> a \<in> R \<Longrightarrow> b \<in> dom all_nodes \<Longrightarrow> b \<in> R"
  shows "dom (fst (snd (fold (add_source_edge G all_nodes) es s))) \<subseteq> R"
  using assms
proof (induction es arbitrary: s)
  case (Cons e es)
  obtain a b w m where e: "e = (a, b, w, m)" by (cases e)
  obtain g hash meta where s: "s = (g, hash, meta)" by (cases s)
  obtain g' hash' meta' where step: "add_source_edge G all_nodes e s = (g', hash', meta')" by (cases "add_source_edge G all_nodes e s")
  have "dom hash \<subseteq> R" "a \<in> R \<Longrightarrow> b \<in> dom all_nodes \<Longrightarrow> b \<in> R" using Cons.prems(1) Cons.prems(2) [of a b w m] by (simp_all add: e s)
  from add_source_edge_within [OF this step [unfolded e s]] have "dom hash' \<subseteq> R" .
  then have "dom (fst (snd (fold (add_source_edge G all_nodes) es (g', hash', meta')))) \<subseteq> R"
    by (intro Cons.IH) (simp, meson Cons.prems(2) list.set_intros(2))
  then show ?case by (simp add: step)
qed simp

text \<open>The finished network.\<close>

lemma from_source_assembled:
  assumes "orders order" and N_def: "N = from_source G order order' src st sel"
  shows "assembled (known_nodes src) (admitted src st sel) (source_edges src) (sn_graph N, sn_hash N, sn_meta N)"
    and "N = rebuild_indices G order' N" and "sn_owned N = owned sel" and "sn_loaded N = loaded sel"
proof -
  let ?all = "known_nodes src" and ?ks = "order (dom (known_nodes src))"
  have ks: "set ?ks = dom ?all" using assms(1) finite_known unfolding orders_def by blast
  have "nodes_ok G ?all (dg_new G) Map.empty" by (simp add: nodes_ok_def nodes_new)
  from admit_fold [OF this weight_new, of st sel ?ks] obtain g hash
    where 1: "fold (admit_node G st sel ?all) ?ks (dg_new G, Map.empty) = (g, hash)"
      "nodes_ok G ?all g hash" "\<forall>a b. dg_edge_weight G g a b = None" "dom hash = admitted src st sel"
    unfolding ks admitted_def by (auto simp: Int_absorb1)
  have "assembled ?all (admitted src st sel) [] (g, hash, Map.empty)"
    using 1(2-4) by (simp add: assembled_def edges_ok_def meta_ok_def complete_for_def)
  from assembled_fold [OF this, of "source_edges src"]
  obtain g' hash' meta where 2: "fold (add_source_edge G ?all) (source_edges src) (g, hash, Map.empty) = (g', hash', meta)"
    "assembled ?all (admitted src st sel) (source_edges src) (g', hash', meta)"
    by (cases "fold (add_source_edge G ?all) (source_edges src) (g, hash, Map.empty)") auto
  have N: "N = rebuild_indices G order' \<lparr>sn_graph = g', sn_hash = hash', sn_meta = meta, sn_index = row_index_default,
      sn_index_edge = row_index_default, sn_owned = owned sel, sn_loaded = loaded sel\<rparr>"
    unfolding N_def from_source_def known_nodes_def [symmetric] using 1(1) 2(1) by (simp add: Let_def)
  show "assembled ?all (admitted src st sel) (source_edges src) (sn_graph N, sn_hash N, sn_meta N)"
    using 2(2) unfolding N by (simp add: rebuild_indices_def Let_def)
  show "N = rebuild_indices G order' N" "sn_owned N = owned sel" "sn_loaded N = loaded sel"
    unfolding N by (simp_all add: rebuild_indices_def Let_def)
qed

lemma from_source_within:
  assumes "orders order" and "N = from_source G order order' src st sel" and "admitted src st sel \<subseteq> R"
    and "\<And>a b w m. (a, b, w, m) \<in> set (source_edges src) \<Longrightarrow> a \<in> R \<Longrightarrow> b \<in> dom (known_nodes src) \<Longrightarrow> b \<in> R"
  shows "dom (sn_hash N) \<subseteq> R"
proof -
  let ?all = "known_nodes src" and ?ks = "order (dom (known_nodes src))"
  have ks: "set ?ks = dom ?all" using assms(1) finite_known unfolding orders_def by blast
  have "nodes_ok G ?all (dg_new G) Map.empty" by (simp add: nodes_ok_def nodes_new)
  from admit_fold [OF this weight_new, of st sel ?ks] obtain g hash
    where 1: "fold (admit_node G st sel ?all) ?ks (dg_new G, Map.empty) = (g, hash)" "dom hash = admitted src st sel"
    unfolding ks admitted_def by (auto simp: Int_absorb1)
  obtain g' hash' meta where 2: "fold (add_source_edge G ?all) (source_edges src) (g, hash, Map.empty) = (g', hash', meta)"
    by (cases "fold (add_source_edge G ?all) (source_edges src) (g, hash, Map.empty)") auto
  have "dom hash' \<subseteq> R"
    using fold_add_within [of "(g, hash, Map.empty)" R "source_edges src" ?all] 1(2) 2 assms(3,4) by simp
  moreover have "sn_hash N = hash'"
    using 1(1) 2 by (simp add: assms(2) from_source_def Let_def rebuild_indices_def flip: known_nodes_def)
  ultimately show ?thesis by simp
qed

text \<open>Between admitted nodes the network has the edges of the source.\<close>

lemma from_source_edges:
  assumes "orders order" and "N = from_source G order order' src st sel" and a: "a \<in> admitted src st sel" "b \<in> admitted src st sel"
  shows "dg_edge_weight G (sn_graph N) a b = map_option (\<lambda>w. (w, edge_id_new a)) (last_weight (source_edges src) a b)"
proof -
  have known: "b \<in> dom (known_nodes src)" using a(2) by (auto simp: admitted_def)
  note A = from_source_assembled(1) [OF assms(1,2), unfolded assembled_def prod.case]
  have complete: "has_edge G (sn_graph N) a b" if "(a, b, w, m) \<in> set (source_edges src)" for w m
    using A that a(1) known unfolding complete_for_def by blast
  show ?thesis
  proof (cases "dg_edge_weight G (sn_graph N) a b")
    case None
    then have "last_weight (source_edges src) a b = None"
      using complete last_weight_in [of "source_edges src" a b] by (cases "last_weight (source_edges src) a b") (auto simp: has_edge_def)
    then show ?thesis using None by simp
  next
    case (Some wi)
    obtain w i where wi: "wi = (w, i)" by (cases wi)
    then have "i = edge_id_new a \<and> last_weight (source_edges src) a b = Some w"
      using A Some unfolding edges_ok_def by blast
    then show ?thesis using Some wi by simp
  qed
qed

end

section \<open>Well-formed shards\<close>

definition shard_ok :: "('e, 'g) graph_ops \<Rightarrow> ('e, 'm, 's, 'g) sharded \<Rightarrow> bool" where
  "shard_ok G N \<longleftrightarrow> finite (dom (sn_hash N)) \<and> set (dg_nodes G (sn_graph N)) = dom (sn_hash N)
     \<and> (\<forall>k n. sn_hash N k = Some n \<longrightarrow> node_ident n = k)
     \<and> (\<forall>a b w i. dg_edge_weight G (sn_graph N) a b = Some (w, i) \<longrightarrow>
          a \<in> dom (sn_hash N) \<and> b \<in> dom (sn_hash N) \<and> a \<in> dom (sn_meta N) \<and> i = edge_id_new a)"

definition indexed :: "('e, 'g) graph_ops \<Rightarrow> ('e, 'm, 's, 'g) sharded \<Rightarrow> bool" where
  "indexed G N \<longleftrightarrow> (\<exists>order. orders order \<and> N = rebuild_indices G order N)"

definition position_at :: "('e, 'm, 's, 'g) sharded \<Rightarrow> 'e \<Rightarrow> point" where
  "position_at N k = node_position (the (sn_hash N k))"

lemma rebuild_idem [simp]: "rebuild_indices G order (rebuild_indices G order' N) = rebuild_indices G order N"
  by (simp add: rebuild_indices_def Let_def)

lemma rebuild_fields [simp]:
  "sn_graph (rebuild_indices G order N) = sn_graph N" "sn_hash (rebuild_indices G order N) = sn_hash N"
  "sn_meta (rebuild_indices G order N) = sn_meta N" "sn_owned (rebuild_indices G order N) = sn_owned N"
  "sn_loaded (rebuild_indices G order N) = sn_loaded N"
  by (simp_all add: rebuild_indices_def Let_def)

lemma shard_ok_rebuild [simp]: "shard_ok G (rebuild_indices G order N) \<longleftrightarrow> shard_ok G N"
  by (simp add: shard_ok_def)

lemma indexed_rebuild: "orders order \<Longrightarrow> indexed G (rebuild_indices G order N)"
  unfolding indexed_def by (intro exI [of _ order]) simp

lemma shard_ident: "shard_ok G N \<Longrightarrow> sn_hash N k = Some n \<Longrightarrow> node_ident n = k"
  by (simp add: shard_ok_def)

lemma shard_edge:
  "shard_ok G N \<Longrightarrow> dg_edge_weight G (sn_graph N) a b = Some (w, i) \<Longrightarrow>
    a \<in> dom (sn_hash N) \<and> b \<in> dom (sn_hash N) \<and> a \<in> dom (sn_meta N) \<and> i = edge_id_new a"
  by (simp add: shard_ok_def)

lemma fat_lookup_edge:
  assumes "lookup a = Some n" "lookup a' = Some n'" "node_ident n = a" "node_ident n' = a'"
    and "dg_edge_weight G g a a' = Some (w, edge_id_new a)"
  shows "fat_lookup G lookup g (a, a') = Some \<lparr>source = n, target = n', weight = w, edge_ident = fat_edge_id a\<rparr>"
  using assms by (simp add: fat_lookup_def fat_edge_id_def)

text \<open>A network whose edges lead to known nodes never gives the successor cache a node without a position.\<close>

lemma successors_total:
  assumes "net_point n key \<noteq> None" "\<And>a nxt w e. (a, nxt, w, e) \<in> set (edges_outof n key) \<Longrightarrow> net_point n nxt \<noteq> None"
  shows "\<exists>l. successors_calculate g n accessible runtime key = Some l
    \<and> (\<forall>x \<in> set l. net_point n (fst x) \<noteq> None)"
proof -
  obtain p where p: "net_point n key = Some p" using assms(1) by blast
  let ?es = "filter (\<lambda>(_, _, _, e). case metadata n (edge_index e) of Some meta \<Rightarrow> accessible meta runtime (edge_direction e) | None \<Rightarrow> False)
    (edges_outof n key)"
  let ?f = "\<lambda>(_, nxt, w, e). (nxt, e, wad_new w (100 * haversine g p (the (net_point n nxt))))"
  have "those (map (\<lambda>(_, nxt, w, e). map_option (\<lambda>q. (nxt, e, wad_new w (100 * haversine g p q)))
      (net_point n nxt)) ?es) = Some (map ?f ?es)"
  proof (rule those_map_Some)
    fix x assume x: "x \<in> set ?es"
    obtain a nxt w e where q: "x = (a, nxt, w, e)" by (cases x)
    then obtain r where "net_point n nxt = Some r" using assms(2) [of a nxt w e] x by auto
    then show "(case x of (_, nxt, w, e) \<Rightarrow> map_option (\<lambda>q. (nxt, e, wad_new w (100 * haversine g p q)))
        (net_point n nxt)) = Some (?f x)" by (simp add: q)
  qed
  then have "successors_calculate g n accessible runtime key = Some (map ?f ?es)"
    using p by (simp add: successors_calculate_def)
  moreover have "net_point n (fst (?f x)) \<noteq> None" if x: "x \<in> set ?es" for x
  proof -
    obtain a nxt w e where "x = (a, nxt, w, e)" by (cases x)
    then show ?thesis using assms(2) [of a nxt w e] x by auto
  qed
  then have "\<forall>y \<in> set (map ?f ?es). net_point n (fst y) \<noteq> None" unfolding set_map ball_simps by (rule ballI)
  ultimately show ?thesis by blast
qed

locale shard_queries = graph_map G + spatial_tree t
  for G :: "('e, 'g) graph_ops" and t :: rtree
begin

lemma assembled_ok: "assembled all_nodes adm es (sn_graph N, sn_hash N, sn_meta N) \<Longrightarrow> finite (dom all_nodes) \<Longrightarrow> shard_ok G N"
  unfolding shard_ok_def assembled_def nodes_ok_def edges_ok_def prod.case
proof (elim conjE, intro conjI allI impI)
  assume all: "finite (dom all_nodes)"
    and h: "\<forall>k \<in> dom (sn_hash N). k \<in> dom all_nodes \<and> sn_hash N k = map_option (\<lambda>p. node_new p k) (all_nodes k)"
  show "finite (dom (sn_hash N))" by (rule finite_subset [OF _ all]) (use h in blast)
  show "node_ident n = k" if "sn_hash N k = Some n" for k n
    using h [rule_format, of k] that by (auto simp: node_new_def dom_def)
qed blast+

text \<open>A box search finds exactly the nodes in the box and the edges whose envelope meets it.\<close>

lemma nodes_in_box_exact:
  assumes "indexed G N" "shard_ok G N"
  shows "set (sn_nodes_in_box t N b) = {n. \<exists>k. sn_hash N k = Some n \<and> touches (corners_rect (node_position n, node_position n)) b}"
proof -
  obtain order where o: "orders order" "N = rebuild_indices G order N" using assms(1) by (auto simp: indexed_def)
  have "finite (dom (sn_hash N))" using assms(2) by (simp add: shard_ok_def)
  then have ks: "set (order (dom (sn_hash N))) = dom (sn_hash N)" using o(1) by (simp add: orders_def)
  have ix: "sn_index N = row_index_build (order (dom (sn_hash N))) (\<lambda>i. (position_at N i, position_at N i))"
    by (subst o(2)) (simp add: rebuild_indices_def position_at_def Let_def)
  have "set (row_search t (sn_index N) b) = {k \<in> dom (sn_hash N). touches (corners_rect (position_at N k, position_at N k)) b}"
    unfolding ix row_search_exact ks ..
  then show ?thesis by (force simp: sn_nodes_in_box_def List.map_filter_def position_at_def)
qed

lemma edges_in_box_exact:
  assumes "indexed G N" "shard_ok G N"
  shows "e \<in> set (sn_edges_in_box G t N b) \<longleftrightarrow>
    (\<exists>a a' w. dg_edge_weight G (sn_graph N) a a' = Some (w, edge_id_new a)
      \<and> touches (corners_rect (envelope_of (position_at N a) (position_at N a'))) b
      \<and> e = \<lparr>source = the (sn_hash N a), target = the (sn_hash N a'), weight = w, edge_ident = fat_edge_id a\<rparr>)"
proof -
  obtain order where o: "N = rebuild_indices G order N" using assms(1) by (auto simp: indexed_def)
  define es where "es = map (\<lambda>(s, t, _). (s, t))
    (filter (\<lambda>(s, t, _). s \<in> dom (sn_hash N) \<and> t \<in> dom (sn_hash N)) (dg_all_edges G (sn_graph N)))"
  have es: "set es = {(a, a') | a a'. dg_edge_weight G (sn_graph N) a a' \<noteq> None}"
    using shard_edge [OF assms(2)] by (force simp: es_def all_edges)
  have ix: "sn_index_edge N = row_index_build es (\<lambda>(s, t). envelope_of (position_at N s) (position_at N t))"
    unfolding es_def by (subst o) (simp add: rebuild_indices_def position_at_def Let_def)
  have hits: "set (row_search t (sn_index_edge N) b) = {(a, a') | a a'. dg_edge_weight G (sn_graph N) a a' \<noteq> None
      \<and> touches (corners_rect (envelope_of (position_at N a) (position_at N a'))) b}"
    unfolding ix row_search_exact es by auto
  have fat: "fat_lookup G (sn_hash N) (sn_graph N) (a, a')
      = Some \<lparr>source = the (sn_hash N a), target = the (sn_hash N a'), weight = w, edge_ident = fat_edge_id a\<rparr>"
      and ident: "i = edge_id_new a" if w: "dg_edge_weight G (sn_graph N) a a' = Some (w, i)" for a a' w i
    using fat_lookup_edge [of "sn_hash N" a _ a' _ G "sn_graph N" w] shard_edge [OF assms(2) w] shard_ident [OF assms(2)] w
    by auto
  have "e \<in> set (sn_edges_in_box G t N b) \<longleftrightarrow>
    (\<exists>a a'. dg_edge_weight G (sn_graph N) a a' \<noteq> None
      \<and> touches (corners_rect (envelope_of (position_at N a) (position_at N a'))) b
      \<and> fat_lookup G (sn_hash N) (sn_graph N) (a, a') = Some e)"
    unfolding sn_edges_in_box_def in_map_filter hits by blast
  moreover have "dg_edge_weight G (sn_graph N) a a' \<noteq> None \<and> fat_lookup G (sn_hash N) (sn_graph N) (a, a') = Some e
      \<longleftrightarrow> (\<exists>w. dg_edge_weight G (sn_graph N) a a' = Some (w, edge_id_new a)
          \<and> e = \<lparr>source = the (sn_hash N a), target = the (sn_hash N a'), weight = w, edge_ident = fat_edge_id a\<rparr>)" for a a'
    using fat [of a a'] ident [of a a'] by (cases "dg_edge_weight G (sn_graph N) a a'") auto
  ultimately show ?thesis by blast
qed

text \<open>The caches of the matcher never meet a node without a position.\<close>

lemma successors_defined:
  assumes "shard_ok G N" "net_point (sharded_network G t N) key \<noteq> None"
  shows "\<exists>l. successors_calculate g (sharded_network G t N) accessible runtime key = Some l
    \<and> (\<forall>x \<in> set l. net_point (sharded_network G t N) (fst x) \<noteq> None)"
proof (rule successors_total [OF assms(2)])
  fix a nxt w e assume "(a, nxt, w, e) \<in> set (edges_outof (sharded_network G t N) key)"
  then have "dg_edge_weight G (sn_graph N) key nxt = Some (w, e)"
    by (simp add: sharded_network_def sn_edges_outof_def outgoing)
  from shard_edge [OF assms(1) this] show "net_point (sharded_network G t N) nxt \<noteq> None"
    by (auto simp: sharded_network_def sn_point_def)
qed

end

interpretation list_shards: shard_queries list_graph scan_tree
  by unfold_locales

end
