(* ===== verification/Shard_Cache.thy ===== *)
theory Shard_Cache
  imports Shard_Laws
begin

unbundle bit_operations_syntax

text \<open>
  Cache bytes (\<open>network.rs\<close>), the shard loader (\<open>loader/mod.rs\<close>) and the sliding window
  (\<open>loader/window.rs\<close>). The format hash, computed by the build, the \<open>postcard\<close> codec and the fetcher
  are parameters; awaiting is a call, since every operation borrows its state exclusively.
\<close>

section \<open>Cache bytes\<close>

type_synonym bytes = "8 word list"

definition CACHE_MAGIC :: bytes where
  "CACHE_MAGIC = [0x53, 0x48, 0x52, 0x44]"

definition to_le_bytes :: "64 word \<Rightarrow> bytes" where
  "to_le_bytes v = map (\<lambda>i. ucast (drop_bit (8 * i) v)) [0..<8]"

definition from_le_bytes :: "bytes \<Rightarrow> 64 word" where
  "from_le_bytes bs = foldr (\<lambda>b acc. ucast b OR push_bit 8 acc) bs 0"

datatype cache_error = Serialise | MissingMagic | FormatHash "64 word" | Deserialise

record ('e, 'm, 's, 'g) shard_env =
  env_graph :: "('e, 'g) graph_ops"
  env_order :: "'e set \<Rightarrow> 'e list"
  format_hash :: "64 word"
  to_allocvec :: "('e, 'm, 's, 'g) sharded \<Rightarrow> bytes option"
  from_bytes :: "bytes \<Rightarrow> ('e, 'm, 's, 'g) sharded option"

definition to_cache_bytes ::
    "('e, 'm, 's, 'g) shard_env \<Rightarrow> ('e, 'm, 's, 'g) sharded \<Rightarrow> (bytes, cache_error) outcome" where
  "to_cache_bytes E N =
     (case to_allocvec E N of
        None \<Rightarrow> Err Serialise
      | Some payload \<Rightarrow> Ok (CACHE_MAGIC @ to_le_bytes (format_hash E) @ payload))"

definition from_cached_bytes ::
    "('e, 'm, 's, 'g) shard_env \<Rightarrow> bytes \<Rightarrow> (('e, 'm, 's, 'g) sharded, cache_error) outcome" where
  "from_cached_bytes E bs =
     (let header_len = length CACHE_MAGIC + 8
      in if length bs < header_len \<or> take (length CACHE_MAGIC) bs \<noteq> CACHE_MAGIC then Err MissingMagic
         else
           let version = from_le_bytes (take 8 (drop (length CACHE_MAGIC) bs))
           in if version \<noteq> format_hash E then Err (FormatHash version)
              else (case from_bytes E (drop header_len bs) of
                      None \<Rightarrow> Err Deserialise
                    | Some N \<Rightarrow> Ok (rebuild_indices (env_graph E) (env_order E) N)))"

section \<open>The shard cache and the loader\<close>

type_synonym ('e, 'm, 's, 'g) shard_cache = "'s \<rightharpoonup> ('e, 'm, 's, 'g) sharded"

datatype 'f load_error = Fetch 'f | Decode cache_error

definition cache_new :: "('e, 'm, 's, 'g) shard_cache" where
  "cache_new = Map.empty"

definition cache_contains :: "('e, 'm, 's, 'g) shard_cache \<Rightarrow> 's \<Rightarrow> bool" where
  "cache_contains c i = (c i \<noteq> None)"

definition cache_get :: "('e, 'm, 's, 'g) shard_cache \<Rightarrow> 's \<Rightarrow> ('e, 'm, 's, 'g) sharded option" where
  "cache_get c i = c i"

definition cache_insert ::
    "('e, 'm, 's, 'g) shard_cache \<Rightarrow> 's \<Rightarrow> ('e, 'm, 's, 'g) sharded
      \<Rightarrow> ('e, 'm, 's, 'g) sharded option \<times> ('e, 'm, 's, 'g) shard_cache" where
  "cache_insert c i N = (c i, c(i \<mapsto> N))"

definition cache_evict ::
    "('e, 'm, 's, 'g) shard_cache \<Rightarrow> 's \<Rightarrow> ('e, 'm, 's, 'g) sharded option \<times> ('e, 'm, 's, 'g) shard_cache" where
  "cache_evict c i = (c i, c(i := None))"

definition cache_len :: "('e, 'm, 's, 'g) shard_cache \<Rightarrow> nat" where
  "cache_len c = card (dom c)"

definition cache_is_empty :: "('e, 'm, 's, 'g) shard_cache \<Rightarrow> bool" where
  "cache_is_empty c = (dom c = {})"

text \<open>Fetching and decoding, the same two steps in the loader and in the window.\<close>

definition fetch_shard ::
    "('e, 'm, 's, 'g) shard_env \<Rightarrow> (string \<Rightarrow> (bytes, 'f) outcome) \<Rightarrow> string
      \<Rightarrow> (('e, 'm, 's, 'g) sharded, 'f load_error) outcome" where
  "fetch_shard E fetch name =
     and_then (map_err Fetch (fetch name)) (\<lambda>bs. map_err Decode (from_cached_bytes E bs))"

text \<open>
  The loader is its cache; \<open>fetch\<close> is the fetcher, \<open>naming\<close> the closure that names a shard. \<open>Panic\<close>
  is the failed \<open>expect\<close> after the insertion.
\<close>

definition load ::
    "('e, 'm, 's, 'g) shard_env \<Rightarrow> (string \<Rightarrow> (bytes, 'f) outcome) \<Rightarrow> ('s \<Rightarrow> string)
      \<Rightarrow> ('e, 'm, 's, 'g) shard_cache \<Rightarrow> 's
      \<Rightarrow> (('e, 'm, 's, 'g) sharded, 'f load_error) outcome \<times> ('e, 'm, 's, 'g) shard_cache" where
  "load E fetch naming c i =
     (case cache_get c i of
        Some N \<Rightarrow> (Ok N, c)
      | None \<Rightarrow>
          (case fetch_shard E fetch (naming i) of
             Ok N \<Rightarrow>
               (let c' = snd (cache_insert c i N)
                in (case cache_get c' i of Some shard \<Rightarrow> Ok shard | None \<Rightarrow> Panic, c'))
           | Err e \<Rightarrow> (Err e, c)
           | Panic \<Rightarrow> (Panic, c)))"

section \<open>The window\<close>

datatype 's shard_move_delta = Recentered "'s list" "'s list" | Unchanged

record ('e, 'm, 's, 'g) window =
  window_center :: "'s option"
  window_cache :: "('e, 'm, 's, 'g) shard_cache"

definition window_new :: "('e, 'm, 's, 'g) window" where
  "window_new = \<lparr>window_center = None, window_cache = Map.empty\<rparr>"

definition loaded_ids :: "('s set \<Rightarrow> 's list) \<Rightarrow> ('e, 'm, 's, 'g) window \<Rightarrow> 's list" where
  "loaded_ids order W = order (dom (window_cache W))"

definition recenter ::
    "'s strategy_ops \<Rightarrow> ('s set \<Rightarrow> 's list) \<Rightarrow> ('e, 'm, 's, 'g) window \<Rightarrow> point
      \<Rightarrow> 's shard_move_delta \<times> ('e, 'm, 's, 'g) window" where
  "recenter st order W p =
     (let candidate_center = st_locate st p
      in if window_center W = Some candidate_center then (Unchanged, W)
         else
           (let neighbours = st_neighbours st candidate_center;
                existing = loaded_ids order W;
                all_ids = neighbours @ existing @ [candidate_center];
                outside = (\<lambda>k. k \<notin> set neighbours \<and> k \<noteq> candidate_center)
            in (Recentered (filter (\<lambda>k. \<not> outside k) all_ids) (filter outside all_ids),
                W\<lparr>window_center := Some candidate_center\<rparr>)))"

definition window_evict :: "'s \<Rightarrow> ('e, 'm, 's, 'g) window \<Rightarrow> ('e, 'm, 's, 'g) window" where
  "window_evict k W = W\<lparr>window_cache := (window_cache W)(k := None)\<rparr>"

definition window_fetch ::
    "('e, 'm, 's, 'g) shard_env \<Rightarrow> (string \<Rightarrow> (bytes, 'f) outcome) \<Rightarrow> ('s \<Rightarrow> string)
      \<Rightarrow> ('e, 'm, 's, 'g) window \<Rightarrow> 's
      \<Rightarrow> (('e, 'm, 's, 'g) sharded, 'f load_error) outcome \<times> ('e, 'm, 's, 'g) window" where
  "window_fetch E fetch to_string W k =
     (case fetch_shard E fetch (to_string k) of
        Ok N \<Rightarrow> (Ok N, W\<lparr>window_cache := (window_cache W)(k \<mapsto> N)\<rparr>)
      | Err e \<Rightarrow> (Err e, W)
      | Panic \<Rightarrow> (Panic, W))"

definition window_get :: "('e, 'm, 's, 'g) window \<Rightarrow> 's \<Rightarrow> ('e, 'm, 's, 'g) sharded option" where
  "window_get W k = window_cache W k"

section \<open>Round trip\<close>

text \<open>The indices are skipped by the codec, which restores them with their default.\<close>

definition without_indices :: "('e, 'm, 's, 'g) sharded \<Rightarrow> ('e, 'm, 's, 'g) sharded" where
  "without_indices N = N\<lparr>sn_index := row_index_default, sn_index_edge := row_index_default\<rparr>"

definition codec_round_trips :: "('e, 'm, 's, 'g) shard_env \<Rightarrow> bool" where
  "codec_round_trips E \<longleftrightarrow> (\<forall>N bs. to_allocvec E N = Some bs \<longrightarrow> from_bytes E bs = Some (without_indices N))"

lemma le_fold_bit:
  fixes v :: "64 word"
  shows "bit (foldr (\<lambda>b acc. ucast (b :: 8 word) OR push_bit 8 acc) (map (\<lambda>i. ucast (drop_bit (8 * i) v)) [k..<k + n]) (0::64 word)) m
    \<longleftrightarrow> m < 64 \<and> m < 8 * n \<and> bit v (m + 8 * k)"
proof (induction n arbitrary: k m)
  case (Suc n)
  have upt: "[k..<k + Suc n] = k # [Suc k..<Suc k + n]" by (simp add: upt_conv_Cons)
  have "m + 8 * k = m - 8 + 8 * Suc k" if "\<not> m < 8" using that by simp
  then show ?case
    unfolding upt list.map foldr.simps comp_def bit_or_iff bit_push_bit_iff Suc.IH [of "Suc k"]
    by (cases "m < 8") (auto simp: bit_simps ac_simps dest: bit_imp_le_length)
qed simp

lemma le_bytes_round_trip: "from_le_bytes (to_le_bytes v) = v"
proof (rule bit_word_eqI)
  fix m assume "m < LENGTH(64)"
  then show "bit (from_le_bytes (to_le_bytes v)) m = bit v m"
    using le_fold_bit [of v 0 8 m] unfolding from_le_bytes_def to_le_bytes_def by simp
qed

lemma length_to_le_bytes [simp]: "length (to_le_bytes v) = 8"
  by (simp add: to_le_bytes_def)

lemma rebuild_without_indices [simp]: "rebuild_indices G order (without_indices N) = rebuild_indices G order N"
  by (simp add: rebuild_indices_def without_indices_def Let_def)

lemma cache_bytes_round_trip:
  assumes "codec_round_trips E" "to_cache_bytes E N = Ok bs"
  shows "from_cached_bytes E bs = Ok (rebuild_indices (env_graph E) (env_order E) N)"
  using assms le_bytes_round_trip
  by (auto simp: to_cache_bytes_def from_cached_bytes_def codec_round_trips_def CACHE_MAGIC_def Let_def split: option.splits)

text \<open>A blob of another format version is refused before it is decoded.\<close>

lemma other_version_refused:
  assumes "to_cache_bytes E N = Ok bs" "format_hash E' \<noteq> format_hash E"
  shows "from_cached_bytes E' bs = Err (FormatHash (format_hash E))"
  using assms le_bytes_round_trip [of "format_hash E"]
  by (auto simp: to_cache_bytes_def from_cached_bytes_def CACHE_MAGIC_def Let_def split: option.splits)

section \<open>Loading\<close>

lemma load_cases:
  "load E fetch naming c i =
    (case c i of
       Some N \<Rightarrow> (Ok N, c)
     | None \<Rightarrow>
         (case fetch_shard E fetch (naming i) of
            Ok N \<Rightarrow> (Ok N, c(i \<mapsto> N)) | r \<Rightarrow> (r, c)))"
  by (simp add: load_def cache_get_def cache_insert_def split: option.splits outcome.splits)

lemma load_keeps_others: "j \<noteq> i \<Longrightarrow> snd (load E fetch naming c i) j = c j"
  by (simp add: load_cases split: option.splits outcome.splits)

lemma load_twice:
  assumes "fst (load E fetch naming c i) = Ok N"
  shows "load E fetch' naming' (snd (load E fetch naming c i)) i = (Ok N, snd (load E fetch naming c i))"
  using assms by (simp add: load_cases split: option.splits outcome.splits)

section \<open>Sliding\<close>

lemma recenter_cases:
  "recenter st order W p =
    (let c = st_locate st p; scope = insert c (set (st_neighbours st c)) in
     if window_center W = Some c then (Unchanged, W)
     else (Recentered (filter (\<lambda>k. k \<in> scope) (st_neighbours st c @ loaded_ids order W @ [c]))
             (filter (\<lambda>k. k \<notin> scope) (st_neighbours st c @ loaded_ids order W @ [c])), W\<lparr>window_center := Some c\<rparr>))"
proof -
  have "(\<lambda>k. \<not> (k \<notin> A \<and> k \<noteq> c)) = (\<lambda>k. k \<in> insert c A)" "(\<lambda>k. k \<notin> A \<and> k \<noteq> c) = (\<lambda>k. k \<notin> insert c A)" for A and c :: 'a
    by auto
  then show ?thesis unfolding recenter_def Let_def by presburger
qed

lemma recenter_scope:
  assumes "orders order" "finite (dom (window_cache W))" "recenter st order W p = (Recentered scoped unscoped, W')"
  shows "set scoped = insert (st_locate st p) (set (st_neighbours st (st_locate st p)))"
    and "set unscoped = dom (window_cache W) - insert (st_locate st p) (set (st_neighbours st (st_locate st p)))"
    and "window_cache W' = window_cache W" and "window_center W' = Some (st_locate st p)"
proof -
  have l: "set (loaded_ids order W) = dom (window_cache W)" using assms(1,2) unfolding orders_def loaded_ids_def by blast
  have d: "scoped = filter (\<lambda>k. k \<in> insert (st_locate st p) (set (st_neighbours st (st_locate st p))))
        (st_neighbours st (st_locate st p) @ loaded_ids order W @ [st_locate st p])"
      "unscoped = filter (\<lambda>k. k \<notin> insert (st_locate st p) (set (st_neighbours st (st_locate st p))))
        (st_neighbours st (st_locate st p) @ loaded_ids order W @ [st_locate st p])"
      "W' = W\<lparr>window_center := Some (st_locate st p)\<rparr>"
    using assms(3) unfolding recenter_cases Let_def by (auto split: if_splits)
  show "set scoped = insert (st_locate st p) (set (st_neighbours st (st_locate st p)))"
    and "set unscoped = dom (window_cache W) - insert (st_locate st p) (set (st_neighbours st (st_locate st p)))"
    unfolding d set_filter set_append l by auto
  show "window_cache W' = window_cache W" "window_center W' = Some (st_locate st p)" by (simp_all add: d(3))
qed

lemma window_evict_cache [simp]: "window_cache (fold window_evict ks W) = (window_cache W) |` (- set ks)"
  by (induction ks arbitrary: W) (auto simp: window_evict_def restrict_map_def fun_eq_iff)

lemma window_evict_center [simp]: "window_center (fold window_evict ks W) = window_center W"
  by (induction ks arbitrary: W) (auto simp: window_evict_def)

lemma window_fetch_cache:
  "window_cache (snd (window_fetch E fetch to_string W k))
    = (case fetch_shard E fetch (to_string k) of Ok N \<Rightarrow> (window_cache W)(k \<mapsto> N) | _ \<Rightarrow> window_cache W)"
  by (simp add: window_fetch_def split: outcome.splits)

lemma window_fetch_fold:
  "window_cache (fold (\<lambda>k W. snd (window_fetch E fetch to_string W k)) ks W) j
    = (case fetch_shard E fetch (to_string j) of Ok N \<Rightarrow> if j \<in> set ks then Some N else window_cache W j | _ \<Rightarrow> window_cache W j)"
  by (induction ks arbitrary: W) (auto simp: window_fetch_cache split: outcome.splits)

lemma window_fetch_center:
  "window_center (fold (\<lambda>k W. snd (window_fetch E fetch to_string W k)) ks W) = window_center W"
  by (induction ks arbitrary: W) (auto simp: window_fetch_def split: outcome.splits)

end
