(* ===== verification/Composite.thy ===== *)
theory Composite
  imports Shard_Laws
begin

text \<open>
  Several shards behind one network (\<open>composite/mod.rs\<close>, \<open>composite/network.rs\<close>): the graphs are
  merged, nodes and metadata are looked up shard by shard, and searches over the shards drop what was
  already met.
\<close>

section \<open>The composite\<close>

record ('e, 'm, 's, 'g) multi_shard =
  ms_shards :: "('e, 'm, 's, 'g) sharded list"
  ms_graph :: 'g

definition merge_shard :: "('e, 'g) graph_ops \<Rightarrow> ('e, 'm, 's, 'g) sharded \<Rightarrow> 'g \<Rightarrow> 'g" where
  "merge_shard G N g =
     fold (\<lambda>(s, t, d) g. dg_add_edge G g s t d) (dg_all_edges G (sn_graph N))
       (fold (\<lambda>n g. dg_add_node G g n) (dg_nodes G (sn_graph N)) g)"

definition multi_shard_new :: "('e, 'g) graph_ops \<Rightarrow> ('e, 'm, 's, 'g) sharded list \<Rightarrow> ('e, 'm, 's, 'g) multi_shard" where
  "multi_shard_new G shards = \<lparr>ms_shards = shards, ms_graph = fold (merge_shard G) shards (dg_new G)\<rparr>"

definition shard_count :: "('e, 'm, 's, 'g) multi_shard \<Rightarrow> nat" where
  "shard_count M = length (ms_shards M)"

definition ms_num_nodes :: "('e, 'g) graph_ops \<Rightarrow> ('e, 'm, 's, 'g) multi_shard \<Rightarrow> nat" where
  "ms_num_nodes G M = length (dg_nodes G (ms_graph M))"

definition ms_num_edges :: "('e, 'g) graph_ops \<Rightarrow> ('e, 'm, 's, 'g) multi_shard \<Rightarrow> nat" where
  "ms_num_edges G M = length (dg_all_edges G (ms_graph M))"

definition ms_metadata :: "('e, 'm, 's, 'g) multi_shard \<Rightarrow> 'e \<Rightarrow> 'm option" where
  "ms_metadata M i = find_map (\<lambda>N. sn_meta N i) (ms_shards M)"

definition ms_node :: "('e, 'm, 's, 'g) multi_shard \<Rightarrow> 'e \<Rightarrow> ('e, point) node option" where
  "ms_node M i = find_map (\<lambda>N. sn_hash N i) (ms_shards M)"

definition ms_point :: "('e, 'm, 's, 'g) multi_shard \<Rightarrow> 'e \<Rightarrow> point option" where
  "ms_point M i = map_option node_position (ms_node M i)"

definition ms_edges_outof ::
    "('e, 'g) graph_ops \<Rightarrow> ('e, 'm, 's, 'g) multi_shard \<Rightarrow> 'e \<Rightarrow> ('e \<times> 'e \<times> nat \<times> 'e edge_id) list" where
  "ms_edges_outof G M i = dg_outgoing G (ms_graph M) i"

definition ms_edges_into ::
    "('e, 'g) graph_ops \<Rightarrow> ('e, 'm, 's, 'g) multi_shard \<Rightarrow> 'e \<Rightarrow> ('e \<times> 'e \<times> nat \<times> 'e edge_id) list" where
  "ms_edges_into G M i = dg_incoming G (ms_graph M) i"

definition ms_fatten :: "('e, 'm, 's, 'g) multi_shard \<Rightarrow> 'e edge \<Rightarrow> ('e, point) node edge option" where
  "ms_fatten M e =
     (case ms_node M (source e) of None \<Rightarrow> None | Some src \<Rightarrow>
     (case ms_node M (target e) of None \<Rightarrow> None | Some tgt \<Rightarrow>
        Some \<lparr>source = src, target = tgt, weight = weight e, edge_ident = fat_edge_id (edge_key e)\<rparr>))"

definition ms_edges_in_box ::
    "('e, 'g) graph_ops \<Rightarrow> rtree \<Rightarrow> ('e, 'm, 's, 'g) multi_shard \<Rightarrow> rect \<Rightarrow> ('e, point) node edge list" where
  "ms_edges_in_box G t M b =
     List.map_filter (fat_lookup G (ms_node M) (ms_graph M))
       (unseen (\<lambda>st. st) {} (concat (map (\<lambda>N. row_search t (sn_index_edge N) b) (ms_shards M))))"

definition ms_nodes_in_box :: "rtree \<Rightarrow> ('e, 'm, 's, 'g) multi_shard \<Rightarrow> rect \<Rightarrow> ('e, point) node list" where
  "ms_nodes_in_box t M b =
     unseen node_ident {} (List.map_filter (ms_node M)
       (concat (map (\<lambda>N. row_search t (sn_index N) b) (ms_shards M))))"

definition ms_edge :: "('e, 'g) graph_ops \<Rightarrow> ('e, 'm, 's, 'g) multi_shard \<Rightarrow> 'e \<Rightarrow> 'e \<Rightarrow> 'e edge option" where
  "ms_edge G M s t =
     map_option (\<lambda>(w, i). \<lparr>source = s, target = t, weight = w, edge_ident = i\<rparr>) (dg_edge_weight G (ms_graph M) s t)"

definition squared_distance :: "point \<Rightarrow> point \<Rightarrow> real" where
  "squared_distance a b = (fst a - fst b) ^ 2 + (snd a - snd b) ^ 2"

definition min_by_key :: "('a \<Rightarrow> 'k::linorder) \<Rightarrow> 'a list \<Rightarrow> 'a option" where
  "min_by_key key xs =
     (case xs of [] \<Rightarrow> None | y # ys \<Rightarrow> Some (fold (\<lambda>x best. if key x < key best then x else best) ys y))"

definition ms_nearest_node :: "rtree \<Rightarrow> ('e, 'm, 's, 'g) multi_shard \<Rightarrow> point \<Rightarrow> ('e, point) node option" where
  "ms_nearest_node t M p =
     min_by_key (\<lambda>n. squared_distance (node_position n) p)
       (List.map_filter (\<lambda>N. case row_nearest t (sn_index N) p of None \<Rightarrow> None | Some i \<Rightarrow> sn_hash N i) (ms_shards M))"

definition ms_route_nodes ::
    "('e, 'g) graph_ops \<Rightarrow> ('e, 'm, 's, 'g) multi_shard \<Rightarrow> 'e \<Rightarrow> 'e \<Rightarrow> (nat \<times> ('e, point) node list) option" where
  "ms_route_nodes G M start finish =
     map_option (\<lambda>(cost, path). (cost, List.map_filter (ms_node M) path)) (dg_astar G (ms_graph M) start finish)"

definition multi_shard_network ::
    "('e, 'g) graph_ops \<Rightarrow> rtree \<Rightarrow> ('e, 'm, 's, 'g) multi_shard \<Rightarrow> ('e, point, 'm) network" where
  "multi_shard_network G t M =
     \<lparr>metadata = ms_metadata M, net_point = ms_point M, edges_outof = ms_edges_outof G M,
      edges_into = ms_edges_into G M, fatten = ms_fatten M,
      edges_in_box = (\<lambda>(lo, hi). ms_edges_in_box G t M (rect_new lo hi)),
      nodes_in_box = (\<lambda>(lo, hi). ms_nodes_in_box t M (rect_new lo hi)),
      net_edge = ms_edge G M, nearest_node = ms_nearest_node t M, route_nodes = ms_route_nodes G M\<rparr>"

section \<open>Merging\<close>

context graph_map
begin

lemma merge_nodes: "set (dg_nodes G (fold (\<lambda>n g. dg_add_node G g n) ns g)) = set ns \<union> set (dg_nodes G g)"
  "dg_edge_weight G (fold (\<lambda>n g. dg_add_node G g n) ns g) a b = dg_edge_weight G g a b"
  by (induction ns arbitrary: g) (auto simp: nodes_add_node weight_add_node)

lemma merge_edges:
  assumes "\<And>x y d. (x, y, d) \<in> set es \<Longrightarrow> h x y = Some d"
  shows "dg_edge_weight G (fold (\<lambda>(s, t, d) g. dg_add_edge G g s t d) es g) a b
    = (if (a, b) \<in> (\<lambda>(x, y, d). (x, y)) ` set es then h a b else dg_edge_weight G g a b)"
  using assms
proof (induction es arbitrary: g)
  case (Cons e es)
  obtain x y d where e: "e = (x, y, d)" by (cases e)
  have "dg_edge_weight G (fold (\<lambda>(s, t, d) g. dg_add_edge G g s t d) es (dg_add_edge G g x y d)) a b
      = (if (a, b) \<in> (\<lambda>(x, y, d). (x, y)) ` set es then h a b else dg_edge_weight G (dg_add_edge G g x y d) a b)"
    by (rule Cons.IH) (meson Cons.prems list.set_intros(2))
  moreover have "h x y = Some d" using Cons.prems e by simp
  ultimately show ?case unfolding e by (simp add: weight_add_edge)
qed simp

lemma merge_shard_weight:
  "dg_edge_weight G (merge_shard G N g) a b
    = (case dg_edge_weight G (sn_graph N) a b of Some d \<Rightarrow> Some d | None \<Rightarrow> dg_edge_weight G g a b)"
proof -
  have es: "(x, y, d) \<in> set (dg_all_edges G (sn_graph N)) \<longleftrightarrow> dg_edge_weight G (sn_graph N) x y = Some d" for x y d
    by (cases d) (simp add: all_edges)
  then have "(a, b) \<in> (\<lambda>(x, y, d). (x, y)) ` set (dg_all_edges G (sn_graph N)) \<longleftrightarrow> dg_edge_weight G (sn_graph N) a b \<noteq> None"
    by (force simp: image_iff)
  then show ?thesis
    unfolding merge_shard_def using merge_edges [of "dg_all_edges G (sn_graph N)" "dg_edge_weight G (sn_graph N)"] es
    by (auto simp: merge_nodes(2) split: option.splits)
qed

lemma merge_fold_weight:
  assumes "\<And>N d. N \<in> set shards \<Longrightarrow> dg_edge_weight G (sn_graph N) a b = Some d \<Longrightarrow> d = D"
  shows "dg_edge_weight G (fold (merge_shard G) shards g) a b
    = (if \<exists>N \<in> set shards. has_edge G (sn_graph N) a b then Some D else dg_edge_weight G g a b)"
  using assms
proof (induction shards arbitrary: g)
  case (Cons N shards)
  have "dg_edge_weight G (fold (merge_shard G) shards (merge_shard G N g)) a b
      = (if \<exists>N \<in> set shards. has_edge G (sn_graph N) a b then Some D else dg_edge_weight G (merge_shard G N g) a b)"
    by (rule Cons.IH) (use Cons.prems in auto)
  then show ?case
    using Cons.prems [of N] by (cases "dg_edge_weight G (sn_graph N) a b") (auto simp: merge_shard_weight has_edge_def)
qed simp

end

section \<open>Shards of one source\<close>

definition shard_of ::
    "('e, 'g) graph_ops \<Rightarrow> ('e, 'm) shard_source \<Rightarrow> ('e, 'm, 's, 'g) sharded \<Rightarrow> bool" where
  "shard_of G src N \<longleftrightarrow> shard_ok G N \<and> indexed G N
     \<and> (\<forall>k n. sn_hash N k = Some n \<longrightarrow> known_nodes src k = Some (node_position n))
     \<and> (\<forall>a b w i. dg_edge_weight G (sn_graph N) a b = Some (w, i) \<longrightarrow> last_weight (source_edges src) a b = Some w)"

lemma shard_ofD:
  assumes "shard_of G src N"
  shows "shard_ok G N" "indexed G N" "sn_hash N k = Some n \<Longrightarrow> n = node_new (the (known_nodes src k)) k"
    "dg_edge_weight G (sn_graph N) a b = Some d \<Longrightarrow> d = (the (last_weight (source_edges src) a b), edge_id_new a)"
proof -
  show "shard_ok G N" "indexed G N" "sn_hash N k = Some n \<Longrightarrow> n = node_new (the (known_nodes src k)) k"
    using assms by (auto simp: shard_of_def shard_ok_def node_new_def intro!: node.equality)
  assume d: "dg_edge_weight G (sn_graph N) a b = Some d"
  obtain w i where "d = (w, i)" by (cases d)
  moreover have "last_weight (source_edges src) a b = Some w" "i = edge_id_new a"
    using assms d [unfolded \<open>d = (w, i)\<close>] shard_edge [of G N a b w i] unfolding shard_of_def by blast+
  ultimately show "d = (the (last_weight (source_edges src) a b), edge_id_new a)" by simp
qed

context shard_queries
begin

lemma from_source_shard_of:
  assumes "orders order" "orders order'"
  shows "shard_of G src (from_source G order order' src st sel)"
proof -
  let ?N = "from_source G order order' src st sel"
  have a: "assembled (known_nodes src) (admitted src st sel) (source_edges src) (sn_graph ?N, sn_hash ?N, sn_meta ?N)"
    by (rule from_source_assembled(1) [OF assms(1) refl])
  have "?N = rebuild_indices G order' ?N" by (rule from_source_assembled(2) [OF assms(1) refl])
  then have "indexed G ?N" using assms(2) unfolding indexed_def by blast
  moreover have "known_nodes src k = Some (node_position n)" if "sn_hash ?N k = Some n" for k n
  proof -
    have "k \<in> dom (sn_hash ?N)" using that by blast
    then have "sn_hash ?N k = map_option (\<lambda>p. node_new p k) (known_nodes src k)"
      using a unfolding assembled_def nodes_ok_def prod.case by blast
    then show ?thesis using that by (cases "known_nodes src k") (auto simp: node_new_def)
  qed
  moreover have "last_weight (source_edges src) x y = Some w" if "dg_edge_weight G (sn_graph ?N) x y = Some (w, i)" for x y w i
    using a that unfolding assembled_def edges_ok_def prod.case by blast
  ultimately show ?thesis using assembled_ok [OF a finite_known] by (auto simp: shard_of_def)
qed

lemma composite_weight:
  assumes "\<And>N. N \<in> set shards \<Longrightarrow> shard_of G src N"
  shows "dg_edge_weight G (ms_graph (multi_shard_new G shards)) a b
    = (if \<exists>N \<in> set shards. has_edge G (sn_graph N) a b
       then Some (the (last_weight (source_edges src) a b), edge_id_new a) else None)"
  unfolding multi_shard_new_def multi_shard.simps
  using merge_fold_weight [of shards a b "(the (last_weight (source_edges src) a b), edge_id_new a)" "dg_new G"]
    shard_ofD(4) [OF assms] unfolding weight_new by blast

lemma composite_node:
  assumes "\<And>N. N \<in> set shards \<Longrightarrow> shard_of G src N"
  shows "ms_node (multi_shard_new G shards) k
    = (if \<exists>N \<in> set shards. k \<in> dom (sn_hash N) then Some (node_new (the (known_nodes src k)) k) else None)"
proof (cases "ms_node (multi_shard_new G shards) k")
  case None
  then show ?thesis by (auto simp: ms_node_def multi_shard_new_def find_map_None_iff)
next
  case (Some n)
  then obtain N where "N \<in> set shards" "sn_hash N k = Some n"
    using find_map_SomeD [of _ shards n] by (auto simp: ms_node_def multi_shard_new_def)
  then show ?thesis using Some shard_ofD(3) [OF assms] by auto
qed

text \<open>Searches over the composite find what the shards find, each item once.\<close>

lemma shard_hit:
  assumes "shard_of G src N" "(a, b) \<in> set (row_search t (sn_index_edge N) r)"
  shows "fat_lookup G (sn_hash N) (sn_graph N) (a, b) = Some
      \<lparr>source = node_new (the (known_nodes src a)) a, target = node_new (the (known_nodes src b)) b,
       weight = the (last_weight (source_edges src) a b), edge_ident = fat_edge_id a\<rparr>"
    and "a \<in> dom (sn_hash N)" "b \<in> dom (sn_hash N)" "has_edge G (sn_graph N) a b"
proof -
  note N = shard_ofD [OF assms(1)]
  obtain order where o: "N = rebuild_indices G order N" using N(2) by (auto simp: indexed_def)
  have "(a, b) \<in> set (rows (sn_index_edge N))" by (rule subsetD [OF row_search_subset assms(2)])
  then have "\<exists>w i. (a, b, w, i) \<in> set (dg_all_edges G (sn_graph N))"
    by (subst (asm) o) (auto simp: rebuild_indices_def row_index_build_def Let_def)
  then obtain w i where w: "dg_edge_weight G (sn_graph N) a b = Some (w, i)" by (auto simp: all_edges)
  then show "has_edge G (sn_graph N) a b" by (simp add: has_edge_def)
  obtain n n' where n: "sn_hash N a = Some n" "sn_hash N b = Some n'" using shard_edge [OF N(1) w] by blast
  then show "a \<in> dom (sn_hash N)" "b \<in> dom (sn_hash N)" by blast+
  have n_eq: "n = node_new (the (known_nodes src a)) a" "n' = node_new (the (known_nodes src b)) b" using N(3) n by blast+
  then have ident: "node_ident n = a" "node_ident n' = b" by (simp_all add: node_new_def)
  have "(w, i) = (the (last_weight (source_edges src) a b), edge_id_new a)" by (rule N(4) [OF w])
  then have w': "dg_edge_weight G (sn_graph N) a b = Some (w, edge_id_new a)" "w = the (last_weight (source_edges src) a b)"
    using w by simp_all
  from fat_lookup_edge [OF n ident w'(1)] show "fat_lookup G (sn_hash N) (sn_graph N) (a, b) = Some
      \<lparr>source = node_new (the (known_nodes src a)) a, target = node_new (the (known_nodes src b)) b,
       weight = the (last_weight (source_edges src) a b), edge_ident = fat_edge_id a\<rparr>"
    unfolding n_eq w'(2) .
qed

lemma composite_hit:
  assumes shards: "\<And>N. N \<in> set shards \<Longrightarrow> shard_of G src N" and N: "N \<in> set shards"
    and hit: "x \<in> set (row_search t (sn_index_edge N) r)"
  shows "fat_lookup G (ms_node (multi_shard_new G shards)) (ms_graph (multi_shard_new G shards)) x
    = fat_lookup G (sn_hash N) (sn_graph N) x"
proof -
  obtain a b where x: "x = (a, b)" by (cases x)
  note h = shard_hit [OF shards [OF N] hit [unfolded x]]
  have "ms_node (multi_shard_new G shards) a = Some (node_new (the (known_nodes src a)) a)"
    "ms_node (multi_shard_new G shards) b = Some (node_new (the (known_nodes src b)) b)"
    using composite_node [OF shards] h(2,3) N by auto
  moreover have "dg_edge_weight G (ms_graph (multi_shard_new G shards)) a b
      = Some (the (last_weight (source_edges src) a b), edge_id_new a)"
    using composite_weight [OF shards] h(4) N by auto
  ultimately show ?thesis
    unfolding x h(1) by (intro fat_lookup_edge) (simp_all add: node_new_def)
qed

lemma composite_edges_in_box:
  assumes shards: "\<And>N. N \<in> set shards \<Longrightarrow> shard_of G src N"
  shows "set (ms_edges_in_box G t (multi_shard_new G shards) r) = (\<Union>N \<in> set shards. set (sn_edges_in_box G t N r))"
proof -
  have "ms_shards (multi_shard_new G shards) = shards" by (simp add: multi_shard_new_def)
  then show ?thesis
    using composite_hit [OF shards, where r = r]
    by (auto simp: ms_edges_in_box_def sn_edges_in_box_def in_map_filter; metis)
qed

lemma composite_edges_distinct:
  assumes shards: "\<And>N. N \<in> set shards \<Longrightarrow> shard_of G src N"
  shows "distinct (map (\<lambda>e. (node_ident (source e), node_ident (target e))) (ms_edges_in_box G t (multi_shard_new G shards) r))"
proof -
  let ?M = "multi_shard_new G shards" and ?ends = "\<lambda>e. (node_ident (source e), node_ident (target e))"
  define xs where "xs = unseen (\<lambda>st. st) {} (concat (map (\<lambda>N. row_search t (sn_index_edge N) r) shards))"
  have "distinct xs" using distinct_unseen [of "\<lambda>st. st"] by (simp add: xs_def)
  moreover have "map_option ?ends (fat_lookup G (ms_node ?M) (ms_graph ?M) x) = Some x" if "x \<in> set xs" for x
  proof -
    obtain N where N: "N \<in> set shards" "x \<in> set (row_search t (sn_index_edge N) r)" using \<open>x \<in> set xs\<close> by (auto simp: xs_def)
    obtain a b where x: "x = (a, b)" by (cases x)
    show ?thesis
      using composite_hit [OF shards N] shard_hit(1) [OF shards [OF N(1)] N(2) [unfolded x]] by (simp add: x node_new_def)
  qed
  ultimately have "map ?ends (List.map_filter (fat_lookup G (ms_node ?M) (ms_graph ?M)) xs) = xs"
    by (intro map_filter_inverse) blast
  moreover have "ms_edges_in_box G t ?M r = List.map_filter (fat_lookup G (ms_node ?M) (ms_graph ?M)) xs"
    by (simp add: ms_edges_in_box_def xs_def multi_shard_new_def)
  ultimately show ?thesis using \<open>distinct xs\<close> by simp
qed

lemma composite_nodes_in_box:
  assumes shards: "\<And>N. N \<in> set shards \<Longrightarrow> shard_of G src N"
  shows "set (ms_nodes_in_box t (multi_shard_new G shards) r) = (\<Union>N \<in> set shards. set (sn_nodes_in_box t N r))"
    and "distinct (map node_ident (ms_nodes_in_box t (multi_shard_new G shards) r))"
proof -
  let ?M = "multi_shard_new G shards"
  let ?ns = "List.map_filter (ms_node ?M) (concat (map (\<lambda>N. row_search t (sn_index N) r) shards))"
  have M: "ms_nodes_in_box t ?M r = unseen node_ident {} ?ns" by (simp add: ms_nodes_in_box_def multi_shard_new_def)
  show "distinct (map node_ident (ms_nodes_in_box t ?M r))" unfolding M by (rule distinct_unseen)
  have hit: "ms_node ?M k = sn_hash N k \<and> sn_hash N k = Some (node_new (the (known_nodes src k)) k)"
    if N: "N \<in> set shards" and k: "k \<in> set (row_search t (sn_index N) r)" for N k
  proof -
    note o = shard_ofD [OF shards [OF N]]
    obtain order where ord: "orders order" "N = rebuild_indices G order N" using o(2) by (auto simp: indexed_def)
    have "k \<in> set (rows (sn_index N))" by (rule subsetD [OF row_search_subset k])
    then have "k \<in> set (order (dom (sn_hash N)))"
      by (subst (asm) ord(2)) (simp add: rebuild_indices_def row_index_build_def Let_def)
    moreover have "finite (dom (sn_hash N))" using o(1) by (simp add: shard_ok_def)
    ultimately have "k \<in> dom (sn_hash N)" using ord(1) by (simp add: orders_def)
    then show ?thesis using composite_node [OF shards, where k = k] o(3) N by auto
  qed
  have "set ?ns = (\<Union>N \<in> set shards. set (sn_nodes_in_box t N r))"
    using hit by (auto simp: in_map_filter sn_nodes_in_box_def; metis)
  moreover have "inj_on node_ident (set ?ns)"
  proof (rule inj_onI)
    fix x y assume "x \<in> set ?ns" "y \<in> set ?ns" and e: "node_ident x = node_ident y"
    then obtain j k where "ms_node ?M j = Some x" "ms_node ?M k = Some y" by (auto simp: in_map_filter)
    then have "x = node_new (the (known_nodes src j)) j" "y = node_new (the (known_nodes src k)) k"
      using composite_node [OF shards, where k = j] composite_node [OF shards, where k = k] by (auto split: if_splits)
    then show "x = y" using e by (simp add: node_new_def)
  qed
  moreover have "node_ident ` set (unseen node_ident {} ?ns) = node_ident ` set ?ns" unfolding keys_unseen by simp
  ultimately show "set (ms_nodes_in_box t ?M r) = (\<Union>N \<in> set shards. set (sn_nodes_in_box t N r))"
    unfolding M using set_unseen_subset by (metis inj_on_image_eq_iff order_refl)
qed

lemma composite_successors:
  assumes shards: "\<And>N. N \<in> set shards \<Longrightarrow> shard_of G src N"
    and key: "net_point (multi_shard_network G t (multi_shard_new G shards)) key \<noteq> None"
  shows "\<exists>l. successors_calculate g (multi_shard_network G t (multi_shard_new G shards)) accessible runtime key = Some l
    \<and> (\<forall>x \<in> set l. net_point (multi_shard_network G t (multi_shard_new G shards)) (fst x) \<noteq> None)"
proof (rule successors_total [OF key])
  let ?M = "multi_shard_new G shards"
  fix a nxt w e assume "(a, nxt, w, e) \<in> set (edges_outof (multi_shard_network G t ?M) key)"
  then have "dg_edge_weight G (ms_graph ?M) key nxt = Some (w, e)"
    by (simp add: multi_shard_network_def ms_edges_outof_def outgoing)
  then obtain N where N: "N \<in> set shards" "has_edge G (sn_graph N) key nxt"
    using composite_weight [OF shards, where a = key and b = nxt] by (auto split: if_splits)
  then obtain w' i where "dg_edge_weight G (sn_graph N) key nxt = Some (w', i)" by (auto simp: has_edge_def)
  from shard_edge [OF shard_ofD(1) [OF shards [OF N(1)]] this] have "nxt \<in> dom (sn_hash N)" by blast
  then have "ms_node ?M nxt \<noteq> None" using composite_node [OF shards, where k = nxt] N(1) by auto
  then show "net_point (multi_shard_network G t ?M) nxt \<noteq> None" by (simp add: multi_shard_network_def ms_point_def)
qed

end

lemma min_by_key_least:
  "min_by_key key xs = Some y \<Longrightarrow> y \<in> set xs \<and> (\<forall>x \<in> set xs. key y \<le> key x)"
proof -
  have "fold (\<lambda>x best. if key x < key best then x else best) ys y \<in> insert y (set ys)
      \<and> (\<forall>x \<in> insert y (set ys). key (fold (\<lambda>x best. if key x < key best then x else best) ys y) \<le> key x)" for ys y
    by (induction ys arbitrary: y) (auto, fastforce+)
  then show "min_by_key key xs = Some y \<Longrightarrow> y \<in> set xs \<and> (\<forall>x \<in> set xs. key y \<le> key x)"
    by (cases xs) (auto simp: min_by_key_def)
qed

lemma composite_nearest:
  assumes "ms_nearest_node t (multi_shard_new G shards) p = Some n"
  shows "(\<exists>N \<in> set shards. sn_nearest_node t N p = Some n)
    \<and> (\<forall>N \<in> set shards. \<forall>n'. sn_nearest_node t N p = Some n'
        \<longrightarrow> squared_distance (node_position n) p \<le> squared_distance (node_position n') p)"
proof -
  have "ms_nearest_node t (multi_shard_new G shards) p
      = min_by_key (\<lambda>n. squared_distance (node_position n) p) (List.map_filter (\<lambda>N. sn_nearest_node t N p) shards)"
    by (simp add: ms_nearest_node_def sn_nearest_node_def multi_shard_new_def)
  from min_by_key_least [OF trans [OF this [symmetric] assms]] show ?thesis
    using in_map_filter [of _ "\<lambda>N. sn_nearest_node t N p" shards] by blast
qed

end
