(* ===== verification/Shard_Theorems.thy ===== *)
theory Shard_Theorems
  imports Quadtree Geohash Shard_Cache Composite
begin

text \<open>
  The properties of the sharding crate: cells tile the world and have unique names, a shard holds what
  its selection admits and answers the matcher completely, shards compose into one network, survive
  their cache bytes, and a moved window holds exactly the cells around its centre.
\<close>

section \<open>Strategies and samples\<close>

definition quad_strategy_ops :: "nat \<Rightarrow> quadkey strategy_ops" where
  "quad_strategy_ops d = \<lparr>st_locate = quad_locate d, st_bounds = quad_bounds, st_neighbours = quad_neighbours d\<rparr>"

definition geohash_strategy_ops :: "nat \<Rightarrow> geohash strategy_ops" where
  "geohash_strategy_ops n =
     \<lparr>st_locate = geohash_locate n, st_bounds = geohash_bounds, st_neighbours = geohash_neighbours n\<rparr>"

text \<open>Two nodes either side of the meridian, an edge across it, and the hemispheres as shards.\<close>

definition hemispheres :: "bool strategy_ops" where
  "hemispheres = \<lparr>st_locate = (\<lambda>p. fst p \<ge> 0), st_bounds = (\<lambda>e. world), st_neighbours = (\<lambda>e. [\<not> e])\<rparr>"

definition sample_source :: "(nat, unit) shard_source" where
  "sample_source = \<lparr>source_nodes = [(0, (-1, 0)), (1, (1, 0))], source_edges = [(0, 1, 4, ()), (0, 1, 5, ())]\<rparr>"

definition west :: "bool selection" where
  "west = selection_new hemispheres False Owned"

abbreviation west_shard :: "(nat, unit, bool, nat list_graph) sharded" where
  "west_shard \<equiv> from_source list_graph sorted_list_of_set sorted_list_of_set sample_source hemispheres west"

definition flat_geo :: "point geo" where
  "flat_geo = \<lparr>haversine = (\<lambda>a b. \<bar>fst a - fst b\<bar> + \<bar>snd a - snd b\<bar>), bearing = (\<lambda>a b. 0),
     line_locate_point = (\<lambda>ps p. None), point_at_ratio = (\<lambda>a b r. a), square_box = (\<lambda>p d. (p, p))\<rparr>"

lemma known_sample: "known_nodes sample_source = [0 \<mapsto> (-1, 0), 1 \<mapsto> (1, 0)]"
  by (rule ext) (simp add: known_nodes_def sample_source_def)

lemma admitted_sample: "admitted sample_source hemispheres west = {0}"
  by (auto simp: admitted_def known_sample admits_def padding_contains_def selection_contains_def
      west_def selection_new_def hemispheres_def split: if_splits)

lemma last_weight_sample: "last_weight (source_edges sample_source) 0 1 = Some 5"
  by (simp add: sample_source_def last_weight_def)

lemma west_edge: "has_edge list_graph (sn_graph west_shard) 0 1" "0 \<in> dom (sn_hash west_shard)"
proof -
  have "complete_for list_graph (known_nodes sample_source) (admitted sample_source hemispheres west) (source_edges sample_source)
      (sn_graph west_shard) (sn_hash west_shard)"
    using lists.from_source_assembled(1) [OF orders_sorted refl,
        where order' = sorted_list_of_set and src = sample_source and st = hemispheres and sel = west]
    by (simp add: lists.assembled_def)
  moreover have "(0, 1, 4, ()) \<in> set (source_edges sample_source)" by (simp add: sample_source_def)
  moreover have "0 \<in> admitted sample_source hemispheres west" "1 \<in> dom (known_nodes sample_source)"
    by (simp_all add: admitted_sample known_sample)
  ultimately show "has_edge list_graph (sn_graph west_shard) 0 1" "0 \<in> dom (sn_hash west_shard)"
    unfolding complete_for_def by blast+
qed

section \<open>Cells\<close>

text \<open>
  The cells of a quad-tree strategy of any allowed depth tile the world: every point, clamped into
  the world, lies in the cell it is located in, every point properly inside a cell is located there,
  and the neighbours of a cell are exactly the other cells of that depth that touch it, each once.
\<close>

theorem quad_cells_tile:
  assumes "quad_with_depth depth = Some d" and "quad_valid d k"
  shows "quad_valid d (quad_locate d p) \<and> strategy_contains quad_bounds (quad_locate d p) (clamp_world p)
    \<and> (in_half_open (quad_bounds k) p \<longrightarrow> quad_locate d p = k)
    \<and> distinct (quad_neighbours d k)
    \<and> set (quad_neighbours d k) = {j. quad_valid d j \<and> j \<noteq> k \<and> touches (quad_bounds k) (quad_bounds j)}"
proof -
  have "d \<le> MAX_DEPTH" using assms(1) by (auto simp: quad_with_depth_def split: if_splits)
  then have q: "quad_strategy d" by (rule quad_strategy.intro)
  show ?thesis by (rule quad_strategy.quad_tiles [OF q assms(2)])
qed

theorem quad_cells_tile_witness:
  "quad_locate 1 (-90, -45) = \<lparr>qk_depth = 1, qk_bits = 0\<rparr>
    \<and> \<lparr>qk_depth = 1, qk_bits = 0\<rparr> \<notin> set (quad_neighbours 1 \<lparr>qk_depth = 1, qk_bits = 0\<rparr>)"
proof -
  let ?k = "\<lparr>qk_depth = 1, qk_bits = 0 :: 64 word\<rparr>"
  have "quad_with_depth 1 = Some 1" by (simp add: quad_with_depth_def MAX_DEPTH_def)
  moreover have "quad_valid 1 ?k" by (simp add: quad_valid_def)
  moreover have "in_half_open (quad_bounds ?k) (-90, -45)"
    by (simp add: quad_bounds_def in_half_open_def world_def halve_x_def halve_y_def child_at_def Let_def)
  ultimately show ?thesis using quad_cells_tile [of 1 1 ?k "(-90, -45)"] by simp
qed

text \<open>
  (C19) The same holds of the geohash strategy at every precision from one to twelve characters.
\<close>

theorem geohash_cells_tile:
  assumes "geohash_with_precision precision = Some n" and "geohash_valid n k"
  shows "geohash_valid n (geohash_locate n p) \<and> strategy_contains geohash_bounds (geohash_locate n p) (clamp_world p)
    \<and> (in_half_open (geohash_bounds k) p \<longrightarrow> geohash_locate n p = k)
    \<and> distinct (geohash_neighbours n k)
    \<and> set (geohash_neighbours n k) = {j. geohash_valid n j \<and> j \<noteq> k \<and> touches (geohash_bounds k) (geohash_bounds j)}"
proof -
  have "1 \<le> n" "n \<le> 12" using assms(1) by (auto simp: geohash_with_precision_def split: if_splits)
  then have q: "geohash_strategy n" by (rule geohash_strategy.intro)
  show ?thesis by (rule geohash_strategy.geohash_tiles [OF q assms(2)])
qed

abbreviation zero_hash :: "nat \<Rightarrow> geohash" where
  "zero_hash n \<equiv> \<lparr>gh_data = replicate 12 0, gh_precision = n\<rparr>"

lemma zero_hash_valid: "n \<le> 12 \<Longrightarrow> geohash_valid n (zero_hash n)"
  by (simp add: geohash_valid_def small_def list_all_iff)

theorem geohash_cells_tile_witness:
  "geohash_valid 1 (geohash_locate 1 (0, 0)) \<and> zero_hash 1 \<notin> set (geohash_neighbours 1 (zero_hash 1))"
proof -
  have "geohash_with_precision 1 = Some 1" by (simp add: geohash_with_precision_def)
  from geohash_cells_tile [OF this zero_hash_valid, of "(0, 0)"] show ?thesis by simp
qed

text \<open>
  Printing a geohash never indexes outside the alphabet, and parsing what it prints gives the
  hash back.
\<close>

theorem geohash_text_round_trip:
  assumes "geohash_valid n g" and "1 \<le> n" and "n \<le> 12"
  shows "\<exists>s. geohash_display g = Some s \<and> length s = n \<and> geohash_from_str s = Ok g"
  by (rule geohash_print_parse [OF assms])

theorem geohash_text_round_trip_witness:
  "\<exists>s. geohash_display (zero_hash 3) = Some s \<and> length s = 3 \<and> geohash_from_str s = Ok (zero_hash 3)"
  by (rule geohash_text_round_trip [OF zero_hash_valid]) simp_all

text \<open>
  Parsing compares the low byte of each character with the alphabet and counts bytes for the
  precision, so a character outside ASCII can be accepted, here U+0130 as a hash of precision two.
\<close>

lemma geohash_accepts_non_ascii: "geohash_from_str [304] = Ok (zero_hash 2)"
  by code_simp

text \<open>
  Shards are fetched by the printed form of their key, and distinct keys of one strategy have
  distinct names, for both strategies.
\<close>

theorem shard_names_unique:
  shows "inj_on quadkey_display {k. quad_valid d k} \<and> inj_on geohash_display {g. 1 \<le> n \<and> n \<le> 12 \<and> geohash_valid n g}"
proof
  show "inj_on quadkey_display {k. quad_valid d k}" by (rule inj_onI) (use quadkey_display_inj in blast)
  show "inj_on geohash_display {g. 1 \<le> n \<and> n \<le> 12 \<and> geohash_valid n g}"
  proof (rule inj_onI)
    fix g g' assume "g \<in> {g. 1 \<le> n \<and> n \<le> 12 \<and> geohash_valid n g}" "g' \<in> {g. 1 \<le> n \<and> n \<le> 12 \<and> geohash_valid n g}"
      and same: "geohash_display g = geohash_display g'"
    then obtain s s' where "geohash_display g = Some s" "geohash_from_str s = Ok g"
      "geohash_display g' = Some s'" "geohash_from_str s' = Ok g'"
      using geohash_print_parse [of n g] geohash_print_parse [of n g'] by blast
    then show "g = g'" using same by simp
  qed
qed

section \<open>Shards\<close>

text \<open>
  (C20) A shard built from a source restricts the source to the admitted nodes, those of its loaded cells and
  padding: it holds all of them, and between two of them exactly the edges of the source, with the weight
  of the last one. If no edge of the source leads from an admitted node to a known node outside, the
  shard is this restriction and nothing else. Nodes have the positions of the source, edges join
  two held nodes and start where metadata is held, and whatever else is held is reached from an
  admitted node along edges of the source.
\<close>

theorem from_source_faithful:
  assumes "graph_map G" and "orders order" and "N = from_source G order order' src st sel"
  shows "admitted src st sel \<subseteq> dom (sn_hash N) \<and> set (dg_nodes G (sn_graph N)) = dom (sn_hash N)
    \<and> (\<forall>k \<in> dom (sn_hash N). sn_hash N k = map_option (\<lambda>p. node_new p k) (known_nodes src k)
        \<and> (\<exists>a \<in> admitted src st sel. (a, k) \<in> {(x, y). \<exists>w m. (x, y, w, m) \<in> set (source_edges src)}\<^sup>*))
    \<and> (\<forall>a b w i. dg_edge_weight G (sn_graph N) a b = Some (w, i) \<longrightarrow>
        a \<in> dom (sn_hash N) \<and> b \<in> dom (sn_hash N) \<and> a \<in> dom (sn_meta N) \<and> last_weight (source_edges src) a b = Some w)
    \<and> (\<forall>a \<in> admitted src st sel. \<forall>b \<in> admitted src st sel. dg_edge_weight G (sn_graph N) a b
        = map_option (\<lambda>w. (w, edge_id_new a)) (last_weight (source_edges src) a b))
    \<and> ((\<forall>(a, b, w, m) \<in> set (source_edges src). a \<in> admitted src st sel \<longrightarrow> b \<in> dom (known_nodes src) \<longrightarrow> b \<in> admitted src st sel)
        \<longrightarrow> dom (sn_hash N) = admitted src st sel
          \<and> (\<forall>a b. a \<notin> admitted src st sel \<or> b \<notin> admitted src st sel \<longrightarrow> dg_edge_weight G (sn_graph N) a b = None))"
proof -
  let ?adm = "admitted src st sel" and ?links = "{(x, y). \<exists>w m. (x, y, w, m) \<in> set (source_edges src)}"
  note A = graph_map.from_source_assembled(1) [OF assms, unfolded graph_map.assembled_def [OF assms(1)] prod.case]
  have adm: "?adm \<subseteq> dom (sn_hash N)" using A unfolding complete_for_def by blast
  have nodes: "set (dg_nodes G (sn_graph N)) = dom (sn_hash N)"
      "\<forall>k \<in> dom (sn_hash N). sn_hash N k = map_option (\<lambda>p. node_new p k) (known_nodes src k)"
    using A unfolding nodes_ok_def by blast+
  have edges: "\<forall>a b w i. dg_edge_weight G (sn_graph N) a b = Some (w, i) \<longrightarrow>
      a \<in> dom (sn_hash N) \<and> b \<in> dom (sn_hash N) \<and> a \<in> dom (sn_meta N) \<and> last_weight (source_edges src) a b = Some w"
    using A unfolding edges_ok_def by blast
  have "dom (sn_hash N) \<subseteq> ?links\<^sup>* `` ?adm"
    by (rule graph_map.from_source_within [OF assms]) (auto intro: rtrancl_into_rtrancl)
  then have held: "\<forall>k \<in> dom (sn_hash N). sn_hash N k = map_option (\<lambda>p. node_new p k) (known_nodes src k) \<and> (\<exists>a \<in> ?adm. (a, k) \<in> ?links\<^sup>*)"
    using nodes(2) by blast
  have restricted: "\<forall>a \<in> ?adm. \<forall>b \<in> ?adm. dg_edge_weight G (sn_graph N) a b
      = map_option (\<lambda>w. (w, edge_id_new a)) (last_weight (source_edges src) a b)"
    by (intro ballI graph_map.from_source_edges [OF assms])
  have outside: "dg_edge_weight G (sn_graph N) a b = None" if "a \<notin> dom (sn_hash N) \<or> b \<notin> dom (sn_hash N)" for a b
    using edges [THEN spec [of _ a], THEN spec [of _ b]] that by (metis option.exhaust surj_pair)
  have closed: "(\<forall>(a, b, w, m) \<in> set (source_edges src). a \<in> ?adm \<longrightarrow> b \<in> dom (known_nodes src) \<longrightarrow> b \<in> ?adm)
      \<longrightarrow> dom (sn_hash N) = ?adm \<and> (\<forall>a b. a \<notin> ?adm \<or> b \<notin> ?adm \<longrightarrow> dg_edge_weight G (sn_graph N) a b = None)"
  proof
    assume "\<forall>(a, b, w, m) \<in> set (source_edges src). a \<in> ?adm \<longrightarrow> b \<in> dom (known_nodes src) \<longrightarrow> b \<in> ?adm"
    then have "dom (sn_hash N) \<subseteq> ?adm" by (intro graph_map.from_source_within [OF assms]) auto
    then have "dom (sn_hash N) = ?adm" using adm by (rule subset_antisym)
    then show "dom (sn_hash N) = ?adm \<and> (\<forall>a b. a \<notin> ?adm \<or> b \<notin> ?adm \<longrightarrow> dg_edge_weight G (sn_graph N) a b = None)"
      using outside by simp
  qed
  show ?thesis by (intro conjI adm nodes(1) held edges restricted closed)
qed

definition globe :: "bool selection" where
  "globe = west\<lparr>loaded := UNIV\<rparr>"

lemma admitted_globe: "admitted sample_source hemispheres globe = {0, 1}"
  by (auto simp: admitted_def known_sample admits_def padding_contains_def selection_contains_def
      globe_def west_def selection_new_def hemispheres_def split: if_splits)

theorem from_source_faithful_witness:
  "dg_edge_weight list_graph (sn_graph (from_source list_graph sorted_list_of_set sorted_list_of_set sample_source hemispheres globe)) 0 1
      = Some (5, edge_id_new 0)
    \<and> dom (sn_hash (from_source list_graph sorted_list_of_set sorted_list_of_set sample_source hemispheres globe)) = {0, 1}"
proof -
  note f = from_source_faithful [OF lists.graph_map_axioms orders_sorted refl,
      where order' = sorted_list_of_set and src = sample_source and st = hemispheres and sel = globe, unfolded admitted_globe]
  have "\<forall>(a, b, w, m) \<in> set (source_edges sample_source). a \<in> {0, 1} \<longrightarrow> b \<in> dom (known_nodes sample_source) \<longrightarrow> b \<in> {0, 1 :: nat}"
    by (simp add: sample_source_def)
  note f [THEN conjunct2, THEN conjunct2, THEN conjunct2, THEN conjunct2, THEN conjunct2, THEN mp, OF this]
  moreover note f [THEN conjunct2, THEN conjunct2, THEN conjunct2, THEN conjunct2, THEN conjunct1, rule_format, of 0 1]
  ultimately show ?thesis unfolding last_weight_sample by simp
qed

text \<open>The target of an edge of a held node is held too, although it lies outside the selection.\<close>

lemma target_outside_is_held: "1 \<notin> admitted sample_source hemispheres west \<and> 1 \<in> dom (sn_hash west_shard)"
proof -
  have "edges_ok list_graph (source_edges sample_source) (sn_graph west_shard) (sn_hash west_shard) (sn_meta west_shard)"
    using lists.from_source_assembled(1) [OF orders_sorted refl,
        where order' = sorted_list_of_set and src = sample_source and st = hemispheres and sel = west]
    by (simp add: lists.assembled_def)
  then show ?thesis using west_edge(1) unfolding admitted_sample has_edge_def edges_ok_def by fastforce
qed

text \<open>
  (C21) A shard built from a source answers the matcher completely: a box search returns exactly the
  nodes in the box and exactly the edges whose envelope meets it, and the successor cache is defined on
  every node of the shard and only leads to nodes of the shard.
\<close>

theorem shard_serves_matcher:
  assumes "shard_queries G t" and "orders order" and "orders order'" and N: "N = from_source G order order' src st sel"
  shows "set (nodes_in_box (sharded_network G t N) (lo, hi))
      = {n. \<exists>k. sn_hash N k = Some n \<and> touches (corners_rect (node_position n, node_position n)) (rect_new lo hi)}
    \<and> set (edges_in_box (sharded_network G t N) (lo, hi))
      = {\<lparr>source = the (sn_hash N a), target = the (sn_hash N b), weight = w, edge_ident = fat_edge_id a\<rparr> | a b w.
          dg_edge_weight G (sn_graph N) a b = Some (w, edge_id_new a)
          \<and> touches (corners_rect (envelope_of (position_at N a) (position_at N b))) (rect_new lo hi)}
    \<and> (net_point (sharded_network G t N) key \<noteq> None \<longrightarrow>
        (\<exists>l. successors_calculate g (sharded_network G t N) accessible runtime key = Some l
          \<and> (\<forall>x \<in> set l. net_point (sharded_network G t N) (fst x) \<noteq> None)))"
proof -
  have "shard_of G src N" unfolding N by (rule shard_queries.from_source_shard_of [OF assms(1-3)])
  note o = shard_ofD(1,2) [OF this]
  have "set (sn_edges_in_box G t N r)
      = {\<lparr>source = the (sn_hash N a), target = the (sn_hash N b), weight = w, edge_ident = fat_edge_id a\<rparr> | a b w.
          dg_edge_weight G (sn_graph N) a b = Some (w, edge_id_new a)
          \<and> touches (corners_rect (envelope_of (position_at N a) (position_at N b))) r}" for r
    by (rule set_eqI) (use shard_queries.edges_in_box_exact [OF assms(1) o(2,1), where b = r] in blast)
  moreover note shard_queries.nodes_in_box_exact [OF assms(1) o(2,1), of "rect_new lo hi"]
    shard_queries.successors_defined [OF assms(1) o(1), of key g accessible runtime]
  moreover have "nodes_in_box (sharded_network G t N) (lo, hi) = sn_nodes_in_box t N (rect_new lo hi)"
    "edges_in_box (sharded_network G t N) (lo, hi) = sn_edges_in_box G t N (rect_new lo hi)" by (simp_all add: sharded_network_def)
  ultimately show ?thesis by metis
qed

theorem shard_serves_matcher_witness:
  "\<exists>l. successors_calculate flat_geo (sharded_network list_graph scan_tree west_shard) (\<lambda>_ _ _. True) () 0 = Some l"
proof -
  have "net_point (sharded_network list_graph scan_tree west_shard) 0 \<noteq> None"
    using west_edge(2) by (auto simp: sharded_network_def sn_point_def)
  then show ?thesis
    using shard_serves_matcher [OF list_shards.shard_queries_axioms orders_sorted orders_sorted refl,
        where src = sample_source and st = hemispheres and sel = west and key = 0 and g = flat_geo
          and accessible = "\<lambda>_ _ _. True" and runtime = "()"] by blast
qed

section \<open>Composition\<close>

text \<open>
  (C22) Shards of one source compose into their union, in any order and with any overlap: an edge is
  present exactly when a shard holds it, with the weight of the source; a node is found exactly when a
  shard holds it; box searches return exactly what the shards return, each edge and each node once; and
  the successor cache stays defined across the boundaries of the shards.
\<close>

theorem composite_is_union:
  assumes "shard_queries G t" and "orders order" and "orders order'"
    and shards: "shards = map (from_source G order order' src st) sels" and M: "M = multi_shard_new G shards"
  shows "(dg_edge_weight G (ms_graph M) a b = (if \<exists>N \<in> set shards. has_edge G (sn_graph N) a b
        then Some (the (last_weight (source_edges src) a b), edge_id_new a) else None))
    \<and> (ms_node M k = (if \<exists>N \<in> set shards. k \<in> dom (sn_hash N) then Some (node_new (the (known_nodes src k)) k) else None))
    \<and> set (ms_edges_in_box G t M r) = (\<Union>N \<in> set shards. set (sn_edges_in_box G t N r))
    \<and> distinct (map (\<lambda>e. (node_ident (source e), node_ident (target e))) (ms_edges_in_box G t M r))
    \<and> set (ms_nodes_in_box t M r) = (\<Union>N \<in> set shards. set (sn_nodes_in_box t N r))
    \<and> distinct (map node_ident (ms_nodes_in_box t M r))
    \<and> (ms_node M k \<noteq> None \<longrightarrow> (\<exists>l. successors_calculate g (multi_shard_network G t M) accessible runtime k = Some l
        \<and> (\<forall>x \<in> set l. ms_node M (fst x) \<noteq> None)))"
proof -
  have s: "shard_of G src N" if "N \<in> set shards" for N
    using that shard_queries.from_source_shard_of [OF assms(1-3)] by (auto simp: shards)
  have p: "net_point (multi_shard_network G t M) k \<noteq> None \<longleftrightarrow> ms_node M k \<noteq> None" for k
    by (simp add: multi_shard_network_def ms_point_def)
  have succ: "ms_node M k \<noteq> None \<Longrightarrow> \<exists>l. successors_calculate g (multi_shard_network G t M) accessible runtime k = Some l
      \<and> (\<forall>x \<in> set l. ms_node M (fst x) \<noteq> None)"
    unfolding p [symmetric] unfolding M by (rule shard_queries.composite_successors [OF assms(1)]) (rule s; assumption)+
  show ?thesis
    unfolding M
    by (intro conjI impI shard_queries.composite_weight [OF assms(1)] shard_queries.composite_node [OF assms(1)]
        shard_queries.composite_edges_in_box [OF assms(1)] shard_queries.composite_edges_distinct [OF assms(1)]
        shard_queries.composite_nodes_in_box [OF assms(1)]
        succ [unfolded M]) (rule s; assumption)+
qed

theorem composite_is_union_witness:
  "dg_edge_weight list_graph (ms_graph (multi_shard_new list_graph [west_shard, west_shard])) 0 1 = Some (5, edge_id_new 0)"
proof -
  note union = composite_is_union [OF list_shards.shard_queries_axioms orders_sorted orders_sorted refl refl,
    where src = sample_source and st = hemispheres and sels = "[west, west]" and a = 0 and b = 1, THEN conjunct1]
  have "\<exists>N \<in> set (map (from_source list_graph sorted_list_of_set sorted_list_of_set sample_source hemispheres) [west, west]).
      has_edge list_graph (sn_graph N) 0 1" using west_edge(1) by simp
  then show ?thesis using union unfolding last_weight_sample by simp
qed

section \<open>Bytes and windows\<close>

text \<open>
  (C23) Cache bytes round trip: decoding what was encoded gives a shard with the same graph, nodes,
  metadata and ownership, whose rebuilt indices answer every box search with the same nodes and edges,
  whatever order its maps are iterated in; a reader of another format version refuses the bytes.
\<close>

theorem cache_bytes_preserve_shard:
  assumes "shard_queries (env_graph E) t" and "codec_round_trips E" and "orders (env_order E)"
    and "shard_of (env_graph E) src N" and "to_cache_bytes E N = Ok bs"
  shows "(\<exists>N'. from_cached_bytes E bs = Ok N' \<and> shard_of (env_graph E) src N' \<and> sn_graph N' = sn_graph N \<and> sn_hash N' = sn_hash N
      \<and> sn_meta N' = sn_meta N \<and> sn_owned N' = sn_owned N \<and> sn_loaded N' = sn_loaded N
      \<and> (\<forall>b. set (sn_edges_in_box (env_graph E) t N' b) = set (sn_edges_in_box (env_graph E) t N b)
            \<and> set (sn_nodes_in_box t N' b) = set (sn_nodes_in_box t N b)))
    \<and> (\<forall>E'. format_hash E' \<noteq> format_hash E \<longrightarrow> from_cached_bytes E' bs = Err (FormatHash (format_hash E)))"
proof (intro conjI allI impI)
  let ?G = "env_graph E" and ?N = "rebuild_indices (env_graph E) (env_order E) N"
  note N = shard_ofD(1,2) [OF assms(4)]
  have ix: "indexed ?G ?N" and ok: "shard_ok ?G ?N" using N(1) indexed_rebuild [OF assms(3)] by simp_all
  have pos: "position_at ?N = position_at N" by (rule ext) (simp add: position_at_def)
  have "set (sn_edges_in_box ?G t ?N b) = set (sn_edges_in_box ?G t N b)" for b
    by (rule set_eqI) (simp add: shard_queries.edges_in_box_exact [OF assms(1) ix ok] shard_queries.edges_in_box_exact [OF assms(1) N(2,1)] pos)
  moreover have "set (sn_nodes_in_box t ?N b) = set (sn_nodes_in_box t N b)" for b
    by (simp add: shard_queries.nodes_in_box_exact [OF assms(1) ix ok] shard_queries.nodes_in_box_exact [OF assms(1) N(2,1)])
  moreover have "shard_of ?G src ?N" using assms(4) ix ok by (simp add: shard_of_def)
  ultimately show "\<exists>N'. from_cached_bytes E bs = Ok N' \<and> shard_of ?G src N' \<and> sn_graph N' = sn_graph N \<and> sn_hash N' = sn_hash N
      \<and> sn_meta N' = sn_meta N \<and> sn_owned N' = sn_owned N \<and> sn_loaded N' = sn_loaded N
      \<and> (\<forall>b. set (sn_edges_in_box ?G t N' b) = set (sn_edges_in_box ?G t N b) \<and> set (sn_nodes_in_box t N' b) = set (sn_nodes_in_box t N b))"
    by (intro exI [of _ ?N] conjI cache_bytes_round_trip [OF assms(2,5)]) simp_all
qed (rule other_version_refused [OF assms(5)])

definition west_env :: "(nat, unit, bool, nat list_graph) shard_env" where
  "west_env = \<lparr>env_graph = list_graph, env_order = sorted_list_of_set, format_hash = 7,
     to_allocvec = (\<lambda>N. if without_indices N = without_indices west_shard then Some [1] else None),
     from_bytes = (\<lambda>bs. Some (without_indices west_shard))\<rparr>"

theorem cache_bytes_preserve_shard_witness:
  "\<exists>N'. from_cached_bytes west_env (CACHE_MAGIC @ to_le_bytes 7 @ [1]) = Ok N' \<and> sn_hash N' = sn_hash west_shard"
proof -
  have "shard_queries (env_graph west_env) scan_tree" using list_shards.shard_queries_axioms by (simp add: west_env_def)
  moreover have "codec_round_trips west_env" by (auto simp: codec_round_trips_def west_env_def split: if_splits)
  moreover have "orders (env_order west_env)" by (simp add: west_env_def)
  moreover have "shard_of (env_graph west_env) sample_source west_shard"
    using list_shards.from_source_shard_of [OF orders_sorted orders_sorted] by (simp add: west_env_def)
  moreover have "to_cache_bytes west_env west_shard = Ok (CACHE_MAGIC @ to_le_bytes 7 @ [1])"
    by (simp add: to_cache_bytes_def west_env_def)
  ultimately show ?thesis using cache_bytes_preserve_shard [of west_env scan_tree sample_source west_shard] by blast
qed

text \<open>
  (C24) Following the protocol of a window keeps it a block: after the window is recentred, the cells
  out of scope evicted and those in scope fetched, it holds exactly the cells that meet the cell of the
  point, that cell included, when every fetch succeeds, and is centred there.
\<close>

theorem window_holds_block:
  assumes "quad_with_depth depth = Some d" and "orders order" and "finite (dom (window_cache W))"
    and "recenter (quad_strategy_ops d) order W p = (Recentered scoped unscoped, W')"
    and "\<And>k. k \<in> set scoped \<Longrightarrow> \<exists>N. fetch_shard E fetch (quadkey_display k) = Ok N"
    and "W'' = fold (\<lambda>k W. snd (window_fetch E fetch quadkey_display W k)) scoped (fold window_evict unscoped W')"
  shows "dom (window_cache W'') = {k. quad_valid d k \<and> touches (quad_bounds (quad_locate d p)) (quad_bounds k)}
    \<and> window_center W'' = Some (quad_locate d p)
    \<and> recenter (quad_strategy_ops d) order W'' p = (Unchanged, W'')"
proof -
  have "d \<le> MAX_DEPTH" using assms(1) by (auto simp: quad_with_depth_def split: if_splits)
  then have q: "quad_strategy d" by (rule quad_strategy.intro)
  define block where "block = {k. quad_valid d k \<and> touches (quad_bounds (quad_locate d p)) (quad_bounds k)}"
  have v: "quad_valid d (quad_locate d p)" using quad_strategy.quad_valid_locate [OF q] .
  have b: "insert (quad_locate d p) (set (quad_neighbours d (quad_locate d p))) = block"
    unfolding block_def by (rule quad_strategy.quad_block [OF q v])
  note r = recenter_scope [OF assms(2-4)]
  have scoped: "set scoped = block" and unscoped: "set unscoped = dom (window_cache W) - block"
    using r(1,2) b by (simp_all add: quad_strategy_ops_def)
  have "window_cache W'' k \<noteq> None \<longleftrightarrow> k \<in> block" for k
  proof (cases "k \<in> block")
    case True
    then obtain N where "fetch_shard E fetch (quadkey_display k) = Ok N" using assms(5) scoped by blast
    then show ?thesis using True scoped by (simp add: assms(6) window_fetch_fold)
  next
    case False
    then have "k \<in> set unscoped \<or> window_cache W' k = None" using unscoped r(3) by auto
    then show ?thesis
      using False scoped by (auto simp: assms(6) window_fetch_fold restrict_map_def split: outcome.splits)
  qed
  then have "dom (window_cache W'') = block" by blast
  moreover have c: "window_center W'' = Some (quad_locate d p)"
    using r(4) by (simp add: assms(6) window_fetch_center quad_strategy_ops_def)
  moreover from c have "recenter (quad_strategy_ops d) order W'' p = (Unchanged, W'')"
    by (simp add: recenter_def quad_strategy_ops_def Let_def)
  ultimately show ?thesis by (simp add: block_def)
qed

definition root_shard :: "(nat, unit, quadkey, nat list_graph) sharded" where
  "root_shard = from_source list_graph sorted_list_of_set sorted_list_of_set sample_source (quad_strategy_ops 0)
     (selection_new (quad_strategy_ops 0) quadkey_root Owned)"

definition root_env :: "(nat, unit, quadkey, nat list_graph) shard_env" where
  "root_env = \<lparr>env_graph = list_graph, env_order = sorted_list_of_set, format_hash = 7,
     to_allocvec = (\<lambda>N. Some [1]), from_bytes = (\<lambda>bs. Some root_shard)\<rparr>"

definition root_blob :: "string \<Rightarrow> (bytes, unit) outcome" where
  "root_blob name = Ok (CACHE_MAGIC @ to_le_bytes 7 @ [1])"

lemma root_neighbours: "quad_neighbours 0 quadkey_root = []"
  by (simp add: quad_neighbours_def probe_neighbours_def probes_def quad_bounds_def quadkey_root_def world_def Let_def)

lemma root_fetched: "fetch_shard root_env root_blob name = Ok (rebuild_indices list_graph sorted_list_of_set root_shard)"
  using le_bytes_round_trip [of 7]
  by (simp add: fetch_shard_def root_blob_def from_cached_bytes_def root_env_def CACHE_MAGIC_def Let_def)

theorem window_holds_block_witness:
  "dom (window_cache (snd (window_fetch root_env root_blob quadkey_display
      (window_new\<lparr>window_center := Some quadkey_root\<rparr>) quadkey_root)))
    = {k. quad_valid 0 k \<and> touches (quad_bounds quadkey_root) (quad_bounds k)}"
proof -
  let ?W = "window_new :: (nat, unit, quadkey, nat list_graph) window"
  have root: "quad_locate 0 (0, 0) = quadkey_root" by (simp add: quad_locate_def quadkey_root_def)
  have depth: "quad_with_depth 0 = Some 0" and fin: "finite (dom (window_cache ?W))"
    by (simp_all add: quad_with_depth_def window_new_def)
  have moved: "recenter (quad_strategy_ops 0) sorted_list_of_set ?W (0, 0)
      = (Recentered [quadkey_root] [], ?W\<lparr>window_center := Some quadkey_root\<rparr>)"
    by (simp add: recenter_def quad_strategy_ops_def root root_neighbours window_new_def loaded_ids_def)
  have "\<exists>N. fetch_shard root_env root_blob (quadkey_display k) = Ok N" if "k \<in> set [quadkey_root]" for k
    using root_fetched by blast
  from window_holds_block [OF depth orders_sorted fin moved this refl, THEN conjunct1]
  show ?thesis unfolding root by (simp only: fold_simps id_apply)
qed

end
