(* ===== verification/Partition.thy ===== *)
theory Partition
  imports Decimal "HOL-Library.Word"
begin

unbundle bit_operations_syntax

text \<open>
  How the realtime fleet places vehicles: the stable hashes and the partition of a vehicle
  (\<open>partition.rs\<close>), the subjects and streams of a partition (\<open>ingest.rs\<close>), the partitions an
  orchestrator pod owns (\<open>bin/orchestrator.rs\<close>), and the rendezvous placement of histories on storage
  primaries (\<open>store/redis.rs\<close>). Hashes are 64-bit words with their wrap-around; counts that stay below
  1024 are natural numbers.
\<close>

section \<open>Hashing\<close>

type_synonym vehicle_id = "64 word"

definition PARTITIONS :: nat where
  "PARTITIONS = 1024"

definition fnv1a :: "8 word list \<Rightarrow> 64 word" where
  "fnv1a bs = fold (\<lambda>b hash. (hash XOR ucast b) * 0x00000100000001b3) bs 0xcbf29ce484222325"

definition mix :: "64 word \<Rightarrow> 64 word" where
  "mix x =
     (let x = x XOR drop_bit 30 x;
          x = x * 0xbf58476d1ce4e5b9;
          x = x XOR drop_bit 27 x;
          x = x * 0x94d049bb133111eb
      in x XOR drop_bit 31 x)"

definition partition_of :: "vehicle_id \<Rightarrow> nat" where
  "partition_of v = unat (mix v) mod PARTITIONS"

section \<open>Subjects and streams\<close>

definition raw_subject :: "nat \<Rightarrow> string" where
  "raw_subject p = ''events.raw.p'' @ ''.'' @ show_nat p"

definition matched_subject :: "nat \<Rightarrow> string" where
  "matched_subject p = ''events.matched.p'' @ ''.'' @ show_nat p"

definition div_ceil :: "nat \<Rightarrow> nat \<Rightarrow> nat" where
  "div_ceil a b = (a + b - 1) div b"

text \<open>\<open>None\<close> is the panic of dividing by zero streams.\<close>

definition stream_index :: "nat \<Rightarrow> nat \<Rightarrow> nat option" where
  "stream_index p streams = (if streams = 0 then None else Some (p div div_ceil PARTITIONS streams))"

definition stream_name :: "nat \<Rightarrow> string" where
  "stream_name index = ''EVENTS-RAW-'' @ show_nat index"

text \<open>The partitions whose subjects \<open>raw_stream\<close> binds to one stream.\<close>

definition raw_stream_partitions :: "nat \<Rightarrow> nat \<Rightarrow> nat list option" where
  "raw_stream_partitions index streams =
     (if streams = 0 then None
      else let chunk = div_ceil PARTITIONS streams
           in Some [index * chunk..<min ((index + 1) * chunk) PARTITIONS])"

section \<open>Ownership\<close>

datatype partitions_error = BadStart | BadEnd | StartBeyondEnd nat nat | PartitionOutside nat

definition parse_partitions :: "string \<Rightarrow> (nat \<times> nat, partitions_error) outcome" where
  "parse_partitions s =
     (let (start, finish) = (case split_once (CHR ''-'') s of Some p \<Rightarrow> p | None \<Rightarrow> (s, s))
      in case parse_u64 (trim start) of
           None \<Rightarrow> Err BadStart
         | Some start \<Rightarrow>
             (case parse_u64 (trim finish) of
                None \<Rightarrow> Err BadEnd
              | Some finish \<Rightarrow>
                  if start > finish then Err (StartBeyondEnd start finish)
                  else if finish \<ge> PARTITIONS then Err (PartitionOutside finish)
                  else Ok (start, finish)))"

record args =
  arg_partitions :: "(nat \<times> nat) option"
  pod_name :: "string option"
  fleet :: "nat option"

datatype ownership_error = NoAssignment | FleetOutside nat | NoOrdinal string | OrdinalOutside nat nat

definition owned_partitions :: "args \<Rightarrow> (nat \<times> nat, ownership_error) outcome" where
  "owned_partitions a =
     (case arg_partitions a of
        Some ps \<Rightarrow> Ok ps
      | None \<Rightarrow>
          (case (pod_name a, fleet a) of
             (Some name, Some n) \<Rightarrow>
               if \<not> (1 \<le> n \<and> n \<le> PARTITIONS) then Err (FleetOutside n)
               else (case parse_u64 (rsplit_next (CHR ''-'') name) of
                       None \<Rightarrow> Err (NoOrdinal name)
                     | Some ordinal \<Rightarrow>
                         if ordinal \<ge> n then Err (OrdinalOutside ordinal n)
                         else (let chunk = PARTITIONS div n
                               in Ok (ordinal * chunk,
                                      if ordinal = n - 1 then PARTITIONS - 1 else (ordinal + 1) * chunk - 1)))
           | _ \<Rightarrow> Err NoAssignment))"

section \<open>Storage placement\<close>

definition bytes_of :: "string \<Rightarrow> 8 word list" where
  "bytes_of s = map of_char s"

definition placement_new :: "string list \<Rightarrow> 64 word list" where
  "placement_new urls = map (\<lambda>url. fnv1a (bytes_of url)) urls"

definition place_key :: "64 word \<Rightarrow> 64 word \<Rightarrow> 64 word \<times> 64 word" where
  "place_key hash seed = (mix (hash XOR seed), seed)"

text \<open>\<open>None\<close> is the failed \<open>expect\<close> on an empty fleet.\<close>

definition index_for :: "64 word list \<Rightarrow> string \<Rightarrow> nat option" where
  "index_for seeds key =
     (let hash = fnv1a (bytes_of key)
      in map_option fst (max_by_key (\<lambda>(_, seed). place_key hash seed) (enumerate 0 seeds)))"

definition positions_key :: "vehicle_id \<Rightarrow> string" where
  "positions_key v = ''vehicle:'' @ show_nat (unat v) @ '':positions''"

section \<open>Slices of the fleet\<close>

lemma partition_of_range: "partition_of v < PARTITIONS"
  by (simp add: partition_of_def PARTITIONS_def)

lemma div_ceil_covers: "0 < b \<Longrightarrow> a \<le> div_ceil a b * b"
proof -
  assume b: "0 < b"
  have "div_ceil a b * b + (a + b - 1) mod b = a + b - 1" unfolding div_ceil_def by (rule div_mult_mod_eq)
  moreover have "(a + b - 1) mod b \<le> b - 1" using mod_less_divisor [OF b, of "a + b - 1"] by linarith
  ultimately show ?thesis using b by linarith
qed

lemma stream_of_partition:
  assumes "0 < streams" "p < PARTITIONS"
  obtains i ps where "stream_index p streams = Some i" "i < streams" "raw_stream_partitions i streams = Some ps" "p \<in> set ps"
proof -
  let ?c = "div_ceil PARTITIONS streams"
  have c: "0 < ?c" using div_ceil_covers [OF assms(1), of PARTITIONS] by (cases "?c = 0") (auto simp: PARTITIONS_def)
  have "p < ?c * streams" using div_ceil_covers [OF assms(1), of PARTITIONS] assms(2) by linarith
  then have "p div ?c < streams" using c by (simp add: div_less_iff_less_mult mult.commute)
  moreover have "p div ?c * ?c \<le> p" "p < (p div ?c + 1) * ?c" using c by (simp_all add: dividend_less_div_times)
  ultimately show ?thesis
    using that [of "p div ?c" "[p div ?c * ?c..<min ((p div ?c + 1) * ?c) PARTITIONS]"] assms
    by (simp add: stream_index_def raw_stream_partitions_def Let_def)
qed

lemma stream_unique:
  assumes "raw_stream_partitions i streams = Some ps" "p \<in> set ps"
  shows "stream_index p streams = Some i"
proof -
  let ?c = "div_ceil PARTITIONS streams"
  have "streams \<noteq> 0" "i * ?c \<le> p" "p < (i + 1) * ?c" using assms by (auto simp: raw_stream_partitions_def Let_def split: if_splits)
  then have "p div ?c = i" by (intro div_nat_eqI) (simp_all add: mult.commute)
  then show ?thesis using \<open>streams \<noteq> 0\<close> by (simp add: stream_index_def)
qed

lemma slice_of_partition:
  assumes "1 \<le> n" "n \<le> PARTITIONS" "p < PARTITIONS"
  defines "chunk \<equiv> PARTITIONS div n"
  defines "inside \<equiv> \<lambda>k. k * chunk \<le> p \<and> p \<le> (if k = n - 1 then PARTITIONS - 1 else (k + 1) * chunk - 1)"
  shows "\<exists>!k. k < n \<and> inside k"
proof -
  have c: "0 < chunk" using assms(1,2) by (simp add: chunk_def div_greater_zero_iff)
  have "n * chunk \<le> PARTITIONS" by (simp add: chunk_def mult.commute)
  let ?k = "min (p div chunk) (n - 1)"
  have low: "p div chunk * chunk \<le> p" "p < (p div chunk + 1) * chunk" using c by (simp_all add: dividend_less_div_times)
  have "inside ?k"
  proof (cases "p div chunk < n - 1")
    case True
    then show ?thesis using low c by (simp add: inside_def)
  next
    case False
    then have "(n - 1) * chunk \<le> p div chunk * chunk" by (intro mult_le_mono1) simp
    then have "(n - 1) * chunk \<le> p" using low(1) by linarith
    then show ?thesis using False assms(3) by (simp add: inside_def)
  qed
  moreover have "k = ?k" if k: "k < n" "inside k" for k
  proof (cases "k = n - 1")
    case True
    then have "(n - 1) * chunk \<le> p" using k by (simp add: inside_def)
    then have "n - 1 \<le> p div chunk" using c by (simp add: less_eq_div_iff_mult_less_eq)
    then show ?thesis using True by simp
  next
    case False
    then have "k * chunk \<le> p" "p < (k + 1) * chunk" using k c by (auto simp: inside_def)
    then have "p div chunk = k" by (intro div_nat_eqI) (simp_all add: mult.commute)
    then show ?thesis using k False by simp
  qed
  ultimately show ?thesis using assms(1) by (intro ex1I [of _ ?k]) auto
qed

section \<open>Rendezvous\<close>

lemma place_key_inj: "place_key h a = place_key h b \<Longrightarrow> a = b"
  by (simp add: place_key_def)

lemma index_for_greatest:
  assumes "seeds \<noteq> []"
  obtains i where "index_for seeds key = Some i" "i < length seeds"
    "\<forall>s \<in> set seeds. place_key (fnv1a (bytes_of key)) s \<le> place_key (fnv1a (bytes_of key)) (seeds ! i)"
proof -
  let ?h = "fnv1a (bytes_of key)"
  have "enumerate 0 seeds \<noteq> []" using assms by (cases seeds) simp_all
  then obtain y where y: "max_by_key (\<lambda>(_, seed). place_key ?h seed) (enumerate 0 seeds) = Some y" "y \<in> set (enumerate 0 seeds)"
    "\<forall>x \<in> set (enumerate 0 seeds). (\<lambda>(_, seed). place_key ?h seed) x \<le> (\<lambda>(_, seed). place_key ?h seed) y"
    by (rule max_by_key_greatest)
  obtain i s where i: "y = (i, s)" by (cases y)
  have "i < length seeds" "s = seeds ! i" using y(2) by (auto simp: i in_set_enumerate_eq)
  moreover have "place_key ?h x \<le> place_key ?h s" if x: "x \<in> set seeds" for x
  proof -
    obtain j where "j < length seeds" "x = seeds ! j" using x by (auto simp: in_set_conv_nth)
    then have "(j, x) \<in> set (enumerate 0 seeds)" by (simp add: in_set_enumerate_eq)
    then show ?thesis using y(3) i by fastforce
  qed
  ultimately show ?thesis using that [of i] y(1) by (simp add: index_for_def i)
qed

lemma published_vectors:
  "fnv1a [] = 0xcbf29ce484222325" "fnv1a (bytes_of ''a'') = 0xaf63dc4c8601ec8c"
  "mix 0 = 0" "mix 1 = 0x5692161d100b05e5" "partition_of 1 = 485" "partition_of 0xdeadbeef = 746"
  by (simp_all add: fnv1a_def bytes_of_def mix_def partition_of_def PARTITIONS_def Let_def)

end
