(* ===== verification/Match_Service.thy ===== *)
theory Match_Service
  imports Routed Partition
begin

text \<open>
  The matcher service of the realtime fleet (\<open>bin/matcher.rs\<close>, \<open>src/event.rs\<close>): a context arrives with
  a trip to resume or a history to replay, is pushed, solved and emitted, and the trip is cut behind its
  convergence point for the vehicle's next event. Spans and logging are left out; a panic of the
  solving task is the value \<open>None\<close>, which the service answers with \<open>NoMatch\<close>.
\<close>

section \<open>Emissions\<close>

record ('e, 'p) matched_layer =
  layer_timestamp :: int
  layer_edge :: "'e edge"
  layer_position :: 'p
  layer_path :: "'p list"

record ('e, 'p) matched_diff =
  revision :: nat
  downgraded :: bool
  diff_layers :: "('e, 'p) matched_layer list"

definition matched_diff_new ::
    "('e, 'p, 'm) network \<Rightarrow> ('e, 'p) collapsed_path \<Rightarrow> 'p origin list \<Rightarrow> nat \<Rightarrow> ('e, 'p) matched_diff" where
  "matched_diff_new n sol ogs rev_no =
     \<lparr>revision = rev_no, downgraded = False,
      diff_layers = List.map_filter (\<lambda>(index, chosen, og).
          map_option (\<lambda>c.
              \<lparr>layer_timestamp = timestamp og, layer_edge = edge c, layer_position = position_on c,
               layer_path = (if index = 0 then [] else hop_geometry n sol (index - 1))\<rparr>)
            (store_candidate (cp_candidates sol) chosen))
        (enumerate 0 (zip (cp_route sol) ogs))\<rparr>"

record ('e, 'p) match_context =
  context_vehicle :: vehicle_id
  context_continuation :: "('e, 'p) continuation"

datatype ('e, 'p) match_reply = MatchSolved "('e, 'p) matched_diff" "('e, 'p) trip" | NoMatch

definition classify :: "'p match_error \<Rightarrow> string \<times> string" where
  "classify e =
     (case e of
        Unanchored _ \<Rightarrow> (''unanchored'', ''nominal'')
      | Disconnected _ \<Rightarrow> (''disconnected'', ''nominal'')
      | _ \<Rightarrow> (''internal'', ''fatal''))"

section \<open>Solving a context\<close>

text \<open>A point that cannot be pushed is dropped and the next one is pushed.\<close>

fun push_each :: "('e, 'p, 'm) matcher \<Rightarrow> ('e, 'p) trip \<Rightarrow> 'p origin list \<Rightarrow> ('e, 'p) trip option" where
  "push_each m tr [] = Some tr"
| "push_each m tr (og # ogs) =
     (case push m tr og of (_, Panic) \<Rightarrow> None | (tr', _) \<Rightarrow> push_each m tr' ogs)"

definition open_trip ::
    "('e, 'p, 'm) matcher \<Rightarrow> ('e, 'p) continuation \<Rightarrow> ('e, 'p) trip \<times> 'p origin list \<times> bool" where
  "open_trip m c =
     (case c of
        Resume tr fresh \<Rightarrow>
          if \<not> supports m tr then (begin_trip, origins tr @ fresh, True) else (tr, fresh, False)
      | Restart fresh \<Rightarrow> (begin_trip, fresh, False))"

text \<open>Cutting behind the convergence point; the subtraction panics below zero.\<close>

definition cut_converged :: "('e, 'p) trip \<Rightarrow> ('e, 'p) trip option" where
  "cut_converged tr =
     (case (matcher_convergence tr :: (layer_id option, 'p match_error) outcome) of
        Ok (Some layer) \<Rightarrow> if layer > trip_layers tr then None else trip_tail (trip_layers tr - layer) tr
      | Ok None \<Rightarrow> Some tr
      | Err e \<Rightarrow> Some tr
      | Panic \<Rightarrow> None)"

definition service_solve :: "('e, 'p, 'm) matcher \<Rightarrow> ('e, 'p) match_context \<Rightarrow> ('e, 'p) match_reply option" where
  "service_solve m ctx =
     (case open_trip m (context_continuation ctx) of (tr, fresh, degraded) \<Rightarrow>
        (case push_each m tr fresh of
           None \<Rightarrow> None
         | Some tr1 \<Rightarrow>
             if origins tr1 = [] then Some NoMatch
             else (case matcher_solve m tr1 of
                     (tr2, Err e) \<Rightarrow> Some NoMatch
                   | (tr2, Panic) \<Rightarrow> None
                   | (tr2, Ok p) \<Rightarrow>
                       (case snapshot m tr2 of
                          (tr3, Err e) \<Rightarrow> Some NoMatch
                        | (tr3, Panic) \<Rightarrow> None
                        | (tr3, Ok sol) \<Rightarrow>
                            (let diff = (matched_diff_new (w_net (weigher_of m)) sol (origins tr2) 0)\<lparr>downgraded := degraded\<rparr>
                             in map_option (MatchSolved diff) (cut_converged tr3))))))"

definition service_answer :: "('e, 'p, 'm) matcher \<Rightarrow> ('e, 'p) match_context \<Rightarrow> ('e, 'p) match_reply" where
  "service_answer m ctx = (case service_solve m ctx of Some r \<Rightarrow> r | None \<Rightarrow> NoMatch)"

section \<open>What a reply carries\<close>

text \<open>The origins a context contributes: those resumed, and the fresh ones that anchor.\<close>

fun anchored_origins :: "('e, 'p, 'm) matcher \<Rightarrow> nat \<Rightarrow> 'p origin list \<Rightarrow> 'p origin list" where
  "anchored_origins m k [] = []"
| "anchored_origins m k (og # ogs) =
     (if generator m (origin_point og) k = [] then anchored_origins m k ogs
      else og # anchored_origins m (Suc k) ogs)"

lemma push_each_session:
  assumes "generates_u32 m"
  shows "session v m tr \<Longrightarrow> \<exists>tr'. push_each m tr ogs = Some tr' \<and> session v m tr'
    \<and> origins tr' = origins tr @ anchored_origins m (length (origins tr)) ogs"
proof (induction ogs arbitrary: tr)
  case (Cons og ogs)
  have ok: "trip_ok tr" using session_ok [OF assms Cons.prems] by simp
  have s: "session v m (fst (push m tr og))" by (rule session.pushed [OF Cons.prems])
  show ?case
  proof (cases rule: push_cases [OF ok assms, of og])
    case 1
    then show ?thesis using 1 Cons.IH [OF Cons.prems] by (simp add: trip_next_id_def)
  next
    case (2 tr' cs t)
    then have "session v m tr'" using s by simp
    from Cons.IH [OF this] show ?thesis using 2 by (auto simp: trip_next_id_def)
  qed
qed simp

lemma solved_choice:
  assumes "generates_u32 m" "session v m tr" "matcher_solve m tr = (tr', Ok p)"
  shows "choice_ok (candidates tr) (path_nodes p)" "session v m tr'" "matcher_solve m tr' = (tr', Ok p)"
    "origins tr' = origins tr" "candidates tr' = candidates tr"
proof -
  have ok: "trip_ok tr" "solved_by_viterbi tr" using session_ok [OF assms(1,2)] by auto
  note k = solve_keeps_trip [OF ok(1) assms(3)]
  show s: "session v m tr'" using session.solved [OF assms(2)] assms(3) by simp
  show "origins tr' = origins tr" "candidates tr' = candidates tr" by (fact k)+
  show "matcher_solve m tr' = (tr', Ok p)" using k(5) by (auto simp: matcher_solve_def)
  from solve_Ok_trellis [OF ok assms(3)] obtain t where t: "viterbi_solve t = Ok p" "trellis_ok t"
    "state tr' = Solved \<lparr>solved_trellis = t, solved_path = p\<rparr>" by metis
  have "mirrors t (candidates tr)" using k(1,3) t(3) by (simp add: trip_ok_def)
  then show "choice_ok (candidates tr) (path_nodes p)"
    using viterbi_solve_sound(2) [OF t(2,1)] by (simp add: choice_ok_def valid_path_def mirrors_def layers_def)
qed

lemma snapshot_solved:
  assumes "matcher_solve m tr = (tr, Ok p)"
  obtains sol where "snapshot m tr = (tr, Ok sol)" "cp_route sol = route_of p" "cp_candidates sol = candidates tr"
  using assms by (intro that) (auto simp: snapshot_def collapse_def Let_def)

lemma cut_converged_session:
  assumes "generates_u32 m" "session True m tr" "matcher_solve m tr = (tr, Ok p)" "origins tr \<noteq> []"
  obtains tr' n where "cut_converged tr = Some tr'" "session True m tr'" "n < length (origins tr)" "origins tr' = drop n (origins tr)"
proof -
  have ok: "trip_ok tr" "solved_by_viterbi tr" using session_ok [OF assms(1,2)] by auto
  from solve_Ok_trellis [OF ok assms(3)] obtain t where t: "trip_trellis tr = Some t" "viterbi_solve t = Ok p"
    "trellis_ok t" "fully_resolved t" "state tr = Solved \<lparr>solved_trellis = t, solved_path = p\<rparr>" by metis
  have "live t \<noteq> {}" using live_iff_solvable [OF t(3,4)] t(2) by simp
  then obtain r where r: "convergence t = Ok r" "case r of None \<Rightarrow> True | Some l \<Rightarrow> l < layers t"
    using convergence_resolved(2) [OF t(3,4)] by (force split: option.splits)
  have L: "layers t = length (origins tr)" using ok(1) t(5) by (auto simp: trip_ok_def mirrors_def layers_def)
  have c: "matcher_convergence tr = Ok r" using t(1) r(1) by (simp add: matcher_convergence_def)
  show ?thesis
  proof (cases r)
    case None
    then show ?thesis using that [of tr 0] c assms(2,4) by (simp add: cut_converged_def)
  next
    case (Some l)
    then have l: "l < length (origins tr)" using r(2) L by simp
    obtain tr' where tr': "trip_tail (length (origins tr) - l) tr = Some tr'"
      "origins tr' = drop (length (origins tr) - (length (origins tr) - l)) (origins tr)"
      using trip_tail_ok [OF ok(1), of "length (origins tr) - l"] by blast
    have "cut_converged tr = Some tr'" using c Some l tr'(1) by (simp add: cut_converged_def trip_layers_def)
    moreover have "session True m tr'" by (rule session.cut [OF _ assms(2) tr'(1)]) simp
    ultimately show ?thesis using that [of tr' l] l tr'(2) by simp
  qed
qed

text \<open>One layer per observation, with the chosen candidate.\<close>

lemma diff_layers_solved:
  fixes sol :: "('a, 'b) collapsed_path" and ogs :: "'b origin list"
  assumes "cp_route sol = route_of p" "choice_ok (cp_candidates sol) (path_nodes p)" "length ogs = length (path_nodes p)"
  shows "length (diff_layers (matched_diff_new n sol ogs r)) = length ogs"
    and "k < length ogs \<Longrightarrow> diff_layers (matched_diff_new n sol ogs r) ! k
      = (let c = cp_candidates sol ! k ! (path_nodes p ! k)
         in \<lparr>layer_timestamp = timestamp (ogs ! k), layer_edge = edge c, layer_position = position_on c,
             layer_path = (if k = 0 then [] else hop_geometry n sol (k - 1))\<rparr>)"
proof -
  define f where "f = (\<lambda>(index :: nat, chosen, og :: 'b origin). map_option (\<lambda>c.
              \<lparr>layer_timestamp = timestamp og, layer_edge = edge c, layer_position = position_on c,
               layer_path = (if index = 0 then [] else hop_geometry n sol (index - 1))\<rparr>)
            (store_candidate (cp_candidates sol) chosen))"
  define xs where "xs = enumerate 0 (zip (route_of p) ogs)"
  have len: "length xs = length ogs" using assms(3) by (simp add: xs_def)
  have nth: "xs ! k = (k, route_of p ! k, ogs ! k)" if "k < length ogs" for k
    using that assms(3) by (simp add: xs_def nth_enumerate_eq)
  have fk: "f (xs ! k) = Some (let c = cp_candidates sol ! k ! (path_nodes p ! k)
         in \<lparr>layer_timestamp = timestamp (ogs ! k), layer_edge = edge c, layer_position = position_on c,
             layer_path = (if k = 0 then [] else hop_geometry n sol (k - 1))\<rparr>)" if "k < length ogs" for k
    using that assms(2,3) store_candidate_Some [of "cp_candidates sol" k "path_nodes p ! k"]
    by (simp add: f_def nth route_of_nth choice_ok_def Let_def)
  have "f x = Some (the (f x))" if "x \<in> set xs" for x
    using that fk len by (auto simp: in_set_conv_nth)
  then have "List.map_filter f xs = map (\<lambda>x. the (f x)) xs" by (rule map_filter_Some)
  then have d: "diff_layers (matched_diff_new n sol ogs r) = map (\<lambda>x. the (f x)) xs"
    by (simp add: matched_diff_new_def assms(1) f_def xs_def)
  show "length (diff_layers (matched_diff_new n sol ogs r)) = length ogs" by (simp add: d len)
  show "diff_layers (matched_diff_new n sol ogs r) ! k
      = (let c = cp_candidates sol ! k ! (path_nodes p ! k)
         in \<lparr>layer_timestamp = timestamp (ogs ! k), layer_edge = edge c, layer_position = position_on c,
             layer_path = (if k = 0 then [] else hop_geometry n sol (k - 1))\<rparr>)" if "k < length ogs"
    using that fk by (simp add: d len)
qed

lemma service_solve_spec:
  fixes m :: "('e, 'p, 'm) matcher"
  assumes gen: "generates_u32 m" and o: "open_trip m (context_continuation ctx) = (tr, fresh, degraded)"
    and s: "session True m tr" and ogs: "ogs = origins tr @ anchored_origins m (length (origins tr)) fresh"
  shows "\<exists>tr1. push_each m tr fresh = Some tr1 \<and> origins tr1 = ogs \<and>
    (case service_solve m ctx of
       None \<Rightarrow> False
     | Some NoMatch \<Rightarrow> ogs = [] \<or> (\<forall>p. snd (matcher_solve m tr1) \<noteq> Ok p)
     | Some (MatchSolved diff tr') \<Rightarrow> revision diff = 0 \<and> downgraded diff = degraded
         \<and> (\<exists>p. snd (matcher_solve m tr1) = Ok p \<and> choice_ok (candidates tr1) (path_nodes p)
             \<and> length (diff_layers diff) = length ogs
             \<and> (\<forall>k < length ogs. layer_timestamp (diff_layers diff ! k) = timestamp (ogs ! k)
                  \<and> layer_edge (diff_layers diff ! k) = edge (candidates tr1 ! k ! (path_nodes p ! k))
                  \<and> layer_position (diff_layers diff ! k) = position_on (candidates tr1 ! k ! (path_nodes p ! k))))
         \<and> session True m tr' \<and> (\<exists>n < length ogs. origins tr' = drop n ogs))"
proof -
  obtain tr1 where tr1: "push_each m tr fresh = Some tr1" "session True m tr1" "origins tr1 = ogs"
    using push_each_session [OF gen s] ogs by blast
  obtain tr2 r where sol: "matcher_solve m tr1 = (tr2, r)" by (cases "matcher_solve m tr1")
  show ?thesis
  proof (cases "ogs = []")
    case True
    then have "service_solve m ctx = Some NoMatch" using tr1 by (simp add: service_solve_def o)
    then show ?thesis using True tr1 by (intro exI [of _ tr1]) simp
  next
    case ne: False
    show ?thesis
    proof (cases r)
      case (Err e)
      then have "service_solve m ctx = Some NoMatch" using tr1 ne sol by (simp add: service_solve_def o)
      then show ?thesis using Err sol tr1 by (intro exI [of _ tr1]) simp
    next
      case Panic
      then show ?thesis using solve_keeps_trip(4) [OF _ sol] session_ok [OF gen tr1(2)] by simp
    next
      case (Ok p)
      note c = solved_choice [OF gen tr1(2) sol [unfolded Ok]]
      obtain cp where cp: "snapshot m tr2 = (tr2, Ok cp)" "cp_route cp = route_of p" "cp_candidates cp = candidates tr2"
        using snapshot_solved [OF c(3)] .
      obtain tr' n where cut: "cut_converged tr2 = Some tr'" "session True m tr'" "n < length (origins tr2)" "origins tr' = drop n (origins tr2)"
        using cut_converged_session [OF gen c(2,3)] c(4) tr1(3) ne by metis
      define diff where "diff = (matched_diff_new (w_net (weigher_of m)) cp (origins tr2) 0)\<lparr>downgraded := degraded\<rparr>"
      have res: "service_solve m ctx = Some (MatchSolved diff tr')"
        using tr1 ne sol Ok cp(1) cut(1) by (simp add: service_solve_def o diff_def Let_def)
      have "length (candidates tr1) = length ogs" using session_ok [OF gen tr1(2)] tr1(3) by (simp add: trip_ok_def)
      then have len: "length (origins tr2) = length (path_nodes p)" using c(1,4) tr1(3) by (simp add: choice_ok_def)
      note d = diff_layers_solved [OF cp(2) c(1) [folded c(5), folded cp(3)] len, where n = "w_net (weigher_of m)" and r = 0]
      have "revision diff = 0 \<and> downgraded diff = degraded" by (simp add: diff_def matched_diff_new_def)
      then show ?thesis
        using res sol Ok tr1 c cut d cp(3)
        by (intro exI [of _ tr1]) (auto simp: diff_def Let_def)
    qed
  qed
qed

end
