(* ===== verification/Orchestrator.thy ===== *)
theory Orchestrator
  imports Match_Service
begin

text \<open>
  The pipeline of one orchestrator worker (\<open>bin/orchestrator.rs\<close>). A worker holds, per vehicle, a lane of
  recent events and the trip to resume; both are caches that may lose entries of other vehicles when one
  is inserted. What outlives the worker is the durable tail of each vehicle and the emissions published.
  Time is in nanoseconds. The answers of the store, of the matcher and of the broker to one attempt are
  an input of it; a write that fails may have taken effect. Workers share nothing but the durable state,
  in which each touches the entries of its own vehicles only, so attempts interleave as atomic steps.
\<close>

section \<open>Events\<close>

record 'p payload =
  payload_vehicle :: vehicle_id
  payload_time :: int
  payload_point :: 'p

record 'p raw_event =
  event_vehicle :: vehicle_id
  event_point :: 'p
  event_time :: int

definition as_event :: "'p payload \<Rightarrow> 'p raw_event" where
  "as_event p = \<lparr>event_vehicle = payload_vehicle p, event_point = payload_point p, event_time = payload_time p\<rparr>"

record ('e, 'p) matched_event =
  matched_vehicle :: vehicle_id
  matched_emission :: "('e, 'p) matched_diff"

record 'p settings =
  geometry :: "'p geo"
  gap :: int
  jump_distance :: real
  context_window :: nat
  solve_retries :: nat
  retained :: nat

section \<open>State\<close>

record ('e, 'p) worker =
  trips :: "vehicle_id \<rightharpoonup> ('e, 'p) trip"
  histories :: "vehicle_id \<rightharpoonup> 'p raw_event list"

record ('e, 'p) durable =
  tails :: "vehicle_id \<Rightarrow> 'p raw_event list"
  published :: "('e, 'p) matched_event list"

definition worker_new :: "('e, 'p) worker" where
  "worker_new = \<lparr>trips = Map.empty, histories = Map.empty\<rparr>"

text \<open>An insertion into a bounded cache, with the entries of other keys it displaces.\<close>

definition cache_put :: "'k set \<Rightarrow> 'k \<Rightarrow> 'v \<Rightarrow> ('k \<rightharpoonup> 'v) \<Rightarrow> ('k \<rightharpoonup> 'v)" where
  "cache_put displaced k x c = (c |` (- displaced))(k \<mapsto> x)"

section \<open>The context of an event\<close>

fun recent :: "'p settings \<Rightarrow> 'p \<Rightarrow> int \<Rightarrow> 'p raw_event list \<Rightarrow> 'p raw_event list" where
  "recent cfg prev_p prev_ts [] = []"
| "recent cfg prev_p prev_ts (e # es) =
     (if \<bar>prev_ts - event_time e\<bar> \<le> gap cfg \<and> haversine (geometry cfg) prev_p (event_point e) \<le> jump_distance cfg
      then e # recent cfg (event_point e) (event_time e) es else [])"

definition context_history :: "'p settings \<Rightarrow> 'p raw_event list \<Rightarrow> 'p payload \<Rightarrow> 'p raw_event list" where
  "context_history cfg entries p =
     (let kept = filter (\<lambda>e. event_time e \<le> payload_time p) entries;
          newest = take (context_window cfg) (sort_key (\<lambda>e. - event_time e) kept);
          context = recent cfg (payload_point p) (payload_time p) newest
      in dedup_by (\<lambda>a b. event_time a = event_time b) (sort_key event_time (as_event p # context)))"

definition event_origin :: "'p raw_event \<Rightarrow> 'p origin" where
  "event_origin e = \<lparr>origin_point = event_point e, timestamp = event_time e div 1000\<rparr>"

definition create_context ::
    "'p settings \<Rightarrow> ('e, 'p) worker \<Rightarrow> 'p raw_event list \<Rightarrow> 'p payload \<Rightarrow> ('e, 'p) match_context option" where
  "create_context cfg w entries p =
     map_option (\<lambda>c. \<lparr>context_vehicle = payload_vehicle p, context_continuation = c\<rparr>)
       (reconcile (trips w (payload_vehicle p)) (map event_origin (context_history cfg entries p)))"

section \<open>One attempt\<close>

datatype ('e, 'p) request_outcome = Replied "('e, 'p) match_reply" | Undecodable | RequestFailed

fun solve_loop :: "nat \<Rightarrow> (nat \<Rightarrow> ('e, 'p) request_outcome) \<Rightarrow> nat \<Rightarrow> ('e, 'p) match_reply option" where
  "solve_loop 0 answers attempt = None"
| "solve_loop (Suc left) answers attempt =
     (case answers attempt of
        Replied r \<Rightarrow> Some r
      | Undecodable \<Rightarrow> None
      | RequestFailed \<Rightarrow> solve_loop left answers (Suc attempt))"

definition solve_request :: "nat \<Rightarrow> bool \<Rightarrow> (nat \<Rightarrow> ('e, 'p) request_outcome) \<Rightarrow> ('e, 'p) match_reply option" where
  "solve_request retries encoded answers = (if encoded then solve_loop (Suc retries) answers 0 else None)"

datatype delivery = Acked | Unacked | Lost

record ('e, 'p) attempt =
  warm_ok :: bool
  encode_ok :: bool
  answers :: "('e, 'p) match_context \<Rightarrow> nat \<Rightarrow> ('e, 'p) request_outcome"
  publish :: delivery
  archived :: bool
  copies :: nat
  displaced_lanes :: "vehicle_id set"
  displaced_trips :: "vehicle_id set"
  trimmed :: nat

datatype processed = Done | Dropped

datatype process_error = WarmFailed | NoReply | NotPublished | NotArchived

definition get_many :: "('e, 'p) durable \<Rightarrow> vehicle_id \<Rightarrow> nat \<Rightarrow> 'p raw_event list" where
  "get_many d v len = take len (rev (tails d v))"

text \<open>
  The archive writer repeats a batch until the store takes it, so an event may be appended several times,
  acknowledged or not. \<open>XADD\<close> with an approximate length limit may trim entries beyond the limit.
\<close>

definition whole_micros :: "int \<Rightarrow> int" where
  "whole_micros t = t div 1000 * 1000"

text \<open>What is read back of an event written to the store: its time is serialised in microseconds.\<close>

definition stored :: "'p raw_event \<Rightarrow> 'p raw_event" where
  "stored e = e\<lparr>event_time := whole_micros (event_time e)\<rparr>"

definition write_tail :: "nat \<Rightarrow> nat \<Rightarrow> nat \<Rightarrow> 'p raw_event \<Rightarrow> ('e, 'p) durable \<Rightarrow> ('e, 'p) durable" where
  "write_tail limit written excess e d =
     (let es = tails d (event_vehicle e) @ replicate written (stored e)
      in d\<lparr>tails := (tails d)(event_vehicle e := drop (min excess (length es - limit)) es)\<rparr>)"

definition warm_lane ::
    "'p settings \<Rightarrow> ('e, 'p) attempt \<Rightarrow> vehicle_id \<Rightarrow> ('e, 'p) worker \<Rightarrow> ('e, 'p) durable \<Rightarrow> ('e, 'p) worker option" where
  "warm_lane cfg a v w d =
     (if histories w v \<noteq> None then Some w
      else if \<not> warm_ok a then None
      else Some (w\<lparr>histories := cache_put (displaced_lanes a) v
             (sort_key event_time (get_many d v (context_window cfg * 3))) (histories w)\<rparr>))"

definition commit_reply ::
    "('e, 'p) attempt \<Rightarrow> vehicle_id \<Rightarrow> nat \<Rightarrow> ('e, 'p) match_reply \<Rightarrow> ('e, 'p) worker \<Rightarrow> ('e, 'p) durable
      \<Rightarrow> bool \<times> ('e, 'p) worker \<times> ('e, 'p) durable" where
  "commit_reply a v rev_no r w d =
     (case r of
        NoMatch \<Rightarrow> (True, w, d)
      | MatchSolved diff tr \<Rightarrow>
          (let d' = d\<lparr>published := published d @ [\<lparr>matched_vehicle = v, matched_emission = diff\<lparr>revision := rev_no\<rparr>\<rparr>]\<rparr>
           in case publish a of
                Lost \<Rightarrow> (False, w, d)
              | Unacked \<Rightarrow> (False, w, d')
              | Acked \<Rightarrow> (True, w\<lparr>trips := cache_put (displaced_trips a) v tr (trips w)\<rparr>, d')))"

definition enter_lane :: "'p settings \<Rightarrow> 'p raw_event \<Rightarrow> ('e, 'p) worker \<Rightarrow> ('e, 'p) worker" where
  "enter_lane cfg e w =
     (case histories w (event_vehicle e) of
        None \<Rightarrow> w
      | Some lane \<Rightarrow>
          (let lane' = lane @ [e]; bound = context_window cfg * 3
           in w\<lparr>histories := (histories w)(event_vehicle e \<mapsto>
                if length lane' > bound then drop (length lane' - bound) lane' else lane')\<rparr>))"

definition process ::
    "'p settings \<Rightarrow> ('e, 'p) attempt \<Rightarrow> 'p payload \<Rightarrow> nat \<Rightarrow> ('e, 'p) worker \<Rightarrow> ('e, 'p) durable
      \<Rightarrow> (processed, process_error) outcome \<times> ('e, 'p) worker \<times> ('e, 'p) durable" where
  "process cfg a p rev_no w d =
     (let v = payload_vehicle p
      in case warm_lane cfg a v w d of
           None \<Rightarrow> (Err WarmFailed, w, d)
         | Some w \<Rightarrow>
             (case histories w v of
                None \<Rightarrow> (Panic, w, d)
              | Some history \<Rightarrow>
                  if history \<noteq> [] \<and> payload_time p \<le> event_time (last history) then (Ok Dropped, w, d)
                  else (case create_context cfg w history p of
                          None \<Rightarrow> (Panic, w, d)
                        | Some ctx \<Rightarrow>
                            (case solve_request (solve_retries cfg) (encode_ok a) (answers a ctx) of
                               None \<Rightarrow> (Err NoReply, w, d)
                             | Some r \<Rightarrow>
                                 (case commit_reply a v rev_no r w d of
                                    (False, w, d) \<Rightarrow> (Err NotPublished, w, d)
                                  | (True, w, d) \<Rightarrow>
                                      (if archived a
                                       then (Ok Done, enter_lane cfg (as_event p) w,
                                             write_tail (retained cfg) (Suc (copies a)) (trimmed a) (as_event p) d)
                                       else (Err NotArchived, w,
                                             write_tail (retained cfg) (copies a) (trimmed a) (as_event p) d)))))))"

text \<open>The retry loop around an event: attempts until one succeeds; \<open>None\<close> while none has.\<close>

fun drive ::
    "'p settings \<Rightarrow> ('e, 'p) attempt list \<Rightarrow> 'p payload \<Rightarrow> nat \<Rightarrow> ('e, 'p) worker \<Rightarrow> ('e, 'p) durable
      \<Rightarrow> (processed, process_error) outcome option \<times> ('e, 'p) worker \<times> ('e, 'p) durable" where
  "drive cfg [] p rev_no w d = (None, w, d)"
| "drive cfg (a # as) p rev_no w d =
     (case process cfg a p rev_no w d of
        (Err e, w, d) \<Rightarrow> drive cfg as p rev_no w d
      | (r, w, d) \<Rightarrow> (Some r, w, d))"

section \<open>A pod\<close>

text \<open>The worker a vehicle is pinned to; \<open>None\<close> is the remainder by zero workers.\<close>

definition worker_of :: "nat \<Rightarrow> vehicle_id \<Rightarrow> nat option" where
  "worker_of n v = (if n = 0 then None else Some (unat (mix v) mod n))"

record ('e, 'p) pod =
  workers :: "nat \<Rightarrow> ('e, 'p) worker"
  driving :: "nat \<Rightarrow> ('p payload \<times> nat) option"
  store :: "('e, 'p) durable"
  acked :: "('p payload \<times> processed) list"

definition pod_new :: "('e, 'p) pod" where
  "pod_new = \<lparr>workers = \<lambda>_. worker_new, driving = \<lambda>_. None, store = \<lparr>tails = \<lambda>_. [], published = []\<rparr>, acked = []\<rparr>"

text \<open>Replies come from matchers of the fleet \<open>M\<close>.\<close>

definition answered_by :: "('e, 'p, 'm) matcher set \<Rightarrow> ('e, 'p) attempt \<Rightarrow> bool" where
  "answered_by M a \<longleftrightarrow> (\<forall>ctx k r. answers a ctx k = Replied r \<longrightarrow> (\<exists>m \<in> M. r = service_answer m ctx))"

text \<open>
  The steps of a pod: an idle worker takes a message of a vehicle pinned to it; a failed attempt is
  repeated; a finished one is acknowledged and leaves the worker idle; a crash loses the memory of all
  workers, and the broker may deliver any message again.
\<close>

inductive pod_step ::
    "'p settings \<Rightarrow> nat \<Rightarrow> ('e, 'p, 'm) matcher set \<Rightarrow> ('e, 'p) pod \<Rightarrow> ('e, 'p) pod \<Rightarrow> bool"
  for cfg :: "'p settings" and n :: nat and M :: "('e, 'p, 'm) matcher set" where
  take: "worker_of n (payload_vehicle p) = Some i \<Longrightarrow> driving s i = None
    \<Longrightarrow> pod_step cfg n M s (s\<lparr>driving := (driving s)(i \<mapsto> (p, rev_no))\<rparr>)"
| retry: "driving s i = Some (p, rev_no) \<Longrightarrow> answered_by M a
    \<Longrightarrow> process cfg a p rev_no (workers s i) (store s) = (Err e, w, d)
    \<Longrightarrow> pod_step cfg n M s (s\<lparr>workers := (workers s)(i := w), store := d\<rparr>)"
| finish: "driving s i = Some (p, rev_no) \<Longrightarrow> answered_by M a
    \<Longrightarrow> process cfg a p rev_no (workers s i) (store s) = (Ok r, w, d)
    \<Longrightarrow> pod_step cfg n M s (s\<lparr>workers := (workers s)(i := w), store := d,
          driving := (driving s)(i := None), acked := acked s @ [(p, r)]\<rparr>)"
| crash: "pod_step cfg n M s (s\<lparr>workers := \<lambda>_. worker_new, driving := \<lambda>_. None\<rparr>)"

inductive pod_reachable :: "'p settings \<Rightarrow> nat \<Rightarrow> ('e, 'p, 'm) matcher set \<Rightarrow> ('e, 'p) pod \<Rightarrow> bool"
  for cfg :: "'p settings" and n :: nat and M :: "('e, 'p, 'm) matcher set" where
  initial: "pod_reachable cfg n M pod_new"
| step: "pod_reachable cfg n M s \<Longrightarrow> pod_step cfg n M s s' \<Longrightarrow> pod_reachable cfg n M s'"

end
