(* ===== verification/Orchestrator_Laws.thy ===== *)
theory Orchestrator_Laws
  imports Orchestrator
begin

text \<open>
  What the pipeline keeps: the context of an event is a recent, strictly ordered window that ends in the
  event, and the lanes of a worker agree with the durable tails whatever fails in between.
\<close>

section \<open>Contexts\<close>

lemma recent_prefix: "\<exists>k. recent cfg p t es = take k es"
proof (induction es arbitrary: p t)
  case (Cons e es)
  obtain k where k: "recent cfg (event_point e) (event_time e) es = take k es" using Cons.IH by blast
  show ?case
    using k by (cases "\<bar>t - event_time e\<bar> \<le> gap cfg \<and> haversine (geometry cfg) p (event_point e) \<le> jump_distance cfg")
      (auto intro: exI [of _ "Suc k"] exI [of _ 0])
qed simp

definition near :: "'p settings \<Rightarrow> 'p raw_event \<Rightarrow> 'p raw_event \<Rightarrow> bool" where
  "near cfg newer older \<longleftrightarrow> \<bar>event_time newer - event_time older\<bar> \<le> gap cfg
     \<and> haversine (geometry cfg) (event_point newer) (event_point older) \<le> jump_distance cfg"

lemma recent_near: "successively (near cfg) (e # recent cfg (event_point e) (event_time e) es)"
  by (induction es arbitrary: e) (auto simp: near_def)

lemma dedup_by_run: "\<forall>b \<in> set bs. same b x \<Longrightarrow> dedup_by same (x # bs) = [x]"
  by (induction bs) auto

lemma last_dedup_by:
  assumes "\<forall>b \<in> set bs. same b x" "\<forall>a \<in> set as. \<not> same x a"
  shows "last (dedup_by same (as @ x # bs)) = x"
  using assms(2)
proof (induction "length as" arbitrary: as rule: less_induct)
  case less
  show ?case
  proof (cases as)
    case Nil
    then show ?thesis using dedup_by_run [of bs same x] assms(1) by simp
  next
    case (Cons a as')
    show ?thesis
    proof (cases as')
      case Nil
      then show ?thesis using Cons less.prems dedup_by_run [of bs same x] assms(1) by simp
    next
      case (Cons b as'')
      have ne: "dedup_by same (b # as'' @ x # bs) \<noteq> []" using hd_dedup_by by blast
      have 1: "last (dedup_by same ((a # as'') @ x # bs)) = x" and 2: "last (dedup_by same ((b # as'') @ x # bs)) = x"
        using less.prems less.hyps [of "a # as''"] less.hyps [of "b # as''"] \<open>as = a # as'\<close> Cons by auto
      show ?thesis using 1 2 ne \<open>as = a # as'\<close> Cons by simp
    qed
  qed
qed

lemma insort_last_run:
  assumes "sorted (map f xs)" "\<forall>y \<in> set xs. f y \<le> f x"
  obtains as bs where "insort_key f x xs = as @ x # bs" "\<forall>a \<in> set as. f a < f x" "\<forall>b \<in> set bs. f b = f x"
proof -
  have "\<exists>as bs. insort_key f x xs = as @ x # bs \<and> (\<forall>a \<in> set as. f a < f x) \<and> (\<forall>b \<in> set bs. f b = f x)"
    using assms
  proof (induction xs)
    case (Cons y ys)
    show ?case
    proof (cases "f x \<le> f y")
      case True
      then have "\<forall>z \<in> set (y # ys). f z = f x" using Cons.prems by (auto simp: antisym)
      then show ?thesis using True by (intro exI [of _ "[]"] exI [of _ "y # ys"]) auto
    next
      case False
      obtain as bs where "insort_key f x ys = as @ x # bs" "\<forall>a \<in> set as. f a < f x" "\<forall>b \<in> set bs. f b = f x"
        using Cons by auto
      then show ?thesis using False by (intro exI [of _ "y # as"] exI [of _ bs]) auto
    qed
  qed (auto intro: exI [of _ "[]"])
  then show ?thesis using that by blast
qed

lemma dedup_remdups_adj: "dedup xs = remdups_adj xs"
  by (induction xs rule: remdups_adj.induct) auto

lemma remdups_adj_strict:
  fixes xs :: "'a::linorder list"
  shows "sorted xs \<Longrightarrow> sorted_wrt (<) (remdups_adj xs)"
  by (induction xs rule: remdups_adj.induct) (auto simp: order.order_iff_strict)

lemma map_dedup_by: "map f (dedup_by (\<lambda>a b. f a = f b) xs) = remdups_adj (map f xs)"
proof (induction "\<lambda>a b. f a = f b" xs rule: dedup_by.induct)
  case (3 x y xs)
  then show ?case by (cases "f x = f y") auto
qed simp_all

lemma sort_key_times: "map f (sort_key f xs) = sort (map f xs)"
  by (rule properties_for_sort [symmetric]) simp_all

lemma context_history_spec:
  fixes cfg :: "'p settings" and entries :: "'p raw_event list" and p :: "'p payload"
  defines "h \<equiv> context_history cfg entries p"
  shows "last h = as_event p" and "h \<noteq> []" and "sorted_wrt (<) (map event_time h)"
    and "length h \<le> Suc (context_window cfg)" and "set h \<subseteq> insert (as_event p) (set entries)"
    and "successively (\<lambda>a b. event_time b - event_time a \<le> gap cfg) h"
proof -
  define newest where "newest = take (context_window cfg) (sort_key (\<lambda>e. - event_time e)
    (filter (\<lambda>e. event_time e \<le> payload_time p) entries))"
  define ctxs where "ctxs = recent cfg (payload_point p) (payload_time p) newest"
  define l where "l = as_event p # ctxs"
  have h: "h = dedup_by (\<lambda>a b. event_time a = event_time b) (sort_key event_time l)"
    by (simp add: h_def context_history_def newest_def ctxs_def l_def Let_def)
  obtain k where k: "ctxs = take k newest" using recent_prefix [of cfg "payload_point p" "payload_time p" newest] unfolding ctxs_def by blast
  have sub: "set newest \<subseteq> {e \<in> set entries. event_time e \<le> payload_time p}"
    using set_take_subset by (fastforce simp: newest_def)
  have ctx: "set ctxs \<subseteq> {e \<in> set entries. event_time e \<le> payload_time p}"
    using sub set_take_subset by (fastforce simp: k)
  have "length newest \<le> context_window cfg" by (simp add: newest_def)
  then have len: "length l \<le> Suc (context_window cfg)" by (simp add: l_def k)
  have "length h \<le> length l" using arg_cong [OF map_dedup_by [of event_time "sort_key event_time l"], of length]
    by (simp add: h remdups_adj_length le_trans [OF remdups_adj_length])
  then show "length h \<le> Suc (context_window cfg)" using len by linarith
  show "h \<noteq> []" using hd_dedup_by [of "sort_key event_time l"] by (simp add: h l_def)
  show "set h \<subseteq> insert (as_event p) (set entries)"
    using set_dedup_by_subset [of "\<lambda>a b. event_time a = event_time b" "sort_key event_time l"] ctx by (auto simp: h l_def set_insort_key)
  have "\<forall>y \<in> set (sort_key event_time ctxs). event_time y \<le> event_time (as_event p)" using ctx by (auto simp: as_event_def)
  with sorted_sort_key [of event_time ctxs] obtain as bs where run: "insort_key event_time (as_event p) (sort_key event_time ctxs) = as @ as_event p # bs"
    "\<forall>a \<in> set as. event_time a < event_time (as_event p)" "\<forall>b \<in> set bs. event_time b = event_time (as_event p)"
    by (rule insort_last_run)
  have "sort_key event_time l = as @ as_event p # bs" using run(1) by (simp add: l_def)
  then show "last h = as_event p" unfolding h using run(2,3) by (simp only:) (rule last_dedup_by; force)
  have t: "map event_time h = remdups_adj (sort (map event_time l))"
    by (simp add: h map_dedup_by sort_key_times)
  show "sorted_wrt (<) (map event_time h)"
    unfolding t by (rule remdups_adj_strict) simp
  have near: "successively (near cfg) l"
    using recent_near [of cfg "as_event p" newest] by (simp add: l_def ctxs_def as_event_def)
  have "sorted (rev (map event_time l))"
  proof -
    have "sorted (map (\<lambda>e. - event_time e) newest)" unfolding newest_def by (metis sorted_sort_key sorted_wrt_take take_map)
    then have "sorted (map (\<lambda>e. - event_time e) ctxs)" unfolding k by (metis sorted_wrt_take take_map)
    then show ?thesis using ctx by (auto simp: l_def sorted_append sorted_wrt_rev sorted_wrt_map as_event_def)
  qed
  then have s: "sort (map event_time l) = rev (map event_time l)" by (intro properties_for_sort) simp_all
  have "successively (\<lambda>a b. b - a \<le> gap cfg) (rev (map event_time l))"
    unfolding successively_rev successively_map by (rule successively_mono [OF near]) (auto simp: near_def)
  then have "successively (\<lambda>a b. b - a \<le> gap cfg) (map event_time h)"
    unfolding t s by (rule successively_remdups_adjI)
  then show "successively (\<lambda>a b. event_time b - event_time a \<le> gap cfg) h" by (simp add: successively_map)
qed

section \<open>Trips across matchers\<close>

lemma push_each_sound:
  assumes "generates_u32 m"
  shows "sound_trip tr \<Longrightarrow> push_each m tr ogs = Some tr' \<Longrightarrow> sound_trip tr'"
proof (induction ogs arbitrary: tr)
  case (Cons og ogs)
  have "sound_trip (fst (push m tr og))" by (rule sound_pushed [OF assms Cons.prems(1)])
  moreover have "push_each m (fst (push m tr og)) ogs = Some tr'"
    using Cons.prems(2) by (auto split: prod.splits outcome.splits)
  ultimately show ?case by (rule Cons.IH)
qed simp

lemma cut_converged_sound: "sound_trip tr \<Longrightarrow> cut_converged tr = Some tr' \<Longrightarrow> sound_trip tr'"
  by (auto simp: cut_converged_def intro: sound_cut split: outcome.splits option.splits if_splits)

lemma snapshot_sound: "sound_trip tr \<Longrightarrow> snapshot m tr = (tr', r) \<Longrightarrow> sound_trip tr'"
  using sound_solved [of tr m] by (auto simp: snapshot_def collapse_def Let_def split: prod.splits)

definition resumes_sound :: "('e, 'p) match_context \<Rightarrow> bool" where
  "resumes_sound ctx \<longleftrightarrow> (case context_continuation ctx of Resume tr fresh \<Rightarrow> sound_trip tr | Restart fresh \<Rightarrow> True)"

lemma service_answer_sound:
  assumes gen: "generates_u32 m" and ctx: "resumes_sound ctx" and r: "service_answer m ctx = MatchSolved diff tr'"
  shows "sound_trip tr'"
proof -
  obtain tr fresh degraded where o: "open_trip m (context_continuation ctx) = (tr, fresh, degraded)"
    by (cases "open_trip m (context_continuation ctx)")
  have tr: "sound_trip tr"
    using o ctx sound_new by (auto simp: open_trip_def resumes_sound_def begin_trip_def split: continuation.splits if_splits)
  have "service_solve m ctx = Some (MatchSolved diff tr')"
    using r by (simp add: service_answer_def split: option.splits)
  then obtain tr1 tr2 p tr3 sol where 1: "push_each m tr fresh = Some tr1" and 2: "matcher_solve m tr1 = (tr2, Ok p)"
      and 3: "snapshot m tr2 = (tr3, Ok sol)" and 4: "cut_converged tr3 = Some tr'"
    by (auto simp: service_solve_def o Let_def split: option.splits if_splits prod.splits outcome.splits)
  have "sound_trip tr1" by (rule push_each_sound [OF gen tr 1])
  then have "sound_trip tr2" using sound_solved [of tr1 m] 2 by simp
  then show ?thesis using snapshot_sound [OF _ 3] cut_converged_sound [OF _ 4] by blast
qed

lemma create_context_sound:
  assumes "\<And>tr. trips w (payload_vehicle p) = Some tr \<Longrightarrow> sound_trip tr"
  obtains ctx where "create_context cfg w entries p = Some ctx" "resumes_sound ctx" "context_vehicle ctx = payload_vehicle p"
proof -
  let ?h = "map event_origin (context_history cfg entries p)"
  have "\<exists>c. reconcile (trips w (payload_vehicle p)) ?h = Some c
      \<and> (case c of Resume tr fresh \<Rightarrow> sound_trip tr | Restart fresh \<Rightarrow> True)"
  proof (cases "trips w (payload_vehicle p)")
    case (Some tr)
    then have tr: "sound_trip tr" by (rule assms)
    then have "\<exists>tr'. trip_tail (overlap (origins tr) ?h) tr = Some tr'"
      using trip_tail_ok unfolding sound_trip_def by blast
    then show ?thesis using Some sound_cut [OF tr] by (auto simp: reconcile_def Let_def)
  qed (simp add: reconcile_def)
  then show ?thesis using that by (auto simp: create_context_def resumes_sound_def)
qed

section \<open>Lanes and durable tails\<close>

definition synced :: "'p raw_event list \<Rightarrow> 'p raw_event list \<Rightarrow> bool" where
  "synced lane tail \<longleftrightarrow> (lane = [] \<longleftrightarrow> tail = [])
     \<and> (tail \<noteq> [] \<longrightarrow> whole_micros (event_time (last lane)) = event_time (last tail))"

lemma whole_micros_le: "whole_micros t \<le> t"
  by (simp add: whole_micros_def)

lemma whole_micros_mono: "a \<le> b \<Longrightarrow> whole_micros a \<le> whole_micros b"
  by (simp add: whole_micros_def zdiv_mono1)

lemma whole_micros_idem [simp]: "whole_micros (whole_micros t) = whole_micros t"
  by (simp add: whole_micros_def)

lemma whole_micros_dvd: "1000 dvd t \<Longrightarrow> whole_micros t = t"
  by (simp add: whole_micros_def)

lemma stored_simps [simp]:
  "event_vehicle (stored e) = event_vehicle e" "event_time (stored e) = whole_micros (event_time e)"
  by (simp_all add: stored_def)

text \<open>An event that was archived without its worker hearing of it: the tail ends in it, the lane before it.\<close>

definition archived_unheard :: "'p payload \<Rightarrow> 'p raw_event list \<Rightarrow> 'p raw_event list \<Rightarrow> bool" where
  "archived_unheard p lane tail \<longleftrightarrow> tail \<noteq> [] \<and> last tail = stored (as_event p) \<and> (lane = [] \<or> event_time (last lane) < payload_time p)"

definition lane_ok :: "'p settings \<Rightarrow> 'p payload option \<Rightarrow> vehicle_id \<Rightarrow> 'p raw_event list \<Rightarrow> 'p raw_event list \<Rightarrow> bool" where
  "lane_ok cfg busy v lane tail \<longleftrightarrow> length lane \<le> context_window cfg * 3 \<and> sorted (map event_time lane)
     \<and> (synced lane tail \<or> (\<exists>p. busy = Some p \<and> payload_vehicle p = v \<and> archived_unheard p lane tail))"

definition vehicle_ok :: "'p settings \<Rightarrow> ('e, 'p) worker \<Rightarrow> 'p payload option \<Rightarrow> 'p raw_event list \<Rightarrow> vehicle_id \<Rightarrow> bool" where
  "vehicle_ok cfg w busy tail v \<longleftrightarrow> sorted (map event_time tail)
     \<and> (\<forall>e \<in> set tail. event_vehicle e = v \<and> whole_micros (event_time e) = event_time e)
     \<and> (\<forall>lane. histories w v = Some lane \<longrightarrow> lane_ok cfg busy v lane tail)
     \<and> (\<forall>tr. trips w v = Some tr \<longrightarrow> sound_trip tr)"

lemma sorted_key_last: "sorted (map f xs) \<Longrightarrow> x \<in> set xs \<Longrightarrow> f x \<le> f (last xs)"
  by (induction xs) auto

lemma warmed_synced:
  assumes "sorted (map event_time tail)" "0 < n" "\<forall>e \<in> set tail. whole_micros (event_time e) = event_time e"
  shows "synced (sort_key event_time (take n (rev tail))) tail"
proof (cases "tail = []")
  case False
  let ?l = "sort_key event_time (take n (rev tail))"
  have "last tail \<in> set ?l" using False assms(2) by (cases tail rule: rev_cases; cases n) (auto simp: set_insort_key)
  then have "event_time (last tail) \<le> event_time (last ?l)" by (rule sorted_key_last [OF sorted_sort_key])
  moreover have ne: "?l \<noteq> []" using \<open>last tail \<in> set ?l\<close> by (metis empty_iff list.set(1))
  moreover have "last ?l \<in> set tail" using last_in_set [OF ne] set_take_subset by fastforce
  ultimately have "event_time (last ?l) = event_time (last tail)"
    using sorted_key_last [OF assms(1)] by (simp add: antisym)
  moreover have "whole_micros (event_time (last tail)) = event_time (last tail)" using assms(3) False by simp
  ultimately show ?thesis using ne False by (simp add: synced_def)
qed (simp add: synced_def)

lemma write_tail_frame:
  "published (write_tail limit k excess e d) = published d"
  "u \<noteq> event_vehicle e \<Longrightarrow> tails (write_tail limit k excess e d) u = tails d u"
  by (simp_all add: write_tail_def Let_def)

lemma write_tail_entries:
  fixes e :: "'p raw_event" and d :: "('e, 'p) durable" and k excess limit :: nat
  assumes "1 \<le> limit"
  defines "es \<equiv> tails d (event_vehicle e) @ replicate k (stored e)"
  defines "after \<equiv> tails (write_tail limit k excess e d) (event_vehicle e)"
  shows "after = [] \<longleftrightarrow> es = []" and "es \<noteq> [] \<Longrightarrow> last after = last es" and "set after \<subseteq> set es"
    and "sorted (map event_time es) \<Longrightarrow> sorted (map event_time after)"
proof -
  define n where "n = min excess (length es - limit)"
  have a: "after = drop n es" by (simp add: after_def write_tail_def es_def n_def Let_def)
  have n: "n < length es \<or> es = []" using assms(1) by (cases es) (auto simp: n_def min_def)
  then show "after = [] \<longleftrightarrow> es = []" by (auto simp: a)
  show "es \<noteq> [] \<Longrightarrow> last after = last es" using n by (simp add: a last_drop)
  show "set after \<subseteq> set es" by (simp add: a set_drop_subset)
  show "sorted (map event_time es) \<Longrightarrow> sorted (map event_time after)" by (simp add: a drop_map [symmetric] sorted_wrt_drop)
qed

lemma warm_lane_keeps:
  assumes ok: "vehicle_ok cfg w busy (tails d v) v" and W: "1 \<le> context_window cfg" and warm: "warm_lane cfg a v w d = Some w1"
  shows "vehicle_ok cfg w1 busy (tails d v) v" and "\<exists>lane. histories w1 v = Some lane" and "trips w1 = trips w"
    and "u \<noteq> v \<Longrightarrow> histories w1 u \<in> {None, histories w u}"
proof -
  have "synced (sort_key event_time (get_many d v (context_window cfg * 3))) (tails d v)"
    unfolding get_many_def using ok W by (intro warmed_synced) (auto simp: vehicle_ok_def)
  then show "vehicle_ok cfg w1 busy (tails d v) v"
    using ok warm by (auto simp: warm_lane_def vehicle_ok_def lane_ok_def cache_put_def get_many_def split: if_splits)
  show "\<exists>lane. histories w1 v = Some lane" "trips w1 = trips w"
    using warm by (auto simp: warm_lane_def cache_put_def split: if_splits)
  show "u \<noteq> v \<Longrightarrow> histories w1 u \<in> {None, histories w u}"
    using warm by (auto simp: warm_lane_def cache_put_def restrict_map_def split: if_splits)
qed

text \<open>What a commit leaves alone, and what it publishes.\<close>

lemma commit_reply_frame:
  assumes "commit_reply a v rev_no r w d = (b, w', d')"
  shows "histories w' = histories w" "tails d' = tails d" "u \<noteq> v \<Longrightarrow> trips w' u \<in> {None, trips w u}"
    "trips w' v \<in> {trips w v} \<union> {Some tr | diff tr. r = MatchSolved diff tr}"
    "b \<Longrightarrow> published d' = published d @ (case r of NoMatch \<Rightarrow> []
       | MatchSolved diff tr \<Rightarrow> [\<lparr>matched_vehicle = v, matched_emission = diff\<lparr>revision := rev_no\<rparr>\<rparr>])"
  using assms by (auto simp: commit_reply_def cache_put_def restrict_map_def Let_def
    split: match_reply.splits delivery.splits if_splits)

lemma solve_loop_answer: "solve_loop left ans k = Some r \<Longrightarrow> \<exists>j. ans j = Replied r"
  by (induction left arbitrary: k) (auto split: request_outcome.splits)

lemma solve_request_answer: "solve_request retries enc ans = Some r \<Longrightarrow> \<exists>j. ans j = Replied r"
  unfolding solve_request_def by (metis option.discI solve_loop_answer)

text \<open>Behind the gate every archived event is at most as new as the one being driven.\<close>

lemma gate_newest:
  assumes "vehicle_ok cfg w (Some p) tail (payload_vehicle p)" "histories w (payload_vehicle p) = Some lane"
    "\<not> (lane \<noteq> [] \<and> payload_time p \<le> event_time (last lane))" "e \<in> set tail"
  shows "event_time e \<le> whole_micros (payload_time p)"
proof -
  have "event_time e \<le> event_time (last tail)" using assms(1,4) by (simp add: vehicle_ok_def sorted_key_last)
  moreover have "tail \<noteq> []" using assms(4) by auto
  moreover have "synced lane tail \<or> archived_unheard p lane tail" using assms(1,2) by (auto simp: vehicle_ok_def lane_ok_def)
  ultimately show ?thesis
    using assms(3) whole_micros_mono [of "event_time (last lane)" "payload_time p"]
    by (auto simp: synced_def archived_unheard_def as_event_def)
qed

text \<open>The archive step of an attempt, acknowledged or not.\<close>

lemma archive_keeps:
  fixes d :: "('e, 'p) durable" and w :: "('e, 'p) worker" and excess :: nat
  assumes ok: "vehicle_ok cfg w (Some p) (tails d v) v" and v: "v = payload_vehicle p" and R: "1 \<le> retained cfg"
    and lane: "histories w v = Some lane" and gate: "\<not> (lane \<noteq> [] \<and> payload_time p \<le> event_time (last lane))"
  defines "tail' \<equiv> \<lambda>k. tails (write_tail (retained cfg) k excess (as_event p) d) v"
  shows "vehicle_ok cfg w (Some p) (tail' k) v"
    and "1 \<le> context_window cfg \<Longrightarrow> vehicle_ok cfg (enter_lane cfg (as_event p) w) None (tail' (Suc k)) v"
    and "tail' (Suc k) \<noteq> []" and "last (tail' (Suc k)) = stored (as_event p)"
    and "tails d v \<noteq> [] \<Longrightarrow> tail' k \<noteq> [] \<and> event_time (last (tails d v)) \<le> event_time (last (tail' k))"
proof -
  have ev: "event_vehicle (as_event p) = v" "event_time (as_event p) = payload_time p" by (simp_all add: as_event_def v)
  have le: "event_time e \<le> whole_micros (payload_time p)" if "e \<in> set (tails d v)" for e
    using gate_newest [of cfg w p "tails d v" lane] ok lane gate that v by blast
  let ?es = "\<lambda>k. tails d v @ replicate k (stored (as_event p))"
  have t: "tail' k = [] \<longleftrightarrow> ?es k = []" "?es k \<noteq> [] \<Longrightarrow> last (tail' k) = last (?es k)" "set (tail' k) \<subseteq> set (?es k)"
    "sorted (map event_time (?es k)) \<Longrightarrow> sorted (map event_time (tail' k))" for k
    using write_tail_entries [where limit = "retained cfg" and d = d and e = "as_event p" and k = k and excess = excess, OF R]
    unfolding tail'_def ev(1) by simp_all
  have srt: "sorted (map event_time (?es k))" for k
    using ok le by (auto simp: vehicle_ok_def sorted_append ev)
  have tl: "sorted (map event_time (tail' k))" "\<forall>e \<in> set (tail' k). event_vehicle e = v \<and> whole_micros (event_time e) = event_time e" for k
    using t(3,4) [of k] srt ok by (auto simp: vehicle_ok_def ev(1))
  have last_k: "last (?es k) = (if k = 0 then last (tails d v) else stored (as_event p))" for k by (cases k) (simp_all flip: replicate_append_same)
  show "tail' (Suc k) \<noteq> []" using t(1) [of "Suc k"] by simp
  show "last (tail' (Suc k)) = stored (as_event p)" using t(2) [of "Suc k"] last_k [of "Suc k"] by simp
  show "tails d v \<noteq> [] \<Longrightarrow> tail' k \<noteq> [] \<and> event_time (last (tails d v)) \<le> event_time (last (tail' k))"
    using t(1,2) [of k] last_k [of k] le ev(2) by auto
  have "synced lane (tail' k) \<or> archived_unheard p lane (tail' k)"
  proof (cases k)
    case 0
    have "synced lane (tails d v) \<or> archived_unheard p lane (tails d v)"
      using ok lane v by (auto simp: vehicle_ok_def lane_ok_def)
    then show ?thesis using t(1,2) [of 0] 0 by (auto simp: synced_def archived_unheard_def)
  next
    case (Suc j)
    then show ?thesis using gate t(1,2) [of k] last_k [of k] by (auto simp: archived_unheard_def)
  qed
  then show "vehicle_ok cfg w (Some p) (tail' k) v"
    using tl [of k] ok lane v by (auto simp: vehicle_ok_def lane_ok_def)
  show "vehicle_ok cfg (enter_lane cfg (as_event p) w) None (tail' (Suc k)) v" if "1 \<le> context_window cfg"
  proof -
    define lane' where "lane' = drop (Suc (length lane) - context_window cfg * 3) (lane @ [as_event p])"
    have h: "histories (enter_lane cfg (as_event p) w) v = Some lane'"
      using lane by (simp add: enter_lane_def ev(1) lane'_def Let_def)
    have "lane' \<noteq> []" "last lane' = as_event p" using that by (auto simp: lane'_def last_drop)
    moreover have "sorted (map event_time (lane @ [as_event p]))"
      using ok lane gate sorted_key_last [of event_time lane] by (fastforce simp: vehicle_ok_def lane_ok_def sorted_append ev(2))
    then have "sorted (map event_time lane')" by (simp only: lane'_def drop_map [symmetric] sorted_wrt_drop)
    moreover have "length lane' \<le> context_window cfg * 3" by (simp add: lane'_def)
    ultimately have "lane_ok cfg None v lane' (tail' (Suc k))"
      using t(1,2) [of "Suc k"] last_k [of "Suc k"] by (simp add: lane_ok_def synced_def)
    moreover have "trips (enter_lane cfg (as_event p) w) = trips w" by (simp add: enter_lane_def Let_def split: option.splits)
    ultimately show ?thesis using h tl [of "Suc k"] ok by (auto simp: vehicle_ok_def)
  qed
qed

section \<open>One attempt\<close>

text \<open>
  The ways an attempt ends once the lane is warm: dropped at the gate, without a reply, unpublished,
  unarchived, or done. None of them is a panic.
\<close>

lemma process_cases:
  fixes w :: "('e, 'p) worker" and d :: "('e, 'p) durable"
  assumes ok: "vehicle_ok cfg w (Some p) (tails d v) v" and v: "v = payload_vehicle p" and W: "1 \<le> context_window cfg"
  obtains (cold) "warm_lane cfg a v w d = None" "process cfg a p rev_no w d = (Err WarmFailed, w, d)"
  | (dropped) w1 lane where "warm_lane cfg a v w d = Some w1" "histories w1 v = Some lane"
      "lane \<noteq> []" "payload_time p \<le> event_time (last lane)" "process cfg a p rev_no w d = (Ok Dropped, w1, d)"
  | (no_reply) w1 lane ctx where "warm_lane cfg a v w d = Some w1" "histories w1 v = Some lane"
      "\<not> (lane \<noteq> [] \<and> payload_time p \<le> event_time (last lane))"
      "solve_request (solve_retries cfg) (encode_ok a) (answers a ctx) = None" "process cfg a p rev_no w d = (Err NoReply, w1, d)"
  | (replied) w1 lane ctx j r b w2 d2 where "warm_lane cfg a v w d = Some w1" "histories w1 v = Some lane"
      "\<not> (lane \<noteq> [] \<and> payload_time p \<le> event_time (last lane))" "create_context cfg w1 lane p = Some ctx" "resumes_sound ctx"
      "answers a ctx j = Replied r" "commit_reply a v rev_no r w1 d = (b, w2, d2)"
      "process cfg a p rev_no w d =
        (if \<not> b then (Err NotPublished, w2, d2)
         else if archived a then (Ok Done, enter_lane cfg (as_event p) w2,
           write_tail (retained cfg) (Suc (copies a)) (trimmed a) (as_event p) d2)
         else (Err NotArchived, w2, write_tail (retained cfg) (copies a) (trimmed a) (as_event p) d2))"
proof (cases "warm_lane cfg a v w d")
  case None
  then show ?thesis using cold by (simp add: process_def v Let_def)
next
  case w1: (Some w1)
  note k = warm_lane_keeps [OF ok W w1]
  then obtain lane where lane: "histories w1 v = Some lane" by blast
  obtain ctx where ctx: "create_context cfg w1 lane p = Some ctx" "resumes_sound ctx"
    by (rule create_context_sound [of w1 p cfg lane]) (use k(1) v in \<open>auto simp: vehicle_ok_def\<close>)
  show ?thesis
  proof (cases "lane \<noteq> [] \<and> payload_time p \<le> event_time (last lane)")
    case True
    then show ?thesis using dropped w1 lane v by (simp add: process_def Let_def)
  next
    case gate: False
    show ?thesis
    proof (cases "solve_request (solve_retries cfg) (encode_ok a) (answers a ctx)")
      case None
      then show ?thesis using no_reply [OF w1 lane gate None] w1 lane gate ctx v by (auto simp: process_def Let_def)
    next
      case (Some r)
      then obtain j where j: "answers a ctx j = Replied r" using solve_request_answer by blast
      obtain b w2 d2 where c: "commit_reply a v rev_no r w1 d = (b, w2, d2)" by (cases "commit_reply a v rev_no r w1 d")
      show ?thesis using replied [OF w1 lane gate ctx j c] w1 lane gate ctx v Some c by (auto simp: process_def Let_def split: bool.splits)
    qed
  qed
qed

text \<open>A reply is committed: the vehicle keeps a sound trip and its lane.\<close>

lemma commit_keeps:
  assumes "vehicle_ok cfg w1 busy (tails d v) v" "commit_reply a v rev_no r w1 d = (b, w2, d2)"
    "\<And>diff tr. r = MatchSolved diff tr \<Longrightarrow> sound_trip tr"
  shows "vehicle_ok cfg w2 busy (tails d2 v) v" "histories w2 = histories w1" "tails d2 = tails d"
  using commit_reply_frame(1,2,4) [OF assms(2)] assms(1,3) by (auto simp: vehicle_ok_def)

text \<open>What holds after an attempt for the vehicle it drives, and what it leaves alone.\<close>

definition attempt_post ::
    "'p settings \<Rightarrow> 'p payload \<Rightarrow> ('e, 'p) worker \<Rightarrow> ('e, 'p) durable
      \<Rightarrow> (processed, process_error) outcome \<times> ('e, 'p) worker \<times> ('e, 'p) durable \<Rightarrow> bool" where
  "attempt_post cfg p w d = (\<lambda>(res, w', d'). let v = payload_vehicle p in
     vehicle_ok cfg w' (case res of Err e \<Rightarrow> Some p | _ \<Rightarrow> None) (tails d' v) v
     \<and> (case res of
          Panic \<Rightarrow> False
        | Err e \<Rightarrow> True
        | Ok r \<Rightarrow> tails d' v \<noteq> [] \<and> whole_micros (payload_time p) \<le> event_time (last (tails d' v))
            \<and> (case r of Done \<Rightarrow> last (tails d' v) = stored (as_event p) | Dropped \<Rightarrow> d' = d))
     \<and> (tails d v \<noteq> [] \<longrightarrow> tails d' v \<noteq> [] \<and> event_time (last (tails d v)) \<le> event_time (last (tails d' v)))
     \<and> (\<forall>u. u \<noteq> v \<longrightarrow> tails d' u = tails d u \<and> histories w' u \<in> {None, histories w u} \<and> trips w' u \<in> {None, trips w u}))"

lemma synced_frees: "vehicle_ok cfg w (Some p) tail v \<Longrightarrow> histories w v = Some lane \<Longrightarrow> synced lane tail \<Longrightarrow> vehicle_ok cfg w None tail v"
  by (auto simp: vehicle_ok_def lane_ok_def)

lemma enter_lane_frame:
  "trips (enter_lane cfg e w) = trips w" "u \<noteq> event_vehicle e \<Longrightarrow> histories (enter_lane cfg e w) u = histories w u"
  by (auto simp: enter_lane_def Let_def split: option.splits)

lemma process_keeps:
  fixes w :: "('e, 'p) worker" and d :: "('e, 'p) durable" and M :: "('e, 'p, 'm) matcher set"
  assumes ok: "vehicle_ok cfg w (Some p) (tails d (payload_vehicle p)) (payload_vehicle p)"
    and W: "1 \<le> context_window cfg" and R: "1 \<le> retained cfg"
    and a: "answered_by M a" "\<forall>m \<in> M. generates_u32 m"
  shows "attempt_post cfg p w d (process cfg a p rev_no w d)"
proof -
  define v where "v = payload_vehicle p"
  note ok' = ok [folded v_def]
  show ?thesis
  proof (cases rule: process_cases [OF ok' v_def W, of a rev_no])
    case 1
    then show ?thesis using ok by (simp add: attempt_post_def)
  next
    case (2 w1 lane)
    note k = warm_lane_keeps [OF ok' W 2(1)]
    have "\<not> archived_unheard p lane (tails d v)" using 2(3,4) by (auto simp: archived_unheard_def)
    then have sy: "synced lane (tails d v)" using k(1) 2(2) by (auto simp: vehicle_ok_def lane_ok_def)
    then have "vehicle_ok cfg w1 None (tails d v) v" using synced_frees k(1) 2(2) by blast
    then show ?thesis
      using 2(3-5) sy k(3,4) whole_micros_mono [OF 2(4)] by (auto simp: attempt_post_def v_def synced_def)
  next
    case (3 w1 lane ctx)
    then show ?thesis using warm_lane_keeps [OF ok' W 3(1)] by (auto simp: attempt_post_def v_def)
  next
    case (4 w1 lane ctx j r b w2 d2)
    note k = warm_lane_keeps [OF ok' W 4(1)]
    have snd: "sound_trip tr" if "r = MatchSolved diff tr" for diff tr
      using a 4(5,6) that service_answer_sound unfolding answered_by_def by metis
    have c: "vehicle_ok cfg w2 (Some p) (tails d2 v) v" "histories w2 = histories w1" "tails d2 = tails d"
      by (rule commit_keeps [OF k(1) 4(7)], erule snd)+
    note f = commit_reply_frame [OF 4(7)]
    have lane: "histories w2 v = Some lane" using c(2) 4(2) by simp
    note A = archive_keeps [OF c(1) v_def R lane 4(3), where excess = "trimmed a"]
    have ev: "event_vehicle (as_event p) = v" by (simp add: as_event_def v_def)
    have fr: "tails (write_tail (retained cfg) n (trimmed a) (as_event p) d2) u = tails d u"
      "histories w2 u \<in> {None, histories w u}" "trips w2 u \<in> {None, trips w u}"
      "histories (enter_lane cfg (as_event p) w2) u = histories w2 u" if "u \<noteq> v" for u n
      using that k(3,4) f(1-3) by (auto simp: write_tail_frame(2) enter_lane_frame ev)
    consider (lost) "\<not> b" | (unheard) b "\<not> archived a" | (entered) b "archived a" by blast
    then show ?thesis
    proof cases
      case lost
      then show ?thesis using 4(8) c fr by (simp add: attempt_post_def v_def [symmetric])
    next
      case unheard
      then show ?thesis using 4(8) A(1,5) [of "copies a"] c(3) fr by (simp add: attempt_post_def v_def [symmetric])
    next
      case entered
      then show ?thesis
        using 4(8) A(2) [OF W, of "copies a"] A(3,4) [of "copies a"] A(5) [of "Suc (copies a)"] c(3) fr
        by (simp add: attempt_post_def v_def [symmetric] enter_lane_frame(1) as_event_def)
    qed
  qed
qed

section \<open>The pod\<close>

definition pod_ok :: "'p settings \<Rightarrow> nat \<Rightarrow> ('e, 'p) pod \<Rightarrow> bool" where
  "pod_ok cfg n s \<longleftrightarrow>
     (\<forall>i p rev_no. driving s i = Some (p, rev_no) \<longrightarrow> worker_of n (payload_vehicle p) = Some i)
     \<and> (\<forall>v i. worker_of n v = Some i \<longrightarrow> vehicle_ok cfg (workers s i) (map_option fst (driving s i)) (tails (store s) v) v)
     \<and> (\<forall>(p, r) \<in> set (acked s). tails (store s) (payload_vehicle p) \<noteq> []
           \<and> whole_micros (payload_time p) \<le> event_time (last (tails (store s) (payload_vehicle p))))"

lemma vehicle_ok_frame:
  assumes "vehicle_ok cfg w busy tail v" "histories w' v \<in> {None, histories w v}" "trips w' v \<in> {None, trips w v}"
    "busy' = busy \<or> (\<forall>p. busy = Some p \<longrightarrow> payload_vehicle p \<noteq> v)"
  shows "vehicle_ok cfg w' busy' tail v"
proof -
  have "lane_ok cfg busy' v lane tail" if "histories w' v = Some lane" for lane
    using that assms(1,2,4) unfolding vehicle_ok_def lane_ok_def by (metis empty_iff insert_iff option.discI)
  then show ?thesis using assms(1,3) by (auto simp: vehicle_ok_def)
qed

lemma attempt_keeps_pod:
  assumes ok: "pod_ok cfg n s" and drv: "driving s i = Some (p, rev_no)"
    and post: "attempt_post cfg p (workers s i) (store s) (res, w, d)"
    and s': "s' = s\<lparr>workers := (workers s)(i := w), store := d\<rparr>"
  shows "case res of Panic \<Rightarrow> False | Err e \<Rightarrow> pod_ok cfg n s'
    | Ok r \<Rightarrow> pod_ok cfg n (s'\<lparr>driving := (driving s)(i := None), acked := acked s @ [(p, r)]\<rparr>)"
proof -
  let ?v = "payload_vehicle p" and ?busy = "case res of Err e \<Rightarrow> Some p | _ \<Rightarrow> None"
  have i: "worker_of n ?v = Some i" using ok drv by (auto simp: pod_ok_def)
  have v: "vehicle_ok cfg w ?busy (tails d ?v) ?v" using post by (simp add: attempt_post_def Let_def)
  have fr: "tails d u = tails (store s) u" "histories w u \<in> {None, histories (workers s i) u}"
    "trips w u \<in> {None, trips (workers s i) u}" if "u \<noteq> ?v" for u
    using post that by (auto simp: attempt_post_def Let_def)
  have mine: "vehicle_ok cfg w ?busy (tails d u) u" if u: "worker_of n u = Some i" for u
  proof (cases "u = ?v")
    case False
    have "vehicle_ok cfg (workers s i) (Some p) (tails (store s) u) u" using ok u drv unfolding pod_ok_def by fastforce
    then show ?thesis using vehicle_ok_frame [of cfg "workers s i" "Some p" _ u w ?busy] fr [OF False] False by auto
  qed (use v in simp)
  have others: "vehicle_ok cfg (workers s j) (map_option fst (driving s j)) (tails d u) u" if "worker_of n u = Some j" "j \<noteq> i" for u j
    using ok that fr(1) [of u] i by (cases "u = ?v") (auto simp: pod_ok_def)
  have acks: "tails d (payload_vehicle q) \<noteq> [] \<and> whole_micros (payload_time q) \<le> event_time (last (tails d (payload_vehicle q)))"
    if "(q, r) \<in> set (acked s)" for q r
  proof -
    have q: "tails (store s) (payload_vehicle q) \<noteq> []" "whole_micros (payload_time q) \<le> event_time (last (tails (store s) (payload_vehicle q)))"
      using ok that by (auto simp: pod_ok_def)
    show ?thesis
    proof (cases "payload_vehicle q = ?v")
      case True
      then show ?thesis using q post by (auto simp: attempt_post_def Let_def)
    qed (use q fr in simp)
  qed
  show ?thesis
  proof (cases res)
    case Panic
    then show ?thesis using post by (simp add: attempt_post_def Let_def)
  next
    case (Err e)
    then show ?thesis using ok drv mine others acks by (auto simp: pod_ok_def s')
  next
    case (Ok r)
    then have "tails d ?v \<noteq> []" "whole_micros (payload_time p) \<le> event_time (last (tails d ?v))" using post by (auto simp: attempt_post_def Let_def)
    then show ?thesis using Ok ok mine others acks by (auto simp: pod_ok_def s')
  qed
qed

lemma pod_step_ok:
  assumes step: "pod_step cfg n M s s'" and ok: "pod_ok cfg n s"
    and W: "1 \<le> context_window cfg" and R: "1 \<le> retained cfg" and M: "\<forall>m \<in> M. generates_u32 m"
  shows "pod_ok cfg n s'"
  using step
proof cases
  case (take p i rev_no)
  have "vehicle_ok cfg (workers s i) (Some p) (tails (store s) v) v" if "worker_of n v = Some i" for v
    using ok that take(3) vehicle_ok_frame [of cfg "workers s i" None "tails (store s) v" v "workers s i" "Some p"]
    by (fastforce simp: pod_ok_def)
  then show ?thesis using ok take by (auto simp: pod_ok_def)
next
  case (retry i p rev_no a e w d)
  have "vehicle_ok cfg (workers s i) (Some p) (tails (store s) (payload_vehicle p)) (payload_vehicle p)"
    using ok retry(2) unfolding pod_ok_def by fastforce
  note post = process_keeps [OF this W R retry(3) M, of rev_no]
  show ?thesis using attempt_keeps_pod [OF ok retry(2) post [unfolded retry(4)] refl] retry(1) by simp
next
  case (finish i p rev_no a r w d)
  have "vehicle_ok cfg (workers s i) (Some p) (tails (store s) (payload_vehicle p)) (payload_vehicle p)"
    using ok finish(2) unfolding pod_ok_def by fastforce
  note post = process_keeps [OF this W R finish(3) M, of rev_no]
  show ?thesis using attempt_keeps_pod [OF ok finish(2) post [unfolded finish(4)] refl] finish(1) by simp
next
  case crash
  then show ?thesis using ok by (auto simp: pod_ok_def vehicle_ok_def worker_new_def)
qed

lemma pod_reachable_ok:
  assumes "pod_reachable cfg n M s" "1 \<le> context_window cfg" "1 \<le> retained cfg" "\<forall>m \<in> M. generates_u32 m"
  shows "pod_ok cfg n s"
  using assms(1)
proof (induction rule: pod_reachable.induct)
  case initial
  then show ?case by (auto simp: pod_ok_def pod_new_def vehicle_ok_def worker_new_def)
next
  case (step s s')
  then show ?case using pod_step_ok assms(2-4) by blast
qed

section \<open>Driving an event\<close>

text \<open>Every emission of an attempt is of its vehicle and carries the revision of its message.\<close>

definition emits :: "vehicle_id \<Rightarrow> nat \<Rightarrow> ('e, 'p) durable \<Rightarrow> ('e, 'p) durable \<Rightarrow> bool" where
  "emits v rev_no d d' \<longleftrightarrow> (\<exists>es. published d' = published d @ es
     \<and> (\<forall>e \<in> set es. matched_vehicle e = v \<and> revision (matched_emission e) = rev_no))"

lemma emits_refl: "emits v rev_no d d"
  by (simp add: emits_def)

lemma emits_trans: "emits v rev_no d d' \<Longrightarrow> emits v rev_no d' d'' \<Longrightarrow> emits v rev_no d d''"
  by (fastforce simp: emits_def)

lemma commit_emits: "commit_reply a v rev_no r w d = (b, w', d') \<Longrightarrow> emits v rev_no d d'"
  by (auto simp: commit_reply_def emits_def Let_def split: match_reply.splits delivery.splits)

lemma process_emits:
  assumes "vehicle_ok cfg w (Some p) (tails d (payload_vehicle p)) (payload_vehicle p)" "1 \<le> context_window cfg"
    "process cfg a p rev_no w d = (res, w', d')"
  shows "emits (payload_vehicle p) rev_no d d'"
proof (cases rule: process_cases [OF assms(1) refl assms(2), of a rev_no])
  case (4 w1 lane ctx j r b w2 d2)
  have "published d' = published d2" using 4(8) assms(3) write_tail_frame(1) by (auto split: if_splits)
  then show ?thesis using commit_emits [OF 4(7)] by (simp add: emits_def)
qed (use assms(3) emits_refl in auto)

text \<open>An attempt with no failure: some request is answered within the retries, and both writes are acknowledged.\<close>

definition clean_attempt :: "'p settings \<Rightarrow> ('e, 'p) attempt \<Rightarrow> bool" where
  "clean_attempt cfg a \<longleftrightarrow> warm_ok a \<and> encode_ok a \<and> publish a = Acked \<and> archived a
     \<and> (\<forall>ctx. \<exists>k r. k \<le> solve_retries cfg \<and> answers a ctx k = Replied r \<and> (\<forall>j < k. answers a ctx j = RequestFailed))"

lemma solve_loop_succeeds:
  "ans (i + k) = Replied r \<Longrightarrow> \<forall>j < k. ans (i + j) = RequestFailed \<Longrightarrow> k < left \<Longrightarrow> solve_loop left ans i = Some r"
proof (induction k arbitrary: i left)
  case 0
  then show ?case by (cases left) simp_all
next
  case (Suc k)
  obtain m where m: "left = Suc m" using Suc.prems(3) by (cases left) simp_all
  have "ans i = RequestFailed" using Suc.prems(2) by (metis add.right_neutral zero_less_Suc)
  moreover have "solve_loop m ans (Suc i) = Some r" using Suc.prems m by (intro Suc.IH) auto
  ultimately show ?case by (simp add: m)
qed

lemma clean_attempt_ends:
  assumes clean: "clean_attempt cfg a"
    and ok: "vehicle_ok cfg w (Some p) (tails d (payload_vehicle p)) (payload_vehicle p)" "1 \<le> context_window cfg"
  shows "fst (process cfg a p rev_no w d) \<in> range Ok"
proof (cases rule: process_cases [OF ok(1) refl ok(2), of a rev_no])
  case 1
  then show ?thesis using clean by (simp add: warm_lane_def clean_attempt_def split: if_splits)
next
  case (3 w1 lane ctx)
  have "solve_request (solve_retries cfg) (encode_ok a) (answers a ctx) \<noteq> None"
    using clean solve_loop_succeeds [of "answers a ctx" 0] unfolding clean_attempt_def solve_request_def
    by (metis add_0 less_Suc_eq_le option.discI)
  then show ?thesis using 3 by simp
next
  case (4 w1 lane ctx j r b w2 d2)
  have "b" using clean 4(7) by (auto simp: commit_reply_def clean_attempt_def Let_def split: match_reply.splits)
  then show ?thesis using 4(8) clean by (simp add: clean_attempt_def)
qed simp

text \<open>The whole drive: what holds when it stops, whatever its attempts met.\<close>

lemma drive_keeps:
  fixes w :: "('e, 'p) worker" and d :: "('e, 'p) durable" and M :: "('e, 'p, 'm) matcher set"
  assumes W: "1 \<le> context_window cfg" and R: "1 \<le> retained cfg" and M: "\<forall>m \<in> M. generates_u32 m"
    and v: "v = payload_vehicle p"
  shows "vehicle_ok cfg w (Some p) (tails d v) v \<Longrightarrow> \<forall>a \<in> set as. answered_by M a \<Longrightarrow> drive cfg as p rev_no w d = (res, w', d') \<Longrightarrow>
    res \<in> {None, Some (Ok Done), Some (Ok Dropped)} \<and> emits v rev_no d d'
    \<and> sorted (map event_time (tails d' v)) \<and> (\<forall>e \<in> set (tails d' v). event_vehicle e = v)
    \<and> (res \<noteq> None \<longrightarrow> tails d' v \<noteq> [] \<and> whole_micros (payload_time p) \<le> event_time (last (tails d' v)))
    \<and> (res = Some (Ok Done) \<longrightarrow> last (tails d' v) = stored (as_event p))
    \<and> (\<forall>u. u \<noteq> v \<longrightarrow> tails d' u = tails d u)
    \<and> ((\<exists>a \<in> set as. clean_attempt cfg a) \<longrightarrow> res \<noteq> None)"
proof (induction as arbitrary: w d)
  case Nil
  then show ?case by (auto simp: emits_refl vehicle_ok_def)
next
  case (Cons a as)
  obtain r w1 d1 where run: "process cfg a p rev_no w d = (r, w1, d1)" by (cases "process cfg a p rev_no w d")
  have post: "attempt_post cfg p w d (r, w1, d1)"
    using process_keeps [OF Cons.prems(1) [unfolded v] W R _ M, of a rev_no] Cons.prems(2) run by simp
  have em: "emits v rev_no d d1" using process_emits [OF Cons.prems(1) [unfolded v] W run] v by simp
  show ?case
  proof (cases r)
    case (Err e)
    have "vehicle_ok cfg w1 (Some p) (tails d1 v) v" "\<forall>u. u \<noteq> v \<longrightarrow> tails d1 u = tails d u"
      using post v Err by (auto simp: attempt_post_def Let_def)
    moreover have "\<not> clean_attempt cfg a" using clean_attempt_ends [OF _ Cons.prems(1) [unfolded v] W, of a rev_no] run Err by auto
    moreover have "drive cfg as p rev_no w1 d1 = (res, w', d')" using Cons.prems(3) run Err by simp
    ultimately show ?thesis using Cons.IH [of w1 d1] Cons.prems(2) emits_trans [OF em] by auto
  next
    case Panic
    then show ?thesis using post by (simp add: attempt_post_def Let_def)
  next
    case (Ok x)
    then have "res = Some (Ok x)" "w' = w1" "d' = d1" using Cons.prems(3) run by auto
    then show ?thesis using post em v Ok by (cases x) (auto simp: attempt_post_def vehicle_ok_def Let_def)
  qed
qed

text \<open>An event at or behind the durable tail is dropped without a trace.\<close>

lemma drive_stale:
  assumes W: "1 \<le> context_window cfg" and v: "v = payload_vehicle p"
    and stale: "tails d v \<noteq> []" "payload_time p \<le> event_time (last (tails d v))"
  shows "vehicle_ok cfg w None (tails d v) v \<Longrightarrow> drive cfg as p rev_no w d = (res, w', d') \<Longrightarrow>
    d' = d \<and> (res = None \<or> res = Some (Ok Dropped))"
proof (induction as)
  case (Cons a as)
  have lane: "lane \<noteq> [] \<and> payload_time p \<le> event_time (last lane)"
    if "warm_lane cfg a v w d = Some w1" "histories w1 v = Some lane" for w1 lane
    using warm_lane_keeps(1) [OF Cons.prems(1) W that(1)] that(2) stale whole_micros_le [of "event_time (last lane)"]
    by (auto simp: vehicle_ok_def lane_ok_def synced_def)
  have busy: "vehicle_ok cfg w (Some p) (tails d v) v" using Cons.prems(1) by (auto simp: vehicle_ok_def lane_ok_def)
  show ?case
  proof (cases rule: process_cases [OF busy v W, of a rev_no])
    case 1
    then show ?thesis using Cons by simp
  next
    case (2 w1 l)
    then show ?thesis using Cons.prems(2) by simp
  next
    case (3 w1 l ctx)
    then show ?thesis using lane by blast
  next
    case (4 w1 l ctx j r b w2 d2)
    then show ?thesis using lane by blast
  qed
qed simp

end
