(* ===== verification/Realtime_Theorems.thy ===== *)
theory Realtime_Theorems
  imports Orchestrator_Laws Matcher_Theorems
begin

text \<open>
  The theorems about the realtime fleet: how vehicles are placed on pods, streams and stores, what the
  context of an event holds, what a matcher replies, and what a pod keeps through failures and
  redeliveries.
\<close>

section \<open>Placement\<close>

text \<open>
  (C25) The fleet covers every vehicle exactly once. Of \<open>n\<close> pods named \<open>name-0\<close> to \<open>name-(n-1)\<close>,
  exactly one owns the partition of a vehicle; exactly one of the raw streams binds the subject of
  that partition, and it is the one \<open>stream_index\<close> names.
\<close>

theorem fleet_covers_vehicles:
  assumes "1 \<le> n" "n \<le> PARTITIONS" "1 \<le> streams"
  shows "(\<exists>!k. k < n \<and> (\<exists>lo hi. owned_partitions \<lparr>arg_partitions = None,
        pod_name = Some (name @ CHR ''-'' # show_nat k), fleet = Some n\<rparr> = Ok (lo, hi)
        \<and> lo \<le> partition_of v \<and> partition_of v \<le> hi))
    \<and> (\<exists>!i. i < streams \<and> (\<exists>ps. raw_stream_partitions i streams = Some ps \<and> partition_of v \<in> set ps))
    \<and> (\<exists>i ps. stream_index (partition_of v) streams = Some i \<and> raw_stream_partitions i streams = Some ps
        \<and> partition_of v \<in> set ps)"
proof (intro conjI)
  let ?chunk = "PARTITIONS div n"
  have owned: "owned_partitions \<lparr>arg_partitions = None, pod_name = Some (name @ CHR ''-'' # show_nat k), fleet = Some n\<rparr>
    = Ok (k * ?chunk, if k = n - 1 then PARTITIONS - 1 else (k + 1) * ?chunk - 1)" if "k < n" for k
    using assms that by (simp add: owned_partitions_def rsplit_show parse_show PARTITIONS_def Let_def)
  show "\<exists>!k. k < n \<and> (\<exists>lo hi. owned_partitions \<lparr>arg_partitions = None,
        pod_name = Some (name @ CHR ''-'' # show_nat k), fleet = Some n\<rparr> = Ok (lo, hi)
        \<and> lo \<le> partition_of v \<and> partition_of v \<le> hi)"
    using slice_of_partition [OF assms(1,2) partition_of_range [of v]] owned by (auto cong: conj_cong)
  have "0 < streams" using assms(3) by simp
  from stream_of_partition [OF this partition_of_range [of v]] obtain i ps where
    i: "stream_index (partition_of v) streams = Some i" "i < streams" "raw_stream_partitions i streams = Some ps"
      "partition_of v \<in> set ps" by metis
  show "\<exists>!i. i < streams \<and> (\<exists>ps. raw_stream_partitions i streams = Some ps \<and> partition_of v \<in> set ps)"
    using i stream_unique by (intro ex1I [of _ i]) fastforce+
  show "\<exists>i ps. stream_index (partition_of v) streams = Some i \<and> raw_stream_partitions i streams = Some ps
      \<and> partition_of v \<in> set ps"
    using i by blast
qed

theorem fleet_covers_vehicles_witness:
  "\<exists>!k. k < 3 \<and> (\<exists>lo hi. owned_partitions \<lparr>arg_partitions = None,
        pod_name = Some (''pod'' @ CHR ''-'' # show_nat k), fleet = Some 3\<rparr> = Ok (lo, hi)
        \<and> lo \<le> partition_of 1 \<and> partition_of 1 \<le> hi)"
  using fleet_covers_vehicles [of 3 4 "''pod''" 1] by (simp add: PARTITIONS_def)

lemma index_for_urls:
  assumes "urls \<noteq> []"
  shows "\<exists>i. index_for (placement_new urls) key = Some i \<and> i < length urls
    \<and> (\<forall>u \<in> set urls. place_key (fnv1a (bytes_of key)) (fnv1a (bytes_of u)) \<le> place_key (fnv1a (bytes_of key)) (fnv1a (bytes_of (urls ! i))))"
proof -
  have "placement_new urls \<noteq> []" using assms by (simp add: placement_new_def)
  from index_for_greatest [OF this, of key] obtain i where "index_for (placement_new urls) key = Some i" "i < length (placement_new urls)"
    "\<forall>s \<in> set (placement_new urls). place_key (fnv1a (bytes_of key)) s \<le> place_key (fnv1a (bytes_of key)) (placement_new urls ! i)"
    by metis
  then show ?thesis by (intro exI [of _ i]) (auto simp: placement_new_def)
qed

text \<open>
  (C26) Histories stay where they are when the fleet of stores grows. Placement never fails on a
  non-empty fleet, and adding endpoints, in any order, moves the history of a vehicle to a new endpoint
  or not at all, as long as the hashes of the endpoints differ. In particular the order of the
  endpoints carries no meaning.
\<close>

theorem placement_is_stable:
  assumes "urls \<noteq> []" "set urls \<subseteq> set urls'" "inj_on (\<lambda>url. fnv1a (bytes_of url)) (set urls')"
  shows "\<exists>i j. index_for (placement_new urls) key = Some i \<and> i < length urls
    \<and> index_for (placement_new urls') key = Some j \<and> j < length urls'
    \<and> (urls' ! j = urls ! i \<or> urls' ! j \<notin> set urls)"
proof -
  let ?s = "\<lambda>url. fnv1a (bytes_of url)" and ?k = "place_key (fnv1a (bytes_of key))"
  have "urls' \<noteq> []" using assms(1,2) by auto
  from index_for_urls [OF assms(1), of key] index_for_urls [OF this, of key] obtain i j where
    i: "index_for (placement_new urls) key = Some i" "i < length urls" "\<forall>u \<in> set urls. ?k (?s u) \<le> ?k (?s (urls ! i))" and
    j: "index_for (placement_new urls') key = Some j" "j < length urls'" "\<forall>u \<in> set urls'. ?k (?s u) \<le> ?k (?s (urls' ! j))"
    by metis
  have "urls' ! j = urls ! i" if "urls' ! j \<in> set urls"
  proof -
    have "urls ! i \<in> set urls'" using i(2) assms(2) by auto
    then have "?k (?s (urls ! i)) = ?k (?s (urls' ! j))" using i(3) j(3) that by (simp add: antisym)
    then have "?s (urls ! i) = ?s (urls' ! j)" by (rule place_key_inj)
    then show ?thesis using assms(3) \<open>urls ! i \<in> set urls'\<close> j(2) by (auto dest: inj_onD)
  qed
  then show ?thesis using i j by blast
qed

theorem placement_is_stable_witness:
  "\<exists>i j. index_for (placement_new [''a'']) ''vehicle:7:positions'' = Some i \<and> i < 1
    \<and> index_for (placement_new [''b'', ''a'']) ''vehicle:7:positions'' = Some j \<and> j < 2
    \<and> ([''b'', ''a''] ! j = [''a''] ! i \<or> [''b'', ''a''] ! j \<notin> {''a''})"
proof -
  have "inj_on (\<lambda>url. fnv1a (bytes_of url)) (set [''b'', ''a''])"
    by (simp add: inj_on_def fnv1a_def bytes_of_def)
  from placement_is_stable [OF _ _ this, of "[''a'']" "''vehicle:7:positions''"] show ?thesis by (simp add: numeral_2_eq_2)
qed

section \<open>Contexts and replies\<close>

text \<open>
  (C27) The context of an event is a window of the recent past that ends in the event: its times
  increase strictly, it holds at most the configured number of past events, none but events of the lane,
  consecutive ones lie within the gap, and its last entry is the event itself even when the lane
  holds others of the same time.
\<close>

theorem context_is_recent_window:
  "let h = context_history cfg entries p
   in h \<noteq> [] \<and> last h = as_event p \<and> set h \<subseteq> insert (as_event p) (set entries)
      \<and> length h \<le> Suc (context_window cfg) \<and> sorted_wrt (<) (map event_time h)
      \<and> successively (\<lambda>a b. event_time b - event_time a \<le> gap cfg) h"
  using context_history_spec [of cfg entries p] by (simp add: Let_def)

text \<open>
  (C28) What a matcher replies. Given a trip that earlier operations produced, the service never
  panics: it replies \<open>NoMatch\<close> only when no observation anchors or the solve fails, and otherwise a
  diff with one layer per observation, on the candidate the solution chose, together with a trip over
  a suffix of the observations that can be resumed.
\<close>

theorem service_reply_spec:
  fixes m :: "('e, 'p, 'm) matcher"
  assumes "generates_u32 m" "open_trip m (context_continuation ctx) = (tr, fresh, degraded)" "session True m tr"
  shows "\<exists>tr1 ogs. push_each m tr fresh = Some tr1 \<and> ogs = origins tr @ anchored_origins m (length (origins tr)) fresh
    \<and> origins tr1 = ogs \<and>
    (case service_solve m ctx of
       None \<Rightarrow> False
     | Some NoMatch \<Rightarrow> ogs = [] \<or> (\<forall>p. snd (matcher_solve m tr1) \<noteq> Ok p)
     | Some (MatchSolved diff tr') \<Rightarrow> revision diff = 0 \<and> downgraded diff = degraded
         \<and> (\<exists>p. snd (matcher_solve m tr1) = Ok p \<and> choice_ok (candidates tr1) (path_nodes p)
             \<and> length (diff_layers diff) = length ogs
             \<and> (\<forall>k < length ogs. layer_timestamp (diff_layers diff ! k) = timestamp (ogs ! k)
                  \<and> layer_edge (diff_layers diff ! k) = edge (candidates tr1 ! k ! (path_nodes p ! k))
                  \<and> layer_position (diff_layers diff ! k) = position_on (candidates tr1 ! k ! (path_nodes p ! k))))
         \<and> session True m tr' \<and> (\<exists>n < length ogs. origins tr' = drop n ogs))"
  using service_solve_spec [OF assms refl] by blast

text \<open>Three fresh observations, the middle one off every road.\<close>

theorem service_reply_spec_witness:
  "\<exists>tr1. push_each line_matcher trip_new [pt 0, pt 9, pt 2] = Some tr1 \<and> origins tr1 = [pt 0, pt 2]
     \<and> service_solve line_matcher \<lparr>context_vehicle = 7, context_continuation = Restart [pt 0, pt 9, pt 2]\<rparr> \<noteq> None"
proof -
  have o: "open_trip line_matcher (context_continuation \<lparr>context_vehicle = 7, context_continuation = Restart [pt 0, pt 9, pt 2]\<rparr>)
    = (trip_new, [pt 0, pt 9, pt 2], False)" by (simp add: open_trip_def begin_trip_def)
  have "anchored_origins line_matcher 0 [pt 0, pt 9, pt 2] = [pt 0, pt 2]" by (simp add: line_defs)
  then show ?thesis
    using service_reply_spec [OF line_matcher_fits(1) o session.start] by (auto simp: trip_new_def split: option.splits)
qed

text \<open>
  What cutting forgets. All candidates of the convergence layer are kept, without the cost of reaching
  them, so a later solve of the cut trip may leave the node that every solution had passed.
\<close>

definition fused_trellis :: trellis where
  "fused_trellis = \<lparr>widths = [1, 2, 2], node_table = [0, 0, 0, 0, 0],
     transitions = [Resolved [1, 100], Resolved [10, 10, 1, 1]]\<rparr>"

lemma cut_may_leave_the_fused_node:
  "viterbi_solve fused_trellis = Ok \<lparr>path_nodes = [0, 0, 0], path_total = 11\<rparr>"
  "convergence fused_trellis = Ok (Some 1)"
  "trellis_last fused_trellis (3 - 1) = Ok \<lparr>widths = [2, 2], node_table = [0, 0, 0, 0], transitions = [Resolved [10, 10, 1, 1]]\<rparr>"
  "viterbi_solve \<lparr>widths = [2, 2], node_table = [0, 0, 0, 0], transitions = [Resolved [10, 10, 1, 1]]\<rparr>
    = Ok \<lparr>path_nodes = [1, 0], path_total = 1\<rparr>"
  by (simp_all add: fused_trellis_def run_defs trellis_last_def Trellis_Model.partition_def layers_def node_range_def
      layer_ranges_def slice_def range_len_def numeral_2_eq_2)

section \<open>The pipeline\<close>

text \<open>
  (C29) A pod drives an event to its acknowledgement. From every state a pod can reach, through failed
  reads, requests, publications and writes, displaced caches and crashes, an idle worker that takes an
  event of one of its vehicles never panics; it emits nothing but diffs of that vehicle under the
  revision of the message, touches no other vehicle's tail and keeps the durable tail sorted by time;
  when the drive ends, the tail has reached the event up to the microseconds it stores, and ends in it
  unless the event was stale; an event timed in whole microseconds that was acknowledged before is dropped
  and leaves no trace; and one attempt without a failure ends the drive.
\<close>

theorem pod_drives_to_acknowledgement:
  fixes M :: "('e, 'p, 'm) matcher set" and s :: "('e, 'p) pod"
  assumes "pod_reachable cfg n M s" "1 \<le> context_window cfg" "1 \<le> retained cfg" "\<forall>m \<in> M. generates_u32 m"
    and "worker_of n (payload_vehicle p) = Some i" "driving s i = None" "\<forall>a \<in> set as. answered_by M a"
  shows "case drive cfg as p rev_no (workers s i) (store s) of (res, w, d) \<Rightarrow>
      let v = payload_vehicle p; tail = tails d v in
      res \<in> {None, Some (Ok Done), Some (Ok Dropped)} \<and> emits v rev_no (store s) d
      \<and> sorted (map event_time tail) \<and> (\<forall>e \<in> set tail. event_vehicle e = v) \<and> (\<forall>u. u \<noteq> v \<longrightarrow> tails d u = tails (store s) u)
      \<and> (res \<noteq> None \<longrightarrow> tail \<noteq> [] \<and> whole_micros (payload_time p) \<le> event_time (last tail))
      \<and> (res = Some (Ok Done) \<longrightarrow> last tail = stored (as_event p))
      \<and> (\<forall>r. (p, r) \<in> set (acked s) \<and> 1000 dvd payload_time p \<longrightarrow> d = store s \<and> (res = None \<or> res = Some (Ok Dropped)))
      \<and> ((\<exists>a \<in> set as. clean_attempt cfg a) \<longrightarrow> res \<noteq> None)"
proof -
  let ?v = "payload_vehicle p"
  obtain res w d where run: "drive cfg as p rev_no (workers s i) (store s) = (res, w, d)"
    by (cases "drive cfg as p rev_no (workers s i) (store s)")
  have ok: "pod_ok cfg n s" using assms(1-4) by (rule pod_reachable_ok)
  then have idle: "vehicle_ok cfg (workers s i) None (tails (store s) ?v) ?v" using assms(5,6) unfolding pod_ok_def by fastforce
  then have "vehicle_ok cfg (workers s i) (Some p) (tails (store s) ?v) ?v" by (rule vehicle_ok_frame) simp_all
  note k = drive_keeps [OF assms(2-4) refl this assms(7) run]
  have "d = store s \<and> (res = None \<or> res = Some (Ok Dropped))" if "(p, r) \<in> set (acked s)" "1000 dvd payload_time p" for r
  proof -
    have "tails (store s) ?v \<noteq> []" "payload_time p \<le> event_time (last (tails (store s) ?v))"
      using ok that(1) whole_micros_dvd [OF that(2)] by (auto simp: pod_ok_def)
    then show ?thesis using drive_stale [OF assms(2) refl _ _ idle run] by simp
  qed
  then show ?thesis using k run by (auto simp: Let_def)
qed

text \<open>A pod of two workers, and an attempt in which everything succeeds.\<close>

definition calm :: "(nat, nat) attempt" where
  "calm = \<lparr>warm_ok = True, encode_ok = True, answers = (\<lambda>ctx k. Replied (service_answer line_matcher ctx)),
     publish = Acked, archived = True, copies = 0, displaced_lanes = {}, displaced_trips = {}, trimmed = 0\<rparr>"

definition small :: "nat settings" where
  "small = \<lparr>geometry = line_geo, gap = 120, jump_distance = 2000, context_window = 10, solve_retries = 3, retained = 25\<rparr>"

theorem pod_drives_to_acknowledgement_witness:
  "case drive small [calm] \<lparr>payload_vehicle = 7, payload_time = 5000, payload_point = 0\<rparr> 1
      worker_new \<lparr>tails = \<lambda>_. [], published = []\<rparr> of (res, w, d) \<Rightarrow> res \<noteq> None \<and> tails d 7 \<noteq> []"
proof -
  let ?p = "\<lparr>payload_vehicle = 7, payload_time = 5000, payload_point = 0\<rparr> :: nat payload"
  obtain i where i: "worker_of 2 (payload_vehicle ?p) = Some i" by (simp add: worker_of_def)
  have a: "\<forall>a \<in> set [calm]. answered_by {line_matcher} a" "\<exists>a \<in> set [calm]. clean_attempt small a"
    by (auto simp: answered_by_def clean_attempt_def calm_def)
  have c: "1 \<le> context_window small" "1 \<le> retained small" "\<forall>m \<in> {line_matcher}. generates_u32 m" "driving pod_new i = None"
    using line_matcher_fits(1) by (simp_all add: small_def pod_new_def)
  from pod_drives_to_acknowledgement [OF pod_reachable.initial c(1-3) i c(4) a(1), of 1] a(2) show ?thesis
    by (auto simp: pod_new_def Let_def simp del: drive.simps split: prod.splits)
qed

text \<open>
  Where the microseconds matter: an event timed between two of them, archived and read back by a new
  worker, is newer than what the store holds of it, so the gate lets its redelivery pass.
\<close>

lemma redelivery_between_microseconds_passes:
  defines "p \<equiv> \<lparr>payload_vehicle = 7, payload_time = 5001, payload_point = 0\<rparr> :: nat payload"
  defines "d \<equiv> write_tail 25 1 0 (as_event p) \<lparr>tails = \<lambda>_. [], published = []\<rparr> :: (nat, nat) durable"
  shows "fst (process small calm p 1 worker_new d) = Ok Done"
    and "map event_time (context_history small (tails d 7) p) = [5000, 5001]"
    and "map timestamp (map event_origin (context_history small (tails d 7) p)) = [5, 5]"
proof -
  have t: "tails d 7 = [\<lparr>event_vehicle = 7, event_point = 0, event_time = 5000\<rparr>]"
    by (simp add: d_def p_def write_tail_def as_event_def stored_def whole_micros_def)
  have h: "context_history small (tails d 7) p = [\<lparr>event_vehicle = 7, event_point = 0, event_time = 5000\<rparr>,
      \<lparr>event_vehicle = 7, event_point = 0, event_time = 5001\<rparr>]"
    unfolding t by (simp add: context_history_def p_def small_def as_event_def line_geo_def)
  then show "map event_time (context_history small (tails d 7) p) = [5000, 5001]"
    and "map timestamp (map event_origin (context_history small (tails d 7) p)) = [5, 5]"
    by (simp_all add: event_origin_def)
  have "get_many d 7 (context_window small * 3) = tails d 7" by (simp add: get_many_def t small_def)
  then have w: "warm_lane small calm 7 worker_new d = Some (worker_new\<lparr>histories := [7 \<mapsto> tails d 7]\<rparr>)"
    by (simp add: warm_lane_def worker_new_def calm_def cache_put_def t)
  have v: "payload_vehicle p = 7" "payload_time p = 5001" by (simp_all add: p_def)
  have ok: "vehicle_ok small worker_new (Some p) (tails d 7) 7" and W: "1 \<le> context_window small"
    by (simp_all add: vehicle_ok_def worker_new_def t whole_micros_def small_def)
  have "clean_attempt small calm" by (auto simp: clean_attempt_def calm_def)
  from clean_attempt_ends [OF this ok [folded v(1)] W, of 1] have ends: "fst (process small calm p 1 worker_new d) \<in> range Ok" .
  show "fst (process small calm p 1 worker_new d) = Ok Done"
  proof (cases rule: process_cases [OF ok v(1) [symmetric] W, of calm 1])
    case (2 w1 lane)
    then show ?thesis using w v(2) t by auto
  next
    case (4 w1 lane ctx j r b w2 d2)
    then have "b" by (auto simp: commit_reply_def calm_def Let_def split: match_reply.splits)
    then show ?thesis using 4(8) by (simp add: calm_def)
  qed (use ends in auto)
qed

end
