(* ===== verification/Transport.thy ===== *)
theory Transport
  imports Decimal "HOL-Library.Word" "HOL-Library.Sublist"
begin

unbundle bit_operations_syntax

text \<open>
  The transport modes of access tags (\<open>primitives/transport.rs\<close>): their names, the chain from the most general
  mode to each, the same chain as a set of bits, and the categories. The tables are those of the source,
  line by line; that they agree is proved here.
\<close>

section \<open>Modes\<close>

datatype (plugins only: size) transport_mode =
    AllModes | Foot | Dog | Ski | SkiNordic | SkiAlpine | SkiTelemark | InlineSkates | Horse | Portage | Bicycle |
    ElectricBicycle | Mtb | CargoBike | KickScooter | Carriage | CycleRickshaw | HandCart | Trailer | Caravan |
    Vehicle | MotorVehicle | Motorcycle | Moped | SpeedPedelec | Mofa | SmallElectricVehicle | Motorcar | Motorhome |
    TouristBus | Coach | Goods | Hgv | HgvArticulated | Bdouble | Agricultural | AutoRickshaw | Nev | GolfCart |
    Microcar | Atv | Ohv | Snowmobile | Psv | Bus | Taxi | Minibus | ShareTaxi | Hov | Carpool | CarSharing |
    Emergency | Hazmat | HazmatWater | SchoolBus | Disabled | WaterAccess | Swimming | IceSkates | Boat | Motorboat |
    Sailboat | Canoe | FishingVessel | Ship | Passenger | Cargo | Bulk | Tanker | TankerGas | TankerOil |
    TankerChemical | TankerSinglehull | Container | Imdg | Isps | RailAccess | Train | Tram | Metro

text \<open>The modes in declaration order, with their serialised names.\<close>

definition all_modes :: "transport_mode list" where
  "all_modes = [
     AllModes, Foot, Dog, Ski, SkiNordic, SkiAlpine, SkiTelemark, InlineSkates, Horse, Portage, Bicycle,
     ElectricBicycle, Mtb, CargoBike, KickScooter, Carriage, CycleRickshaw, HandCart, Trailer, Caravan, Vehicle,
     MotorVehicle, Motorcycle, Moped, SpeedPedelec, Mofa, SmallElectricVehicle, Motorcar, Motorhome, TouristBus,
     Coach, Goods, Hgv, HgvArticulated, Bdouble, Agricultural, AutoRickshaw, Nev, GolfCart, Microcar, Atv, Ohv,
     Snowmobile, Psv, Bus, Taxi, Minibus, ShareTaxi, Hov, Carpool, CarSharing, Emergency, Hazmat, HazmatWater,
     SchoolBus, Disabled, WaterAccess, Swimming, IceSkates, Boat, Motorboat, Sailboat, Canoe, FishingVessel, Ship,
     Passenger, Cargo, Bulk, Tanker, TankerGas, TankerOil, TankerChemical, TankerSinglehull, Container, Imdg, Isps,
     RailAccess, Train, Tram, Metro]"

primrec mode_name :: "transport_mode \<Rightarrow> string" where
  "mode_name AllModes = ''access''"
| "mode_name Foot = ''foot''"
| "mode_name Dog = ''dog''"
| "mode_name Ski = ''ski''"
| "mode_name SkiNordic = ''ski:nordic''"
| "mode_name SkiAlpine = ''ski:alpine''"
| "mode_name SkiTelemark = ''ski:telemark''"
| "mode_name InlineSkates = ''inline_skates''"
| "mode_name Horse = ''horse''"
| "mode_name Portage = ''portage''"
| "mode_name Bicycle = ''bicycle''"
| "mode_name ElectricBicycle = ''electric_bicycle''"
| "mode_name Mtb = ''mtb''"
| "mode_name CargoBike = ''cargo_bike''"
| "mode_name KickScooter = ''kick_scooter''"
| "mode_name Carriage = ''carriage''"
| "mode_name CycleRickshaw = ''cycle_rickshaw''"
| "mode_name HandCart = ''hand_cart''"
| "mode_name Trailer = ''trailer''"
| "mode_name Caravan = ''caravan''"
| "mode_name Vehicle = ''vehicle''"
| "mode_name MotorVehicle = ''motor_vehicle''"
| "mode_name Motorcycle = ''motorcycle''"
| "mode_name Moped = ''moped''"
| "mode_name SpeedPedelec = ''speed_pedelec''"
| "mode_name Mofa = ''mofa''"
| "mode_name SmallElectricVehicle = ''small_electric_vehicle''"
| "mode_name Motorcar = ''motorcar''"
| "mode_name Motorhome = ''motorhome''"
| "mode_name TouristBus = ''tourist_bus''"
| "mode_name Coach = ''coach''"
| "mode_name Goods = ''goods''"
| "mode_name Hgv = ''hgv''"
| "mode_name HgvArticulated = ''hgv_articulated''"
| "mode_name Bdouble = ''bdouble''"
| "mode_name Agricultural = ''agricultural''"
| "mode_name AutoRickshaw = ''auto_rickshaw''"
| "mode_name Nev = ''nev''"
| "mode_name GolfCart = ''golf_cart''"
| "mode_name Microcar = ''microcar''"
| "mode_name Atv = ''atv''"
| "mode_name Ohv = ''ohv''"
| "mode_name Snowmobile = ''snowmobile''"
| "mode_name Psv = ''psv''"
| "mode_name Bus = ''bus''"
| "mode_name Taxi = ''taxi''"
| "mode_name Minibus = ''minibus''"
| "mode_name ShareTaxi = ''share_taxi''"
| "mode_name Hov = ''hov''"
| "mode_name Carpool = ''carpool''"
| "mode_name CarSharing = ''car_sharing''"
| "mode_name Emergency = ''emergency''"
| "mode_name Hazmat = ''hazmat''"
| "mode_name HazmatWater = ''hazmat:water''"
| "mode_name SchoolBus = ''school_bus''"
| "mode_name Disabled = ''disabled''"
| "mode_name WaterAccess = ''water_access''"
| "mode_name Swimming = ''swimming''"
| "mode_name IceSkates = ''ice_skates''"
| "mode_name Boat = ''boat''"
| "mode_name Motorboat = ''motorboat''"
| "mode_name Sailboat = ''sailboat''"
| "mode_name Canoe = ''canoe''"
| "mode_name FishingVessel = ''fishing_vessel''"
| "mode_name Ship = ''ship''"
| "mode_name Passenger = ''passenger''"
| "mode_name Cargo = ''cargo''"
| "mode_name Bulk = ''bulk''"
| "mode_name Tanker = ''tanker''"
| "mode_name TankerGas = ''tanker:gas''"
| "mode_name TankerOil = ''tanker:oil''"
| "mode_name TankerChemical = ''tanker:chemical''"
| "mode_name TankerSinglehull = ''tanker:singlehull''"
| "mode_name Container = ''container''"
| "mode_name Imdg = ''imdg''"
| "mode_name Isps = ''isps''"
| "mode_name RailAccess = ''rail_access''"
| "mode_name Train = ''train''"
| "mode_name Tram = ''tram''"
| "mode_name Metro = ''metro''"

section \<open>Bit sets\<close>

text \<open>The bit of a mode in a \<open>TransportModeSet\<close>.\<close>

primrec flag_bit :: "transport_mode \<Rightarrow> nat" where
  "flag_bit AllModes = 0"
| "flag_bit Foot = 1"
| "flag_bit Dog = 2"
| "flag_bit Ski = 3"
| "flag_bit SkiNordic = 4"
| "flag_bit SkiAlpine = 5"
| "flag_bit SkiTelemark = 6"
| "flag_bit InlineSkates = 7"
| "flag_bit Horse = 8"
| "flag_bit Portage = 9"
| "flag_bit Bicycle = 10"
| "flag_bit ElectricBicycle = 11"
| "flag_bit Mtb = 12"
| "flag_bit CargoBike = 13"
| "flag_bit KickScooter = 14"
| "flag_bit Carriage = 15"
| "flag_bit CycleRickshaw = 16"
| "flag_bit HandCart = 17"
| "flag_bit Trailer = 18"
| "flag_bit Caravan = 19"
| "flag_bit Vehicle = 20"
| "flag_bit MotorVehicle = 21"
| "flag_bit Motorcycle = 22"
| "flag_bit Moped = 23"
| "flag_bit SpeedPedelec = 24"
| "flag_bit Mofa = 25"
| "flag_bit SmallElectricVehicle = 26"
| "flag_bit Motorcar = 27"
| "flag_bit Motorhome = 28"
| "flag_bit TouristBus = 29"
| "flag_bit Coach = 30"
| "flag_bit Goods = 31"
| "flag_bit Hgv = 32"
| "flag_bit HgvArticulated = 33"
| "flag_bit Bdouble = 34"
| "flag_bit Agricultural = 35"
| "flag_bit AutoRickshaw = 36"
| "flag_bit Nev = 37"
| "flag_bit GolfCart = 38"
| "flag_bit Microcar = 39"
| "flag_bit Atv = 40"
| "flag_bit Ohv = 41"
| "flag_bit Snowmobile = 42"
| "flag_bit Psv = 43"
| "flag_bit Bus = 44"
| "flag_bit Taxi = 45"
| "flag_bit Minibus = 46"
| "flag_bit ShareTaxi = 47"
| "flag_bit Hov = 48"
| "flag_bit Carpool = 49"
| "flag_bit CarSharing = 50"
| "flag_bit Emergency = 51"
| "flag_bit Hazmat = 52"
| "flag_bit HazmatWater = 53"
| "flag_bit SchoolBus = 54"
| "flag_bit Disabled = 55"
| "flag_bit WaterAccess = 56"
| "flag_bit Swimming = 57"
| "flag_bit IceSkates = 58"
| "flag_bit Boat = 59"
| "flag_bit Motorboat = 60"
| "flag_bit Sailboat = 61"
| "flag_bit Canoe = 62"
| "flag_bit FishingVessel = 63"
| "flag_bit Ship = 64"
| "flag_bit Passenger = 65"
| "flag_bit Cargo = 66"
| "flag_bit Bulk = 67"
| "flag_bit Tanker = 68"
| "flag_bit TankerGas = 69"
| "flag_bit TankerOil = 70"
| "flag_bit TankerChemical = 71"
| "flag_bit TankerSinglehull = 72"
| "flag_bit Container = 73"
| "flag_bit Imdg = 74"
| "flag_bit Isps = 75"
| "flag_bit RailAccess = 76"
| "flag_bit Train = 77"
| "flag_bit Tram = 78"
| "flag_bit Metro = 79"

type_synonym mode_set = "128 word"

definition to_flag :: "transport_mode \<Rightarrow> mode_set" where
  "to_flag m = push_bit (flag_bit m) 1"

definition contains_flags :: "mode_set \<Rightarrow> mode_set \<Rightarrow> bool" where
  "contains_flags s flags \<longleftrightarrow> s AND flags = flags"

section \<open>The hierarchy\<close>

primrec hierarchy_chain :: "transport_mode \<Rightarrow> transport_mode list" where
  "hierarchy_chain AllModes = [AllModes]"
| "hierarchy_chain Foot = [AllModes, Foot]"
| "hierarchy_chain Dog = [AllModes, Dog]"
| "hierarchy_chain Ski = [AllModes, Ski]"
| "hierarchy_chain SkiNordic = [AllModes, Ski, SkiNordic]"
| "hierarchy_chain SkiAlpine = [AllModes, Ski, SkiAlpine]"
| "hierarchy_chain SkiTelemark = [AllModes, Ski, SkiTelemark]"
| "hierarchy_chain InlineSkates = [AllModes, InlineSkates]"
| "hierarchy_chain Horse = [AllModes, Horse]"
| "hierarchy_chain Portage = [AllModes, Portage]"
| "hierarchy_chain Bicycle = [AllModes, Vehicle, Bicycle]"
| "hierarchy_chain ElectricBicycle = [AllModes, Vehicle, Bicycle, ElectricBicycle]"
| "hierarchy_chain Mtb = [AllModes, Vehicle, Bicycle, Mtb]"
| "hierarchy_chain CargoBike = [AllModes, Vehicle, Bicycle, CargoBike]"
| "hierarchy_chain KickScooter = [AllModes, Vehicle, KickScooter]"
| "hierarchy_chain Carriage = [AllModes, Vehicle, Carriage]"
| "hierarchy_chain CycleRickshaw = [AllModes, Vehicle, CycleRickshaw]"
| "hierarchy_chain HandCart = [AllModes, Vehicle, HandCart]"
| "hierarchy_chain Trailer = [AllModes, Vehicle, Trailer]"
| "hierarchy_chain Caravan = [AllModes, Vehicle, Caravan]"
| "hierarchy_chain Vehicle = [AllModes, Vehicle]"
| "hierarchy_chain MotorVehicle = [AllModes, Vehicle, MotorVehicle]"
| "hierarchy_chain Motorcycle = [AllModes, Vehicle, MotorVehicle, Motorcycle]"
| "hierarchy_chain Moped = [AllModes, Vehicle, MotorVehicle, Moped]"
| "hierarchy_chain SpeedPedelec = [AllModes, Vehicle, MotorVehicle, SpeedPedelec]"
| "hierarchy_chain Mofa = [AllModes, Vehicle, MotorVehicle, Mofa]"
| "hierarchy_chain SmallElectricVehicle = [AllModes, Vehicle, MotorVehicle, SmallElectricVehicle]"
| "hierarchy_chain Motorcar = [AllModes, Vehicle, MotorVehicle, Motorcar]"
| "hierarchy_chain Motorhome = [AllModes, Vehicle, MotorVehicle, Motorhome]"
| "hierarchy_chain TouristBus = [AllModes, Vehicle, MotorVehicle, TouristBus]"
| "hierarchy_chain Coach = [AllModes, Vehicle, MotorVehicle, Coach]"
| "hierarchy_chain Goods = [AllModes, Vehicle, MotorVehicle, Goods]"
| "hierarchy_chain Hgv = [AllModes, Vehicle, MotorVehicle, Goods, Hgv]"
| "hierarchy_chain HgvArticulated = [AllModes, Vehicle, MotorVehicle, Goods, Hgv, HgvArticulated]"
| "hierarchy_chain Bdouble = [AllModes, Vehicle, MotorVehicle, Goods, Hgv, Bdouble]"
| "hierarchy_chain Agricultural = [AllModes, Vehicle, MotorVehicle, Agricultural]"
| "hierarchy_chain AutoRickshaw = [AllModes, Vehicle, MotorVehicle, AutoRickshaw]"
| "hierarchy_chain Nev = [AllModes, Vehicle, MotorVehicle, Nev]"
| "hierarchy_chain GolfCart = [AllModes, Vehicle, MotorVehicle, GolfCart]"
| "hierarchy_chain Microcar = [AllModes, Vehicle, MotorVehicle, Microcar]"
| "hierarchy_chain Atv = [AllModes, Vehicle, MotorVehicle, Atv]"
| "hierarchy_chain Ohv = [AllModes, Vehicle, MotorVehicle, Ohv]"
| "hierarchy_chain Snowmobile = [AllModes, Vehicle, MotorVehicle, Snowmobile]"
| "hierarchy_chain Psv = [AllModes, Vehicle, MotorVehicle, Psv]"
| "hierarchy_chain Bus = [AllModes, Vehicle, MotorVehicle, Psv, Bus]"
| "hierarchy_chain Taxi = [AllModes, Vehicle, MotorVehicle, Taxi]"
| "hierarchy_chain Minibus = [AllModes, Vehicle, MotorVehicle, Psv, Bus, Minibus]"
| "hierarchy_chain ShareTaxi = [AllModes, Vehicle, MotorVehicle, Taxi, ShareTaxi]"
| "hierarchy_chain Hov = [AllModes, Vehicle, MotorVehicle, Hov]"
| "hierarchy_chain Carpool = [AllModes, Vehicle, MotorVehicle, Hov, Carpool]"
| "hierarchy_chain CarSharing = [AllModes, Vehicle, MotorVehicle, CarSharing]"
| "hierarchy_chain Emergency = [AllModes, Vehicle, MotorVehicle, Emergency]"
| "hierarchy_chain Hazmat = [AllModes, Vehicle, MotorVehicle, Hazmat]"
| "hierarchy_chain HazmatWater = [AllModes, Vehicle, MotorVehicle, Hazmat, HazmatWater]"
| "hierarchy_chain SchoolBus = [AllModes, Vehicle, MotorVehicle, Psv, Bus, SchoolBus]"
| "hierarchy_chain Disabled = [AllModes, Vehicle, MotorVehicle, Disabled]"
| "hierarchy_chain WaterAccess = [WaterAccess]"
| "hierarchy_chain Swimming = [WaterAccess, Swimming]"
| "hierarchy_chain IceSkates = [WaterAccess, IceSkates]"
| "hierarchy_chain Boat = [WaterAccess, Boat]"
| "hierarchy_chain Motorboat = [WaterAccess, Boat, Motorboat]"
| "hierarchy_chain Sailboat = [WaterAccess, Boat, Sailboat]"
| "hierarchy_chain Canoe = [WaterAccess, Boat, Canoe]"
| "hierarchy_chain FishingVessel = [WaterAccess, Boat, FishingVessel]"
| "hierarchy_chain Ship = [WaterAccess, Boat, Ship]"
| "hierarchy_chain Passenger = [WaterAccess, Boat, Ship, Passenger]"
| "hierarchy_chain Cargo = [WaterAccess, Boat, Ship, Cargo]"
| "hierarchy_chain Bulk = [WaterAccess, Boat, Ship, Cargo, Bulk]"
| "hierarchy_chain Tanker = [WaterAccess, Boat, Ship, Cargo, Tanker]"
| "hierarchy_chain TankerGas = [WaterAccess, Boat, Ship, Cargo, Tanker, TankerGas]"
| "hierarchy_chain TankerOil = [WaterAccess, Boat, Ship, Cargo, Tanker, TankerOil]"
| "hierarchy_chain TankerChemical = [WaterAccess, Boat, Ship, Cargo, Tanker, TankerChemical]"
| "hierarchy_chain TankerSinglehull = [WaterAccess, Boat, Ship, Cargo, Tanker, TankerSinglehull]"
| "hierarchy_chain Container = [WaterAccess, Boat, Ship, Cargo, Container]"
| "hierarchy_chain Imdg = [WaterAccess, Boat, Ship, Imdg]"
| "hierarchy_chain Isps = [WaterAccess, Boat, Ship, Isps]"
| "hierarchy_chain RailAccess = [RailAccess]"
| "hierarchy_chain Train = [RailAccess, Train]"
| "hierarchy_chain Tram = [RailAccess, Tram]"
| "hierarchy_chain Metro = [RailAccess, Metro]"

primrec hierarchy_chain_flags :: "transport_mode \<Rightarrow> mode_set" where
  "hierarchy_chain_flags AllModes = to_flag AllModes"
| "hierarchy_chain_flags Foot = to_flag AllModes OR to_flag Foot"
| "hierarchy_chain_flags Dog = to_flag AllModes OR to_flag Dog"
| "hierarchy_chain_flags Ski = to_flag AllModes OR to_flag Ski"
| "hierarchy_chain_flags SkiNordic = to_flag AllModes OR to_flag Ski OR to_flag SkiNordic"
| "hierarchy_chain_flags SkiAlpine = to_flag AllModes OR to_flag Ski OR to_flag SkiAlpine"
| "hierarchy_chain_flags SkiTelemark = to_flag AllModes OR to_flag Ski OR to_flag SkiTelemark"
| "hierarchy_chain_flags InlineSkates = to_flag AllModes OR to_flag InlineSkates"
| "hierarchy_chain_flags Horse = to_flag AllModes OR to_flag Horse"
| "hierarchy_chain_flags Portage = to_flag AllModes OR to_flag Portage"
| "hierarchy_chain_flags Bicycle = to_flag AllModes OR to_flag Vehicle OR to_flag Bicycle"
| "hierarchy_chain_flags ElectricBicycle = to_flag AllModes OR to_flag Vehicle OR to_flag Bicycle OR to_flag ElectricBicycle"
| "hierarchy_chain_flags Mtb = to_flag AllModes OR to_flag Vehicle OR to_flag Bicycle OR to_flag Mtb"
| "hierarchy_chain_flags CargoBike = to_flag AllModes OR to_flag Vehicle OR to_flag Bicycle OR to_flag CargoBike"
| "hierarchy_chain_flags KickScooter = to_flag AllModes OR to_flag Vehicle OR to_flag KickScooter"
| "hierarchy_chain_flags Carriage = to_flag AllModes OR to_flag Vehicle OR to_flag Carriage"
| "hierarchy_chain_flags CycleRickshaw = to_flag AllModes OR to_flag Vehicle OR to_flag CycleRickshaw"
| "hierarchy_chain_flags HandCart = to_flag AllModes OR to_flag Vehicle OR to_flag HandCart"
| "hierarchy_chain_flags Trailer = to_flag AllModes OR to_flag Vehicle OR to_flag Trailer"
| "hierarchy_chain_flags Caravan = to_flag AllModes OR to_flag Vehicle OR to_flag Caravan"
| "hierarchy_chain_flags Vehicle = to_flag AllModes OR to_flag Vehicle"
| "hierarchy_chain_flags MotorVehicle = to_flag AllModes OR to_flag Vehicle OR to_flag MotorVehicle"
| "hierarchy_chain_flags Motorcycle = to_flag AllModes OR to_flag Vehicle OR to_flag MotorVehicle OR to_flag Motorcycle"
| "hierarchy_chain_flags Moped = to_flag AllModes OR to_flag Vehicle OR to_flag MotorVehicle OR to_flag Moped"
| "hierarchy_chain_flags SpeedPedelec = to_flag AllModes OR to_flag Vehicle OR to_flag MotorVehicle OR to_flag SpeedPedelec"
| "hierarchy_chain_flags Mofa = to_flag AllModes OR to_flag Vehicle OR to_flag MotorVehicle OR to_flag Mofa"
| "hierarchy_chain_flags SmallElectricVehicle = to_flag AllModes OR to_flag Vehicle OR to_flag MotorVehicle OR to_flag SmallElectricVehicle"
| "hierarchy_chain_flags Motorcar = to_flag AllModes OR to_flag Vehicle OR to_flag MotorVehicle OR to_flag Motorcar"
| "hierarchy_chain_flags Motorhome = to_flag AllModes OR to_flag Vehicle OR to_flag MotorVehicle OR to_flag Motorhome"
| "hierarchy_chain_flags TouristBus = to_flag AllModes OR to_flag Vehicle OR to_flag MotorVehicle OR to_flag TouristBus"
| "hierarchy_chain_flags Coach = to_flag AllModes OR to_flag Vehicle OR to_flag MotorVehicle OR to_flag Coach"
| "hierarchy_chain_flags Goods = to_flag AllModes OR to_flag Vehicle OR to_flag MotorVehicle OR to_flag Goods"
| "hierarchy_chain_flags Hgv = to_flag AllModes OR to_flag Vehicle OR to_flag MotorVehicle OR to_flag Goods OR to_flag Hgv"
| "hierarchy_chain_flags HgvArticulated = to_flag AllModes OR to_flag Vehicle OR to_flag MotorVehicle OR to_flag Goods OR to_flag Hgv OR to_flag HgvArticulated"
| "hierarchy_chain_flags Bdouble = to_flag AllModes OR to_flag Vehicle OR to_flag MotorVehicle OR to_flag Goods OR to_flag Hgv OR to_flag Bdouble"
| "hierarchy_chain_flags Agricultural = to_flag AllModes OR to_flag Vehicle OR to_flag MotorVehicle OR to_flag Agricultural"
| "hierarchy_chain_flags AutoRickshaw = to_flag AllModes OR to_flag Vehicle OR to_flag MotorVehicle OR to_flag AutoRickshaw"
| "hierarchy_chain_flags Nev = to_flag AllModes OR to_flag Vehicle OR to_flag MotorVehicle OR to_flag Nev"
| "hierarchy_chain_flags GolfCart = to_flag AllModes OR to_flag Vehicle OR to_flag MotorVehicle OR to_flag GolfCart"
| "hierarchy_chain_flags Microcar = to_flag AllModes OR to_flag Vehicle OR to_flag MotorVehicle OR to_flag Microcar"
| "hierarchy_chain_flags Atv = to_flag AllModes OR to_flag Vehicle OR to_flag MotorVehicle OR to_flag Atv"
| "hierarchy_chain_flags Ohv = to_flag AllModes OR to_flag Vehicle OR to_flag MotorVehicle OR to_flag Ohv"
| "hierarchy_chain_flags Snowmobile = to_flag AllModes OR to_flag Vehicle OR to_flag MotorVehicle OR to_flag Snowmobile"
| "hierarchy_chain_flags Psv = to_flag AllModes OR to_flag Vehicle OR to_flag MotorVehicle OR to_flag Psv"
| "hierarchy_chain_flags Bus = to_flag AllModes OR to_flag Vehicle OR to_flag MotorVehicle OR to_flag Psv OR to_flag Bus"
| "hierarchy_chain_flags Taxi = to_flag AllModes OR to_flag Vehicle OR to_flag MotorVehicle OR to_flag Taxi"
| "hierarchy_chain_flags Minibus = to_flag AllModes OR to_flag Vehicle OR to_flag MotorVehicle OR to_flag Psv OR to_flag Bus OR to_flag Minibus"
| "hierarchy_chain_flags ShareTaxi = to_flag AllModes OR to_flag Vehicle OR to_flag MotorVehicle OR to_flag Taxi OR to_flag ShareTaxi"
| "hierarchy_chain_flags Hov = to_flag AllModes OR to_flag Vehicle OR to_flag MotorVehicle OR to_flag Hov"
| "hierarchy_chain_flags Carpool = to_flag AllModes OR to_flag Vehicle OR to_flag MotorVehicle OR to_flag Hov OR to_flag Carpool"
| "hierarchy_chain_flags CarSharing = to_flag AllModes OR to_flag Vehicle OR to_flag MotorVehicle OR to_flag CarSharing"
| "hierarchy_chain_flags Emergency = to_flag AllModes OR to_flag Vehicle OR to_flag MotorVehicle OR to_flag Emergency"
| "hierarchy_chain_flags Hazmat = to_flag AllModes OR to_flag Vehicle OR to_flag MotorVehicle OR to_flag Hazmat"
| "hierarchy_chain_flags HazmatWater = to_flag AllModes OR to_flag Vehicle OR to_flag MotorVehicle OR to_flag Hazmat OR to_flag HazmatWater"
| "hierarchy_chain_flags SchoolBus = to_flag AllModes OR to_flag Vehicle OR to_flag MotorVehicle OR to_flag Psv OR to_flag Bus OR to_flag SchoolBus"
| "hierarchy_chain_flags Disabled = to_flag AllModes OR to_flag Vehicle OR to_flag MotorVehicle OR to_flag Disabled"
| "hierarchy_chain_flags WaterAccess = to_flag WaterAccess"
| "hierarchy_chain_flags Swimming = to_flag WaterAccess OR to_flag Swimming"
| "hierarchy_chain_flags IceSkates = to_flag WaterAccess OR to_flag IceSkates"
| "hierarchy_chain_flags Boat = to_flag WaterAccess OR to_flag Boat"
| "hierarchy_chain_flags Motorboat = to_flag WaterAccess OR to_flag Boat OR to_flag Motorboat"
| "hierarchy_chain_flags Sailboat = to_flag WaterAccess OR to_flag Boat OR to_flag Sailboat"
| "hierarchy_chain_flags Canoe = to_flag WaterAccess OR to_flag Boat OR to_flag Canoe"
| "hierarchy_chain_flags FishingVessel = to_flag WaterAccess OR to_flag Boat OR to_flag FishingVessel"
| "hierarchy_chain_flags Ship = to_flag WaterAccess OR to_flag Boat OR to_flag Ship"
| "hierarchy_chain_flags Passenger = to_flag WaterAccess OR to_flag Boat OR to_flag Ship OR to_flag Passenger"
| "hierarchy_chain_flags Cargo = to_flag WaterAccess OR to_flag Boat OR to_flag Ship OR to_flag Cargo"
| "hierarchy_chain_flags Bulk = to_flag WaterAccess OR to_flag Boat OR to_flag Ship OR to_flag Cargo OR to_flag Bulk"
| "hierarchy_chain_flags Tanker = to_flag WaterAccess OR to_flag Boat OR to_flag Ship OR to_flag Cargo OR to_flag Tanker"
| "hierarchy_chain_flags TankerGas = to_flag WaterAccess OR to_flag Boat OR to_flag Ship OR to_flag Cargo OR to_flag Tanker OR to_flag TankerGas"
| "hierarchy_chain_flags TankerOil = to_flag WaterAccess OR to_flag Boat OR to_flag Ship OR to_flag Cargo OR to_flag Tanker OR to_flag TankerOil"
| "hierarchy_chain_flags TankerChemical = to_flag WaterAccess OR to_flag Boat OR to_flag Ship OR to_flag Cargo OR to_flag Tanker OR to_flag TankerChemical"
| "hierarchy_chain_flags TankerSinglehull = to_flag WaterAccess OR to_flag Boat OR to_flag Ship OR to_flag Cargo OR to_flag Tanker OR to_flag TankerSinglehull"
| "hierarchy_chain_flags Container = to_flag WaterAccess OR to_flag Boat OR to_flag Ship OR to_flag Cargo OR to_flag Container"
| "hierarchy_chain_flags Imdg = to_flag WaterAccess OR to_flag Boat OR to_flag Ship OR to_flag Imdg"
| "hierarchy_chain_flags Isps = to_flag WaterAccess OR to_flag Boat OR to_flag Ship OR to_flag Isps"
| "hierarchy_chain_flags RailAccess = to_flag RailAccess"
| "hierarchy_chain_flags Train = to_flag RailAccess OR to_flag Train"
| "hierarchy_chain_flags Tram = to_flag RailAccess OR to_flag Tram"
| "hierarchy_chain_flags Metro = to_flag RailAccess OR to_flag Metro"

definition specificity_level :: "transport_mode \<Rightarrow> nat" where
  "specificity_level m = length (hierarchy_chain m)"

definition is_restricted_by :: "transport_mode \<Rightarrow> transport_mode \<Rightarrow> bool" where
  "is_restricted_by m restriction = contains_flags (hierarchy_chain_flags m) (to_flag restriction)"

definition matches_any_restriction :: "transport_mode \<Rightarrow> transport_mode list \<Rightarrow> bool" where
  "matches_any_restriction m restrictions \<longleftrightarrow> list_ex (\<lambda>r. r \<in> set (hierarchy_chain m)) restrictions"

definition parent_modes :: "transport_mode \<Rightarrow> transport_mode list" where
  "parent_modes m = (let chain = hierarchy_chain m in if length chain > 1 then take (length chain - 1) chain else [])"

definition immediate_parent :: "transport_mode \<Rightarrow> transport_mode option" where
  "immediate_parent m = (let parents = parent_modes m in if parents = [] then None else Some (last parents))"

section \<open>Categories\<close>

definition is_land :: "transport_mode \<Rightarrow> bool" where
  "is_land m \<longleftrightarrow> m \<in> set [
     AllModes, Foot, Dog, Ski, SkiNordic, SkiAlpine, SkiTelemark, InlineSkates, Horse, Portage, Bicycle,
     ElectricBicycle, Mtb, CargoBike, KickScooter, Carriage, CycleRickshaw, HandCart, Trailer, Caravan, Vehicle,
     MotorVehicle, Motorcycle, Moped, SpeedPedelec, Mofa, SmallElectricVehicle, Motorcar, Motorhome, TouristBus,
     Coach, Goods, Hgv, HgvArticulated, Bdouble, Agricultural, AutoRickshaw, Nev, GolfCart, Microcar, Atv, Ohv,
     Snowmobile, Psv, Bus, Taxi, Minibus, ShareTaxi, Hov, Carpool, CarSharing, Emergency, Hazmat, HazmatWater,
     SchoolBus, Disabled]"

definition is_water :: "transport_mode \<Rightarrow> bool" where
  "is_water m \<longleftrightarrow> m \<in> set [
     WaterAccess, Swimming, IceSkates, Boat, Motorboat, Sailboat, Canoe, FishingVessel, Ship, Passenger, Cargo, Bulk,
     Tanker, TankerGas, TankerOil, TankerChemical, TankerSinglehull, Container, Imdg, Isps]"

definition is_rail :: "transport_mode \<Rightarrow> bool" where
  "is_rail m \<longleftrightarrow> m \<in> set [
     RailAccess, Train, Tram, Metro]"

definition is_motorized :: "transport_mode \<Rightarrow> bool" where
  "is_motorized m \<longleftrightarrow> m \<in> set [
     MotorVehicle, Motorcycle, Moped, SpeedPedelec, Mofa, SmallElectricVehicle, Motorcar, Motorhome, TouristBus,
     Coach, Goods, Hgv, HgvArticulated, Bdouble, Agricultural, AutoRickshaw, Nev, GolfCart, Microcar, Atv, Ohv,
     Snowmobile, Psv, Bus, Taxi, Minibus, ShareTaxi, Emergency, Motorboat]"

definition is_non_motorized :: "transport_mode \<Rightarrow> bool" where
  "is_non_motorized m \<longleftrightarrow> m \<in> set [
     Bicycle, ElectricBicycle, Mtb, CargoBike, KickScooter, Carriage, CycleRickshaw, HandCart, Trailer, Caravan]"

section \<open>The tables agree\<close>

lemma flag_bit_nth: "all_modes ! flag_bit m = m" and flag_bit_less: "flag_bit m < 80"
  by (cases m; simp add: all_modes_def)+

lemma flag_bit_inj: "flag_bit a = flag_bit b \<Longrightarrow> a = b"
  by (metis flag_bit_nth)

lemma all_modes_complete: "m \<in> set all_modes"
  using flag_bit_nth [of m] flag_bit_less [of m] nth_mem [of "flag_bit m" all_modes] by (simp add: all_modes_def)

lemma bit_to_flag: "bit (to_flag m) n \<longleftrightarrow> n = flag_bit m"
  using flag_bit_less [of m] by (auto simp: to_flag_def bit_exp_iff)

lemma chain_flags: "hierarchy_chain_flags m = foldr (\<lambda>r s. to_flag r OR s) (hierarchy_chain m) 0"
  by (cases m) (simp_all add: or.assoc)

lemma bit_flags: "bit (foldr (\<lambda>r s. to_flag r OR s) rs 0) n \<longleftrightarrow> n \<in> flag_bit ` set rs"
  by (induction rs) (auto simp: bit_or_iff bit_to_flag)

lemma contains_to_flag: "contains_flags s (to_flag r) \<longleftrightarrow> bit s (flag_bit r)"
proof
  assume "contains_flags s (to_flag r)"
  then have "bit (s AND to_flag r) (flag_bit r)" by (simp add: contains_flags_def bit_to_flag)
  then show "bit s (flag_bit r)" by (simp add: bit_and_iff)
next
  assume "bit s (flag_bit r)"
  then show "contains_flags s (to_flag r)"
    unfolding contains_flags_def by (intro bit_eqI) (auto simp: bit_and_iff bit_to_flag)
qed

lemma restricted_iff_ancestor: "is_restricted_by m r \<longleftrightarrow> r \<in> set (hierarchy_chain m)"
  using flag_bit_inj by (auto simp: is_restricted_by_def contains_to_flag chain_flags bit_flags)

lemma chain_ends: "hierarchy_chain m \<noteq> []" "last (hierarchy_chain m) = m" "distinct (hierarchy_chain m)"
  by (cases m; simp)+

lemma chain_prefix: "r \<in> set (hierarchy_chain m) \<Longrightarrow> prefix (hierarchy_chain r) (hierarchy_chain m)"
  by (cases m) auto

lemma same_specificity:
  assumes "r \<in> set (hierarchy_chain m)" "s \<in> set (hierarchy_chain m)" "specificity_level r = specificity_level s"
  shows "r = s"
proof -
  have "hierarchy_chain r = hierarchy_chain s"
    using prefix_same_cases [OF chain_prefix [OF assms(1)] chain_prefix [OF assms(2)]] assms(3)
    by (auto simp: specificity_level_def prefix_def)
  then show ?thesis using chain_ends(2) by metis
qed

lemma more_specific:
  assumes "r \<in> set (hierarchy_chain m)" "r \<noteq> m"
  shows "specificity_level r < specificity_level m"
  using chain_prefix [OF assms(1)] same_specificity [OF assms(1), of m] chain_ends(2) [of m] last_in_set [OF chain_ends(1) [of m]] assms(2)
  by (metis le_neq_implies_less prefix_length_le specificity_level_def)

end
