(* ===== verification/Text_Ops.thy ===== *)
theory Text_Ops
  imports Decimal "HOL-Library.Sublist"
begin

text \<open>
  More of the standard library's text operations, those the tag parsers use: joining, splitting at
  white space, searching, case-insensitive comparison and the narrow unsigned integers. A text is a list
  of the first 256 code points; in UTF-8 those above 127 take two bytes. A position that the code finds by
  searching is a position between characters, and is counted in characters here; where the code
  mixes up the two counts, \<open>text_len\<close> and \<open>split_bytes\<close> count bytes. Changing the case of such a character keeps
  the bytes it takes, so positions found in an upper-case copy are the same.
\<close>

fun join :: "string \<Rightarrow> string list \<Rightarrow> string" where
  "join sep [] = []"
| "join sep [w] = w"
| "join sep (w # v # ws) = w @ sep @ join sep (v # ws)"

fun split_at_space :: "string \<Rightarrow> string list" where
  "split_at_space [] = [[]]"
| "split_at_space (x # xs) =
     (if is_space x then [] # split_at_space xs else (case split_at_space xs of [] \<Rightarrow> [[x]] | s # ss \<Rightarrow> (x # s) # ss))"

definition split_whitespace :: "string \<Rightarrow> string list" where
  "split_whitespace s = filter (\<lambda>w. w \<noteq> []) (split_at_space s)"

text \<open>\<open>split_terminator(c)\<close>: no empty piece after a separator at the end.\<close>

definition split_terminator :: "char \<Rightarrow> string \<Rightarrow> string list" where
  "split_terminator c s = (let ps = split_all c s in if last ps = [] then butlast ps else ps)"

text \<open>\<open>find\<close> and \<open>rfind\<close>: the first and the last position of a pattern.\<close>

fun find_sub :: "string \<Rightarrow> string \<Rightarrow> nat option" where
  "find_sub pat [] = (if pat = [] then Some 0 else None)"
| "find_sub pat (c # cs) = (if prefix pat (c # cs) then Some 0 else map_option Suc (find_sub pat cs))"

definition rfind_char :: "char \<Rightarrow> string \<Rightarrow> nat option" where
  "rfind_char c s = map_option (\<lambda>i. length s - 1 - i) (position (\<lambda>x. x = c) (rev s))"

definition contains_sub :: "string \<Rightarrow> string \<Rightarrow> bool" where
  "contains_sub s pat \<longleftrightarrow> find_sub pat s \<noteq> None"

text \<open>Lengths and slices in bytes; \<open>None\<close> is the panic of a slice inside a character or out of range.\<close>

definition char_bytes :: "char \<Rightarrow> nat" where
  "char_bytes c = (if (of_char c :: nat) < 128 then 1 else 2)"

definition text_len :: "string \<Rightarrow> nat" where
  "text_len s = sum_list (map char_bytes s)"

fun split_bytes :: "nat \<Rightarrow> string \<Rightarrow> (string \<times> string) option" where
  "split_bytes 0 s = Some ([], s)"
| "split_bytes (Suc n) [] = None"
| "split_bytes (Suc n) (c # cs) =
     (if char_bytes c \<le> Suc n then map_option (\<lambda>(a, b). (c # a, b)) (split_bytes (Suc n - char_bytes c) cs) else None)"

text \<open>\<open>char::is_numeric\<close>: the digits, the superscripts and the fractions.\<close>

definition is_numeric :: "char \<Rightarrow> bool" where
  "is_numeric c \<longleftrightarrow> (let n = (of_char c :: nat) in 48 \<le> n \<and> n \<le> 57 \<or> n \<in> {178, 179, 185, 188, 189, 190})"

definition lower :: "char \<Rightarrow> char" where
  "lower c = (let n = (of_char c :: nat) in if 65 \<le> n \<and> n \<le> 90 then char_of (n + 32) else c)"

definition upper :: "char \<Rightarrow> char" where
  "upper c = (let n = (of_char c :: nat) in if 97 \<le> n \<and> n \<le> 122 then char_of (n - 32) else c)"

definition to_lowercase :: "string \<Rightarrow> string" where
  "to_lowercase = map lower"

definition to_uppercase :: "string \<Rightarrow> string" where
  "to_uppercase = map upper"

definition eq_ignore_ascii_case :: "string \<Rightarrow> string \<Rightarrow> bool" where
  "eq_ignore_ascii_case a b \<longleftrightarrow> to_lowercase a = to_lowercase b"

text \<open>
  \<open>from_str\<close> of a narrower unsigned integer: the digits overflow it exactly when their value is not
  below the bound, because reading more digits never lowers the value. A \<open>NonZero\<close> integer is also
  not zero.
\<close>

definition parse_below :: "nat \<Rightarrow> string \<Rightarrow> nat option" where
  "parse_below bound s = (case parse_u64 s of Some n \<Rightarrow> if n < bound then Some n else None | None \<Rightarrow> None)"

definition parse_nonzero :: "nat \<Rightarrow> string \<Rightarrow> nat option" where
  "parse_nonzero bound s = (case parse_below bound s of Some n \<Rightarrow> if n = 0 then None else Some n | None \<Rightarrow> None)"

text \<open>A format of width two padded with zeros.\<close>

definition show_two :: "nat \<Rightarrow> string" where
  "show_two n = (if n < 10 then CHR ''0'' # show_nat n else show_nat n)"

text \<open>A derived \<open>from_str\<close> of an enumeration: the variant with exactly this serialised name.\<close>

definition named :: "('a \<Rightarrow> string) \<Rightarrow> 'a list \<Rightarrow> string \<Rightarrow> 'a option" where
  "named name xs s = find (\<lambda>x. name x = s) xs"

section \<open>Laws\<close>

lemma named_Some: "named name xs s = Some x \<Longrightarrow> x \<in> set xs \<and> name x = s"
  by (auto simp: named_def find_Some_iff)

lemma named_name:
  assumes "x \<in> set xs" "\<And>y. y \<in> set xs \<Longrightarrow> name y = name x \<Longrightarrow> y = x"
  shows "named name xs (name x) = Some x"
proof (cases "named name xs (name x)")
  case None
  then show ?thesis using assms(1) by (auto simp: named_def find_None_iff)
next
  case (Some y)
  then show ?thesis using named_Some [OF Some] assms(2) by blast
qed

lemma split_join: "ws \<noteq> [] \<Longrightarrow> (\<And>w. w \<in> set ws \<Longrightarrow> c \<notin> set w) \<Longrightarrow> split_all c (join [c] ws) = ws"
  by (induction "[c]" ws rule: join.induct) (auto simp: split_all_whole split_all_piece)

lemma split_all_nonempty [simp]: "split_all c s \<noteq> []"
  by (induction s) (auto split: list.splits)

lemma set_join: "set (join sep ws) \<subseteq> set sep \<union> (\<Union>w \<in> set ws. set w)"
  by (induction sep ws rule: join.induct) auto

lemma trim_id: "(\<And>c. c \<in> set s \<Longrightarrow> \<not> is_space c) \<Longrightarrow> trim s = s"
proof -
  assume none: "\<And>c. c \<in> set s \<Longrightarrow> \<not> is_space c"
  have keep: "dropWhile is_space t = t" if "set t \<subseteq> set s" for t
    using that none by (cases t) auto
  show ?thesis unfolding trim_def by (simp add: keep)
qed

lemma split_at_space_whole: "(\<And>c. c \<in> set s \<Longrightarrow> \<not> is_space c) \<Longrightarrow> split_at_space s = [s]"
  by (induction s) auto

lemma split_whitespace_whole: "s \<noteq> [] \<Longrightarrow> (\<And>c. c \<in> set s \<Longrightarrow> \<not> is_space c) \<Longrightarrow> split_whitespace s = [s]"
  by (simp add: split_whitespace_def split_at_space_whole)

lemma split_at_space_nonempty [simp]: "split_at_space s \<noteq> []"
  by (induction s) (auto split: list.splits)

lemma split_at_space_free: "w \<in> set (split_at_space s) \<Longrightarrow> c \<in> set w \<Longrightarrow> \<not> is_space c"
proof (induction s arbitrary: w)
  case (Cons x xs)
  obtain p ps where "split_at_space xs = p # ps" using split_at_space_nonempty by (metis neq_Nil_conv)
  then show ?case using Cons.prems Cons.IH [of p] Cons.IH [of w] by (auto split: if_splits)
qed simp

lemma find_sub_SomeD: "find_sub pat s = Some i \<Longrightarrow> i + length pat \<le> length s \<and> take (length pat) (drop i s) = pat"
proof (induction pat s arbitrary: i rule: find_sub.induct)
  case (2 pat c cs)
  show ?case
  proof (cases "prefix pat (c # cs)")
    case True
    then obtain zs where "c # cs = pat @ zs" by (auto simp: prefix_def)
    then have "length pat \<le> length (c # cs) \<and> take (length pat) (c # cs) = pat" by simp
    then show ?thesis using 2(2) True by simp
  next
    case False
    then show ?thesis using 2 by auto
  qed
qed (simp split: if_splits)

lemma show_two_parse: "n < 2 ^ 64 \<Longrightarrow> n < bound \<Longrightarrow> parse_below bound (show_two n) = Some n"
proof -
  assume n: "n < 2 ^ 64" "n < bound"
  have "parse_u64 (CHR ''0'' # show_nat n) = digits_value 0 (show_nat n)"
    by (simp add: parse_u64_def digit_value_def)
  then have "parse_u64 (show_two n) = Some n"
    using parse_show [OF n(1)] digits_value_show [OF n(1)] by (simp add: show_two_def)
  then show ?thesis using n(2) by (simp add: parse_below_def)
qed

lemma show_two_digits: "c \<in> set (show_two n) \<Longrightarrow> \<exists>d < 10. c = digit_char d"
proof -
  assume c: "c \<in> set (show_two n)"
  have "CHR ''0'' = char_of (of_char (CHR ''0'') :: nat)" by (rule char_of_char [symmetric])
  then have "CHR ''0'' = digit_char 0" by (simp add: digit_char_def)
  moreover have "c = CHR ''0'' \<or> c \<in> set (show_nat n)" using c by (auto simp: show_two_def split: if_splits)
  ultimately show ?thesis using show_nat_digits [of c n] by (metis zero_less_numeral)
qed

lemma show_two_nonempty [simp]: "show_two n \<noteq> []"
  by (simp add: show_two_def)

lemma digit_char_special:
  "d < 10 \<Longrightarrow> digit_char d \<noteq> CHR '':'' \<and> digit_char d \<noteq> CHR ''-'' \<and> digit_char d \<noteq> CHR '','' \<and> digit_char d \<noteq> CHR '';'' \<and> \<not> is_space (digit_char d)"
proof -
  assume "d < 10"
  then have "(of_char (digit_char d) :: nat) = 48 + d" by (simp add: digit_char_def)
  then show ?thesis using \<open>d < 10\<close> by (auto simp: is_space_def Let_def)
qed

lemma digit_char_slash: "d < 10 \<Longrightarrow> digit_char d \<noteq> CHR ''/''"
proof -
  assume "d < 10"
  then have "(of_char (digit_char d) :: nat) = 48 + d" by (simp add: digit_char_def)
  then show ?thesis by auto
qed

lemma text_len_ge: "length s \<le> text_len s"
  by (induction s) (auto simp: text_len_def char_bytes_def)

lemma split_bytes_ascii:
  assumes "n \<le> length s" "\<forall>c \<in> set (take n s). char_bytes c = 1"
  shows "split_bytes n s = Some (take n s, drop n s)"
  using assms by (induction n s rule: split_bytes.induct) auto

lemma to_lowercase_length [simp]: "length (to_lowercase s) = length s"
  by (simp add: to_lowercase_def)

end
