(* ===== verification/Access.thy ===== *)
theory Access
  imports Transport Network_Model Text_Ops
begin

text \<open>
  Access to roads (\<open>parsers/access_tag\<close>, \<open>speed_limit/restriction.rs\<close>, \<open>primitives/direction.rs\<close>,
  \<open>primitives/road_class.rs\<close>, \<open>osm/mod.rs\<close>): tags are read into restrictions of a transport mode and a
  direction, and the most specific tag that applies to a traveller decides. The tags of an element are
  the pairs of a hash map in the order it iterates. Derived parsers of enumerations compare with the
  serialised names, exactly.
\<close>

section \<open>Enumerations\<close>

datatype directionality = BothWays | Forward | Backward | Both | LeftSide | RightSide

primrec directionality_name :: "directionality \<Rightarrow> string" where
  "directionality_name BothWays = ''both_ways''"
| "directionality_name Forward = ''forward''"
| "directionality_name Backward = ''backward''"
| "directionality_name Both = ''both''"
| "directionality_name LeftSide = ''left''"
| "directionality_name RightSide = ''right''"

definition is_directional :: "directionality \<Rightarrow> bool" where
  "is_directional d \<longleftrightarrow> d \<in> {Forward, Backward, BothWays}"

definition is_positional :: "directionality \<Rightarrow> bool" where
  "is_positional d \<longleftrightarrow> d \<in> {LeftSide, RightSide, Both}"

definition opposite :: "directionality \<Rightarrow> directionality option" where
  "opposite d =
     (case d of
        Forward \<Rightarrow> Some Backward
      | Backward \<Rightarrow> Some Forward
      | LeftSide \<Rightarrow> Some RightSide
      | RightSide \<Rightarrow> Some LeftSide
      | _ \<Rightarrow> None)"

definition mode_from_str :: "string \<Rightarrow> transport_mode option" where
  "mode_from_str = named mode_name all_modes"

definition directionality_from_str :: "string \<Rightarrow> directionality option" where
  "directionality_from_str = named directionality_name [BothWays, Forward, Backward, Both, LeftSide, RightSide]"

datatype access_value =
    Yes | No | Private | Permissive | Designated | Discouraged | Customers | Destination | AgriculturalAccess
  | Forestry | Delivery | Military | UseSidepath | Dismount | Permit | Unknown | Variable

definition access_values :: "access_value list" where
  "access_values = [Yes, No, Private, Permissive, Designated, Discouraged, Customers, Destination, AgriculturalAccess,
     Forestry, Delivery, Military, UseSidepath, Dismount, Permit, Unknown, Variable]"

primrec access_name :: "access_value \<Rightarrow> string" where
  "access_name Yes = ''yes''"
| "access_name No = ''no''"
| "access_name Private = ''private''"
| "access_name Permissive = ''permissive''"
| "access_name Designated = ''designated''"
| "access_name Discouraged = ''discouraged''"
| "access_name Customers = ''customers''"
| "access_name Destination = ''destination''"
| "access_name AgriculturalAccess = ''agricultural''"
| "access_name Forestry = ''forestry''"
| "access_name Delivery = ''delivery''"
| "access_name Military = ''military''"
| "access_name UseSidepath = ''use_sidepath''"
| "access_name Dismount = ''dismount''"
| "access_name Permit = ''permit''"
| "access_name Unknown = ''unknown''"
| "access_name Variable = ''variable''"

text \<open>The derived order of the values, as their position.\<close>

primrec access_rank :: "access_value \<Rightarrow> nat" where
  "access_rank Yes = 0"
| "access_rank No = 1"
| "access_rank Private = 2"
| "access_rank Permissive = 3"
| "access_rank Designated = 4"
| "access_rank Discouraged = 5"
| "access_rank Customers = 6"
| "access_rank Destination = 7"
| "access_rank AgriculturalAccess = 8"
| "access_rank Forestry = 9"
| "access_rank Delivery = 10"
| "access_rank Military = 11"
| "access_rank UseSidepath = 12"
| "access_rank Dismount = 13"
| "access_rank Permit = 14"
| "access_rank Unknown = 15"
| "access_rank Variable = 16"

definition access_from_str :: "string \<Rightarrow> access_value option" where
  "access_from_str = named access_name access_values"

section \<open>Restrictions\<close>

record restriction =
  restricted_mode :: transport_mode
  restricted_direction :: directionality

record restriction_optionals =
  optional_mode :: "transport_mode option"
  optional_direction :: "directionality option"

definition parse_builder :: "string \<Rightarrow> restriction_optionals" where
  "parse_builder label =
     fold (\<lambda>section acc.
         \<lparr>optional_mode = (case optional_mode acc of Some m \<Rightarrow> Some m | None \<Rightarrow> mode_from_str section),
          optional_direction = (case optional_direction acc of Some d \<Rightarrow> Some d | None \<Rightarrow> directionality_from_str section)\<rparr>)
       (split_all (CHR '':'') label) \<lparr>optional_mode = None, optional_direction = None\<rparr>"

definition parse_require_transport_mode :: "string \<Rightarrow> restriction option" where
  "parse_require_transport_mode label =
     (let builder = parse_builder label
      in map_option (\<lambda>m. \<lparr>restricted_mode = m,
             restricted_direction = (case optional_direction builder of Some d \<Rightarrow> d | None \<Rightarrow> BothWays)\<rparr>)
           (optional_mode builder))"

definition restriction_display :: "restriction \<Rightarrow> string" where
  "restriction_display r = mode_name (restricted_mode r) @ CHR '':'' # directionality_name (restricted_direction r)"

section \<open>Tags\<close>

type_synonym tags = "(string \<times> string) list"

record access_tag =
  tag_restriction :: restriction
  tag_access :: access_value

datatype tag_error = UnknownAccess | NoTransportMode

definition from_key_value :: "string \<Rightarrow> string \<Rightarrow> (access_tag, tag_error) outcome" where
  "from_key_value key value_str =
     (case access_from_str value_str of
        None \<Rightarrow> Err UnknownAccess
      | Some a \<Rightarrow>
          (case parse_require_transport_mode key of
             None \<Rightarrow> Err NoTransportMode
           | Some r \<Rightarrow> Ok \<lparr>tag_restriction = r, tag_access = a\<rparr>))"

definition from_tag :: "string \<times> string \<Rightarrow> access_tag option" where
  "from_tag kv = (case from_key_value (fst kv) (snd kv) of Ok t \<Rightarrow> Some t | _ \<Rightarrow> None)"

definition parse_access :: "tags \<Rightarrow> access_tag list option" where
  "parse_access ts = (let as_vec = List.map_filter from_tag ts in if as_vec = [] then None else Some as_vec)"

definition access_of_tags :: "tags \<Rightarrow> access_tag list" where
  "access_of_tags ts = sort_key (access_rank \<circ> tag_access) (case parse_access ts of Some v \<Rightarrow> v | None \<Rightarrow> [])"

definition tags_get :: "tags \<Rightarrow> string \<Rightarrow> string option" where
  "tags_get ts k = map_of ts k"

definition tags_as :: "(string \<Rightarrow> 'a option) \<Rightarrow> tags \<Rightarrow> string \<Rightarrow> 'a option" where
  "tags_as parse ts k = Option.bind (tags_get ts k) parse"

definition VALID_ROADWAYS :: "string list" where
  "VALID_ROADWAYS =
     [''motorway'', ''motorway_link'', ''trunk'', ''trunk_link'', ''primary'', ''primary_link'', ''secondary'', ''secondary_link'',
      ''tertiary'', ''tertiary_link'', ''residential'', ''unclassified'', ''living_street'', ''service'', ''busway'', ''road'']"

definition road_tag :: "tags \<Rightarrow> string option" where
  "road_tag ts = (case tags_get ts ''highway'' of Some v \<Rightarrow> if v \<in> set VALID_ROADWAYS then Some v else None | None \<Rightarrow> None)"

definition one_way :: "tags \<Rightarrow> bool" where
  "one_way ts = (case tags_get ts ''oneway'' of Some v \<Rightarrow> v = ''yes'' \<or> v = ''-1'' | None \<Rightarrow> False)"

definition roundabout :: "tags \<Rightarrow> bool" where
  "roundabout ts = (case tags_get ts ''junction'' of Some v \<Rightarrow> v = ''roundabout'' \<or> v = ''circular'' | None \<Rightarrow> False)"

definition unidirectional :: "tags \<Rightarrow> bool" where
  "unidirectional ts \<longleftrightarrow> one_way ts \<or> roundabout ts"

section \<open>Road classes\<close>

datatype road_class =
    Motorway | MotorwayLink | Trunk | TrunkLink | Primary | PrimaryLink | Secondary | SecondaryLink | Tertiary | TertiaryLink
  | Unclassified | Residential | LivingStreet | Service | Pedestrian | Track | Raceway | BusGuideway | Busway | Escape | Road

definition road_classes :: "road_class list" where
  "road_classes = [Motorway, MotorwayLink, Trunk, TrunkLink, Primary, PrimaryLink, Secondary, SecondaryLink, Tertiary, TertiaryLink,
     Unclassified, Residential, LivingStreet, Service, Pedestrian, Track, Raceway, BusGuideway, Busway, Escape, Road]"

primrec road_class_name :: "road_class \<Rightarrow> string" where
  "road_class_name Motorway = ''motorway''"
| "road_class_name MotorwayLink = ''motorway_link''"
| "road_class_name Trunk = ''trunk''"
| "road_class_name TrunkLink = ''trunk_link''"
| "road_class_name Primary = ''primary''"
| "road_class_name PrimaryLink = ''primary_link''"
| "road_class_name Secondary = ''secondary''"
| "road_class_name SecondaryLink = ''secondary_link''"
| "road_class_name Tertiary = ''tertiary''"
| "road_class_name TertiaryLink = ''tertiary_link''"
| "road_class_name Unclassified = ''unclassified''"
| "road_class_name Residential = ''residential''"
| "road_class_name LivingStreet = ''living_street''"
| "road_class_name Service = ''service''"
| "road_class_name Pedestrian = ''pedestrian''"
| "road_class_name Track = ''track''"
| "road_class_name Raceway = ''raceway''"
| "road_class_name BusGuideway = ''bus_guideway''"
| "road_class_name Busway = ''busway''"
| "road_class_name Escape = ''escape''"
| "road_class_name Road = ''road''"

definition road_class_from_str :: "string \<Rightarrow> road_class option" where
  "road_class_from_str = named road_class_name road_classes"

primrec weighting :: "road_class \<Rightarrow> nat" where
  "weighting Motorway = 1"
| "weighting MotorwayLink = 2"
| "weighting Trunk = 3"
| "weighting TrunkLink = 4"
| "weighting Primary = 5"
| "weighting PrimaryLink = 6"
| "weighting Secondary = 7"
| "weighting SecondaryLink = 8"
| "weighting Tertiary = 9"
| "weighting TertiaryLink = 10"
| "weighting Residential = 10"
| "weighting Busway = 10"
| "weighting BusGuideway = 10"
| "weighting Unclassified = 10"
| "weighting LivingStreet = 50"
| "weighting Service = 50"
| "weighting Road = 50"
| "weighting Raceway = 100"
| "weighting Escape = 100"
| "weighting Track = 100"
| "weighting Pedestrian = 100"

end
