(* ===== verification/Opening_Hours.thy ===== *)
theory Opening_Hours
  imports Text_Ops
begin

text \<open>
  Opening hours (\<open>parsers/primitives/opening_hours.rs\<close>): the parser of the rules, their printed form
  and whether a time of the week is open. Errors are the strings of the source.
\<close>

section \<open>Data\<close>

datatype weekday = Monday | Tuesday | Wednesday | Thursday | Friday | Saturday | Sunday

primrec weekday_name :: "weekday \<Rightarrow> string" where
  "weekday_name Monday = ''Mo''"
| "weekday_name Tuesday = ''Tu''"
| "weekday_name Wednesday = ''We''"
| "weekday_name Thursday = ''Th''"
| "weekday_name Friday = ''Fr''"
| "weekday_name Saturday = ''Sa''"
| "weekday_name Sunday = ''Su''"

definition weekday_from_str :: "string \<Rightarrow> weekday option" where
  "weekday_from_str s =
     (let l = to_lowercase s
      in if l \<in> {''mo'', ''monday''} then Some Monday
         else if l \<in> {''tu'', ''tuesday''} then Some Tuesday
         else if l \<in> {''we'', ''wednesday''} then Some Wednesday
         else if l \<in> {''th'', ''thursday''} then Some Thursday
         else if l \<in> {''fr'', ''friday''} then Some Friday
         else if l \<in> {''sa'', ''saturday''} then Some Saturday
         else if l \<in> {''su'', ''sunday''} then Some Sunday
         else None)"

record time =
  hour :: nat
  minute :: nat

definition time_new :: "nat \<Rightarrow> nat \<Rightarrow> (time, string) outcome" where
  "time_new h m = (if h > 24 \<or> m > 59 then Err ''Invalid time'' else Ok \<lparr>hour = h, minute = m\<rparr>)"

definition show_time :: "time \<Rightarrow> string" where
  "show_time t = show_two (hour t) @ '':'' @ show_two (minute t)"

record time_range =
  range_start :: time
  range_end :: time

definition show_range :: "time_range \<Rightarrow> string" where
  "show_range r = show_time (range_start r) @ ''-'' @ show_time (range_end r)"

record time_of_week =
  week_time :: time
  week_day :: weekday

datatype weekday_range = Single weekday | WeekdayRange weekday weekday | WeekdayList "weekday list"

fun show_weekdays :: "weekday_range \<Rightarrow> string" where
  "show_weekdays (Single d) = weekday_name d"
| "show_weekdays (WeekdayRange a b) = weekday_name a @ ''-'' @ weekday_name b"
| "show_weekdays (WeekdayList ds) = join '','' (map weekday_name ds)"

record opening_rule =
  weekdays :: "weekday_range option"
  times :: "time_range list"
  closed :: bool

definition show_rule :: "opening_rule \<Rightarrow> string" where
  "show_rule r = (case weekdays r of Some w \<Rightarrow> show_weekdays w | None \<Rightarrow> []) @ join '','' (map show_range (times r))"

record opening_hours =
  rules :: "opening_rule list"

definition show_hours :: "opening_hours \<Rightarrow> string" where
  "show_hours oh = join '';'' (map show_rule (rules oh))"

section \<open>The parser\<close>

definition parse_time :: "string \<Rightarrow> (time, string) outcome" where
  "parse_time inp =
     (let s = trim inp
      in if CHR '':'' \<in> set s then
           (let parts = split_all (CHR '':'') s
            in if length parts \<noteq> 2 then Err ''Invalid time format''
               else
                 (case parse_below 256 (parts ! 0) of
                    None \<Rightarrow> Err ''Invalid hour''
                  | Some h \<Rightarrow>
                      (case parse_below 256 (parts ! 1) of
                         None \<Rightarrow> Err ''Invalid minute''
                       | Some m \<Rightarrow> time_new h m)))
         else
           (case parse_below 256 s of
              None \<Rightarrow> Err ''Invalid hour''
            | Some h \<Rightarrow> time_new h 0))"

definition parse_time_range :: "string \<Rightarrow> (time_range, string) outcome" where
  "parse_time_range piece =
     (let s = trim piece
      in if CHR ''-'' \<in> set s then
           (let parts = split_all (CHR ''-'') s
            in if length parts \<noteq> 2 then Err ''Invalid time range format''
               else
                 and_then (parse_time (trim (parts ! 0))) (\<lambda>a.
                 and_then (parse_time (trim (parts ! 1))) (\<lambda>b.
                 Ok \<lparr>range_start = a, range_end = b\<rparr>)))
         else
           and_then (parse_time s) (\<lambda>t.
           and_then (time_new (if hour t = 23 then 0 else hour t + 1) (minute t)) (\<lambda>e.
           Ok \<lparr>range_start = t, range_end = e\<rparr>)))"

definition parse_time_ranges :: "string \<Rightarrow> (time_range list, string) outcome" where
  "parse_time_ranges s = collect_results (map parse_time_range (split_all (CHR '','') s))"

definition parse_weekday_range :: "string \<Rightarrow> (weekday_range, string) outcome" where
  "parse_weekday_range s =
     (if CHR ''-'' \<in> set s then
        (let parts = split_all (CHR ''-'') s
         in if length parts \<noteq> 2 then Err ''Invalid weekday range''
            else
              (case weekday_from_str (parts ! 0) of
                 None \<Rightarrow> Err ''Invalid start weekday''
               | Some a \<Rightarrow>
                   (case weekday_from_str (parts ! 1) of
                      None \<Rightarrow> Err ''Invalid end weekday''
                    | Some b \<Rightarrow> Ok (WeekdayRange a b))))
      else if CHR '','' \<in> set s then
        and_then (collect_results (map (\<lambda>part.
              case weekday_from_str (trim part) of Some d \<Rightarrow> Ok d | None \<Rightarrow> Err ''Invalid weekday in list'')
            (split_all (CHR '','') s)))
          (\<lambda>ds. Ok (WeekdayList ds))
      else
        (case weekday_from_str s of Some d \<Rightarrow> Ok (Single d) | None \<Rightarrow> Err ''Invalid weekday''))"

definition looks_like_time :: "string \<Rightarrow> bool" where
  "looks_like_time s \<longleftrightarrow> CHR '':'' \<in> set s \<and> text_len s \<ge> 3"

text \<open>The scan: every part from the first that looks like a time on is a time part.\<close>

fun scan_times :: "bool \<Rightarrow> string list \<Rightarrow> (string \<times> bool) list" where
  "scan_times parsing_times [] = []"
| "scan_times parsing_times (part # parts) =
     (let parsing_times' = parsing_times \<or> looks_like_time part
      in (part, parsing_times') # scan_times parsing_times' parts)"

definition parse_rule :: "string \<Rightarrow> (opening_rule, string) outcome" where
  "parse_rule inp =
     (let s = trim inp
      in if eq_ignore_ascii_case s ''closed'' \<or> eq_ignore_ascii_case s ''off'' then
           Ok \<lparr>weekdays = None, times = [], closed = True\<rparr>
         else
           (let parts = split_whitespace s
            in if parts = [] then Err ''Empty rule''
               else
                 (let scanned = scan_times False parts;
                      time_parts = map fst (filter snd scanned);
                      weekday_parts = map fst (filter (\<lambda>p. \<not> snd p) scanned);
                      wds = find_map (\<lambda>p. case parse_weekday_range p of Ok w \<Rightarrow> Some w | _ \<Rightarrow> None) weekday_parts
                  in and_then (if time_parts = [] then Ok [] else parse_time_ranges (join '' '' time_parts)) (\<lambda>ts.
                     if wds = None \<and> ts = [] then Err ''No applicable values parsed''
                     else Ok \<lparr>weekdays = wds, times = ts, closed = False\<rparr>))))"

definition parse_hours :: "string \<Rightarrow> (opening_hours, string) outcome" where
  "parse_hours inp =
     (let s = trim inp
      in if eq_ignore_ascii_case s ''24/7'' then
           and_then (time_new 0 0) (\<lambda>a. and_then (time_new 23 59) (\<lambda>b.
           Ok \<lparr>rules = [\<lparr>weekdays = None, times = [\<lparr>range_start = a, range_end = b\<rparr>], closed = False\<rparr>]\<rparr>))
         else
           and_then (collect_results (map (\<lambda>part. parse_rule (trim part)) (split_all (CHR '';'') s))) (\<lambda>rs.
           if rs = [] then Err ''No rules'' else Ok \<lparr>rules = rs\<rparr>))"

section \<open>Queries\<close>

definition minutes_of :: "time \<Rightarrow> nat" where
  "minutes_of t = hour t * 60 + minute t"

definition time_in_range :: "time \<Rightarrow> time \<Rightarrow> time \<Rightarrow> bool" where
  "time_in_range t a b =
     (if minutes_of a \<le> minutes_of b then minutes_of t \<ge> minutes_of a \<and> minutes_of t \<le> minutes_of b
      else minutes_of t \<ge> minutes_of a \<or> minutes_of t \<le> minutes_of b)"

fun applies_to_weekday :: "weekday_range option \<Rightarrow> weekday \<Rightarrow> bool" where
  "applies_to_weekday None d = True"
| "applies_to_weekday (Some (Single x)) d = (x = d)"
| "applies_to_weekday (Some (WeekdayList ds)) d = (d \<in> set ds)"
| "applies_to_weekday (Some (WeekdayRange _ _)) d = True"

definition is_open_at :: "opening_hours \<Rightarrow> time_of_week \<Rightarrow> bool" where
  "is_open_at oh tw =
     list_ex (\<lambda>r. \<not> closed r \<and> applies_to_weekday (weekdays r) (week_day tw)
         \<and> list_ex (\<lambda>tr. time_in_range (week_time tw) (range_start tr) (range_end tr)) (times r))
       (rules oh)"

end
