(* ===== verification/Conditions.thy ===== *)
theory Conditions
  imports Opening_Hours Complex_Main
begin

text \<open>
  Conditions of restrictions (\<open>parsers/primitives/condition.rs\<close>): every parser in the order it is
  tried, the recursion over AND and OR, and the printed form. A number is the real its decimal
  denotes; rounding to a double and the overflow of very large exponents are left out. \<open>Panic\<close> is a
  slice whose end lies before its start.
\<close>

section \<open>Data\<close>

datatype season_condition = Winter | Summer | Spring | Autumn

primrec season_name :: "season_condition \<Rightarrow> string" where
  "season_name Winter = ''winter''"
| "season_name Summer = ''summer''"
| "season_name Spring = ''spring''"
| "season_name Autumn = ''autumn''"

datatype road_condition = Wet | Dry | Snow | Ice | Rain | Fog

primrec road_condition_name :: "road_condition \<Rightarrow> string" where
  "road_condition_name Wet = ''wet''"
| "road_condition_name Dry = ''dry''"
| "road_condition_name Snow = ''snow''"
| "road_condition_name Ice = ''ice''"
| "road_condition_name Rain = ''rain''"
| "road_condition_name Fog = ''fog''"

datatype vehicle_property = Weight | Axleload | Length | Width | Height | Wheels | Draught

primrec vehicle_property_name :: "vehicle_property \<Rightarrow> string" where
  "vehicle_property_name Weight = ''weight''"
| "vehicle_property_name Axleload = ''axleload''"
| "vehicle_property_name Length = ''length''"
| "vehicle_property_name Width = ''width''"
| "vehicle_property_name Height = ''height''"
| "vehicle_property_name Wheels = ''wheels''"
| "vehicle_property_name Draught = ''draught''"

datatype comparison_operator = LessThan | GreaterThan | Equal | LessThanOrEqual | GreaterThanOrEqual

primrec operator_name :: "comparison_operator \<Rightarrow> string" where
  "operator_name LessThan = ''<''"
| "operator_name GreaterThan = ''>''"
| "operator_name Equal = ''=''"
| "operator_name LessThanOrEqual = ''<=''"
| "operator_name GreaterThanOrEqual = ''>=''"

definition operator_from_str :: "string \<Rightarrow> comparison_operator option" where
  "operator_from_str s =
     (if s = ''<'' then Some LessThan else if s = ''>'' then Some GreaterThan else if s = ''='' then Some Equal
      else if s = ''<='' then Some LessThanOrEqual else if s = ''>='' then Some GreaterThanOrEqual else None)"

datatype f64_value = Number real | Infinite bool | NotANumber

record vehicle_property_condition =
  vp_property :: vehicle_property
  vp_operator :: comparison_operator
  vp_value :: f64_value
  vp_unit :: "string option"

datatype vehicle_usage_condition = Occupants comparison_operator nat | HazmatLoad | Load string

datatype user_group_condition =
    Doctor | DisabledPersons | EmergencyServices | Female | Residents | PermitHolders | Staff | CustomersOf

primrec user_group_name :: "user_group_condition \<Rightarrow> string" where
  "user_group_name Doctor = ''doctor''"
| "user_group_name DisabledPersons = ''disabled''"
| "user_group_name EmergencyServices = ''emergency''"
| "user_group_name Female = ''female''"
| "user_group_name Residents = ''residents''"
| "user_group_name PermitHolders = ''permit''"
| "user_group_name Staff = ''staff''"
| "user_group_name CustomersOf = ''customers''"

datatype purpose_condition =
    ForDestination | ForDelivery | ForCustomers | ForForestry | ForAgricultural | ForPrivate | ForPermit

primrec purpose_name :: "purpose_condition \<Rightarrow> string" where
  "purpose_name ForDestination = ''destination''"
| "purpose_name ForDelivery = ''delivery''"
| "purpose_name ForCustomers = ''customers''"
| "purpose_name ForForestry = ''forestry''"
| "purpose_name ForAgricultural = ''agricultural''"
| "purpose_name ForPrivate = ''private''"
| "purpose_name ForPermit = ''permit''"

datatype duration_unit = Minutes | Hours | Days

primrec duration_unit_name :: "duration_unit \<Rightarrow> string" where
  "duration_unit_name Minutes = ''minutes''"
| "duration_unit_name Hours = ''hours''"
| "duration_unit_name Days = ''days''"

record duration =
  duration_value :: nat
  duration_unit :: duration_unit

record stay_duration_condition =
  stay_operator :: comparison_operator
  stay_duration :: duration

record time_date_condition =
  td_hours :: opening_hours
  td_comment :: "string option"

datatype logical_operator = LogicalAnd | LogicalOr

primrec logical_name :: "logical_operator \<Rightarrow> string" where
  "logical_name LogicalAnd = ''AND''"
| "logical_name LogicalOr = ''OR''"

datatype condition_type =
    TimeDate time_date_condition
  | Season season_condition
  | RoadCondition road_condition
  | VehicleProperty vehicle_property_condition
  | VehicleUsage vehicle_usage_condition
  | UserGroup user_group_condition
  | Purpose purpose_condition
  | StayDuration stay_duration_condition
  | CombinedCondition condition_type logical_operator condition_type
  | RawCondition string

datatype parse_error =
    NotTimeDate | NotSeason | NotRoadCondition | NotVehicleProperty | NotVehicleUsage | NotUserGroup | NotPurpose
  | NotStayDuration | NotCombinedCondition | UnknownVehicleProperty | UnknownOperator | InvalidNumber
  | InvalidDuration | InvalidDurationUnit

primrec error_text :: "parse_error \<Rightarrow> string" where
  "error_text NotTimeDate = ''Not a time/date condition''"
| "error_text NotSeason = ''Not a season condition''"
| "error_text NotRoadCondition = ''Not a road condition''"
| "error_text NotVehicleProperty = ''Not a vehicle property condition''"
| "error_text NotVehicleUsage = ''Not a vehicle usage condition''"
| "error_text NotUserGroup = ''Not a user group condition''"
| "error_text NotPurpose = ''Not a purpose condition''"
| "error_text NotStayDuration = ''Not a stay duration condition''"
| "error_text NotCombinedCondition = ''Not a combined condition''"
| "error_text UnknownVehicleProperty = ''Unknown vehicle property''"
| "error_text UnknownOperator = ''Unknown comparison operator''"
| "error_text InvalidNumber = ''Invalid number format''"
| "error_text InvalidDuration = ''Invalid duration format''"
| "error_text InvalidDurationUnit = ''Invalid duration unit''"

text \<open>The printed form; \<open>show_f64\<close> is the standard library's printing of a double.\<close>

fun show_condition :: "(f64_value \<Rightarrow> string) \<Rightarrow> condition_type \<Rightarrow> string" where
  "show_condition show_f64 (TimeDate td) =
     (case td_comment td of
        Some comment \<Rightarrow> show_hours (td_hours td) @ '' '' @ [char_of (34 :: nat)] @ comment @ [char_of (34 :: nat)]
      | None \<Rightarrow> show_hours (td_hours td))"
| "show_condition show_f64 (Season x) = season_name x"
| "show_condition show_f64 (RoadCondition x) = road_condition_name x"
| "show_condition show_f64 (VehicleProperty vp) =
     vehicle_property_name (vp_property vp) @ operator_name (vp_operator vp) @ show_f64 (vp_value vp)
       @ (case vp_unit vp of Some u \<Rightarrow> u | None \<Rightarrow> [])"
| "show_condition show_f64 (VehicleUsage (Occupants oper count)) = ''occupants'' @ operator_name oper @ show_nat count"
| "show_condition show_f64 (VehicleUsage HazmatLoad) = ''hazmat''"
| "show_condition show_f64 (VehicleUsage (Load s)) = s"
| "show_condition show_f64 (UserGroup x) = user_group_name x"
| "show_condition show_f64 (Purpose x) = purpose_name x"
| "show_condition show_f64 (StayDuration sd) =
     ''stay '' @ operator_name (stay_operator sd) @ '' '' @ show_nat (duration_value (stay_duration sd)) @ '' ''
       @ duration_unit_name (duration_unit (stay_duration sd))"
| "show_condition show_f64 (CombinedCondition a oper b) =
     show_condition show_f64 a @ '' '' @ logical_name oper @ '' '' @ show_condition show_f64 b"
| "show_condition show_f64 (RawCondition s) = s"

section \<open>Numbers\<close>

definition digits_nat :: "string \<Rightarrow> nat" where
  "digits_nat ds = foldl (\<lambda>acc d. 10 * acc + (case digit_value d of Some v \<Rightarrow> v | None \<Rightarrow> 0)) 0 ds"

definition is_digit :: "char \<Rightarrow> bool" where
  "is_digit c \<longleftrightarrow> digit_value c \<noteq> None"

definition split_sign :: "string \<Rightarrow> bool \<times> string" where
  "split_sign s =
     (case s of [] \<Rightarrow> (False, []) | c # cs \<Rightarrow> if c = CHR ''-'' then (True, cs) else if c = CHR ''+'' then (False, cs) else (False, s))"

definition parse_exponent :: "string \<Rightarrow> int option" where
  "parse_exponent s =
     (case s of
        [] \<Rightarrow> Some 0
      | c # cs \<Rightarrow>
          if lower c = CHR ''e'' then
            (let (neg, ds) = split_sign cs
             in if ds \<noteq> [] \<and> list_all is_digit ds
                then Some (if neg then - int (digits_nat ds) else int (digits_nat ds)) else None)
          else None)"

definition parse_decimal :: "string \<Rightarrow> real option" where
  "parse_decimal s =
     (let whole = takeWhile is_digit s;
          rest = dropWhile is_digit s;
          (frac, rest') = (case rest of
              [] \<Rightarrow> ([], [])
            | c # cs \<Rightarrow> if c = CHR ''.'' then (takeWhile is_digit cs, dropWhile is_digit cs) else ([], rest))
      in if whole = [] \<and> frac = [] then None
         else map_option (\<lambda>e. let k = e - int (length frac)
                in if k \<ge> 0 then real (digits_nat (whole @ frac)) * 10 ^ nat k
                   else real (digits_nat (whole @ frac)) / 10 ^ nat (- k))
              (parse_exponent rest'))"

definition parse_f64 :: "string \<Rightarrow> f64_value option" where
  "parse_f64 s =
     (let (neg, body) = split_sign s
      in case parse_decimal body of
           Some x \<Rightarrow> Some (Number (if neg then - x else x))
         | None \<Rightarrow>
             if eq_ignore_ascii_case body ''inf'' \<or> eq_ignore_ascii_case body ''infinity'' then Some (Infinite neg)
             else if eq_ignore_ascii_case body ''nan'' then Some NotANumber
             else None)"

text \<open>The end of the number is counted in characters and used as a position in bytes.\<close>

definition parse_value_with_unit :: "string \<Rightarrow> (f64_value \<times> string option, parse_error) outcome" where
  "parse_value_with_unit s =
     (case parse_f64 s of
        Some v \<Rightarrow> Ok (v, None)
      | None \<Rightarrow>
          (let number_end = length (takeWhile (\<lambda>c. is_numeric c \<or> c = CHR ''.'') s)
           in if number_end > 0 then
                (case split_bytes number_end s of
                   None \<Rightarrow> Panic
                 | Some (number_str, rest) \<Rightarrow>
                     (let unit_str = trim rest
                      in case parse_f64 number_str of
                           Some v \<Rightarrow> Ok (v, if unit_str = [] then None else Some unit_str)
                         | None \<Rightarrow> Err InvalidNumber))
              else Err InvalidNumber))"

section \<open>The parsers of single conditions\<close>

definition parse_time_date :: "string \<Rightarrow> (time_date_condition, parse_error) outcome" where
  "parse_time_date s =
     (let quote = char_of (34 :: nat);
          split = (case position (\<lambda>c. c = quote) s of
              Some quote_start \<Rightarrow>
                (let opening = trim (take quote_start s);
                     comment_end = (case rfind_char quote s of Some e \<Rightarrow> e | None \<Rightarrow> length s)
                 in if quote_start + 1 > comment_end then Panic
                    else Ok (Some (drop (quote_start + 1) (take comment_end s)), opening))
            | None \<Rightarrow> Ok (None, s))
      in and_then split (\<lambda>(comment, hours).
         and_then (map_err (\<lambda>_. NotTimeDate) (parse_hours hours)) (\<lambda>oh.
         Ok \<lparr>td_hours = oh, td_comment = comment\<rparr>)))"

definition ok_or :: "'e \<Rightarrow> 'a option \<Rightarrow> ('a, 'e) outcome" where
  "ok_or e x = (case x of Some y \<Rightarrow> Ok y | None \<Rightarrow> Err e)"

definition parse_season :: "string \<Rightarrow> (season_condition, parse_error) outcome" where
  "parse_season s = ok_or NotSeason (named season_name [Winter, Summer, Spring, Autumn] s)"

definition parse_road_condition :: "string \<Rightarrow> (road_condition, parse_error) outcome" where
  "parse_road_condition s = ok_or NotRoadCondition (named road_condition_name [Wet, Dry, Snow, Ice, Rain, Fog] s)"

definition vehicle_property_from_str :: "string \<Rightarrow> vehicle_property option" where
  "vehicle_property_from_str =
     named vehicle_property_name [Weight, Axleload, Length, Width, Height, Wheels, Draught]"

definition operators :: "string list" where
  "operators = [''<='', ''>='', ''<'', ''>'', ''='']"

text \<open>The loop over the operators: the first in the list that occurs decides, wherever it occurs.\<close>

definition first_operator :: "string \<Rightarrow> (string \<times> nat) option" where
  "first_operator s = find_map (\<lambda>op_str. map_option (Pair op_str) (find_sub op_str s)) operators"

definition parse_vehicle_property :: "string \<Rightarrow> (vehicle_property_condition, parse_error) outcome" where
  "parse_vehicle_property s =
     (case first_operator s of
        None \<Rightarrow> Err NotVehicleProperty
      | Some (op_str, op_pos) \<Rightarrow>
          and_then (ok_or UnknownVehicleProperty (vehicle_property_from_str (trim (take op_pos s)))) (\<lambda>property.
          and_then (ok_or UnknownOperator (operator_from_str op_str)) (\<lambda>oper.
          and_then (parse_value_with_unit (trim (drop (op_pos + length op_str) s))) (\<lambda>(v, u).
          Ok \<lparr>vp_property = property, vp_operator = oper, vp_value = v, vp_unit = u\<rparr>))))"

definition parse_vehicle_usage :: "string \<Rightarrow> (vehicle_usage_condition, parse_error) outcome" where
  "parse_vehicle_usage s =
     (if s = ''hazmat'' then Ok HazmatLoad
      else
        (case (if prefix ''occupants'' s then first_operator (drop 9 s) else None) of
           Some (op_str, op_pos) \<Rightarrow>
             and_then (ok_or UnknownOperator (operator_from_str op_str)) (\<lambda>oper.
             and_then (ok_or InvalidNumber (parse_below (2 ^ 32) (trim (drop (op_pos + length op_str) (drop 9 s))))) (\<lambda>count.
             Ok (Occupants oper count)))
         | None \<Rightarrow> Ok (Load s)))"

definition parse_user_group :: "string \<Rightarrow> (user_group_condition, parse_error) outcome" where
  "parse_user_group s =
     ok_or NotUserGroup (named user_group_name
       [Doctor, DisabledPersons, EmergencyServices, Female, Residents, PermitHolders, Staff, CustomersOf] s)"

definition parse_purpose :: "string \<Rightarrow> (purpose_condition, parse_error) outcome" where
  "parse_purpose s =
     ok_or NotPurpose (named purpose_name
       [ForDestination, ForDelivery, ForCustomers, ForForestry, ForAgricultural, ForPrivate, ForPermit] s)"

definition parse_duration :: "string \<Rightarrow> (duration, parse_error) outcome" where
  "parse_duration s =
     (let parts = split_whitespace s
      in if length parts \<noteq> 2 then Err InvalidDuration
         else
           and_then (ok_or InvalidNumber (parse_below (2 ^ 32) (parts ! 0))) (\<lambda>v.
           let u = to_lowercase (parts ! 1)
           in if u \<in> {''minute'', ''minutes''} then Ok \<lparr>duration_value = v, duration_unit = Minutes\<rparr>
              else if u \<in> {''hour'', ''hours''} then Ok \<lparr>duration_value = v, duration_unit = Hours\<rparr>
              else if u \<in> {''day'', ''days''} then Ok \<lparr>duration_value = v, duration_unit = Days\<rparr>
              else Err InvalidDurationUnit))"

definition parse_stay_duration :: "string \<Rightarrow> (stay_duration_condition, parse_error) outcome" where
  "parse_stay_duration s =
     (if \<not> prefix ''stay'' s then Err NotStayDuration
      else
        (let rest = trim (drop 4 s)
         in case first_operator rest of
              None \<Rightarrow> Err NotStayDuration
            | Some (op_str, op_pos) \<Rightarrow>
                and_then (ok_or UnknownOperator (operator_from_str op_str)) (\<lambda>oper.
                and_then (parse_duration (trim (drop (op_pos + length op_str) rest))) (\<lambda>d.
                Ok \<lparr>stay_operator = oper, stay_duration = d\<rparr>))))"

section \<open>The parser of a condition\<close>

text \<open>\<open>if let Ok(x) = p { return Ok(Condition .. }\<close>, and otherwise the next parser.\<close>

fun or_else :: "('a, 'e) outcome \<Rightarrow> ('b, 'e) outcome \<Rightarrow> ('a \<Rightarrow> 'b) \<Rightarrow> ('b, 'e) outcome" where
  "or_else (Ok x) next_one f = Ok (f x)"
| "or_else (Err e) next_one f = next_one"
| "or_else Panic next_one f = Panic"

definition parse_specific :: "string \<Rightarrow> (condition_type, parse_error) outcome" where
  "parse_specific cleaned =
     or_else (parse_time_date cleaned)
    (or_else (parse_season cleaned)
    (or_else (parse_road_condition cleaned)
    (or_else (parse_vehicle_property cleaned)
    (or_else (parse_vehicle_usage cleaned)
    (or_else (parse_user_group cleaned)
    (or_else (parse_purpose cleaned)
    (or_else (parse_stay_duration cleaned)
       (Ok (RawCondition cleaned)) StayDuration) Purpose) UserGroup) VehicleUsage) VehicleProperty) RoadCondition) Season) TimeDate"

definition clean_parentheses :: "string \<Rightarrow> string" where
  "clean_parentheses s =
     (if s \<noteq> [] \<and> hd s = CHR ''('' \<and> last s = CHR '')'' then take (length s - 2) (drop 1 s) else s)"

lemma length_trim: "length (trim s) \<le> length s"
  by (simp add: trim_def) (metis le_trans length_dropWhile_le length_rev)

lemma length_clean: "length (clean_parentheses s) \<le> length s"
  by (simp add: clean_parentheses_def)

lemma to_uppercase_length [simp]: "length (to_uppercase s) = length s"
  by (simp add: to_uppercase_def)

lemma sides_shorter:
  assumes "find_sub pat (to_uppercase s) = Some p" "pat \<noteq> []"
  shows "length (trim (take p s)) < length s" "length (trim (drop (p + length pat) s)) < length s"
proof -
  have p: "p + length pat \<le> length s" using find_sub_SomeD [OF assms(1)] by simp
  have l: "0 < length pat" using assms(2) by simp
  have "length (trim (take p s)) \<le> p" using p length_trim [of "take p s"] by simp
  then show "length (trim (take p s)) < length s" using p l by linarith
  have "length (trim (drop (p + length pat) s)) \<le> length s - (p + length pat)"
    using length_trim [of "drop (p + length pat) s"] by simp
  then show "length (trim (drop (p + length pat) s)) < length s" using p l by linarith
qed

text \<open>
  \<open>Condition::parse\<close> and \<open>parse_combined_condition\<close>, which call each other on the sides of the first
  AND, or else of the first OR; both sides are shorter, so the recursion ends.
\<close>

function parse_condition :: "string \<Rightarrow> (condition_type, parse_error) outcome"
  and parse_combined :: "string \<Rightarrow> (condition_type, parse_error) outcome" where
  "parse_condition s =
     (let cleaned = clean_parentheses (trim s)
      in or_else (parse_combined cleaned) (parse_specific cleaned) id)"
| "parse_combined s =
     (case find_sub '' AND '' (to_uppercase s) of
        Some p \<Rightarrow>
          and_then (parse_condition (trim (take p s))) (\<lambda>l.
          and_then (parse_condition (trim (drop (p + 5) s))) (\<lambda>r. Ok (CombinedCondition l LogicalAnd r)))
      | None \<Rightarrow>
          (case find_sub '' OR '' (to_uppercase s) of
             Some p \<Rightarrow>
               and_then (parse_condition (trim (take p s))) (\<lambda>l.
               and_then (parse_condition (trim (drop (p + 4) s))) (\<lambda>r. Ok (CombinedCondition l LogicalOr r)))
           | None \<Rightarrow> Err NotCombinedCondition))"
  by pat_completeness auto

termination
proof (relation "measure (\<lambda>x. case x of Inl s \<Rightarrow> 2 * length s + 1 | Inr s \<Rightarrow> 2 * length s)", goal_cases)
  case (2 s x)
  show ?case using le_trans [OF length_clean length_trim] by (auto simp: 2 less_Suc_eq_le)
next
  case (3 s p)
  then show ?case using sides_shorter [of "'' AND ''" s p] sides_shorter [of "'' OR ''" s p] by (auto simp: eval_nat_numeral)
next
  case (4 s p)
  then show ?case using sides_shorter [of "'' AND ''" s p] sides_shorter [of "'' OR ''" s p] by (auto simp: eval_nat_numeral)
next
  case (5 s p)
  then show ?case using sides_shorter [of "'' AND ''" s p] sides_shorter [of "'' OR ''" s p] by (auto simp: eval_nat_numeral)
next
  case (6 s p)
  then show ?case using sides_shorter [of "'' AND ''" s p] sides_shorter [of "'' OR ''" s p] by (auto simp: eval_nat_numeral)
qed simp

declare parse_condition.simps [simp del] parse_combined.simps [simp del]

end
