(* ===== verification/Speed_Limits.thy ===== *)
theory Speed_Limits
  imports Access Conditions
begin

text \<open>
  Speed limits (\<open>primitives/speed.rs\<close>, \<open>parsers/speed_limit\<close>): a value with its unit, a condition in
  brackets, limits per lane, the limits of an element and those relevant to a trip. The two regular
  expressions are the functions \<open>value_captures\<close> and \<open>condition_capture\<close>: both are deterministic on
  the text they scan. A parser that returns an option can still panic inside a condition, so \<open>Err ()\<close>
  is its \<open>None\<close>. Conversions are those of exact numbers.
\<close>

section \<open>Speeds\<close>

datatype speed_value = Kmh nat | Mph nat | Knots nat | NoLimit | VariableLimit | InheritedLimit | WalkLimit

definition to_speed :: "real \<Rightarrow> nat option" where
  "to_speed x = (let n = min (nat \<lfloor>x\<rfloor>) 65535 in if n = 0 then None else Some n)"

fun in_kmh :: "speed_value \<Rightarrow> nat option" where
  "in_kmh (Kmh v) = Some v"
| "in_kmh (Mph v) = to_speed (real v * 1.609344)"
| "in_kmh (Knots v) = to_speed (real v * 1.852)"
| "in_kmh _ = None"

definition parse_speed_value :: "string \<Rightarrow> string \<Rightarrow> speed_value option" where
  "parse_speed_value v u =
     map_option (\<lambda>numeric.
         if u = ''mph'' then Mph numeric
         else if u = ''kph'' then Kmh numeric
         else if u = ''knots'' then Knots numeric
         else if u = ''variable'' then VariableLimit
         else if u = ''inherited'' then InheritedLimit
         else if u = ''none'' then NoLimit
         else if u = ''walk'' then WalkLimit
         else Kmh numeric)
       (parse_nonzero 65536 v)"

fun show_speed :: "speed_value \<Rightarrow> string" where
  "show_speed (Kmh v) = show_nat v"
| "show_speed (Mph v) = show_nat v @ '' mph''"
| "show_speed (Knots v) = show_nat v @ '' knots''"
| "show_speed NoLimit = ''none''"
| "show_speed VariableLimit = ''variable''"
| "show_speed InheritedLimit = ''inherited''"
| "show_speed WalkLimit = ''walk''"

section \<open>The regular expressions\<close>

text \<open>
  \<open>VALUE_RE\<close>: white space, one or more digits, and if there is one, after more white space, a word
  without white space and opening brackets.
\<close>

definition value_captures :: "string \<Rightarrow> (string \<times> string) option" where
  "value_captures s =
     (let t = dropWhile is_space s;
          digits = takeWhile is_digit t;
          rest = dropWhile is_space (dropWhile is_digit t)
      in if digits = [] then None
         else Some (digits, takeWhile (\<lambda>c. \<not> is_space c \<and> c \<noteq> CHR ''('') rest))"

text \<open>\<open>CONDITION_RE\<close>: the first bracketed text that is not empty.\<close>

fun condition_capture :: "string \<Rightarrow> string option" where
  "condition_capture [] = None"
| "condition_capture (c # cs) =
     (if c = CHR ''('' then
        (case split_once (CHR '')'') cs of
           Some (inside, _) \<Rightarrow> if inside = [] then condition_capture cs else Some inside
         | None \<Rightarrow> condition_capture cs)
      else condition_capture cs)"

section \<open>Limits\<close>

record conditional_limit =
  limit_speed :: speed_value
  limit_condition :: "condition_type option"

definition parse_limit_condition :: "string \<Rightarrow> (condition_type option, unit) outcome" where
  "parse_limit_condition v =
     (case condition_capture v of
        None \<Rightarrow> Ok None
      | Some s \<Rightarrow> (case parse_condition s of Ok c \<Rightarrow> Ok (Some c) | Err _ \<Rightarrow> Ok None | Panic \<Rightarrow> Panic))"

definition parse_limit_speed :: "string \<Rightarrow> speed_value option" where
  "parse_limit_speed v =
     (case value_captures v of None \<Rightarrow> None | Some (n, u) \<Rightarrow> parse_speed_value (to_lowercase n) (to_lowercase u))"

definition parse_limit :: "string \<Rightarrow> (conditional_limit, unit) outcome" where
  "parse_limit v =
     (if v = [] then Err ()
      else
        and_then (parse_limit_condition v) (\<lambda>condition.
        and_then (ok_or () (parse_limit_speed v)) (\<lambda>speed.
        Ok \<lparr>limit_speed = speed, limit_condition = condition\<rparr>)))"

datatype speed_limit_variant = Blanket conditional_limit | PerLane "conditional_limit option list"

definition lanes_in_kmh :: "conditional_limit option list \<Rightarrow> nat option list" where
  "lanes_in_kmh lanes = map (\<lambda>lane. Option.bind lane (\<lambda>l. in_kmh (limit_speed l))) lanes"

record speed_limit_entry =
  entry_restriction :: restriction_optionals
  entry_limit :: speed_limit_variant

definition parse_restriction :: "string \<Rightarrow> restriction_optionals" where
  "parse_restriction label = parse_builder label"

fun lane_outcome :: "('a, unit) outcome \<Rightarrow> ('a option, unit) outcome" where
  "lane_outcome (Ok x) = Ok (Some x)"
| "lane_outcome (Err e) = Ok None"
| "lane_outcome Panic = Panic"

definition parse_limit_tag :: "string \<Rightarrow> string \<Rightarrow> (speed_limit_entry, unit) outcome" where
  "parse_limit_tag label v =
     and_then
       (if contains_sub label ''lanes'' then
          and_then (collect_results (map (\<lambda>lane. lane_outcome (parse_limit lane)) (split_terminator (CHR ''|'') v))) (\<lambda>lanes.
          Ok (PerLane lanes))
        else and_then (parse_limit v) (\<lambda>l. Ok (Blanket l)))
       (\<lambda>limit. Ok \<lparr>entry_restriction = parse_restriction label, entry_limit = limit\<rparr>)"

section \<open>The limits of an element\<close>

text \<open>\<open>filter_map\<close> over parsers that can panic.\<close>

fun filter_ok :: "('a, unit) outcome list \<Rightarrow> ('a list, unit) outcome" where
  "filter_ok [] = Ok []"
| "filter_ok (Ok x # rs) = and_then (filter_ok rs) (\<lambda>xs. Ok (x # xs))"
| "filter_ok (Err e # rs) = filter_ok rs"
| "filter_ok (Panic # rs) = Panic"

text \<open>The entries are sorted by their debug text, a parameter.\<close>

definition parse_speed_limits :: "(speed_limit_entry \<Rightarrow> 'k::linorder) \<Rightarrow> tags \<Rightarrow> (speed_limit_entry list, unit) outcome" where
  "parse_speed_limits debug ts =
     and_then (filter_ok (map (\<lambda>(l, v). parse_limit_tag l v) (filter (\<lambda>(l, v). prefix ''maxspeed'' l) ts))) (\<lambda>known.
     if known = [] then Err () else Ok (sort_key debug known))"

record speed_limit_conditions =
  cond_directionality :: directionality
  cond_lane :: "nat option"

text \<open>The lane of the query is a non-zero byte, used as an index as it is.\<close>

definition relevant_limits :: "transport_mode \<Rightarrow> speed_limit_conditions \<Rightarrow> speed_limit_entry list \<Rightarrow> conditional_limit list" where
  "relevant_limits mode cond entries =
     List.map_filter (\<lambda>e. case entry_limit e of
           Blanket l \<Rightarrow> Some l
         | PerLane lanes \<Rightarrow>
             (case cond_lane cond of None \<Rightarrow> None | Some i \<Rightarrow> if i < length lanes then lanes ! i else None))
       (filter (\<lambda>e. case optional_direction (entry_restriction e) of None \<Rightarrow> True | Some d \<Rightarrow> d = cond_directionality cond)
         (filter (\<lambda>e. case optional_mode (entry_restriction e) of None \<Rightarrow> True | Some m \<Rightarrow> m = mode) entries))"

section \<open>Laws\<close>

lemma parse_nonzero_range: "parse_nonzero bound s = Some n \<Longrightarrow> 0 < n \<and> n < bound"
  by (auto simp: parse_nonzero_def parse_below_def split: option.splits if_splits)

definition speed_typed :: "speed_value \<Rightarrow> bool" where
  "speed_typed v = (case v of Kmh n \<Rightarrow> 0 < n \<and> n \<le> 65535 | Mph n \<Rightarrow> 0 < n \<and> n \<le> 65535 | Knots n \<Rightarrow> 0 < n \<and> n \<le> 65535 | _ \<Rightarrow> True)"

lemma parse_speed_value_typed: "parse_speed_value v u = Some s \<Longrightarrow> speed_typed s"
proof -
  assume parsed: "parse_speed_value v u = Some s"
  then obtain n where n: "parse_nonzero 65536 v = Some n" by (auto simp: parse_speed_value_def)
  then have "s \<in> {Mph n, Kmh n, Knots n, VariableLimit, InheritedLimit, NoLimit, WalkLimit}"
    using parsed unfolding parse_speed_value_def by (simp only: option.map option.inject insert_iff) argo
  then show ?thesis using parse_nonzero_range [OF n] by (auto simp: speed_typed_def)
qed

text \<open>A limit of at least one unit converts to a positive number of kilometres per hour, never out of range.\<close>

lemma to_speed_range: "1 \<le> x \<Longrightarrow> \<exists>n. to_speed x = Some n \<and> 0 < n \<and> n \<le> 65535 \<and> real n \<le> x"
proof -
  assume x: "1 \<le> x"
  then have "1 \<le> nat \<lfloor>x\<rfloor>" by linarith
  moreover have "real (nat \<lfloor>x\<rfloor>) \<le> x" using x by simp
  ultimately show ?thesis by (auto simp: to_speed_def Let_def min_def)
qed

lemma in_kmh_range:
  assumes "speed_typed v"
  shows "case v of Kmh n \<Rightarrow> in_kmh v = Some n
    | Mph n \<Rightarrow> \<exists>k. in_kmh v = Some k \<and> 0 < k \<and> k \<le> 65535 \<and> real k \<le> 1.609344 * real n
    | Knots n \<Rightarrow> \<exists>k. in_kmh v = Some k \<and> 0 < k \<and> k \<le> 65535 \<and> real k \<le> 1.852 * real n
    | _ \<Rightarrow> in_kmh v = None"
proof -
  have mph: "\<exists>k. to_speed (real n * 1.609344) = Some k \<and> 0 < k \<and> k \<le> 65535 \<and> real k \<le> 1.609344 * real n" if "0 < n" for n :: nat
    using that to_speed_range [of "real n * 1.609344"] by (simp add: mult.commute)
  have knots: "\<exists>k. to_speed (real n * 1.852) = Some k \<and> 0 < k \<and> k \<le> 65535 \<and> real k \<le> 1.852 * real n" if "0 < n" for n :: nat
    using that to_speed_range [of "real n * 1.852"] by (simp add: mult.commute)
  show ?thesis
  proof (cases v)
    case (Mph n)
    then show ?thesis using assms mph [of n] by (simp only: speed_typed_def in_kmh.simps speed_value.case)
  next
    case (Knots n)
    then show ?thesis using assms knots [of n] by (simp only: speed_typed_def in_kmh.simps speed_value.case)
  qed simp_all
qed

text \<open>The first of two lanes is never found: lanes are counted from one, the list from zero.\<close>

lemma lane_index_off_by_one:
  "relevant_limits m \<lparr>cond_directionality = d, cond_lane = Some 1\<rparr>
     [\<lparr>entry_restriction = \<lparr>optional_mode = None, optional_direction = None\<rparr>, entry_limit = PerLane [Some a, Some b]\<rparr>] = [b]"
  by (simp add: relevant_limits_def List.map_filter_def)

text \<open>Words without a number are no limit, so the values none, walk and variable are never read.\<close>

lemma words_are_no_limit: "(\<And>c. c \<in> set v \<Longrightarrow> \<not> is_digit c) \<Longrightarrow> parse_limit_speed v = None"
proof -
  assume none: "\<And>c. c \<in> set v \<Longrightarrow> \<not> is_digit c"
  have "takeWhile is_digit (dropWhile is_space v) = []"
  proof (cases "dropWhile is_space v")
    case Nil
    then show ?thesis by (simp only: takeWhile.simps)
  next
    case (Cons c cs)
    then show ?thesis using none [of c] set_dropWhileD [of c is_space v] by simp
  qed
  then show ?thesis by (simp add: parse_limit_speed_def value_captures_def)
qed

end
