(* ===== verification/Opening_Laws.thy ===== *)
theory Opening_Laws
  imports Opening_Hours
begin

text \<open>
  What the parser of opening hours promises: every value it returns is well formed, and printing a
  value and parsing it again returns it exactly when no rule is lossy in print.
\<close>

section \<open>Well-formed values\<close>

definition time_typed :: "time \<Rightarrow> bool" where
  "time_typed t \<longleftrightarrow> hour t \<le> 24 \<and> minute t \<le> 59"

definition range_typed :: "time_range \<Rightarrow> bool" where
  "range_typed r \<longleftrightarrow> time_typed (range_start r) \<and> time_typed (range_end r)"

definition rule_typed :: "opening_rule \<Rightarrow> bool" where
  "rule_typed r \<longleftrightarrow> list_all range_typed (times r) \<and> (if closed r then weekdays r = None \<and> times r = [] else weekdays r \<noteq> None \<or> times r \<noteq> [])"

definition hours_typed :: "opening_hours \<Rightarrow> bool" where
  "hours_typed oh \<longleftrightarrow> rules oh \<noteq> [] \<and> list_all rule_typed (rules oh)"

named_theorems no_panic \<open>parsers that never panic\<close>

lemma time_new_typed: "time_new h m = Ok t \<Longrightarrow> time_typed t"
  by (auto simp: time_new_def time_typed_def split: if_splits)

lemma time_new_no_panic [no_panic]: "time_new h m \<noteq> Panic"
  by (simp add: time_new_def)

lemma parse_time_typed: "parse_time s = Ok t \<Longrightarrow> time_typed t"
  by (auto simp: parse_time_def Let_def time_new_typed split: if_splits option.splits)

lemma parse_time_no_panic [no_panic]: "parse_time s \<noteq> Panic"
  by (auto simp: parse_time_def Let_def no_panic split: option.splits)

lemma and_then_Panic_iff [no_panic]: "and_then r f = Panic \<longleftrightarrow> r = Panic \<or> (\<exists>x. r = Ok x \<and> f x = Panic)"
  by (cases r) auto

lemma collect_Panic: "collect_results rs = Panic \<Longrightarrow> Panic \<in> set rs"
  by (induction rs) (auto simp: and_then_Panic_iff)

lemma parse_time_range_typed: "parse_time_range s = Ok r \<Longrightarrow> range_typed r"
  by (auto simp: parse_time_range_def Let_def range_typed_def dest: parse_time_typed time_new_typed split: if_splits)

lemma parse_time_range_no_panic [no_panic]: "parse_time_range s \<noteq> Panic"
  by (simp add: parse_time_range_def Let_def no_panic)

lemma parse_time_ranges_typed: "parse_time_ranges s = Ok rs \<Longrightarrow> list_all range_typed rs"
proof -
  assume "parse_time_ranges s = Ok rs"
  then have "map parse_time_range (split_all (CHR '','') s) = map Ok rs"
    by (simp add: parse_time_ranges_def collect_results_Ok_iff)
  then have "\<forall>r \<in> set rs. \<exists>p. parse_time_range p = Ok r" by (metis (no_types, lifting) image_iff list.set_map)
  then show ?thesis by (auto simp: list_all_iff dest: parse_time_range_typed)
qed

lemma parse_time_ranges_no_panic [no_panic]: "parse_time_ranges s \<noteq> Panic"
proof
  assume "parse_time_ranges s = Panic"
  then have "Panic \<in> parse_time_range ` set (split_all (CHR '','') s)"
    unfolding parse_time_ranges_def by (metis collect_Panic list.set_map)
  then obtain p where "parse_time_range p = Panic" by (metis imageE)
  then show False by (simp add: no_panic)
qed

lemma parse_rule_typed: "parse_rule s = Ok r \<Longrightarrow> rule_typed r"
  by (auto simp: parse_rule_def Let_def rule_typed_def dest: parse_time_ranges_typed split: if_splits)

lemma parse_rule_no_panic [no_panic]: "parse_rule s \<noteq> Panic"
  by (simp add: parse_rule_def Let_def no_panic)

text \<open>A round of the whole parser: a well-formed value, or one of its errors.\<close>

lemma parse_hours_typed: "parse_hours s = Ok oh \<Longrightarrow> hours_typed oh"
proof (cases "eq_ignore_ascii_case (trim s) ''24/7''")
  case True
  assume "parse_hours s = Ok oh"
  with True show ?thesis
    by (auto simp: parse_hours_def hours_typed_def rule_typed_def range_typed_def dest: time_new_typed)
next
  case False
  assume "parse_hours s = Ok oh"
  with False obtain rs where rs: "oh = \<lparr>rules = rs\<rparr>" "rs \<noteq> []"
      "map (\<lambda>part. parse_rule (trim part)) (split_all (CHR '';'') (trim s)) = map Ok rs"
    by (auto simp: parse_hours_def Let_def collect_results_Ok_iff split: if_splits)
  then have "\<forall>r \<in> set rs. \<exists>p. parse_rule p = Ok r" by (metis (no_types, lifting) image_iff list.set_map)
  then show ?thesis using rs by (auto simp: hours_typed_def list_all_iff dest: parse_rule_typed)
qed

lemma parse_hours_no_panic [no_panic]: "parse_hours s \<noteq> Panic"
proof
  assume "parse_hours s = Panic"
  then have "Panic \<in> (\<lambda>part. parse_rule (trim part)) ` set (split_all (CHR '';'') (trim s))"
    using collect_Panic [of "map (\<lambda>part. parse_rule (trim part)) (split_all (CHR '';'') (trim s))"]
    by (simp add: parse_hours_def Let_def no_panic split: if_splits)
  then obtain p where "parse_rule p = Panic" by (metis imageE)
  then show False by (simp add: no_panic)
qed

section \<open>Printing and parsing\<close>

lemma show_two_free: "c \<in> set (show_two n) \<Longrightarrow> c \<notin> {CHR '':'', CHR ''-'', CHR '','', CHR '';'', CHR ''/''} \<and> \<not> is_space c"
  using show_two_digits [of c n] digit_char_special by (auto simp: digit_char_slash)

lemma show_time_chars: "c \<in> set (show_time t) \<Longrightarrow> c \<notin> {CHR ''-'', CHR '','', CHR '';'', CHR ''/''} \<and> \<not> is_space c"
  using show_two_free [of c "hour t"] show_two_free [of c "minute t"] by (auto simp: show_time_def is_space_def)

lemma show_range_chars: "c \<in> set (show_range r) \<Longrightarrow> c \<notin> {CHR '','', CHR '';'', CHR ''/''} \<and> \<not> is_space c"
  using show_time_chars [of c "range_start r"] show_time_chars [of c "range_end r"] by (auto simp: show_range_def is_space_def)

lemma weekday_name_chars: "c \<in> set (weekday_name d) \<Longrightarrow> c \<notin> {CHR '':'', CHR ''-'', CHR '','', CHR '';'', CHR ''/''} \<and> \<not> is_space c"
  by (cases d) (auto simp: is_space_def)

lemma join_chars: "c \<in> set (join sep ws) \<Longrightarrow> c \<in> set sep \<or> (\<exists>w \<in> set ws. c \<in> set w)"
  using set_join [of sep ws] by blast

lemma show_weekdays_chars: "c \<in> set (show_weekdays w) \<Longrightarrow> c \<notin> {CHR '':'', CHR '';'', CHR ''/''} \<and> \<not> is_space c"
proof (cases w)
  case (WeekdayList ds)
  assume "c \<in> set (show_weekdays w)"
  with WeekdayList show ?thesis using join_chars [of c "'',''" "map weekday_name ds"] weekday_name_chars by (fastforce simp: is_space_def)
qed (use weekday_name_chars in \<open>force simp: is_space_def\<close>)+

lemma show_rule_chars: "c \<in> set (show_rule r) \<Longrightarrow> c \<noteq> CHR '';'' \<and> c \<noteq> CHR ''/'' \<and> \<not> is_space c"
proof -
  assume "c \<in> set (show_rule r)"
  then consider w where "c \<in> set (show_weekdays w)" | "c \<in> set (join '','' (map show_range (times r)))"
    by (auto simp: show_rule_def split: option.splits)
  then show ?thesis
  proof cases
    case 1
    then show ?thesis using show_weekdays_chars by blast
  next
    case 2
    then show ?thesis using join_chars [of c "'',''" "map show_range (times r)"] show_range_chars by (fastforce simp: is_space_def)
  qed
qed

lemma parse_show_time: "time_typed t \<Longrightarrow> parse_time (show_time t) = Ok t"
proof -
  assume t: "time_typed t"
  have "trim (show_time t) = show_time t" by (rule trim_id) (use show_time_chars in blast)
  moreover have "split_all (CHR '':'') (show_time t) = [show_two (hour t), show_two (minute t)]"
    unfolding show_time_def using show_two_free
    by (simp add: split_all_piece split_all_whole) (metis insertI1 show_two_free split_all_piece split_all_whole)
  moreover have "parse_below 256 (show_two (hour t)) = Some (hour t)" "parse_below 256 (show_two (minute t)) = Some (minute t)"
    using t by (auto simp: time_typed_def intro!: show_two_parse)
  moreover have "CHR '':'' \<in> set (show_time t)" by (simp add: show_time_def)
  ultimately show ?thesis using t by (simp add: parse_time_def time_new_def time_typed_def)
qed

lemma parse_show_range: "range_typed r \<Longrightarrow> parse_time_range (show_range r) = Ok r"
proof -
  assume r: "range_typed r"
  have "trim (show_range r) = show_range r" by (rule trim_id) (use show_range_chars in blast)
  moreover have "split_all (CHR ''-'') (show_range r) = [show_time (range_start r), show_time (range_end r)]"
    unfolding show_range_def using show_time_chars
    by (simp add: split_all_piece split_all_whole) (metis insertI1 show_time_chars split_all_piece split_all_whole)
  moreover have "trim (show_time t) = show_time t" for t by (rule trim_id) (use show_time_chars in blast)
  moreover have "CHR ''-'' \<in> set (show_range r)" by (simp add: show_range_def)
  ultimately show ?thesis using r by (simp add: parse_time_range_def range_typed_def parse_show_time)
qed

lemma parse_show_ranges:
  assumes "ts \<noteq> []" "list_all range_typed ts"
  shows "parse_time_ranges (join '','' (map show_range ts)) = Ok ts"
proof -
  have "split_all (CHR '','') (join '','' (map show_range ts)) = map show_range ts"
    using assms(1) show_range_chars by (intro split_join) force+
  moreover have "map (parse_time_range \<circ> show_range) ts = map Ok ts"
    using assms(2) by (simp add: list_all_iff parse_show_range)
  ultimately show ?thesis by (simp add: parse_time_ranges_def collect_results_Ok_iff)
qed

lemma weekday_from_name: "weekday_from_str (weekday_name d) = Some d"
proof -
  have "list_all (\<lambda>d. weekday_from_str (weekday_name d) = Some d) [Monday, Tuesday, Wednesday, Thursday, Friday, Saturday, Sunday]"
    by code_simp
  then show ?thesis by (cases d) simp_all
qed

definition weekdays_printable :: "weekday_range \<Rightarrow> bool" where
  "weekdays_printable w = (case w of WeekdayList ds \<Rightarrow> length ds \<ge> 2 | _ \<Rightarrow> True)"

lemma parse_show_weekdays:
  assumes "show_weekdays w \<noteq> []"
  shows "parse_weekday_range (show_weekdays w) = Ok w \<longleftrightarrow> weekdays_printable w"
proof (cases w)
  case (Single d)
  then show ?thesis using weekday_name_chars [of _ d] weekday_from_name [of d]
    by (auto simp: parse_weekday_range_def weekdays_printable_def)
next
  case (WeekdayRange a b)
  have "split_all (CHR ''-'') (weekday_name a @ CHR ''-'' # weekday_name b) = [weekday_name a, weekday_name b]"
    using weekday_name_chars by (metis insertCI split_all_piece split_all_whole)
  then show ?thesis using WeekdayRange by (simp add: parse_weekday_range_def weekday_from_name weekdays_printable_def)
next
  case (WeekdayList ds)
  show ?thesis
  proof (cases "length ds \<ge> 2")
    case True
    have "trim (weekday_name d) = weekday_name d" for d by (rule trim_id) (use weekday_name_chars in blast)
    then have each: "(case weekday_from_str (trim (weekday_name d)) of Some d \<Rightarrow> Ok d | None \<Rightarrow> Err ''Invalid weekday in list'') = Ok d" for d
      by (simp add: weekday_from_name)
    have split: "split_all (CHR '','') (join '','' (map weekday_name ds)) = map weekday_name ds"
      using True weekday_name_chars by (intro split_join) force+
    have comma: "CHR '','' \<in> set (join '','' (map weekday_name ds))"
      using True by (cases ds rule: remdups_adj.cases) auto
    have dash: "CHR ''-'' \<notin> set (join '','' (map weekday_name ds))"
      using join_chars [of "CHR ''-''" "'',''" "map weekday_name ds"] weekday_name_chars by fastforce
    show ?thesis using True split comma dash WeekdayList each
      by (simp add: parse_weekday_range_def weekdays_printable_def collect_results_Ok_iff comp_def)
  next
    case False
    then obtain d where "ds = [d]" using assms WeekdayList by (cases ds rule: remdups_adj.cases) auto
    then show ?thesis using WeekdayList weekday_name_chars [of _ d] weekday_from_name [of d]
      by (auto simp: parse_weekday_range_def weekdays_printable_def)
  qed
qed

lemma show_weekdays_Nil: "show_weekdays w = [] \<Longrightarrow> \<not> weekdays_printable w"
proof (cases w)
  case (WeekdayList ds)
  assume "show_weekdays w = []"
  moreover have "weekday_name d \<noteq> []" for d by (cases d) auto
  ultimately show ?thesis using WeekdayList by (cases ds rule: remdups_adj.cases) (auto simp: weekdays_printable_def)
qed (use weekday_name.simps weekday.exhaust in \<open>metis append_is_Nil_conv list.distinct(1) show_weekdays.simps(1,2)\<close>)+

text \<open>
  A rule survives printing when it is open, and has no weekdays, or no times and weekdays that print
  as they parse: nothing separates printed weekdays from printed times.
\<close>

definition printable :: "opening_rule \<Rightarrow> bool" where
  "printable r \<longleftrightarrow> \<not> closed r \<and> (case weekdays r of None \<Rightarrow> True | Some w \<Rightarrow> times r = [] \<and> weekdays_printable w)"

lemma lower_id: "lower c = d \<Longrightarrow> d \<in> {CHR ''/'', CHR '':''} \<Longrightarrow> c = d"
proof -
  assume l: "lower c = d" "d \<in> {CHR ''/'', CHR '':''}"
  have "\<not> (65 \<le> (of_char c :: nat) \<and> of_char c \<le> (90::nat))"
  proof
    assume n: "65 \<le> (of_char c :: nat) \<and> of_char c \<le> (90::nat)"
    then have "lower c = char_of (of_char c + 32 :: nat)" by (simp add: lower_def Let_def)
    then have "(of_char (lower c) :: nat) = of_char c + 32" using n by simp
    then show False using l n by auto
  qed
  then show ?thesis using l(1) by (auto simp: lower_def Let_def split: if_splits)
qed

lemma show_rule_not_closed_word:
  assumes "rule_typed r"
  shows "\<not> eq_ignore_ascii_case (show_rule r) ''closed''" "\<not> eq_ignore_ascii_case (show_rule r) ''off''"
proof -
  have cases: "show_rule r = [] \<or> CHR '':'' \<in> set (show_rule r) \<or> (\<exists>d rest. show_rule r = weekday_name d @ rest)"
  proof (cases "times r")
    case Nil
    then show ?thesis
    proof (cases "weekdays r")
      case (Some w)
      have head: "\<exists>rest. join sep (map weekday_name (d # ds)) = weekday_name d @ rest" for sep d ds by (cases ds) auto
      from Some Nil have rule: "show_rule r = show_weekdays w" by (simp add: show_rule_def)
      show ?thesis
      proof (cases w)
        case (WeekdayList ds)
        show ?thesis
        proof (cases ds)
          case (Cons d ds')
          then show ?thesis using rule WeekdayList head [of "'',''" d ds'] by (metis show_weekdays.simps(3))
        qed (simp add: rule WeekdayList)
      qed (use rule in \<open>auto intro: exI [of _ "[]"]\<close>)
    qed (simp add: show_rule_def)
  next
    case (Cons t ts)
    then have "CHR '':'' \<in> set (join '','' (map show_range (times r)))"
      by (cases ts) (simp_all add: show_range_def show_time_def)
    then show ?thesis by (simp add: show_rule_def)
  qed
  have no_word: "\<not> eq_ignore_ascii_case (show_rule r) word"
    if "CHR '':'' \<notin> set (to_lowercase word)" "word \<noteq> []" "\<And>d. lower (hd (weekday_name d)) \<noteq> hd (to_lowercase word)" for word
    using cases
  proof (elim disjE exE)
    assume "CHR '':'' \<in> set (show_rule r)"
    then have "lower (CHR '':'') \<in> set (to_lowercase (show_rule r))" by (simp add: to_lowercase_def)
    moreover have "lower (CHR '':'') = CHR '':''" by code_simp
    ultimately show ?thesis using that(1) by (auto simp: eq_ignore_ascii_case_def)
  next
    fix d rest
    assume "show_rule r = weekday_name d @ rest"
    moreover have "weekday_name d \<noteq> []" by (cases d) auto
    ultimately have "hd (to_lowercase (show_rule r)) = lower (hd (weekday_name d))"
      by (simp add: to_lowercase_def list.map_sel(1))
    then show ?thesis using that(3) [of d] by (auto simp: eq_ignore_ascii_case_def)
  qed (use that(2) in \<open>simp add: eq_ignore_ascii_case_def to_lowercase_def\<close>)
  have letters: "list_all (\<lambda>d. lower (hd (weekday_name d)) \<noteq> CHR ''c'' \<and> lower (hd (weekday_name d)) \<noteq> CHR ''o'')
      [Monday, Tuesday, Wednesday, Thursday, Friday, Saturday, Sunday]" by code_simp
  have heads: "lower (hd (weekday_name d)) \<noteq> CHR ''c''" "lower (hd (weekday_name d)) \<noteq> CHR ''o''" for d
    using letters by (cases d; simp)+
  have words: "to_lowercase ''closed'' = ''closed''" "to_lowercase ''off'' = ''off''" by code_simp+
  show "\<not> eq_ignore_ascii_case (show_rule r) ''closed''" "\<not> eq_ignore_ascii_case (show_rule r) ''off''"
    using heads by (intro no_word; simp add: words)+
qed

lemma show_rule_trim: "trim (show_rule r) = show_rule r"
  by (rule trim_id) (use show_rule_chars in blast)

lemma ranges_colon: "ts \<noteq> [] \<Longrightarrow> CHR '':'' \<in> set (join '','' (map show_range ts)) \<and> length (join '','' (map show_range ts)) \<ge> 3"
proof -
  assume "ts \<noteq> []"
  then obtain t us where ts: "ts = t # us" by (cases ts) auto
  have "length (show_range t) \<ge> 3" by (simp add: show_range_def show_time_def)
  moreover have "CHR '':'' \<in> set (show_range t)" by (simp add: show_range_def show_time_def)
  ultimately show ?thesis by (cases us) (auto simp: ts)
qed

lemma parse_show_rule:
  assumes "rule_typed r"
  shows "parse_rule (show_rule r) = Ok r \<longleftrightarrow> printable r"
proof (cases "show_rule r = []")
  case True
  have no_times: "times r = []" using ranges_colon [of "times r"] True by (auto simp: show_rule_def)
  have "\<not> printable r"
  proof (cases "weekdays r")
    case None
    then show ?thesis using assms no_times by (auto simp: rule_typed_def printable_def split: if_splits)
  next
    case (Some w)
    then show ?thesis using True show_weekdays_Nil [of w] by (simp add: show_rule_def printable_def)
  qed
  moreover have "parse_rule [] = Err ''Empty rule''" by code_simp
  ultimately show ?thesis by (simp add: True)
next
  case nonempty: False
  have ws: "split_whitespace (show_rule r) = [show_rule r]"
    using nonempty show_rule_chars by (intro split_whitespace_whole) auto
  note step = parse_rule_def show_rule_trim Let_def show_rule_not_closed_word [OF assms] ws nonempty
  show ?thesis
  proof (cases "times r = []")
    case True
    have open_rule: "\<not> closed r" using True nonempty assms by (auto simp: rule_typed_def show_rule_def)
    obtain w where w: "weekdays r = Some w" using True nonempty by (auto simp: show_rule_def split: option.splits)
    have shown: "show_rule r = show_weekdays w" by (simp add: show_rule_def w True)
    have no_time: "\<not> looks_like_time (show_rule r)" using show_weekdays_chars [of "CHR '':''" w] by (auto simp: looks_like_time_def shown)
    have "parse_rule (show_rule r) = (case parse_weekday_range (show_rule r) of
        Ok w' \<Rightarrow> Ok \<lparr>weekdays = Some w', times = [], closed = False\<rparr> | _ \<Rightarrow> Err ''No applicable values parsed'')"
      using no_time by (cases "parse_weekday_range (show_rule r)") (simp_all add: step)
    then show ?thesis using True w open_rule parse_show_weekdays [of w] nonempty
      by (cases "parse_weekday_range (show_rule r)") (auto simp: printable_def shown)
  next
    case False
    have time: "looks_like_time (show_rule r)" using ranges_colon [OF False] text_len_ge [of "show_rule r"]
      by (auto simp: looks_like_time_def show_rule_def)
    have typed: "list_all range_typed (times r)" "\<not> closed r" using assms False by (auto simp: rule_typed_def split: if_splits)
    show ?thesis
    proof (cases "weekdays r")
      case None
      then have "parse_time_ranges (show_rule r) = Ok (times r)" using parse_show_ranges [OF False typed(1)] by (simp add: show_rule_def)
      then show ?thesis using None False typed(2) time by (simp add: step printable_def)
    next
      case (Some w)
      then show ?thesis using False time by (auto simp: step printable_def)
    qed
  qed
qed

lemma parse_show_hours:
  assumes "hours_typed oh"
  shows "parse_hours (show_hours oh) = Ok oh \<longleftrightarrow> list_all printable (rules oh)"
proof -
  have chars: "c \<noteq> CHR ''/'' \<and> \<not> is_space c" if "c \<in> set (show_hours oh)" for c
    using that join_chars [of c "'';''" "map show_rule (rules oh)"] show_rule_chars by (fastforce simp: show_hours_def is_space_def)
  have trimmed: "trim (show_hours oh) = show_hours oh" by (rule trim_id) (use chars in blast)
  have "\<not> eq_ignore_ascii_case (show_hours oh) ''24/7''"
  proof
    assume "eq_ignore_ascii_case (show_hours oh) ''24/7''"
    moreover have "to_lowercase ''24/7'' = ''24/7''" by code_simp
    ultimately have "CHR ''/'' \<in> lower ` set (show_hours oh)"
      by (metis eq_ignore_ascii_case_def insertCI list.set(2) list.set_map to_lowercase_def)
    then show False using lower_id chars by (metis imageE insertCI)
  qed
  moreover have "split_all (CHR '';'') (show_hours oh) = map show_rule (rules oh)"
    unfolding show_hours_def using assms show_rule_chars by (intro split_join) (force simp: hours_typed_def)+
  ultimately have "parse_hours (show_hours oh) = Ok oh \<longleftrightarrow> map (\<lambda>r. parse_rule (show_rule r)) (rules oh) = map Ok (rules oh)"
    using assms
    by (auto simp: parse_hours_def trimmed Let_def show_rule_trim comp_def collect_results_Ok_iff hours_typed_def split: if_splits)
  then show ?thesis using assms parse_show_rule by (auto simp: hours_typed_def list_all_iff)
qed

section \<open>Overnight ranges\<close>

text \<open>A time is in a range exactly when it is reached walking forward around the day from its start to its end.\<close>

lemma time_in_range_circular:
  assumes "minutes_of t < 1440" "minutes_of a < 1440" "minutes_of b < 1440"
  shows "time_in_range t a b \<longleftrightarrow>
    (int (minutes_of t) - int (minutes_of a)) mod 1440 \<le> (int (minutes_of b) - int (minutes_of a)) mod 1440"
proof -
  have wrap: "(int x - int y) mod 1440 = (if y \<le> x then int x - int y else int x - int y + 1440)"
    if "x < 1440" "y < 1440" for x y
  proof (cases "y \<le> x")
    case False
    then have "(int x - int y + 1440) mod 1440 = int x - int y + 1440" using that by (intro mod_pos_pos_trivial) auto
    then show ?thesis using False by simp
  qed (use that in simp)
  show ?thesis using assms by (simp add: time_in_range_def wrap)
qed

end
