(* ===== verification/Condition_Laws.thy ===== *)
theory Condition_Laws
  imports Conditions Opening_Laws
begin

text \<open>
  What the parser of conditions returns: always a condition, unless it panics on a comment or on a number; and never
  a user group, a purpose or a stay, because the parser of vehicle usage before them accepts any text
  as a load, except a malformed count of occupants.
\<close>

fun known_kind :: "condition_type \<Rightarrow> bool" where
  "known_kind (UserGroup x) = False"
| "known_kind (Purpose x) = False"
| "known_kind (StayDuration x) = False"
| "known_kind (RawCondition s) = (prefix ''occupants'' s \<and> first_operator (drop 9 s) \<noteq> None)"
| "known_kind (CombinedCondition a oper b) = (known_kind a \<and> known_kind b)"
| "known_kind (TimeDate td) = hours_typed (td_hours td)"
| "known_kind _ = True"

definition quote_char :: char where
  "quote_char = char_of (34 :: nat)"

lemma ok_or_cases [simp]: "ok_or e x = Ok y \<longleftrightarrow> x = Some y" "ok_or e x = Err e' \<longleftrightarrow> x = None \<and> e' = e" "ok_or e x \<noteq> Panic"
  by (auto simp: ok_or_def split: option.splits)

lemma ok_or_no_panic [no_panic]: "ok_or e x \<noteq> Panic"
  by simp

lemma or_else_Err_iff [simp]: "or_else r q f = Err e \<longleftrightarrow> (\<exists>d. r = Err d) \<and> q = Err e"
  by (cases r) auto

lemma or_else_Panic_iff [simp]: "or_else r q f = Panic \<longleftrightarrow> r = Panic \<or> (\<exists>d. r = Err d) \<and> q = Panic"
  by (cases r) auto

lemma or_else_Ok_iff: "or_else r q f = Ok y \<longleftrightarrow> (\<exists>x. r = Ok x \<and> y = f x) \<or> (\<exists>d. r = Err d) \<and> q = Ok y"
  by (cases r) auto

lemma parse_time_date_typed: "parse_time_date s = Ok td \<Longrightarrow> hours_typed (td_hours td)"
  by (auto simp: parse_time_date_def Let_def dest: parse_hours_typed split: if_splits option.splits prod.splits)

lemma parse_time_date_panic: "parse_time_date s = Panic \<Longrightarrow> quote_char \<in> set s"
proof (rule ccontr)
  assume panic: "parse_time_date s = Panic" and "quote_char \<notin> set s"
  then have "position (\<lambda>c. c = char_of (34 :: nat)) s = None" by (auto simp: position_None_iff quote_char_def)
  then show False using panic by (simp add: parse_time_date_def no_panic)
qed

text \<open>A numeric character that takes two bytes: a superscript or a fraction.\<close>

definition wide_numeric :: "char \<Rightarrow> bool" where
  "wide_numeric c \<longleftrightarrow> is_numeric c \<and> char_bytes c = 2"

lemma set_trim: "set (trim s) \<subseteq> set s"
  by (auto simp: trim_def dest!: set_dropWhileD)

lemma parse_value_panic: "parse_value_with_unit s = Panic \<Longrightarrow> \<exists>c \<in> set s. wide_numeric c"
proof (rule ccontr)
  let ?number = "\<lambda>c. is_numeric c \<or> c = CHR ''.''"
  let ?n = "length (takeWhile ?number s)"
  assume panic: "parse_value_with_unit s = Panic" and none: "\<not> (\<exists>c \<in> set s. wide_numeric c)"
  have "char_bytes c = 1" if "c \<in> set (takeWhile ?number s)" for c
    using set_takeWhileD [OF that] none by (auto simp: wide_numeric_def char_bytes_def split: if_splits)
  then have "split_bytes ?n s = Some (take ?n s, drop ?n s)"
    by (intro split_bytes_ascii) (simp_all add: length_takeWhile_le flip: takeWhile_eq_take)
  then show False using panic by (auto simp: parse_value_with_unit_def Let_def split: option.splits if_splits)
qed

lemma parse_vehicle_property_panic: "parse_vehicle_property s = Panic \<Longrightarrow> \<exists>c \<in> set s. wide_numeric c"
proof -
  assume panic: "parse_vehicle_property s = Panic"
  obtain rest where "parse_value_with_unit (trim rest) = Panic" "set rest \<subseteq> set s"
    using panic by (auto simp: parse_vehicle_property_def no_panic split: option.splits dest: set_drop_subset [THEN subsetD])
      (meson set_drop_subset)
  then show ?thesis using parse_value_panic [of "trim rest"] set_trim [of rest] by blast
qed

lemma parse_vehicle_usage_no_panic [no_panic]: "parse_vehicle_usage s \<noteq> Panic"
  by (auto simp: parse_vehicle_usage_def no_panic split: option.splits)

lemma parse_stay_duration_no_panic [no_panic]: "parse_stay_duration s \<noteq> Panic"
  by (auto simp: parse_stay_duration_def parse_duration_def Let_def no_panic split: option.splits)

text \<open>The only text that is not a vehicle usage.\<close>

lemma parse_vehicle_usage_Err: "parse_vehicle_usage s = Err e \<Longrightarrow> prefix ''occupants'' s \<and> first_operator (drop 9 s) \<noteq> None"
  by (auto simp: parse_vehicle_usage_def split: option.splits if_splits)

lemma occupants_only:
  assumes "prefix ''occupants'' s"
  shows "parse_user_group s = Err NotUserGroup" "parse_purpose s = Err NotPurpose" "parse_stay_duration s = Err NotStayDuration"
proof -
  obtain rest where s: "s = ''occupants'' @ rest" using assms by (auto simp: prefix_def)
  show "parse_user_group s = Err NotUserGroup"
    by (auto simp: parse_user_group_def s named_def find_None_iff)
  show "parse_purpose s = Err NotPurpose"
    by (auto simp: parse_purpose_def s named_def find_None_iff)
  show "parse_stay_duration s = Err NotStayDuration"
    by (simp add: parse_stay_duration_def s)
qed

lemma parse_specific_kinds: "parse_specific s = Ok c \<Longrightarrow> known_kind c"
  using parse_vehicle_usage_Err [of s] occupants_only [of s] parse_time_date_typed [of s]
  by (auto simp: parse_specific_def or_else_Ok_iff)

lemma parse_specific_no_error: "parse_specific s \<noteq> Err e"
  by (simp add: parse_specific_def)

text \<open>The characters a panic needs: a double quote or a numeric character of two bytes.\<close>

definition risky :: "string \<Rightarrow> bool" where
  "risky s \<longleftrightarrow> quote_char \<in> set s \<or> (\<exists>c \<in> set s. wide_numeric c)"

lemma risky_mono: "risky s \<Longrightarrow> set s \<subseteq> set t \<Longrightarrow> risky t"
  by (auto simp: risky_def)

lemma parse_specific_panic: "parse_specific s = Panic \<Longrightarrow> risky s"
  by (auto simp: parse_specific_def parse_season_def parse_road_condition_def parse_user_group_def parse_purpose_def
      risky_def no_panic dest: parse_time_date_panic parse_vehicle_property_panic)

lemma set_clean: "set (clean_parentheses s) \<subseteq> set s"
  by (auto simp: clean_parentheses_def dest: in_set_takeD in_set_dropD)

lemma combine_cases:
  assumes "case a of Ok c \<Rightarrow> known_kind c | Err e \<Rightarrow> False | Panic \<Rightarrow> P"
    and "case b of Ok c \<Rightarrow> known_kind c | Err e \<Rightarrow> False | Panic \<Rightarrow> Q" and "P \<or> Q \<Longrightarrow> R"
  shows "case and_then a (\<lambda>l. and_then b (\<lambda>r. Ok (CombinedCondition l oper r))) of
    Ok c \<Rightarrow> known_kind c | Err e \<Rightarrow> True | Panic \<Rightarrow> R"
  using assms by (cases a; cases b; simp)

lemma condition_cases:
  shows "case parse_condition s of Ok c \<Rightarrow> known_kind c | Err e \<Rightarrow> False | Panic \<Rightarrow> risky s"
    and "case parse_combined s of Ok c \<Rightarrow> known_kind c | Err e \<Rightarrow> True | Panic \<Rightarrow> risky s"
proof (induction s and s rule: parse_condition_parse_combined.induct)
  case (1 s)
  let ?c = "clean_parentheses (trim s)"
  have "set ?c \<subseteq> set s" using set_clean set_trim by blast
  then have "risky ?c \<Longrightarrow> risky s" by (rule risky_mono [rotated])
  then show ?case using 1 [OF refl] parse_specific_kinds [of ?c] parse_specific_no_error [of ?c] parse_specific_panic [of ?c]
    by (subst parse_condition.simps)
      (cases "parse_combined ?c"; cases "parse_specific ?c"; auto simp: Let_def)
next
  case (2 s)
  have sub: "risky (trim (take p s)) \<or> risky (trim (drop q s)) \<Longrightarrow> risky s" for p q
    using risky_mono [of _ s] set_trim [of "take p s"] set_trim [of "drop q s"] set_take_subset [of p s] set_drop_subset [of q s] by blast
  show ?case
  proof (cases "find_sub '' AND '' (to_uppercase s)")
    case (Some p)
    show ?thesis using combine_cases [OF 2(3,4) [OF Some] sub] Some
      by (subst parse_combined.simps) simp
  next
    case None
    show ?thesis
    proof (cases "find_sub '' OR '' (to_uppercase s)")
      case (Some p)
      show ?thesis using combine_cases [OF 2(1,2) [OF None Some] sub] Some None
        by (subst parse_combined.simps) simp
    qed (use None in \<open>subst parse_combined.simps, simp\<close>)
  qed
qed

text \<open>Parentheses around both sides are taken for one pair around the whole.\<close>

lemma parentheses_cross:
  "parse_condition ''(winter) AND (snow)'' =
    Ok (CombinedCondition (VehicleUsage (Load ''winter)'')) LogicalAnd (VehicleUsage (Load ''(snow'')))"
  by code_simp

text \<open>One double quote, without its pair, is a panic.\<close>

lemma single_quote_panics: "parse_condition (''Mo 10:00 '' @ [quote_char]) = Panic"
  by code_simp

text \<open>A superscript after the digits makes the end of the number a position inside a character.\<close>

lemma superscript_panics: "parse_condition (''weight<5'' @ [char_of (178 :: nat)]) = Panic"
  by code_simp

end
