(* ===== verification/Osm_Metadata.thy ===== *)
theory Osm_Metadata
  imports Speed_Limits Condition_Laws
begin

text \<open>
  Metadata of a way and the configuration of a trip (\<open>osm/mod.rs\<close>, \<open>primitive\<close>): what is picked from the
  tags, how a trip context becomes a configuration, and whether a way is accessible. Lengths and loads
  of a vehicle are reals. Picking panics where reading a speed limit does.
\<close>

section \<open>Configurations\<close>

record vehicle_costing =
  vehicle_height :: real
  vehicle_width :: real

record truck_costing =
  truck_vehicle :: vehicle_costing
  truck_length :: real
  axle_load :: real
  axle_count :: nat
  hazmat_load :: bool

datatype transport = Car "vehicle_costing option" | BusTransport "vehicle_costing option" | Truck "truck_costing option" | Unspecified

record trip_configuration =
  travel_mode :: transport_mode
  vehicle_properties :: "(vehicle_property \<times> real) list option"
  travel_time :: "time_of_week option"
  allow_private_roads :: bool

definition trip_configuration_default :: trip_configuration where
  "trip_configuration_default =
     \<lparr>travel_mode = AllModes, vehicle_properties = None, travel_time = None, allow_private_roads = False\<rparr>"

definition runtime_of :: "transport option \<Rightarrow> trip_configuration" where
  "runtime_of ctx =
     (let default = trip_configuration_default
      in case ctx of
           None \<Rightarrow> default
         | Some t \<Rightarrow>
             (case t of
                Car (Some car) \<Rightarrow>
                  default\<lparr>travel_mode := MotorVehicle,
                    vehicle_properties := Some [(Height, vehicle_height car), (Weight, vehicle_width car)]\<rparr>
              | Car None \<Rightarrow> default\<lparr>travel_mode := MotorVehicle\<rparr>
              | BusTransport (Some bus) \<Rightarrow>
                  default\<lparr>travel_mode := Bus,
                    vehicle_properties := Some [(Height, vehicle_height bus), (Weight, vehicle_width bus)]\<rparr>
              | BusTransport None \<Rightarrow> default\<lparr>travel_mode := Bus\<rparr>
              | Truck (Some truck) \<Rightarrow>
                  default\<lparr>travel_mode := Hgv,
                    vehicle_properties := Some [(Height, vehicle_height (truck_vehicle truck)),
                      (Weight, vehicle_width (truck_vehicle truck)), (Axleload, axle_load truck), (Length, truck_length truck)]\<rparr>
              | Truck None \<Rightarrow> default\<lparr>travel_mode := Hgv\<rparr>
              | Unspecified \<Rightarrow> default))"

section \<open>Metadata\<close>

record edge_metadata =
  md_lane_count :: "nat option"
  md_speed_limit :: "speed_limit_entry list option"
  md_access :: "access_tag list"
  md_road_class :: "road_class option"

definition parse_lane_count :: "string \<Rightarrow> nat option" where
  "parse_lane_count = parse_nonzero 256"

definition pick :: "(speed_limit_entry \<Rightarrow> 'k::linorder) \<Rightarrow> tags \<Rightarrow> (edge_metadata, unit) outcome" where
  "pick debug raw =
     and_then (lane_outcome (parse_speed_limits debug raw)) (\<lambda>speed.
     Ok \<lparr>md_lane_count = tags_as parse_lane_count raw ''lanes'', md_speed_limit = speed,
         md_access = access_of_tags raw, md_road_class = tags_as road_class_from_str raw ''highway''\<rparr>)"

definition direction_matches :: "direction \<Rightarrow> access_tag \<Rightarrow> bool" where
  "direction_matches d t =
     (case restricted_direction (tag_restriction t) of
        Forward \<Rightarrow> d = Outgoing
      | Backward \<Rightarrow> d = Incoming
      | BothWays \<Rightarrow> True
      | _ \<Rightarrow> False)"

definition permits :: "trip_configuration \<Rightarrow> access_value \<Rightarrow> bool" where
  "permits conditions a = (case a of Yes \<Rightarrow> True | Private \<Rightarrow> allow_private_roads conditions | _ \<Rightarrow> False)"

definition accessible :: "edge_metadata \<Rightarrow> trip_configuration \<Rightarrow> direction \<Rightarrow> bool" where
  "accessible md conditions d =
     (let applicable = filter (direction_matches d)
            (filter (\<lambda>t. is_restricted_by (travel_mode conditions) (restricted_mode (tag_restriction t))) (md_access md))
      in case max_by_key (\<lambda>t. specificity_level (restricted_mode (tag_restriction t))) applicable of
           Some t \<Rightarrow> permits conditions (tag_access t)
         | None \<Rightarrow> True)"

section \<open>Access is inherited\<close>

text \<open>
  The rule of the tagging scheme: the mode of travel and then its ancestors, from the nearest to the
  most general, are asked for a tag of the direction; the first that has one decides.
\<close>

definition tags_of_mode :: "direction \<Rightarrow> access_tag list \<Rightarrow> transport_mode \<Rightarrow> access_tag list" where
  "tags_of_mode d ts m = filter (\<lambda>t. restricted_mode (tag_restriction t) = m \<and> direction_matches d t) ts"

definition inherited_access :: "access_tag list \<Rightarrow> trip_configuration \<Rightarrow> direction \<Rightarrow> bool" where
  "inherited_access ts conditions d =
     (case find (\<lambda>m. tags_of_mode d ts m \<noteq> []) (rev (hierarchy_chain (travel_mode conditions))) of
        None \<Rightarrow> True
      | Some m \<Rightarrow> permits conditions (tag_access (last (tags_of_mode d ts m))))"

lemma chain_specificity:
  assumes "i < length (hierarchy_chain m)"
  shows "specificity_level (hierarchy_chain m ! i) = Suc i"
proof -
  let ?c = "hierarchy_chain m" and ?r = "hierarchy_chain m ! i"
  let ?k = "length (hierarchy_chain ?r)"
  have pre: "prefix (hierarchy_chain ?r) ?c" using assms by (intro chain_prefix) simp
  have k: "0 < ?k" "?k \<le> length ?c" using chain_ends(1) [of ?r] prefix_length_le [OF pre] by auto
  have "hierarchy_chain ?r = take ?k ?c" using pre unfolding prefix_def by (metis append_eq_conv_conj)
  then have "?r = ?c ! (?k - 1)"
    using chain_ends(1,2) [of ?r] k by (metis diff_less last_conv_nth less_numeral_extra(1) nth_take)
  then have "i = ?k - 1" using chain_ends(3) [of m] assms k by (simp add: nth_eq_iff_index_eq)
  then show ?thesis using k(1) unfolding specificity_level_def by linarith
qed

lemma find_most_specific:
  assumes "r \<in> set (hierarchy_chain m)" "P r"
    and "\<And>s. s \<in> set (hierarchy_chain m) \<Longrightarrow> P s \<Longrightarrow> specificity_level s \<le> specificity_level r"
  shows "find P (rev (hierarchy_chain m)) = Some r"
proof -
  let ?c = "hierarchy_chain m"
  obtain i where i: "i < length ?c" "r = ?c ! i" using assms(1) by (auto simp: in_set_conv_nth)
  have "\<not> P (rev ?c ! j)" if "j < length ?c - Suc i" for j
  proof
    assume "P (rev ?c ! j)"
    moreover have "rev ?c ! j = ?c ! (length ?c - Suc j)" using that by (simp add: rev_nth)
    ultimately have "specificity_level (?c ! (length ?c - Suc j)) \<le> specificity_level r"
      using that by (intro assms(3)) auto
    then show False using that i chain_specificity [of "length ?c - Suc j" m] chain_specificity [OF i(1)] by simp
  qed
  moreover have "rev ?c ! (length ?c - Suc i) = r" using i by (simp add: rev_nth)
  ultimately show ?thesis using i assms(2) by (auto simp: find_Some_iff intro!: exI [of _ "length ?c - Suc i"])
qed

lemma accessible_inherited: "accessible md conditions d \<longleftrightarrow> inherited_access (md_access md) conditions d"
proof -
  let ?mode = "\<lambda>t. restricted_mode (tag_restriction t)" and ?chain = "hierarchy_chain (travel_mode conditions)"
  let ?key = "\<lambda>t. specificity_level (?mode t)" and ?tags = "tags_of_mode d (md_access md)"
  define as where "as = filter (direction_matches d)
    (filter (\<lambda>t. is_restricted_by (travel_mode conditions) (?mode t)) (md_access md))"
  have code: "accessible md conditions d = (case max_by_key ?key as of Some t \<Rightarrow> permits conditions (tag_access t) | None \<Rightarrow> True)"
    by (simp only: accessible_def Let_def as_def)
  have in_chain: "?mode t \<in> set ?chain" if "t \<in> set as" for t using that by (simp add: as_def restricted_iff_ancestor)
  have of_mode: "?tags m = filter (\<lambda>t. ?mode t = m) as" if "m \<in> set ?chain" for m
    using that by (auto simp: tags_of_mode_def as_def restricted_iff_ancestor intro: filter_cong)
  show ?thesis
  proof (cases "as = []")
    case True
    have "find (\<lambda>m. ?tags m \<noteq> []) (rev ?chain) = None" using of_mode True by (simp add: find_None_iff)
    then show ?thesis using True by (simp add: code inherited_access_def)
  next
    case False
    obtain bs y cs where y: "max_by_key ?key as = Some y" "as = bs @ y # cs"
        "\<forall>t \<in> set bs. ?key t \<le> ?key y" "\<forall>t \<in> set cs. ?key t < ?key y"
      by (rule max_by_key_last [OF False])
    have mine: "?mode y \<in> set ?chain" using in_chain y(2) by simp
    have "filter (\<lambda>t. ?mode t = ?mode y) cs = []" using y(4) by (auto simp: filter_empty_conv)
    then have last: "last (?tags (?mode y)) = y" "?tags (?mode y) \<noteq> []" by (simp_all add: of_mode [OF mine] y(2))
    have "find (\<lambda>m. ?tags m \<noteq> []) (rev ?chain) = Some (?mode y)"
    proof (rule find_most_specific [where P = "\<lambda>m. ?tags m \<noteq> []", OF mine last(2)])
      fix s
      assume "s \<in> set ?chain" "?tags s \<noteq> []"
      then obtain t where "t \<in> set as" "?mode t = s" using of_mode by (auto simp: filter_empty_conv)
      then show "specificity_level s \<le> ?key y" using y(2-4) by fastforce
    qed
    then show ?thesis using y(1) last(1) by (simp add: code inherited_access_def)
  qed
qed

text \<open>Among several tags of the deciding mode the value that comes last in the declared order decides.\<close>

lemma deciding_value_greatest:
  assumes "t \<in> set (tags_of_mode d (access_of_tags ts) m)"
  shows "access_rank (tag_access t) \<le> access_rank (tag_access (last (tags_of_mode d (access_of_tags ts) m)))"
proof -
  let ?key = "access_rank \<circ> tag_access" and ?as = "tags_of_mode d (access_of_tags ts) m"
  have "sorted (map ?key (access_of_tags ts))" by (simp add: access_of_tags_def)
  then have sorted: "sorted (map ?key ?as)" unfolding tags_of_mode_def by (rule sorted_filter)
  obtain i where i: "i < length ?as" "t = ?as ! i" using assms by (auto simp: in_set_conv_nth)
  have "?key (?as ! i) \<le> ?key (?as ! (length ?as - 1))"
    using sorted_nth_mono [OF sorted, of i "length ?as - 1"] i by simp
  moreover have "last ?as = ?as ! (length ?as - 1)" using i by (intro last_conv_nth) auto
  ultimately show ?thesis using i by simp
qed

end
