(* ===== verification/Osm_Elements.thy ===== *)
theory Osm_Elements
  imports Osm_Metadata Shard_Cache
begin

unbundle bit_operations_syntax

text \<open>
  Elements of a block (\<open>osm/element\<close>): identifiers, delta-coded references, tags from the string table,
  and the processed nodes and ways. The protobuf messages are records of the fields the code reads.
  Identifiers are signed 64-bit numbers that wrap, as in a release build, which also has no variant in
  an identifier. Coordinates are reals.
\<close>

section \<open>Messages\<close>

record raw_way =
  way_ident :: int
  way_keys :: "nat list"
  way_vals :: "nat list"
  way_refs :: "int list"

record raw_node =
  raw_ident :: int
  raw_lat :: int
  raw_lon :: int

record dense_nodes =
  dense_ids :: "int list"
  dense_lats :: "int list"
  dense_lons :: "int list"

record raw_relation =
  relation_ident :: int
  relation_keys :: "nat list"
  relation_vals :: "nat list"
  relation_roles :: "int list"
  relation_memids :: "int list"
  relation_types :: "nat list"

record primitive_group =
  group_ways :: "raw_way list"
  group_nodes :: "raw_node list"
  group_relations :: "raw_relation list"
  group_dense :: "dense_nodes option"

record primitive_block =
  stringtable :: "bytes list"
  primitive_groups :: "primitive_group list"
  granularity :: "int option"

section \<open>Identifiers\<close>

type_synonym entry_id = int

definition OSM_NULL_SENTINEL :: int where
  "OSM_NULL_SENTINEL = - 1"

definition entry_null :: entry_id where
  "entry_null = OSM_NULL_SENTINEL"

definition entry_is_null :: "entry_id \<Rightarrow> bool" where
  "entry_is_null i \<longleftrightarrow> i = OSM_NULL_SENTINEL"

definition i64_add :: "int \<Rightarrow> int \<Rightarrow> int" where
  "i64_add a b = (a + b + 9223372036854775808) mod 18446744073709551616 - 9223372036854775808"

definition i64_range :: "int \<Rightarrow> bool" where
  "i64_range a \<longleftrightarrow> - 9223372036854775808 \<le> a \<and> a < 9223372036854775808"

section \<open>Strings of a block\<close>

text \<open>\<open>str::from_utf8\<close>: the well-formed byte sequences of Unicode.\<close>

definition byte_in :: "nat \<Rightarrow> nat \<Rightarrow> 8 word \<Rightarrow> bool" where
  "byte_in lo hi b \<longleftrightarrow> lo \<le> unat b \<and> unat b \<le> hi"

fun valid_utf8 :: "bytes \<Rightarrow> bool" where
  "valid_utf8 [] = True"
| "valid_utf8 (a # bs) =
     (if byte_in 0 0x7F a then valid_utf8 bs
      else (case bs of
              [] \<Rightarrow> False
            | b # cs \<Rightarrow>
                if byte_in 0xC2 0xDF a then byte_in 0x80 0xBF b \<and> valid_utf8 cs
                else (case cs of
                        [] \<Rightarrow> False
                      | c # ds \<Rightarrow>
                          if byte_in 0xE0 0xEF a then
                            (if byte_in 0xE0 0xE0 a then byte_in 0xA0 0xBF b
                             else if byte_in 0xED 0xED a then byte_in 0x80 0x9F b else byte_in 0x80 0xBF b)
                            \<and> byte_in 0x80 0xBF c \<and> valid_utf8 ds
                          else (case ds of
                                  [] \<Rightarrow> False
                                | d # es \<Rightarrow>
                                    byte_in 0xF0 0xF4 a
                                    \<and> (if byte_in 0xF0 0xF0 a then byte_in 0x90 0xBF b
                                       else if byte_in 0xF4 0xF4 a then byte_in 0x80 0x8F b else byte_in 0x80 0xBF b)
                                    \<and> byte_in 0x80 0xBF c \<and> byte_in 0x80 0xBF d \<and> valid_utf8 es))))"

definition text_of :: "bytes \<Rightarrow> string" where
  "text_of bs = map (\<lambda>b. char_of (unat b)) bs"

definition recover_str :: "nat \<Rightarrow> primitive_block \<Rightarrow> string" where
  "recover_str k block =
     (if k < length (stringtable block) \<and> valid_utf8 (stringtable block ! k) then text_of (stringtable block ! k) else [])"

text \<open>The hash map of the collected pairs, listed in the order in which its keys iterate.\<close>

definition tags_from_block :: "(string set \<Rightarrow> string list) \<Rightarrow> (nat \<times> nat) list \<Rightarrow> primitive_block \<Rightarrow> tags" where
  "tags_from_block order indices block =
     (let m = map_of (rev (map (\<lambda>(k, v). (recover_str k block, recover_str v block)) indices))
      in map (\<lambda>k. (k, the (m k))) (order (dom m)))"

section \<open>References\<close>

record reference =
  ref_id :: entry_id
  ref_role :: "string option"

definition references :: "(int \<times> int) list \<Rightarrow> primitive_block \<Rightarrow> reference list" where
  "references indices block =
     fold (\<lambda>(role, index) prior.
         prior @ [\<lparr>ref_id = i64_add index (if prior = [] then 0 else ref_id (last prior)),
                   ref_role = (if role = - 1 then None else Some (recover_str (nat (role mod 2 ^ 64)) block))\<rparr>])
       indices []"

definition way_indices :: "raw_way \<Rightarrow> (int \<times> int) list" where
  "way_indices w = map (Pair (- 1)) (way_refs w)"

definition relation_indices :: "raw_relation \<Rightarrow> (int \<times> int) list" where
  "relation_indices r = map fst (zip (zip (relation_roles r) (relation_memids r)) (relation_types r))"

record way =
  way_id :: entry_id
  way_references :: "reference list"
  way_tags :: tags

definition way_from_raw :: "(string set \<Rightarrow> string list) \<Rightarrow> raw_way \<Rightarrow> primitive_block \<Rightarrow> way" where
  "way_from_raw order w block =
     \<lparr>way_id = way_ident w, way_references = references (way_indices w) block,
      way_tags = tags_from_block order (zip (way_keys w) (way_vals w)) block\<rparr>"

record relation =
  relation_id :: int
  relation_tags :: tags
  relation_references :: "reference list"

definition relation_from_raw :: "(string set \<Rightarrow> string list) \<Rightarrow> raw_relation \<Rightarrow> primitive_block \<Rightarrow> relation" where
  "relation_from_raw order r block =
     \<lparr>relation_id = relation_ident r, relation_tags = tags_from_block order (zip (relation_keys r) (relation_vals r)) block,
      relation_references = references (relation_indices r) block\<rparr>"

section \<open>Nodes\<close>

definition dense_deltas :: "dense_nodes \<Rightarrow> ((real \<times> real) \<times> int) list" where
  "dense_deltas d = zip (zip (map real_of_int (dense_lons d)) (map real_of_int (dense_lats d))) (dense_ids d)"

fun dense_step :: "real \<Rightarrow> (real \<times> real) \<times> int \<Rightarrow> (entry_id, point) node list \<Rightarrow> (entry_id, point) node list" where
  "dense_step scaling_factor ((lng, lat), i) acc =
     (let new_node =
        (if acc = [] then node_new (lng * scaling_factor, lat * scaling_factor) i
         else
           let prior_node = last acc
           in node_new (fst (node_position prior_node) + lng * scaling_factor,
                        snd (node_position prior_node) + lat * scaling_factor)
                (i64_add (node_ident prior_node) i))
      in acc @ [new_node])"

definition nodes_of_dense :: "dense_nodes \<Rightarrow> int \<Rightarrow> (entry_id, point) node list" where
  "nodes_of_dense dense gran =
     (let scaling_factor = real_of_int gran * (1 / 10 ^ 9)
      in fold (dense_step scaling_factor) (dense_deltas dense) [])"

definition node_of_raw :: "raw_node \<Rightarrow> (entry_id, point) node" where
  "node_of_raw n = node_new (real_of_int (raw_lon n), real_of_int (raw_lat n)) (raw_ident n)"

section \<open>Elements\<close>

datatype element = NodeElement raw_node | WayElement raw_way | DenseElement dense_nodes | RelationElement raw_relation

definition from_group :: "primitive_group \<Rightarrow> element list" where
  "from_group g =
     map WayElement (group_ways g) @ map NodeElement (group_nodes g) @ map RelationElement (group_relations g)
       @ (case group_dense g of Some d \<Rightarrow> [DenseElement d] | None \<Rightarrow> [])"

primrec element_type :: "element \<Rightarrow> string" where
  "element_type (NodeElement _) = ''node''"
| "element_type (WayElement _) = ''way''"
| "element_type (RelationElement _) = ''relation''"
| "element_type (DenseElement _) = ''node set''"

datatype processed_element = ProcessedNode "(entry_id, point) node" | ProcessedWay way | ProcessedRelation relation

definition processed_from_raw ::
    "(string set \<Rightarrow> string list) \<Rightarrow> element \<Rightarrow> primitive_block \<Rightarrow> processed_element list" where
  "processed_from_raw order e block =
     (let gran = (case granularity block of Some g \<Rightarrow> g | None \<Rightarrow> 100)
      in case e of
           DenseElement d \<Rightarrow> map ProcessedNode (nodes_of_dense d gran)
         | NodeElement n \<Rightarrow> [ProcessedNode (node_of_raw n)]
         | WayElement w \<Rightarrow> [ProcessedWay (way_from_raw order w block)]
         | RelationElement r \<Rightarrow> [])"

section \<open>Delta coding\<close>

text \<open>The encoder's side: the first value and then the differences of neighbours.\<close>

fun deltas :: "int \<Rightarrow> int list \<Rightarrow> int list" where
  "deltas prev [] = []"
| "deltas prev (x # xs) = (x - prev) # deltas x xs"

lemma i64_add_delta: "i64_range x \<Longrightarrow> i64_add (x - prev) prev = x" "i64_range x \<Longrightarrow> i64_add prev (x - prev) = x"
  by (simp_all add: i64_add_def i64_range_def algebra_simps)

lemma references_append:
  "references (xs @ [(role, index)]) block = references xs block
    @ [\<lparr>ref_id = i64_add index (if references xs block = [] then 0 else ref_id (last (references xs block))),
        ref_role = (if role = - 1 then None else Some (recover_str (nat (role mod 2 ^ 64)) block))\<rparr>]"
  by (simp add: references_def Let_def)

lemma deltas_append: "deltas p (xs @ [x]) = deltas p xs @ [x - (if xs = [] then p else last xs)]"
  by (induction xs arbitrary: p) auto

lemma references_round_trip:
  assumes "list_all i64_range ids"
  shows "map ref_id (references (map (Pair (- 1)) (deltas 0 ids)) block) = ids"
  using assms
proof (induction ids rule: rev_induct)
  case (snoc x xs)
  let ?rs = "references (map (Pair (- 1)) (deltas 0 xs)) block"
  have ih: "map ref_id ?rs = xs" using snoc by simp
  then have "(if ?rs = [] then 0 else ref_id (last ?rs)) = (if xs = [] then 0 else last xs)"
    by (metis last_map map_is_Nil_conv)
  then show ?case using snoc.prems ih by (simp add: deltas_append references_append i64_add_delta)
qed (simp add: references_def)

definition coordinate :: "int \<Rightarrow> int \<Rightarrow> real" where
  "coordinate gran v = real_of_int gran * (1 / 10 ^ 9) * real_of_int v"

lemma coordinate_delta:
  "real_of_int v * (real_of_int gran * (1 / 10 ^ 9)) = coordinate gran v"
  "coordinate gran a + real_of_int (b - a) * (real_of_int gran * (1 / 10 ^ 9)) = coordinate gran b"
  by (simp_all add: coordinate_def field_simps)

lemma nodes_of_dense_append:
  assumes "length (dense_lons d) = length (dense_ids d)" "length (dense_lats d) = length (dense_ids d)"
  shows "nodes_of_dense \<lparr>dense_ids = dense_ids d @ [i], dense_lats = dense_lats d @ [la], dense_lons = dense_lons d @ [lo]\<rparr> gran
    = dense_step (real_of_int gran * (1 / 10 ^ 9)) ((real_of_int lo, real_of_int la), i) (nodes_of_dense d gran)"
proof -
  have "dense_deltas \<lparr>dense_ids = dense_ids d @ [i], dense_lats = dense_lats d @ [la], dense_lons = dense_lons d @ [lo]\<rparr>
      = dense_deltas d @ [((real_of_int lo, real_of_int la), i)]"
    using assms by (simp add: dense_deltas_def)
  then show ?thesis by (simp add: nodes_of_dense_def Let_def del: dense_step.simps)
qed

lemma nodes_of_dense_round_trip:
  assumes "length lats = length ids" "length lons = length ids" "list_all i64_range ids"
  shows "nodes_of_dense \<lparr>dense_ids = deltas 0 ids, dense_lats = deltas 0 lats, dense_lons = deltas 0 lons\<rparr> gran
    = map (\<lambda>(i, lat, lon). node_new (coordinate gran lon, coordinate gran lat) i) (zip ids (zip lats lons))"
  using assms
proof (induction ids arbitrary: lats lons rule: rev_induct)
  case Nil
  then show ?case by (simp add: nodes_of_dense_def dense_deltas_def)
next
  case (snoc i ids)
  obtain la lats' where lats: "lats = lats' @ [la]" "length lats' = length ids" using snoc.prems(1) by (cases lats rule: rev_cases) auto
  obtain lo lons' where lons: "lons = lons' @ [lo]" "length lons' = length ids" using snoc.prems(2) by (cases lons rule: rev_cases) auto
  let ?enc = "\<lambda>ids lats lons. \<lparr>dense_ids = deltas 0 ids, dense_lats = deltas 0 lats, dense_lons = deltas 0 lons\<rparr>"
  let ?dec = "map (\<lambda>(i, lat, lon). node_new (coordinate gran lon, coordinate gran lat) i) (zip ids (zip lats' lons'))"
  have lens: "length (deltas p xs) = length xs" for p xs by (induction xs arbitrary: p) auto
  have ih: "nodes_of_dense (?enc ids lats' lons') gran = ?dec" using snoc lats lons by simp
  have last: "ids \<noteq> [] \<Longrightarrow> last ?dec = node_new (coordinate gran (last lons'), coordinate gran (last lats')) (last ids)"
    using lats(2) lons(2) by (cases ids rule: rev_cases; cases lats' rule: rev_cases; cases lons' rule: rev_cases) auto
  have range: "i64_range i" using snoc.prems(3) by simp
  show ?case
  proof (cases "ids = []")
    case True
    then show ?thesis using lats lons coordinate_delta(1) [of _ gran]
      by (simp add: nodes_of_dense_def dense_deltas_def del: times_divide_eq_right)
  next
    case False
    then have nonempty: "lats' \<noteq> []" "lons' \<noteq> []" "?dec \<noteq> []" using lats(2) lons(2) by auto
    have "nodes_of_dense (?enc (ids @ [i]) (lats' @ [la]) (lons' @ [lo])) gran
        = dense_step (real_of_int gran * (1 / 10 ^ 9)) ((real_of_int (lo - last lons'), real_of_int (la - last lats')), i - last ids) ?dec"
      using nodes_of_dense_append [of "?enc ids lats' lons'" "i - last ids" "la - last lats'" "lo - last lons'" gran]
        False nonempty lats(2) lons(2) by (simp add: deltas_append lens ih)
    also have "\<dots> = ?dec @ [node_new (coordinate gran lo, coordinate gran la) i]"
      using nonempty(3) last [OF False] range
      by (simp only: dense_step.simps Let_def if_False node_new_def node.simps prod.sel coordinate_delta(2) i64_add_delta(2))
    finally show ?thesis using lats lons by simp
  qed
qed

end
