(* ===== verification/Osm_Reading.thy ===== *)
theory Osm_Reading
  imports Osm_Elements
begin

unbundle bit_operations_syntax

text \<open>
  Reading a file (\<open>osm/blob\<close>, \<open>osm/block\<close>): the frames of blobs in a byte buffer, the blocks they
  decode to and their elements. The protobuf decoders and the zlib decoder, of other crates, are the
  fields of \<open>pbf_env\<close>. Offsets are 64-bit words that wrap, as in a release build. \<open>Err ()\<close> is the \<open>None\<close> of
  an iterator or decoder; \<open>Panic\<close> is a panic, or a read outside the buffer through the raw pointer.
\<close>

section \<open>Blobs\<close>

record blob_header =
  header_type :: string
  datasize :: "32 word"

record blob_item =
  range_begin :: "64 word"
  range_finish :: "64 word"
  item_header :: blob_header

record blob =
  zlib_data :: "bytes option"
  raw_size :: "32 word option"

datatype block_item = HeaderItem | PrimitiveItem primitive_block

record pbf_env =
  decode_blob_header :: "bytes \<Rightarrow> blob_header option"
  decode_blob :: "bytes \<Rightarrow> blob option"
  zlib_read_exact :: "bytes \<Rightarrow> nat \<Rightarrow> bytes option"
  decode_primitive_block :: "bytes \<Rightarrow> primitive_block option"
  decodes_header_block :: "bytes \<Rightarrow> bool"

definition blob_item_new :: "64 word \<Rightarrow> blob_header \<Rightarrow> blob_item" where
  "blob_item_new start header =
     \<lparr>range_begin = start, range_finish = start + scast (datasize header), item_header = header\<rparr>"

record blob_iterator =
  blob_index :: "64 word"
  blob_offset :: "64 word"

definition HEADER_LEN_SIZE :: nat where
  "HEADER_LEN_SIZE = 4"

definition from_be_bytes :: "bytes \<Rightarrow> 32 word" where
  "from_be_bytes bs = foldl (\<lambda>acc b. push_bit 8 acc OR ucast b) 0 bs"

definition take_next :: "pbf_env \<Rightarrow> bytes \<Rightarrow> blob_iterator \<Rightarrow> (blob_item, unit) outcome \<times> blob_iterator" where
  "take_next E buf it =
     (let len = (of_nat (length buf) :: 64 word); offset = blob_offset it
      in if len < offset + of_nat HEADER_LEN_SIZE then (Err (), it)
         else if length buf < unat offset + HEADER_LEN_SIZE then (Panic, it)
         else
           let blob_header_length = (ucast (from_be_bytes (take HEADER_LEN_SIZE (drop (unat offset) buf))) :: 64 word);
               offset = offset + of_nat HEADER_LEN_SIZE
           in if len < offset + blob_header_length then (Err (), it\<lparr>blob_offset := offset\<rparr>)
              else
                let buffer = take (unat blob_header_length) (drop (unat offset) buf);
                    start = offset + blob_header_length
                in (case decode_blob_header E buffer of
                      None \<Rightarrow> (Err (), it\<lparr>blob_offset := start\<rparr>)
                    | Some header \<Rightarrow>
                        (Ok (blob_item_new start header),
                         it\<lparr>blob_index := blob_index it + 1, blob_offset := start + scast (datasize header)\<rparr>)))"

text \<open>Collecting the iterator; not returning is \<open>None\<close>.\<close>

partial_function (option) collect_blobs :: "pbf_env \<Rightarrow> bytes \<Rightarrow> blob_iterator \<Rightarrow> (blob_item list, unit) outcome option" where
  "collect_blobs E buf it =
     (case take_next E buf it of
        (Ok b, it') \<Rightarrow> Option.bind (collect_blobs E buf it') (\<lambda>r. Some (and_then r (\<lambda>bs. Ok (b # bs))))
      | (Err e, it') \<Rightarrow> Some (Ok [])
      | (Panic, it') \<Rightarrow> Some Panic)"

definition blob_iterator_new :: blob_iterator where
  "blob_iterator_new = \<lparr>blob_index = 0, blob_offset = 0\<rparr>"

section \<open>Blocks\<close>

definition zlib_decode :: "pbf_env \<Rightarrow> bytes \<Rightarrow> 64 word \<Rightarrow> (bytes, unit) outcome" where
  "zlib_decode E data n =
     (if sint n < 0 then Panic else ok_or () (zlib_read_exact E data (unat n)))"

definition from_blob :: "pbf_env \<Rightarrow> blob \<Rightarrow> (bytes, unit) outcome" where
  "from_blob E b =
     (case zlib_data b of
        Some data \<Rightarrow> zlib_decode E data (case raw_size b of Some n \<Rightarrow> scast n | None \<Rightarrow> 0)
      | None \<Rightarrow> Err ())"

definition from_data :: "pbf_env \<Rightarrow> bytes \<Rightarrow> blob_item \<Rightarrow> (block_item, unit) outcome" where
  "from_data E data item =
     (if header_type (item_header item) = ''OSMData'' then
        ok_or () (map_option PrimitiveItem (decode_primitive_block E data))
      else if header_type (item_header item) = ''OSMHeader'' then
        (if decodes_header_block E data then Ok HeaderItem else Err ())
      else Err ())"

definition slice_of :: "bytes \<Rightarrow> blob_item \<Rightarrow> bytes option" where
  "slice_of buf item =
     (if unat (range_begin item) \<le> unat (range_finish item) \<and> unat (range_finish item) \<le> length buf
      then Some (take (unat (range_finish item) - unat (range_begin item)) (drop (unat (range_begin item)) buf)) else None)"

definition from_blob_item :: "pbf_env \<Rightarrow> bytes \<Rightarrow> blob_item \<Rightarrow> (block_item, unit) outcome" where
  "from_blob_item E buf item =
     and_then (ok_or () (slice_of buf item)) (\<lambda>data.
     and_then (ok_or () (decode_blob E data)) (\<lambda>b.
     and_then (from_blob E b) (\<lambda>data. from_data E data item)))"

primrec block_type :: "block_item \<Rightarrow> string" where
  "block_type HeaderItem = ''HeaderBlock''"
| "block_type (PrimitiveItem _) = ''PrimitiveBlock''"

primrec raw_elements :: "block_item \<Rightarrow> element list" where
  "raw_elements (PrimitiveItem p) = List.bind (primitive_groups p) from_group"
| "raw_elements HeaderItem = []"

primrec block_elements :: "(string set \<Rightarrow> string list) \<Rightarrow> block_item \<Rightarrow> processed_element list" where
  "block_elements order (PrimitiveItem p) =
     List.bind (List.bind (primitive_groups p) from_group) (\<lambda>e. processed_from_raw order e p)"
| "block_elements order HeaderItem = []"

text \<open>The parallel iterator skips a blob that does not decode; the sequential one ends there.\<close>

definition parallel_blocks :: "pbf_env \<Rightarrow> bytes \<Rightarrow> blob_item list \<Rightarrow> (block_item list, unit) outcome" where
  "parallel_blocks E buf blobs = filter_ok (map (from_blob_item E buf) blobs)"

definition next_block :: "pbf_env \<Rightarrow> bytes \<Rightarrow> blob_item list \<Rightarrow> nat \<Rightarrow> (block_item, unit) outcome \<times> nat" where
  "next_block E buf blobs i =
     (if i < length blobs then (from_blob_item E buf (blobs ! i), i + 1) else (Err (), i))"

fun sequential_blocks :: "pbf_env \<Rightarrow> bytes \<Rightarrow> blob_item list \<Rightarrow> (block_item list, unit) outcome" where
  "sequential_blocks E buf [] = Ok []"
| "sequential_blocks E buf (b # bs) =
     (case from_blob_item E buf b of
        Ok x \<Rightarrow> and_then (sequential_blocks E buf bs) (\<lambda>xs. Ok (x # xs))
      | Err e \<Rightarrow> Ok []
      | Panic \<Rightarrow> Panic)"

definition read_blocks :: "pbf_env \<Rightarrow> bytes \<Rightarrow> (block_item list, unit) outcome option" where
  "read_blocks E buf =
     Option.bind (collect_blobs E buf blob_iterator_new) (\<lambda>r. Some (and_then r (parallel_blocks E buf)))"

section \<open>Parallel reduction\<close>

text \<open>
  How a parallel iterator splits its items: pieces folded from the identity on their own, combined in
  the order of the items. Every grouping is a tree.
\<close>

datatype 'a parts = Part "'a list" | Fork "'a parts" "'a parts"

primrec contents :: "'a parts \<Rightarrow> 'a list" where
  "contents (Part xs) = xs"
| "contents (Fork l r) = contents l @ contents r"

fun try_fold :: "('s \<Rightarrow> 'a \<Rightarrow> ('s, 'e) outcome) \<Rightarrow> 'a list \<Rightarrow> 's \<Rightarrow> ('s, 'e) outcome" where
  "try_fold f [] s = Ok s"
| "try_fold f (x # xs) s = and_then (f s x) (try_fold f xs)"

primrec par_red :: "('s \<Rightarrow> 'a \<Rightarrow> ('s, 'e) outcome) \<Rightarrow> ('s \<Rightarrow> 's \<Rightarrow> 's) \<Rightarrow> 's \<Rightarrow> 'a parts \<Rightarrow> ('s, 'e) outcome" where
  "par_red fold_op combine ident (Part xs) = try_fold fold_op xs ident"
| "par_red fold_op combine ident (Fork l r) =
     and_then (par_red fold_op combine ident l) (\<lambda>a. and_then (par_red fold_op combine ident r) (\<lambda>b. Ok (combine a b)))"

end
