(* ===== verification/Osm_Reading_Laws.thy ===== *)
theory Osm_Reading_Laws
  imports Osm_Reading
begin

text \<open>
  What reading a file promises: where no header that is reached claims a negative size, the iterator over the blobs
  ends and never leaves the buffer, a framed file yields its frames, a negative size can make it run
  for ever, and a parallel reduction does not depend on how its items are split.
\<close>

lemma sint_nonneg:
  fixes w :: "32 word"
  assumes "0 \<le> sint w"
  shows "uint w < 2 ^ 31" "sint w = uint w"
proof -
  have shift: "sint w = (uint w + 2147483648) mod 4294967296 - 2147483648"
    by (simp add: sint_uint signed_take_bit_eq_take_bit_shift take_bit_eq_mod)
  have range: "0 \<le> uint w" "uint w < 4294967296" using uint_lt2p [of w] by simp_all
  have "uint w < 2147483648"
  proof (rule ccontr)
    assume "\<not> uint w < 2147483648"
    then have "(uint w + 2147483648 - 4294967296) mod 4294967296 = uint w + 2147483648 - 4294967296"
      using range by (intro mod_pos_pos_trivial) linarith+
    then have "(uint w + 2147483648) mod 4294967296 = uint w + 2147483648 - 4294967296" by (simp only: minus_mod_self2)
    then show False using shift assms range by linarith
  qed
  then show "uint w < 2 ^ 31" "sint w = uint w" using shift range by simp_all
qed

lemma uint_widen: "uint (ucast (w :: 32 word) :: 64 word) = uint w"
proof -
  have "uint w < 2 ^ LENGTH(32)" by (rule uint_lt2p)
  then have "take_bit 64 (uint w) = uint w" by (intro take_bit_int_eq_self) simp_all
  then show ?thesis by (simp add: unsigned_ucast_eq take_bit_word_eq_self)
qed

lemma scast_nonneg:
  fixes w :: "32 word"
  assumes "0 \<le> sint w"
  shows "unat (scast w :: 64 word) = unat w" "unat w < 2 ^ 31"
proof -
  note s = sint_nonneg [OF assms]
  have "(scast w :: 64 word) = ucast w" by (simp only: scast_eq ucast_eq s(2))
  then show "unat (scast w :: 64 word) = unat w" by (simp only: unat_eq_nat_uint uint_widen)
  have "nat (uint w) < nat (2 ^ 31)" using s(1) by (subst nat_less_eq_zless) simp_all
  then show "unat w < 2 ^ 31" by (simp only: unat_eq_nat_uint nat_power_eq nat_numeral zero_le_numeral)
qed

text \<open>Sums of words below the wrap.\<close>

lemma unat_add_small: "unat (a :: 64 word) + unat b < 2 ^ 64 \<Longrightarrow> unat (a + b) = unat a + unat b"
  by (simp add: unat_word_ariths)

lemma unat_of_nat_small: "n < 2 ^ 64 \<Longrightarrow> unat (of_nat n :: 64 word) = n"
  by (simp add: unat_of_nat)

lemma unat_be32: "unat (ucast (w :: 32 word) :: 64 word) = unat w" "unat (w :: 32 word) < 2 ^ 32"
proof -
  have "unat w < 2 ^ LENGTH(32)" by (rule unsigned_less)
  then show "unat w < 2 ^ 32" by simp
  show "unat (ucast w :: 64 word) = unat w" by (simp only: unat_eq_nat_uint uint_widen)
qed

text \<open>One step, in natural numbers.\<close>

definition header_length :: "bytes \<Rightarrow> nat \<Rightarrow> nat" where
  "header_length buf k = unat (from_be_bytes (take 4 (drop k buf)))"

lemma take_next_nat:
  assumes "length buf < 2 ^ 62" "unat (blob_offset it) < 2 ^ 63" "k = unat (blob_offset it)"
  shows "take_next E buf it =
    (if length buf < k + 4 then (Err (), it)
     else if length buf < k + 4 + header_length buf k then (Err (), it\<lparr>blob_offset := blob_offset it + 4\<rparr>)
     else (case decode_blob_header E (take (header_length buf k) (drop (k + 4) buf)) of
         None \<Rightarrow> (Err (), it\<lparr>blob_offset := of_nat (k + 4 + header_length buf k)\<rparr>)
       | Some h \<Rightarrow> (Ok (blob_item_new (of_nat (k + 4 + header_length buf k)) h),
           it\<lparr>blob_index := blob_index it + 1, blob_offset := of_nat (k + 4 + header_length buf k) + scast (datasize h)\<rparr>)))"
proof -
  let ?hl = "ucast (from_be_bytes (take 4 (drop (unat (blob_offset it)) buf))) :: 64 word"
  have len: "unat (of_nat (length buf) :: 64 word) = length buf" using assms(1) by (intro unat_of_nat_small) simp
  have four: "unat (blob_offset it + 4) = k + 4" using assms(2,3) by (subst unat_add_small) simp_all
  have hl: "unat ?hl = header_length buf k" "unat ?hl < 2 ^ 32"
    using unat_be32 [of "from_be_bytes (take 4 (drop (unat (blob_offset it)) buf))"] by (simp_all add: header_length_def assms(3))
  have start: "unat (blob_offset it + 4 + ?hl) = k + 4 + header_length buf k"
    using assms(2,3) hl four by (subst unat_add_small) simp_all
  then have of_start: "blob_offset it + 4 + ?hl = of_nat (k + 4 + header_length buf k)" by (metis of_nat_unat ucast_id)
  have unat_start: "unat (of_nat (k + 4 + header_length buf k) :: 64 word) = k + 4 + header_length buf k"
    using start of_start by simp
  have less: "of_nat (length buf) < w \<longleftrightarrow> length buf < unat w" for w :: "64 word" by (simp only: word_less_nat_alt len)
  show ?thesis
    unfolding take_next_def Let_def HEADER_LEN_SIZE_def of_nat_numeral less four of_start unat_start hl(1)
    using assms(3) by (simp del: of_nat_add split: option.splits)
qed

section \<open>The iterator ends\<close>

text \<open>The header that the buffer holds at an offset, the offsets where frames begin, and what is asked of their headers.\<close>

definition header_at :: "pbf_env \<Rightarrow> bytes \<Rightarrow> nat \<Rightarrow> blob_header option" where
  "header_at E buf k =
     (if k + 4 + header_length buf k \<le> length buf then decode_blob_header E (take (header_length buf k) (drop (k + 4) buf)) else None)"

inductive frame_begins :: "pbf_env \<Rightarrow> bytes \<Rightarrow> nat \<Rightarrow> bool" for E :: pbf_env and buf :: bytes where
  first_frame: "frame_begins E buf 0"
| next_frame: "frame_begins E buf k \<Longrightarrow> header_at E buf k = Some h
    \<Longrightarrow> frame_begins E buf (k + 4 + header_length buf k + unat (datasize h))"

definition sane_sizes :: "pbf_env \<Rightarrow> bytes \<Rightarrow> bool" where
  "sane_sizes E buf \<longleftrightarrow> (\<forall>k h. frame_begins E buf k \<longrightarrow> header_at E buf k = Some h \<longrightarrow> 0 \<le> sint (datasize h))"

lemma take_next_progress:
  assumes "sane_sizes E buf" "length buf < 2 ^ 62" "unat (blob_offset it) < 2 ^ 63" "take_next E buf it = (r, it')"
    and begins: "frame_begins E buf (unat (blob_offset it))"
  shows "r \<noteq> Panic" "r = Ok b \<Longrightarrow> unat (blob_offset it) + 4 \<le> unat (blob_offset it') \<and> unat (blob_offset it') < 2 ^ 63
    \<and> unat (blob_offset it) + 4 \<le> length buf \<and> frame_begins E buf (unat (blob_offset it'))"
proof -
  let ?k = "unat (blob_offset it)"
  let ?n = "?k + 4 + header_length buf ?k"
  note next_nat = take_next_nat [OF assms(2,3) refl, of E, unfolded assms(4)]
  show "r \<noteq> Panic" using next_nat by (auto split: if_splits option.splits)
  assume "r = Ok b"
  with next_nat obtain h where h: "\<not> length buf < ?n" "decode_blob_header E (take (header_length buf ?k) (drop (?k + 4) buf)) = Some h"
      "blob_offset it' = of_nat ?n + scast (datasize h)"
    by (auto simp del: of_nat_add split: if_splits option.splits)
  have at: "header_at E buf ?k = Some h" using h(1,2) by (simp add: header_at_def)
  then have "0 \<le> sint (datasize h)" using assms(1) begins by (auto simp: sane_sizes_def)
  note small = scast_nonneg [OF this]
  have n: "unat (of_nat ?n :: 64 word) = ?n" using h(1) assms(2) by (intro unat_of_nat_small) simp
  have "unat (of_nat ?n :: 64 word) + unat (scast (datasize h) :: 64 word) < 2 ^ 64"
    unfolding n small(1) using small(2) h(1) assms(2) by simp
  then have next_offset: "unat (blob_offset it') = ?n + unat (datasize h)"
    using unat_add_small [of "of_nat ?n" "scast (datasize h)"] n small(1) h(3) by simp
  then have "?k + 4 \<le> unat (blob_offset it') \<and> unat (blob_offset it') < 2 ^ 63 \<and> ?k + 4 \<le> length buf"
    using small(2) h(1) assms(2) by simp
  moreover have "frame_begins E buf (unat (blob_offset it'))" unfolding next_offset by (rule next_frame [OF begins at])
  ultimately show "?k + 4 \<le> unat (blob_offset it') \<and> unat (blob_offset it') < 2 ^ 63 \<and> ?k + 4 \<le> length buf
    \<and> frame_begins E buf (unat (blob_offset it'))" by blast
qed

lemma collect_blobs_ends:
  assumes "sane_sizes E buf" "length buf < 2 ^ 62" "unat (blob_offset it) < 2 ^ 63" "frame_begins E buf (unat (blob_offset it))"
  shows "\<exists>bs. collect_blobs E buf it = Some (Ok bs)"
  using assms(3,4)
proof (induction "length buf + 4 - unat (blob_offset it)" arbitrary: it rule: less_induct)
  case less
  obtain r it' where step: "take_next E buf it = (r, it')" by (cases "take_next E buf it")
  note progress = take_next_progress [OF assms(1,2) less.prems(1) step less.prems(2)]
  show ?case
  proof (cases r)
    case (Ok b)
    note p = progress(2) [OF Ok]
    have "\<exists>bs. collect_blobs E buf it' = Some (Ok bs)" using p by (intro less.hyps) linarith+
    then show ?thesis by (subst collect_blobs.simps) (auto simp: step Ok)
  next
    case (Err e)
    then show ?thesis by (subst collect_blobs.simps) (simp add: step)
  qed (use progress(1) in blast)
qed

section \<open>A framed file\<close>

record frame =
  frame_length :: bytes
  frame_header :: bytes
  frame_data :: bytes

definition frame_bytes :: "frame \<Rightarrow> bytes" where
  "frame_bytes f = frame_length f @ frame_header f @ frame_data f"

definition frame_ok :: "pbf_env \<Rightarrow> frame \<Rightarrow> bool" where
  "frame_ok E f \<longleftrightarrow> length (frame_length f) = 4 \<and> unat (from_be_bytes (frame_length f)) = length (frame_header f)
     \<and> (case decode_blob_header E (frame_header f) of None \<Rightarrow> False | Some h \<Rightarrow> sint (datasize h) = int (length (frame_data f)))"

lemma take_next_frame:
  assumes f: "frame_ok E f" and buf: "buf = pre @ frame_bytes f @ rest" and len: "length buf < 2 ^ 62"
    and it: "blob_offset it = of_nat (length pre)"
  shows "\<exists>item it'. take_next E buf it = (Ok item, it') \<and> blob_offset it' = of_nat (length (pre @ frame_bytes f))
    \<and> slice_of buf item = Some (frame_data f) \<and> decode_blob_header E (frame_header f) = Some (item_header item)"
proof -
  let ?k = "length pre"
  let ?n = "?k + 4 + length (frame_header f)"
  have small: "?k + length (frame_bytes f) < 2 ^ 62" using len buf by simp
  have size: "length (frame_bytes f) = 4 + length (frame_header f) + length (frame_data f)"
    using f by (simp add: frame_bytes_def frame_ok_def)
  have k: "unat (blob_offset it) = ?k" unfolding it using small by (intro unat_of_nat_small) simp
  have bound: "unat (blob_offset it) < 2 ^ 63" unfolding k using small by simp
  have hl: "header_length buf ?k = length (frame_header f)"
    using f by (simp add: header_length_def buf frame_bytes_def frame_ok_def)
  have header: "take (length (frame_header f)) (drop (?k + 4) buf) = frame_header f"
    using f by (simp add: buf frame_bytes_def frame_ok_def)
  obtain h where h: "decode_blob_header E (frame_header f) = Some h" "sint (datasize h) = int (length (frame_data f))"
    using f by (auto simp: frame_ok_def split: option.splits)
  have "0 \<le> sint (datasize h)" by (simp add: h(2))
  note cast = scast_nonneg(1) [OF this] and uint = sint_nonneg(2) [OF this]
  have data: "unat (scast (datasize h) :: 64 word) = length (frame_data f)"
  proof -
    have "unat (datasize h) = nat (sint (datasize h))" by (simp only: unat_eq_nat_uint uint)
    then show ?thesis by (simp only: cast h(2) nat_int)
  qed
  have fits: "\<not> length buf < ?k + 4" "\<not> length buf < ?n" using size by (simp_all add: buf)
  have n: "unat (of_nat ?n :: 64 word) = ?n" using small size by (intro unat_of_nat_small) simp
  have finish: "unat (of_nat ?n + scast (datasize h) :: 64 word) = ?n + length (frame_data f)"
    using unat_add_small [of "of_nat ?n" "scast (datasize h)"] n data small size by simp
  have offset: "of_nat ?n + scast (datasize h) = (of_nat (length (pre @ frame_bytes f)) :: 64 word)"
  proof -
    have "of_nat (unat (of_nat ?n + scast (datasize h) :: 64 word)) = (of_nat (length (pre @ frame_bytes f)) :: 64 word)"
      unfolding finish using size by (simp add: add.assoc)
    then show ?thesis by (simp only: of_nat_unat ucast_id)
  qed
  have "slice_of buf (blob_item_new (of_nat ?n) h) = Some (frame_data f)"
    unfolding slice_of_def blob_item_new_def blob_item.simps n finish
    using size f by (simp add: buf frame_bytes_def frame_ok_def)
  moreover have "take_next E buf it = (Ok (blob_item_new (of_nat ?n) h),
      it\<lparr>blob_index := blob_index it + 1, blob_offset := of_nat ?n + scast (datasize h)\<rparr>)"
    using take_next_nat [OF len bound refl, of E] unfolding k hl header h(1) using fits by (simp del: of_nat_add)
  ultimately show ?thesis using offset h(1) by (auto simp: blob_item_new_def simp del: of_nat_add)
qed

lemma collect_frames:
  assumes "list_all (frame_ok E) fs" "buf = pre @ concat (map frame_bytes fs)" "length buf < 2 ^ 62"
    and "blob_offset it = of_nat (length pre)"
  shows "\<exists>items. collect_blobs E buf it = Some (Ok items) \<and> map (slice_of buf) items = map (Some \<circ> frame_data) fs
    \<and> map (Some \<circ> item_header) items = map (decode_blob_header E \<circ> frame_header) fs"
  using assms
proof (induction fs arbitrary: pre it)
  case Nil
  have k: "unat (blob_offset it) = length buf"
    unfolding Nil.prems(4) using Nil.prems(2,3) by (subst unat_of_nat_small) simp_all
  have "take_next E buf it = (Err (), it)"
    using take_next_nat [OF Nil.prems(3) _ refl, of it E] k Nil.prems(3) by simp
  then show ?case by (subst collect_blobs.simps) simp
next
  case (Cons f fs)
  have "buf = pre @ frame_bytes f @ concat (map frame_bytes fs)" using Cons.prems(2) by simp
  from take_next_frame [OF _ this Cons.prems(3,4), of E] obtain item it' where step: "take_next E buf it = (Ok item, it')"
      "blob_offset it' = of_nat (length (pre @ frame_bytes f))" "slice_of buf item = Some (frame_data f)"
      "decode_blob_header E (frame_header f) = Some (item_header item)"
    using Cons.prems(1) by auto
  obtain items where "collect_blobs E buf it' = Some (Ok items)" "map (slice_of buf) items = map (Some \<circ> frame_data) fs"
      "map (Some \<circ> item_header) items = map (decode_blob_header E \<circ> frame_header) fs"
    using Cons.IH [of "pre @ frame_bytes f" it'] Cons.prems step(2) by (metis append.assoc concat.simps(2) list.simps(9) list.pred_inject(2))
  then show ?case using step by (subst collect_blobs.simps) auto
qed

section \<open>A size that rewinds\<close>

text \<open>The step does not look at the count of blobs, so an offset that steps to itself is never left.\<close>

lemma take_next_offset:
  "blob_offset a = blob_offset b \<Longrightarrow> fst (take_next E buf a) = fst (take_next E buf b)
    \<and> blob_offset (snd (take_next E buf a)) = blob_offset (snd (take_next E buf b))"
  by (simp add: take_next_def Let_def split: option.splits)

lemma rewinding_never_ends:
  assumes "take_next E buf it = (Ok b, it')" "blob_offset it' = blob_offset it"
  shows "collect_blobs E buf it = None"
proof (rule ccontr)
  assume "collect_blobs E buf it \<noteq> None"
  then obtain r where "collect_blobs E buf it = Some r" by blast
  have "E' = E \<longrightarrow> buf' = buf \<longrightarrow> blob_offset it2 \<noteq> blob_offset it" if "collect_blobs E' buf' it2 = Some r'" for E' buf' it2 r'
  proof (rule collect_blobs.raw_induct [where P = "\<lambda>E' buf' it2 r'. E' = E \<longrightarrow> buf' = buf \<longrightarrow> blob_offset it2 \<noteq> blob_offset it", OF _ that])
    fix collect E' buf' it2 r'
    assume ih: "\<And>E' buf' it2 r'. collect E' buf' it2 = Some r' \<Longrightarrow> E' = E \<longrightarrow> buf' = buf \<longrightarrow> blob_offset it2 \<noteq> blob_offset it"
      and body: "(case take_next E' buf' it2 of
          (Ok b, it') \<Rightarrow> Option.bind (collect E' buf' it') (\<lambda>r. Some (and_then r (\<lambda>bs. Ok (b # bs))))
        | (Err e, it') \<Rightarrow> Some (Ok []) | (Panic, it') \<Rightarrow> Some Panic) = Some r'"
    show "E' = E \<longrightarrow> buf' = buf \<longrightarrow> blob_offset it2 \<noteq> blob_offset it"
    proof (intro impI notI)
      assume same: "E' = E" "buf' = buf" "blob_offset it2 = blob_offset it"
      then obtain it3 where it3: "take_next E buf it2 = (Ok b, it3)" "blob_offset it3 = blob_offset it"
        using take_next_offset [of it2 it E buf] assms by (cases "take_next E buf it2") auto
      then obtain r2 where "collect E buf it3 = Some r2" using body same by (cases "collect E buf it3") auto
      from ih [OF this] show False using it3(2) by simp
    qed
  qed
  then show False using \<open>collect_blobs E buf it = Some r\<close> by blast
qed

text \<open>A header of no bytes that claims minus four bytes of data sends the iterator back to itself.\<close>

lemma negative_size_never_ends:
  assumes "decode_blob_header E [] = Some \<lparr>header_type = ty, datasize = - 4\<rparr>"
  shows "collect_blobs E [0, 0, 0, 0] blob_iterator_new = None"
proof (rule rewinding_never_ends)
  have zero: "from_be_bytes [0, 0, 0, 0] = 0" by code_simp
  have rewind: "scast (- 4 :: 32 word) = (- 4 :: 64 word)" by code_simp
  show "take_next E [0, 0, 0, 0] blob_iterator_new =
      (Ok (blob_item_new 4 \<lparr>header_type = ty, datasize = - 4\<rparr>), \<lparr>blob_index = 1, blob_offset = 0\<rparr>)"
    using take_next_nat [of "[0, 0, 0, 0]" blob_iterator_new 0 E] assms
    by (simp add: blob_iterator_new_def header_length_def zero rewind)
qed (simp add: blob_iterator_new_def)

section \<open>Parallel reduction\<close>

lemma and_then_assoc: "and_then (and_then r f) g = and_then r (\<lambda>x. and_then (f x) g)"
  by (cases r) simp_all

lemma try_fold_append: "try_fold f (xs @ ys) s = and_then (try_fold f xs s) (try_fold f ys)"
proof (induction xs arbitrary: s)
  case (Cons x xs)
  then have "try_fold f (xs @ ys) = (\<lambda>s. and_then (try_fold f xs s) (try_fold f ys))" by blast
  then show ?case by (simp add: and_then_assoc)
qed simp

text \<open>
  Folding after a state is folding from the identity and combining: then every grouping of the items
  reduces to the fold over all of them, up to which error comes first.
\<close>

lemma par_red_contents:
  assumes "\<And>s xs. try_fold f xs s = and_then (try_fold f xs ident) (\<lambda>b. Ok (combine s b))"
    and "\<And>s. combine s ident = s"
  shows "par_red f combine ident p = try_fold f (contents p) ident"
proof (induction p)
  case (Fork l r)
  have "try_fold f (contents r) = (\<lambda>a. and_then (try_fold f (contents r) ident) (\<lambda>b. Ok (combine a b)))"
    using assms(1) by blast
  then show ?case using Fork by (simp add: try_fold_append)
qed simp

text \<open>The sequential iterator over the blocks gives a prefix of what the parallel one gives.\<close>

lemma sequential_prefix:
  assumes "parallel_blocks E buf blobs = Ok xs"
  shows "\<exists>ys. sequential_blocks E buf blobs = Ok ys \<and> prefix ys xs"
  using assms
proof (induction blobs arbitrary: xs)
  case (Cons b bs)
  then show ?case by (cases "from_blob_item E buf b") (fastforce simp: parallel_blocks_def)+
qed (simp add: parallel_blocks_def)

end
