(* ===== verification/Osm_Network.thy ===== *)
theory Osm_Network
  imports Osm_Reading_Laws
begin

text \<open>
  The road network of a file (\<open>osm/graph.rs\<close>): the reduction of the elements into nodes, edges and
  metadata, the graph and the maps built from them, the spatial indices, the trait methods and the
  bytes of a saved network. The graph map, the packed tree, the iteration order of a hash map and the
  \<open>postcard\<close> codec are parameters, as for the shards.
\<close>

record 'g osm_network =
  on_graph :: 'g
  on_hash :: "entry_id \<rightharpoonup> (entry_id, point) node"
  on_meta :: "entry_id \<rightharpoonup> edge_metadata"
  on_index :: "entry_id row_index"
  on_index_edge :: "(entry_id, point) node edge row_index"

definition osm_network_default :: "(entry_id, 'g) graph_ops \<Rightarrow> 'g osm_network" where
  "osm_network_default G =
     \<lparr>on_graph = dg_new G, on_hash = Map.empty, on_meta = Map.empty, on_index = row_index_default,
      on_index_edge = row_index_default\<rparr>"

section \<open>Ingesting elements\<close>

record trees =
  tree_nodes :: "(entry_id, point) node list"
  tree_edges :: "entry_id edge list"
  tree_meta :: "(entry_id \<times> edge_metadata) list"

definition trees_empty :: trees where
  "trees_empty = \<lparr>tree_nodes = [], tree_edges = [], tree_meta = []\<rparr>"

definition trees_extend :: "trees \<Rightarrow> trees \<Rightarrow> trees" where
  "trees_extend a b =
     \<lparr>tree_nodes = tree_nodes a @ tree_nodes b, tree_edges = tree_edges a @ tree_edges b, tree_meta = tree_meta a @ tree_meta b\<rparr>"

text \<open>The edges of one pair of consecutive references.\<close>

definition pair_edges :: "way \<Rightarrow> nat \<Rightarrow> bool \<Rightarrow> reference \<times> reference \<Rightarrow> entry_id edge list" where
  "pair_edges w wt bidirectional p =
     (let (a, b) = p; direction_aware = edge_id_new (way_id w)
      in edge_from (ref_id a, ref_id b, wt, edge_forward direction_aware)
         # (if bidirectional then [edge_from (ref_id b, ref_id a, wt, edge_backward direction_aware)] else []))"

definition ingest ::
    "(speed_limit_entry \<Rightarrow> 'k::linorder) \<Rightarrow> trees \<Rightarrow> processed_element \<Rightarrow> (trees, unit) outcome" where
  "ingest debug t e =
     (case e of
        ProcessedWay w \<Rightarrow>
          and_then (pick debug (way_tags w)) (\<lambda>md.
          case md_road_class md of
            None \<Rightarrow> Ok t
          | Some c \<Rightarrow>
              (let wt = weighting c; bidirectional = \<not> unidirectional (way_tags w)
               in Ok (t\<lparr>tree_meta := tree_meta t @ [(way_id w, md)],
                        tree_edges := tree_edges t @ concat (map (pair_edges w wt bidirectional) (windows2 (way_references w)))\<rparr>)))
      | ProcessedNode n \<Rightarrow> Ok (t\<lparr>tree_nodes := tree_nodes t @ [n]\<rparr>)
      | ProcessedRelation r \<Rightarrow> Ok t)"

section \<open>The network\<close>

definition add_edge :: "(entry_id, 'g) graph_ops \<Rightarrow> entry_id edge \<Rightarrow> 'g \<Rightarrow> 'g" where
  "add_edge G e g = dg_add_edge G g (source e) (target e) (weight e, edge_ident e)"

definition osm_fat_id :: "entry_id edge_id \<Rightarrow> (entry_id, point) node edge_id" where
  "osm_fat_id i = edge_id_new (node_new (0, 0) (edge_index i))"

text \<open>A row of the edge index, if both its nodes are known.\<close>

definition edge_row ::
    "(entry_id \<rightharpoonup> (entry_id, point) node) \<Rightarrow> entry_id \<times> entry_id \<times> entry_id edge_data \<Rightarrow> (entry_id, point) node edge option" where
  "edge_row hash e =
     (case e of (s, t, wt, i) \<Rightarrow>
        (case hash s of None \<Rightarrow> None | Some src \<Rightarrow>
        (case hash t of None \<Rightarrow> None | Some tgt \<Rightarrow>
           Some \<lparr>source = src, target = tgt, weight = wt,
                 edge_ident = with_direction (osm_fat_id i) (edge_direction i)\<rparr>)))"

definition osm_rebuild_indices ::
    "(entry_id, 'g) graph_ops \<Rightarrow> (entry_id set \<Rightarrow> entry_id list) \<Rightarrow> 'g osm_network \<Rightarrow> 'g osm_network" where
  "osm_rebuild_indices G order N =
     (let hash = on_hash N;
          nodes = order (dom hash);
          edges = List.map_filter (edge_row hash) (dg_all_edges G (on_graph N))
      in N\<lparr>on_index := row_index_build nodes (\<lambda>i. (node_position (the (hash i)), node_position (the (hash i)))),
           on_index_edge := row_index_build edges (\<lambda>e. envelope_of (node_position (source e)) (node_position (target e)))\<rparr>)"

definition network_of_trees ::
    "(entry_id, 'g) graph_ops \<Rightarrow> (entry_id set \<Rightarrow> entry_id list) \<Rightarrow> trees \<Rightarrow> 'g osm_network" where
  "network_of_trees G order t =
     (let graph = fold (add_edge G) (tree_edges t) (dg_new G);
          meta = map_of (rev (tree_meta t));
          hash = fold (\<lambda>n h. h(node_ident n \<mapsto> n)) (filter (\<lambda>n. node_ident n \<in> set (dg_nodes G graph)) (tree_nodes t)) Map.empty
      in osm_rebuild_indices G order
           \<lparr>on_graph = graph, on_hash = hash, on_meta = meta, on_index = row_index_default, on_index_edge = row_index_default\<rparr>)"

definition network_of_elements ::
    "(entry_id, 'g) graph_ops \<Rightarrow> (entry_id set \<Rightarrow> entry_id list) \<Rightarrow> (speed_limit_entry \<Rightarrow> 'k::linorder)
      \<Rightarrow> processed_element parts \<Rightarrow> ('g osm_network, unit) outcome" where
  "network_of_elements G order debug p =
     and_then (par_red (ingest debug) trees_extend trees_empty p) (\<lambda>t. Ok (network_of_trees G order t))"

text \<open>
  From the bytes of a file. \<open>grouping\<close> is how the elements are split between threads; not returning,
  on a file whose sizes rewind, is \<open>None\<close>.
\<close>

definition from_pbf ::
    "pbf_env \<Rightarrow> (entry_id, 'g) graph_ops \<Rightarrow> (entry_id set \<Rightarrow> entry_id list) \<Rightarrow> (string set \<Rightarrow> string list)
      \<Rightarrow> (speed_limit_entry \<Rightarrow> 'k::linorder) \<Rightarrow> (processed_element list \<Rightarrow> processed_element parts) \<Rightarrow> bytes
      \<Rightarrow> ('g osm_network, unit) outcome option" where
  "from_pbf E G order tag_order debug grouping buf =
     Option.bind (read_blocks E buf) (\<lambda>r. Some (and_then r (\<lambda>blocks.
       network_of_elements G order debug (grouping (List.bind blocks (block_elements tag_order))))))"

definition osm_num_nodes :: "(entry_id, 'g) graph_ops \<Rightarrow> 'g osm_network \<Rightarrow> nat" where
  "osm_num_nodes G N = length (dg_nodes G (on_graph N))"

section \<open>Saved networks\<close>

definition SAVE_MAGIC :: bytes where
  "SAVE_MAGIC = [0x4F, 0x53, 0x4D, 0x4E]"

record 'g save_env =
  save_version :: "64 word"
  save_to_allocvec :: "'g osm_network \<Rightarrow> bytes option"
  save_from_bytes :: "bytes \<Rightarrow> 'g osm_network option"

definition osm_from_bytes ::
    "'g save_env \<Rightarrow> (entry_id, 'g) graph_ops \<Rightarrow> (entry_id set \<Rightarrow> entry_id list) \<Rightarrow> bytes \<Rightarrow> ('g osm_network, cache_error) outcome" where
  "osm_from_bytes S G order bs =
     (let header_len = length SAVE_MAGIC + 8
      in if length bs < header_len \<or> take (length SAVE_MAGIC) bs \<noteq> SAVE_MAGIC then Err MissingMagic
         else
           let version = from_le_bytes (take 8 (drop (length SAVE_MAGIC) bs))
           in if version \<noteq> save_version S then Err (FormatHash version)
              else (case save_from_bytes S (drop header_len bs) of
                      None \<Rightarrow> Err Deserialise
                    | Some N \<Rightarrow> Ok (osm_rebuild_indices G order N)))"

definition osm_to_bytes :: "'g save_env \<Rightarrow> 'g osm_network \<Rightarrow> (bytes, cache_error) outcome" where
  "osm_to_bytes S N =
     (case save_to_allocvec S N of
        None \<Rightarrow> Err Serialise
      | Some payload \<Rightarrow> Ok (SAVE_MAGIC @ to_le_bytes (save_version S) @ payload))"

datatype save_error = ReadPbf | SaveError cache_error | WriteFailed

text \<open>
  The saved file is its bytes, if it exists and can be read; \<open>can_write\<close> is whether writing it succeeds.
\<close>

definition from_pbf_and_save ::
    "'g save_env \<Rightarrow> (entry_id, 'g) graph_ops \<Rightarrow> (entry_id set \<Rightarrow> entry_id list) \<Rightarrow> ('g osm_network, unit) outcome
      \<Rightarrow> bool \<Rightarrow> bytes option \<Rightarrow> ('g osm_network, save_error) outcome \<times> bytes option" where
  "from_pbf_and_save S G order rebuilt can_write saved =
     (case (case saved of Some bs \<Rightarrow> osm_from_bytes S G order bs | None \<Rightarrow> Err MissingMagic) of
        Ok N \<Rightarrow> (Ok N, saved)
      | Panic \<Rightarrow> (Panic, saved)
      | Err e \<Rightarrow>
          (case rebuilt of
             Ok N \<Rightarrow>
               (case osm_to_bytes S N of
                  Ok bs \<Rightarrow> if can_write then (Ok N, Some bs) else (Err WriteFailed, saved)
                | Err e \<Rightarrow> (Err (SaveError e), saved)
                | Panic \<Rightarrow> (Panic, saved))
           | Err e \<Rightarrow> (Err ReadPbf, saved)
           | Panic \<Rightarrow> (Panic, saved)))"

section \<open>The trait methods\<close>

definition on_edges_in_box :: "rtree \<Rightarrow> 'g osm_network \<Rightarrow> rect \<Rightarrow> (entry_id, point) node edge list" where
  "on_edges_in_box t N b = row_search t (on_index_edge N) b"

definition on_nodes_in_box :: "rtree \<Rightarrow> 'g osm_network \<Rightarrow> rect \<Rightarrow> (entry_id, point) node list" where
  "on_nodes_in_box t N b = List.map_filter (on_hash N) (row_search t (on_index N) b)"

definition on_node :: "'g osm_network \<Rightarrow> entry_id \<Rightarrow> (entry_id, point) node option" where
  "on_node N i = on_hash N i"

definition on_edge :: "(entry_id, 'g) graph_ops \<Rightarrow> 'g osm_network \<Rightarrow> entry_id \<Rightarrow> entry_id \<Rightarrow> entry_id edge option" where
  "on_edge G N s t =
     map_option (\<lambda>(w, i). \<lparr>source = s, target = t, weight = w, edge_ident = i\<rparr>) (dg_edge_weight G (on_graph N) s t)"

definition on_nearest_node :: "rtree \<Rightarrow> 'g osm_network \<Rightarrow> point \<Rightarrow> (entry_id, point) node option" where
  "on_nearest_node t N p = (case row_nearest t (on_index N) p of None \<Rightarrow> None | Some i \<Rightarrow> on_hash N i)"

definition on_route_nodes ::
    "(entry_id, 'g) graph_ops \<Rightarrow> 'g osm_network \<Rightarrow> entry_id \<Rightarrow> entry_id \<Rightarrow> (nat \<times> (entry_id, point) node list) option" where
  "on_route_nodes G N start finish =
     map_option (\<lambda>(score, path). (score, List.map_filter (on_hash N) path)) (dg_astar G (on_graph N) start finish)"

definition on_metadata :: "'g osm_network \<Rightarrow> entry_id \<Rightarrow> edge_metadata option" where
  "on_metadata N i = on_meta N i"

definition on_point :: "'g osm_network \<Rightarrow> entry_id \<Rightarrow> point option" where
  "on_point N i = map_option node_position (on_hash N i)"

definition on_edges_into :: "(entry_id, 'g) graph_ops \<Rightarrow> 'g osm_network \<Rightarrow> entry_id \<Rightarrow> (entry_id \<times> entry_id \<times> entry_id edge_data) list" where
  "on_edges_into G N i = dg_incoming G (on_graph N) i"

definition on_edges_outof :: "(entry_id, 'g) graph_ops \<Rightarrow> 'g osm_network \<Rightarrow> entry_id \<Rightarrow> (entry_id \<times> entry_id \<times> entry_id edge_data) list" where
  "on_edges_outof G N i = dg_outgoing G (on_graph N) i"

definition on_fatten :: "'g osm_network \<Rightarrow> entry_id edge \<Rightarrow> (entry_id, point) node edge option" where
  "on_fatten N e =
     (case on_hash N (source e) of None \<Rightarrow> None | Some src \<Rightarrow>
     (case on_hash N (target e) of None \<Rightarrow> None | Some tgt \<Rightarrow>
        Some \<lparr>source = src, target = tgt, weight = weight e, edge_ident = osm_fat_id (edge_ident e)\<rparr>))"

definition osm_as_network :: "(entry_id, 'g) graph_ops \<Rightarrow> rtree \<Rightarrow> 'g osm_network \<Rightarrow> (entry_id, point, edge_metadata) network" where
  "osm_as_network G t N =
     \<lparr>metadata = on_metadata N, net_point = on_point N, edges_outof = on_edges_outof G N,
      edges_into = on_edges_into G N, fatten = on_fatten N,
      edges_in_box = (\<lambda>(lo, hi). on_edges_in_box t N (rect_new lo hi)),
      nodes_in_box = (\<lambda>(lo, hi). on_nodes_in_box t N (rect_new lo hi)),
      net_edge = on_edge G N, nearest_node = on_nearest_node t N, route_nodes = on_route_nodes G N\<rparr>"

end
