(* ===== verification/Osm_Network_Laws.thy ===== *)
theory Osm_Network_Laws
  imports Osm_Network Shard_Laws
begin

text \<open>
  What the network of a file holds: its edges are the consecutive references of the road ways, forward
  and, unless the way is one-way, backward; its nodes are those of the file the edges touch; its
  indices answer exactly; and none of it depends on how the elements were split between threads.
\<close>

section \<open>Ingesting is a homomorphism\<close>

lemma try_fold_hom:
  assumes step: "\<And>s x. f s x = and_then (f ident x) (\<lambda>b. Ok (combine s b))"
    and assoc: "\<And>a b c. combine (combine a b) c = combine a (combine b c)"
    and right: "\<And>a. combine a ident = a"
  shows "try_fold f xs s = and_then (try_fold f xs ident) (\<lambda>b. Ok (combine s b))"
proof (induction xs arbitrary: s)
  case (Cons x xs)
  have ih: "try_fold f xs = (\<lambda>s. and_then (try_fold f xs ident) (\<lambda>b. Ok (combine s b)))" using Cons by blast
  have "try_fold f (x # xs) s = and_then (f ident x) (\<lambda>b. try_fold f xs (combine s b))"
    by (subst try_fold.simps, subst step) (simp add: and_then_assoc)
  also have "\<dots> = and_then (f ident x) (\<lambda>b. and_then (try_fold f xs ident) (\<lambda>c. Ok (combine s (combine b c))))"
    by (subst ih) (simp add: assoc)
  also have "\<dots> = and_then (try_fold f (x # xs) ident) (\<lambda>c. Ok (combine s c))"
    by (subst try_fold.simps, subst ih) (simp add: and_then_assoc)
  finally show ?case .
qed (simp add: right)

lemma trees_laws:
  "trees_extend (trees_extend a b) c = trees_extend a (trees_extend b c)" "trees_extend a trees_empty = a" "trees_extend trees_empty a = a"
  by (simp_all add: trees_extend_def trees_empty_def)

lemma ingest_step: "ingest debug t e = and_then (ingest debug trees_empty e) (\<lambda>b. Ok (trees_extend t b))"
  by (cases e; cases "pick debug (way_tags (case e of ProcessedWay w \<Rightarrow> w))")
    (auto simp: ingest_def trees_extend_def trees_empty_def Let_def split: option.splits)

lemma ingest_grouping:
  "par_red (ingest debug) trees_extend trees_empty p = try_fold (ingest debug) (contents p) trees_empty"
  using trees_laws(1,2) by (intro par_red_contents try_fold_hom ingest_step)

section \<open>What is collected\<close>

definition ways_of :: "processed_element list \<Rightarrow> way list" where
  "ways_of els = List.map_filter (\<lambda>e. case e of ProcessedWay w \<Rightarrow> Some w | _ \<Rightarrow> None) els"

definition nodes_of :: "processed_element list \<Rightarrow> (entry_id, point) node list" where
  "nodes_of els = List.map_filter (\<lambda>e. case e of ProcessedNode n \<Rightarrow> Some n | _ \<Rightarrow> None) els"

definition class_of :: "way \<Rightarrow> road_class option" where
  "class_of w = tags_as road_class_from_str (way_tags w) ''highway''"

definition way_edges :: "way \<Rightarrow> entry_id edge list" where
  "way_edges w =
     (case class_of w of
        None \<Rightarrow> []
      | Some c \<Rightarrow> concat (map (pair_edges w (weighting c) (\<not> unidirectional (way_tags w))) (windows2 (way_references w))))"

lemma pick_class: "pick debug ts = Ok md \<Longrightarrow> md_road_class md = tags_as road_class_from_str ts ''highway''"
  by (auto simp: pick_def)

lemma ingest_collects:
  assumes "try_fold (ingest debug) els t = Ok t'"
  shows "tree_nodes t' = tree_nodes t @ nodes_of els" "tree_edges t' = tree_edges t @ concat (map way_edges (ways_of els))"
    and "\<exists>mds. tree_meta t' = tree_meta t @ mds
      \<and> (\<forall>i md. (i, md) \<in> set mds \<longrightarrow> (\<exists>w \<in> set (ways_of els). way_id w = i \<and> class_of w \<noteq> None \<and> pick debug (way_tags w) = Ok md))
      \<and> (\<forall>w \<in> set (ways_of els). class_of w \<noteq> None \<longrightarrow> way_id w \<in> fst ` set mds)"
  using assms
proof (induction els arbitrary: t)
  case Nil
  {
    case 1
    then show ?case by (simp add: nodes_of_def List.map_filter_def)
  next
    case 2
    then show ?case by (simp add: ways_of_def List.map_filter_def)
  next
    case 3
    then show ?case by (simp add: ways_of_def List.map_filter_def)
  }
next
  case (Cons e els)
  have split: "\<exists>s. ingest debug t e = Ok s \<and> try_fold (ingest debug) els s = Ok t'" if "try_fold (ingest debug) (e # els) t = Ok t'" for t
    using that by auto
  have one: "tree_nodes s = tree_nodes t @ nodes_of [e] \<and> tree_edges s = tree_edges t @ concat (map way_edges (ways_of [e]))
      \<and> (\<exists>mds. tree_meta s = tree_meta t @ mds
        \<and> (\<forall>i md. (i, md) \<in> set mds \<longrightarrow> (\<exists>w \<in> set (ways_of [e]). way_id w = i \<and> class_of w \<noteq> None \<and> pick debug (way_tags w) = Ok md))
        \<and> (\<forall>w \<in> set (ways_of [e]). class_of w \<noteq> None \<longrightarrow> way_id w \<in> fst ` set mds))"
    if step: "ingest debug t e = Ok s" for t s
  proof (cases e)
    case (ProcessedWay w)
    obtain md where md: "pick debug (way_tags w) = Ok md" using step ProcessedWay by (auto simp: ingest_def)
    have road: "md_road_class md = class_of w" using pick_class [OF md] by (simp add: class_of_def)
    show ?thesis
    proof (cases "class_of w")
      case None
      then show ?thesis using step ProcessedWay md road
        by (simp add: ingest_def nodes_of_def ways_of_def List.map_filter_def way_edges_def)
    next
      case (Some c)
      then show ?thesis using step ProcessedWay md road
        by (auto simp: ingest_def nodes_of_def ways_of_def List.map_filter_def way_edges_def Let_def)
    qed
  qed (use step in \<open>auto simp: ingest_def nodes_of_def ways_of_def List.map_filter_def\<close>)
  have parts: "nodes_of (e # els) = nodes_of [e] @ nodes_of els" "ways_of (e # els) = ways_of [e] @ ways_of els"
    by (simp_all add: nodes_of_def ways_of_def List.map_filter_def)
  {
    case 1
    then show ?case using split [OF 1] one Cons.IH(1) parts by fastforce
  next
    case 2
    then show ?case using split [OF 2] one Cons.IH(2) parts by fastforce
  next
    case 3
    from split [OF 3] obtain s where s: "ingest debug t e = Ok s" "try_fold (ingest debug) els s = Ok t'" by blast
    from one [OF s(1)] obtain m1 where m1: "tree_meta s = tree_meta t @ m1"
        "\<forall>i md. (i, md) \<in> set m1 \<longrightarrow> (\<exists>w \<in> set (ways_of [e]). way_id w = i \<and> class_of w \<noteq> None \<and> pick debug (way_tags w) = Ok md)"
        "\<forall>w \<in> set (ways_of [e]). class_of w \<noteq> None \<longrightarrow> way_id w \<in> fst ` set m1" by blast
    from Cons.IH(3) [OF s(2)] obtain m2 where m2: "tree_meta t' = tree_meta s @ m2"
        "\<forall>i md. (i, md) \<in> set m2 \<longrightarrow> (\<exists>w \<in> set (ways_of els). way_id w = i \<and> class_of w \<noteq> None \<and> pick debug (way_tags w) = Ok md)"
        "\<forall>w \<in> set (ways_of els). class_of w \<noteq> None \<longrightarrow> way_id w \<in> fst ` set m2" by blast
    show ?case
    proof (intro exI conjI)
      show "tree_meta t' = tree_meta t @ m1 @ m2" using m1(1) m2(1) by simp
      show "\<forall>i md. (i, md) \<in> set (m1 @ m2) \<longrightarrow>
          (\<exists>w \<in> set (ways_of (e # els)). way_id w = i \<and> class_of w \<noteq> None \<and> pick debug (way_tags w) = Ok md)"
        unfolding parts set_append using m1(2) m2(2) by blast
      show "\<forall>w \<in> set (ways_of (e # els)). class_of w \<noteq> None \<longrightarrow> way_id w \<in> fst ` set (m1 @ m2)"
        unfolding parts set_append image_Un using m1(3) m2(3) by blast
    qed
  }
qed

section \<open>The graph\<close>

definition road_refs :: "way \<Rightarrow> (entry_id \<times> entry_id) list" where
  "road_refs w = windows2 (map ref_id (way_references w))"

text \<open>An edge of the file: consecutive references of a road way, backward only if it is two-way.\<close>

definition drives :: "processed_element list \<Rightarrow> entry_id \<Rightarrow> entry_id \<Rightarrow> nat \<Rightarrow> entry_id edge_id \<Rightarrow> bool" where
  "drives els a b wt i \<longleftrightarrow>
     (\<exists>w \<in> set (ways_of els). \<exists>c. class_of w = Some c \<and> wt = weighting c
        \<and> (i = EdgeId (way_id w) Outgoing \<and> (a, b) \<in> set (road_refs w)
           \<or> i = EdgeId (way_id w) Incoming \<and> (b, a) \<in> set (road_refs w) \<and> \<not> unidirectional (way_tags w)))"

lemma windows2_map: "windows2 (map f xs) = map (\<lambda>(a, b). (f a, f b)) (windows2 xs)"
  by (simp add: windows2_def zip_map_map flip: map_tl)

lemma pair_edges_iff:
  "e \<in> set (pair_edges w wt two p) \<longleftrightarrow> weight e = wt
     \<and> (edge_ident e = EdgeId (way_id w) Outgoing \<and> source e = ref_id (fst p) \<and> target e = ref_id (snd p)
        \<or> edge_ident e = EdgeId (way_id w) Incoming \<and> source e = ref_id (snd p) \<and> target e = ref_id (fst p) \<and> two)"
  by (cases e; cases p) (auto simp: pair_edges_def edge_from_def Let_def)

lemma way_edges_iff:
  "e \<in> set (way_edges w) \<longleftrightarrow> (\<exists>c. class_of w = Some c \<and> weight e = weighting c
     \<and> (edge_ident e = EdgeId (way_id w) Outgoing \<and> (source e, target e) \<in> set (road_refs w)
        \<or> edge_ident e = EdgeId (way_id w) Incoming \<and> (target e, source e) \<in> set (road_refs w) \<and> \<not> unidirectional (way_tags w)))"
proof (cases "class_of w")
  case (Some c)
  have refs: "(x, y) \<in> set (road_refs w) \<longleftrightarrow> (\<exists>p \<in> set (windows2 (way_references w)). x = ref_id (fst p) \<and> y = ref_id (snd p))" for x y
    by (force simp: road_refs_def windows2_map)
  show ?thesis by (auto simp: way_edges_def Some pair_edges_iff refs)
qed (simp add: way_edges_def)

lemma drives_iff: "e \<in> set (concat (map way_edges (ways_of els))) \<longleftrightarrow> drives els (source e) (target e) (weight e) (edge_ident e)"
  by (auto simp: drives_def way_edges_iff)

definition edge_assoc :: "entry_id edge \<Rightarrow> (entry_id \<times> entry_id) \<times> entry_id edge_data" where
  "edge_assoc e = ((source e, target e), (weight e, edge_ident e))"

text \<open>The laws of the containers the network is built on.\<close>

locale osm_queries = graph_map G + spatial_tree t
  for G :: "(entry_id, 'g) graph_ops" and t :: rtree +
  fixes order :: "entry_id set \<Rightarrow> entry_id list"
  assumes order: "orders order"

context osm_queries
begin

lemma weight_add_edges:
  "dg_edge_weight G (fold (add_edge G) es g) a b =
    (case map_of (rev (map edge_assoc es)) (a, b) of Some x \<Rightarrow> Some x | None \<Rightarrow> dg_edge_weight G g a b)"
  by (induction es arbitrary: g) (auto simp: add_edge_def edge_assoc_def weight_add_edge map_add_def split: option.splits)

lemma nodes_add_edges:
  "set (dg_nodes G (fold (add_edge G) es g)) = set (dg_nodes G g) \<union> source ` set es \<union> target ` set es"
  by (induction es arbitrary: g) (auto simp: add_edge_def nodes_add_edge)

end

lemma hash_fold: "fold (\<lambda>n h. h(node_ident n \<mapsto> n)) ns h = h ++ map_of (rev (map (\<lambda>n. (node_ident n, n)) ns))"
  by (induction ns arbitrary: h) (auto simp: map_add_def fun_eq_iff split: option.splits)

lemma rebuild_keeps [simp]:
  "on_graph (osm_rebuild_indices G order N) = on_graph N" "on_hash (osm_rebuild_indices G order N) = on_hash N"
  "on_meta (osm_rebuild_indices G order N) = on_meta N"
  by (simp_all add: osm_rebuild_indices_def Let_def)

text \<open>The invariant of a network over the elements of a file.\<close>

definition osm_ok :: "(entry_id, 'g) graph_ops \<Rightarrow> processed_element list \<Rightarrow> 'g osm_network \<Rightarrow> bool" where
  "osm_ok G els N \<longleftrightarrow>
     (\<forall>a b. case dg_edge_weight G (on_graph N) a b of
         Some (wt, i) \<Rightarrow> drives els a b wt i
       | None \<Rightarrow> \<nexists>wt i. drives els a b wt i)
     \<and> (\<forall>k n. on_hash N k = Some n \<longrightarrow> n \<in> set (nodes_of els) \<and> node_ident n = k \<and> k \<in> set (dg_nodes G (on_graph N)))
     \<and> (\<forall>n \<in> set (nodes_of els). node_ident n \<in> set (dg_nodes G (on_graph N)) \<longrightarrow> on_hash N (node_ident n) \<noteq> None)
     \<and> (\<forall>k. k \<in> set (dg_nodes G (on_graph N)) \<longleftrightarrow> (\<exists>x wt i. drives els k x wt i \<or> drives els x k wt i))
     \<and> (\<forall>i. case on_meta N i of
         Some md \<Rightarrow> \<exists>w \<in> set (ways_of els). way_id w = i \<and> md_road_class md = class_of w \<and> class_of w \<noteq> None
            \<and> md_access md = access_of_tags (way_tags w)
       | None \<Rightarrow> \<forall>w \<in> set (ways_of els). way_id w = i \<longrightarrow> class_of w = None)"

lemma pick_access: "pick debug ts = Ok md \<Longrightarrow> md_access md = access_of_tags ts"
  by (auto simp: pick_def)

lemma map_of_rev_Some: "map_of (rev xs) k = Some v \<Longrightarrow> (k, v) \<in> set xs"
  by (drule map_of_SomeD) simp

lemma map_of_rev_None: "map_of (rev xs) k = None \<longleftrightarrow> k \<notin> fst ` set xs"
  by (simp add: map_of_eq_None_iff)

context osm_queries
begin

lemma network_of_elements_ok:
  assumes net: "network_of_elements G order debug p = Ok N"
  shows "osm_ok G (contents p) N"
proof -
  let ?els = "contents p"
  obtain tr where t: "try_fold (ingest debug) ?els trees_empty = Ok tr" "N = network_of_trees G order tr"
    using net by (auto simp: network_of_elements_def ingest_grouping)
  note collects = ingest_collects [OF t(1)]
  have nodes: "tree_nodes tr = nodes_of ?els" and edges: "tree_edges tr = concat (map way_edges (ways_of ?els))"
    using collects(1,2) by (simp_all add: trees_empty_def)
  let ?g = "fold (add_edge G) (tree_edges tr) (dg_new G)"
  have parts: "on_graph N = ?g" "on_meta N = map_of (rev (tree_meta tr))"
      "on_hash N = map_of (rev (map (\<lambda>n. (node_ident n, n)) (filter (\<lambda>n. node_ident n \<in> set (dg_nodes G ?g)) (tree_nodes tr))))"
    by (simp_all add: t(2) network_of_trees_def Let_def hash_fold)
  have weights: "dg_edge_weight G ?g a b = map_of (rev (map edge_assoc (tree_edges tr))) (a, b)" for a b
    by (simp add: weight_add_edges weight_new split: option.splits)
  have in_edges: "(\<exists>e \<in> set (tree_edges tr). edge_assoc e = ((a, b), (wt, i))) \<longleftrightarrow> drives ?els a b wt i" for a b wt i
  proof
    assume "drives ?els a b wt i"
    then have "\<lparr>source = a, target = b, weight = wt, edge_ident = i\<rparr> \<in> set (tree_edges tr)"
      unfolding edges drives_iff by simp
    then show "\<exists>e \<in> set (tree_edges tr). edge_assoc e = ((a, b), (wt, i))" by (rule bexI [rotated]) (simp add: edge_assoc_def)
  qed (auto simp: edges drives_iff edge_assoc_def simp del: set_concat)
  have graph: "case dg_edge_weight G ?g a b of Some (wt, i) \<Rightarrow> drives ?els a b wt i | None \<Rightarrow> \<nexists>wt i. drives ?els a b wt i" for a b
  proof (cases "dg_edge_weight G ?g a b")
    case None
    then have "(a, b) \<notin> fst ` set (map edge_assoc (tree_edges tr))" by (metis weights map_of_rev_None)
    then have "\<nexists>wt i. \<exists>e \<in> set (tree_edges tr). edge_assoc e = ((a, b), (wt, i))" by force
    then show ?thesis using None in_edges by auto
  next
    case (Some x)
    then have "((a, b), x) \<in> edge_assoc ` set (tree_edges tr)" using map_of_rev_Some by (fastforce simp: weights)
    then show ?thesis using Some in_edges [of a b "fst x" "snd x"] by (cases x) force
  qed
  have touched: "k \<in> set (dg_nodes G ?g) \<longleftrightarrow> (\<exists>x wt i. drives ?els k x wt i \<or> drives ?els x k wt i)" for k
  proof -
    have "k \<in> set (dg_nodes G ?g) \<longleftrightarrow> (\<exists>e \<in> set (tree_edges tr). source e = k \<or> target e = k)"
      by (auto simp: nodes_add_edges nodes_new)
    also have "\<dots> \<longleftrightarrow> (\<exists>x wt i. (\<exists>e \<in> set (tree_edges tr). edge_assoc e = ((k, x), (wt, i))) \<or> (\<exists>e \<in> set (tree_edges tr). edge_assoc e = ((x, k), (wt, i))))"
      unfolding edge_assoc_def prod.inject by blast
    finally show ?thesis unfolding in_edges .
  qed
  obtain mds where mds: "tree_meta tr = mds"
      "\<forall>i md. (i, md) \<in> set mds \<longrightarrow> (\<exists>w \<in> set (ways_of ?els). way_id w = i \<and> class_of w \<noteq> None \<and> pick debug (way_tags w) = Ok md)"
      "\<forall>w \<in> set (ways_of ?els). class_of w \<noteq> None \<longrightarrow> way_id w \<in> fst ` set mds"
    using collects(3) by (auto simp: trees_empty_def)
  have meta: "case map_of (rev mds) i of
      Some md \<Rightarrow> \<exists>w \<in> set (ways_of ?els). way_id w = i \<and> md_road_class md = class_of w \<and> class_of w \<noteq> None \<and> md_access md = access_of_tags (way_tags w)
    | None \<Rightarrow> \<forall>w \<in> set (ways_of ?els). way_id w = i \<longrightarrow> class_of w = None" for i
  proof (cases "map_of (rev mds) i")
    case None
    then show ?thesis using mds(3) map_of_rev_None [of mds i] by auto
  next
    case (Some md)
    from mds(2) map_of_rev_Some [OF Some] obtain w where "w \<in> set (ways_of ?els)" "way_id w = i" "class_of w \<noteq> None" "pick debug (way_tags w) = Ok md"
      by blast
    then show ?thesis using Some pick_class [of debug "way_tags w" md] pick_access [of debug "way_tags w" md]
      by (auto simp: class_of_def)
  qed
  have hash: "n \<in> set (nodes_of ?els) \<and> node_ident n = k \<and> k \<in> set (dg_nodes G ?g)" if "on_hash N k = Some n" for k n
    using map_of_rev_Some [OF that [unfolded parts(3)]] by (auto simp: nodes)
  have known: "on_hash N (node_ident n) \<noteq> None" if "n \<in> set (nodes_of ?els)" "node_ident n \<in> set (dg_nodes G ?g)" for n
    using that unfolding parts(3) map_of_rev_None by (force simp: nodes)
  show ?thesis unfolding osm_ok_def parts(1,2) mds(1)
    using graph touched meta hash known by (intro conjI allI ballI impI) blast+
qed

lemma osm_nodes_in_box:
  assumes "N = osm_rebuild_indices G order N'" "finite (dom (on_hash N))"
  shows "set (on_nodes_in_box t N b)
    = {n. \<exists>k. on_hash N k = Some n \<and> touches (corners_rect (node_position n, node_position n)) b}"
proof -
  let ?pos = "\<lambda>i. node_position (the (on_hash N i))"
  have ix: "on_index N = row_index_build (order (dom (on_hash N))) (\<lambda>i. (?pos i, ?pos i))"
    by (simp add: assms(1) osm_rebuild_indices_def Let_def)
  have "set (order (dom (on_hash N))) = dom (on_hash N)" using order assms(2) by (simp add: orders_def)
  then have "set (row_search t (on_index N) b) = {k \<in> dom (on_hash N). touches (corners_rect (?pos k, ?pos k)) b}"
    unfolding ix row_search_exact by simp
  then show ?thesis by (force simp: on_nodes_in_box_def List.map_filter_def)
qed

lemma osm_edges_in_box:
  assumes "N = osm_rebuild_indices G order N'"
  shows "set (on_edges_in_box t N b)
    = {e. touches (corners_rect (envelope_of (node_position (source e)) (node_position (target e)))) b
        \<and> (\<exists>a a' wt i. dg_edge_weight G (on_graph N) a a' = Some (wt, i) \<and> edge_row (on_hash N) (a, a', wt, i) = Some e)}"
proof -
  let ?es = "List.map_filter (edge_row (on_hash N)) (dg_all_edges G (on_graph N))"
  have ix: "on_index_edge N = row_index_build ?es (\<lambda>e. envelope_of (node_position (source e)) (node_position (target e)))"
    by (simp add: assms(1) osm_rebuild_indices_def Let_def)
  have "e \<in> set ?es \<longleftrightarrow> (\<exists>a a' wt i. dg_edge_weight G (on_graph N) a a' = Some (wt, i) \<and> edge_row (on_hash N) (a, a', wt, i) = Some e)" for e
  proof -
    have "e \<in> set ?es \<longleftrightarrow> (\<exists>a a' w. (a, a', w) \<in> set (dg_all_edges G (on_graph N)) \<and> edge_row (on_hash N) (a, a', w) = Some e)"
      by (force simp: List.map_filter_def)
    then show ?thesis unfolding all_edges by (metis surj_pair)
  qed
  then show ?thesis unfolding on_edges_in_box_def ix row_search_exact by blast
qed

lemma network_indexed:
  assumes "network_of_elements G order debug p = Ok N"
  shows "\<exists>N'. N = osm_rebuild_indices G order N'" "finite (dom (on_hash N))"
proof -
  obtain tr where tr: "N = network_of_trees G order tr" using assms by (auto simp: network_of_elements_def)
  then show "\<exists>N'. N = osm_rebuild_indices G order N'" unfolding network_of_trees_def Let_def by blast
  show "finite (dom (on_hash N))" by (simp add: tr network_of_trees_def Let_def hash_fold finite_dom_map_of)
qed

end

interpretation list_osm: osm_queries list_graph scan_tree sorted_list_of_set
  by unfold_locales simp

section \<open>Saved networks\<close>

text \<open>A decoder restores everything that is serialised: the graph, the nodes and the metadata.\<close>

definition save_decodes :: "'g save_env \<Rightarrow> 'g osm_network \<Rightarrow> bool" where
  "save_decodes S N \<longleftrightarrow>
     (\<exists>bs M. save_to_allocvec S N = Some bs \<and> save_from_bytes S bs = Some M
        \<and> on_graph M = on_graph N \<and> on_hash M = on_hash N \<and> on_meta M = on_meta N)"

lemma rebuild_same:
  assumes "on_graph M = on_graph N" "on_hash M = on_hash N" "on_meta M = on_meta N" "N = osm_rebuild_indices G order N'"
  shows "osm_rebuild_indices G order M = N"
proof -
  have "on_graph N = on_graph N'" "on_hash N = on_hash N'" "on_meta N = on_meta N'" using assms(4) by simp_all
  then show ?thesis using assms by (cases M; cases N') (simp add: osm_rebuild_indices_def Let_def)
qed

end
