(* ===== verification/Access_Laws.thy ===== *)
theory Access_Laws
  imports Access
begin

text \<open>
  The names of modes, directions and access values are read back, and a printed restriction parses to
  itself exactly when the name of its mode has no colon: the label is split at colons, so the children
  of a mode that are written with one are read as their parent.
\<close>

lemma directionality_round_trip: "directionality_from_str (directionality_name d) = Some d"
  by (cases d; simp add: directionality_from_str_def named_def)

lemma access_round_trip: "access_from_str (access_name a) = Some a"
  by (cases a; simp add: access_from_str_def access_values_def named_def)

lemma road_class_round_trip: "road_class_from_str (road_class_name c) = Some c"
  by (cases c; simp add: road_class_from_str_def road_classes_def named_def)

definition mode_names :: "string list" where
  "mode_names =
     [''access'', ''foot'', ''dog'', ''ski'', ''ski:nordic'', ''ski:alpine'', ''ski:telemark'',
      ''inline_skates'', ''horse'', ''portage'', ''bicycle'', ''electric_bicycle'', ''mtb'', ''cargo_bike'',
      ''kick_scooter'', ''carriage'', ''cycle_rickshaw'', ''hand_cart'', ''trailer'', ''caravan'',
      ''vehicle'', ''motor_vehicle'', ''motorcycle'', ''moped'', ''speed_pedelec'', ''mofa'',
      ''small_electric_vehicle'', ''motorcar'', ''motorhome'', ''tourist_bus'', ''coach'', ''goods'', ''hgv'',
      ''hgv_articulated'', ''bdouble'', ''agricultural'', ''auto_rickshaw'', ''nev'', ''golf_cart'',
      ''microcar'', ''atv'', ''ohv'', ''snowmobile'', ''psv'', ''bus'', ''taxi'', ''minibus'', ''share_taxi'',
      ''hov'', ''carpool'', ''car_sharing'', ''emergency'', ''hazmat'', ''hazmat:water'', ''school_bus'',
      ''disabled'', ''water_access'', ''swimming'', ''ice_skates'', ''boat'', ''motorboat'', ''sailboat'',
      ''canoe'', ''fishing_vessel'', ''ship'', ''passenger'', ''cargo'', ''bulk'', ''tanker'', ''tanker:gas'',
      ''tanker:oil'', ''tanker:chemical'', ''tanker:singlehull'', ''container'', ''imdg'', ''isps'',
      ''rail_access'', ''train'', ''tram'', ''metro'']"

lemma mode_names_all: "map mode_name all_modes = mode_names"
  by (simp add: all_modes_def mode_names_def)

lemma mode_names_distinct: "distinct mode_names"
  by code_simp

lemma mode_names_no_direction: "list_all (\<lambda>s. directionality_from_str s = None) mode_names"
  by code_simp

lemma mode_name_inj: "mode_name a = mode_name b \<Longrightarrow> a = b"
proof -
  assume "mode_name a = mode_name b"
  moreover have "inj_on mode_name (set all_modes)"
    using mode_names_distinct by (simp add: distinct_map flip: mode_names_all)
  ultimately show "a = b" using all_modes_complete by (auto dest: inj_onD)
qed

lemma mode_round_trip: "mode_from_str (mode_name m) = Some m"
  unfolding mode_from_str_def using all_modes_complete mode_name_inj by (intro named_name)

lemma mode_name_no_direction: "directionality_from_str (mode_name m) = None"
  using mode_names_no_direction all_modes_complete [of m] by (auto simp: list_all_iff simp flip: mode_names_all)

lemma directionality_name_colon: "CHR '':'' \<notin> set (directionality_name d)"
  by (cases d) auto

text \<open>A name that is parsed as a whole is a section without colon.\<close>

lemma split_all_free: "s \<in> set (split_all c l) \<Longrightarrow> c \<notin> set s"
proof (induction l arbitrary: s)
  case (Cons x xs)
  obtain p ps where "split_all c xs = p # ps" using split_all_nonempty by (metis neq_Nil_conv)
  then show ?case using Cons.prems Cons.IH [of p] Cons.IH [of s] by (auto split: if_splits)
qed simp

lemma parse_builder_mode:
  assumes "optional_mode (parse_builder label) = Some m"
  shows "CHR '':'' \<notin> set (mode_name m)"
proof -
  let ?step = "\<lambda>section acc.
         \<lparr>optional_mode = (case optional_mode acc of Some m \<Rightarrow> Some m | None \<Rightarrow> mode_from_str section),
          optional_direction = (case optional_direction acc of Some d \<Rightarrow> Some d | None \<Rightarrow> directionality_from_str section)\<rparr>"
  have first: "optional_mode (fold ?step ss acc) = (case optional_mode acc of Some m \<Rightarrow> Some m | None \<Rightarrow> find_map mode_from_str ss)"
    for ss acc
  proof (induction ss arbitrary: acc)
    case (Cons s ss)
    show ?case using Cons.IH [of "?step s acc"] by (cases "optional_mode acc"; cases "mode_from_str s") simp_all
  qed (simp split: option.splits)
  have "find_map mode_from_str (split_all (CHR '':'') label) = Some m"
    using assms unfolding parse_builder_def first by simp
  then obtain s where "s \<in> set (split_all (CHR '':'') label)" "mode_from_str s = Some m"
    by (metis find_map_SomeD)
  then show ?thesis using split_all_free named_Some unfolding mode_from_str_def by metis
qed

lemma restriction_round_trip:
  "parse_require_transport_mode (restriction_display r) = Some r \<longleftrightarrow> CHR '':'' \<notin> set (mode_name (restricted_mode r))"
proof
  assume "parse_require_transport_mode (restriction_display r) = Some r"
  then have "optional_mode (parse_builder (restriction_display r)) = Some (restricted_mode r)"
    by (cases r) (auto simp: parse_require_transport_mode_def Let_def)
  then show "CHR '':'' \<notin> set (mode_name (restricted_mode r))" by (rule parse_builder_mode)
next
  assume "CHR '':'' \<notin> set (mode_name (restricted_mode r))"
  then have "split_all (CHR '':'') (restriction_display r)
      = [mode_name (restricted_mode r), directionality_name (restricted_direction r)]"
    by (simp add: restriction_display_def split_all_piece split_all_whole directionality_name_colon)
  then show "parse_require_transport_mode (restriction_display r) = Some r"
    by (simp add: parse_require_transport_mode_def parse_builder_def mode_round_trip mode_name_no_direction directionality_round_trip)
qed

end
