(* ===== verification/Osm_Theorems.thy ===== *)
theory Osm_Theorems
  imports Osm_Network_Laws Access_Laws
begin

text \<open>The properties of the map codec, from the text of a tag to the network of a file.\<close>

section \<open>Tags\<close>


text \<open>
  (C31) Printed opening hours parse back to themselves exactly when every rule is open and has no
  weekdays, or no times and weekdays that are not a list of fewer than two.
\<close>

theorem hours_round_trip:
  assumes "hours_typed oh"
  shows "parse_hours (show_hours oh) = Ok oh \<longleftrightarrow> list_all printable (rules oh)"
  using assms by (rule parse_show_hours)

definition night :: opening_hours where
  "night = \<lparr>rules = [\<lparr>weekdays = None, times = [\<lparr>range_start = \<lparr>hour = 22, minute = 30\<rparr>, range_end = \<lparr>hour = 6, minute = 0\<rparr>\<rparr>],
     closed = False\<rparr>]\<rparr>"

theorem hours_round_trip_witness: "parse_hours ''22:30-06:00'' = Ok night"
proof -
  have "hours_typed night" "list_all printable (rules night)" "show_hours night = ''22:30-06:00''" by code_simp+
  then show ?thesis using hours_round_trip [of night] by simp
qed

definition applying_tags :: "direction \<Rightarrow> trip_configuration \<Rightarrow> access_tag list \<Rightarrow> access_tag list" where
  "applying_tags d conditions ts =
     filter (\<lambda>t. restricted_mode (tag_restriction t) \<in> set (hierarchy_chain (travel_mode conditions)) \<and> direction_matches d t) ts"

definition tag_level :: "access_tag \<Rightarrow> nat" where
  "tag_level t = specificity_level (restricted_mode (tag_restriction t))"

lemma accessible_applying:
  "accessible md conditions d \<longleftrightarrow>
     (case max_by_key tag_level (applying_tags d conditions (md_access md)) of Some t \<Rightarrow> permits conditions (tag_access t) | None \<Rightarrow> True)"
  by (simp add: accessible_def Let_def applying_tags_def tag_level_def [abs_def] restricted_iff_ancestor conj_commute)

lemma applying_decides:
  fixes md :: edge_metadata and conditions :: trip_configuration and d :: direction
  defines "A \<equiv> set (applying_tags d conditions (md_access md))"
  shows "\<forall>t \<in> A. permits conditions (tag_access t) \<Longrightarrow> accessible md conditions d"
    and "A \<noteq> {} \<Longrightarrow> \<forall>t \<in> A. (\<forall>t' \<in> A. tag_level t' \<le> tag_level t) \<longrightarrow> \<not> permits conditions (tag_access t) \<Longrightarrow> \<not> accessible md conditions d"
proof -
  let ?as = "applying_tags d conditions (md_access md)"
  have most: "\<exists>t \<in> A. (\<forall>t' \<in> A. tag_level t' \<le> tag_level t) \<and> (accessible md conditions d \<longleftrightarrow> permits conditions (tag_access t))"
    if ne: "?as \<noteq> []"
  proof -
    obtain t where "max_by_key tag_level ?as = Some t" "t \<in> set ?as" "\<forall>t' \<in> set ?as. tag_level t' \<le> tag_level t"
      by (rule max_by_key_greatest [OF ne])
    then show ?thesis by (intro bexI [of _ t]) (simp_all add: A_def accessible_applying)
  qed
  show "\<forall>t \<in> A. permits conditions (tag_access t) \<Longrightarrow> accessible md conditions d"
    using most by (cases "?as = []") (auto simp: accessible_applying)
  show "A \<noteq> {} \<Longrightarrow> \<forall>t \<in> A. (\<forall>t' \<in> A. tag_level t' \<le> tag_level t) \<longrightarrow> \<not> permits conditions (tag_access t) \<Longrightarrow> \<not> accessible md conditions d"
    using most by (cases "?as = []") (auto simp: A_def)
qed

text \<open>
  (C32) A way is accessible unless an access tag says otherwise. The tags that apply are those in the
  direction of travel for the mode of travel or one of its ancestors in the hierarchy. If none of them
  disallows access the way is accessible, with none at all in particular; and if there are some and the
  most specific of them disallow it, it is not.
\<close>

theorem access_tags_decide:
  fixes ts :: tags and conditions :: trip_configuration and d :: direction
  assumes "pick debug ts = Ok md"
  defines "A \<equiv> set (applying_tags d conditions (access_of_tags ts))"
  shows "((\<forall>t \<in> A. permits conditions (tag_access t)) \<longrightarrow> accessible md conditions d)
    \<and> (A \<noteq> {} \<and> (\<forall>t \<in> A. (\<forall>t' \<in> A. tag_level t' \<le> tag_level t) \<longrightarrow> \<not> permits conditions (tag_access t))
        \<longrightarrow> \<not> accessible md conditions d)"
  using applying_decides [of d conditions md] unfolding A_def pick_access [OF assms(1), symmetric] by blast

text \<open>A road for motor vehicles that is closed to buses.\<close>

definition car_road :: tags where
  "car_road = [(''highway'', ''primary''), (''motor_vehicle'', ''yes''), (''psv'', ''no'')]"

lemma car_road_access:
  "access_of_tags car_road =
    [\<lparr>tag_restriction = \<lparr>restricted_mode = MotorVehicle, restricted_direction = BothWays\<rparr>, tag_access = Yes\<rparr>,
     \<lparr>tag_restriction = \<lparr>restricted_mode = Psv, restricted_direction = BothWays\<rparr>, tag_access = No\<rparr>]"
  by (simp add: access_of_tags_def parse_access_def car_road_def List.map_filter_def from_tag_def from_key_value_def
      access_from_str_def access_values_def named_def parse_require_transport_mode_def parse_builder_def mode_from_str_def
      all_modes_def directionality_from_str_def)

lemma car_road_pick: "\<exists>md. pick (\<lambda>e. 0 :: nat) car_road = Ok md"
  by (simp add: pick_def parse_speed_limits_def car_road_def)

theorem access_tags_decide_witness:
  "\<exists>md. pick (\<lambda>e. 0 :: nat) car_road = Ok md \<and> accessible md (runtime_of (Some (Car None))) Outgoing
    \<and> \<not> accessible md (runtime_of (Some (BusTransport None))) Outgoing"
proof -
  obtain md where md: "pick (\<lambda>e. 0 :: nat) car_road = Ok md" using car_road_pick by blast
  have "applying_tags Outgoing (runtime_of (Some (Car None))) (access_of_tags car_road) = [hd (access_of_tags car_road)]"
      "applying_tags Outgoing (runtime_of (Some (BusTransport None))) (access_of_tags car_road) = access_of_tags car_road"
    by (simp_all add: applying_tags_def car_road_access runtime_of_def direction_matches_def)
  then show ?thesis using md access_tags_decide [OF md, of Outgoing "runtime_of (Some (Car None))"]
      access_tags_decide [OF md, of Outgoing "runtime_of (Some (BusTransport None))"]
    by (simp add: car_road_access permits_def tag_level_def specificity_level_def)
qed

text \<open>Where the tags that apply disagree, the most specific decides alone: the road below is closed to motor vehicles and open to buses.\<close>

definition bus_road :: tags where
  "bus_road = [(''highway'', ''primary''), (''psv'', ''yes''), (''motor_vehicle'', ''no'')]"

lemma bus_road_access:
  "access_of_tags bus_road =
    [\<lparr>tag_restriction = \<lparr>restricted_mode = Psv, restricted_direction = BothWays\<rparr>, tag_access = Yes\<rparr>,
     \<lparr>tag_restriction = \<lparr>restricted_mode = MotorVehicle, restricted_direction = BothWays\<rparr>, tag_access = No\<rparr>]"
  by (simp add: access_of_tags_def parse_access_def bus_road_def List.map_filter_def from_tag_def from_key_value_def
      access_from_str_def access_values_def named_def parse_require_transport_mode_def parse_builder_def mode_from_str_def
      all_modes_def directionality_from_str_def)

lemma most_specific_tag_decides:
  assumes "pick debug bus_road = Ok md"
  shows "accessible md (runtime_of (Some (BusTransport None))) Outgoing" "\<not> accessible md (runtime_of (Some (Car None))) Outgoing"
  unfolding accessible_applying pick_access [OF assms]
  by (simp_all add: applying_tags_def bus_road_access runtime_of_def direction_matches_def permits_def tag_level_def specificity_level_def)

section \<open>Files\<close>

text \<open>
  (C33) Reading a file ends when none of the headers it reaches claims a negative size, and then never leaves
  the buffer; a file made of frames yields exactly its frames, with the data of each.
\<close>

theorem reading_ends:
  assumes "length buf < 2 ^ 62"
  shows "(sane_sizes E buf \<longrightarrow> (\<exists>items. collect_blobs E buf blob_iterator_new = Some (Ok items)))
    \<and> (\<forall>fs. buf = concat (map frame_bytes fs) \<longrightarrow> list_all (frame_ok E) fs \<longrightarrow>
        (\<exists>items. collect_blobs E buf blob_iterator_new = Some (Ok items)
          \<and> map (slice_of buf) items = map (Some \<circ> frame_data) fs
          \<and> map (Some \<circ> item_header) items = map (decode_blob_header E \<circ> frame_header) fs))"
proof (intro conjI allI impI)
  assume sane: "sane_sizes E buf"
  show "\<exists>items. collect_blobs E buf blob_iterator_new = Some (Ok items)"
    by (rule collect_blobs_ends [OF sane assms]) (simp_all add: blob_iterator_new_def first_frame)
next
  fix fs
  assume "buf = concat (map frame_bytes fs)" "list_all (frame_ok E) fs"
  then show "\<exists>items. collect_blobs E buf blob_iterator_new = Some (Ok items)
      \<and> map (slice_of buf) items = map (Some \<circ> frame_data) fs
      \<and> map (Some \<circ> item_header) items = map (decode_blob_header E \<circ> frame_header) fs"
    by (intro collect_frames [where pre = "[]"] assms) (simp_all add: blob_iterator_new_def)
qed

definition tiny_pbf :: pbf_env where
  "tiny_pbf = \<lparr>decode_blob_header = (\<lambda>bs. if bs = [9] then Some \<lparr>header_type = ''OSMData'', datasize = 2\<rparr> else None),
     decode_blob = (\<lambda>bs. None), zlib_read_exact = (\<lambda>bs n. None), decode_primitive_block = (\<lambda>bs. None),
     decodes_header_block = (\<lambda>bs. False)\<rparr>"

theorem reading_ends_witness:
  "sane_sizes tiny_pbf [0, 0, 0, 1, 9, 5, 6]
    \<and> (\<exists>items. collect_blobs tiny_pbf [0, 0, 0, 1, 9, 5, 6] blob_iterator_new = Some (Ok items)
    \<and> map (slice_of [0, 0, 0, 1, 9, 5, 6]) items = [Some [5, 6]])"
proof -
  let ?f = "\<lparr>frame_length = [0, 0, 0, 1], frame_header = [9], frame_data = [5, 6]\<rparr>"
  have sane: "sane_sizes tiny_pbf [0, 0, 0, 1, 9, 5, 6]"
    by (auto simp: sane_sizes_def header_at_def tiny_pbf_def split: if_splits)
  have small: "length ([0, 0, 0, 1, 9, 5, 6] :: bytes) < 2 ^ 62" by simp
  have "from_be_bytes [0, 0, 0, 1] = 1" by code_simp
  then have ok: "list_all (frame_ok tiny_pbf) [?f]" by (simp add: frame_ok_def tiny_pbf_def)
  have framed: "[0, 0, 0, 1, 9, 5, 6] = concat (map frame_bytes [?f])" by (simp add: frame_bytes_def)
  have "map (Some \<circ> frame_data) [?f] = [Some [5, 6]]" by simp
  then show ?thesis using sane reading_ends [OF small, THEN conjunct2, rule_format, OF framed ok] by metis
qed

text \<open>
  (C34) The network of a file does not depend on how its elements are split between threads, and holds
  exactly what they say: its edges are the consecutive references of the road ways with the weight of
  their class, forward and, on two-way roads, backward; its nodes are the file's nodes that edges
  touch; its metadata is that of the road ways. A box search returns exactly the nodes in the box and
  the edges between known nodes whose envelope meets it. The file is taken to have no road way tagged
  \<open>oneway=-1\<close>, a one-way road against the order of its references.
\<close>

theorem network_of_file:
  assumes "osm_queries G t order" and net: "network_of_elements G order debug p = Ok N"
    and "\<not> (\<exists>w \<in> set (ways_of (contents p)). class_of w \<noteq> None \<and> tags_get (way_tags w) ''oneway'' = Some ''-1'')"
  shows "network_of_elements G order debug (Part (contents p)) = Ok N
    \<and> (\<forall>a b. case dg_edge_weight G (on_graph N) a b of
         Some (wt, i) \<Rightarrow> drives (contents p) a b wt i
       | None \<Rightarrow> \<nexists>wt i. drives (contents p) a b wt i)
    \<and> osm_ok G (contents p) N
    \<and> set (nodes_in_box (osm_as_network G t N) (lo, hi))
      = {n. \<exists>k. on_hash N k = Some n \<and> touches (corners_rect (node_position n, node_position n)) (rect_new lo hi)}
    \<and> set (edges_in_box (osm_as_network G t N) (lo, hi))
      = {e. touches (corners_rect (envelope_of (node_position (source e)) (node_position (target e)))) (rect_new lo hi)
          \<and> (\<exists>a b wt i. dg_edge_weight G (on_graph N) a b = Some (wt, i) \<and> edge_row (on_hash N) (a, b, wt, i) = Some e)}"
proof -
  have ok: "osm_ok G (contents p) N" using osm_queries.network_of_elements_ok [OF assms(1,2)] .
  obtain N' where ix: "N = osm_rebuild_indices G order N'" using osm_queries.network_indexed(1) [OF assms(1,2)] by blast
  note boxes = osm_queries.osm_nodes_in_box [OF assms(1) ix osm_queries.network_indexed(2) [OF assms(1,2)]]
    osm_queries.osm_edges_in_box [OF assms(1) ix]
  have "network_of_elements G order debug (Part (contents p)) = Ok N"
    using net by (simp add: network_of_elements_def ingest_grouping)
  moreover have "\<forall>a b. case dg_edge_weight G (on_graph N) a b of
         Some (wt, i) \<Rightarrow> drives (contents p) a b wt i
       | None \<Rightarrow> \<nexists>wt i. drives (contents p) a b wt i"
    using ok unfolding osm_ok_def by blast
  ultimately show ?thesis using ok boxes by (simp add: osm_as_network_def)
qed

text \<open>A one-way street of two nodes, read by two threads.\<close>

definition one_way_street :: way where
  "one_way_street = \<lparr>way_id = 100, way_references = [\<lparr>ref_id = 1, ref_role = None\<rparr>, \<lparr>ref_id = 2, ref_role = None\<rparr>],
     way_tags = [(''highway'', ''residential''), (''oneway'', ''yes'')]\<rparr>"

definition street_parts :: "processed_element parts" where
  "street_parts = Fork (Part [ProcessedNode (node_new (0, 0) 1), ProcessedNode (node_new (1, 0) 2)])
     (Fork (Part [ProcessedNode (node_new (5, 5) 3)]) (Part [ProcessedWay one_way_street]))"

lemma street_class: "class_of one_way_street = Some Residential"
  by (simp add: class_of_def one_way_street_def tags_as_def tags_get_def road_class_from_str_def road_classes_def named_def)

lemma street_fields:
  "way_id one_way_street = 100" "road_refs one_way_street = [(1, 2)]" "unidirectional (way_tags one_way_street)"
  by (simp_all add: one_way_street_def road_refs_def unidirectional_def one_way_def tags_get_def)

lemma street_network: "\<exists>N. network_of_elements list_graph sorted_list_of_set (\<lambda>e. 0 :: nat) street_parts = Ok N"
proof -
  obtain md where "pick (\<lambda>e. 0 :: nat) (way_tags one_way_street) = Ok md"
    by (simp add: pick_def parse_speed_limits_def one_way_street_def)
  then have "\<exists>s'. ingest (\<lambda>e. 0 :: nat) s (ProcessedWay one_way_street) = Ok s'" for s
    by (cases "md_road_class md") (auto simp: ingest_def Let_def)
  then show ?thesis
    by (auto simp: network_of_elements_def street_parts_def ingest_def [where e = "ProcessedNode n" for n])
qed

lemma street_drives: "drives (contents street_parts) a b wt i \<longleftrightarrow> a = 1 \<and> b = 2 \<and> wt = 10 \<and> i = EdgeId 100 Outgoing"
proof -
  have "ways_of (contents street_parts) = [one_way_street]" by (simp add: street_parts_def ways_of_def List.map_filter_def)
  then show ?thesis by (auto simp: drives_def street_class street_fields)
qed

theorem network_of_file_witness:
  "\<exists>N. network_of_elements list_graph sorted_list_of_set (\<lambda>e. 0 :: nat) street_parts = Ok N
    \<and> (\<exists>i. dg_edge_weight list_graph (on_graph N) 1 2 = Some (10, i)) \<and> dg_edge_weight list_graph (on_graph N) 2 1 = None"
proof -
  obtain N where N: "network_of_elements list_graph sorted_list_of_set (\<lambda>e. 0 :: nat) street_parts = Ok N"
    using street_network by blast
  have "ways_of (contents street_parts) = [one_way_street]" by (simp add: street_parts_def ways_of_def List.map_filter_def)
  then have forward: "\<not> (\<exists>w \<in> set (ways_of (contents street_parts)). class_of w \<noteq> None \<and> tags_get (way_tags w) ''oneway'' = Some ''-1'')"
    by (simp add: one_way_street_def tags_get_def)
  have "case dg_edge_weight list_graph (on_graph N) a b of
      Some (wt, i) \<Rightarrow> drives (contents street_parts) a b wt i | None \<Rightarrow> \<nexists>wt i. drives (contents street_parts) a b wt i" for a b
    using network_of_file [OF list_osm.osm_queries_axioms N forward] by blast
  from this [of 1 2] this [of 2 1] show ?thesis using N by (auto simp: street_drives split: option.splits)
qed

section \<open>What the readings show\<close>

text \<open>A road tagged as one-way against its drawing is driven along it, and not backward.\<close>

lemma reversed_one_way_is_forward:
  defines "w \<equiv> one_way_street\<lparr>way_tags := [(''highway'', ''residential''), (''oneway'', ''-1'')]\<rparr>"
  shows "drives [ProcessedWay w] 1 2 10 (EdgeId 100 Outgoing) \<and> (\<nexists>wt i. drives [ProcessedWay w] 2 1 wt i)"
proof -
  have "ways_of [ProcessedWay w] = [w]" by (simp add: ways_of_def List.map_filter_def)
  moreover have "class_of w = Some Residential"
    by (simp add: class_of_def w_def tags_as_def tags_get_def road_class_from_str_def road_classes_def named_def)
  moreover have "way_id w = 100" "road_refs w = [(1, 2)]" "unidirectional (way_tags w)"
    by (simp_all add: w_def one_way_street_def road_refs_def unidirectional_def one_way_def tags_get_def)
  ultimately show ?thesis by (auto simp: drives_def)
qed

text \<open>The granularity of a block scales the coordinates of dense nodes, not of plain ones.\<close>

lemma plain_nodes_unscaled:
  "node_position (node_of_raw \<lparr>raw_ident = i, raw_lat = lat, raw_lon = lon\<rparr>) = (real_of_int lon, real_of_int lat)"
  by (simp add: node_of_raw_def node_new_def)

text \<open>A list of one weekday, and weekdays with times, do not survive printing.\<close>

definition monday_night :: opening_hours where
  "monday_night = \<lparr>rules = [\<lparr>weekdays = Some (Single Monday),
     times = [\<lparr>range_start = \<lparr>hour = 22, minute = 30\<rparr>, range_end = \<lparr>hour = 23, minute = 0\<rparr>\<rparr>], closed = False\<rparr>]\<rparr>"

lemma weekdays_with_times_lost: "show_hours monday_night = ''Mo22:30-23:00''" "parse_hours ''Mo22:30-23:00'' \<noteq> Ok monday_night"
proof -
  show shown: "show_hours monday_night = ''Mo22:30-23:00''" by code_simp
  have "hours_typed monday_night" "\<not> list_all printable (rules monday_night)" by code_simp+
  then show "parse_hours ''Mo22:30-23:00'' \<noteq> Ok monday_night" using parse_show_hours [of monday_night] shown by simp
qed

end
