(* ===== verification/Clustering.thy ===== *)
theory Clustering
  imports Prelude "HOL-Library.Word" Complex_Main
begin

unbundle bit_operations_syntax

text \<open>
  Density clustering (\<open>routers_geo\<close>, \<open>cluster.rs\<close>): every point with enough points near it is a core
  point, a cluster grows over the core points a work list reaches, and the labelled points are then
  grouped into clusters with a hull, a centroid and an identifier. The distance is a field of the
  configuration, as in the code; the hull, the centroid and the geohash text of a point come from other
  crates and are parameters. Indices out of range are the panic \<open>None\<close>.
\<close>

section \<open>Labels and the search\<close>

datatype classification = Core nat | EdgePoint nat | Noise

record 'p into_cluster =
  epsilon :: real
  c_capacity :: nat
  cluster_distance :: "'p \<Rightarrow> 'p \<Rightarrow> real"
  classes :: "classification list"
  visited :: "bool list"

definition with_distance :: "('p \<Rightarrow> 'p \<Rightarrow> real) \<Rightarrow> 'p into_cluster \<Rightarrow> 'p into_cluster" where
  "with_distance d self = self\<lparr>cluster_distance := d\<rparr>"

definition into_cluster_default :: "('p \<Rightarrow> 'p \<Rightarrow> real) \<Rightarrow> 'p into_cluster" where
  "into_cluster_default haversine =
     \<lparr>epsilon = 1, c_capacity = 10, cluster_distance = haversine, classes = [], visited = []\<rparr>"

definition range_query :: "'p into_cluster \<Rightarrow> 'p \<Rightarrow> 'p list \<Rightarrow> nat list" where
  "range_query self sample population =
     filter (\<lambda>i. cluster_distance self sample (population ! i) < epsilon self) [0..<length population]"

text \<open>The body of the loop over the neighbours of a core point.\<close>

definition visit_neighbour ::
    "nat \<Rightarrow> 'p into_cluster \<times> nat list \<Rightarrow> nat \<Rightarrow> ('p into_cluster \<times> nat list) option" where
  "visit_neighbour cluster s n =
     (let (self, queue) = s
      in if n \<ge> length (classes self) then None
         else
           let self = (if classes self ! n = Noise then self\<lparr>classes := (classes self)[n := EdgePoint cluster]\<rparr> else self)
           in if n \<ge> length (visited self) then None
              else if visited self ! n then Some (self, queue)
              else Some (self\<lparr>visited := (visited self)[n := True]\<rparr>, queue @ [n]))"

fun visit_all :: "nat \<Rightarrow> 'p into_cluster \<times> nat list \<Rightarrow> nat list \<Rightarrow> ('p into_cluster \<times> nat list) option" where
  "visit_all cluster s [] = Some s"
| "visit_all cluster s (n # ns) = Option.bind (visit_neighbour cluster s n) (\<lambda>s. visit_all cluster s ns)"

definition unvisited :: "'p into_cluster \<Rightarrow> nat" where
  "unvisited self = length (filter Not (visited self))"

lemma filter_Not_update:
  "n < length v \<Longrightarrow> \<not> v ! n \<Longrightarrow> Suc (length (filter Not (v[n := True]))) = length (filter Not v)"
proof (induction v arbitrary: n)
  case (Cons b v)
  then show ?case by (cases n) auto
qed simp

lemma visit_neighbour_measure:
  "visit_neighbour cluster (self, queue) n = Some (self', queue')
    \<Longrightarrow> 2 * unvisited self' + length queue' \<le> 2 * unvisited self + length queue"
  using filter_Not_update [of n "visited self"]
  by (auto simp: visit_neighbour_def Let_def unvisited_def split: if_splits)

lemma visit_all_measure:
  "visit_all cluster (self, queue) ns = Some (self', queue')
    \<Longrightarrow> 2 * unvisited self' + length queue' \<le> 2 * unvisited self + length queue"
proof (induction ns arbitrary: self queue)
  case (Cons n ns)
  then obtain s q where "visit_neighbour cluster (self, queue) n = Some (s, q)"
    "visit_all cluster (s, q) ns = Some (self', queue')"
    by (auto simp: bind_eq_Some_conv)
  then show ?case using Cons.IH [of s q] visit_neighbour_measure [of cluster self queue n s q] by linarith
qed simp

text \<open>
  The work list is popped at its end. A popped point leaves the list for good and a pushed one was not
  visited before, so the loop ends.
\<close>

function expand_loop ::
    "'p list \<Rightarrow> nat \<Rightarrow> bool \<Rightarrow> 'p into_cluster \<times> nat list \<Rightarrow> ('p into_cluster \<times> bool) option" where
  "expand_loop population cluster new_cluster s =
     (let (self, queue) = s
      in if queue = [] then Some (self, new_cluster)
         else
           let ind = last queue
           in if ind \<ge> length population then None
              else
                let neighbors = range_query self (population ! ind) population
                in if length neighbors < c_capacity self
                   then expand_loop population cluster new_cluster (self, butlast queue)
                   else if ind \<ge> length (classes self) then None
                   else
                     (case visit_all cluster (self\<lparr>classes := (classes self)[ind := Core cluster]\<rparr>, butlast queue) neighbors of
                        None \<Rightarrow> None
                      | Some s \<Rightarrow> expand_loop population cluster True s))"
  by pat_completeness auto
termination
proof (relation "measure (\<lambda>(population, cluster, new_cluster, self, queue). 2 * unvisited self + length queue)", goal_cases)
  case (3 population cluster new_cluster s x self queue ind neighbors s')
  obtain self' queue' where s': "s' = (self', queue')" by fastforce
  show ?case
    using 3 visit_all_measure [of cluster "self\<lparr>classes := (classes self)[ind := Core cluster]\<rparr>" "butlast queue" neighbors self' queue']
    by (cases queue rule: rev_cases) (auto simp: s' unvisited_def)
qed auto

declare expand_loop.simps [simp del]

definition expand_cluster ::
    "'p into_cluster \<Rightarrow> 'p list \<Rightarrow> nat list \<Rightarrow> nat \<Rightarrow> ('p into_cluster \<times> bool) option" where
  "expand_cluster self population queue cluster = expand_loop population cluster False (self, queue)"

text \<open>The loop over the points: each one not yet visited starts a search.\<close>

definition cluster_step :: "'p list \<Rightarrow> 'p into_cluster \<times> nat \<Rightarrow> nat \<Rightarrow> ('p into_cluster \<times> nat) option" where
  "cluster_step population s idx =
     (let (self, cluster) = s
      in if visited self ! idx then Some s
         else map_option (\<lambda>(self, new_cluster). (self, if new_cluster then cluster + 1 else cluster))
                (expand_cluster (self\<lparr>visited := (visited self)[idx := True]\<rparr>) population [idx] cluster))"

fun cluster_loop :: "'p list \<Rightarrow> 'p into_cluster \<times> nat \<Rightarrow> nat list \<Rightarrow> ('p into_cluster \<times> nat) option" where
  "cluster_loop population s [] = Some s"
| "cluster_loop population s (i # is) = Option.bind (cluster_step population s i) (\<lambda>s. cluster_loop population s is)"

definition classify_points :: "'p into_cluster \<Rightarrow> 'p list \<Rightarrow> 'p into_cluster option" where
  "classify_points self population =
     map_option fst (cluster_loop population
       (self\<lparr>classes := replicate (length population) Noise, visited := replicate (length population) False\<rparr>, 0)
       [0..<length population])"

section \<open>Clusters\<close>

definition base32_alphabet :: string where
  "base32_alphabet = ''0123456789bcdefghjkmnpqrstuvwxyz''"

text \<open>A level-8 geohash in a \<open>u64\<close>: a byte for each character, the first in the highest byte.\<close>

fun pack_chars :: "nat \<Rightarrow> 64 word \<Rightarrow> string \<Rightarrow> 64 word option" where
  "pack_chars i result [] = Some result"
| "pack_chars i result (c # cs) =
     (case position (\<lambda>b. b = c) base32_alphabet of
        Some index \<Rightarrow>
          (let byte_value = push_bit 3 (of_nat index :: 8 word)
           in pack_chars (Suc i) (result OR push_bit (8 * (7 - i)) (ucast byte_value)) cs)
      | None \<Rightarrow> None)"

definition geohash_to_u64 :: "string \<Rightarrow> 64 word option" where
  "geohash_to_u64 s = (if length s > 8 then None else pack_chars 0 0 s)"

datatype 'e geo_error = InvalidCoordinate string | GeoHashError 'e

record ('p, 'pt, 'poly) clustered =
  cluster_id :: "64 word"
  cluster_points :: "'p list"
  convex_hull :: 'poly
  cluster_centroid :: 'pt

record ('p, 'pt, 'poly) cluster =
  cluster_noise :: "'p list"
  cluster_clustered :: "('p, 'pt, 'poly) clustered list"

text \<open>What the geometry and geohash crates provide; \<open>geo_groups\<close> is the iteration order of the hash map.\<close>

record ('pt, 'poly, 'e) geo_env =
  geo_hull :: "'pt list \<Rightarrow> 'poly"
  geo_centroid :: "'poly \<Rightarrow> 'pt option"
  geo_encode :: "'pt \<Rightarrow> nat \<Rightarrow> (string, 'e) outcome"
  geo_groups :: "nat set \<Rightarrow> nat list"

definition clustered_of ::
    "('pt, 'poly, 'e) geo_env \<Rightarrow> ('p \<Rightarrow> 'pt) \<Rightarrow> 'p list \<Rightarrow> (('p, 'pt, 'poly) clustered, 'e geo_error) outcome" where
  "clustered_of G to_point points =
     (let shape = geo_hull G (map to_point points)
      in case geo_centroid G shape of
           None \<Rightarrow> Err (InvalidCoordinate [])
         | Some centroid \<Rightarrow>
             and_then (map_err GeoHashError (geo_encode G centroid 8)) (\<lambda>encoding.
             case geohash_to_u64 encoding of
               None \<Rightarrow> Err (InvalidCoordinate ''GeoHash too wide, expected depth of 8.'')
             | Some i \<Rightarrow> Ok \<lparr>cluster_id = i, cluster_points = points, convex_hull = shape, cluster_centroid = centroid\<rparr>))"

definition cluster_of_noise :: "'p list \<Rightarrow> ('p, 'pt, 'poly) cluster" where
  "cluster_of_noise value = \<lparr>cluster_noise = value, cluster_clustered = []\<rparr>"

text \<open>One group: three points or more make a cluster, if it can be built; an error is only logged.\<close>

definition place_group ::
    "('pt, 'poly, 'e) geo_env \<Rightarrow> ('p \<Rightarrow> 'pt) \<Rightarrow> ('p, 'pt, 'poly) cluster \<Rightarrow> 'p list \<Rightarrow> ('p, 'pt, 'poly) cluster option" where
  "place_group G to_point cl members =
     (if length members \<ge> 3 then
        (case clustered_of G to_point members of
           Ok c \<Rightarrow> Some (cl\<lparr>cluster_clustered := cluster_clustered cl @ [c]\<rparr>)
         | Err e \<Rightarrow> Some cl
         | Panic \<Rightarrow> None)
      else Some (cl\<lparr>cluster_noise := cluster_noise cl @ members\<rparr>))"

fun place_groups ::
    "('pt, 'poly, 'e) geo_env \<Rightarrow> ('p \<Rightarrow> 'pt) \<Rightarrow> ('p, 'pt, 'poly) cluster \<Rightarrow> 'p list list \<Rightarrow> ('p, 'pt, 'poly) cluster option" where
  "place_groups G to_point cl [] = Some cl"
| "place_groups G to_point cl (g # gs) = Option.bind (place_group G to_point cl g) (\<lambda>cl. place_groups G to_point cl gs)"

definition group_points :: "nat \<Rightarrow> (nat \<times> 'p) list \<Rightarrow> 'p list" where
  "group_points hash value = map snd (filter (\<lambda>p. fst p = hash) value)"

definition cluster_of_labelled ::
    "('pt, 'poly, 'e) geo_env \<Rightarrow> ('p \<Rightarrow> 'pt) \<Rightarrow> (nat \<times> 'p) list \<Rightarrow> ('p, 'pt, 'poly) cluster option" where
  "cluster_of_labelled G to_point value =
     place_groups G to_point \<lparr>cluster_noise = [], cluster_clustered = []\<rparr>
       (map (\<lambda>h. group_points h value) (geo_groups G (set (map fst value))))"

definition label_hash :: "classification \<Rightarrow> nat" where
  "label_hash c = (case c of Core k \<Rightarrow> u32_add (k mod 4294967296) 1 | _ \<Rightarrow> 0)"

definition cluster_population ::
    "('pt, 'poly, 'e) geo_env \<Rightarrow> ('p \<Rightarrow> 'pt) \<Rightarrow> 'pt into_cluster \<Rightarrow> 'p list \<Rightarrow> ('p, 'pt, 'poly) cluster option" where
  "cluster_population G to_point self population =
     Option.bind (classify_points self (map to_point population))
       (\<lambda>self. cluster_of_labelled G to_point (zip (map label_hash (classes self)) population))"

end
