(* ===== verification/Clustering_Laws.thy ===== *)
theory Clustering_Laws
  imports Clustering "HOL-Library.Multiset"
begin

text \<open>
  The search labels the connected components of the core points: two core points get the same label
  exactly if a chain of core points, each near the next, joins them. A point that is not a core point is
  an edge point of a cluster near it, or noise if there is none. The identifier of a cluster
  determines the geohash it packs.
\<close>

section \<open>Near points\<close>

definition near_points :: "'p into_cluster \<Rightarrow> 'p list \<Rightarrow> nat \<Rightarrow> nat \<Rightarrow> bool" where
  "near_points k pop i j \<longleftrightarrow> i < length pop \<and> j < length pop \<and> cluster_distance k (pop ! i) (pop ! j) < epsilon k"

definition core_point :: "'p into_cluster \<Rightarrow> 'p list \<Rightarrow> nat \<Rightarrow> bool" where
  "core_point k pop i \<longleftrightarrow> i < length pop \<and> c_capacity k \<le> card {j. near_points k pop i j}"

definition core_link :: "'p into_cluster \<Rightarrow> 'p list \<Rightarrow> (nat \<times> nat) set" where
  "core_link k pop = {(i, j). core_point k pop i \<and> core_point k pop j \<and> near_points k pop i j}"

definition symmetric_distance :: "'p into_cluster \<Rightarrow> bool" where
  "symmetric_distance k \<longleftrightarrow> (\<forall>x y. cluster_distance k x y = cluster_distance k y x)"

definition same_config :: "'p into_cluster \<Rightarrow> 'p into_cluster \<Rightarrow> bool" where
  "same_config self k \<longleftrightarrow> epsilon self = epsilon k \<and> c_capacity self = c_capacity k \<and> cluster_distance self = cluster_distance k"

lemma near_sym: "symmetric_distance k \<Longrightarrow> near_points k pop i j \<longleftrightarrow> near_points k pop j i"
  by (metis near_points_def symmetric_distance_def)

lemma sym_core_link: "symmetric_distance k \<Longrightarrow> sym (core_link k pop)"
  using near_sym [of k pop] by (auto simp: core_link_def sym_def)

lemma core_link_sym: "symmetric_distance k \<Longrightarrow> (i, j) \<in> (core_link k pop)\<^sup>* \<Longrightarrow> (j, i) \<in> (core_link k pop)\<^sup>*"
  using sym_rtrancl [OF sym_core_link] by (auto dest: symD)

lemma range_query_near:
  assumes "same_config self k" "i < length pop"
  shows "set (range_query self (pop ! i) pop) = {j. near_points k pop i j}" "distinct (range_query self (pop ! i) pop)"
    "length (range_query self (pop ! i) pop) = card {j. near_points k pop i j}"
proof -
  show s: "set (range_query self (pop ! i) pop) = {j. near_points k pop i j}" and d: "distinct (range_query self (pop ! i) pop)"
    using assms by (auto simp: range_query_def near_points_def same_config_def)
  show "length (range_query self (pop ! i) pop) = card {j. near_points k pop i j}"
    using distinct_card [OF d] s by simp
qed

section \<open>Visiting the neighbours of a core point\<close>

lemma visit_all_effect:
  assumes "distinct ns" "\<forall>i \<in> set ns. i < length (classes self) \<and> i < length (visited self)"
  shows "\<exists>self'. visit_all cl (self, q) ns = Some (self', q @ filter (\<lambda>i. \<not> visited self ! i) ns)
    \<and> same_config self' self \<and> length (classes self') = length (classes self) \<and> length (visited self') = length (visited self)
    \<and> (\<forall>i < length (classes self). classes self' ! i = (if i \<in> set ns \<and> classes self ! i = Noise then EdgePoint cl else classes self ! i))
    \<and> (\<forall>i < length (visited self). visited self' ! i \<longleftrightarrow> visited self ! i \<or> i \<in> set ns)"
  using assms
proof (induction ns arbitrary: self q)
  case Nil
  then show ?case by (auto simp: same_config_def)
next
  case (Cons n ns)
  have n: "n < length (classes self)" "n < length (visited self)" "n \<notin> set ns" using Cons.prems by auto
  define s where "s = (if classes self ! n = Noise then self\<lparr>classes := (classes self)[n := EdgePoint cl]\<rparr> else self)"
  define s' where "s' = s\<lparr>visited := (visited self)[n := True]\<rparr>"
  have vs: "visited s = visited self" by (simp add: s_def)
  have step: "visit_neighbour cl (self, q) n = Some (s', if visited self ! n then q else q @ [n])"
  proof (cases "visited self ! n")
    case True
    then have "(visited self)[n := True] = visited self" by (metis list_update_id)
    then have "s' = s\<lparr>visited := visited s\<rparr>" by (simp add: s'_def vs)
    then have "s' = s" by simp
    then show ?thesis using n True by (simp add: visit_neighbour_def s_def [symmetric] vs Let_def not_le)
  next
    case False
    then show ?thesis using n by (simp add: visit_neighbour_def s_def [symmetric] vs Let_def not_le s'_def)
  qed
  have c: "classes s' = (classes self)[n := if classes self ! n = Noise then EdgePoint cl else classes self ! n]"
    and v: "visited s' = (visited self)[n := True]" and k: "same_config s' self"
    using n by (simp_all add: s'_def s_def same_config_def)
  have f: "filter (\<lambda>i. \<not> visited s' ! i) ns = filter (\<lambda>i. \<not> visited self ! i) ns"
    using n by (intro filter_cong) (auto simp: v nth_list_update)
  obtain s'' where ih: "visit_all cl (s', if visited self ! n then q else q @ [n]) ns
      = Some (s'', (if visited self ! n then q else q @ [n]) @ filter (\<lambda>i. \<not> visited s' ! i) ns)"
    "same_config s'' s'" "length (classes s'') = length (classes s')" "length (visited s'') = length (visited s')"
    "\<forall>i < length (classes s'). classes s'' ! i = (if i \<in> set ns \<and> classes s' ! i = Noise then EdgePoint cl else classes s' ! i)"
    "\<forall>i < length (visited s'). visited s'' ! i \<longleftrightarrow> visited s' ! i \<or> i \<in> set ns"
    using Cons.IH [of s' "if visited self ! n then q else q @ [n]"] Cons.prems by (auto simp: c v)
  have "visit_all cl (self, q) (n # ns) = Some (s'', q @ filter (\<lambda>i. \<not> visited self ! i) (n # ns))"
    using ih(1) f by (simp add: step)
  moreover have "same_config s'' self" using ih(2) k by (simp add: same_config_def)
  moreover have "length (classes s'') = length (classes self)" "length (visited s'') = length (visited self)"
    using ih(3,4) by (simp_all add: c v)
  moreover have "classes s'' ! i = (if i \<in> set (n # ns) \<and> classes self ! i = Noise then EdgePoint cl else classes self ! i)"
    if "i < length (classes self)" for i
    using ih(5) n that by (cases "i = n") (auto simp: c)
  moreover have "visited s'' ! i \<longleftrightarrow> visited self ! i \<or> i \<in> set (n # ns)" if "i < length (visited self)" for i
    using ih(6) n that by (cases "i = n") (auto simp: v)
  ultimately show ?case by blast
qed

section \<open>The invariant of the search\<close>

text \<open>
  \<open>labelled c i a\<close>: point \<open>i\<close> is a core point of cluster \<open>a\<close>. Every labelled point has all its neighbours
  visited, near labelled points share their label, and points waiting in the list near a labelled one
  belong to the cluster being grown, which consists of what \<open>s\<close> reaches.
\<close>

abbreviation labelled :: "'p into_cluster \<Rightarrow> nat \<Rightarrow> nat \<Rightarrow> bool" where
  "labelled self i a \<equiv> i < length (classes self) \<and> classes self ! i = Core a"

definition points_ok :: "'p into_cluster \<Rightarrow> 'p list \<Rightarrow> 'p into_cluster \<Rightarrow> nat list \<Rightarrow> bool" where
  "points_ok k pop self q \<longleftrightarrow> same_config self k \<and> length (classes self) = length pop \<and> length (visited self) = length pop
    \<and> distinct q \<and> (\<forall>i \<in> set q. i < length pop \<and> visited self ! i)"

definition labels_ok :: "'p into_cluster \<Rightarrow> 'p list \<Rightarrow> 'p into_cluster \<Rightarrow> nat list \<Rightarrow> bool" where
  "labels_ok k pop self q \<longleftrightarrow>
     (\<forall>i < length pop. (\<exists>a. classes self ! i = Core a) \<longleftrightarrow> core_point k pop i \<and> visited self ! i \<and> i \<notin> set q)
   \<and> (\<forall>i a j. labelled self i a \<longrightarrow> near_points k pop i j \<longrightarrow> visited self ! j \<and> classes self ! j \<noteq> Noise)
   \<and> (\<forall>i j a b. labelled self i a \<longrightarrow> labelled self j b \<longrightarrow> near_points k pop i j \<longrightarrow> a = b)
   \<and> (\<forall>i j a. labelled self i a \<longrightarrow> labelled self j a \<longrightarrow> (i, j) \<in> (core_link k pop)\<^sup>*)
   \<and> (\<forall>j < length pop. \<forall>a. classes self ! j = EdgePoint a \<longrightarrow> (\<exists>i. labelled self i a \<and> near_points k pop i j))"

definition growing_ok :: "'p into_cluster \<Rightarrow> 'p list \<Rightarrow> nat \<Rightarrow> nat \<Rightarrow> 'p into_cluster \<Rightarrow> nat list \<Rightarrow> bool" where
  "growing_ok k pop s cl self q \<longleftrightarrow>
     (\<forall>i a j. labelled self i a \<longrightarrow> j \<in> set q \<longrightarrow> near_points k pop i j \<longrightarrow> a = cl)
   \<and> (\<forall>i. labelled self i cl \<longrightarrow> (s, i) \<in> (core_link k pop)\<^sup>*)
   \<and> (\<forall>j \<in> set q. core_point k pop j \<longrightarrow> (s, j) \<in> (core_link k pop)\<^sup>*)
   \<and> (\<forall>i a. labelled self i a \<longrightarrow> a \<le> cl)"

lemma frame_skip: "points_ok k pop self q \<Longrightarrow> points_ok k pop self (butlast q)"
  by (auto simp: points_ok_def distinct_butlast dest: in_set_butlastD)

lemma labels_skip:
  assumes "points_ok k pop self q" "labels_ok k pop self q" "q \<noteq> []" "\<not> core_point k pop (last q)"
  shows "labels_ok k pop self (butlast q)"
proof -
  have "set q = insert (last q) (set (butlast q))" using assms(3)
    by (metis append_butlast_last_id insert_is_Un list.simps(15) rotate1.simps(2) set_append set_rotate1)
  then have "core_point k pop i \<and> i \<notin> set q \<longleftrightarrow> core_point k pop i \<and> i \<notin> set (butlast q)" for i
    using assms(4) by auto
  then show ?thesis using assms(2) unfolding labels_ok_def by meson
qed

lemma growing_skip: "growing_ok k pop s cl self q \<Longrightarrow> growing_ok k pop s cl self (butlast q)"
  unfolding growing_ok_def by (meson in_set_butlastD)

text \<open>The step that labels a core point and visits its neighbours.\<close>

lemma grow_step:
  assumes sym: "symmetric_distance k" and f: "points_ok k pop self q" and l: "labels_ok k pop self q"
    and g: "growing_ok k pop s cl self q" and q: "q \<noteq> []" and core: "core_point k pop (last q)"
  defines "ind \<equiv> last q"
  obtains self' q' where
    "visit_all cl (self\<lparr>classes := (classes self)[ind := Core cl]\<rparr>, butlast q) (range_query self (pop ! ind) pop) = Some (self', q')"
    "points_ok k pop self' q'" "labels_ok k pop self' q'" "growing_ok k pop s cl self' q'" "labelled self' ind cl"
    "\<forall>i < length pop. visited self ! i \<longrightarrow> visited self' ! i"
proof -
  let ?n = "length pop"
  let ?self = "self\<lparr>classes := (classes self)[ind := Core cl]\<rparr>"
  let ?ns = "range_query self (pop ! ind) pop"
  have len: "length (classes self) = ?n" "length (visited self) = ?n" and conf: "same_config self k" and dist: "distinct q"
    and inq: "\<And>i. i \<in> set q \<Longrightarrow> i < ?n \<and> visited self ! i"
    using f by (auto simp: points_ok_def)
  have indq: "ind \<in> set q" using q by (simp add: ind_def)
  have ind: "ind < ?n" "visited self ! ind" using inq [OF indq] by auto
  have ns: "set ?ns = {j. near_points k pop ind j}" "distinct ?ns"
    using range_query_near [OF conf ind(1)] by simp_all
  obtain self' where vis: "visit_all cl (?self, butlast q) ?ns = Some (self', butlast q @ filter (\<lambda>i. \<not> visited self ! i) ?ns)"
    and conf': "same_config self' ?self" and len': "length (classes self') = ?n" "length (visited self') = ?n"
    and C: "\<And>i. i < ?n \<Longrightarrow> classes self' ! i = (if i = ind then Core cl else if near_points k pop ind i \<and> classes self ! i = Noise then EdgePoint cl else classes self ! i)"
    and V: "\<And>i. i < ?n \<Longrightarrow> visited self' ! i \<longleftrightarrow> visited self ! i \<or> near_points k pop ind i"
    using visit_all_effect [OF ns(2), of ?self cl "butlast q"] ns(1) ind(1) len by (auto simp: near_points_def nth_list_update)
  define q' where "q' = butlast q @ filter (\<lambda>i. \<not> visited self ! i) ?ns"
  have Q: "set q' = (set q - {ind}) \<union> {i. near_points k pop ind i \<and> \<not> visited self ! i}"
    and dist': "distinct q'"
  proof -
    have "q = butlast q @ [ind]" using q by (simp add: ind_def)
    then have b: "set (butlast q) = set q - {ind}" "distinct (butlast q)" using dist by (metis distinct.simps(2) distinct1_rotate empty_set Diff_insert_absorb list.simps(15) rotate1.simps(2) set_rotate1, metis distinct_butlast dist)
    then show "set q' = (set q - {ind}) \<union> {i. near_points k pop ind i \<and> \<not> visited self ! i}" by (auto simp: q'_def ns(1))
    show "distinct q'" using b inq ns(2) by (auto simp: q'_def)
  qed
  have notcore: "classes self ! ind \<noteq> Core a" for a
    using l ind(1) indq unfolding labels_ok_def by blast
  have Lab: "labelled self' i a \<longleftrightarrow> i = ind \<and> a = cl \<or> i \<noteq> ind \<and> labelled self i a" for i a
    using C [of i] ind(1) len len' by (cases "i = ind"; cases "near_points k pop ind i \<and> classes self ! i = Noise") auto
  have nearn: "near_points k pop i j \<Longrightarrow> i < ?n \<and> j < ?n" for i j by (simp add: near_points_def)
  have L1: "\<And>i. i < ?n \<Longrightarrow> (\<exists>a. classes self ! i = Core a) \<longleftrightarrow> core_point k pop i \<and> visited self ! i \<and> i \<notin> set q"
    and L2: "\<And>i a j. labelled self i a \<Longrightarrow> near_points k pop i j \<Longrightarrow> visited self ! j \<and> classes self ! j \<noteq> Noise"
    and L3: "\<And>i j a b. labelled self i a \<Longrightarrow> labelled self j b \<Longrightarrow> near_points k pop i j \<Longrightarrow> a = b"
    and L4: "\<And>i j a. labelled self i a \<Longrightarrow> labelled self j a \<Longrightarrow> (i, j) \<in> (core_link k pop)\<^sup>*"
    and L5: "\<And>j a. j < ?n \<Longrightarrow> classes self ! j = EdgePoint a \<Longrightarrow> \<exists>i. labelled self i a \<and> near_points k pop i j"
    using l unfolding labels_ok_def by blast+
  have G1: "\<And>i a j. labelled self i a \<Longrightarrow> j \<in> set q \<Longrightarrow> near_points k pop i j \<Longrightarrow> a = cl"
    and G2: "\<And>i. labelled self i cl \<Longrightarrow> (s, i) \<in> (core_link k pop)\<^sup>*"
    and G3: "\<And>j. j \<in> set q \<Longrightarrow> core_point k pop j \<Longrightarrow> (s, j) \<in> (core_link k pop)\<^sup>*"
    and G4: "\<And>i a. labelled self i a \<Longrightarrow> a \<le> cl"
    using g unfolding growing_ok_def by blast+
  have core: "core_point k pop ind" using core by (simp add: ind_def)
  have sind: "(s, ind) \<in> (core_link k pop)\<^sup>*" using G3 [OF indq core] .
  note linked_back = core_link_sym [OF sym]
  have "labels_ok k pop self' q'"
    unfolding labels_ok_def
  proof (intro conjI allI impI)
    fix i assume i: "i < ?n"
    show "(\<exists>a. classes self' ! i = Core a) \<longleftrightarrow> core_point k pop i \<and> visited self' ! i \<and> i \<notin> set q'"
      using L1 [OF i] C [OF i] V [OF i] core ind(2) indq by (auto simp: Q)
  next
    fix i a j assume "labelled self' i a" "near_points k pop i j"
    then show "visited self' ! j" "classes self' ! j \<noteq> Noise"
      using L2 nearn [of i j] C [of j] V [of j] by (auto simp: Lab)
  next
    fix i j a b assume "labelled self' i a" "labelled self' j b" "near_points k pop i j"
    then show "a = b" using L3 G1 [OF _ indq] near_sym [OF sym] by (auto simp: Lab)
  next
    fix i j a assume a: "labelled self' i a" "labelled self' j a"
    then show "(i, j) \<in> (core_link k pop)\<^sup>*"
      using L4 [of i a j] G2 sind linked_back [of s] by (auto simp: Lab intro: rtrancl_trans)
  next
    fix j a assume j: "j < ?n" "classes self' ! j = EdgePoint a"
    show "\<exists>i. labelled self' i a \<and> near_points k pop i j"
    proof (cases "near_points k pop ind j \<and> classes self ! j = Noise")
      case True
      then have "a = cl" using j C [of j] by (auto split: if_splits)
      then show ?thesis using True Lab by blast
    next
      case False
      then have "classes self ! j = EdgePoint a" using j C [of j] by (auto split: if_splits)
      then show ?thesis using L5 [OF j(1)] notcore Lab by metis
    qed
  qed
  moreover have "growing_ok k pop s cl self' q'"
    unfolding growing_ok_def
  proof (intro conjI allI impI ballI)
    fix i a j assume "labelled self' i a" "j \<in> set q'" "near_points k pop i j"
    then show "a = cl" using G1 [of i a j] L2 [of i a j] by (auto simp: Lab Q)
  next
    fix i assume "labelled self' i cl"
    then show "(s, i) \<in> (core_link k pop)\<^sup>*" using G2 sind by (auto simp: Lab)
  next
    fix j assume j: "j \<in> set q'" "core_point k pop j"
    show "(s, j) \<in> (core_link k pop)\<^sup>*"
    proof (cases "j \<in> set q")
      case False
      then have "(ind, j) \<in> core_link k pop" using j core by (auto simp: Q core_link_def)
      then show ?thesis using sind by (rule rtrancl_into_rtrancl [rotated])
    qed (use G3 j in blast)
  next
    fix i a assume "labelled self' i a"
    then show "a \<le> cl" using G4 by (auto simp: Lab)
  qed
  moreover have "points_ok k pop self' q'"
    using conf conf' len' dist' inq V nearn by (auto simp: points_ok_def same_config_def Q)
  moreover have "labelled self' ind cl" by (simp add: Lab)
  ultimately show ?thesis
    using that [of self' q'] vis V by (simp add: q'_def)
qed

section \<open>The whole search\<close>

definition growth_ok :: "'p into_cluster \<Rightarrow> 'p list \<Rightarrow> nat \<Rightarrow> nat \<Rightarrow> 'p into_cluster \<Rightarrow> nat list \<Rightarrow> bool" where
  "growth_ok k pop s cl self q \<longleftrightarrow> points_ok k pop self q \<and> labels_ok k pop self q \<and> growing_ok k pop s cl self q"

lemma expand_loop_ok:
  assumes "symmetric_distance k" "growth_ok k pop s cl (fst st) (snd st)" "nc \<longleftrightarrow> (\<exists>i. labelled (fst st) i cl)"
  shows "\<exists>self' nc'. expand_loop pop cl nc st = Some (self', nc') \<and> growth_ok k pop s cl self' []
    \<and> (nc' \<longleftrightarrow> (\<exists>i. labelled self' i cl)) \<and> (\<forall>i < length pop. visited (fst st) ! i \<longrightarrow> visited self' ! i)"
  using assms(2,3)
proof (induction pop cl nc st rule: expand_loop.induct)
  case (1 pop cl nc st)
  obtain self q where st: "st = (self, q)" by fastforce
  have ok: "points_ok k pop self q" "labels_ok k pop self q" "growing_ok k pop s cl self q"
    using "1.prems"(1) by (simp_all add: st growth_ok_def)
  show ?case
  proof (cases "q = []")
    case True
    then have "expand_loop pop cl nc st = Some (self, nc)" by (simp add: expand_loop.simps [of pop cl nc "(self, [])"] st)
    then show ?thesis using "1.prems" True by (auto simp: st)
  next
    case False
    have ind: "last q < length pop" and conf: "same_config self k" and len: "length (classes self) = length pop"
      using ok(1) False by (auto simp: points_ok_def)
    have cap: "length (range_query self (pop ! last q) pop) < c_capacity self \<longleftrightarrow> \<not> core_point k pop (last q)"
      using range_query_near(3) [OF conf ind] conf ind by (auto simp: core_point_def same_config_def)
    show ?thesis
    proof (cases "core_point k pop (last q)")
      case False
      have "growth_ok k pop s cl self (butlast q)"
        using frame_skip [OF ok(1)] labels_skip [OF ok(1,2) \<open>q \<noteq> []\<close> False] growing_skip [OF ok(3)] by (simp add: growth_ok_def)
      then have "\<exists>s' nc'. expand_loop pop cl nc (self, butlast q) = Some (s', nc') \<and> growth_ok k pop s cl s' []
          \<and> (nc' \<longleftrightarrow> (\<exists>i. labelled s' i cl)) \<and> (\<forall>i < length pop. visited self ! i \<longrightarrow> visited s' ! i)"
        using "1.IH"(1) [OF refl st [symmetric] \<open>q \<noteq> []\<close> refl _ refl] "1.prems"(2) cap False ind by (auto simp: st)
      moreover have "expand_loop pop cl nc st = expand_loop pop cl nc (self, butlast q)"
        using cap False ind \<open>q \<noteq> []\<close> by (simp add: expand_loop.simps [of pop cl nc "(self, q)"] st not_le)
      ultimately show ?thesis by (simp add: st)
    next
      case True
      obtain self' q' where step: "visit_all cl (self\<lparr>classes := (classes self)[last q := Core cl]\<rparr>, butlast q) (range_query self (pop ! last q) pop) = Some (self', q')"
        "points_ok k pop self' q'" "labels_ok k pop self' q'" "growing_ok k pop s cl self' q'" "labelled self' (last q) cl"
        "\<forall>i < length pop. visited self ! i \<longrightarrow> visited self' ! i"
        using grow_step [OF assms(1) ok \<open>q \<noteq> []\<close> True] by blast
      have "\<exists>s' nc'. expand_loop pop cl True (self', q') = Some (s', nc') \<and> growth_ok k pop s cl s' []
          \<and> (nc' \<longleftrightarrow> (\<exists>i. labelled s' i cl)) \<and> (\<forall>i < length pop. visited self' ! i \<longrightarrow> visited s' ! i)"
        using "1.IH"(2) [OF refl st [symmetric] \<open>q \<noteq> []\<close> refl _ refl _ _ step(1)] step(2-5) cap True ind len
        by (auto simp: growth_ok_def)
      moreover have "expand_loop pop cl nc st = expand_loop pop cl True (self', q')"
        using step(1) cap True ind len \<open>q \<noteq> []\<close> by (simp add: expand_loop.simps [of pop cl nc "(self, q)"] st not_le)
      ultimately show ?thesis using step(6) by (auto simp: st)
    qed
  qed
qed

text \<open>Between two searches all labels are below the next cluster's number.\<close>

definition between_ok :: "'p into_cluster \<Rightarrow> 'p list \<Rightarrow> nat \<Rightarrow> 'p into_cluster \<Rightarrow> bool" where
  "between_ok k pop cl self \<longleftrightarrow> points_ok k pop self [] \<and> labels_ok k pop self [] \<and> (\<forall>i a. labelled self i a \<longrightarrow> a < cl)"

lemma search_start:
  assumes "between_ok k pop cl self" "idx < length pop" "\<not> visited self ! idx"
  shows "growth_ok k pop idx cl (self\<lparr>visited := (visited self)[idx := True]\<rparr>) [idx]"
proof -
  have len: "length (visited self) = length pop" and lt: "\<And>i a. labelled self i a \<Longrightarrow> a < cl" and lab: "labels_ok k pop self []"
    and fr: "points_ok k pop self []"
    using assms(1) by (auto simp: between_ok_def points_ok_def)
  have V: "(visited self)[idx := True] ! j \<longleftrightarrow> j = idx \<or> visited self ! j" if "j < length pop" for j
    using len assms(2) that by (simp add: nth_list_update)
  have nearn: "near_points k pop i j \<Longrightarrow> j < length pop" for i j by (simp add: near_points_def)
  have closed: "labelled self i a \<Longrightarrow> near_points k pop i j \<Longrightarrow> visited self ! j" for i a j
    using lab unfolding labels_ok_def by blast
  have "labels_ok k pop (self\<lparr>visited := (visited self)[idx := True]\<rparr>) [idx]"
    unfolding labels_ok_def
  proof (intro conjI)
    show "\<forall>i < length pop. (\<exists>a. classes (self\<lparr>visited := (visited self)[idx := True]\<rparr>) ! i = Core a)
        \<longleftrightarrow> core_point k pop i \<and> visited (self\<lparr>visited := (visited self)[idx := True]\<rparr>) ! i \<and> i \<notin> set [idx]"
      using lab assms(3) V by (auto simp: labels_ok_def)
  qed (use lab V nearn in \<open>auto simp: labels_ok_def\<close>)
  moreover have "growing_ok k pop idx cl (self\<lparr>visited := (visited self)[idx := True]\<rparr>) [idx]"
    unfolding growing_ok_def
  proof (intro conjI allI impI ballI)
    fix i assume "labelled (self\<lparr>visited := (visited self)[idx := True]\<rparr>) i cl"
    then show "(idx, i) \<in> (core_link k pop)\<^sup>*" using lt [of i cl] by simp
  next
    fix i a assume "labelled (self\<lparr>visited := (visited self)[idx := True]\<rparr>) i a"
    then show "a \<le> cl" using lt [of i a] by simp
  qed (use closed assms(3) in auto)
  moreover have "points_ok k pop (self\<lparr>visited := (visited self)[idx := True]\<rparr>) [idx]"
    using fr assms(2) by (auto simp: points_ok_def same_config_def)
  ultimately show ?thesis by (simp add: growth_ok_def)
qed

lemma cluster_step_ok:
  assumes "symmetric_distance k" "between_ok k pop cl self" "idx < length pop"
  shows "\<exists>self' cl'. cluster_step pop (self, cl) idx = Some (self', cl') \<and> between_ok k pop cl' self' \<and> visited self' ! idx
    \<and> (\<forall>i < length pop. visited self ! i \<longrightarrow> visited self' ! i)"
proof (cases "visited self ! idx")
  case True
  then show ?thesis using assms by (simp add: cluster_step_def)
next
  case False
  let ?self = "self\<lparr>visited := (visited self)[idx := True]\<rparr>"
  have len: "length (visited self) = length pop" "length (classes self) = length pop" and lt: "\<And>i a. labelled self i a \<Longrightarrow> a < cl"
    using assms(2) by (auto simp: between_ok_def points_ok_def)
  obtain self' nc where r: "expand_loop pop cl False (?self, [idx]) = Some (self', nc)" "growth_ok k pop idx cl self' []"
    "nc \<longleftrightarrow> (\<exists>i. labelled self' i cl)" "\<forall>i < length pop. (visited self)[idx := True] ! i \<longrightarrow> visited self' ! i"
    using expand_loop_ok [OF assms(1), of pop idx cl "(?self, [idx])" False] search_start [OF assms(2,3) False] lt by fastforce
  have below: "\<And>i a. labelled self' i a \<Longrightarrow> a \<le> cl" using r(2) by (auto simp: growth_ok_def growing_ok_def)
  then have "a < (if nc then cl + 1 else cl)" if "labelled self' i a" for i a
    using that r(3) below [of i a] le_less [of a cl] by (cases "a = cl") auto
  then have "between_ok k pop (if nc then cl + 1 else cl) self'"
    using r(2) unfolding between_ok_def growth_ok_def by blast
  then show ?thesis
    using r(1,4) False assms(3) len by (auto simp: cluster_step_def expand_cluster_def nth_list_update)
qed

lemma cluster_loop_ok:
  assumes "symmetric_distance k" "between_ok k pop cl self" "set is \<subseteq> {..<length pop}"
  shows "\<exists>self' cl'. cluster_loop pop (self, cl) is = Some (self', cl') \<and> between_ok k pop cl' self'
    \<and> (\<forall>i < length pop. visited self ! i \<or> i \<in> set is \<longrightarrow> visited self' ! i)"
  using assms(2,3)
proof (induction "is" arbitrary: self cl)
  case (Cons i "is")
  obtain s c where s: "cluster_step pop (self, cl) i = Some (s, c)" "between_ok k pop c s" "visited s ! i"
    "\<forall>i < length pop. visited self ! i \<longrightarrow> visited s ! i"
    using cluster_step_ok [OF assms(1) Cons.prems(1), of i] Cons.prems(2) by auto
  obtain s' c' where r: "cluster_loop pop (s, c) is = Some (s', c')" "between_ok k pop c' s'"
    "\<forall>i < length pop. visited s ! i \<or> i \<in> set is \<longrightarrow> visited s' ! i"
    using Cons.IH [OF s(2)] Cons.prems(2) by auto
  show ?case using s(1,3,4) r by (intro exI [of _ s'] exI [of _ c']) auto
qed auto

text \<open>
  (C35) Density clustering is exact. With a symmetric distance the search ends without a panic and labels
  the points so that: the labelled core points are exactly the points with enough points near them; two
  core points carry the same label exactly if a chain of core points, each near the next, joins them; a
  point is noise exactly if it is no core point and none is near it; and an edge point carries the label
  of a core point near it.
\<close>

theorem clusters_are_components:
  assumes "symmetric_distance k"
  shows "\<exists>self. classify_points k pop = Some self \<and> length (classes self) = length pop
    \<and> (\<forall>i < length pop. (\<exists>a. classes self ! i = Core a) \<longleftrightarrow> core_point k pop i)
    \<and> (\<forall>i < length pop. \<forall>j < length pop. \<forall>a b. classes self ! i = Core a \<longrightarrow> classes self ! j = Core b
         \<longrightarrow> (a = b \<longleftrightarrow> (i, j) \<in> (core_link k pop)\<^sup>*))
    \<and> (\<forall>i < length pop. classes self ! i = Noise \<longleftrightarrow> \<not> core_point k pop i \<and> (\<forall>j. core_point k pop j \<longrightarrow> \<not> near_points k pop j i))
    \<and> (\<forall>i < length pop. \<forall>a. classes self ! i = EdgePoint a \<longrightarrow> (\<exists>j < length pop. classes self ! j = Core a \<and> near_points k pop j i))"
proof -
  let ?n = "length pop"
  let ?start = "k\<lparr>classes := replicate ?n Noise, visited := replicate ?n False\<rparr>"
  have "between_ok k pop 0 ?start"
    by (auto simp: between_ok_def points_ok_def labels_ok_def same_config_def)
  from cluster_loop_ok [OF assms this, of "[0..<?n]"] obtain self cl where
    r: "classify_points k pop = Some self" "between_ok k pop cl self" "\<forall>i < ?n. visited self ! i"
    by (auto simp: classify_points_def lessThan_atLeast0)
  have len: "length (classes self) = ?n" and lab: "labels_ok k pop self []"
    using r(2) by (auto simp: between_ok_def points_ok_def)
  have L1: "\<And>i. i < ?n \<Longrightarrow> (\<exists>a. classes self ! i = Core a) \<longleftrightarrow> core_point k pop i"
    using lab r(3) by (auto simp: labels_ok_def)
  have L2: "\<And>i a j. labelled self i a \<Longrightarrow> near_points k pop i j \<Longrightarrow> classes self ! j \<noteq> Noise"
    and L3: "\<And>i j a b. labelled self i a \<Longrightarrow> labelled self j b \<Longrightarrow> near_points k pop i j \<Longrightarrow> a = b"
    and L4: "\<And>i j a. labelled self i a \<Longrightarrow> labelled self j a \<Longrightarrow> (i, j) \<in> (core_link k pop)\<^sup>*"
    and L5: "\<And>j a. j < ?n \<Longrightarrow> classes self ! j = EdgePoint a \<Longrightarrow> \<exists>i. labelled self i a \<and> near_points k pop i j"
    using lab unfolding labels_ok_def by blast+
  have corelen: "core_point k pop i \<Longrightarrow> i < ?n" for i by (simp add: core_point_def)
  have linked: "(i, j) \<in> (core_link k pop)\<^sup>* \<Longrightarrow> labelled self i a \<Longrightarrow> labelled self j a" for i j a
  proof (induction rule: rtrancl_induct)
    case (step y z)
    then have "labelled self y a" "core_point k pop z" "near_points k pop y z" by (auto simp: core_link_def)
    moreover from this obtain b where "labelled self z b" using L1 corelen len by metis
    ultimately show ?case using L3 by metis
  qed
  have same: "a = b \<longleftrightarrow> (i, j) \<in> (core_link k pop)\<^sup>*" if "labelled self i a" "labelled self j b" for i j a b
    using that linked L4 by (metis classification.inject(1))
  have noise: "classes self ! i = Noise \<longleftrightarrow> \<not> core_point k pop i \<and> (\<forall>j. core_point k pop j \<longrightarrow> \<not> near_points k pop j i)" if i: "i < ?n" for i
  proof
    assume "classes self ! i = Noise"
    then show "\<not> core_point k pop i \<and> (\<forall>j. core_point k pop j \<longrightarrow> \<not> near_points k pop j i)"
      using L1 L2 corelen len i by (metis classification.distinct(3))
  next
    assume "\<not> core_point k pop i \<and> (\<forall>j. core_point k pop j \<longrightarrow> \<not> near_points k pop j i)"
    then show "classes self ! i = Noise"
      using L1 L5 len i by (metis classification.exhaust)
  qed
  show ?thesis
    using r(1) len L1 same noise L5 by (intro exI [of _ self]) simp
qed

definition line_points :: "real into_cluster" where
  "line_points = into_cluster_default (\<lambda>x y. \<bar>x - y\<bar>)\<lparr>epsilon := 2, c_capacity := 2\<rparr>"

theorem clusters_are_components_witness:
  "symmetric_distance line_points \<and> (\<exists>self. classify_points line_points [0, 1, 5] = Some self \<and> length (classes self) = 3
    \<and> (\<exists>a. classes self ! 0 = Core a) \<and> classes self ! 2 = Noise)"
proof -
  have sym: "symmetric_distance line_points" by (auto simp: symmetric_distance_def line_points_def into_cluster_default_def)
  have near: "near_points line_points [0, 1, 5] i j \<longleftrightarrow> (i = 0 \<or> i = 1) \<and> (j = 0 \<or> j = 1) \<or> i = 2 \<and> j = 2" for i j
    by (auto simp: near_points_def line_points_def into_cluster_default_def less_Suc_eq numeral_eq_Suc)
  have "{j. near_points line_points [0, 1, 5] 0 j} = {0, 1}" "{j. near_points line_points [0, 1, 5] 2 j} = {2}"
    by (auto simp: near)
  then have "core_point line_points [0, 1, 5] 0" "\<not> core_point line_points [0, 1, 5] 2"
    by (simp_all add: core_point_def line_points_def into_cluster_default_def)
  moreover have "core_point line_points [0, 1, 5] j \<Longrightarrow> \<not> near_points line_points [0, 1, 5] j 2" for j
    using \<open>\<not> core_point line_points [0, 1, 5] 2\<close> by (auto simp: near)
  moreover obtain self where self: "classify_points line_points [0, 1, 5] = Some self" "length (classes self) = length [0, 1, 5 :: real]"
    and core: "\<forall>i < length [0, 1, 5 :: real]. (\<exists>a. classes self ! i = Core a) \<longleftrightarrow> core_point line_points [0, 1, 5] i"
    and noise: "\<forall>i < length [0, 1, 5 :: real]. classes self ! i = Noise \<longleftrightarrow> \<not> core_point line_points [0, 1, 5] i
      \<and> (\<forall>j. core_point line_points [0, 1, 5] j \<longrightarrow> \<not> near_points line_points [0, 1, 5] j i)"
    using clusters_are_components [OF sym, of "[0, 1, 5]"] by blast
  ultimately show ?thesis using sym core [THEN spec, of 0] noise [THEN spec, of 2] by auto
qed

section \<open>Groups\<close>

lemma mset_group_points:
  "distinct hs \<Longrightarrow> set hs = set (map fst value) \<Longrightarrow> mset (concat (map (\<lambda>h. group_points h value) hs)) = mset (map snd value)"
proof (induction hs arbitrary: "value")
  case (Cons h hs)
  let ?rest = "filter (\<lambda>p. fst p \<noteq> h) value"
  have e: "map (\<lambda>g. group_points g value) hs = map (\<lambda>g. group_points g ?rest) hs"
    using Cons.prems(1) by (auto simp: group_points_def intro!: arg_cong [of _ _ "map snd"] filter_cong)
  have "set hs = set (map fst ?rest)" using Cons.prems by auto
  then have "mset (concat (map (\<lambda>g. group_points g value) hs)) = mset (map snd ?rest)"
    unfolding e using Cons.IH [of ?rest] Cons.prems(1) by simp
  moreover have "mset (map snd value) = mset (map snd (filter (\<lambda>p. fst p = h) value)) + mset (map snd ?rest)"
    by (induction "value") auto
  ultimately show ?case by (simp add: group_points_def)
qed simp

definition all_points :: "('p, 'pt, 'poly) cluster \<Rightarrow> 'p multiset" where
  "all_points cl = mset (cluster_noise cl) + mset (concat (map cluster_points (cluster_clustered cl)))"

lemma clustered_of_points: "clustered_of G to_point points = Ok c \<Longrightarrow> cluster_points c = points"
  by (auto simp: clustered_of_def Let_def split: option.splits)

lemma place_groups_keep:
  assumes "\<And>g. g \<in> set gs \<Longrightarrow> length g \<ge> 3 \<Longrightarrow> \<exists>c. clustered_of G to_point g = Ok c"
  shows "\<exists>cl'. place_groups G to_point cl gs = Some cl' \<and> all_points cl' = all_points cl + mset (concat gs)"
  using assms
proof (induction gs arbitrary: cl)
  case (Cons g gs)
  have "\<exists>cl1. place_group G to_point cl g = Some cl1 \<and> all_points cl1 = all_points cl + mset g"
  proof (cases "length g \<ge> 3")
    case True
    then obtain c where "clustered_of G to_point g = Ok c" using Cons.prems by auto
    then show ?thesis using clustered_of_points [of G to_point g c] True by (simp add: place_group_def all_points_def)
  qed (simp add: place_group_def all_points_def)
  then obtain cl1 where c: "place_group G to_point cl g = Some cl1" "all_points cl1 = all_points cl + mset g" by blast
  then show ?case using Cons.IH [of cl1] Cons.prems by fastforce
qed simp

theorem grouping_keeps_points:
  assumes "distinct (geo_groups G (set (map fst value)))" "set (geo_groups G (set (map fst value))) = set (map fst value)"
    and "\<And>h. length (group_points h value) \<ge> 3 \<Longrightarrow> \<exists>c. clustered_of G to_point (group_points h value) = Ok c"
  shows "\<exists>cl. cluster_of_labelled G to_point value = Some cl \<and> all_points cl = mset (map snd value)"
proof -
  let ?gs = "map (\<lambda>h. group_points h value) (geo_groups G (set (map fst value)))"
  have a: "\<And>g. g \<in> set ?gs \<Longrightarrow> length g \<ge> 3 \<Longrightarrow> \<exists>c. clustered_of G to_point g = Ok c" using assms(3) by auto
  have "\<exists>cl'. place_groups G to_point \<lparr>cluster_noise = [], cluster_clustered = []\<rparr> ?gs = Some cl' \<and> all_points cl' = mset (concat ?gs)"
    using place_groups_keep [where gs = ?gs and cl = "\<lparr>cluster_noise = [], cluster_clustered = []\<rparr>", OF a]
    by (simp add: all_points_def)
  then show ?thesis unfolding mset_group_points [OF assms(1,2)] by (simp add: cluster_of_labelled_def all_points_def)
qed

text \<open>
  The points without a cluster share the hash 0, and three of them are turned into a cluster like any
  other group.
\<close>

lemma unlabelled_points_become_a_cluster:
  assumes "\<forall>c \<in> set labels. \<forall>a. c \<noteq> Core a" "length labels = length points" "length points \<ge> 3"
    and "geo_groups G {0} = [0]" "clustered_of G to_point points = Ok c"
  shows "cluster_of_labelled G to_point (zip (map label_hash labels) points) = Some \<lparr>cluster_noise = [], cluster_clustered = [c]\<rparr>"
proof -
  have "map label_hash labels = replicate (length labels) 0"
    using assms(1) by (auto simp: label_hash_def list_eq_iff_nth_eq split: classification.splits)
  then have z: "zip (map label_hash labels) points = map (Pair 0) points"
    using assms(2) by (simp add: zip_replicate1)
  have "set (map fst (map (Pair (0::nat)) points)) = {0}" using assms(3) by (cases points) auto
  moreover have "group_points 0 (map (Pair 0) points) = points" by (simp add: group_points_def comp_def)
  ultimately show ?thesis using assms(3-5) by (simp add: z cluster_of_labelled_def place_group_def)
qed

section \<open>Packed hashes\<close>

lemma bit_packed_byte:
  assumes "bit (push_bit (8 * (7 - i)) (ucast (b :: 8 word)) :: 64 word) n" "i < 8"
  shows "8 * (7 - i) \<le> n \<and> n < 8 * (8 - i)"
proof -
  have "8 * (7 - i) \<le> n" "n - 8 * (7 - i) < 8"
    using assms(1) by (auto simp: bit_simps dest: bit_imp_le_length)
  then show ?thesis using assms(2) by linarith
qed

lemma packed_byte_inj:
  assumes "push_bit (8 * (7 - i)) (ucast (b :: 8 word)) = (push_bit (8 * (7 - i)) (ucast (b' :: 8 word)) :: 64 word)" "i < 8"
  shows "b = b'"
proof (rule bit_word_eqI)
  fix n assume n: "n < LENGTH(8)"
  then have "8 * (7 - i) + n < 64" using assms(2) by simp
  moreover have "bit (push_bit (8 * (7 - i)) (ucast b) :: 64 word) (8 * (7 - i) + n)
      \<longleftrightarrow> bit (push_bit (8 * (7 - i)) (ucast b') :: 64 word) (8 * (7 - i) + n)"
    by (simp only: assms(1))
  ultimately show "bit b n \<longleftrightarrow> bit b' n" using n by (simp add: bit_simps)
qed

lemma push3_inj: "m < 32 \<Longrightarrow> n < 32 \<Longrightarrow> push_bit 3 (of_nat m :: 8 word) = push_bit 3 (of_nat n) \<Longrightarrow> m = n"
proof -
  assume m: "m < 32" and n: "n < 32" and e: "push_bit 3 (of_nat m :: 8 word) = push_bit 3 (of_nat n)"
  have "unat (push_bit 3 (of_nat k :: 8 word)) = 8 * k" if "k < 32" for k
    using that by (simp add: push_bit_eq_mult unat_word_ariths unat_of_nat)
  then show "m = n" using m n e by (metis mult_left_cancel zero_neq_numeral)
qed

lemma or_disjoint_inj:
  assumes "a OR x = b OR (y :: 64 word)" "\<And>n. bit a n \<or> bit b n \<Longrightarrow> k \<le> n" "\<And>n. bit x n \<or> bit y n \<Longrightarrow> n < k"
  shows "a = b" "x = y"
proof -
  have e: "bit a n \<or> bit x n \<longleftrightarrow> bit b n \<or> bit y n" for n
    using arg_cong [OF assms(1), of "\<lambda>w. bit w n"] by (simp add: bit_or_iff)
  show "a = b"
  proof (rule bit_word_eqI)
    fix n show "bit a n \<longleftrightarrow> bit b n" using e [of n] assms(2,3) [of n] by (cases "n < k") auto
  qed
  show "x = y"
  proof (rule bit_word_eqI)
    fix n show "bit x n \<longleftrightarrow> bit y n" using e [of n] assms(2,3) [of n] by (cases "n < k") auto
  qed
qed

lemma pack_chars_inj:
  assumes "pack_chars i r cs = Some w" "pack_chars i r' cs' = Some w" "length cs = length cs'" "i + length cs \<le> 8"
    and "\<And>n. bit r n \<or> bit r' n \<Longrightarrow> 8 * (8 - i) \<le> n"
  shows "r = r' \<and> cs = cs'"
  using assms
proof (induction cs arbitrary: i r r' cs')
  case (Cons c cs)
  obtain c' ds where cs': "cs' = c' # ds" using Cons.prems(3) by (cases cs') auto
  obtain m m' where m: "position (\<lambda>b. b = c) base32_alphabet = Some m" "position (\<lambda>b. b = c') base32_alphabet = Some m'"
    using Cons.prems(1,2) by (auto simp: cs' split: option.splits)
  let ?x = "push_bit (8 * (7 - i)) (ucast (push_bit 3 (of_nat m :: 8 word))) :: 64 word"
  let ?y = "push_bit (8 * (7 - i)) (ucast (push_bit 3 (of_nat m' :: 8 word))) :: 64 word"
  have i: "i < 8" using Cons.prems(4) by simp
  have lt: "bit ?x n \<or> bit ?y n \<Longrightarrow> 8 * (7 - i) \<le> n \<and> n < 8 * (8 - i)" for n
    using bit_packed_byte [OF _ i] by blast
  have ge: "8 * (8 - Suc i) \<le> n" if "bit (r OR ?x) n \<or> bit (r' OR ?y) n" for n
  proof -
    have "bit r n \<or> bit r' n \<or> bit ?x n \<or> bit ?y n" using that by (simp only: bit_or_iff) blast
    then show ?thesis using Cons.prems(5) [of n] lt [of n] by fastforce
  qed
  have ih: "r OR ?x = r' OR ?y \<and> cs = ds"
    using Cons.IH [of "Suc i" "r OR ?x" "r' OR ?y" ds] Cons.prems(1-4) ge by (simp add: cs' m Let_def)
  have eq: "r = r'" "?x = ?y"
    using or_disjoint_inj [of r ?x r' ?y "8 * (8 - i)"] ih Cons.prems(5) lt by blast+
  have "m < 32" "m' < 32" using position_SomeD [OF m(1)] position_SomeD [OF m(2)] by (simp_all add: base32_alphabet_def)
  then have "m = m'" using push3_inj packed_byte_inj [OF eq(2) i] by blast
  then have "c = c'" using position_SomeD [OF m(1)] position_SomeD [OF m(2)] by metis
  then show ?case using ih eq cs' by simp
qed simp

theorem geohash_to_u64_inj:
  "geohash_to_u64 a = Some w \<Longrightarrow> geohash_to_u64 b = Some w \<Longrightarrow> length a = length b \<Longrightarrow> a = b"
  using pack_chars_inj [of 0 0 a w 0 b] by (auto simp: geohash_to_u64_def split: if_splits)

end
