(* ===== verification/Mock_Network.thy ===== *)
theory Mock_Network
  imports Shard_Laws
begin

text \<open>
  The in-memory network of \<open>routers_network\<close> (\<open>mock.rs\<close>) and its builder. The graph map, the packed tree
  and the order in which a hash map gives its keys are parameters, as for the shards. The laws show
  that a built network holds exactly what was registered last for each node and each pair of nodes,
  that every edge has metadata, and that it meets what the matcher asks of a network when both ends of
  every edge are registered.
\<close>

type_synonym mock_entry_id = int

datatype mock_metadata = MockMetadata

definition mock_identifier :: "mock_entry_id \<Rightarrow> int" where
  "mock_identifier i = i"

definition mock_pick :: "unit \<Rightarrow> mock_metadata" where
  "mock_pick raw = MockMetadata"

definition mock_runtime :: "unit option \<Rightarrow> unit" where
  "mock_runtime ctx = ()"

definition mock_accessible :: "mock_metadata \<Rightarrow> unit \<Rightarrow> direction \<Rightarrow> bool" where
  "mock_accessible md access d = True"

record 'g mock_network =
  mk_graph :: 'g
  mk_nodes :: "mock_entry_id \<rightharpoonup> (mock_entry_id, point) node"
  mk_metadata :: "mock_entry_id \<rightharpoonup> mock_metadata"
  mk_node_index :: "mock_entry_id row_index"
  mk_edge_index :: "(mock_entry_id \<times> mock_entry_id) row_index"

section \<open>The builder\<close>

definition DEFAULT_WEIGHT :: nat where
  "DEFAULT_WEIGHT = 1"

definition dummy_point :: point where
  "dummy_point = (0, 0)"

record node_def =
  nd_id :: mock_entry_id
  nd_position :: point

record edge_def =
  ed_source :: mock_entry_id
  ed_target :: mock_entry_id
  ed_weight :: nat
  ed_id :: mock_entry_id

record mock_builder =
  mb_nodes :: "node_def list"
  mb_edges :: "edge_def list"
  next_edge_id :: int

definition mock_builder_new :: mock_builder where
  "mock_builder_new = \<lparr>mb_nodes = [], mb_edges = [], next_edge_id = 1\<rparr>"

definition mb_node :: "mock_builder \<Rightarrow> int \<Rightarrow> point \<Rightarrow> mock_builder" where
  "mb_node b i pos = b\<lparr>mb_nodes := mb_nodes b @ [\<lparr>nd_id = i, nd_position = pos\<rparr>]\<rparr>"

definition weighted_edge :: "mock_builder \<Rightarrow> int \<Rightarrow> int \<Rightarrow> nat \<Rightarrow> mock_builder" where
  "weighted_edge b s t w =
     (let edge_id = next_edge_id b
      in b\<lparr>next_edge_id := next_edge_id b + 1,
           mb_edges := mb_edges b @ [\<lparr>ed_source = s, ed_target = t, ed_weight = w, ed_id = edge_id\<rparr>]\<rparr>)"

definition mb_edge :: "mock_builder \<Rightarrow> int \<Rightarrow> int \<Rightarrow> mock_builder" where
  "mb_edge b s t = weighted_edge b s t DEFAULT_WEIGHT"

definition bidirectional_weighted_edge :: "mock_builder \<Rightarrow> int \<Rightarrow> int \<Rightarrow> nat \<Rightarrow> mock_builder" where
  "bidirectional_weighted_edge b a c w =
     (let edge_id = next_edge_id b
      in b\<lparr>next_edge_id := next_edge_id b + 1,
           mb_edges := mb_edges b @ [\<lparr>ed_source = a, ed_target = c, ed_weight = w, ed_id = edge_id\<rparr>,
             \<lparr>ed_source = c, ed_target = a, ed_weight = w, ed_id = edge_id\<rparr>]\<rparr>)"

definition bidirectional_edge :: "mock_builder \<Rightarrow> int \<Rightarrow> int \<Rightarrow> mock_builder" where
  "bidirectional_edge b a c = bidirectional_weighted_edge b a c DEFAULT_WEIGHT"

text \<open>The node and edge insertions of \<open>build\<close>.\<close>

definition insert_node ::
    "node_def \<Rightarrow> (mock_entry_id \<rightharpoonup> (mock_entry_id, point) node) \<Rightarrow> mock_entry_id \<rightharpoonup> (mock_entry_id, point) node" where
  "insert_node d nodes = nodes(nd_id d \<mapsto> node_new (nd_position d) (nd_id d))"

definition insert_edge ::
    "(mock_entry_id, 'g) graph_ops \<Rightarrow> edge_def \<Rightarrow> 'g \<times> (mock_entry_id \<rightharpoonup> mock_metadata) \<Rightarrow> 'g \<times> (mock_entry_id \<rightharpoonup> mock_metadata)" where
  "insert_edge G e s =
     (let (graph, md) = s
      in (dg_add_edge G graph (ed_source e) (ed_target e) (ed_weight e, edge_id_new (ed_id e)),
          if ed_id e \<in> dom md then md else md(ed_id e \<mapsto> MockMetadata)))"

definition mock_build ::
    "(mock_entry_id, 'g) graph_ops \<Rightarrow> (mock_entry_id set \<Rightarrow> mock_entry_id list) \<Rightarrow> mock_builder \<Rightarrow> 'g mock_network" where
  "mock_build G order b =
     (let nodes = fold insert_node (mb_nodes b) Map.empty;
          (graph, md) = fold (insert_edge G) (mb_edges b) (dg_new G, Map.empty);
          edge_rows = map (\<lambda>e. (ed_source e, ed_target e))
            (filter (\<lambda>e. ed_source e \<in> dom nodes \<and> ed_target e \<in> dom nodes) (mb_edges b));
          pos = (\<lambda>i. node_position (the (nodes i)))
      in \<lparr>mk_graph = graph, mk_nodes = nodes, mk_metadata = md,
          mk_node_index = row_index_build (order (dom nodes)) (\<lambda>i. (pos i, pos i)),
          mk_edge_index = row_index_build edge_rows (\<lambda>(s, t). envelope_of (pos s) (pos t))\<rparr>)"

section \<open>The trait methods\<close>

definition mk_fat_id :: "mock_entry_id edge_id \<Rightarrow> (mock_entry_id, point) node edge_id" where
  "mk_fat_id i = with_direction (edge_id_new (node_new dummy_point (edge_index i))) (edge_direction i)"

definition mk_fat_row ::
    "(mock_entry_id, 'g) graph_ops \<Rightarrow> 'g mock_network \<Rightarrow> mock_entry_id \<times> mock_entry_id \<Rightarrow> (mock_entry_id, point) node edge option" where
  "mk_fat_row G N p =
     (case p of (s, t) \<Rightarrow>
        (case mk_nodes N s of None \<Rightarrow> None | Some src \<Rightarrow>
        (case mk_nodes N t of None \<Rightarrow> None | Some tgt \<Rightarrow>
        (case dg_edge_weight G (mk_graph N) (node_ident src) (node_ident tgt) of None \<Rightarrow> None | Some (wt, i) \<Rightarrow>
           Some \<lparr>source = src, target = tgt, weight = wt, edge_ident = mk_fat_id i\<rparr>))))"

definition mk_edges_in_box :: "(mock_entry_id, 'g) graph_ops \<Rightarrow> rtree \<Rightarrow> 'g mock_network \<Rightarrow> rect \<Rightarrow> (mock_entry_id, point) node edge list" where
  "mk_edges_in_box G t N b = List.map_filter (mk_fat_row G N) (row_search t (mk_edge_index N) b)"

definition mk_nodes_in_box :: "rtree \<Rightarrow> 'g mock_network \<Rightarrow> rect \<Rightarrow> (mock_entry_id, point) node list" where
  "mk_nodes_in_box t N b = List.map_filter (mk_nodes N) (row_search t (mk_node_index N) b)"

definition mk_edge :: "(mock_entry_id, 'g) graph_ops \<Rightarrow> 'g mock_network \<Rightarrow> mock_entry_id \<Rightarrow> mock_entry_id \<Rightarrow> mock_entry_id edge option" where
  "mk_edge G N s t =
     map_option (\<lambda>(w, i). \<lparr>source = s, target = t, weight = w, edge_ident = i\<rparr>) (dg_edge_weight G (mk_graph N) s t)"

definition mk_nearest_node :: "rtree \<Rightarrow> 'g mock_network \<Rightarrow> point \<Rightarrow> (mock_entry_id, point) node option" where
  "mk_nearest_node t N p = Option.bind (row_nearest t (mk_node_index N) p) (mk_nodes N)"

definition mk_route_nodes ::
    "(mock_entry_id, 'g) graph_ops \<Rightarrow> 'g mock_network \<Rightarrow> mock_entry_id \<Rightarrow> mock_entry_id \<Rightarrow> (nat \<times> (mock_entry_id, point) node list) option" where
  "mk_route_nodes G N start finish =
     map_option (\<lambda>(score, path). (score, List.map_filter (mk_nodes N) path)) (dg_astar G (mk_graph N) start finish)"

definition mk_point :: "'g mock_network \<Rightarrow> mock_entry_id \<Rightarrow> point option" where
  "mk_point N i = map_option node_position (mk_nodes N i)"

definition mk_fatten :: "'g mock_network \<Rightarrow> mock_entry_id edge \<Rightarrow> (mock_entry_id, point) node edge option" where
  "mk_fatten N e =
     (case mk_nodes N (source e) of None \<Rightarrow> None | Some src \<Rightarrow>
     (case mk_nodes N (target e) of None \<Rightarrow> None | Some tgt \<Rightarrow>
        Some \<lparr>source = src, target = tgt, weight = weight e, edge_ident = mk_fat_id (edge_ident e)\<rparr>))"

definition mock_as_network :: "(mock_entry_id, 'g) graph_ops \<Rightarrow> rtree \<Rightarrow> 'g mock_network \<Rightarrow> (mock_entry_id, point, mock_metadata) network" where
  "mock_as_network G t N =
     \<lparr>metadata = mk_metadata N, net_point = mk_point N, edges_outof = dg_outgoing G (mk_graph N),
      edges_into = dg_incoming G (mk_graph N), fatten = mk_fatten N,
      edges_in_box = (\<lambda>(lo, hi). mk_edges_in_box G t N (rect_new lo hi)),
      nodes_in_box = (\<lambda>(lo, hi). mk_nodes_in_box t N (rect_new lo hi)),
      net_edge = mk_edge G N, nearest_node = mk_nearest_node t N, route_nodes = mk_route_nodes G N\<rparr>"

section \<open>What a built network holds\<close>

lemma nodes_fold:
  "fold insert_node ds h = h ++ map_of (rev (map (\<lambda>d. (nd_id d, node_new (nd_position d) (nd_id d))) ds))"
  by (induction ds arbitrary: h) (auto simp: insert_node_def map_add_def fun_eq_iff split: option.splits)

lemma insert_edge_pair:
  "insert_edge G e (g, md) = (dg_add_edge G g (ed_source e) (ed_target e) (ed_weight e, edge_id_new (ed_id e)),
     if ed_id e \<in> dom md then md else md(ed_id e \<mapsto> MockMetadata))"
  by (simp add: insert_edge_def)

lemma insert_edges_metadata:
  "snd (fold (insert_edge G) es (g, md)) i = (if i \<in> dom md then md i else if i \<in> ed_id ` set es then Some MockMetadata else None)"
proof (induction es arbitrary: g md)
  case (Cons e es)
  show ?case by (cases "ed_id e \<in> dom md") (auto simp: insert_edge_pair Cons)
qed (auto simp: domIff)

text \<open>The last registration of a node, and of an edge between two nodes.\<close>

definition registered :: "mock_builder \<Rightarrow> mock_entry_id \<rightharpoonup> point" where
  "registered b = map_of (rev (map (\<lambda>d. (nd_id d, nd_position d)) (mb_nodes b)))"

definition last_edge :: "mock_builder \<Rightarrow> mock_entry_id \<times> mock_entry_id \<rightharpoonup> nat \<times> mock_entry_id" where
  "last_edge b = map_of (rev (map (\<lambda>e. ((ed_source e, ed_target e), (ed_weight e, ed_id e))) (mb_edges b)))"

lemma map_of_map_values: "map_of (map (\<lambda>x. (f x, g (f x) (h x))) xs) k = map_option (g k) (map_of (map (\<lambda>x. (f x, h x)) xs) k)"
  by (induction xs) auto

lemma built_nodes: "mk_nodes (mock_build G order b) i = map_option (\<lambda>p. node_new p i) (registered b i)"
  using map_of_map_values [of nd_id "\<lambda>i p. node_new p i" nd_position "rev (mb_nodes b)" i]
  by (simp add: mock_build_def Let_def split_beta nodes_fold registered_def rev_map)

lemma built_metadata: "mk_metadata (mock_build G order b) i = (if i \<in> ed_id ` set (mb_edges b) then Some MockMetadata else None)"
  by (simp add: mock_build_def Let_def split_beta insert_edges_metadata)

section \<open>Identifiers\<close>

text \<open>Edges share an identifier only if they are the two directions of one road.\<close>

definition builder_ok :: "mock_builder \<Rightarrow> bool" where
  "builder_ok b \<longleftrightarrow> (\<forall>e \<in> set (mb_edges b). ed_id e < next_edge_id b)
    \<and> (\<forall>e \<in> set (mb_edges b). \<forall>e' \<in> set (mb_edges b). ed_id e = ed_id e' \<longrightarrow> e = e'
        \<or> ed_source e = ed_target e' \<and> ed_target e = ed_source e' \<and> ed_weight e = ed_weight e')"

lemma builder_push:
  assumes "builder_ok b" "\<forall>e \<in> set es. ed_id e = next_edge_id b"
    and "\<forall>e \<in> set es. \<forall>e' \<in> set es. e = e' \<or> ed_source e = ed_target e' \<and> ed_target e = ed_source e' \<and> ed_weight e = ed_weight e'"
  shows "builder_ok (b\<lparr>next_edge_id := next_edge_id b + 1, mb_edges := mb_edges b @ es\<rparr>)"
proof -
  have old: "e \<in> set (mb_edges b) \<Longrightarrow> ed_id e < next_edge_id b" for e using assms(1) by (simp add: builder_ok_def)
  have "ed_id e \<noteq> ed_id e'" if "e \<in> set (mb_edges b)" "e' \<in> set es" for e e'
    using old [OF that(1)] assms(2) that(2) by auto
  then have "e = e' \<or> ed_source e = ed_target e' \<and> ed_target e = ed_source e' \<and> ed_weight e = ed_weight e'"
    if "e \<in> set (mb_edges b) \<union> set es" "e' \<in> set (mb_edges b) \<union> set es" "ed_id e = ed_id e'" for e e'
    using that assms(1,3) unfolding builder_ok_def by (metis UnE)
  moreover have "ed_id e < next_edge_id b + 1" if "e \<in> set (mb_edges b) \<union> set es" for e
    using that old [of e] assms(2) by fastforce
  ultimately show ?thesis unfolding builder_ok_def by simp
qed

lemma builder_steps [intro]:
  "builder_ok mock_builder_new" "builder_ok b \<Longrightarrow> builder_ok (mb_node b i p)" "builder_ok b \<Longrightarrow> builder_ok (weighted_edge b s t w)"
  "builder_ok b \<Longrightarrow> builder_ok (mb_edge b s t)" "builder_ok b \<Longrightarrow> builder_ok (bidirectional_weighted_edge b s t w)"
  "builder_ok b \<Longrightarrow> builder_ok (bidirectional_edge b s t)"
proof -
  show "builder_ok mock_builder_new" by (simp add: builder_ok_def mock_builder_new_def)
  show "builder_ok (mb_node b i p)" if "builder_ok b" using that by (simp add: builder_ok_def mb_node_def)
  have w: "builder_ok (weighted_edge b s t w)" if "builder_ok b" for w
    using builder_push [OF that] by (simp add: weighted_edge_def Let_def)
  then show "builder_ok (weighted_edge b s t w)" if "builder_ok b" using that .
  show "builder_ok (mb_edge b s t)" if "builder_ok b" using w that by (simp add: mb_edge_def)
  have d: "builder_ok (bidirectional_weighted_edge b s t w)" if "builder_ok b" for w
    using builder_push [OF that] by (simp add: bidirectional_weighted_edge_def Let_def)
  then show "builder_ok (bidirectional_weighted_edge b s t w)" if "builder_ok b" using that .
  show "builder_ok (bidirectional_edge b s t)" if "builder_ok b" using d that by (simp add: bidirectional_edge_def)
qed

section \<open>What the matcher sees\<close>

locale mock_queries = graph_map G + spatial_tree t
  for G :: "(mock_entry_id, 'g) graph_ops" and t :: rtree +
  fixes order :: "mock_entry_id set \<Rightarrow> mock_entry_id list"
  assumes order: "orders order"
begin

lemma insert_edges_weight:
  "dg_edge_weight G (fst (fold (insert_edge G) es (g, md))) a b =
    (case map_of (rev (map (\<lambda>e. ((ed_source e, ed_target e), (ed_weight e, edge_id_new (ed_id e)))) es)) (a, b) of
       Some x \<Rightarrow> Some x | None \<Rightarrow> dg_edge_weight G g a b)"
proof (induction es arbitrary: g md)
  case (Cons e es)
  show ?case
    by (auto simp: insert_edge_pair Cons map_add_def weight_add_edge simp del: edge_id_new.simps split: option.splits)
qed simp

lemma built_weight:
  "dg_edge_weight G (mk_graph (mock_build G order b)) s d = map_option (\<lambda>(w, i). (w, edge_id_new i)) (last_edge b (s, d))"
  using map_of_map_values [of "\<lambda>e. (ed_source e, ed_target e)" "\<lambda>k (w, i). (w, edge_id_new i)" "\<lambda>e. (ed_weight e, ed_id e)" "rev (mb_edges b)" "(s, d)"]
  by (simp add: mock_build_def Let_def split_beta insert_edges_weight weight_new last_edge_def rev_map option.case_eq_if)

text \<open>The documented promise of \<open>build\<close>: the metadata of a valid edge is never missing.\<close>

lemma edges_have_metadata:
  assumes "dg_edge_weight G (mk_graph (mock_build G order b)) s d = Some (w, i)"
  shows "mk_metadata (mock_build G order b) (edge_index i) = Some MockMetadata"
proof -
  obtain k where k: "last_edge b (s, d) = Some (w, k)" "i = edge_id_new k" using assms by (auto simp: built_weight)
  then have "k \<in> ed_id ` set (mb_edges b)" by (force simp: last_edge_def dest!: map_of_SomeD)
  then show ?thesis by (simp add: built_metadata k(2))
qed

lemma mock_nodes_in_box:
  "set (mk_nodes_in_box t (mock_build G order b) r) = {node_new p i | i p. registered b i = Some p \<and> touches (corners_rect (p, p)) r}"
proof -
  let ?N = "mock_build G order b"
  have dom: "dom (fold insert_node (mb_nodes b) Map.empty) = dom (mk_nodes ?N)" and ix: "mk_node_index ?N
      = row_index_build (order (dom (mk_nodes ?N))) (\<lambda>i. (node_position (the (mk_nodes ?N i)), node_position (the (mk_nodes ?N i))))"
    by (simp_all add: mock_build_def Let_def split_beta)
  have "finite (dom (mk_nodes ?N))" by (simp add: dom [symmetric]) (simp add: nodes_fold finite_dom_map_of)
  then have "set (order (dom (mk_nodes ?N))) = dom (mk_nodes ?N)" using order by (simp add: orders_def)
  then have hits: "set (row_search t (mk_node_index ?N) r)
      = {i \<in> dom (mk_nodes ?N). touches (corners_rect (node_position (the (mk_nodes ?N i)), node_position (the (mk_nodes ?N i)))) r}"
    unfolding ix row_search_exact by simp
  have "n \<in> set (mk_nodes_in_box t ?N r) \<longleftrightarrow> (\<exists>i. mk_nodes ?N i = Some n \<and> touches (corners_rect (node_position n, node_position n)) r)" for n
    unfolding mk_nodes_in_box_def in_map_filter hits by force
  then show ?thesis by (auto simp: built_nodes node_new_def)
qed

lemma mock_edges_in_box:
  "set (mk_edges_in_box G t (mock_build G order b) r) =
    {\<lparr>source = node_new p s, target = node_new q d, weight = w, edge_ident = mk_fat_id (edge_id_new i)\<rparr> | s d w i p q.
       last_edge b (s, d) = Some (w, i) \<and> registered b s = Some p \<and> registered b d = Some q
     \<and> touches (corners_rect (envelope_of p q)) r}"
proof -
  let ?N = "mock_build G order b"
  let ?rows = "map (\<lambda>e. (ed_source e, ed_target e)) (filter (\<lambda>e. ed_source e \<in> dom (mk_nodes ?N) \<and> ed_target e \<in> dom (mk_nodes ?N)) (mb_edges b))"
  let ?env = "\<lambda>(s, d). envelope_of (node_position (the (mk_nodes ?N s))) (node_position (the (mk_nodes ?N d)))"
  have ix: "mk_edge_index ?N = row_index_build ?rows ?env" by (simp add: mock_build_def Let_def split_beta)
  have rows: "(s, d) \<in> set ?rows \<longleftrightarrow> last_edge b (s, d) \<noteq> None \<and> registered b s \<noteq> None \<and> registered b d \<noteq> None" for s d
  proof -
    have "last_edge b (s, d) \<noteq> None \<longleftrightarrow> (s, d) \<in> (\<lambda>e. (ed_source e, ed_target e)) ` set (mb_edges b)"
      by (force simp: last_edge_def map_of_eq_None_iff)
    then show ?thesis by (force simp: built_nodes domIff)
  qed
  have row: "mk_fat_row G ?N (s, d) = Some e \<longleftrightarrow> (\<exists>p q w i. registered b s = Some p \<and> registered b d = Some q \<and> last_edge b (s, d) = Some (w, i)
      \<and> e = \<lparr>source = node_new p s, target = node_new q d, weight = w, edge_ident = mk_fat_id (edge_id_new i)\<rparr>)" for s d e
    by (auto simp: mk_fat_row_def built_nodes built_weight node_new_def simp del: edge_id_new.simps split: option.splits)
  have "e \<in> set (mk_edges_in_box G t ?N r) \<longleftrightarrow> (\<exists>s d. (s, d) \<in> set ?rows \<and> touches (corners_rect (?env (s, d))) r \<and> mk_fat_row G ?N (s, d) = Some e)" for e
    unfolding mk_edges_in_box_def in_map_filter ix row_search_exact by auto
  then show ?thesis unfolding rows row by (fastforce simp: built_nodes node_new_def)
qed

text \<open>A network all of whose edges end at registered nodes gives the matcher's caches what they unwrap.\<close>

lemma mock_successors_defined:
  assumes "\<forall>e \<in> set (mb_edges b). registered b (ed_target e) \<noteq> None" "registered b key \<noteq> None"
  shows "\<exists>l. successors_calculate g (mock_as_network G t (mock_build G order b)) mock_accessible () key = Some l
    \<and> (\<forall>x \<in> set l. net_point (mock_as_network G t (mock_build G order b)) (fst x) \<noteq> None)"
proof (rule successors_total)
  show "net_point (mock_as_network G t (mock_build G order b)) key \<noteq> None"
    using assms(2) by (simp add: mock_as_network_def mk_point_def built_nodes)
  fix a nxt w e assume "(a, nxt, w, e) \<in> set (edges_outof (mock_as_network G t (mock_build G order b)) key)"
  then have "last_edge b (key, nxt) \<noteq> None" by (auto simp: mock_as_network_def outgoing built_weight)
  then obtain x where "last_edge b (key, nxt) = Some x" by blast
  then have "nxt \<in> ed_target ` set (mb_edges b)" by (force simp: last_edge_def dest!: map_of_SomeD)
  then show "net_point (mock_as_network G t (mock_build G order b)) nxt \<noteq> None"
    using assms(1) by (auto simp: mock_as_network_def mk_point_def built_nodes)
qed

end

interpretation list_mock: mock_queries list_graph scan_tree sorted_list_of_set
  by unfold_locales simp

text \<open>
  The graph keeps one edge between two nodes, the edge index one row per registration: a road registered
  twice is found twice.
\<close>

definition two_lanes :: mock_builder where
  "two_lanes = mb_edge (mb_edge (mb_node (mb_node mock_builder_new 1 (0, 0)) 2 (1, 1)) 1 2) 1 2"

lemma repeated_edges_are_found_twice:
  "length (mk_edges_in_box list_graph scan_tree (mock_build list_graph (\<lambda>ks. [1, 2]) two_lanes) (rect_new (0, 0) (1, 1))) = 2"
  by (simp add: two_lanes_def mb_edge_def weighted_edge_def mb_node_def mock_builder_new_def mock_build_def
      insert_node_def insert_edge_pair mk_edges_in_box_def row_search_def scan_tree_def row_index_build_def touches_def
      rect_new_def envelope_of_def node_new_def row_get_def mk_fat_row_def list_graph_def List.map_filter_def)

end
