(* ===== verification/Timezones.thy ===== *)
theory Timezones
  imports Strategy "HOL-Library.Word"
begin

text \<open>
  Timezone lookup (\<open>routers_tz\<close>, \<open>routers_tz_types\<close>): the three storages with their search, how the cell
  storage and the tree storage are built from the polygons of the timezones, and the region a polygon
  shows to the cell coverer. The timezone database, planar geometry, the tree and the cells of the
  sphere come from other crates and are parameters.
\<close>

section \<open>Names and resolvers\<close>

text \<open>\<open>tz\<close> unwraps the database entry of a name; \<open>None\<close> is its panic.\<close>

definition name_tz :: "(string \<Rightarrow> 'tz option) \<Rightarrow> string \<Rightarrow> 'tz option" where
  "name_tz db name = db name"

definition name_try_tz :: "(string \<Rightarrow> 'tz option) \<Rightarrow> string \<Rightarrow> 'tz option" where
  "name_try_tz db name = db name"

record ('tz, 'geometry) timezone_build =
  tb_tz :: 'tz
  tb_name :: string
  tb_geometry :: 'geometry

text \<open>Found timezones, or the error that there are none.\<close>

definition found :: "'tz list \<Rightarrow> ('tz list, unit) outcome" where
  "found tzs = (if tzs = [] then Err () else Ok tzs)"

definition or_panic :: "'a option \<Rightarrow> ('a \<Rightarrow> ('b, 'e) outcome) \<Rightarrow> ('b, 'e) outcome" where
  "or_panic x f = (case x of None \<Rightarrow> Panic | Some y \<Rightarrow> f y)"

definition search_polygon ::
    "(rect \<Rightarrow> ('tz list, unit) outcome) \<Rightarrow> ('poly \<Rightarrow> rect option) \<Rightarrow> 'poly \<Rightarrow> ('tz list, unit) outcome" where
  "search_polygon search bounding_rect polygon =
     (case bounding_rect polygon of None \<Rightarrow> Err () | Some r \<Rightarrow> search r)"

definition rect_center :: "rect \<Rightarrow> point" where
  "rect_center r = ((max_x r + min_x r) / 2, (max_y r + min_y r) / 2)"

section \<open>The basic storage\<close>

record 'geometry basic_backend =
  bb_geometries :: "'geometry list"
  bb_names :: "string list"

definition basic_build :: "('tz, 'geometry) timezone_build list \<Rightarrow> 'geometry basic_backend" where
  "basic_build tzs = \<lparr>bb_geometries = map tb_geometry tzs, bb_names = map tb_name tzs\<rparr>"

definition basic_search ::
    "(string \<Rightarrow> 'tz option) \<Rightarrow> ('geometry \<Rightarrow> rect \<Rightarrow> bool) \<Rightarrow> 'geometry basic_backend \<Rightarrow> rect \<Rightarrow> ('tz list, unit) outcome" where
  "basic_search db contains_rect B r =
     or_panic (those (map (\<lambda>i. if i < length (bb_names B) then name_tz db (bb_names B ! i) else None)
         (filter (\<lambda>i. contains_rect (bb_geometries B ! i) r) [0..<length (bb_geometries B)])))
       found"

section \<open>The tree storage\<close>

text \<open>\<open>'tree\<close> is the packed tree, built from bounding boxes; \<open>nearest\<close> gives the number of the box nearest to a point.\<close>

record ('geometry, 'tree) tree_env =
  bbox :: "'geometry \<Rightarrow> rect option"
  pack_tree :: "rect list \<Rightarrow> 'tree"
  nearest_box :: "'tree \<Rightarrow> point \<Rightarrow> nat list"

record 'tree tree_backend =
  tk_tree :: 'tree
  tk_names :: "string list"

definition tree_build :: "('geometry, 'tree) tree_env \<Rightarrow> ('tz, 'geometry) timezone_build list \<Rightarrow> 'tree tree_backend option" where
  "tree_build T tzs =
     map_option (\<lambda>boxes. \<lparr>tk_tree = pack_tree T boxes, tk_names = map tb_name tzs\<rparr>)
       (those (map (bbox T \<circ> tb_geometry) tzs))"

definition tree_tz_search ::
    "(string \<Rightarrow> 'tz option) \<Rightarrow> ('geometry, 'tree) tree_env \<Rightarrow> 'tree tree_backend \<Rightarrow> rect \<Rightarrow> ('tz list, unit) outcome" where
  "tree_tz_search db T B r =
     (let cache_hits = take 1 (nearest_box T (tk_tree B) (rect_center r));
          names = List.map_filter (\<lambda>i. if i < length (tk_names B) then Some (tk_names B ! i) else None) cache_hits
      in or_panic (those (map (name_tz db) names)) found)"

section \<open>The cell storage\<close>

definition MIN_LEVEL :: nat where "MIN_LEVEL = 1"

definition MAX_LEVEL :: nat where "MAX_LEVEL = 13"

definition MAX_CELLS :: nat where "MAX_CELLS = 1000"

record s2_backend =
  cell_ids :: "64 word list"
  tz_indices :: "32 word list"
  tz_names :: "string list"

text \<open>The cells of the sphere: the leaf of a point, ancestors, the centre of a cell.\<close>

record s2_env =
  s2_leaf :: "point \<Rightarrow> 64 word"
  s2_parent :: "64 word \<Rightarrow> nat \<Rightarrow> 64 word"
  s2_center :: "64 word \<Rightarrow> point"

text \<open>\<open>binary_search\<close> of the standard library, on the interval from \<open>lo\<close> to before \<open>hi\<close>.\<close>

function bisect :: "'a::linorder list \<Rightarrow> 'a \<Rightarrow> nat \<Rightarrow> nat \<Rightarrow> nat option" where
  "bisect xs x lo hi =
     (if lo \<ge> hi then None
      else
        let mid = lo + (hi - lo) div 2
        in if xs ! mid = x then Some mid
           else if xs ! mid < x then bisect xs x (mid + 1) hi
           else bisect xs x lo mid)"
  by pat_completeness auto
termination by (relation "measure (\<lambda>(xs, x, lo, hi). hi - lo)") auto

declare bisect.simps [simp del]

definition binary_search :: "'a::linorder list \<Rightarrow> 'a \<Rightarrow> nat option" where
  "binary_search xs x = bisect xs x 0 (length xs)"

definition s2_tz :: "(string \<Rightarrow> 'tz option) \<Rightarrow> s2_backend \<Rightarrow> nat \<Rightarrow> 'tz option" where
  "s2_tz db B pos =
     (if pos < length (tz_indices B) then
        let tz_idx = unat (tz_indices B ! pos)
        in if tz_idx < length (tz_names B) then name_tz db (tz_names B ! tz_idx) else None
      else None)"

definition s2_search :: "(string \<Rightarrow> 'tz option) \<Rightarrow> s2_env \<Rightarrow> s2_backend \<Rightarrow> rect \<Rightarrow> ('tz list, unit) outcome" where
  "s2_search db S B r =
     (let leaf = s2_leaf S (rect_center r);
          ancestors = map (s2_parent S leaf) (rev [MIN_LEVEL..<MAX_LEVEL + 1])
      in or_panic (those (map (s2_tz db B) (unseen (\<lambda>p. p) {} (List.map_filter (binary_search (cell_ids B)) ancestors))))
           found)"

text \<open>
  The build. A cell that several timezones cover goes to the first one that contains its centre, and
  otherwise to the first.
\<close>

definition claim_cell ::
    "s2_env \<Rightarrow> ('geometry \<Rightarrow> point \<Rightarrow> bool) \<Rightarrow> ('tz, 'geometry) timezone_build list
      \<Rightarrow> (64 word \<rightharpoonup> 32 word) \<Rightarrow> 64 word \<times> 32 word \<Rightarrow> 64 word \<rightharpoonup> 32 word" where
  "claim_cell S contains tzs m c =
     (case c of (cell_id, tz_idx) \<Rightarrow>
        (case m cell_id of
           None \<Rightarrow> m(cell_id \<mapsto> tz_idx)
         | Some existing \<Rightarrow>
             (let pt = s2_center S cell_id;
                  new_contains = contains (tb_geometry (tzs ! unat tz_idx)) pt;
                  old_contains = contains (tb_geometry (tzs ! unat existing)) pt
              in if new_contains \<and> \<not> old_contains then m(cell_id \<mapsto> tz_idx) else m)))"

definition resolve_conflicts ::
    "s2_env \<Rightarrow> ('geometry \<Rightarrow> point \<Rightarrow> bool) \<Rightarrow> (64 word \<times> 32 word) list \<Rightarrow> ('tz, 'geometry) timezone_build list
      \<Rightarrow> 64 word list \<times> 32 word list" where
  "resolve_conflicts S contains all_cells tzs =
     (let cell_map = foldl (claim_cell S contains tzs) Map.empty all_cells;
          ids = sorted_list_of_set (dom cell_map)
      in (ids, map (\<lambda>i. the (cell_map i)) ids))"

text \<open>The coverings are computed in parallel and collected in the order of the timezones.\<close>

definition cover_all :: "('geometry \<Rightarrow> 64 word list) \<Rightarrow> ('tz, 'geometry) timezone_build list \<Rightarrow> (64 word \<times> 32 word) list" where
  "cover_all covering tzs =
     concat (map (\<lambda>(tz_idx, tz). map (\<lambda>cell_id. (cell_id, of_nat tz_idx)) (covering (tb_geometry tz))) (enumerate 0 tzs))"

definition compute_backend ::
    "s2_env \<Rightarrow> ('geometry \<Rightarrow> point \<Rightarrow> bool) \<Rightarrow> ('geometry \<Rightarrow> 64 word list) \<Rightarrow> ('tz, 'geometry) timezone_build list \<Rightarrow> s2_backend" where
  "compute_backend S contains covering tzs =
     (let (ids, indices) = resolve_conflicts S contains (cover_all covering tzs) tzs
      in \<lparr>cell_ids = ids, tz_indices = indices, tz_names = map tb_name tzs\<rparr>)"

section \<open>A polygon as a region of the sphere\<close>

record ('poly, 'srect, 'cell) region_env =
  rg_bounding :: "'poly \<Rightarrow> rect option"
  rg_bounding_all :: "'poly list \<Rightarrow> rect option"
  rg_from_pair :: "point \<Rightarrow> point \<Rightarrow> 'srect"
  rg_empty :: 'srect
  rg_intersects :: "'srect \<Rightarrow> 'srect \<Rightarrow> bool"
  rg_contains :: "'poly \<Rightarrow> point \<Rightarrow> bool"
  rg_exterior :: "'poly \<Rightarrow> point list"
  rg_cell_bound :: "'cell \<Rightarrow> 'srect"
  rg_vertices :: "'cell \<Rightarrow> point list"

record ('poly, 'srect) polygon_region =
  region_poly :: "'poly list"
  sub_rects :: "'srect list"
  s2_rect :: 'srect

definition make_srect :: "('poly, 'srect, 'cell) region_env \<Rightarrow> rect option \<Rightarrow> 'srect" where
  "make_srect R b = (case b of None \<Rightarrow> rg_empty R | Some r \<Rightarrow> rg_from_pair R (min_x r, min_y r) (max_x r, max_y r))"

definition region_new :: "('poly, 'srect, 'cell) region_env \<Rightarrow> 'poly list \<Rightarrow> ('poly, 'srect) polygon_region" where
  "region_new R polys =
     \<lparr>region_poly = polys, sub_rects = map (make_srect R \<circ> rg_bounding R) polys, s2_rect = make_srect R (rg_bounding_all R polys)\<rparr>"

definition poly_contains_point ::
    "('poly, 'srect, 'cell) region_env \<Rightarrow> ('poly, 'srect) polygon_region \<Rightarrow> point \<Rightarrow> 'srect \<Rightarrow> bool" where
  "poly_contains_point R P pt cell_rect \<longleftrightarrow>
     list_ex (\<lambda>(polygon, sub_rect). rg_intersects R sub_rect cell_rect \<and> rg_contains R polygon pt) (zip (region_poly P) (sub_rects P))"

definition contains_cell :: "('poly, 'srect, 'cell) region_env \<Rightarrow> ('poly, 'srect) polygon_region \<Rightarrow> 'cell \<Rightarrow> bool" where
  "contains_cell R P c \<longleftrightarrow>
     rg_intersects R (s2_rect P) (rg_cell_bound R c)
   \<and> list_all (\<lambda>v. poly_contains_point R P v (rg_cell_bound R c)) (rg_vertices R c)"

definition intersects_cell :: "('poly, 'srect, 'cell) region_env \<Rightarrow> ('poly, 'srect) polygon_region \<Rightarrow> 'cell \<Rightarrow> bool" where
  "intersects_cell R P c \<longleftrightarrow>
     rg_intersects R (s2_rect P) (rg_cell_bound R c)
   \<and> (list_ex (\<lambda>v. poly_contains_point R P v (rg_cell_bound R c)) (rg_vertices R c)
     \<or> list_ex (\<lambda>(polygon, sub_rect). rg_intersects R sub_rect (rg_cell_bound R c)
          \<and> list_ex (\<lambda>pt. rg_intersects R (rg_cell_bound R c) (rg_from_pair R pt pt)) (rg_exterior R polygon))
         (zip (region_poly P) (sub_rects P)))"

end
