(* ===== verification/Timezone_Laws.thy ===== *)
theory Timezone_Laws
  imports Timezones
begin

text \<open>
  What a lookup answers: binary search finds exactly the stored cells, a cell belongs to the first
  covering timezone that contains its centre (or else to the first), and the timezones found are
  owners of covered ancestors of the point's cell, first that of the deepest. Every storage promises a
  non-empty answer, which is the interface the services rely on.
\<close>

section \<open>Binary search\<close>

lemma bisect_Some: "bisect xs x lo hi = Some i \<Longrightarrow> hi \<le> length xs \<Longrightarrow> i < length xs \<and> xs ! i = x"
proof (induction xs x lo hi rule: bisect.induct)
  case (1 xs x lo hi)
  let ?mid = "lo + (hi - lo) div 2"
  have lt: "lo < hi" using "1.prems"(1) by (auto simp: bisect.simps [of xs x lo hi] split: if_splits)
  consider "xs ! ?mid = x" | "xs ! ?mid \<noteq> x" "xs ! ?mid < x" | "xs ! ?mid \<noteq> x" "\<not> xs ! ?mid < x" by blast
  then show ?case
  proof cases
    case 1
    then show ?thesis using "1.prems" lt by (auto simp: bisect.simps [of xs x lo hi] Let_def)
  next
    case 2
    then have "bisect xs x (?mid + 1) hi = Some i" using "1.prems"(1) lt by (simp add: bisect.simps [of xs x lo hi] Let_def)
    then show ?thesis using "1.IH"(1) [OF _ refl] 2 lt "1.prems"(2) by simp
  next
    case 3
    then have "bisect xs x lo ?mid = Some i" using "1.prems"(1) lt by (simp add: bisect.simps [of xs x lo hi] Let_def)
    then show ?thesis using "1.IH"(2) [OF _ refl] 3 lt "1.prems"(2) by simp
  qed
qed

lemma bisect_None:
  "bisect xs x lo hi = None \<Longrightarrow> sorted xs \<Longrightarrow> hi \<le> length xs \<Longrightarrow> lo \<le> i \<Longrightarrow> i < hi \<Longrightarrow> xs ! i \<noteq> x"
proof (induction xs x lo hi rule: bisect.induct)
  case (1 xs x lo hi)
  let ?mid = "lo + (hi - lo) div 2"
  have lt: "lo < hi" using "1.prems" by linarith
  have mid: "xs ! ?mid \<noteq> x" using "1.prems"(1) lt by (auto simp: bisect.simps [of xs x lo hi] Let_def split: if_splits)
  show ?case
  proof (cases "xs ! ?mid < x")
    case True
    then have rec: "bisect xs x (?mid + 1) hi = None" using "1.prems"(1) lt mid by (simp add: bisect.simps [of xs x lo hi] Let_def)
    show ?thesis
    proof (cases "i \<le> ?mid")
      case le: True
      then have "xs ! i \<le> xs ! ?mid" using "1.prems"(2,3) lt by (intro sorted_nth_mono) auto
      then show ?thesis using True by auto
    next
      case False
      then show ?thesis using "1.IH"(1) [OF _ refl mid True rec] lt "1.prems" by simp
    qed
  next
    case False
    then have rec: "bisect xs x lo ?mid = None" using "1.prems"(1) lt mid by (simp add: bisect.simps [of xs x lo hi] Let_def)
    show ?thesis
    proof (cases "i < ?mid")
      case True
      then show ?thesis using "1.IH"(2) [OF _ refl mid False rec] lt "1.prems" by simp
    next
      case ge: False
      then have "xs ! ?mid \<le> xs ! i" using "1.prems"(2-5) lt by (intro sorted_nth_mono) auto
      then show ?thesis using False mid by auto
    qed
  qed
qed

lemma binary_search_Some: "binary_search xs x = Some i \<Longrightarrow> i < length xs \<and> xs ! i = x"
  by (simp add: binary_search_def bisect_Some)

lemma binary_search_None:
  assumes "sorted xs"
  shows "binary_search xs x = None \<longleftrightarrow> x \<notin> set xs"
proof
  assume "binary_search xs x = None"
  with assms show "x \<notin> set xs" using bisect_None [of xs x 0 "length xs"] by (auto simp: binary_search_def in_set_conv_nth)
next
  assume "x \<notin> set xs"
  then show "binary_search xs x = None" using binary_search_Some [of xs x] nth_mem by (cases "binary_search xs x") auto
qed

section \<open>Owners of cells\<close>

definition pick_claim :: "('i \<Rightarrow> bool) \<Rightarrow> 'i list \<Rightarrow> 'i option" where
  "pick_claim P ts = (case find P ts of Some t \<Rightarrow> Some t | None \<Rightarrow> (case ts of [] \<Rightarrow> None | t # _ \<Rightarrow> Some t))"

definition holds_centre ::
    "s2_env \<Rightarrow> ('geometry \<Rightarrow> point \<Rightarrow> bool) \<Rightarrow> ('tz, 'geometry) timezone_build list \<Rightarrow> 64 word \<Rightarrow> nat \<Rightarrow> bool" where
  "holds_centre S contains tzs c i \<longleftrightarrow> contains (tb_geometry (tzs ! i)) (s2_center S c)"

lemma pick_claim_snoc:
  "pick_claim P (ts @ [t]) = (case pick_claim P ts of None \<Rightarrow> Some t | Some u \<Rightarrow> Some (if P t \<and> \<not> P u then t else u))"
proof (cases "find P ts")
  case None
  then have "\<forall>x \<in> set ts. \<not> P x" by (simp add: find_None_iff)
  then have "find P (ts @ [t]) = (if P t then Some t else None)" by (induction ts) auto
  then show ?thesis using None \<open>\<forall>x \<in> set ts. \<not> P x\<close> by (cases ts) (auto simp: pick_claim_def)
next
  case (Some u)
  then have "P u" by (auto simp: find_Some_iff)
  moreover have "find P (ts @ [t]) = Some u" using Some by (induction ts) (auto split: if_splits)
  ultimately show ?thesis using Some by (simp add: pick_claim_def)
qed

lemma claims_fold:
  "foldl (claim_cell S contains tzs) Map.empty cells c
    = pick_claim (\<lambda>t. holds_centre S contains tzs c (unat t)) (map snd (filter (\<lambda>p. fst p = c) cells))"
proof (induction cells rule: rev_induct)
  case Nil
  then show ?case by (simp add: pick_claim_def)
next
  case (snoc p cells)
  obtain d t where p: "p = (d, t)" by fastforce
  show ?case
  proof (cases "d = c")
    case True
    then show ?thesis using snoc by (simp add: p claim_cell_def pick_claim_snoc holds_centre_def Let_def split: option.splits)
  next
    case False
    then have "claim_cell S contains tzs m (d, t) c = m c" for m by (simp add: claim_cell_def Let_def split: option.splits)
    then show ?thesis using snoc False by (simp add: p)
  qed
qed

lemma pick_claim_least:
  fixes ts :: "nat list"
  assumes "sorted ts"
  shows "pick_claim P ts = Some i \<longleftrightarrow> i \<in> set ts \<and> (P i \<and> (\<forall>j \<in> set ts. P j \<longrightarrow> i \<le> j) \<or> (\<forall>j \<in> set ts. \<not> P j) \<and> (\<forall>j \<in> set ts. i \<le> j))"
proof (cases "find P ts")
  case None
  then show ?thesis using assms by (cases ts) (auto simp: pick_claim_def find_None_iff intro: order_antisym)
next
  case (Some u)
  then obtain k where k: "k < length ts" "P (ts ! k)" "u = ts ! k" "\<forall>j < k. \<not> P (ts ! j)" by (auto simp: find_Some_iff)
  have "u \<le> j" if j: "j \<in> set ts" "P j" for j
  proof -
    obtain m where m: "m < length ts" "ts ! m = j" using j(1) by (auto simp: in_set_conv_nth)
    then have "k \<le> m" using j(2) k(4) by (metis not_le)
    then show ?thesis using assms k(3) m by (metis sorted_nth_mono)
  qed
  then show ?thesis using Some k by (auto simp: pick_claim_def intro: order_antisym)
qed

lemma pick_claim_map: "pick_claim P (map f ts) = map_option f (pick_claim (\<lambda>t. P (f t)) ts)"
proof -
  have "find P (map f ts) = map_option f (find (\<lambda>t. P (f t)) ts)" by (induction ts) auto
  then show ?thesis by (cases ts) (auto simp: pick_claim_def split: option.splits)
qed

definition covers :: "('geometry \<Rightarrow> 64 word list) \<Rightarrow> ('tz, 'geometry) timezone_build list \<Rightarrow> 64 word \<Rightarrow> nat \<Rightarrow> bool" where
  "covers covering tzs c i \<longleftrightarrow> i < length tzs \<and> c \<in> set (covering (tb_geometry (tzs ! i)))"

text \<open>The owner of a cell: the first timezone that covers it and contains its centre, or the first that covers it if none does.\<close>

definition owns ::
    "s2_env \<Rightarrow> ('geometry \<Rightarrow> point \<Rightarrow> bool) \<Rightarrow> ('geometry \<Rightarrow> 64 word list) \<Rightarrow> ('tz, 'geometry) timezone_build list
      \<Rightarrow> 64 word \<Rightarrow> nat \<Rightarrow> bool" where
  "owns S contains covering tzs c i \<longleftrightarrow> covers covering tzs c i
     \<and> (holds_centre S contains tzs c i \<and> (\<forall>j < i. covers covering tzs c j \<longrightarrow> \<not> holds_centre S contains tzs c j)
       \<or> (\<forall>j. covers covering tzs c j \<longrightarrow> \<not> holds_centre S contains tzs c j \<and> i \<le> j))"

lemma claims_of_cell:
  fixes covering :: "'g \<Rightarrow> 64 word list" and tzs :: "('tz, 'g) timezone_build list" and c :: "64 word"
  assumes "k + length tzs \<le> 2 ^ 32"
  defines "cells \<equiv> concat (map (\<lambda>(i, tz). map (\<lambda>c. (c, of_nat i :: 32 word)) (covering (tb_geometry tz))) (enumerate k tzs))"
  defines "ts \<equiv> map (\<lambda>p. unat (snd p)) (filter (\<lambda>p. fst p = c) cells)"
  shows "sorted ts \<and> set ts = {k + i | i. covers covering tzs c i}"
  using assms(1) unfolding ts_def cells_def
proof (induction tzs arbitrary: k)
  case Nil
  then show ?case by (simp add: covers_def)
next
  case (Cons tz tzs)
  have u: "unat (of_nat k :: 32 word) = k" using Cons.prems by (simp add: unat_of_nat)
  let ?here = "map (\<lambda>p. unat (snd p)) (filter (\<lambda>p. fst p = c) (map (\<lambda>c. (c, of_nat k :: 32 word)) (covering (tb_geometry tz))))"
  have here: "?here = replicate (length ?here) k"
    using u by (auto simp: list_eq_iff_nth_eq filter_map)
  have set_here: "set ?here = (if c \<in> set (covering (tb_geometry tz)) then {k} else {})"
    using u by (force simp: filter_map)
  have covers: "{k + i | i. covers covering (tz # tzs) c i} = set ?here \<union> {Suc k + i | i. covers covering tzs c i}"
  proof -
    have "covers covering (tz # tzs) c i \<longleftrightarrow> i = 0 \<and> c \<in> set (covering (tb_geometry tz)) \<or> (\<exists>j. i = Suc j \<and> covers covering tzs c j)" for i
      by (cases i) (auto simp: covers_def)
    then show ?thesis unfolding set_here by auto
  qed
  have "sorted ?here" by (subst here) simp
  then show ?case
    unfolding covers using Cons.IH [of "Suc k"] Cons.prems set_here by (auto simp: sorted_append split: if_splits)
qed

lemma owner_of_cell:
  assumes "length tzs \<le> 2 ^ 32"
  shows "map_option unat (foldl (claim_cell S contains tzs) Map.empty (cover_all covering tzs) c) = Some i
    \<longleftrightarrow> owns S contains covering tzs c i"
proof -
  let ?ts = "map (\<lambda>p. unat (snd p)) (filter (\<lambda>p. fst p = c) (cover_all covering tzs))"
  have ts: "sorted ?ts" "set ?ts = {i. covers covering tzs c i}"
    using claims_of_cell [where k = 0 and tzs = tzs and covering = covering and c = c] assms by (auto simp: cover_all_def)
  have eq: "map_option unat (foldl (claim_cell S contains tzs) Map.empty (cover_all covering tzs) c) = pick_claim (holds_centre S contains tzs c) ?ts"
    unfolding claims_fold
    using pick_claim_map [of "holds_centre S contains tzs c" unat "map snd (filter (\<lambda>p. fst p = c) (cover_all covering tzs))"]
    by (simp add: comp_def)
  show ?thesis unfolding eq pick_claim_least [OF ts(1)] ts(2) owns_def Ball_def mem_Collect_eq by (simp add: not_le [symmetric]) blast
qed

section \<open>The built storage\<close>

lemma built_cells:
  fixes covering :: "'g \<Rightarrow> 64 word list" and tzs :: "('tz, 'g) timezone_build list" and S :: s2_env and contains :: "'g \<Rightarrow> point \<Rightarrow> bool"
  assumes "length tzs \<le> 2 ^ 32"
  defines "B \<equiv> compute_backend S contains covering tzs"
  shows "sorted (cell_ids B)" "distinct (cell_ids B)" "c \<in> set (cell_ids B) \<longleftrightarrow> (\<exists>i. covers covering tzs c i)"
    and "length (tz_indices B) = length (cell_ids B)" "tz_names B = map tb_name tzs"
    and "pos < length (cell_ids B) \<Longrightarrow> owns S contains covering tzs (cell_ids B ! pos) (unat (tz_indices B ! pos))"
proof -
  let ?m = "foldl (claim_cell S contains tzs) Map.empty (cover_all covering tzs)"
  have ids: "cell_ids B = sorted_list_of_set (dom ?m)" "tz_indices B = map (\<lambda>i. the (?m i)) (cell_ids B)" "tz_names B = map tb_name tzs"
    by (simp_all add: B_def compute_backend_def resolve_conflicts_def Let_def)
  have "dom (foldl (claim_cell S contains tzs) m cells) \<subseteq> dom m \<union> fst ` set cells" for m cells
    by (induction cells arbitrary: m) (force simp: claim_cell_def Let_def split: prod.splits option.splits if_splits)+
  from this [of Map.empty] have fin: "finite (dom ?m)" by (simp add: finite_subset)
  show "sorted (cell_ids B)" "distinct (cell_ids B)" "length (tz_indices B) = length (cell_ids B)" "tz_names B = map tb_name tzs"
    by (simp_all add: ids)
  have own: "map_option unat (?m c) = Some i \<longleftrightarrow> owns S contains covering tzs c i" for c i
    using owner_of_cell [OF assms(1)] .
  have some: "(\<exists>i. owns S contains covering tzs c i) \<longleftrightarrow> (\<exists>i. covers covering tzs c i)"
  proof
    assume ex: "\<exists>i. covers covering tzs c i"
    show "\<exists>i. owns S contains covering tzs c i"
    proof (cases "\<exists>i. covers covering tzs c i \<and> holds_centre S contains tzs c i")
      case True
      then have "owns S contains covering tzs c (LEAST i. covers covering tzs c i \<and> holds_centre S contains tzs c i)"
        unfolding owns_def by (metis (mono_tags, lifting) LeastI_ex not_less_Least)
      then show ?thesis ..
    next
      case False
      then have "owns S contains covering tzs c (LEAST i. covers covering tzs c i)"
        using ex unfolding owns_def by (metis LeastI_ex Least_le)
      then show ?thesis ..
    qed
  qed (auto simp: owns_def)
  have "c \<in> dom ?m \<longleftrightarrow> (\<exists>i. owns S contains covering tzs c i)" using own [of c] by (cases "?m c") auto
  then show "c \<in> set (cell_ids B) \<longleftrightarrow> (\<exists>i. covers covering tzs c i)" using fin some by (simp add: ids)
  show "owns S contains covering tzs (cell_ids B ! pos) (unat (tz_indices B ! pos))" if pos: "pos < length (cell_ids B)"
  proof -
    have "cell_ids B ! pos \<in> dom ?m" using nth_mem [OF pos] fin by (simp add: ids(1))
    then obtain w where "?m (cell_ids B ! pos) = Some w" by blast
    then show ?thesis using own pos by (simp add: ids(2) flip: own)
  qed
qed

section \<open>The lookup\<close>

lemma hd_map_filter_down:
  "List.map_filter f (map g (rev [a..<b])) \<noteq> [] \<Longrightarrow>
    \<exists>l. a \<le> l \<and> l < b \<and> f (g l) = Some (hd (List.map_filter f (map g (rev [a..<b])))) \<and> (\<forall>l'. l < l' \<and> l' < b \<longrightarrow> f (g l') = None)"
proof (induction b)
  case (Suc b)
  show ?case
  proof (cases "a \<le> b \<and> f (g b) \<noteq> None")
    case True
    then show ?thesis by (intro exI [of _ b]) (auto simp: List.map_filter_def)
  next
    case False
    then have eq: "List.map_filter f (map g (rev [a..<Suc b])) = List.map_filter f (map g (rev [a..<b]))"
      by (auto simp: List.map_filter_def)
    from Suc obtain l where "a \<le> l" "l < b" "f (g l) = Some (hd (List.map_filter f (map g (rev [a..<b]))))"
      "\<forall>l'. l < l' \<and> l' < b \<longrightarrow> f (g l') = None" unfolding eq by blast
    then show ?thesis unfolding eq using False by (intro exI [of _ l]) (auto simp: less_Suc_eq)
  qed
qed (simp add: List.map_filter_def)

lemma hd_unseen: "xs \<noteq> [] \<Longrightarrow> unseen (\<lambda>x. x) {} xs \<noteq> [] \<and> hd (unseen (\<lambda>x. x) {} xs) = hd xs"
  by (cases xs) auto

lemma unseen_within: "a \<in> seen \<Longrightarrow> set xs \<subseteq> {a} \<Longrightarrow> unseen (\<lambda>x. x) seen xs = []"
  by (induction xs) auto

lemma unseen_single: "xs \<noteq> [] \<Longrightarrow> set xs \<subseteq> {a} \<Longrightarrow> unseen (\<lambda>x. x) {} xs = [a]"
  by (cases xs) (auto simp: unseen_within)

text \<open>
  The lookup goes through every level, so it returns the owners of all covered ancestors, and not only that of
  the first one it meets.
\<close>

lemma lookup_collects_ancestors:
  fixes tzs :: "('tz, 'g) timezone_build list" and covering :: "'g \<Rightarrow> 64 word list" and S :: s2_env
    and contains :: "'g \<Rightarrow> point \<Rightarrow> bool" and r :: rect
  assumes len: "length tzs \<le> 2 ^ 32"
    and names: "\<forall>tz \<in> set tzs. name_tz db (tb_name tz) = Some (tb_tz tz)"
  defines "B \<equiv> compute_backend S contains covering tzs"
    and "anc \<equiv> s2_parent S (s2_leaf S (rect_center r))"
  shows "s2_search db S B r \<noteq> Panic"
    and "s2_search db S B r = Err () \<longleftrightarrow> (\<forall>l \<in> {1..13}. \<forall>i. \<not> covers covering tzs (anc l) i)"
    and "s2_search db S B r = Ok zs \<Longrightarrow> zs \<noteq> []
        \<and> set zs = {tb_tz (tzs ! i) | i l. l \<in> {1..13} \<and> owns S contains covering tzs (anc l) i}
        \<and> (\<exists>l \<in> {1..13}. \<exists>i. owns S contains covering tzs (anc l) i \<and> hd zs = tb_tz (tzs ! i)
            \<and> (\<forall>l' \<in> {1..13}. l < l' \<longrightarrow> (\<forall>j. \<not> covers covering tzs (anc l') j))
            \<and> ((\<forall>l' \<in> {1..13}. l' < l \<longrightarrow> anc l' = anc l \<or> (\<forall>j. \<not> covers covering tzs (anc l') j)) \<longrightarrow> zs = [tb_tz (tzs ! i)]))"
proof -
  define ps where "ps = List.map_filter (binary_search (cell_ids B)) (map anc (rev [1..<14]))"
  define g where "g = (\<lambda>p. tb_tz (tzs ! unat (tz_indices B ! p)))"
  note B = built_cells [OF len, where S = S and contains = contains and covering = covering, folded B_def]
  have bs: "binary_search (cell_ids B) c = None \<longleftrightarrow> (\<forall>i. \<not> covers covering tzs c i)" for c
    using binary_search_None [OF B(1)] B(3) by blast
  have own: "owns S contains covering tzs c (unat (tz_indices B ! p)) \<and> p < length (cell_ids B)" if "binary_search (cell_ids B) c = Some p" for c p
    using binary_search_Some [OF that] B(6) [of p] by simp
  have own_unique: "i = j" if "owns S contains covering tzs c i" "owns S contains covering tzs c j" for c i j
    using that unfolding owns_def by (metis linorder_neqE_nat order_antisym)
  have owned_lt: "owns S contains covering tzs c i \<Longrightarrow> i < length tzs" for c i by (simp add: owns_def covers_def)
  have inps: "p \<in> set ps \<longleftrightarrow> (\<exists>l \<in> {1..13}. binary_search (cell_ids B) (anc l) = Some p)" for p
    unfolding ps_def in_map_filter by (auto simp: Suc_le_eq)
  have tz: "s2_tz db B p = Some (g p)" if p: "p \<in> set (unseen (\<lambda>p. p) {} ps)" for p
  proof -
    obtain l where "binary_search (cell_ids B) (anc l) = Some p" using p inps by auto
    then have o: "owns S contains covering tzs (anc l) (unat (tz_indices B ! p))" "p < length (cell_ids B)" using own by blast+
    then show ?thesis using names owned_lt [OF o(1)] by (simp add: s2_tz_def B(4,5) g_def Let_def)
  qed
  have levels: "[MIN_LEVEL..<MAX_LEVEL + 1] = [1..<14]" by (simp add: MIN_LEVEL_def MAX_LEVEL_def)
  have search: "s2_search db S B r = found (map g (unseen (\<lambda>p. p) {} ps))"
    using those_map_Some [of "unseen (\<lambda>p. p) {} ps" "s2_tz db B" g, OF tz]
    unfolding s2_search_def Let_def anc_def [symmetric] levels ps_def [symmetric] by (simp add: or_panic_def)
  have empty: "unseen (\<lambda>p. p) {} ps = [] \<longleftrightarrow> ps = []" using hd_unseen [of ps] by auto
  have none: "ps = [] \<longleftrightarrow> (\<forall>l \<in> {1..13}. \<forall>i. \<not> covers covering tzs (anc l) i)"
    using inps bs by (metis empty_iff list.set(1) list.set_intros(1) neq_Nil_conv not_None_eq)
  have all: "g ` set ps = {tb_tz (tzs ! i) | i l. l \<in> {1..13} \<and> owns S contains covering tzs (anc l) i}"
  proof -
    have k: "(\<exists>p. binary_search (cell_ids B) c = Some p \<and> unat (tz_indices B ! p) = i) \<longleftrightarrow> owns S contains covering tzs c i" for c i
    proof
      assume o: "owns S contains covering tzs c i"
      then have "covers covering tzs c i" by (simp add: owns_def)
      then obtain p where "binary_search (cell_ids B) c = Some p" using bs by blast
      then show "\<exists>p. binary_search (cell_ids B) c = Some p \<and> unat (tz_indices B ! p) = i" using own own_unique [OF o] by blast
    qed (use own in blast)
    have "x \<in> g ` set ps \<longleftrightarrow> (\<exists>l \<in> {1..13}. \<exists>i. (\<exists>p. binary_search (cell_ids B) (anc l) = Some p \<and> unat (tz_indices B ! p) = i) \<and> x = tb_tz (tzs ! i))" for x
      unfolding image_iff bex_simps Bex_def inps g_def by blast
    then show ?thesis unfolding k by blast
  qed
  have first: "\<exists>l \<in> {1..13}. \<exists>i. owns S contains covering tzs (anc l) i \<and> hd (map g (unseen (\<lambda>p. p) {} ps)) = tb_tz (tzs ! i)
      \<and> (\<forall>l' \<in> {1..13}. l < l' \<longrightarrow> (\<forall>j. \<not> covers covering tzs (anc l') j))
      \<and> ((\<forall>l' \<in> {1..13}. l' < l \<longrightarrow> anc l' = anc l \<or> (\<forall>j. \<not> covers covering tzs (anc l') j))
          \<longrightarrow> map g (unseen (\<lambda>p. p) {} ps) = [tb_tz (tzs ! i)])" if ne: "ps \<noteq> []"
  proof -
    obtain l where l: "1 \<le> l" "l < 14" "binary_search (cell_ids B) (anc l) = Some (hd ps)"
      "\<forall>l'. l < l' \<and> l' < 14 \<longrightarrow> binary_search (cell_ids B) (anc l') = None"
      using hd_map_filter_down [of "binary_search (cell_ids B)" anc 1 14] ne unfolding ps_def by blast
    have "hd (map g (unseen (\<lambda>p. p) {} ps)) = g (hd ps)" using hd_unseen [OF ne] by (simp add: hd_map)
    moreover have "map g (unseen (\<lambda>p. p) {} ps) = [g (hd ps)]"
      if alone: "\<forall>l' \<in> {1..13}. l' < l \<longrightarrow> anc l' = anc l \<or> (\<forall>j. \<not> covers covering tzs (anc l') j)"
    proof -
      have same: "p = hd ps" if p: "p \<in> set ps" for p
      proof -
        obtain l' where l': "l' \<in> {1..13}" "binary_search (cell_ids B) (anc l') = Some p" using p inps by blast
        then have "\<not> l < l'" using l(4) by auto
        moreover have "\<exists>j. covers covering tzs (anc l') j" using l'(2) bs [of "anc l'"] by auto
        ultimately have "anc l' = anc l" using alone l'(1) by (metis linorder_neqE_nat)
        then show ?thesis using l(3) l'(2) by simp
      qed
      then have "set ps \<subseteq> {hd ps}" by blast
      then show ?thesis using unseen_single [OF ne] by simp
    qed
    ultimately show ?thesis using own [OF l(3)] l bs by (intro bexI [of _ l] exI [of _ "unat (tz_indices B ! hd ps)"]) (auto simp: g_def)
  qed
  show "s2_search db S B r \<noteq> Panic" unfolding search by (simp add: found_def)
  show "s2_search db S B r = Err () \<longleftrightarrow> (\<forall>l \<in> {1..13}. \<forall>i. \<not> covers covering tzs (anc l) i)"
    unfolding search none [symmetric] by (simp add: found_def empty)
  show "zs \<noteq> [] \<and> set zs = {tb_tz (tzs ! i) | i l. l \<in> {1..13} \<and> owns S contains covering tzs (anc l) i}
        \<and> (\<exists>l \<in> {1..13}. \<exists>i. owns S contains covering tzs (anc l) i \<and> hd zs = tb_tz (tzs ! i)
            \<and> (\<forall>l' \<in> {1..13}. l < l' \<longrightarrow> (\<forall>j. \<not> covers covering tzs (anc l') j))
            \<and> ((\<forall>l' \<in> {1..13}. l' < l \<longrightarrow> anc l' = anc l \<or> (\<forall>j. \<not> covers covering tzs (anc l') j)) \<longrightarrow> zs = [tb_tz (tzs ! i)]))"
    if ok: "s2_search db S B r = Ok zs"
  proof -
    have zs: "zs = map g (unseen (\<lambda>p. p) {} ps)" "ps \<noteq> []" using ok empty unfolding search by (auto simp: found_def split: if_splits)
    have "set zs = g ` set ps" "zs \<noteq> []" unfolding zs(1) using zs(2) empty by auto
    then show ?thesis unfolding all using first [OF zs(2)] unfolding zs(1) by blast
  qed
qed

text \<open>
  (C36) A timezone lookup answers from the coverings: with every name in the database it never panics; it
  fails exactly if no ancestor of the point's cell, from level 13 up to level 1, is in the covering of a
  timezone; and otherwise its first answer is the owner of the deepest covered ancestor, every other answer
  is the owner of some covered ancestor, and there is no other if that ancestor is the only one covered. A
  cell is owned by the first covering timezone that contains its centre, or by the first covering one if
  none does.
\<close>

theorem timezone_lookup:
  fixes tzs :: "('tz, 'g) timezone_build list" and covering :: "'g \<Rightarrow> 64 word list" and S :: s2_env
    and contains :: "'g \<Rightarrow> point \<Rightarrow> bool" and r :: rect
  assumes len: "length tzs \<le> 2 ^ 32"
    and names: "\<forall>tz \<in> set tzs. name_tz db (tb_name tz) = Some (tb_tz tz)"
  defines "B \<equiv> compute_backend S contains covering tzs"
    and "anc \<equiv> s2_parent S (s2_leaf S (rect_center r))"
  shows "s2_search db S B r \<noteq> Panic
    \<and> (s2_search db S B r = Err () \<longleftrightarrow> (\<forall>l \<in> {1..13}. \<forall>i. \<not> covers covering tzs (anc l) i))
    \<and> (\<forall>zs. s2_search db S B r = Ok zs \<longrightarrow> zs \<noteq> []
        \<and> set zs \<subseteq> {tb_tz (tzs ! i) | i l. l \<in> {1..13} \<and> owns S contains covering tzs (anc l) i}
        \<and> (\<exists>l \<in> {1..13}. \<exists>i. owns S contains covering tzs (anc l) i \<and> hd zs = tb_tz (tzs ! i)
            \<and> (\<forall>l' \<in> {1..13}. l < l' \<longrightarrow> (\<forall>j. \<not> covers covering tzs (anc l') j))
            \<and> ((\<forall>l' \<in> {1..13}. l' < l \<longrightarrow> anc l' = anc l \<or> (\<forall>j. \<not> covers covering tzs (anc l') j)) \<longrightarrow> zs = [tb_tz (tzs ! i)])))"
proof (intro conjI allI impI)
  note look = lookup_collects_ancestors [OF len names, of S contains covering r, folded B_def anc_def]
  show "s2_search db S B r \<noteq> Panic" by (rule look(1))
  show "s2_search db S B r = Err () \<longleftrightarrow> (\<forall>l \<in> {1..13}. \<forall>i. \<not> covers covering tzs (anc l) i)" by (rule look(2))
  fix zs
  assume "s2_search db S B r = Ok zs"
  note found = look(3) [OF this]
  from found show "zs \<noteq> []" by (rule conjunct1)
  from found [THEN conjunct2, THEN conjunct1] show "set zs \<subseteq> {tb_tz (tzs ! i) | i l. l \<in> {1..13} \<and> owns S contains covering tzs (anc l) i}"
    by (rule equalityD1)
  from found [THEN conjunct2, THEN conjunct2] show "\<exists>l \<in> {1..13}. \<exists>i. owns S contains covering tzs (anc l) i \<and> hd zs = tb_tz (tzs ! i)
      \<and> (\<forall>l' \<in> {1..13}. l < l' \<longrightarrow> (\<forall>j. \<not> covers covering tzs (anc l') j))
      \<and> ((\<forall>l' \<in> {1..13}. l' < l \<longrightarrow> anc l' = anc l \<or> (\<forall>j. \<not> covers covering tzs (anc l') j)) \<longrightarrow> zs = [tb_tz (tzs ! i)])"
    .
qed

text \<open>One timezone that covers one cell.\<close>

definition one_zone :: "(nat, unit) timezone_build list" where
  "one_zone = [\<lparr>tb_tz = 7, tb_name = ''Europe/Zurich'', tb_geometry = ()\<rparr>]"

definition one_cell :: s2_env where
  "one_cell = \<lparr>s2_leaf = (\<lambda>p. 5), s2_parent = (\<lambda>c l. if l = 3 then 4 else c), s2_center = (\<lambda>c. (0, 0))\<rparr>"

theorem timezone_lookup_witness:
  "s2_search (\<lambda>n. Some (7 :: nat)) one_cell (compute_backend one_cell (\<lambda>g p. True) (\<lambda>g. [4]) one_zone) world = Ok [7]"
proof -
  let ?s = "s2_search (\<lambda>n. Some (7 :: nat)) one_cell (compute_backend one_cell (\<lambda>g p. True) (\<lambda>g. [4]) one_zone) world"
  have hyps: "length one_zone \<le> 2 ^ 32" "\<forall>tz \<in> set one_zone. name_tz (\<lambda>n. Some (7 :: nat)) (tb_name tz) = Some (tb_tz tz)"
    by (simp_all add: one_zone_def name_tz_def)
  define anc where "anc = s2_parent one_cell (s2_leaf one_cell (rect_center world))"
  have anc: "anc l = (if l = 3 then 4 else 5)" for l by (simp add: anc_def one_cell_def)
  have cov: "covers (\<lambda>g. [4]) one_zone (anc l) i \<longleftrightarrow> l = 3 \<and> i = 0" for l i by (auto simp: covers_def one_zone_def anc)
  note look = timezone_lookup [OF hyps, of one_cell "\<lambda>g p. True" "\<lambda>g. [4]" world, folded anc_def]
  have three: "(3 :: nat) \<in> {1..13}" "covers (\<lambda>g. [4]) one_zone (anc 3) 0" by (simp_all add: cov)
  have "?s \<noteq> Panic" using look by (rule conjunct1)
  moreover have "?s \<noteq> Err ()"
  proof
    assume "?s = Err ()"
    with look [THEN conjunct2, THEN conjunct1] have "\<forall>l \<in> {1..13}. \<forall>i. \<not> covers (\<lambda>g. [4]) one_zone (anc l) i" by (rule iffD1)
    from bspec [OF this three(1)] three(2) show False by blast
  qed
  ultimately obtain zs where zs: "?s = Ok zs" by (cases ?s) auto
  from look [THEN conjunct2, THEN conjunct2, rule_format, OF this, THEN conjunct2, THEN conjunct2]
  obtain l i where li: "owns one_cell (\<lambda>g p. True) (\<lambda>g. [4]) one_zone (anc l) i"
    "(\<forall>l' \<in> {1..13}. l' < l \<longrightarrow> anc l' = anc l \<or> (\<forall>j. \<not> covers (\<lambda>g. [4]) one_zone (anc l') j)) \<Longrightarrow> zs = [tb_tz (one_zone ! i)]"
    by blast
  have "l = 3 \<and> i = 0" using li(1) by (simp add: owns_def cov)
  then have "zs = [tb_tz (one_zone ! 0)]" using li(2) by (simp add: cov)
  then show ?thesis using zs by (simp add: one_zone_def)
qed

section \<open>What every storage promises\<close>

text \<open>The answer of a resolver that succeeds is not empty, which the services take its first element from.\<close>

locale timezone_resolver =
  fixes search :: "rect \<Rightarrow> ('tz list, unit) outcome"
  assumes search_nonempty: "search r = Ok zs \<Longrightarrow> zs \<noteq> []"
begin

lemma polygon_nonempty: "search_polygon search bounding p = Ok zs \<Longrightarrow> zs \<noteq> []"
  by (auto simp: search_polygon_def search_nonempty split: option.splits)

end

lemma found_nonempty: "or_panic x found = Ok zs \<Longrightarrow> zs \<noteq> []"
  by (auto simp: or_panic_def found_def split: option.splits if_splits)

interpretation basic: timezone_resolver "basic_search db contains B" for db contains B
  by unfold_locales (unfold basic_search_def, erule found_nonempty)

interpretation tree_storage: timezone_resolver "tree_tz_search db T B" for db T B
  by unfold_locales (unfold tree_tz_search_def Let_def, erule found_nonempty)

interpretation s2_storage: timezone_resolver "s2_search db S B" for db S B
  by unfold_locales (unfold s2_search_def Let_def, erule found_nonempty)

text \<open>The tree answers with the one nearest box, whether or not it contains the point.\<close>

lemma tree_answers_one:
  assumes "tree_tz_search db T B r = Ok zs"
  shows "length zs = 1"
proof -
  let ?hits = "take 1 (nearest_box T (tk_tree B) (rect_center r))"
  let ?names = "List.map_filter (\<lambda>i. if i < length (tk_names B) then Some (tk_names B ! i) else None) ?hits"
  have "those xs = Some ys \<Longrightarrow> length xs = length ys" for xs :: "'x option list" and ys
    by (induction xs arbitrary: ys) (auto split: option.splits)
  moreover have "length ?names \<le> length ?hits" unfolding List.map_filter_def length_map by (rule length_filter_le)
  moreover have "length ?hits \<le> 1" by simp
  ultimately have "length zs \<le> 1" using assms
    by (fastforce simp: tree_tz_search_def Let_def or_panic_def found_def split: option.splits if_splits)
  then show ?thesis using tree_storage.search_nonempty [OF assms] by (cases zs) auto
qed

end
