(* ===== verification/Rpc_Services.thy ===== *)
theory Rpc_Services
  imports Timezone_Laws Osm_Metadata Routed Shard_Index "HOL-Library.Signed_Division"
begin

text \<open>
  The services (\<open>routers_rpc\<close>): the handlers that validate a request, call the network, the matcher or a
  timezone resolver and shape the answer, with the conversions of \<open>sdk.rs\<close>. A message field that may be
  absent is an option; a handler gives an answer, an error with its kind, or the panic of the code it
  calls. Transport and the message encoding come from other crates.
\<close>

datatype connect_error = InvalidArgument string | InternalError string | NotFound string | Unimplemented string

section \<open>Coordinates\<close>

record rpc_coordinate =
  longitude :: real
  latitude :: real

definition coordinate_of :: "point \<Rightarrow> rpc_coordinate" where
  "coordinate_of p = \<lparr>longitude = fst p, latitude = snd p\<rparr>"

definition point_from :: "rpc_coordinate \<Rightarrow> point" where
  "point_from c = (longitude c, latitude c)"

definition as_linestring :: "rpc_coordinate list \<Rightarrow> point list" where
  "as_linestring cs = map (\<lambda>v. (longitude v, latitude v)) cs"

definition required :: "string \<Rightarrow> 'a option \<Rightarrow> ('a, connect_error) outcome" where
  "required msg x = (case x of None \<Rightarrow> Err (InvalidArgument msg) | Some y \<Rightarrow> Ok y)"

definition or_internal :: "string \<Rightarrow> 'a option \<Rightarrow> ('a, connect_error) outcome" where
  "or_internal msg x = (case x of None \<Rightarrow> Err (InternalError msg) | Some y \<Rightarrow> Ok y)"

section \<open>Scanning and routing\<close>

definition scan_point :: "('e, point, 'm) network \<Rightarrow> rpc_coordinate option \<Rightarrow> (rpc_coordinate, connect_error) outcome" where
  "scan_point n req =
     and_then (required ''Missing Coordinate'' (map_option point_from req)) (\<lambda>point.
     and_then (or_internal ''Could not find appropriate point'' (nearest_node n point)) (\<lambda>nearest.
     Ok (coordinate_of (node_position nearest))))"

text \<open>\<open>sort_by\<close> is stable; distances are real, so the comparison never gives up.\<close>

definition point_snapped ::
    "point geo \<Rightarrow> ('e, point, 'm) network \<Rightarrow> rpc_coordinate option \<Rightarrow> real \<Rightarrow> (rpc_coordinate, connect_error) outcome" where
  "point_snapped g n req search_radius =
     and_then (required ''Missing Point'' (map_option point_from req)) (\<lambda>point.
     let nearest_points = sort_key (\<lambda>x. haversine g point (fst x)) (nearest_nodes_projected g n point search_radius)
     in and_then (or_internal ''Could not find appropriate point'' (case nearest_points of [] \<Rightarrow> None | x # _ \<Rightarrow> Some x)) (\<lambda>nearest.
        Ok (coordinate_of (fst nearest))))"

definition scan_edge :: "(rpc_coordinate, connect_error) outcome" where
  "scan_edge = Err (Unimplemented ''edge lookup not implemented'')"

definition route_service ::
    "('e, point, 'm) network \<Rightarrow> rpc_coordinate option \<Rightarrow> rpc_coordinate option \<Rightarrow> (nat \<times> rpc_coordinate list, connect_error) outcome" where
  "route_service n req_start req_end =
     and_then (required ''Missing Start Coordinate'' (map_option point_from req_start)) (\<lambda>start.
     and_then (required ''Missing End Coordinate'' (map_option point_from req_end)) (\<lambda>finish.
     and_then (or_internal ''Could not route'' (route_points n start finish)) (\<lambda>(cost, route).
     Ok (cost, map (\<lambda>node. coordinate_of (node_position node)) route))))"

section \<open>Matching\<close>

datatype optimise_for_value = OptUnspecified | OptSpeed | OptConsistency | OptParallelism

text \<open>An enum on the wire: \<open>None\<close> is a value the schema does not know.\<close>

definition optimise_for :: "optimise_for_value option \<Rightarrow> solver_variant" where
  "optimise_for v =
     (case (case v of None \<Rightarrow> OptUnspecified | Some x \<Rightarrow> x) of
        OptUnspecified \<Rightarrow> Fastest | OptSpeed \<Rightarrow> Fastest | OptConsistency \<Rightarrow> SelectiveVariant | OptParallelism \<Rightarrow> Precompute)"

record truck_model =
  tm_height :: real
  tm_width :: real
  tm_length :: real
  tm_axle_load :: real
  tm_axle_count :: nat
  tm_hazardous_load :: bool

record sized_model =
  model_height :: real
  model_width :: real

datatype variation = BusVariation sized_model | CarVariation sized_model | TruckVariation truck_model

definition truck_costing_of :: "truck_model \<Rightarrow> truck_costing" where
  "truck_costing_of m =
     \<lparr>truck_vehicle = \<lparr>vehicle_height = tm_height m, vehicle_width = tm_width m\<rparr>, truck_length = tm_length m,
      axle_load = tm_axle_load m, axle_count = tm_axle_count m mod 256, hazmat_load = tm_hazardous_load m\<rparr>"

definition car_costing :: "sized_model \<Rightarrow> vehicle_costing" where
  "car_costing m = \<lparr>vehicle_height = model_height m, vehicle_width = model_width m\<rparr>"

definition bus_costing :: "sized_model \<Rightarrow> vehicle_costing" where
  "bus_costing m = \<lparr>vehicle_height = model_height m, vehicle_width = model_width m\<rparr>"

definition osm_trip_context :: "variation option \<Rightarrow> transport option" where
  "osm_trip_context v =
     (case v of
        None \<Rightarrow> None
      | Some (BusVariation b) \<Rightarrow> Some (BusTransport (Some (bus_costing b)))
      | Some (CarVariation c) \<Rightarrow> Some (Car (Some (car_costing c)))
      | Some (TruckVariation t) \<Rightarrow> Some (Truck (Some (truck_costing_of t))))"

record edge_metadata_message =
  em_lane_count :: "nat option"
  em_speed_limit :: "nat option"

definition osm_edge_metadata :: "speed_limit_conditions \<Rightarrow> edge_metadata \<Rightarrow> trip_configuration \<Rightarrow> edge_metadata_message" where
  "osm_edge_metadata default_conditions md rt =
     (let limits = map_option (relevant_limits (travel_mode rt) default_conditions) (md_speed_limit md);
          first_speed = Option.bind limits (\<lambda>ls. case ls of [] \<Rightarrow> None | l # _ \<Rightarrow> Some (limit_speed l))
      in \<lparr>em_lane_count = md_lane_count md, em_speed_limit = Option.bind first_speed in_kmh\<rparr>)"

record 'e route_edge =
  re_id :: 'e
  re_source :: "'e \<times> rpc_coordinate"
  re_target :: "'e \<times> rpc_coordinate"
  re_length :: real
  re_metadata :: edge_metadata_message

record 'e route_element =
  rel_coordinate :: rpc_coordinate
  rel_edge :: "'e route_edge"

definition route_from_path ::
    "(point \<Rightarrow> point \<Rightarrow> real) \<Rightarrow> ('m \<Rightarrow> 'r \<Rightarrow> edge_metadata_message) \<Rightarrow> 'r \<Rightarrow> ('e, point, 'm) path_element list \<Rightarrow> 'e route_element list" where
  "route_from_path geodesic message ctx input =
     map (\<lambda>entry.
        \<lparr>rel_coordinate = coordinate_of (element_point entry),
         rel_edge =
           \<lparr>re_id = node_ident (edge_key (element_edge entry)),
            re_source = (node_ident (source (element_edge entry)), coordinate_of (node_position (source (element_edge entry)))),
            re_target = (node_ident (target (element_edge entry)), coordinate_of (node_position (target (element_edge entry)))),
            re_length = geodesic (node_position (source (element_edge entry))) (node_position (target (element_edge entry))),
            re_metadata = message (element_metadata entry) ctx\<rparr>\<rparr>) input"

record 'e matched_route =
  mr_interpolated :: "'e route_element list"
  mr_discretized :: "'e route_element list"
  mr_cost :: nat

definition match_response ::
    "(point \<Rightarrow> point \<Rightarrow> real) \<Rightarrow> ('m \<Rightarrow> 'r \<Rightarrow> edge_metadata_message) \<Rightarrow> ('e, point, 'm) routed_path \<Rightarrow> 'r \<Rightarrow> 'e matched_route list" where
  "match_response geodesic message result ctx =
     [\<lparr>mr_interpolated = route_from_path geodesic message ctx (rp_interpolated result),
       mr_discretized = route_from_path geodesic message ctx (discretized result), mr_cost = 0\<rparr>]"

text \<open>
  A match request. \<open>reach_query\<close> is what a fresh predicate cache of the given reach answers under a
  runtime, \<open>printed\<close> the printed form of an error, and \<open>runtime_from\<close> the configuration of the network's
  metadata. Both requests build the same options; a snap ends in \<open>unimplemented!\<close>.
\<close>

record match_request =
  mq_data :: "rpc_coordinate list"
  mq_options :: "(variation option option \<times> optimise_for_value option) option"
  mq_search_distance :: "real option"
  mq_reach_distance :: "real option"

definition DEFAULT_REACH_DISTANCE :: real where
  "DEFAULT_REACH_DISTANCE = 1000"

definition request_context :: "(variation option \<Rightarrow> 'ctx option) \<Rightarrow> match_request \<Rightarrow> 'ctx option" where
  "request_context trip_context req =
     Option.bind (mq_options req) (\<lambda>(costing, opt). Option.bind costing trip_context)"

definition request_solver :: "match_request \<Rightarrow> solver_variant" where
  "request_solver req = optimise_for (case mq_options req of None \<Rightarrow> Some OptUnspecified | Some (costing, opt) \<Rightarrow> opt)"

definition match_service ::
    "point geo \<Rightarrow> ('e, point, 'm) network \<Rightarrow> point \<Rightarrow> (variation option \<Rightarrow> 'ctx option) \<Rightarrow> ('ctx option \<Rightarrow> 'r)
      \<Rightarrow> (real \<Rightarrow> 'r \<Rightarrow> 'e \<Rightarrow> ('e \<times> 'e) list) \<Rightarrow> (point match_error \<Rightarrow> string) \<Rightarrow> (point \<Rightarrow> point \<Rightarrow> real)
      \<Rightarrow> ('m \<Rightarrow> 'r \<Rightarrow> edge_metadata_message) \<Rightarrow> 'r \<Rightarrow> match_request \<Rightarrow> ('e matched_route list, connect_error) outcome" where
  "match_service g n null trip_context runtime_from reach_query printed geodesic message default_runtime req =
     (let coordinates = as_linestring (mq_data req);
          rt = runtime_from (request_context trip_context req);
          reach = (case mq_reach_distance req of None \<Rightarrow> DEFAULT_REACH_DISTANCE | Some d \<Rightarrow> d);
          opts = with_cache (with_search_distance (with_solver (with_runtime (match_options_default default_runtime) rt)
                   (request_solver req)) (mq_search_distance req)) (reach_query reach rt)
      in and_then (map_err (\<lambda>e. InternalError (printed e))
           (facade_match g n null (reach_query DEFAULT_REACH_DISTANCE) opts coordinates)) (\<lambda>result.
         Ok (match_response geodesic message result rt)))"

definition facade_snap :: "point list \<Rightarrow> ('e, 'r) match_options \<Rightarrow> (('e, point, 'm) routed_path, point match_error) outcome" where
  "facade_snap ps opts = Panic"

definition snap_service ::
    "(variation option \<Rightarrow> 'ctx option) \<Rightarrow> ('ctx option \<Rightarrow> 'r) \<Rightarrow> (point match_error \<Rightarrow> string) \<Rightarrow> (point \<Rightarrow> point \<Rightarrow> real)
      \<Rightarrow> ('m \<Rightarrow> 'r \<Rightarrow> edge_metadata_message) \<Rightarrow> 'r \<Rightarrow> match_request \<Rightarrow> ('e matched_route list, connect_error) outcome" where
  "snap_service trip_context runtime_from printed geodesic message default_runtime req =
     (let coordinates = as_linestring (mq_data req);
          rt = runtime_from (request_context trip_context req);
          opts = with_search_distance (with_solver (with_runtime (match_options_default default_runtime) rt)
                   (request_solver req)) (mq_search_distance req)
      in and_then (map_err (\<lambda>e. InternalError (printed e)) (facade_snap coordinates opts)) (\<lambda>result.
         Ok (match_response geodesic message result rt)))"

section \<open>Timezones\<close>

record timezone_message =
  iana_code :: string
  offset_seconds :: int
  offset_minutes :: int
  offset_hours :: int

text \<open>The name and the primary offset, in seconds, are the timezone database's.\<close>

definition timezone_message_of :: "('tz \<Rightarrow> string) \<Rightarrow> ('tz \<Rightarrow> int) \<Rightarrow> 'tz \<Rightarrow> timezone_message" where
  "timezone_message_of tz_name primary tz =
     \<lparr>iana_code = tz_name tz, offset_seconds = primary tz, offset_minutes = primary tz sdiv 60, offset_hours = primary tz sdiv 3600\<rparr>"

record bounding_box =
  top_left :: "rpc_coordinate option"
  bottom_right :: "rpc_coordinate option"

definition rect_from :: "bounding_box \<Rightarrow> rect option" where
  "rect_from bb =
     Option.bind (top_left bb) (\<lambda>tl. Option.bind (bottom_right bb) (\<lambda>br. Some (rect_new (point_from tl) (point_from br))))"

definition point_rect :: "point \<Rightarrow> rect" where
  "point_rect p = rect_new p p"

definition polygon_from :: "rpc_coordinate list \<Rightarrow> point list" where
  "polygon_from cs = map point_from cs"

definition internal_unit :: "('a, unit) outcome \<Rightarrow> ('a, connect_error) outcome" where
  "internal_unit r = map_err (\<lambda>e. InternalError ''()'') r"

definition get_from_point ::
    "('tz \<Rightarrow> timezone_message) \<Rightarrow> (rect \<Rightarrow> ('tz list, unit) outcome) \<Rightarrow> rpc_coordinate option \<Rightarrow> (timezone_message list, connect_error) outcome" where
  "get_from_point msg search req =
     and_then (required ''Missing Coordinate'' (map_option point_from req)) (\<lambda>point.
     and_then (internal_unit (search (point_rect point))) (\<lambda>tzs. Ok (map msg tzs)))"

definition get_from_bounding_box ::
    "('tz \<Rightarrow> timezone_message) \<Rightarrow> (rect \<Rightarrow> ('tz list, unit) outcome) \<Rightarrow> bounding_box option \<Rightarrow> (timezone_message list, connect_error) outcome" where
  "get_from_bounding_box msg search req =
     and_then (required ''Missing BoundingBox'' (Option.bind req rect_from)) (\<lambda>r.
     and_then (internal_unit (search r)) (\<lambda>tzs. Ok (map msg tzs)))"

definition get_from_polygon ::
    "('tz \<Rightarrow> timezone_message) \<Rightarrow> (rect \<Rightarrow> ('tz list, unit) outcome) \<Rightarrow> (point list \<Rightarrow> rect option) \<Rightarrow> rpc_coordinate list option
      \<Rightarrow> (timezone_message list, connect_error) outcome" where
  "get_from_polygon msg search bounding req =
     and_then (required ''Missing Polygon'' (map_option polygon_from req)) (\<lambda>polygon.
     and_then (internal_unit (search_polygon search bounding polygon)) (\<lambda>tzs. Ok (map msg tzs)))"

text \<open>One element of a batch: the first timezone found.\<close>

definition first_found ::
    "string \<Rightarrow> ('tz \<Rightarrow> timezone_message) \<Rightarrow> ('tz list, unit) outcome \<Rightarrow> (timezone_message, connect_error) outcome" where
  "first_found what msg r =
     and_then (internal_unit r) (\<lambda>found.
     case found of [] \<Rightarrow> Err (NotFound (''No timezone found for '' @ what)) | tz # _ \<Rightarrow> Ok (msg tz))"

definition batch_get_from_points ::
    "('tz \<Rightarrow> timezone_message) \<Rightarrow> (rect \<Rightarrow> ('tz list, unit) outcome) \<Rightarrow> rpc_coordinate list \<Rightarrow> (timezone_message list, connect_error) outcome" where
  "batch_get_from_points msg search cs =
     collect_results (map (\<lambda>c. first_found ''coordinate'' msg (search (point_rect (point_from c)))) cs)"

definition batch_get_from_bounding_box ::
    "('tz \<Rightarrow> timezone_message) \<Rightarrow> (rect \<Rightarrow> ('tz list, unit) outcome) \<Rightarrow> bounding_box list \<Rightarrow> (timezone_message list, connect_error) outcome" where
  "batch_get_from_bounding_box msg search bbs =
     collect_results (map (\<lambda>bb. and_then (required ''Missing BoundingBox'' (rect_from bb)) (\<lambda>r. first_found ''bounding box'' msg (search r))) bbs)"

definition batch_get_from_polygon ::
    "('tz \<Rightarrow> timezone_message) \<Rightarrow> (rect \<Rightarrow> ('tz list, unit) outcome) \<Rightarrow> (point list \<Rightarrow> rect option) \<Rightarrow> rpc_coordinate list list
      \<Rightarrow> (timezone_message list, connect_error) outcome" where
  "batch_get_from_polygon msg search bounding ps =
     collect_results (map (\<lambda>p. first_found ''polygon'' msg (search_polygon search bounding (polygon_from p))) ps)"

section \<open>Laws\<close>

text \<open>A snapped point is a projection at the least distance, and the only failure is that there is none.\<close>

lemma point_snapped_nearest:
  fixes g :: "point geo" and n :: "('e, point, 'm) network"
  defines "ps \<equiv> \<lambda>c r. nearest_nodes_projected g n (point_from c) r"
  shows "point_snapped g n (Some c) r = Ok a \<Longrightarrow>
      \<exists>x \<in> set (ps c r). a = coordinate_of (fst x) \<and> (\<forall>y \<in> set (ps c r). haversine g (point_from c) (fst x) \<le> haversine g (point_from c) (fst y))"
    and "ps c r \<noteq> [] \<Longrightarrow> \<exists>a. point_snapped g n (Some c) r = Ok a"
    and "point_snapped g n req r \<noteq> Panic"
proof -
  let ?key = "\<lambda>x. haversine g (point_from c) (fst x)"
  obtain x xs where sorted: "sort_key ?key (ps c r) = x # xs \<or> ps c r = []" by (metis length_sort list.exhaust list.size(3) length_0_conv)
  show "point_snapped g n req r \<noteq> Panic"
    by (auto simp: point_snapped_def required_def or_internal_def Let_def split: option.splits list.splits)
  show "\<exists>a. point_snapped g n (Some c) r = Ok a" if "ps c r \<noteq> []"
    using sorted that by (auto simp: point_snapped_def required_def or_internal_def Let_def ps_def)
  assume a: "point_snapped g n (Some c) r = Ok a"
  then have "ps c r \<noteq> []" by (auto simp: point_snapped_def required_def or_internal_def Let_def ps_def)
  then have s: "sort_key ?key (ps c r) = x # xs" using sorted by blast
  have "sorted (map ?key (x # xs))" "set (x # xs) = set (ps c r)"
    using sorted_sort_key [of ?key "ps c r"] set_sort [of ?key "ps c r"] unfolding s by simp_all
  moreover have "a = coordinate_of (fst x)"
    using a s by (auto simp: point_snapped_def required_def or_internal_def Let_def ps_def)
  ultimately show "\<exists>x \<in> set (ps c r). a = coordinate_of (fst x) \<and> (\<forall>y \<in> set (ps c r). haversine g (point_from c) (fst x) \<le> haversine g (point_from c) (fst y))"
    by (intro bexI [of _ x]) auto
qed

text \<open>Every snap request ends in the panic of the facade.\<close>

lemma snap_always_panics: "snap_service trip_context runtime_from printed geodesic message default_runtime req = Panic"
  by (simp add: snap_service_def facade_snap_def Let_def)

text \<open>With an axle count of 256 or more, the count of a truck is cut to its low byte.\<close>

lemma axle_count_truncates: "tm_axle_count m = 256 \<Longrightarrow> axle_count (truck_costing_of m) = 0"
  by (simp add: truck_costing_of_def)

text \<open>
  The services over a resolver: the answers are never empty, a batch answers every element with its first
  timezone, and the error that nothing was found is never given, since a resolver that finds nothing fails.
\<close>

context timezone_resolver
begin

lemma first_found_iff: "first_found what msg (search r) = Ok m \<longleftrightarrow> (\<exists>zs. search r = Ok zs \<and> m = msg (hd zs))"
proof (cases "search r")
  case (Ok zs)
  then show ?thesis using search_nonempty [OF Ok] by (cases zs) (auto simp: first_found_def internal_unit_def)
qed (simp_all add: first_found_def internal_unit_def)

lemma never_not_found: "first_found what msg (search r) \<noteq> Err (NotFound e)"
proof (cases "search r")
  case (Ok zs)
  then show ?thesis using search_nonempty [OF Ok] by (cases zs) (auto simp: first_found_def internal_unit_def)
qed (simp_all add: first_found_def internal_unit_def)

lemma get_nonempty: "get_from_point msg search req = Ok ms \<Longrightarrow> ms \<noteq> []"
  using search_nonempty by (auto simp: get_from_point_def internal_unit_def)

lemma batch_points:
  "batch_get_from_points msg search cs = Ok ms \<longleftrightarrow>
    length ms = length cs \<and> (\<forall>i < length cs. \<exists>zs. search (point_rect (point_from (cs ! i))) = Ok zs \<and> ms ! i = msg (hd zs))"
proof -
  have "batch_get_from_points msg search cs = Ok ms
      \<longleftrightarrow> map (\<lambda>c. first_found ''coordinate'' msg (search (point_rect (point_from c)))) cs = map Ok ms"
    by (simp add: batch_get_from_points_def collect_results_Ok_iff)
  also have "\<dots> \<longleftrightarrow> length ms = length cs
      \<and> (\<forall>i < length cs. first_found ''coordinate'' msg (search (point_rect (point_from (cs ! i)))) = Ok (ms ! i))"
    by (auto simp: list_eq_iff_nth_eq)
  finally show ?thesis unfolding first_found_iff .
qed

end

text \<open>A batch on the cell storage answers every point as a lookup of that point alone does, with its deepest timezone.\<close>

lemma s2_batch:
  "batch_get_from_points msg (s2_search db S B) cs = Ok ms \<longleftrightarrow>
    length ms = length cs \<and> (\<forall>i < length cs. \<exists>zs. s2_search db S B (point_rect (point_from (cs ! i))) = Ok zs \<and> ms ! i = msg (hd zs))"
  by (rule s2_storage.batch_points)

end
