(* ===== verification/Trace_Store.thy ===== *)
theory Trace_Store
  imports Orchestrator
begin

text \<open>
  The merged histories a viewer of the fleet keeps (\<open>routers_viewer\<close>, \<open>bin/realtime/store.rs\<close>): one
  segment of geometry per observation, newest emission first come to be shown, bounded per vehicle, with
  idle vehicles evicted. Instants are natural numbers of nanoseconds and come with every call; the
  ordered map of a trace is its sorted association list.
\<close>

type_synonym 'p trace_layers = "(int \<times> 'p list) list"

fun bt_insert :: "'k::linorder \<Rightarrow> 'v \<Rightarrow> ('k \<times> 'v) list \<Rightarrow> ('k \<times> 'v) list" where
  "bt_insert k v [] = [(k, v)]"
| "bt_insert k v ((k', v') # xs) =
     (if k < k' then (k, v) # (k', v') # xs else if k = k' then (k, v) # xs else (k', v') # bt_insert k v xs)"

record 'p vehicle_trace =
  trace_layers :: "'p trace_layers"
  last_seen :: nat

definition vehicle_trace_new :: "nat \<Rightarrow> 'p vehicle_trace" where
  "vehicle_trace_new now = \<lparr>trace_layers = [], last_seen = now\<rparr>"

definition layer_segment :: "('e, 'p) matched_layer \<Rightarrow> 'p list" where
  "layer_segment l = layer_path l @ [layer_position l]"

text \<open>The loop that pops the oldest observation while there are more than the capacity.\<close>

fun pop_oldest :: "nat \<Rightarrow> 'p trace_layers \<Rightarrow> 'p trace_layers" where
  "pop_oldest cap ls = (if length ls > cap then pop_oldest cap (tl ls) else ls)"

declare pop_oldest.simps [simp del]

definition merge_diff :: "nat \<Rightarrow> ('e, 'p) matched_diff \<Rightarrow> nat \<Rightarrow> 'p vehicle_trace \<Rightarrow> 'p vehicle_trace" where
  "merge_diff now diff cap tr =
     tr\<lparr>trace_layers := pop_oldest cap (foldl (\<lambda>ls l. bt_insert (layer_timestamp l) (layer_segment l) ls) (trace_layers tr) (diff_layers diff)),
        last_seen := now\<rparr>"

definition flattened :: "'p vehicle_trace \<Rightarrow> 'p list" where
  "flattened tr = concat (map snd (trace_layers tr))"

record 'p trace_store =
  store_capacity :: nat
  idle_ttl :: nat
  store_traces :: "vehicle_id \<rightharpoonup> 'p vehicle_trace"
  event_bucket :: "nat list"
  total_events :: nat

record store_stats =
  vehicle_count :: nat
  events_per_sec :: nat
  stat_total :: nat

definition trace_store_new :: "nat \<Rightarrow> nat \<Rightarrow> 'p trace_store" where
  "trace_store_new cap ttl = \<lparr>store_capacity = cap, idle_ttl = ttl, store_traces = Map.empty, event_bucket = [], total_events = 0\<rparr>"

definition store_ingest :: "nat \<Rightarrow> ('e, 'p) matched_event \<Rightarrow> 'p trace_store \<Rightarrow> 'p trace_store" where
  "store_ingest now result st =
     (let st = st\<lparr>event_bucket := event_bucket st @ [now], total_events := total_events st + 1\<rparr>
      in if diff_layers (matched_emission result) = [] then st
         else
           let entry = (case store_traces st (matched_vehicle result) of Some tr \<Rightarrow> tr | None \<Rightarrow> vehicle_trace_new now)
           in st\<lparr>store_traces := (store_traces st)(matched_vehicle result \<mapsto> merge_diff now (matched_emission result) (store_capacity st) entry)\<rparr>)"

definition NANOS :: nat where "NANOS = 1000000000"

text \<open>\<open>duration_since\<close> saturates at zero.\<close>

definition store_evict_idle :: "nat \<Rightarrow> 'p trace_store \<Rightarrow> 'p trace_store" where
  "store_evict_idle now st =
     st\<lparr>store_traces := (\<lambda>v. case store_traces st v of
            Some tr \<Rightarrow> if now - last_seen tr < idle_ttl st then Some tr else None | None \<Rightarrow> None),
        event_bucket := dropWhile (\<lambda>t. (now - t) div NANOS \<ge> 2) (event_bucket st)\<rparr>"

definition store_statistics :: "nat \<Rightarrow> 'p trace_store \<Rightarrow> store_stats" where
  "store_statistics now st =
     \<lparr>vehicle_count = card (dom (store_traces st)),
      events_per_sec = length (filter (\<lambda>t. now - t < NANOS) (event_bucket st)), stat_total = total_events st\<rparr>"

section \<open>Ordered maps\<close>

lemma bt_insert_map: "map_of (bt_insert k v xs) = (map_of xs)(k \<mapsto> v)"
  by (induction xs) (auto simp: fun_eq_iff)

lemma bt_insert_keys: "set (map fst (bt_insert k v xs)) = insert k (set (map fst xs))"
proof (induction xs)
  case (Cons x xs)
  then show ?case by (cases x) (auto simp del: set_map)
qed simp

lemma bt_insert_sorted: "sorted_wrt (<) (map fst xs) \<Longrightarrow> sorted_wrt (<) (map fst (bt_insert k v xs))"
proof (induction xs)
  case (Cons x xs)
  then show ?case using bt_insert_keys [of k v xs] by (cases x) fastforce
qed simp

lemma pop_oldest_drop: "pop_oldest cap ls = drop (length ls - cap) ls"
proof (induction ls)
  case Nil
  then show ?case by (simp add: pop_oldest.simps)
next
  case (Cons x ls)
  then show ?case by (cases "length ls < cap") (simp_all add: pop_oldest.simps [of cap "x # ls"] Suc_diff_le not_less)
qed

section \<open>What a trace holds\<close>

definition trace_ok :: "nat \<Rightarrow> 'p vehicle_trace \<Rightarrow> bool" where
  "trace_ok cap tr \<longleftrightarrow> sorted_wrt (<) (map fst (trace_layers tr)) \<and> length (trace_layers tr) \<le> cap"

definition store_ok :: "'p trace_store \<Rightarrow> bool" where
  "store_ok st \<longleftrightarrow> finite (dom (store_traces st)) \<and> (\<forall>v tr. store_traces st v = Some tr \<longrightarrow> trace_ok (store_capacity st) tr)"

text \<open>The segment shown for an observation is that of its last layer in the diff, or the one held.\<close>

definition last_layer :: "('e, 'p) matched_diff \<Rightarrow> int \<rightharpoonup> 'p list" where
  "last_layer diff = map_of (rev (map (\<lambda>l. (layer_timestamp l, layer_segment l)) (diff_layers diff)))"

lemma merged_layers:
  defines "ins \<equiv> foldl (\<lambda>ls l. bt_insert (layer_timestamp l) (layer_segment l) ls)"
  shows "map_of (ins ls xs) = map_of ls ++ map_of (rev (map (\<lambda>l. (layer_timestamp l, layer_segment l)) xs))"
    and "sorted_wrt (<) (map fst ls) \<Longrightarrow> sorted_wrt (<) (map fst (ins ls xs))"
  unfolding ins_def
  by (induction xs arbitrary: ls) (auto simp: bt_insert_map bt_insert_sorted map_add_def fun_eq_iff split: option.splits)

theorem merge_keeps_newest:
  fixes tr :: "'p vehicle_trace" and diff :: "('e, 'p) matched_diff"
  assumes "trace_ok cap tr"
  defines "all \<equiv> map_of (trace_layers tr) ++ last_layer diff"
  shows "trace_ok cap (merge_diff now diff cap tr)"
    and "\<And>k v. map_of (trace_layers (merge_diff now diff cap tr)) k = Some v \<Longrightarrow> all k = Some v"
    and "\<And>k k'. k \<in> dom (map_of (trace_layers (merge_diff now diff cap tr))) \<Longrightarrow> k' \<in> dom all \<Longrightarrow> k < k'
      \<Longrightarrow> k' \<in> dom (map_of (trace_layers (merge_diff now diff cap tr)))"
    and "length (trace_layers (merge_diff now diff cap tr)) = min cap (card (dom all))"
proof -
  let ?ls = "foldl (\<lambda>ls l. bt_insert (layer_timestamp l) (layer_segment l) ls) (trace_layers tr) (diff_layers diff)"
  let ?n = "length ?ls - cap"
  have m: "map_of ?ls = all" using merged_layers(1) by (simp add: all_def last_layer_def)
  have s: "sorted_wrt (<) (map fst ?ls)" using merged_layers(2) [of "trace_layers tr"] assms(1) unfolding trace_ok_def by blast
  then have d: "distinct (map fst ?ls)" using strict_sorted_iff by blast
  have t: "trace_layers (merge_diff now diff cap tr) = drop ?n ?ls" by (simp add: merge_diff_def pop_oldest_drop)
  have sd: "sorted_wrt (<) (map fst (drop ?n ?ls))" using s by (simp add: sorted_wrt_drop flip: drop_map)
  show "trace_ok cap (merge_diff now diff cap tr)" unfolding trace_ok_def t using sd by simp
  have "card (dom all) = length ?ls"
    unfolding m [symmetric] dom_map_of_conv_image_fst using d by (simp add: distinct_card flip: set_map)
  then show "length (trace_layers (merge_diff now diff cap tr)) = min cap (card (dom all))" unfolding t by simp
  show "all k = Some v" if "map_of (trace_layers (merge_diff now diff cap tr)) k = Some v" for k v
  proof -
    have "(k, v) \<in> set ?ls" using that unfolding t by (meson in_set_dropD map_of_SomeD)
    then show ?thesis using d m by (metis map_of_is_SomeI)
  qed
  show "k' \<in> dom (map_of (trace_layers (merge_diff now diff cap tr)))"
    if k: "k \<in> dom (map_of (trace_layers (merge_diff now diff cap tr)))" "k' \<in> dom all" "k < k'" for k k'
  proof -
    have keys: "dom (map_of (trace_layers (merge_diff now diff cap tr))) = set (drop ?n (map fst ?ls))" "dom all = set (map fst ?ls)"
      unfolding t m [symmetric] dom_map_of_conv_image_fst by (simp_all add: drop_map)
    have k': "k' \<in> set (map fst ?ls)" and kd: "k \<in> set (drop ?n (map fst ?ls))" using k(1,2) unfolding keys by simp_all
    have "x < y" if "x \<in> set (take ?n (map fst ?ls))" "y \<in> set (drop ?n (map fst ?ls))" for x y
      using s that sorted_wrt_append [of "(<)" "take ?n (map fst ?ls)" "drop ?n (map fst ?ls)"] by simp
    then have "k' \<notin> set (take ?n (map fst ?ls))" using kd k(3) by fastforce
    then have "k' \<in> set (drop ?n (map fst ?ls))" using k' set_append [of "take ?n (map fst ?ls)" "drop ?n (map fst ?ls)"] by auto
    then show ?thesis unfolding keys .
  qed
qed

section \<open>The store\<close>

lemma trace_store_new_ok: "store_ok (trace_store_new cap ttl)"
  by (simp add: store_ok_def trace_store_new_def)

lemma store_ingest_ok: "store_ok st \<Longrightarrow> store_ok (store_ingest now result st)"
proof -
  assume ok: "store_ok st"
  have "trace_ok (store_capacity st) (vehicle_trace_new now)" by (simp add: trace_ok_def vehicle_trace_new_def)
  then have "trace_ok (store_capacity st) (merge_diff now d (store_capacity st)
      (case store_traces st v of Some tr \<Rightarrow> tr | None \<Rightarrow> vehicle_trace_new now))" for d v
    using ok merge_keeps_newest(1) [of "store_capacity st" _ now d] by (auto simp: store_ok_def split: option.splits)
  then show ?thesis using ok by (auto simp: store_ok_def store_ingest_def Let_def)
qed

lemma store_evict_ok: "store_ok st \<Longrightarrow> store_ok (store_evict_idle now st)"
proof -
  assume ok: "store_ok st"
  have "dom (store_traces (store_evict_idle now st)) \<subseteq> dom (store_traces st)"
    by (auto simp: store_evict_idle_def split: option.splits)
  then show ?thesis using ok finite_subset
    by (fastforce simp: store_ok_def store_evict_idle_def split: option.splits if_splits)
qed

lemma evicted_are_idle:
  "store_traces (store_evict_idle now st) v = Some tr \<longleftrightarrow> store_traces st v = Some tr \<and> now - last_seen tr < idle_ttl st"
  by (auto simp: store_evict_idle_def split: option.splits)

text \<open>
  A diff's first layer carries no geometry, since the road into it was emitted by an earlier diff; merging
  it replaces the segment that held that road by the bare position.
\<close>

lemma first_layer_drops_geometry:
  assumes "cap \<ge> 1" "diff_layers diff = [l]" "layer_path l = []"
  shows "trace_layers (merge_diff now diff cap \<lparr>trace_layers = [(layer_timestamp l, road @ [layer_position l])], last_seen = t\<rparr>)
    = [(layer_timestamp l, [layer_position l])]"
  using assms by (simp add: merge_diff_def pop_oldest_drop layer_segment_def)

lemma emission_starts_bare:
  assumes "cp_route sol = c # cs" "ogs = og # rest" "store_candidate (cp_candidates sol) c = Some x"
  shows "\<exists>l ls. diff_layers (matched_diff_new n sol ogs rev_no) = l # ls \<and> layer_path l = [] \<and> layer_timestamp l = timestamp og"
  using assms by (simp add: matched_diff_new_def List.map_filter_def)

text \<open>The revision of a diff plays no part in the merge: an older solve that arrives late overwrites a newer one.\<close>

lemma merge_ignores_revision: "merge_diff now (diff\<lparr>revision := r\<rparr>) cap tr = merge_diff now diff cap tr"
  by (simp add: merge_diff_def)

end
