(* ===== verification/Projection.thy ===== *)
theory Projection
  imports Strategy Dijkstra_Model "HOL-Library.Word"
begin

text \<open>
  Tile coordinates (\<open>routers_geo\<close>, \<open>project.rs\<close>): the tile a position falls into at a zoom, with its offset
  inside the tile. Doubles are reals, with the saturating cast to 32 bits; the shift by the zoom is on
  32-bit signed integers and wraps as in a release build. The laws: the tile of an axis is the one its
  coordinate lies in, offsets stay below the extent, and the tile at the next zoom is one of the two
  halves.
\<close>

definition MVT_EXTENT :: nat where "MVT_EXTENT = 4096"

datatype slippy_tile = SlippyTile "nat \<times> nat" "nat \<times> nat" nat

datatype web_mercator = WebMercator point

definition tile_offset :: "real \<Rightarrow> nat \<times> nat" where
  "tile_offset v = (f64_as_u32 (of_int \<lfloor>v\<rfloor>), f64_as_u32 (real MVT_EXTENT * (v - of_int \<lfloor>v\<rfloor>)))"

definition shl_zoom :: "nat \<Rightarrow> real" where
  "shl_zoom zoom = of_int (sint (push_bit (zoom mod 32) (1 :: 32 word)))"

definition slippy_x :: "nat \<Rightarrow> real \<Rightarrow> real" where
  "slippy_x zoom lng = shl_zoom zoom * ((lng + 180) / 360)"

definition slippy_y :: "nat \<Rightarrow> real \<Rightarrow> real" where
  "slippy_y zoom lat =
     (let y1 = tan (lat * 0.0174533); y2 = 1 / cos (lat * 0.0174533)
      in shl_zoom zoom * (1 - ln (y1 + y2) / pi) / 2)"

definition slippy_project :: "point \<Rightarrow> nat \<Rightarrow> slippy_tile" where
  "slippy_project p zoom = SlippyTile (tile_offset (slippy_x zoom (fst p))) (tile_offset (slippy_y zoom (snd p))) zoom"

definition mercator_project :: "point \<Rightarrow> nat \<Rightarrow> web_mercator" where
  "mercator_project p zoom = WebMercator p"

section \<open>Laws\<close>

lemma tile_offset_bounds:
  assumes "0 \<le> v" "v < 2 ^ 32"
  shows "real (fst (tile_offset v)) \<le> v \<and> v < real (fst (tile_offset v)) + 1 \<and> snd (tile_offset v) < MVT_EXTENT"
proof -
  have f: "0 \<le> \<lfloor>v\<rfloor>" "\<lfloor>v\<rfloor> \<le> 4294967295" using assms floor_less_iff [of v "2 ^ 32"] by simp_all
  then have "nat \<lfloor>v\<rfloor> \<le> U32_MAX" using f(2) by (simp only: nat_le_iff of_nat_numeral)
  then have n: "fst (tile_offset v) = nat \<lfloor>v\<rfloor>" using f(1) by (auto simp: tile_offset_def f64_as_u32_def min_def)
  have "MVT_EXTENT * (v - of_int \<lfloor>v\<rfloor>) < MVT_EXTENT" by (simp add: MVT_EXTENT_def) linarith
  moreover have "0 \<le> real MVT_EXTENT * (v - of_int \<lfloor>v\<rfloor>)" by (simp add: MVT_EXTENT_def)
  ultimately have "\<lfloor>real MVT_EXTENT * (v - of_int \<lfloor>v\<rfloor>)\<rfloor> < int MVT_EXTENT" by (simp add: floor_less_iff)
  then have "nat \<lfloor>real MVT_EXTENT * (v - of_int \<lfloor>v\<rfloor>)\<rfloor> < MVT_EXTENT" by (simp add: nat_less_iff MVT_EXTENT_def)
  then have "snd (tile_offset v) < MVT_EXTENT" unfolding tile_offset_def f64_as_u32_def snd_conv by (rule le_less_trans [OF min.cobounded1])
  then show ?thesis using f by (simp add: n)
qed

lemma shl_zoom_exact: "zoom \<le> 30 \<Longrightarrow> shl_zoom zoom = 2 ^ zoom"
proof -
  assume z: "zoom \<le> 30"
  have "list_all (\<lambda>z. sint (push_bit z (1 :: 32 word)) = 2 ^ z) [0..<31]" by code_simp
  then have "sint (push_bit zoom (1 :: 32 word)) = 2 ^ zoom" using z by (simp add: list_all_iff)
  then show ?thesis using z by (simp add: shl_zoom_def)
qed

text \<open>Below zoom 31 the column of a longitude is exact and nests in the column of the zoom before.\<close>

lemma slippy_column:
  assumes "zoom \<le> 30" "- 180 \<le> lng" "lng < 180"
  shows "fst (tile_offset (slippy_x zoom lng)) < 2 ^ zoom"
    and "snd (tile_offset (slippy_x zoom lng)) < MVT_EXTENT"
    and "zoom < 30 \<Longrightarrow> fst (tile_offset (slippy_x (Suc zoom) lng)) div 2 = fst (tile_offset (slippy_x zoom lng))"
proof -
  have x: "slippy_x z lng = 2 ^ z * ((lng + 180) / 360)" if "z \<le> 30" for z using that by (simp add: slippy_x_def shl_zoom_exact)
  have range: "0 \<le> slippy_x z lng \<and> slippy_x z lng < 2 ^ z" if "z \<le> 30" for z
  proof -
    have "(lng + 180) / 360 < 1" "0 \<le> (lng + 180) / 360" using assms by simp_all
    then show ?thesis unfolding x [OF that] by (simp add: mult_less_cancel_left1)
  qed
  have small: "slippy_x z lng < 2 ^ 32" if "z \<le> 30" for z
  proof -
    have "(2::real) ^ z \<le> 2 ^ 32" using that by (intro power_increasing) auto
    then show ?thesis using range [OF that] by linarith
  qed
  note b = tile_offset_bounds [OF _ small]
  show "snd (tile_offset (slippy_x zoom lng)) < MVT_EXTENT" using b [of zoom] range [of zoom] assms(1) by blast
  have "real (fst (tile_offset (slippy_x zoom lng))) < 2 ^ zoom" using b [of zoom] range [of zoom] assms(1) by (meson le_less_trans)
  then show "fst (tile_offset (slippy_x zoom lng)) < 2 ^ zoom" by (metis of_nat_less_iff of_nat_numeral of_nat_power)
  assume z: "zoom < 30"
  have "slippy_x (Suc zoom) lng = 2 * slippy_x zoom lng" using z by (simp add: x)
  then have "real (fst (tile_offset (slippy_x (Suc zoom) lng))) \<le> 2 * slippy_x zoom lng"
      "2 * slippy_x zoom lng < real (fst (tile_offset (slippy_x (Suc zoom) lng))) + 1"
      "real (fst (tile_offset (slippy_x zoom lng))) \<le> slippy_x zoom lng" "slippy_x zoom lng < real (fst (tile_offset (slippy_x zoom lng))) + 1"
    using b [of zoom] b [of "Suc zoom"] range [of zoom] range [of "Suc zoom"] z by auto
  then have "2 * fst (tile_offset (slippy_x zoom lng)) < fst (tile_offset (slippy_x (Suc zoom) lng)) + 1"
      "fst (tile_offset (slippy_x (Suc zoom) lng)) < 2 * fst (tile_offset (slippy_x zoom lng)) + 2"
    by linarith+
  then show "fst (tile_offset (slippy_x (Suc zoom) lng)) div 2 = fst (tile_offset (slippy_x zoom lng))" by linarith
qed

text \<open>At zoom 31 the shift reaches the sign bit: every column is zero.\<close>

lemma zoom_31_collapses: "- 180 \<le> lng \<Longrightarrow> fst (tile_offset (slippy_x 31 lng)) = 0"
proof -
  assume l: "- 180 \<le> lng"
  have "sint (push_bit 31 (1 :: 32 word)) = - 2147483648" by (simp add: push_bit_eq_mult)
  then have "slippy_x 31 lng \<le> 0" using l by (simp add: slippy_x_def shl_zoom_def)
  then have "of_int \<lfloor>slippy_x 31 lng\<rfloor> \<le> (0 :: real)" by linarith
  then show ?thesis by (simp add: tile_offset_def f64_as_u32_def)
qed

end
