(* ===== verification/Cached_History.thy ===== *)
theory Cached_History
  imports Prelude
begin

text \<open>
  The history store with a local window per vehicle (\<open>CachedRedisStore\<close> of \<open>store/redis.rs\<close>). The backing
  store is a function from a vehicle and a length to the newest entries, newest first; the cache is a
  partial map, whose evictions are steps that forget a window. The laws say when a read through the
  cache is the read of the backing store, and what an observation pushed for an uncached vehicle hides.
\<close>

type_synonym ('k, 'v) window_cache = "'k \<rightharpoonup> 'v list"

text \<open>The read: a hit is returned as it is, a miss is read, stored and returned; \<open>None\<close> is an error of the store.\<close>

definition cached_get_many ::
    "('k \<Rightarrow> nat \<Rightarrow> 'v list option) \<Rightarrow> 'k \<Rightarrow> nat \<Rightarrow> ('k, 'v) window_cache \<Rightarrow> 'v list option \<times> ('k, 'v) window_cache" where
  "cached_get_many get k len cache =
     (case cache k of
        Some cached \<Rightarrow> (Some cached, cache)
      | None \<Rightarrow>
          (case get k len of
             None \<Rightarrow> (None, cache)
           | Some entries \<Rightarrow> (Some entries, cache(k \<mapsto> entries))))"

definition cached_push :: "'k \<Rightarrow> 'v \<Rightarrow> nat \<Rightarrow> ('k, 'v) window_cache \<Rightarrow> ('k, 'v) window_cache" where
  "cached_push k item len cache =
     (case cache k of
        Some entries \<Rightarrow> cache(k \<mapsto> take len (item # entries))
      | None \<Rightarrow> cache(k \<mapsto> [item]))"

definition cached_write_many :: "('v list \<Rightarrow> nat \<Rightarrow> 's \<Rightarrow> 's option) \<Rightarrow> 'v list \<Rightarrow> nat \<Rightarrow> 's \<Rightarrow> 's option" where
  "cached_write_many write batch limit st = write batch limit st"

text \<open>A cache is fresh for histories \<open>h\<close> at a length if every window in it is what the store would return.\<close>

definition fresh :: "('k \<Rightarrow> 'v list) \<Rightarrow> nat \<Rightarrow> ('k, 'v) window_cache \<Rightarrow> bool" where
  "fresh h len cache \<longleftrightarrow> (\<forall>k w. cache k = Some w \<longrightarrow> w = take len (h k))"

lemma fresh_empty: "fresh h len Map.empty"
  by (simp add: fresh_def)

lemma fresh_evict: "fresh h len cache \<Longrightarrow> fresh h len (cache(k := None))"
  by (simp add: fresh_def)

text \<open>Read at one length, the cache is transparent as long as it is fresh, and stays fresh.\<close>

lemma fresh_read:
  assumes "fresh h len cache" "\<And>k. get k len = Some (take len (h k))"
  shows "fst (cached_get_many get k len cache) = get k len" "fresh h len (snd (cached_get_many get k len cache))"
  using assms by (auto simp: cached_get_many_def fresh_def split: option.splits)

text \<open>An observation pushed for a cached vehicle keeps the cache fresh for the history it extends.\<close>

lemma fresh_push:
  assumes "fresh h len cache" "cache k \<noteq> None"
  shows "fresh (h(k := item # h k)) len (cached_push k item len cache)"
proof -
  obtain w where w: "cache k = Some w" "w = take len (h k)" using assms unfolding fresh_def by blast
  have "take l (item # take l xs) = take l (item # xs)" for l and xs :: "'b list" by (cases l) (simp_all add: min_def)
  then have "take len (item # w) = take len (item # h k)" unfolding w(2) .
  then show ?thesis using assms(1) by (simp add: cached_push_def fresh_def w(1))
qed

text \<open>
  Pushed for a vehicle that is not cached, it leaves a window of that observation alone, which the next
  read returns without asking the store: the history before it is hidden.
\<close>

lemma push_hides_history:
  assumes "cache k = None"
  shows "fst (cached_get_many get k len (cached_push k item n cache)) = Some [item]"
    and "h k \<noteq> [] \<Longrightarrow> len \<ge> 2 \<Longrightarrow> \<not> fresh (h(k := item # h k)) len (cached_push k item n cache)"
proof -
  show "fst (cached_get_many get k len (cached_push k item n cache)) = Some [item]"
    using assms by (simp add: cached_push_def cached_get_many_def)
  assume "h k \<noteq> []" "len \<ge> 2"
  then have "take len (item # h k) \<noteq> [item]" by (cases len; cases "h k") auto
  then show "\<not> fresh (h(k := item # h k)) len (cached_push k item n cache)"
    using assms by (auto simp: cached_push_def fresh_def intro!: exI [of _ k])
qed

text \<open>A window is returned whatever length is asked for.\<close>

lemma cached_length_ignored: "cache k = Some w \<Longrightarrow> cached_get_many get k len cache = (Some w, cache)"
  by (simp add: cached_get_many_def)

end
