(* ===== verification/Metrics.thy ===== *)
theory Metrics
  imports Decimal Complex_Main "HOL-Library.Multiset"
begin

text \<open>
  The statistics of the conformance harness (\<open>conformance/src/metrics.rs\<close>): durations are natural numbers
  of nanoseconds, rates reals, an infinite rate is \<open>None\<close>. The laws: every reported duration is one of the
  samples, in the order of their names, each percentile has its share of the samples at or below it, and
  the separators of a printed rate do not change its digits.
\<close>

record matcher_metrics =
  total_points :: nat
  total_duration :: nat
  throughput :: "real option"
  mt_mean :: nat
  mt_median :: nat
  mt_p15 :: nat
  mt_lq :: nat
  mt_uq :: nat
  mt_p85 :: nat
  mt_min :: nat
  mt_max :: nat

text \<open>Nearest-rank percentile of a sorted list.\<close>

definition rank_index :: "nat \<Rightarrow> nat \<Rightarrow> nat" where
  "rank_index n p = min (nat \<lceil>real p / 100 * real n\<rceil> - 1) (n - 1)"

definition percentile :: "nat list \<Rightarrow> nat \<Rightarrow> nat" where
  "percentile xs p = xs ! rank_index (length xs) p"

text \<open>The statistics of the sorted samples.\<close>

definition sorted_metrics :: "nat list \<Rightarrow> nat \<Rightarrow> matcher_metrics" where
  "sorted_metrics xs points =
     (let n = length xs; total = sum_list xs; secs = real total / 1000000000
      in \<lparr>total_points = points, total_duration = total,
          throughput = (if secs > 0 then Some (real points / secs) else None),
          mt_mean = total div (n mod 4294967296), mt_median = percentile xs 50, mt_p15 = percentile xs 15,
          mt_lq = percentile xs 25, mt_uq = percentile xs 75, mt_p85 = percentile xs 85,
          mt_min = xs ! 0, mt_max = xs ! (n - 1)\<rparr>)"

text \<open>\<open>None\<close> is the failed assertion that there are samples, or the division by a count that is zero at 32 bits.\<close>

definition compute_metrics :: "nat list \<Rightarrow> nat \<Rightarrow> matcher_metrics option" where
  "compute_metrics samples points =
     (if samples = [] \<or> length samples mod 4294967296 = 0 then None
      else Some (sorted_metrics (sort samples) points))"

text \<open>The loop over the digits from the right: a comma before every third.\<close>

fun separate :: "nat \<Rightarrow> string \<Rightarrow> string" where
  "separate i [] = []"
| "separate i (ch # cs) = (if i \<noteq> 0 \<and> i mod 3 = 0 then [CHR '','', ch] else [ch]) @ separate (Suc i) cs"

definition thousands :: "string \<Rightarrow> string" where
  "thousands s = rev (separate 0 (rev s))"

section \<open>Laws\<close>

lemma rank_index_less: "n > 0 \<Longrightarrow> rank_index n p < n"
  unfolding rank_index_def by linarith

lemma rank_index_mono: "p \<le> q \<Longrightarrow> rank_index n p \<le> rank_index n q"
proof -
  assume pq: "p \<le> q"
  have "real p / 100 * real n \<le> real q / 100 * real n" using pq by (intro mult_right_mono) simp_all
  then have "nat \<lceil>real p / 100 * real n\<rceil> \<le> nat \<lceil>real q / 100 * real n\<rceil>" by (intro nat_mono ceiling_mono)
  then show ?thesis unfolding rank_index_def by (intro min.mono diff_le_mono) simp_all
qed

lemma percentile_in: "xs \<noteq> [] \<Longrightarrow> percentile xs p \<in> set xs"
  by (simp add: percentile_def rank_index_less)

lemma percentile_mono: "sorted xs \<Longrightarrow> xs \<noteq> [] \<Longrightarrow> p \<le> q \<Longrightarrow> percentile xs p \<le> percentile xs q"
  unfolding percentile_def by (intro sorted_nth_mono rank_index_mono rank_index_less) simp_all

lemma percentile_rank:
  assumes "sorted xs" "xs \<noteq> []" "p \<le> 100"
  shows "real p / 100 * real (length xs) \<le> real (length (filter (\<lambda>x. x \<le> percentile xs p) xs))"
proof -
  let ?r = "real p / 100 * real (length xs)"
  let ?i = "rank_index (length xs) p"
  have i: "?i < length xs" using assms(2) by (simp add: rank_index_less)
  have "?r \<le> real (length xs)" using assms(3) mult_left_le_one_le [of "real (length xs)" "real p / 100"] by simp
  then have "nat \<lceil>?r\<rceil> \<le> length xs" by (simp add: ceiling_le_iff)
  then have "?r \<le> real (Suc ?i)" unfolding rank_index_def by linarith
  moreover have "Suc ?i \<le> length (filter (\<lambda>x. x \<le> percentile xs p) xs)"
  proof -
    have "\<forall>x \<in> set (take (Suc ?i) xs). x \<le> xs ! ?i"
    proof
      fix x assume "x \<in> set (take (Suc ?i) xs)"
      then obtain j where "j \<le> ?i" "x = xs ! j" by (auto simp: in_set_conv_nth less_Suc_eq_le)
      then show "x \<le> xs ! ?i" using sorted_nth_mono [OF assms(1) _ i] by blast
    qed
    then have "filter (\<lambda>x. x \<le> percentile xs p) (take (Suc ?i) xs) = take (Suc ?i) xs" by (simp add: percentile_def filter_id_conv)
    then have "length (filter (\<lambda>x. x \<le> percentile xs p) (take (Suc ?i) xs)) = Suc ?i" using i by simp
    moreover have "length (filter P (take m ys)) \<le> length (filter P ys)" for P m and ys :: "nat list"
      by (metis append_take_drop_id filter_append le_add1 length_append)
    ultimately show ?thesis by metis
  qed
  ultimately show ?thesis by (meson of_nat_mono order_trans)
qed

lemma metrics_ordered:
  assumes "compute_metrics samples points = Some m"
  shows "mt_min m \<le> mt_p15 m \<and> mt_p15 m \<le> mt_lq m \<and> mt_lq m \<le> mt_median m \<and> mt_median m \<le> mt_uq m
    \<and> mt_uq m \<le> mt_p85 m \<and> mt_p85 m \<le> mt_max m \<and> total_duration m = sum_list samples"
proof -
  let ?xs = "sort samples"
  have "samples \<noteq> []" and sm: "m = sorted_metrics ?xs points"
    using assms unfolding compute_metrics_def by (metis option.distinct(1) option.inject)+
  then have ne: "?xs \<noteq> []" by (metis length_0_conv length_sort)
  note m = sm sorted_metrics_def Let_def
  have bounds: "?xs ! 0 \<le> percentile ?xs p" "percentile ?xs p \<le> ?xs ! (length ?xs - 1)" for p
  proof -
    have i: "rank_index (length ?xs) p < length ?xs" by (rule rank_index_less) (use \<open>samples \<noteq> []\<close> in simp)
    show "?xs ! 0 \<le> percentile ?xs p" unfolding percentile_def using i by (intro sorted_nth_mono [OF sorted_sort]) simp_all
    show "percentile ?xs p \<le> ?xs ! (length ?xs - 1)" unfolding percentile_def using i by (intro sorted_nth_mono [OF sorted_sort]) linarith+
  qed
  have "sum_list ?xs = sum_list samples" by (metis mset_sort sum_mset_sum_list)
  then show ?thesis using percentile_mono [OF sorted_sort ne] bounds by (simp add: m)
qed

lemma separate_digits: "CHR '','' \<notin> set s \<Longrightarrow> filter (\<lambda>c. c \<noteq> CHR '','') (separate i s) = s"
  by (induction i s rule: separate.induct) auto

lemma thousands_digits: "CHR '','' \<notin> set s \<Longrightarrow> filter (\<lambda>c. c \<noteq> CHR '','') (thousands s) = s"
  by (simp add: thousands_def separate_digits flip: rev_filter)

end
