(* ===== verification/Tile_Queries.thy ===== *)
theory Tile_Queries
  imports Projection Clustering Text_Ops
begin

unbundle bit_operations_syntax

text \<open>
  Map tiles (\<open>routers_tiles\<close>): splitting a tile into the tiles of a deeper zoom, ranges of values and of
  dates, the plan of row ranges that a tile request reads from the table, and the features of a layer.
  The calendar, the Hilbert curve, the table and the message encoding come from other crates: a
  calendar and the curve are parameters, a table is a function from a request to its rows. Instants
  are seconds since the epoch. Sums of fixed width wrap, as in a release build.
\<close>

section \<open>Fragments\<close>

record fragment =
  frag_x :: "32 word"
  frag_y :: "32 word"
  frag_zoom :: "8 word"

definition fragment_new :: "8 word \<Rightarrow> 32 word \<Rightarrow> 32 word \<Rightarrow> fragment" where
  "fragment_new z x y = \<lparr>frag_x = x, frag_y = y, frag_zoom = z\<rparr>"

definition with_zoom :: "fragment \<Rightarrow> 8 word \<Rightarrow> fragment" where
  "with_zoom f z = f\<lparr>frag_zoom := z\<rparr>"

definition segment :: "fragment \<Rightarrow> fragment list option" where
  "segment f =
     (if frag_zoom f = 24 then None
      else Some (map (\<lambda>(dx, dy). \<lparr>frag_x = 2 * frag_x f + dx, frag_y = 2 * frag_y f + dy, frag_zoom = frag_zoom f + 1\<rparr>)
             [(0, 0), (1, 0), (0, 1), (1, 1)]))"

text \<open>
  How often a fragment can be split: the zoom is a byte, and only zoom 24 ends the splitting, so a zoom
  beyond it goes round through zero first. A stack of fragments is popped at its end.
\<close>

definition splits :: "fragment \<Rightarrow> nat" where
  "splits f = unat (24 - frag_zoom f)"

lemma splits_next: "z \<noteq> 24 \<Longrightarrow> Suc (unat (24 - (z + 1 :: 8 word))) = unat (24 - z)"
proof -
  assume "z \<noteq> 24"
  then have "24 - z \<noteq> 0" by simp
  then have "Suc (unat (24 - z - 1)) = unat (24 - z)" by (metis Suc_pred' unat_gt_0 unat_minus_one)
  then show ?thesis by (simp add: algebra_simps)
qed

lemma segment_splits: "segment f = Some ts \<Longrightarrow> length ts = 4 \<and> (\<forall>t \<in> set ts. Suc (splits t) = splits f)"
  using splits_next [of "frag_zoom f"] by (auto simp: segment_def splits_def split: if_splits)

definition stack_work :: "fragment list \<Rightarrow> nat" where
  "stack_work ts = sum_list (map (\<lambda>t. 5 ^ splits t) ts)"

lemma stack_work_append [simp]: "stack_work (as @ bs) = stack_work as + stack_work bs"
  by (simp add: stack_work_def)

lemma segment_work: "segment f = Some ts \<Longrightarrow> stack_work ts < 5 ^ splits f"
proof -
  assume "segment f = Some ts"
  then have ts: "length ts = 4" "\<forall>t \<in> set ts. Suc (splits t) = splits f" using segment_splits by blast+
  then obtain k where k: "splits f = Suc k" by (metis length_0_conv list.set_sel(1) zero_neq_numeral)
  have "map (\<lambda>t. 5 ^ splits t) ts = map (\<lambda>t. 5 ^ k :: nat) ts" using ts(2) k by simp
  then have "stack_work ts = 4 * 5 ^ k" using ts(1) by (simp add: stack_work_def map_replicate_const sum_list_replicate)
  then show ?thesis by (simp add: k)
qed

function detail_loop :: "8 word \<Rightarrow> fragment list \<Rightarrow> fragment list \<Rightarrow> fragment list" where
  "detail_loop z target_tiles stack =
     (if stack = [] then target_tiles
      else
        let tile = last stack; rest = butlast stack
        in if frag_zoom tile = z then detail_loop z (target_tiles @ [tile]) rest
           else
             (case segment tile of
                Some ts \<Rightarrow> detail_loop z target_tiles (rest @ ts)
              | None \<Rightarrow> detail_loop z target_tiles rest))"
  by pat_completeness auto
termination
proof (relation "measure (\<lambda>(z, target_tiles, stack). stack_work stack)", goal_cases)
  case (2 z target_tiles stack tile rest)
  then show ?case by (cases stack rule: rev_cases) (simp_all add: stack_work_def)
next
  case (3 z target_tiles stack tile rest)
  then show ?case by (cases stack rule: rev_cases) (simp_all add: stack_work_def)
next
  case (4 z target_tiles stack tile rest ts)
  then show ?case using segment_work [of tile ts] by (cases stack rule: rev_cases) (simp_all add: stack_work_def)
qed simp

declare detail_loop.simps [simp del]

definition detail :: "fragment \<Rightarrow> 8 word \<Rightarrow> fragment list" where
  "detail f z = detail_loop z [] [f]"

definition to_hilbert :: "(32 word \<Rightarrow> 32 word \<Rightarrow> 8 word \<Rightarrow> 64 word) \<Rightarrow> fragment \<Rightarrow> 64 word" where
  "to_hilbert xy2h f = xy2h (frag_x f) (frag_y f) (frag_zoom f)"

section \<open>Ranges\<close>

datatype range_type = Inclusive | Exclusive

record 'a value_range =
  from_value :: 'a
  to_value :: 'a
  range_variant :: range_type

definition range_within :: "'a::linorder value_range \<Rightarrow> 'a \<Rightarrow> bool" where
  "range_within r v =
     (case range_variant r of
        Exclusive \<Rightarrow> from_value r < v \<and> to_value r > v
      | Inclusive \<Rightarrow> from_value r \<le> v \<and> to_value r \<ge> v)"

text \<open>What the sources use of the calendar. Days have 86400 seconds.\<close>

datatype day_of_week = Mon | Tue | Wed | Thu | Fri | Sat | Sun

record calendar =
  utc_min :: int
  utc_max :: int
  weekday_at :: "int \<Rightarrow> day_of_week"
  storage_format :: "int \<Rightarrow> string"
  request_date :: "string \<Rightarrow> int option"

text \<open>The iterator over dates: one element and the range advanced. The outer \<open>None\<close> is the panic of a sum beyond the last instant.\<close>

definition next_date :: "calendar \<Rightarrow> int value_range \<Rightarrow> (int option \<times> int value_range) option" where
  "next_date C r =
     (if from_value r \<le> to_value r then
        let following = from_value r + 86400
        in if following > utc_max C then None else Some (Some (from_value r), r\<lparr>from_value := following\<rparr>)
      else Some (None, r))"

function collect_dates :: "calendar \<Rightarrow> int value_range \<Rightarrow> int list option" where
  "collect_dates C r =
     (case next_date C r of
        None \<Rightarrow> None
      | Some (None, r') \<Rightarrow> Some []
      | Some (Some d, r') \<Rightarrow> map_option ((#) d) (collect_dates C r'))"
  by pat_completeness auto
termination
  by (relation "measure (\<lambda>(C, r). nat (to_value r + 86400 - from_value r))")
    (auto simp: next_date_def Let_def split: if_splits)

declare collect_dates.simps [simp del]

datatype weekdays_error = BadNumber | InvalidWeekday

definition day_of_number :: "nat \<Rightarrow> (day_of_week, weekdays_error) outcome" where
  "day_of_number n =
     (if n = 0 then Ok Mon else if n = 1 then Ok Tue else if n = 2 then Ok Wed else if n = 3 then Ok Thu
      else if n = 4 then Ok Fri else if n = 5 then Ok Sat else if n = 6 then Ok Sun else Err InvalidWeekday)"

definition parse_weekdays :: "string \<Rightarrow> (day_of_week list, weekdays_error) outcome" where
  "parse_weekdays s =
     and_then (collect_results (map (\<lambda>p. case parse_below (2 ^ 32) p of Some n \<Rightarrow> Ok n | None \<Rightarrow> Err BadNumber)
       (split_all CHR ''-'' s))) (\<lambda>ns. collect_results (map day_of_number ns))"

record dated_range =
  dated_dates :: "int value_range"
  dated_days :: "day_of_week list"

definition dated_within :: "calendar \<Rightarrow> dated_range \<Rightarrow> int \<Rightarrow> bool" where
  "dated_within C dr timestamp \<longleftrightarrow>
     utc_min C \<le> timestamp \<and> timestamp \<le> utc_max C
   \<and> range_within (dated_dates dr) timestamp \<and> weekday_at C timestamp \<in> set (dated_days dr)"

section \<open>Layers\<close>

text \<open>A point that can be drawn: its position, its identifier, the keys of its kind and its entries.\<close>

record ('t, 'k, 'v) tile_item =
  item_point :: "'t \<Rightarrow> point"
  item_id :: "'t \<Rightarrow> 64 word"
  item_keys :: "'k list"
  key_name :: "'k \<Rightarrow> string"
  item_entries :: "'t \<Rightarrow> ('k \<times> 'v) list"

definition item_values :: "('t, 'k, 'v) tile_item \<Rightarrow> 't \<Rightarrow> 'v list" where
  "item_values I v = map snd (item_entries I v)"

definition default_item_id :: "(point \<Rightarrow> nat \<Rightarrow> (string, 'e) outcome) \<Rightarrow> point \<Rightarrow> 64 word" where
  "default_item_id encode p =
     (case encode p 8 of Ok hash \<Rightarrow> (case geohash_to_u64 hash of Some i \<Rightarrow> i | None \<Rightarrow> 0) | _ \<Rightarrow> 0)"

definition MVT_VERSION :: nat where
  "MVT_VERSION = 2"

record feature =
  feature_id :: "64 word"
  feature_tags :: "32 word list"
  feature_geometry :: "32 word list"

definition zig :: "32 word \<Rightarrow> 32 word" where
  "zig value = push_bit 1 value XOR drop_bit 31 value"

definition feature_of :: "('t, 'k, 'v) tile_item \<Rightarrow> nat \<Rightarrow> nat \<Rightarrow> 't \<Rightarrow> feature" where
  "feature_of I index zoom value =
     (let key_length = of_nat (length (item_keys I)) :: 32 word
      in case slippy_project (item_point I value) zoom of
           SlippyTile (_, px) (_, py) _ \<Rightarrow>
             \<lparr>feature_id = item_id I value,
              feature_tags = concat (map (\<lambda>i. [of_nat i, of_nat index * key_length + of_nat i]) [0..<unat key_length]),
              feature_geometry = [(1 AND 7) OR push_bit 3 1, zig (of_nat px), zig (of_nat py)]\<rparr>)"

record 'v layer =
  layer_name :: string
  layer_values :: "'v list"
  layer_features :: "feature list"
  layer_extent :: nat
  layer_version :: nat
  layer_keys :: "string list"

definition layer_of :: "('t, 'k, 'v) tile_item \<Rightarrow> 't list \<Rightarrow> nat \<Rightarrow> string \<Rightarrow> 'v layer" where
  "layer_of I value zoom name =
     \<lparr>layer_name = name, layer_values = concat (map (item_values I) value),
      layer_features = map (\<lambda>(index, v). feature_of I index zoom v) (enumerate 0 value),
      layer_extent = MVT_EXTENT, layer_version = MVT_VERSION, layer_keys = map (key_name I) (item_keys I)\<rparr>"

definition layer_of_clustered :: "('t, 'k, 'v) tile_item \<Rightarrow> ('t, 'pt, 'poly) clustered \<Rightarrow> nat \<Rightarrow> string \<Rightarrow> 'v layer" where
  "layer_of_clustered I c zoom name =
     \<lparr>layer_name = name, layer_values = concat (map (item_values I) (cluster_points c)),
      layer_features = map (\<lambda>(index, v). feature_of I index zoom v) (enumerate 0 (cluster_points c)),
      layer_extent = MVT_EXTENT, layer_version = MVT_VERSION, layer_keys = map (key_name I) (item_keys I)\<rparr>"

text \<open>A cluster drawn as one point. \<open>wkt\<close> prints the hull.\<close>

datatype clustered_key = NumberOfPoints | ConvexHull

datatype mvt_value = SintValue "64 word" | StringValue string

definition clustered_entries :: "('poly \<Rightarrow> string) \<Rightarrow> ('t, 'pt, 'poly) clustered \<Rightarrow> (clustered_key \<times> mvt_value) list" where
  "clustered_entries wkt c =
     [(NumberOfPoints, SintValue (of_nat (length (cluster_points c)))), (ConvexHull, StringValue (wkt (convex_hull c)))]"

section \<open>Queries\<close>

datatype tile_error =
    DataSourceError string | AttachRepository string | ProtoDecode | MissingEnvironment string | NoTilesFound
  | UnsupportedZoom "8 word" | NoMatchingRepository

definition status_code :: "tile_error \<Rightarrow> nat" where
  "status_code e = (case e of NoTilesFound \<Rightarrow> 204 | NoMatchingRepository \<Rightarrow> 404 | _ \<Rightarrow> 500)"

record ('t, 'f) table_query =
  q_parameters :: 't
  q_filter :: 'f

definition add_param :: "('t, 'f) table_query \<Rightarrow> 'k \<Rightarrow> ('t \<times> 'k, 'f) table_query" where
  "add_param q new_param = \<lparr>q_parameters = (q_parameters q, new_param), q_filter = q_filter q\<rparr>"

type_synonym row_key = "8 word list"

record row_range =
  start_key :: row_key
  end_key :: row_key

record 'f read_rows_request =
  table_name :: string
  app_profile_id :: string
  rows_limit :: nat
  row_filter :: "'f option"
  request_row_keys :: "row_key list"
  request_row_ranges :: "row_range list"
  reversed :: bool

definition read_rows_request :: "(row_range list \<times> string, 'f option) table_query \<Rightarrow> 'f read_rows_request" where
  "read_rows_request q =
     \<lparr>table_name = snd (q_parameters q), app_profile_id = ''default'', rows_limit = 0, row_filter = q_filter q,
      request_row_keys = [], request_row_ranges = fst (q_parameters q), reversed = False\<rparr>"

text \<open>A repository over a table client: rows are keys with their cells, \<open>Inl\<close> is the client's error.\<close>

type_synonym 'cell table_rows = "(row_key \<times> 'cell list) list"

definition repository_query ::
    "('f read_rows_request \<Rightarrow> string + 'cell table_rows) \<Rightarrow> string \<Rightarrow> (row_range list, 'f option) table_query
      \<Rightarrow> ('cell table_rows, tile_error) outcome" where
  "repository_query read_rows table req =
     (case read_rows (read_rows_request (add_param req table)) of Inr rows \<Rightarrow> Ok rows | Inl err \<Rightarrow> Err (DataSourceError err))"

type_synonym ('f, 'cell) repository = "(row_range list, 'f option) table_query \<Rightarrow> ('cell table_rows, tile_error) outcome"

definition attach :: "(string \<rightharpoonup> ('f, 'cell) repository) \<Rightarrow> ('f, 'cell) repository \<Rightarrow> string \<Rightarrow> string \<rightharpoonup> ('f, 'cell) repository" where
  "attach repos repo name = repos(name \<mapsto> repo)"

definition get_repository :: "(string \<rightharpoonup> ('f, 'cell) repository) \<Rightarrow> string \<Rightarrow> ('f, 'cell) repository option" where
  "get_repository repos name = repos name"

section \<open>The example service\<close>

record example =
  ex_a :: int
  ex_b :: int
  ex_longitude :: real
  ex_latitude :: real

datatype example_key = KeyA | KeyB

definition example_entries :: "example \<Rightarrow> (example_key \<times> int) list" where
  "example_entries e = [(KeyA, ex_a e), (KeyB, ex_b e)]"

definition example_item :: "(point \<Rightarrow> nat \<Rightarrow> (string, 'e) outcome) \<Rightarrow> (example, example_key, int) tile_item" where
  "example_item encode =
     \<lparr>item_point = (\<lambda>e. (ex_longitude e, ex_latitude e)),
      item_id = (\<lambda>e. default_item_id encode (ex_longitude e, ex_latitude e)), item_keys = [KeyA, KeyB],
      key_name = (\<lambda>k. case k of KeyA \<Rightarrow> ''KeyA'' | KeyB \<Rightarrow> ''KeyB''), item_entries = example_entries\<rparr>"

record example_params =
  ep_dates :: "dated_range list"
  filter_a :: "int value_range"
  filter_b :: "int value_range"

definition STORAGE_ZOOM :: "8 word" where "STORAGE_ZOOM = 19"

definition MIN_ZOOM :: "8 word" where "MIN_ZOOM = 16"

definition example_filter :: "example_params \<Rightarrow> example \<Rightarrow> bool" where
  "example_filter p item \<longleftrightarrow> range_within (filter_a p) (ex_a item) \<and> range_within (filter_b p) (ex_b item)"

text \<open>A number padded with zeros to a width.\<close>

definition show_padded :: "nat \<Rightarrow> nat \<Rightarrow> string" where
  "show_padded w n = replicate (w - length (show_nat n)) CHR ''0'' @ show_nat n"

definition format_key :: "calendar \<Rightarrow> int \<Rightarrow> 64 word \<Rightarrow> row_key" where
  "format_key C date hid = map of_char (show_padded 12 (unat hid) @ ''/'' @ ''ex'' @ ''/'' @ storage_format C date)"

definition example_batch ::
    "calendar \<Rightarrow> (32 word \<Rightarrow> 32 word \<Rightarrow> 8 word \<Rightarrow> 64 word) \<Rightarrow> (example_params \<times> 8 word, 8 word \<times> 32 word \<times> 32 word) table_query
      \<Rightarrow> row_range list" where
  "example_batch C xy2h q =
     (let params = fst (q_parameters q); (z, x, y) = q_filter q
      in concat (map (\<lambda>f. map (\<lambda>t. \<lparr>start_key = format_key C (from_value (dated_dates t)) (to_hilbert xy2h f),
             end_key = format_key C (to_value (dated_dates t)) (to_hilbert xy2h f)\<rparr>) (ep_dates params))
           (detail (fragment_new z x y) STORAGE_ZOOM)))"

definition example_query ::
    "('cell \<Rightarrow> example option) \<Rightarrow> (example, example_key, int) tile_item \<Rightarrow> (row_range list, 'f option) table_query
      \<Rightarrow> example_params \<times> 8 word \<Rightarrow> ('f, 'cell) repository \<Rightarrow> (int layer list, tile_error) outcome" where
  "example_query decode I input p connection =
     and_then (connection input) (\<lambda>rows.
       if length rows = 0 then Err NoTilesFound
       else
         let points = filter (example_filter (fst p)) (List.map_filter decode (concat (map snd rows)))
         in Ok [layer_of I points (unat (snd p)) ''example_layer''])"

definition example_tile ::
    "calendar \<Rightarrow> (32 word \<Rightarrow> 32 word \<Rightarrow> 8 word \<Rightarrow> 64 word) \<Rightarrow> ('cell \<Rightarrow> example option) \<Rightarrow> (example, example_key, int) tile_item
      \<Rightarrow> (string \<rightharpoonup> ('f, 'cell) repository) \<Rightarrow> 8 word \<times> 32 word \<times> 32 word \<Rightarrow> example_params
      \<Rightarrow> (int layer list, tile_error) outcome" where
  "example_tile C xy2h decode I state zxy params =
     (let (z, x, y) = zxy
      in if z < MIN_ZOOM \<or> z > STORAGE_ZOOM then Err (UnsupportedZoom z)
         else
           let rows = example_batch C xy2h \<lparr>q_parameters = (params, z), q_filter = (z, x, y)\<rparr>
           in case get_repository state ''big_table'' of
                None \<Rightarrow> Err NoMatchingRepository
              | Some repo \<Rightarrow> example_query decode I \<lparr>q_parameters = rows, q_filter = None\<rparr> (params, z) repo)"

end
