(* ===== verification/Tile_Laws.thy ===== *)
theory Tile_Laws
  imports Tile_Queries "HOL-Library.List_Lexorder"
begin

text \<open>
  What a tile request reads: the detail of a fragment is every tile of the storage zoom below it, once;
  the row ranges of a request hold the keys of exactly the rows below the tile on the days asked for;
  and the tags of a feature point at its own entries. The property composes them over a table that
  answers a request with the rows in its ranges.
\<close>

section \<open>Fragments\<close>

text \<open>A fragment as three natural numbers.\<close>

definition coords :: "fragment \<Rightarrow> nat \<times> nat \<times> nat" where
  "coords f = (unat (frag_x f), unat (frag_y f), unat (frag_zoom f))"

lemma coords_inj: "coords f = coords g \<Longrightarrow> f = g"
  by (cases f; cases g) (simp add: coords_def word_unat_eq_iff)

definition proper :: "nat \<times> nat \<times> nat \<Rightarrow> bool" where
  "proper t \<longleftrightarrow> (case t of (x, y, z) \<Rightarrow> z \<le> 24 \<and> x < 2 ^ z \<and> y < 2 ^ z)"

text \<open>The tiles of a zoom below a tile.\<close>

definition below :: "nat \<Rightarrow> nat \<times> nat \<times> nat \<Rightarrow> (nat \<times> nat \<times> nat) set" where
  "below z t = (case t of (x, y, n) \<Rightarrow> if n \<le> z then (\<lambda>(i, j). (x * 2 ^ (z - n) + i, y * 2 ^ (z - n) + j, z)) ` ({..<2 ^ (z - n)} \<times> {..<2 ^ (z - n)}) else {})"

definition parts :: "nat \<times> nat \<times> nat \<Rightarrow> (nat \<times> nat \<times> nat) list" where
  "parts t = (case t of (x, y, n) \<Rightarrow> [(2 * x, 2 * y, n + 1), (2 * x + 1, 2 * y, n + 1), (2 * x, 2 * y + 1, n + 1), (2 * x + 1, 2 * y + 1, n + 1)])"

lemma double_word: "unat (x :: 32 word) < 2 ^ 24 \<Longrightarrow> unat (2 * x) = 2 * unat x \<and> unat (2 * x + 1) = 2 * unat x + 1"
  by (simp add: unat_word_ariths)

lemma segment_parts:
  assumes "proper (coords t)" "frag_zoom t \<noteq> 24"
  shows "\<exists>ts. segment t = Some ts \<and> map coords ts = parts (coords t)"
proof -
  have z: "unat (frag_zoom t) < 24" using assms by (simp add: proper_def coords_def word_unat_eq_iff)
  have "(2 :: nat) ^ unat (frag_zoom t) \<le> 2 ^ 24" using z by (intro power_increasing) simp_all
  then have "unat (frag_zoom t + 1) = unat (frag_zoom t) + 1" "unat (frag_x t) < 2 ^ 24" "unat (frag_y t) < 2 ^ 24"
    using z assms(1) by (simp_all add: proper_def coords_def unat_word_ariths)
  then show ?thesis using assms(2) double_word [of "frag_x t"] double_word [of "frag_y t"]
    by (simp add: segment_def coords_def parts_def)
qed

lemma below_iff: "(X, Y, Z) \<in> below z (x, y, n) \<longleftrightarrow> Z = z \<and> n \<le> z \<and> X div 2 ^ (z - n) = x \<and> Y div 2 ^ (z - n) = y"
proof -
  have "X div k = x \<longleftrightarrow> (\<exists>i < k. X = x * k + i)" if "0 < k" for X k x :: nat
    using that by (auto intro: exI [of _ "X mod k"] simp: div_mult_mod_eq)
  then show ?thesis by (auto simp: below_def image_iff)
qed

lemma below_self: "below z (x, y, z) = {(x, y, z)}"
  by (simp add: below_def lessThan_Suc)

lemma below_parts: "n < z \<Longrightarrow> below z (x, y, n) = (\<Union>c \<in> set (parts (x, y, n)). below z c)"
proof -
  assume "n < z"
  then obtain k where k: "z - n = Suc k" "z - Suc n = k" by (metis Suc_diff_Suc)
  have half: "X div 2 ^ Suc k = x \<longleftrightarrow> X div 2 ^ k = 2 * x \<or> X div 2 ^ k = 2 * x + 1" for X x :: nat
  proof -
    have "X div 2 ^ Suc k = X div 2 ^ k div 2" by (metis div_mult2_eq power_Suc2)
    then show ?thesis by auto
  qed
  show ?thesis using \<open>n < z\<close>
    by (auto simp: parts_def below_iff k half simp del: power_Suc)
qed

lemma below_card: "n \<le> z \<Longrightarrow> card (below z (x, y, n)) = 4 ^ (z - n)"
proof -
  assume "n \<le> z"
  moreover have "inj_on (\<lambda>(i, j). (x * 2 ^ (z - n) + i, y * 2 ^ (z - n) + j, z)) A" for A :: "(nat \<times> nat) set"
    by (auto simp: inj_on_def)
  ultimately show ?thesis by (simp add: below_def card_image card_cartesian_product flip: power_mult_distrib)
qed

lemma below_beyond: "z < n \<Longrightarrow> below z (x, y, n) = {}"
  by (simp add: below_def)

lemma parts_proper: "proper (x, y, n) \<Longrightarrow> n \<noteq> 24 \<Longrightarrow> c \<in> set (parts (x, y, n)) \<Longrightarrow> proper c"
  by (auto simp: proper_def parts_def)

lemma parts_below:
  assumes "z \<noteq> snd (snd t)"
  shows "below z t = (\<Union>c \<in> set (parts t). below z c)" "card (below z t) = sum_list (map (\<lambda>c. card (below z c)) (parts t))"
proof -
  obtain x y n where t: "t = (x, y, n)" by (cases t) auto
  consider "n < z" | "z < n" using assms t by fastforce
  then show "below z t = (\<Union>c \<in> set (parts t). below z c)"
    by cases (simp_all add: t below_parts below_beyond parts_def)
  consider k where "z - n = Suc k" "z - Suc n = k" "n < z" | "z < n" using assms t by (metis Suc_diff_Suc linorder_neqE_nat snd_conv)
  then show "card (below z t) = sum_list (map (\<lambda>c. card (below z c)) (parts t))"
    by cases (simp_all add: t parts_def below_card below_beyond)
qed

lemma detail_loop_Nil: "detail_loop z tiles [] = tiles"
  by (subst detail_loop.simps) simp

lemma detail_loop_snoc:
  "detail_loop z tiles (rest @ [tile]) =
     (if frag_zoom tile = z then detail_loop z (tiles @ [tile]) rest
      else case segment tile of Some ts \<Rightarrow> detail_loop z tiles (rest @ ts) | None \<Rightarrow> detail_loop z tiles rest)"
  by (subst detail_loop.simps) (simp add: Let_def split: option.split)

text \<open>What the loop will have found: the tiles below those on the stack.\<close>

definition pending :: "nat \<Rightarrow> fragment list \<Rightarrow> (nat \<times> nat \<times> nat) set" where
  "pending z ts = (\<Union>t \<in> set ts. below z (coords t))"

definition pending_count :: "nat \<Rightarrow> fragment list \<Rightarrow> nat" where
  "pending_count z ts = sum_list (map (\<lambda>t. card (below z (coords t))) ts)"

lemma pending_append [simp]:
  "pending z (as @ bs) = pending z as \<union> pending z bs" "pending_count z (as @ bs) = pending_count z as + pending_count z bs"
  by (simp_all add: pending_def pending_count_def)

lemma pending_Nil [simp]: "pending z [] = {}" "pending_count z [] = 0"
  by (simp_all add: pending_def pending_count_def)

lemma pending_one: "pending z [t] = below z (coords t)" "pending_count z [t] = card (below z (coords t))"
  by (simp_all add: pending_def pending_count_def)

lemma pending_parts:
  assumes "map coords ts = parts (coords t)" "z \<noteq> unat (frag_zoom t)"
  shows "pending z ts = pending z [t]" "pending_count z ts = pending_count z [t]"
proof -
  have nz: "z \<noteq> snd (snd (coords t))" using assms(2) by (simp add: coords_def)
  have "pending z ts = (\<Union>c \<in> set (map coords ts). below z c)" by (simp add: pending_def)
  then show "pending z ts = pending z [t]" using parts_below(1) [OF nz] by (simp only: assms(1) pending_one)
  have "pending_count z ts = sum_list (map (\<lambda>c. card (below z c)) (map coords ts))" by (simp add: pending_count_def comp_def)
  then show "pending_count z ts = pending_count z [t]" using parts_below(2) [OF nz] by (simp only: assms(1) pending_one)
qed

lemma detail_loop_spec:
  assumes "z \<le> 24" "\<forall>t \<in> set stack. proper (coords t)"
  shows "coords ` set (detail_loop z tiles stack) = coords ` set tiles \<union> pending (unat z) stack
    \<and> length (detail_loop z tiles stack) = length tiles + pending_count (unat z) stack"
  using assms
proof (induction z tiles stack rule: detail_loop.induct)
  case (1 z tiles stack)
  show ?case
  proof (cases stack rule: rev_cases)
    case Nil
    then show ?thesis by (simp add: detail_loop_Nil)
  next
    case (snoc rest tile)
    note stack = snoc
    have args: "stack \<noteq> []" "tile = last stack" "rest = butlast stack" by (simp_all add: stack)
    have p: "proper (coords tile)" "\<forall>t \<in> set rest. proper (coords t)" using 1(5) stack by simp_all
    show ?thesis
    proof (cases "frag_zoom tile = z")
      case True
      then have "pending (unat z) [tile] = {coords tile}" "pending_count (unat z) [tile] = 1"
        unfolding pending_one by (simp_all add: coords_def below_self)
      then show ?thesis using 1(1) [OF args True 1(4) p(2)] True
        unfolding stack detail_loop_snoc pending_append by simp
    next
      case False
      then have nz: "unat z \<noteq> unat (frag_zoom tile)" by (simp add: word_unat_eq_iff)
      show ?thesis
      proof (cases "frag_zoom tile = 24")
        case True
        then have "unat z < unat (frag_zoom tile)" using 1(4) nz by (simp add: word_le_nat_alt)
        then have "pending (unat z) [tile] = {}" "pending_count (unat z) [tile] = 0"
          unfolding pending_one by (simp_all add: coords_def below_beyond)
        moreover have none: "segment tile = None" using True by (simp add: segment_def)
        ultimately show ?thesis using 1(2) [OF args False none 1(4) p(2)] False none
          unfolding stack detail_loop_snoc pending_append by simp
      next
        case not24: False
        then obtain ts where ts: "segment tile = Some ts" "map coords ts = parts (coords tile)" using segment_parts p(1) by blast
        have "proper c" if "c \<in> set (map coords ts)" for c
          using that parts_proper p(1) not24 unfolding ts(2) by (cases "coords tile") (auto simp: coords_def word_unat_eq_iff)
        then have "\<forall>t \<in> set (rest @ ts). proper (coords t)" using p(2) by (metis Un_iff image_eqI list.set_map set_append)
        note ih = 1(3) [OF args False ts(1) 1(4) this]
        show ?thesis using ih False ts(1) pending_parts [OF ts(2) nz]
          unfolding stack detail_loop_snoc pending_append by simp
      qed
    qed
  qed
qed

lemma detail_spec:
  assumes "z \<le> 24" "proper (coords f)"
  shows "coords ` set (detail f z) = below (unat z) (coords f)" "distinct (detail f z)"
proof -
  have d: "coords ` set (detail f z) = below (unat z) (coords f) \<and> length (detail f z) = card (below (unat z) (coords f))"
    using detail_loop_spec [of z "[f]" "[]"] assms by (simp add: detail_def pending_one)
  then show "coords ` set (detail f z) = below (unat z) (coords f)" ..
  have "card (set (map coords (detail f z))) = length (map coords (detail f z))" using d by simp
  then show "distinct (detail f z)" using card_distinct distinct_map by blast
qed

text \<open>A fragment deeper than the zoom asked for has no detail, after all its parts down to zoom 24 were visited.\<close>

lemma detail_of_deeper: "z \<le> 24 \<Longrightarrow> proper (coords f) \<Longrightarrow> z < frag_zoom f \<Longrightarrow> detail f z = []"
  using detail_spec(1) [of z f] by (simp add: coords_def below_beyond word_less_nat_alt)

section \<open>Row keys\<close>

lemma append_le_iff:
  "length as = length bs \<Longrightarrow> as @ us \<le> bs @ vs \<longleftrightarrow> as < bs \<or> as = bs \<and> us \<le> (vs :: 'a::linorder list)"
  by (induction as bs rule: list_induct2) auto

lemma between_same_prefix:
  assumes "length p = length q"
  shows "q @ us \<le> p @ vs \<and> p @ vs \<le> q @ ws \<longleftrightarrow> p = q \<and> us \<le> vs \<and> vs \<le> (ws :: 'a::linorder list)"
  using append_le_iff [of q p us vs] append_le_iff [of p q vs ws] assms by auto

lemma digits_value_zeros: "digits_value 0 (replicate k CHR ''0'' @ s) = digits_value 0 s"
  by (induction k) (simp_all add: digit_value_def)

lemma show_nat_length: "n < 10 ^ Suc k \<Longrightarrow> length (show_nat n) \<le> Suc k"
proof (induction k arbitrary: n)
  case 0
  then show ?case by (subst show_nat.simps) simp
next
  case (Suc k)
  then show ?case by (subst show_nat.simps) (auto simp: div_less_iff_less_mult mult.commute)
qed

lemma show_padded_length: "n < 10 ^ 12 \<Longrightarrow> length (show_padded 12 n) = 12"
  using show_nat_length [of n 11] by (simp add: show_padded_def)

lemma show_padded_inj: "show_padded 12 m = show_padded 12 n \<Longrightarrow> m < 10 ^ 12 \<Longrightarrow> n < 10 ^ 12 \<Longrightarrow> m = n"
proof -
  assume eq: "show_padded 12 m = show_padded 12 n" and less: "m < 10 ^ 12" "n < 10 ^ 12"
  have small: "x < 2 ^ 64" if "x < 10 ^ 12" for x :: nat using that by (rule order.strict_trans) simp
  have val: "digits_value 0 (show_padded 12 x) = Some x" if "x < 10 ^ 12" for x
    unfolding show_padded_def digits_value_zeros using small [OF that] by (rule digits_value_show)
  show ?thesis using val [OF less(1)] val [OF less(2)] unfolding eq by (metis option.inject)
qed

lemma bytes_inj: "map of_char s = (map of_char t :: 8 word list) \<Longrightarrow> s = t"
proof -
  have "inj (of_char :: char \<Rightarrow> 8 word)"
  proof (rule injI)
    fix c d :: char
    assume "of_char c = (of_char d :: 8 word)"
    then have "(of_nat (of_char c) :: 8 word) = of_nat (of_char d)" by (simp add: of_nat_of_char)
    then have "(of_char c :: nat) mod 256 = of_char d mod 256" by (simp add: word_of_nat_eq_iff take_bit_eq_mod)
    then have "(of_char c :: nat) = of_char d" by simp
    then show "c = d" by simp
  qed
  then show "map of_char s = (map of_char t :: 8 word list) \<Longrightarrow> s = t" by (simp add: inj_map_eq_map)
qed

text \<open>The storage format orders the days of a span of time; \<open>yymmdd\<close> does within a century.\<close>

definition format_ordered :: "calendar \<Rightarrow> int \<Rightarrow> int \<Rightarrow> bool" where
  "format_ordered C lo hi \<longleftrightarrow>
     (\<forall>a b. lo \<le> a \<longrightarrow> a \<le> hi \<longrightarrow> lo \<le> b \<longrightarrow> b \<le> hi \<longrightarrow>
        ((map of_char (storage_format C a) :: 8 word list) \<le> map of_char (storage_format C b) \<longleftrightarrow> a div 86400 \<le> b div 86400))"

lemma key_between:
  assumes "unat h < 10 ^ 12" "unat h' < 10 ^ 12" "format_ordered C lo hi" "{a, d, b} \<subseteq> {lo..hi}"
  shows "format_key C a h' \<le> format_key C d h \<and> format_key C d h \<le> format_key C b h'
    \<longleftrightarrow> h = h' \<and> a div 86400 \<le> d div 86400 \<and> d div 86400 \<le> b div 86400"
proof -
  define pre where "pre = (\<lambda>h :: 64 word. map of_char (show_padded 12 (unat h) @ ''/ex/'') :: 8 word list)"
  have key: "format_key C e g = pre g @ map of_char (storage_format C e)" for e g
    by (simp add: format_key_def pre_def)
  have len: "length (pre h) = length (pre h')" using assms(1,2) by (simp add: pre_def show_padded_length)
  have inj: "pre h = pre h' \<longleftrightarrow> h = h'"
  proof
    assume "pre h = pre h'"
    then have "show_padded 12 (unat h) = show_padded 12 (unat h')" unfolding pre_def by (metis bytes_inj append_same_eq)
    then show "h = h'" using show_padded_inj assms(1,2) by (simp add: word_unat_eq_iff)
  qed simp
  show ?thesis unfolding key between_same_prefix [OF len] inj using assms(3,4) by (auto simp: format_ordered_def)
qed

section \<open>The plan of a request\<close>

text \<open>The Hilbert curve numbers the tiles of the storage zoom.\<close>

definition curve_ok :: "(32 word \<Rightarrow> 32 word \<Rightarrow> 8 word \<Rightarrow> 64 word) \<Rightarrow> bool" where
  "curve_ok xy2h \<longleftrightarrow>
     (\<forall>a b. unat a < 2 ^ 19 \<longrightarrow> unat b < 2 ^ 19 \<longrightarrow> unat (xy2h a b 19) < 2 ^ 38)
   \<and> (\<forall>a b c d. unat a < 2 ^ 19 \<longrightarrow> unat b < 2 ^ 19 \<longrightarrow> unat c < 2 ^ 19 \<longrightarrow> unat d < 2 ^ 19 \<longrightarrow>
        xy2h a b 19 = xy2h c d 19 \<longrightarrow> a = c \<and> b = d)"

definition under :: "8 word \<times> 32 word \<times> 32 word \<Rightarrow> 32 word \<times> 32 word \<Rightarrow> bool" where
  "under t s \<longleftrightarrow>
     (case t of (z, x, y) \<Rightarrow> unat (fst s) div 2 ^ (19 - unat z) = unat x \<and> unat (snd s) div 2 ^ (19 - unat z) = unat y)"

text \<open>
  The days a request asks for: those whose midnight one of its dated ranges contains. A request for whole days
  names at least one range, and each runs from the midnight of one day to that of the same or a later
  day, both included, on every day of the week.
\<close>

definition on_days :: "calendar \<Rightarrow> dated_range list \<Rightarrow> int \<Rightarrow> bool" where
  "on_days C rs d \<longleftrightarrow> (\<exists>t \<in> set rs. dated_within C t (d div 86400 * 86400))"

definition whole_days :: "calendar \<Rightarrow> dated_range \<Rightarrow> bool" where
  "whole_days C t \<longleftrightarrow>
     (let r = dated_dates t
      in range_variant r = Inclusive \<and> set (dated_days t) = UNIV \<and> utc_min C \<le> from_value r \<and> from_value r \<le> to_value r
       \<and> to_value r \<le> utc_max C \<and> 86400 dvd from_value r \<and> 86400 dvd to_value r)"

definition asks_whole_days :: "calendar \<Rightarrow> dated_range list \<Rightarrow> bool" where
  "asks_whole_days C rs \<longleftrightarrow> rs \<noteq> [] \<and> (\<forall>t \<in> set rs. whole_days C t)"

lemma whole_days_within:
  assumes "whole_days C t"
  shows "dated_within C t (d div 86400 * 86400)
    \<longleftrightarrow> from_value (dated_dates t) div 86400 \<le> d div 86400 \<and> d div 86400 \<le> to_value (dated_dates t) div 86400"
proof -
  obtain a b where a: "from_value (dated_dates t) = 86400 * a" "to_value (dated_dates t) = 86400 * b"
    using assms by (auto simp: whole_days_def Let_def dvd_def)
  then show ?thesis using assms by (auto simp: whole_days_def dated_within_def range_within_def Let_def)
qed

definition dates_inside :: "int \<Rightarrow> int \<Rightarrow> dated_range list \<Rightarrow> bool" where
  "dates_inside lo hi rs \<longleftrightarrow> (\<forall>t \<in> set rs. {from_value (dated_dates t), to_value (dated_dates t)} \<subseteq> {lo..hi})"

lemma storage_detail:
  assumes "z \<le> 19" "unat x < 2 ^ unat z" "unat y < 2 ^ unat z"
  shows "f \<in> set (detail (fragment_new z x y) 19) \<longleftrightarrow> frag_zoom f = 19 \<and> under (z, x, y) (frag_x f, frag_y f)"
proof -
  let ?t = "fragment_new z x y"
  have t: "coords ?t = (unat x, unat y, unat z)" by (simp add: coords_def fragment_new_def)
  have z: "unat z \<le> 19" using assms(1) by (simp add: word_le_nat_alt)
  then have "proper (coords ?t)" using assms(2,3) by (simp add: t proper_def)
  then have "coords ` set (detail ?t 19) = below 19 (unat x, unat y, unat z)" using detail_spec(1) [of 19 ?t] by (simp add: t)
  moreover have "f \<in> set (detail ?t 19) \<longleftrightarrow> coords f \<in> coords ` set (detail ?t 19)" using coords_inj by blast
  moreover have "frag_zoom f = 19 \<longleftrightarrow> unat (frag_zoom f) = 19" by (simp add: word_unat_eq_iff)
  ultimately show ?thesis using z by (simp add: below_iff under_def) (simp add: coords_def below_iff)
qed

lemma plan_exact:
  assumes "z \<le> 19" "unat x < 2 ^ unat z" "unat y < 2 ^ unat z" "curve_ok xy2h" "format_ordered C lo hi"
    and dates: "dates_inside lo hi (ep_dates p)" and "lo \<le> d" "d \<le> hi" and s: "unat sx < 2 ^ 19" "unat sy < 2 ^ 19"
    and asks: "asks_whole_days C (ep_dates p)"
  defines "K \<equiv> format_key C d (xy2h sx sy 19)"
  shows "(\<exists>r \<in> set (example_batch C xy2h \<lparr>q_parameters = (p, z'), q_filter = (z, x, y)\<rparr>). start_key r \<le> K \<and> K \<le> end_key r)
    \<longleftrightarrow> under (z, x, y) (sx, sy) \<and> on_days C (ep_dates p) d"
proof -
  let ?D = "set (detail (fragment_new z x y) 19)"
  note detail3 = storage_detail [OF assms(1-3)]
  have z: "unat z \<le> 19" using assms(1) by (simp add: word_le_nat_alt)
  have small: "unat (frag_x f) < 2 ^ 19 \<and> unat (frag_y f) < 2 ^ 19 \<and> frag_zoom f = 19" if "f \<in> ?D" for f
  proof -
    have "a < 2 ^ 19" if "a div 2 ^ (19 - unat z) = b" "b < 2 ^ unat z" for a b :: nat
    proof -
      have "(2 :: nat) ^ 19 = 2 ^ unat z * 2 ^ (19 - unat z)" using z by (simp flip: power_add)
      then show ?thesis using that by (metis div_less_iff_less_mult zero_less_numeral zero_less_power)
    qed
    then show ?thesis using \<open>f \<in> ?D\<close> assms(2,3) unfolding detail3 under_def by auto
  qed
  have key: "format_key C a (to_hilbert xy2h f) \<le> K \<and> K \<le> format_key C b (to_hilbert xy2h f)
      \<longleftrightarrow> (sx, sy) = (frag_x f, frag_y f) \<and> a div 86400 \<le> d div 86400 \<and> d div 86400 \<le> b div 86400"
    if f: "f \<in> ?D" and ab: "{a, b} \<subseteq> {lo..hi}" for f a b
  proof -
    have h: "to_hilbert xy2h f = xy2h (frag_x f) (frag_y f) 19" using small [OF f] by (simp add: to_hilbert_def)
    have "unat (xy2h sx sy 19) < 10 ^ 12" "unat (to_hilbert xy2h f) < 10 ^ 12"
      using assms(4) s small [OF f] unfolding curve_ok_def h by (simp_all add: order.strict_trans [where b = "2 ^ 38"])
    then have "format_key C a (to_hilbert xy2h f) \<le> K \<and> K \<le> format_key C b (to_hilbert xy2h f)
      \<longleftrightarrow> xy2h sx sy 19 = to_hilbert xy2h f \<and> a div 86400 \<le> d div 86400 \<and> d div 86400 \<le> b div 86400"
      unfolding K_def using assms(5,7,8) ab by (intro key_between [of _ _ C lo hi]) simp_all
    moreover have "xy2h sx sy 19 = to_hilbert xy2h f \<longleftrightarrow> (sx, sy) = (frag_x f, frag_y f)"
      using assms(4) s small [OF f] unfolding curve_ok_def h by blast
    ultimately show ?thesis by simp
  qed
  have "(\<exists>r \<in> set (example_batch C xy2h \<lparr>q_parameters = (p, z'), q_filter = (z, x, y)\<rparr>). start_key r \<le> K \<and> K \<le> end_key r)
    \<longleftrightarrow> (\<exists>f \<in> ?D. \<exists>t \<in> set (ep_dates p). format_key C (from_value (dated_dates t)) (to_hilbert xy2h f) \<le> K
          \<and> K \<le> format_key C (to_value (dated_dates t)) (to_hilbert xy2h f))"
    by (auto simp: example_batch_def STORAGE_ZOOM_def)
  also have "\<dots> \<longleftrightarrow> (\<exists>f \<in> ?D. (sx, sy) = (frag_x f, frag_y f) \<and> on_days C (ep_dates p) d)"
  proof -
    have "on_days C (ep_dates p) d \<longleftrightarrow> (\<exists>t \<in> set (ep_dates p).
        from_value (dated_dates t) div 86400 \<le> d div 86400 \<and> d div 86400 \<le> to_value (dated_dates t) div 86400)"
      using asks unfolding on_days_def asks_whole_days_def by (intro bex_cong refl whole_days_within) blast
    then show ?thesis using key dates unfolding dates_inside_def by meson
  qed
  also have "\<dots> \<longleftrightarrow> under (z, x, y) (sx, sy) \<and> on_days C (ep_dates p) d"
    by (auto simp: Bex_def detail3 intro!: exI [of _ "\<lparr>frag_x = sx, frag_y = sy, frag_zoom = 19\<rparr>"])
  finally show ?thesis .
qed

text \<open>The plan names at least one range of rows, and its ranges are not inverted.\<close>

lemma plan_ranges:
  fixes xy2h :: "32 word \<Rightarrow> 32 word \<Rightarrow> 8 word \<Rightarrow> 64 word" and z' :: "8 word"
  assumes "z \<le> 19" "unat x < 2 ^ unat z" "unat y < 2 ^ unat z" "format_ordered C lo hi" "dates_inside lo hi (ep_dates p)"
    and asks: "asks_whole_days C (ep_dates p)"
  defines "plan \<equiv> example_batch C xy2h \<lparr>q_parameters = (p, z'), q_filter = (z, x, y)\<rparr>"
  shows "plan \<noteq> []" "\<forall>r \<in> set plan. start_key r \<le> end_key r"
proof -
  let ?D = "detail (fragment_new z x y) 19"
  have t: "coords (fragment_new z x y) = (unat x, unat y, unat z)" by (simp add: coords_def fragment_new_def)
  have z: "unat z \<le> 19" using assms(1) by (simp add: word_le_nat_alt)
  then have "proper (coords (fragment_new z x y))" using assms(2,3) by (simp add: t proper_def)
  then have "coords ` set ?D = below 19 (unat x, unat y, unat z)" using detail_spec(1) [of 19 "fragment_new z x y"] by (simp add: t)
  moreover have "below 19 (unat x, unat y, unat z) \<noteq> {}" using below_card [OF z, of "unat x" "unat y"] by (metis card.empty power_eq_0_iff zero_neq_numeral)
  ultimately have "?D \<noteq> []" by auto
  moreover have "ep_dates p \<noteq> []" using asks by (simp add: asks_whole_days_def)
  ultimately show "plan \<noteq> []" by (simp add: plan_def example_batch_def STORAGE_ZOOM_def split: list.split)
  have "format_key C (from_value (dated_dates t)) h \<le> format_key C (to_value (dated_dates t)) h" if "t \<in> set (ep_dates p)" for t h
  proof -
    have le: "from_value (dated_dates t) \<le> to_value (dated_dates t)" using asks that by (auto simp: asks_whole_days_def whole_days_def Let_def)
    have "{from_value (dated_dates t), to_value (dated_dates t)} \<subseteq> {lo..hi}" using assms(5) that by (auto simp: dates_inside_def)
    then have "(map of_char (storage_format C (from_value (dated_dates t))) :: 8 word list) \<le> map of_char (storage_format C (to_value (dated_dates t)))"
      using assms(4) zdiv_mono1 [OF le, of 86400] by (simp add: format_ordered_def)
    then show ?thesis by (simp add: format_key_def append_le_iff)
  qed
  then show "\<forall>r \<in> set plan. start_key r \<le> end_key r" by (auto simp: plan_def example_batch_def)
qed

section \<open>Requests\<close>

text \<open>
  What the table service documents of a plain request: with at least one range of rows, none of them inverted,
  it answers with its rows in the ranges, in its order. (Without any range it reads the whole table, and
  it refuses an inverted one.)
\<close>

definition reads_ranges :: "('f read_rows_request \<Rightarrow> string + 'cell table_rows) \<Rightarrow> 'cell table_rows \<Rightarrow> bool" where
  "reads_ranges read_rows rows \<longleftrightarrow>
     (\<forall>req. row_filter req = None \<longrightarrow> request_row_keys req = [] \<longrightarrow> rows_limit req = 0 \<longrightarrow> \<not> reversed req \<longrightarrow>
        request_row_ranges req \<noteq> [] \<longrightarrow> (\<forall>r \<in> set (request_row_ranges req). start_key r \<le> end_key r) \<longrightarrow>
        read_rows req = Inr (filter (\<lambda>(k, _). \<exists>r \<in> set (request_row_ranges req). start_key r \<le> k \<and> k \<le> end_key r) rows))"

text \<open>A stored row: its tile at the storage zoom, its instant and its cells.\<close>

type_synonym 'cell stored_row = "((32 word \<times> 32 word) \<times> int) \<times> 'cell list"

definition row_of :: "calendar \<Rightarrow> (32 word \<Rightarrow> 32 word \<Rightarrow> 8 word \<Rightarrow> 64 word) \<Rightarrow> 'cell stored_row \<Rightarrow> row_key \<times> 'cell list" where
  "row_of C xy2h r = (case r of ((s, d), cells) \<Rightarrow> (format_key C d (xy2h (fst s) (snd s) 19), cells))"

definition rows_inside :: "int \<Rightarrow> int \<Rightarrow> 'cell stored_row list \<Rightarrow> bool" where
  "rows_inside lo hi rs \<longleftrightarrow> (\<forall>((s, d), cells) \<in> set rs. unat (fst s) < 2 ^ 19 \<and> unat (snd s) < 2 ^ 19 \<and> lo \<le> d \<and> d \<le> hi)"

definition asked_rows :: "calendar \<Rightarrow> 8 word \<times> 32 word \<times> 32 word \<Rightarrow> example_params \<Rightarrow> 'cell stored_row list \<Rightarrow> 'cell stored_row list" where
  "asked_rows C t p = filter (\<lambda>((s, d), cells). under t s \<and> on_days C (ep_dates p) d)"

lemma snd_row_of: "snd (row_of C xy2h r) = snd r"
  by (simp add: row_of_def split: prod.split)

text \<open>
  (C38) The example tile service, from the request to the layer, for requests for whole days: at least one
  date range, each with both its end days and every day of the week. A zoom outside 16 to 19 is refused. Over
  a table whose rows are keyed by storage tile and day, a request for a tile reads exactly the rows of
  the storage tiles under it on the days its dated ranges contain: with no such row there is no tile, and
  otherwise the layer shows the decodable cells of these rows that pass the value filters, in the
  order of the table.
\<close>

theorem tile_serves_exact_rows:
  assumes "curve_ok xy2h" "format_ordered C lo hi" "dates_inside lo hi (ep_dates p)" "rows_inside lo hi stored"
    and "reads_ranges read_rows (map (row_of C xy2h) (stored :: 'b stored_row list))" and "unat x < 2 ^ unat z" "unat y < 2 ^ unat z"
    and asks: "asks_whole_days C (ep_dates p)"
  shows "example_tile C xy2h decode I (attach Map.empty (repository_query read_rows table) ''big_table'') (z, x, y) p =
    (if z < 16 \<or> z > 19 then Err (UnsupportedZoom z)
     else if asked_rows C (z, x, y) p stored = [] then Err NoTilesFound
     else Ok [layer_of I (filter (example_filter p) (List.map_filter decode (concat (map snd (asked_rows C (z, x, y) p stored)))))
           (unat z) ''example_layer''])"
proof (cases "z < 16 \<or> z > 19")
  case False
  define plan where "plan = example_batch C xy2h \<lparr>q_parameters = (p, z), q_filter = (z, x, y)\<rparr>"
  define hits where "hits = asked_rows C (z, x, y) p stored"
  have z: "z \<le> 19" using False by (simp add: not_less)
  have "(\<lambda>(k, _). \<exists>r \<in> set plan. start_key r \<le> k \<and> k \<le> end_key r) (row_of C xy2h r)
      \<longleftrightarrow> (\<lambda>((s, d), cells). under (z, x, y) s \<and> on_days C (ep_dates p) d) r" if "r \<in> set stored" for r
  proof -
    obtain sx sy d cells where r: "r = (((sx, sy), d), cells)" by (metis surj_pair)
    have "unat sx < 2 ^ 19" "unat sy < 2 ^ 19" "lo \<le> d" "d \<le> hi" using assms(4) that by (auto simp: rows_inside_def r)
    then show ?thesis using plan_exact [OF z assms(6,7,1-3) _ _ _ _ asks] by (simp add: r row_of_def plan_def)
  qed
  then have "filter (\<lambda>(k, _). \<exists>r \<in> set plan. start_key r \<le> k \<and> k \<le> end_key r) (map (row_of C xy2h) stored) = map (row_of C xy2h) hits"
    unfolding filter_map hits_def asked_rows_def comp_def by (intro arg_cong [where f = "map (row_of C xy2h)"] filter_cong) simp_all
  then have "repository_query read_rows table \<lparr>q_parameters = plan, q_filter = None\<rparr> = Ok (map (row_of C xy2h) hits)"
    using assms(5) plan_ranges [OF z assms(6,7,2,3) asks, of xy2h z]
    by (simp add: repository_query_def read_rows_request_def add_param_def reads_ranges_def flip: plan_def)
  moreover have "snd \<circ> row_of C xy2h = (snd :: 'b stored_row \<Rightarrow> 'b list)" by (simp add: fun_eq_iff snd_row_of)
  ultimately show ?thesis using False
    by (simp add: example_tile_def MIN_ZOOM_def STORAGE_ZOOM_def attach_def get_repository_def example_query_def
        flip: plan_def hits_def)
qed (simp add: example_tile_def MIN_ZOOM_def STORAGE_ZOOM_def)

text \<open>One row at the tile asked for, and one beside it.\<close>

definition digit_days :: calendar where
  "digit_days = \<lparr>utc_min = 0, utc_max = 863999, weekday_at = (\<lambda>d. Mon), storage_format = (\<lambda>d. [digit_char (nat (d div 86400))]),
     request_date = (\<lambda>s. None)\<rparr>"

definition row_major :: "32 word \<Rightarrow> 32 word \<Rightarrow> 8 word \<Rightarrow> 64 word" where
  "row_major a b z = ucast a + 2 ^ 19 * ucast b"

definition two_rows :: "example stored_row list" where
  "two_rows = [(((3, 5), 90000), [\<lparr>ex_a = 1, ex_b = 2, ex_longitude = 0, ex_latitude = 0\<rparr>]),
     (((4, 5), 90000), [\<lparr>ex_a = 1, ex_b = 2, ex_longitude = 0, ex_latitude = 0\<rparr>])]"

definition day_one :: example_params where
  "day_one = \<lparr>ep_dates = [\<lparr>dated_dates = \<lparr>from_value = 86400, to_value = 86400, range_variant = Inclusive\<rparr>,
       dated_days = [Mon, Tue, Wed, Thu, Fri, Sat, Sun]\<rparr>],
     filter_a = \<lparr>from_value = 0, to_value = 9, range_variant = Inclusive\<rparr>,
     filter_b = \<lparr>from_value = 0, to_value = 9, range_variant = Inclusive\<rparr>\<rparr>"

definition scanning :: "'cell table_rows \<Rightarrow> 'f read_rows_request \<Rightarrow> string + 'cell table_rows" where
  "scanning rows req = Inr (filter (\<lambda>(k, _). \<exists>r \<in> set (request_row_ranges req). start_key r \<le> k \<and> k \<le> end_key r) rows)"

lemma row_major_ok: "curve_ok row_major"
proof -
  have val: "unat (row_major a b 19) = unat a + 2 ^ 19 * unat b" if "unat a < 2 ^ 19" "unat b < 2 ^ 19" for a b
  proof -
    have "2 ^ 19 * unat b \<le> 2 ^ 19 * 2 ^ 19" "unat b < 2 ^ 64" "unat a < 2 ^ 64" using that by simp_all
    then have "unat a + 2 ^ 19 * unat b < 2 ^ 64" using that by simp
    then show ?thesis by (simp add: row_major_def unat_word_ariths unsigned_ucast_eq take_bit_nat_eq_self)
  qed
  have "unat a + 2 ^ 19 * unat b < 2 ^ 38" if "unat a < 2 ^ 19" "unat b < 2 ^ 19" for a b :: "32 word"
    using that by simp
  moreover have "a = c \<and> b = d" if "unat a < 2 ^ 19" "unat c < 2 ^ 19" "unat a + 2 ^ 19 * unat b = unat c + 2 ^ 19 * unat d" for a b c d :: "32 word"
  proof -
    have "(unat a + 2 ^ 19 * unat b) mod 2 ^ 19 = (unat c + 2 ^ 19 * unat d) mod 2 ^ 19" using that(3) by (rule arg_cong)
    then have "unat a = unat c" using that(1,2) by simp
    then show ?thesis using that(3) by (simp add: word_unat_eq_iff)
  qed
  ultimately show ?thesis unfolding curve_ok_def using val by (metis (no_types, lifting))
qed

lemma digit_days_ordered: "format_ordered digit_days 0 863999"
proof -
  have digit: "(of_char (digit_char n) :: 8 word) \<le> of_char (digit_char m) \<longleftrightarrow> n \<le> m" if "n < 10" "m < 10" for n m :: nat
  proof -
    have "unat (of_char (digit_char k) :: 8 word) = 48 + k" if "k < 10" for k
    proof -
      have "(of_char (digit_char k) :: nat) = 48 + k" using that by (simp add: digit_char_def)
      then have "(of_char (digit_char k) :: 8 word) = of_nat (48 + k)" by (metis of_nat_of_char)
      then show ?thesis using that by (simp only: unsigned_of_nat) (simp add: take_bit_nat_eq_self)
    qed
    then show ?thesis using that by (simp add: word_le_nat_alt)
  qed
  have day: "nat (a div 86400) < 10 \<and> 0 \<le> a div 86400" if "0 \<le> a" "a \<le> 863999" for a :: int
    using zdiv_mono1 [OF that(2), of 86400] pos_imp_zdiv_nonneg_iff [of 86400 a] that by (simp add: nat_less_iff)
  have key: "[of_char (digit_char n)] \<le> [of_char (digit_char m) :: 8 word] \<longleftrightarrow> n \<le> m" if "n < 10" "m < 10" for n m
    using digit [OF that] by (auto simp: less_le)
  show ?thesis unfolding format_ordered_def
  proof (intro allI impI)
    fix a b :: int
    assume "0 \<le> a" "a \<le> 863999" "0 \<le> b" "b \<le> 863999"
    then show "((map of_char (storage_format digit_days a) :: 8 word list) \<le> map of_char (storage_format digit_days b)) = (a div 86400 \<le> b div 86400)"
      using key [of "nat (a div 86400)" "nat (b div 86400)"] day [of a] day [of b] by (simp add: digit_days_def nat_le_eq_zle)
  qed
qed

theorem tile_serves_exact_rows_witness:
  "example_tile digit_days row_major Some (example_item (\<lambda>p n. Err ())) (attach Map.empty (repository_query
      (scanning (map (row_of digit_days row_major) two_rows) :: unit read_rows_request \<Rightarrow> _) ''t'') ''big_table'') (19, 3, 5) day_one
    = Ok [layer_of (example_item (\<lambda>p n. Err () :: (string, unit) outcome)) [\<lparr>ex_a = 1, ex_b = 2, ex_longitude = 0, ex_latitude = 0\<rparr>] 19 ''example_layer'']"
proof -
  have week: "set [Mon, Tue, Wed, Thu, Fri, Sat, Sun] = UNIV" using day_of_week.exhaust by auto
  have asks: "asks_whole_days digit_days (ep_dates day_one)"
    using week by (simp add: asks_whole_days_def whole_days_def day_one_def digit_days_def)
  have asked: "asked_rows digit_days (19, 3, 5) day_one two_rows = [hd two_rows]"
    by (simp add: asked_rows_def two_rows_def under_def on_days_def day_one_def dated_within_def range_within_def digit_days_def)
  have "dates_inside 0 863999 (ep_dates day_one)" "rows_inside 0 863999 two_rows"
    by (simp_all add: dates_inside_def day_one_def rows_inside_def two_rows_def)
  moreover have "reads_ranges (scanning rows :: unit read_rows_request \<Rightarrow> _) rows" for rows :: "example table_rows"
    by (simp add: reads_ranges_def scanning_def)
  moreover have "filter (example_filter day_one) (List.map_filter Some (concat (map snd [hd two_rows])))
      = [\<lparr>ex_a = 1, ex_b = 2, ex_longitude = 0, ex_latitude = 0\<rparr>]"
    by (simp add: two_rows_def List.map_filter_def example_filter_def range_within_def day_one_def)
  ultimately show ?thesis
    using tile_serves_exact_rows [OF row_major_ok digit_days_ordered, of day_one two_rows, where decode = Some and z = 19 and x = 3 and y = 5
        and read_rows = "scanning (map (row_of digit_days row_major) two_rows) :: unit read_rows_request \<Rightarrow> _" and table = "''t''"
        and I = "example_item (\<lambda>p n. Err () :: (string, unit) outcome)"]
    by (simp add: asked asks)
qed

section \<open>Ranges of dates and weekdays\<close>

text \<open>The iterator gives every day from the first to the last, whatever the variant of the range says.\<close>

lemma collect_dates_days:
  assumes "to_value r + 86400 \<le> utc_max C"
  shows "collect_dates C r = Some (map (\<lambda>i. from_value r + 86400 * int i) [0..<nat ((to_value r - from_value r) div 86400 + 1)])"
  using assms
proof (induction C r rule: collect_dates.induct)
  case (1 C r)
  show ?case
  proof (cases "from_value r \<le> to_value r")
    case True
    let ?r = "r\<lparr>from_value := from_value r + 86400\<rparr>"
    have n: "next_date C r = Some (Some (from_value r), ?r)" using True 1(2) by (simp add: next_date_def Let_def)
    define k where "k = nat ((to_value r - from_value r) div 86400)"
    have "(to_value r - from_value r) div 86400 \<ge> 0" using True by (simp add: pos_imp_zdiv_nonneg_iff)
    then have k: "nat ((to_value r - from_value r) div 86400 + 1) = Suc k" by (simp add: k_def nat_add_distrib)
    have "(to_value r - (from_value r + 86400)) div 86400 + 1 = (to_value r - from_value r) div 86400"
      using div_add_self2 [of 86400 "to_value r - (from_value r + 86400)"] by (simp add: algebra_simps)
    then have "collect_dates C ?r = Some (map (\<lambda>i. from_value r + 86400 + 86400 * int i) [0..<k])"
      using 1(1) [OF n refl refl] 1(2) by (simp add: k_def)
    then show ?thesis unfolding k by (subst collect_dates.simps) (simp add: n upt_conv_Cons map_Suc_upt [symmetric] comp_def algebra_simps del: upt_Suc)
  next
    case False
    then have "(to_value r - from_value r) div 86400 + 1 \<le> 0" by (simp add: zdiv_mono1 div_int_pos_iff)
    then show ?thesis using False by (subst collect_dates.simps) (simp add: next_date_def)
  qed
qed

lemma exclusive_dates_are_served: "collect_dates C (r\<lparr>range_variant := Exclusive\<rparr>) = collect_dates C (r\<lparr>range_variant := Inclusive\<rparr>)"
proof (induction C r rule: collect_dates.induct)
  case (1 C r)
  show ?case
  proof (cases "from_value r \<le> to_value r \<and> from_value r + 86400 \<le> utc_max C")
    case True
    then have n: "next_date C r = Some (Some (from_value r), r\<lparr>from_value := from_value r + 86400\<rparr>)" by (simp add: next_date_def Let_def)
    have swap: "r\<lparr>range_variant := v, from_value := w\<rparr> = r\<lparr>from_value := w, range_variant := v\<rparr>" for v w by simp
    show ?thesis using 1 [OF n refl refl] True unfolding swap [symmetric]
      by (subst (1 2) collect_dates.simps) (simp add: next_date_def Let_def)
  qed (subst (1 2) collect_dates.simps, auto simp: next_date_def Let_def)
qed

text \<open>A request that names no dates asks the table for no range at all, which the service takes for the whole table.\<close>

lemma no_dates_no_ranges: "ep_dates p = [] \<Longrightarrow> example_batch C xy2h \<lparr>q_parameters = (p, z'), q_filter = t\<rparr> = []"
  by (simp add: example_batch_def split: prod.split)

lemma weekday_filter_unused:
  "example_batch C xy2h \<lparr>q_parameters = (p\<lparr>ep_dates := map (\<lambda>t. t\<lparr>dated_days := ds\<rparr>) (ep_dates p)\<rparr>, z'), q_filter = t\<rparr>
    = example_batch C xy2h \<lparr>q_parameters = (p, z'), q_filter = t\<rparr>"
  by (simp add: example_batch_def comp_def split: prod.split)

definition number_of_day :: "day_of_week \<Rightarrow> nat" where
  "number_of_day d = (case d of Mon \<Rightarrow> 0 | Tue \<Rightarrow> 1 | Wed \<Rightarrow> 2 | Thu \<Rightarrow> 3 | Fri \<Rightarrow> 4 | Sat \<Rightarrow> 5 | Sun \<Rightarrow> 6)"

lemma day_of_number_day: "day_of_number (number_of_day d) = Ok d"
  by (cases d) (simp_all add: day_of_number_def number_of_day_def)

lemma parse_weekdays_printed:
  assumes "ds \<noteq> []"
  shows "parse_weekdays (join ''-'' (map (show_nat \<circ> number_of_day) ds)) = Ok ds"
proof -
  have less: "number_of_day d < 2 ^ 32" for d by (cases d) (simp_all add: number_of_day_def)
  have "split_all CHR ''-'' (join ''-'' (map (show_nat \<circ> number_of_day) ds)) = map (show_nat \<circ> number_of_day) ds"
    using assms show_nat_digits digit_not_special by (intro split_join) fastforce+
  moreover have "parse_below (2 ^ 32) (show_nat (number_of_day d)) = Some (number_of_day d)" for d
  proof -
    have "number_of_day d < 2 ^ 64" using less [of d] by (rule order.strict_trans) simp
    then show ?thesis using less [of d] by (simp add: parse_below_def parse_show)
  qed
  ultimately have "map (\<lambda>p. case parse_below (2 ^ 32) p of Some n \<Rightarrow> Ok n | None \<Rightarrow> Err BadNumber)
      (split_all CHR ''-'' (join ''-'' (map (show_nat \<circ> number_of_day) ds))) = map Ok (map number_of_day ds)"
    by (simp add: comp_def)
  moreover have "map day_of_number (map number_of_day ds) = map Ok ds" by (simp add: comp_def day_of_number_day)
  ultimately show ?thesis unfolding parse_weekdays_def by (simp only: collect_results_Ok_iff [THEN iffD2] and_then.simps)
qed

section \<open>Features\<close>

lemma zig_doubles: "unat v < 2 ^ 31 \<Longrightarrow> zig v = 2 * v"
proof -
  assume "unat v < 2 ^ 31"
  then have "drop_bit 31 v = 0" by (simp only: word_unat_eq_iff unat_drop_bit_eq) (simp add: drop_bit_eq_div)
  then show ?thesis by (simp add: zig_def push_bit_eq_mult mult.commute)
qed

lemma concat_blocks:
  assumes "\<forall>ys \<in> set yss. length ys = k" "i < length yss" "j < k"
  shows "concat yss ! (i * k + j) = yss ! i ! j"
  using assms
proof (induction yss arbitrary: i)
  case (Cons ys yss)
  then show ?case by (cases i) (simp_all add: nth_append)
qed simp

text \<open>The tags of a feature, read as pairs of positions in the keys and the values of its layer, are its entries.\<close>

lemma feature_tags_are_entries:
  fixes I :: "('t, 'k, 'v) tile_item" and zoom :: nat and name :: string
  assumes "\<forall>v \<in> set vs. map fst (item_entries I v) = item_keys I"
    and "length vs * length (item_keys I) < 2 ^ 32" "length (item_keys I) < 2 ^ 32" "i < length vs" "j < length (item_keys I)"
  defines "L \<equiv> layer_of I vs zoom name"
  defines "tags \<equiv> feature_tags (layer_features L ! i)"
  shows "layer_keys L ! unat (tags ! (2 * j)) = key_name I (fst (item_entries I (vs ! i) ! j))
    \<and> layer_values L ! unat (tags ! (2 * j + 1)) = snd (item_entries I (vs ! i) ! j)"
proof -
  let ?k = "length (item_keys I)"
  have k: "unat (of_nat ?k :: 32 word) = ?k" using assms(3) by (simp add: unsigned_of_nat take_bit_nat_eq_self)
  have tags: "tags = concat (map (\<lambda>j. [of_nat j, of_nat i * of_nat ?k + of_nat j]) [0..<?k])"
    unfolding tags_def L_def layer_of_def feature_of_def Let_def k using assms(4) by (simp add: nth_enumerate_eq k split: slippy_tile.split prod.split)
  have "tags ! (j * 2 + l) = [of_nat j, of_nat i * of_nat ?k + of_nat j] ! l" if "l < 2" for l
    unfolding tags using concat_blocks [of "map (\<lambda>j. [of_nat j, of_nat i * of_nat ?k + of_nat j]) [0..<?k]" 2 j l] assms(5) that by simp
  from this [of 0] this [of 1] have t: "tags ! (2 * j) = of_nat j" "tags ! Suc (2 * j) = of_nat (i * ?k + j)"
    by (simp_all add: mult.commute)
  have "i * ?k + j < Suc i * ?k" using assms(5) by simp
  also have "\<dots> \<le> length vs * ?k" using assms(4) by (intro mult_le_mono1) simp
  finally have small: "i * ?k + j < 2 ^ 32" "j < 2 ^ 32" using assms(2,3,5) by linarith+
  have len: "length (item_entries I v) = ?k" if "v \<in> set vs" for v using assms(1) that by (metis length_map)
  have "layer_values L ! (i * ?k + j) = item_values I (vs ! i) ! j"
    using concat_blocks [of "map (item_values I) vs" ?k i j] assms(4,5) len by (simp add: L_def layer_of_def item_values_def)
  moreover have "item_keys I ! j = fst (item_entries I (vs ! i) ! j)"
    using assms(1,4,5) len [of "vs ! i"] by (metis nth_map nth_mem)
  ultimately show ?thesis using small assms(4,5) len [of "vs ! i"]
    by (simp add: t unsigned_of_nat take_bit_nat_eq_self L_def layer_of_def item_values_def del: of_nat_add of_nat_mult)
qed

end
