(* ===== verification/Redis_History.thy ===== *)
theory Redis_History
  imports Orchestrator
begin

text \<open>
  The history store over its fleet of primaries (\<open>RedisStore\<close> of \<open>store/redis.rs\<close>): a vehicle's observations
  are one stream on the primary its key is placed on; a batch is encoded, scattered into one pipeline per
  primary and sent. A primary, the serialisation and what happened to each pipeline are parameters. The
  law is a refinement: under any outcome the streams are the tails that the pipeline of
  \<open>Orchestrator\<close> is verified against.
\<close>

section \<open>Primaries\<close>

datatype redis_value = BulkString "8 word list" | OtherValue

type_synonym stream_entry = "(string \<times> redis_value) list"

record 's redis_server =
  xrevrange :: "'s \<Rightarrow> string \<Rightarrow> nat \<Rightarrow> stream_entry list"
  xadd :: "string \<Rightarrow> nat \<Rightarrow> stream_entry \<Rightarrow> 's \<Rightarrow> 's"

text \<open>
  What a primary documents. A stream is in order of insertion. A read gives its newest entries, newest
  first; an insertion appends, and the approximate limit may drop the oldest entries beyond it.
\<close>

locale stream_server =
  fixes R :: "'s redis_server" and contents :: "'s \<Rightarrow> string \<Rightarrow> stream_entry list"
  assumes read: "xrevrange R s k n = take n (rev (contents s k))"
    and append: "\<exists>m \<le> Suc (length (contents s k)) - limit. contents (xadd R k limit e s) k = drop m (contents s k @ [e])"
    and frame: "k' \<noteq> k \<Longrightarrow> contents (xadd R k limit e s) k' = contents s k'"

section \<open>The store\<close>

datatype store_error = RedisFailed | Serialisation | NoEndpoints

record 's redis_store =
  conns :: "'s list"
  seeds :: "64 word list"

text \<open>Connecting gives the connection to an endpoint, or the client's error.\<close>

definition redis_store_new :: "(string \<Rightarrow> 's option) \<Rightarrow> string list \<Rightarrow> ('s redis_store, store_error) outcome" where
  "redis_store_new connect urls =
     (if urls = [] then Err NoEndpoints
      else case those (map connect urls) of
             None \<Rightarrow> Err RedisFailed
           | Some cs \<Rightarrow> Ok \<lparr>conns = cs, seeds = placement_new urls\<rparr>)"

fun decode_entries :: "(8 word list \<Rightarrow> 'a option) \<Rightarrow> stream_entry list \<Rightarrow> ('a list, store_error) outcome" where
  "decode_entries decode [] = Ok []"
| "decode_entries decode (e # es) =
     (case map_of e ''val'' of
        Some (BulkString b) \<Rightarrow>
          (case decode b of
             None \<Rightarrow> Err Serialisation
           | Some x \<Rightarrow> and_then (decode_entries decode es) (\<lambda>xs. Ok (x # xs)))
      | _ \<Rightarrow> decode_entries decode es)"

text \<open>A read; \<open>answered\<close> is whether the primary replied.\<close>

definition store_get_many ::
    "'s redis_server \<Rightarrow> (8 word list \<Rightarrow> 'a option) \<Rightarrow> bool \<Rightarrow> 's redis_store \<Rightarrow> vehicle_id \<Rightarrow> nat \<Rightarrow> ('a list, store_error) outcome" where
  "store_get_many R decode answered st v len =
     (let key = positions_key v
      in case index_for (seeds st) key of
           None \<Rightarrow> Panic
         | Some node \<Rightarrow>
             (if node \<ge> length (conns st) then Panic
              else if \<not> answered then Err RedisFailed
              else decode_entries decode (xrevrange R (conns st ! node) key len)))"

record redis_command =
  cmd_key :: string
  cmd_limit :: nat
  cmd_entry :: stream_entry

definition command_of :: "nat \<Rightarrow> vehicle_id \<Rightarrow> string \<Rightarrow> 8 word list \<Rightarrow> redis_command" where
  "command_of limit v shard val =
     \<lparr>cmd_key = positions_key v, cmd_limit = limit,
      cmd_entry = [(''shard'', BulkString (bytes_of shard)), (''val'', BulkString val)]\<rparr>"

text \<open>How items are stored: their vehicle, the text of their shard and their bytes.\<close>

record 'a storable =
  item_key :: "'a \<Rightarrow> vehicle_id"
  shard_text :: "'a \<Rightarrow> string"
  to_bytes :: "'a \<Rightarrow> 8 word list option"

text \<open>The loop that builds the pipelines.\<close>

fun scatter ::
    "'a storable \<Rightarrow> 64 word list \<Rightarrow> nat \<Rightarrow> (nat \<rightharpoonup> redis_command list) \<Rightarrow> 'a list
      \<Rightarrow> (nat \<rightharpoonup> redis_command list, store_error) outcome" where
  "scatter T sd limit pipelines [] = Ok pipelines"
| "scatter T sd limit pipelines (item # items) =
     (case to_bytes T item of
        None \<Rightarrow> Err Serialisation
      | Some val \<Rightarrow>
          (case index_for sd (positions_key (item_key T item)) of
             None \<Rightarrow> Panic
           | Some node \<Rightarrow>
               (let before = (case pipelines node of None \<Rightarrow> [] | Some cs \<Rightarrow> cs)
                in scatter T sd limit (pipelines(node \<mapsto> before @ [command_of limit (item_key T item) (shard_text T item) val])) items)))"

definition run_commands :: "'s redis_server \<Rightarrow> redis_command list \<Rightarrow> 's \<Rightarrow> 's" where
  "run_commands R cs s = fold (\<lambda>c. xadd R (cmd_key c) (cmd_limit c) (cmd_entry c)) cs s"

text \<open>
  What became of the pipeline to each primary: \<open>None\<close> if it was acknowledged, and otherwise which of its
  commands the primary ran all the same, command by command and none past the end of the list: the
  connection may be lost midway, and a primary may refuse a command and run later ones. The pipelines run
  concurrently on different primaries.
\<close>

definition commands_run :: "bool list \<Rightarrow> 'c list \<Rightarrow> 'c list" where
  "commands_run flags cs = map fst (filter snd (zip cs flags))"

definition run_pipelines ::
    "'s redis_server \<Rightarrow> (nat \<Rightarrow> bool list option) \<Rightarrow> (nat \<rightharpoonup> redis_command list) \<Rightarrow> 's list \<Rightarrow> 's list" where
  "run_pipelines R fate pipelines cs =
     map (\<lambda>(node, s). case pipelines node of
            None \<Rightarrow> s
          | Some cmds \<Rightarrow> run_commands R (case fate node of None \<Rightarrow> cmds | Some flags \<Rightarrow> commands_run flags cmds) s)
       (enumerate 0 cs)"

definition store_write_many ::
    "'s redis_server \<Rightarrow> 'a storable \<Rightarrow> (nat \<Rightarrow> bool list option) \<Rightarrow> 's redis_store \<Rightarrow> 'a list \<Rightarrow> nat
      \<Rightarrow> (unit, store_error) outcome \<times> 's redis_store" where
  "store_write_many R T fate st batch limit =
     (if batch = [] then (Ok (), st)
      else case scatter T (seeds st) limit Map.empty batch of
             Err e \<Rightarrow> (Err e, st)
           | Panic \<Rightarrow> (Panic, st)
           | Ok pipelines \<Rightarrow>
               (if \<exists>n \<in> dom pipelines. n \<ge> length (conns st) then (Panic, st)
                else
                  (if \<forall>n \<in> dom pipelines. fate n = None then Ok () else Err RedisFailed,
                   st\<lparr>conns := run_pipelines R fate pipelines (conns st)\<rparr>)))"

end
