(* ===== verification/Redis_Laws.thy ===== *)
theory Redis_Laws
  imports Redis_History "HOL-Library.Sublist"
begin

text \<open>
  The refinement of the history store: what its primaries hold, decoded, is a tail per vehicle, and reads
  and batch writes act on it as the reads and appends of \<open>Orchestrator\<close> do.
\<close>

section \<open>Commands\<close>

definition commands_for :: "string \<Rightarrow> redis_command list \<Rightarrow> stream_entry list" where
  "commands_for k cs = map cmd_entry (filter (\<lambda>c. cmd_key c = k) cs)"

lemma drop_after_append: "n \<le> length xs \<Longrightarrow> drop m (drop n xs @ [e]) = drop (n + m) (xs @ [e])"
  by (metis add.commute append_take_drop_id drop_append drop_drop diff_is_0_eq drop_0)

context stream_server begin

lemma run_commands_contents:
  assumes "\<forall>c \<in> set cs. cmd_limit c = limit"
  shows "\<exists>n \<le> length (contents s k) + length (commands_for k cs) - limit.
    contents (run_commands R cs s) k = drop n (contents s k @ commands_for k cs) \<and> (commands_for k cs = [] \<longrightarrow> n = 0)"
  using assms
proof (induction cs rule: rev_induct)
  case Nil
  then show ?case by (simp add: run_commands_def commands_for_def)
next
  case (snoc c cs)
  let ?s = "run_commands R cs s"
  obtain n where n: "n \<le> length (contents s k) + length (commands_for k cs) - limit"
      "contents ?s k = drop n (contents s k @ commands_for k cs)" "commands_for k cs = [] \<longrightarrow> n = 0"
    using snoc by auto
  have run: "run_commands R (cs @ [c]) s = xadd R (cmd_key c) (cmd_limit c) (cmd_entry c) ?s" by (simp add: run_commands_def)
  show ?case
  proof (cases "cmd_key c = k")
    case True
    obtain m where m: "m \<le> Suc (length (contents ?s k)) - limit" "contents (run_commands R (cs @ [c]) s) k = drop m (contents ?s k @ [cmd_entry c])"
      using append [of ?s "cmd_key c" "cmd_limit c" "cmd_entry c"] snoc.prems True unfolding run by auto
    have c: "commands_for k (cs @ [c]) = commands_for k cs @ [cmd_entry c]" using True by (simp add: commands_for_def)
    have "n \<le> length (contents s k @ commands_for k cs)" using n(1) by simp
    then have "contents (run_commands R (cs @ [c]) s) k = drop (n + m) (contents s k @ commands_for k (cs @ [c]))"
      unfolding m(2) n(2) c by (simp only: drop_after_append append_assoc)
    moreover have "n + m \<le> length (contents s k) + length (commands_for k (cs @ [c])) - limit" using n m(1) unfolding c by auto
    ultimately show ?thesis by (intro exI [of _ "n + m"]) (simp add: c)
  next
    case False
    then have "contents (run_commands R (cs @ [c]) s) k = contents ?s k" unfolding run using frame by metis
    then show ?thesis using n False by (auto simp: commands_for_def)
  qed
qed

end

section \<open>Pipelines\<close>

definition encoded :: "'a storable \<Rightarrow> 'a \<Rightarrow> stream_entry" where
  "encoded T x = [(''shard'', BulkString (bytes_of (shard_text T x))), (''val'', BulkString (the (to_bytes T x)))]"

definition items_of :: "'a storable \<Rightarrow> vehicle_id \<Rightarrow> 'a list \<Rightarrow> 'a list" where
  "items_of T v = filter (\<lambda>x. item_key T x = v)"

lemma positions_key_inj: "positions_key v = positions_key w \<longleftrightarrow> v = w"
proof
  assume "positions_key v = positions_key w"
  then have "show_nat (unat v) = show_nat (unat w)" by (simp add: positions_key_def)
  moreover have "unat (x :: 64 word) < 2 ^ 64" for x using unsigned_less [of x] by simp
  ultimately have "unat v = unat w" using show_nat_inj by blast
  then show "v = w" by (simp add: word_unat_eq_iff)
qed simp

definition pipeline :: "(nat \<rightharpoonup> redis_command list) \<Rightarrow> nat \<Rightarrow> redis_command list" where
  "pipeline ps n = (case ps n of None \<Rightarrow> [] | Some cs \<Rightarrow> cs)"

text \<open>The pipelines hold, for every vehicle, its items in order on the primary of the vehicle, and nothing of it elsewhere.\<close>

lemma scatter_spec:
  assumes "sd \<noteq> []" "\<forall>x \<in> set batch. to_bytes T x \<noteq> None"
    and "dom ps \<subseteq> {..<length sd}" "\<forall>n. \<forall>c \<in> set (pipeline ps n). cmd_limit c = limit"
  shows "\<exists>ps'. scatter T sd limit ps batch = Ok ps' \<and> dom ps' \<subseteq> {..<length sd} \<and> (\<forall>n. \<forall>c \<in> set (pipeline ps' n). cmd_limit c = limit)
    \<and> (\<forall>v n. commands_for (positions_key v) (pipeline ps' n) = commands_for (positions_key v) (pipeline ps n)
        @ (if index_for sd (positions_key v) = Some n then map (encoded T) (items_of T v batch) else []))"
  using assms
proof (induction batch arbitrary: ps)
  case Nil
  then show ?case by (simp add: items_of_def)
next
  case (Cons x batch)
  obtain b where b: "to_bytes T x = Some b" using Cons.prems(2) by auto
  obtain i where i: "index_for sd (positions_key (item_key T x)) = Some i" "i < length sd"
    using index_for_greatest [OF Cons.prems(1)] by metis
  define c where "c = command_of limit (item_key T x) (shard_text T x) b"
  have c: "cmd_limit c = limit" "cmd_key c = positions_key (item_key T x)" "cmd_entry c = encoded T x"
    by (simp_all add: c_def command_of_def encoded_def b)
  let ?ps = "ps(i \<mapsto> pipeline ps i @ [c])"
  have at: "pipeline ?ps n = (if n = i then pipeline ps i @ [c] else pipeline ps n)" for n by (simp add: pipeline_def)
  have step: "scatter T sd limit ps (x # batch) = scatter T sd limit ?ps batch"
    by (simp add: b i(1) Let_def pipeline_def c_def)
  have keep: "dom ?ps \<subseteq> {..<length sd}" "\<forall>n. \<forall>c \<in> set (pipeline ?ps n). cmd_limit c = limit"
    using Cons.prems(3,4) i(2) by (auto simp: at c)
  have "\<forall>x \<in> set batch. to_bytes T x \<noteq> None" using Cons.prems(2) by simp
  from Cons.IH [OF Cons.prems(1) this keep] obtain ps' where ps': "scatter T sd limit ?ps batch = Ok ps'" "dom ps' \<subseteq> {..<length sd}" "\<forall>n. \<forall>c \<in> set (pipeline ps' n). cmd_limit c = limit"
      "\<forall>v n. commands_for (positions_key v) (pipeline ps' n) = commands_for (positions_key v) (pipeline ?ps n)
        @ (if index_for sd (positions_key v) = Some n then map (encoded T) (items_of T v batch) else [])"
    by blast
  have "commands_for (positions_key v) (pipeline ?ps n) = commands_for (positions_key v) (pipeline ps n)
      @ (if n = i \<and> item_key T x = v then [encoded T x] else [])" for v n
    by (auto simp: at commands_for_def c positions_key_inj)
  then have "\<forall>v n. commands_for (positions_key v) (pipeline ps' n) = commands_for (positions_key v) (pipeline ps n)
      @ (if index_for sd (positions_key v) = Some n then map (encoded T) (items_of T v (x # batch)) else [])"
    using ps'(4) i(1) by (auto simp: items_of_def)
  then show ?case using ps' step by metis
qed

lemma scatter_unencodable:
  assumes "sd \<noteq> []" "\<exists>x \<in> set batch. to_bytes T x = None"
  shows "scatter T sd limit ps batch = Err Serialisation"
  using assms(2)
proof (induction batch arbitrary: ps)
  case (Cons x batch)
  obtain i where "index_for sd (positions_key (item_key T x)) = Some i" using index_for_greatest [OF assms(1)] by metis
  then show ?case using Cons by (auto split: option.split)
qed simp

lemma commands_run_subseq: "subseq (commands_run flags cs) cs"
proof (induction cs arbitrary: flags)
  case (Cons c cs)
  then show ?case by (cases flags) (auto simp: commands_run_def)
qed (simp add: commands_run_def)

lemma subseq_set: "subseq xs ys \<Longrightarrow> set xs \<subseteq> set ys"
  by (auto simp: subseq_conv_nths dest: in_set_nthsD)

lemma commands_run_first: "set flags \<subseteq> {True} \<Longrightarrow> prefix (commands_run flags cs) cs"
proof (induction cs arbitrary: flags)
  case (Cons c cs)
  then show ?case by (cases flags) (auto simp: commands_run_def)
qed (simp add: commands_run_def)

lemma prefix_filter: "prefix xs ys \<Longrightarrow> prefix (filter P xs) (filter P ys)"
  by (auto simp: prefix_def)

lemma subseq_of_map: "subseq xs (map f ys) \<Longrightarrow> \<exists>zs. subseq zs ys \<and> xs = map f zs"
  by (auto simp: subseq_conv_nths nths_map)

lemma prefix_of_map: "prefix xs (map f ys) \<Longrightarrow> \<exists>zs. prefix zs ys \<and> xs = map f zs"
proof -
  assume "prefix xs (map f ys)"
  then have "xs = map f (take (length xs) ys)" by (metis prefix_def append_eq_conv_conj take_map)
  then show ?thesis using take_is_prefix by blast
qed

definition executed :: "(nat \<Rightarrow> bool list option) \<Rightarrow> (nat \<rightharpoonup> redis_command list) \<Rightarrow> nat \<Rightarrow> redis_command list" where
  "executed fate ps n = (case fate n of None \<Rightarrow> pipeline ps n | Some flags \<Rightarrow> commands_run flags (pipeline ps n))"

text \<open>No primary skips a command and runs a later one.\<close>

definition unbroken :: "(nat \<Rightarrow> bool list option) \<Rightarrow> bool" where
  "unbroken fate \<longleftrightarrow> (\<forall>node flags. fate node = Some flags \<longrightarrow> set flags \<subseteq> {True})"

lemma executed_items:
  assumes "commands_for k (pipeline ps n) = map f items"
  shows "\<exists>some. subseq some items \<and> (unbroken fate \<longrightarrow> prefix some items) \<and> (fate n = None \<longrightarrow> some = items)
    \<and> commands_for k (executed fate ps n) = map f some"
proof (cases "fate n")
  case None
  then show ?thesis using assms by (auto simp: executed_def)
next
  case (Some flags)
  have sub: "subseq (commands_for k (executed fate ps n)) (map f items)"
    unfolding assms [symmetric] using commands_run_subseq [of flags "pipeline ps n"]
    by (simp add: executed_def Some commands_for_def subseq_map)
  show ?thesis
  proof (cases "unbroken fate")
    case True
    then have "prefix (commands_for k (executed fate ps n)) (map f items)"
      unfolding assms [symmetric] using commands_run_first [of flags] Some
      by (auto simp: executed_def commands_for_def unbroken_def intro!: map_mono_prefix prefix_filter)
    from prefix_of_map [OF this] show ?thesis using Some by auto
  next
    case False
    then show ?thesis using subseq_of_map [OF sub] Some by auto
  qed
qed

lemma run_pipelines_nth: "n < length cs \<Longrightarrow> run_pipelines R fate ps cs ! n = run_commands R (executed fate ps n) (cs ! n)"
  by (simp add: run_pipelines_def executed_def pipeline_def nth_enumerate_eq run_commands_def commands_run_def split: option.split)

lemma length_run_pipelines [simp]: "length (run_pipelines R fate ps cs) = length cs"
  by (simp add: run_pipelines_def)

section \<open>Histories\<close>

definition store_ok :: "'s redis_store \<Rightarrow> bool" where
  "store_ok st \<longleftrightarrow> seeds st \<noteq> [] \<and> length (conns st) = length (seeds st)"

lemma new_store_ok: "redis_store_new connect urls = Ok st \<Longrightarrow> store_ok st"
proof -
  assume new: "redis_store_new connect urls = Ok st"
  then obtain cs where "urls \<noteq> []" "those (map connect urls) = Some cs" "st = \<lparr>conns = cs, seeds = placement_new urls\<rparr>"
    by (auto simp: redis_store_new_def split: if_splits option.splits)
  moreover have "length ys = length xs" if "those xs = Some ys" for xs :: "'b option list" and ys
    using that by (induction xs arbitrary: ys) (auto split: option.splits)
  ultimately show ?thesis by (fastforce simp: store_ok_def placement_new_def)
qed

text \<open>The stream of a vehicle, and what it means that it holds a list of items.\<close>

definition stream_at :: "('s \<Rightarrow> string \<Rightarrow> stream_entry list) \<Rightarrow> 's redis_store \<Rightarrow> vehicle_id \<Rightarrow> stream_entry list" where
  "stream_at contents st v = contents (conns st ! the (index_for (seeds st) (positions_key v))) (positions_key v)"

definition entry_holds :: "(8 word list \<Rightarrow> 'a option) \<Rightarrow> stream_entry \<Rightarrow> 'a \<Rightarrow> bool" where
  "entry_holds decode e x \<longleftrightarrow> (\<exists>b. map_of e ''val'' = Some (BulkString b) \<and> decode b = Some x)"

definition store_holds ::
    "('s \<Rightarrow> string \<Rightarrow> stream_entry list) \<Rightarrow> (8 word list \<Rightarrow> 'a option) \<Rightarrow> 's redis_store \<Rightarrow> (vehicle_id \<Rightarrow> 'a list) \<Rightarrow> bool" where
  "store_holds contents decode st h \<longleftrightarrow> (\<forall>v. list_all2 (entry_holds decode) (stream_at contents st v) (h v))"

text \<open>What the serialisation promises: the bytes of an item decode to its stored form.\<close>

definition codec_ok :: "'a storable \<Rightarrow> (8 word list \<Rightarrow> 'a option) \<Rightarrow> ('a \<Rightarrow> 'a) \<Rightarrow> bool" where
  "codec_ok T decode canon \<longleftrightarrow> (\<forall>x b. to_bytes T x = Some b \<longrightarrow> decode b = Some (canon x))"

lemma decode_entries_holds: "list_all2 (entry_holds decode) es xs \<Longrightarrow> decode_entries decode es = Ok xs"
  by (induction es xs rule: list_all2_induct) (auto simp: entry_holds_def)

lemma encoded_holds: "codec_ok T decode canon \<Longrightarrow> to_bytes T x \<noteq> None \<Longrightarrow> entry_holds decode (encoded T x) (canon x)"
  by (auto simp: codec_ok_def entry_holds_def encoded_def)

lemma placed:
  assumes "store_ok st"
  obtains i where "index_for (seeds st) (positions_key v) = Some i" "i < length (conns st)"
proof -
  have "seeds st \<noteq> []" using assms by (simp add: store_ok_def)
  then obtain i where "index_for (seeds st) (positions_key v) = Some i" "i < length (seeds st)" by (rule index_for_greatest)
  then show ?thesis using that assms by (simp add: store_ok_def)
qed

lemma store_reads:
  assumes "stream_server R contents" "store_ok st" "store_holds contents decode st h"
  shows "store_get_many R decode True st v len = Ok (take len (rev (h v)))"
proof -
  obtain i where i: "index_for (seeds st) (positions_key v) = Some i" "i < length (conns st)" by (rule placed [OF assms(2)])
  have "list_all2 (entry_holds decode) (contents (conns st ! i) (positions_key v)) (h v)"
    using assms(3) i(1) by (auto simp: store_holds_def stream_at_def dest!: spec [of _ v])
  then have "list_all2 (entry_holds decode) (take len (rev (contents (conns st ! i) (positions_key v)))) (take len (rev (h v)))"
    by (intro list_all2_takeI) (simp add: list_all2_rev)
  then show ?thesis using i
    by (simp add: store_get_many_def Let_def stream_server.read [OF assms(1)] decode_entries_holds)
qed

text \<open>
  What a batch does to the tail of a vehicle: some items of the batch that are the vehicle's are appended in
  their order, the first ones if no primary skips a command, all of them if the batch was acknowledged, and
  oldest entries beyond the limit may go.
\<close>

definition tail_after :: "'a storable \<Rightarrow> ('a \<Rightarrow> 'a) \<Rightarrow> nat \<Rightarrow> bool \<Rightarrow> bool \<Rightarrow> 'a list \<Rightarrow> vehicle_id \<Rightarrow> 'a list \<Rightarrow> 'a list \<Rightarrow> bool" where
  "tail_after T canon limit in_turn acknowledged batch v old new \<longleftrightarrow>
     (\<exists>items n. subseq items (items_of T v batch) \<and> n \<le> length old + length items - limit \<and> (items = [] \<longrightarrow> n = 0)
        \<and> (in_turn \<longrightarrow> prefix items (items_of T v batch)) \<and> (acknowledged \<longrightarrow> items = items_of T v batch)
        \<and> new = drop n (old @ map canon items))"

lemma tail_of_commands:
  assumes "stream_server R contents" "codec_ok T decode canon" "\<forall>x \<in> set items. to_bytes T x \<noteq> None"
    and "\<forall>c \<in> set cs. cmd_limit c = limit" "commands_for k cs = map (encoded T) items" "list_all2 (entry_holds decode) (contents s k) old"
  shows "\<exists>n. n \<le> length old + length items - limit \<and> (items = [] \<longrightarrow> n = 0)
    \<and> list_all2 (entry_holds decode) (contents (run_commands R cs s) k) (drop n (old @ map canon items))"
proof -
  obtain n where n: "n \<le> length (contents s k) + length items - limit"
      "contents (run_commands R cs s) k = drop n (contents s k @ map (encoded T) items)" "items = [] \<longrightarrow> n = 0"
    using stream_server.run_commands_contents [OF assms(1,4), of s k] by (auto simp: assms(5))
  have "list_all2 (entry_holds decode) (map (encoded T) items) (map canon items)"
    using assms(2,3) by (auto simp: list_all2_conv_all_nth encoded_holds)
  then have "list_all2 (entry_holds decode) (drop n (contents s k @ map (encoded T) items)) (drop n (old @ map canon items))"
    using assms(6) by (intro list_all2_dropI list_all2_appendI)
  then show ?thesis using n list_all2_lengthD [OF assms(6)] by auto
qed

lemma store_writes:
  fixes R :: "'s redis_server" and T :: "'a storable" and limit :: nat and fate :: "nat \<Rightarrow> bool list option"
  assumes "stream_server R contents" "codec_ok T decode canon" "store_ok st" "store_holds contents decode st h"
    and enc: "\<forall>x \<in> set batch. to_bytes T x \<noteq> None"
  defines "res \<equiv> store_write_many R T fate st batch limit"
  shows "fst res \<in> {Ok (), Err RedisFailed} \<and> store_ok (snd res)
    \<and> (\<exists>h'. store_holds contents decode (snd res) h' \<and> (\<forall>v. tail_after T canon limit (unbroken fate) (fst res = Ok ()) batch v (h v) (h' v)))"
proof (cases "batch = []")
  case True
  then show ?thesis using assms(3,4) by (auto simp: res_def store_write_many_def tail_after_def items_of_def intro!: exI [of _ h])
next
  case False
  obtain ps where ps: "scatter T (seeds st) limit Map.empty batch = Ok ps" "dom ps \<subseteq> {..<length (conns st)}"
      "\<forall>n. \<forall>c \<in> set (pipeline ps n). cmd_limit c = limit"
      "\<forall>v n. commands_for (positions_key v) (pipeline ps n) =
        (if index_for (seeds st) (positions_key v) = Some n then map (encoded T) (items_of T v batch) else [])"
    using scatter_spec [of "seeds st" batch T Map.empty limit] assms(3) enc by (auto simp: store_ok_def pipeline_def commands_for_def)
  let ?st = "st\<lparr>conns := run_pipelines R fate ps (conns st)\<rparr>"
  have res: "res = (if \<forall>n \<in> dom ps. fate n = None then Ok () else Err RedisFailed, ?st)"
    using False ps(1,2) by (auto simp: res_def store_write_many_def)
  have "\<exists>new. list_all2 (entry_holds decode) (stream_at contents ?st v) new \<and> tail_after T canon limit (unbroken fate) (fst res = Ok ()) batch v (h v) new" for v
  proof -
    let ?key = "positions_key v" and ?items = "items_of T v batch"
    obtain i where i: "index_for (seeds st) ?key = Some i" "i < length (conns st)" by (rule placed [OF assms(3)])
    have cmds: "commands_for ?key (pipeline ps i) = map (encoded T) ?items" using ps(4) i(1) by simp
    obtain some where some: "subseq some ?items" "unbroken fate \<longrightarrow> prefix some ?items" "fate i = None \<longrightarrow> some = ?items"
        "commands_for ?key (executed fate ps i) = map (encoded T) some"
      using executed_items [OF cmds] by blast
    have all: "some = ?items" if "fst res = Ok ()"
    proof (cases "i \<in> dom ps")
      case True
      then show ?thesis using that some(3) by (auto simp: res split: if_splits)
    next
      case False
      then have "pipeline ps i = []" by (simp add: pipeline_def domIff)
      then show ?thesis using cmds some(1) by (simp add: commands_for_def)
    qed
    have "\<forall>c \<in> set (executed fate ps i). cmd_limit c = limit"
      using ps(3) subseq_set [OF commands_run_subseq] by (fastforce simp: executed_def split: option.splits)
    moreover have "\<forall>x \<in> set some. to_bytes T x \<noteq> None" using enc subseq_set [OF some(1)] by (auto simp: items_of_def)
    moreover have "list_all2 (entry_holds decode) (contents (conns st ! i) ?key) (h v)"
      using assms(4) i(1) by (auto simp: store_holds_def stream_at_def dest!: spec [of _ v])
    ultimately obtain n where n: "n \<le> length (h v) + length some - limit" "some = [] \<longrightarrow> n = 0"
        "list_all2 (entry_holds decode) (contents (run_commands R (executed fate ps i) (conns st ! i)) ?key) (drop n (h v @ map canon some))"
      using tail_of_commands [OF assms(1,2), of some "executed fate ps i" limit ?key "conns st ! i" "h v"] some(4) by auto
    have "tail_after T canon limit (unbroken fate) (fst res = Ok ()) batch v (h v) (drop n (h v @ map canon some))"
      unfolding tail_after_def using n(1,2) some(1,2) all by (intro exI [of _ some] exI [of _ n]) auto
    moreover have "stream_at contents ?st v = contents (run_commands R (executed fate ps i) (conns st ! i)) ?key"
      using i by (simp add: stream_at_def run_pipelines_nth)
    ultimately show ?thesis using n(3) by metis
  qed
  then obtain h' where "\<forall>v. list_all2 (entry_holds decode) (stream_at contents ?st v) (h' v)
      \<and> tail_after T canon limit (unbroken fate) (fst res = Ok ()) batch v (h v) (h' v)"
    by metis
  then have "store_holds contents decode ?st h' \<and> (\<forall>v. tail_after T canon limit (unbroken fate) (fst res = Ok ()) batch v (h v) (h' v))"
    by (simp add: store_holds_def)
  moreover have "snd res = ?st" "store_ok ?st" "fst res \<in> {Ok (), Err RedisFailed}" using assms(3) by (simp_all add: res store_ok_def)
  ultimately show ?thesis by metis
qed

text \<open>
  (C37) The fleet of primaries refines the tails of the pipeline. Over primaries as documented, a read
  gives what the pipeline's read gives. A batch with an item that cannot be serialised fails and writes
  nothing; any other batch never panics and appends, to the tail of each vehicle, items of the batch that
  are its own, in order: the first ones if no primary runs a command after one it did not, and all of them
  if the batch is acknowledged. An acknowledged batch of one event is the pipeline's append for some number
  of trimmed entries.
\<close>

theorem history_store_refines_tails:
  fixes d :: "('e, 'p) durable" and R :: "'s redis_server" and T :: "'p raw_event storable" and fate :: "nat \<Rightarrow> bool list option"
    and batch :: "'p raw_event list" and limit :: nat
  assumes "stream_server R contents" "codec_ok T decode stored" "store_ok st" "store_holds contents decode st (tails d)"
  defines "res \<equiv> store_write_many R T fate st batch limit"
  shows "store_get_many R decode True st v len = Ok (get_many d v len)
    \<and> (fst res = Err Serialisation \<longleftrightarrow> (\<exists>x \<in> set batch. to_bytes T x = None)) \<and> (fst res = Err Serialisation \<longrightarrow> snd res = st)
    \<and> fst res \<noteq> Panic \<and> store_ok (snd res)
    \<and> (\<exists>h. store_holds contents decode (snd res) h
        \<and> (fst res \<noteq> Err Serialisation \<longrightarrow> (\<forall>w. tail_after T stored limit (unbroken fate) (fst res = Ok ()) batch w (tails d w) (h w)))
        \<and> (\<forall>e. batch = [e] \<longrightarrow> item_key T e = event_vehicle e \<longrightarrow> fst res = Ok () \<longrightarrow>
            (\<exists>excess. \<forall>w. h w = tails (write_tail limit 1 excess e d) w)))"
proof -
  have read: "store_get_many R decode True st v len = Ok (get_many d v len)"
    using store_reads [OF assms(1,3,4)] by (simp add: get_many_def)
  show ?thesis
  proof (cases "\<exists>x \<in> set batch. to_bytes T x = None")
    case True
    then have "res = (Err Serialisation, st)"
      using scatter_unencodable [of "seeds st" batch T limit Map.empty] assms(3) by (auto simp: res_def store_write_many_def store_ok_def)
    then show ?thesis using read True assms(3,4) by auto
  next
    case False
    have enc: "\<forall>x \<in> set batch. to_bytes T x \<noteq> None"
    proof (intro ballI notI)
      fix x
      assume "x \<in> set batch" "to_bytes T x = None"
      then have "\<exists>x \<in> set batch. to_bytes T x = None" by (rule bexI [rotated])
      with False show HOL.False by (rule notE)
    qed
    from store_writes [OF assms(1-4) enc, of fate limit, folded res_def]
    obtain h where h: "fst res \<in> {Ok (), Err RedisFailed}" "store_ok (snd res)" "store_holds contents decode (snd res) h"
        "\<forall>w. tail_after T stored limit (unbroken fate) (fst res = Ok ()) batch w (tails d w) (h w)"
      by blast
    have "\<exists>excess. \<forall>w. h w = tails (write_tail limit 1 excess e d) w"
      if e: "batch = [e]" "item_key T e = event_vehicle e" "fst res = Ok ()" for e
    proof -
      have tail: "\<exists>n. n \<le> length (tails d w) + length (items_of T w [e]) - limit \<and> (items_of T w [e] = [] \<longrightarrow> n = 0)
          \<and> h w = drop n (tails d w @ map stored (items_of T w [e]))" for w
        using h(4) e by (fastforce simp: tail_after_def)
      obtain n where n: "n \<le> length (tails d (event_vehicle e)) + 1 - limit" "h (event_vehicle e) = drop n (tails d (event_vehicle e) @ [stored e])"
        using tail [of "event_vehicle e"] e(2) by (auto simp: items_of_def)
      have "h w = tails (write_tail limit 1 n e d) w" for w
        using tail [of w] n e(2) by (cases "w = event_vehicle e") (auto simp: write_tail_def items_of_def)
      then show ?thesis by blast
    qed
    then show ?thesis using read False h by auto
  qed
qed

section \<open>A primary that trims exactly\<close>

definition list_server :: "(string \<Rightarrow> stream_entry list) redis_server" where
  "list_server = \<lparr>xrevrange = (\<lambda>s k n. take n (rev (s k))),
     xadd = (\<lambda>k limit e s. s(k := drop (Suc (length (s k)) - limit) (s k @ [e])))\<rparr>"

interpretation exact: stream_server list_server "\<lambda>s k. s k"
  by unfold_locales (auto simp: list_server_def)

definition first_event :: "unit raw_event" where
  "first_event = \<lparr>event_vehicle = 1, event_point = (), event_time = 5000\<rparr>"

definition one_event :: "unit raw_event storable" where
  "one_event = \<lparr>item_key = event_vehicle, shard_text = (\<lambda>e. ''u4pr''), to_bytes = (\<lambda>e. if e = first_event then Some [] else None)\<rparr>"

definition one_primary :: "(string \<Rightarrow> stream_entry list) redis_store" where
  "one_primary = \<lparr>conns = [\<lambda>k. []], seeds = placement_new [''a'']\<rparr>"

definition no_tails :: "(nat, unit) durable" where
  "no_tails = \<lparr>tails = \<lambda>v. [], published = []\<rparr>"

theorem history_store_refines_tails_witness:
  "\<exists>h excess. store_holds (\<lambda>s k. s k) (\<lambda>b. Some (stored first_event)) (snd (store_write_many list_server one_event (\<lambda>n. None) one_primary [first_event] 10)) h
    \<and> h 1 = tails (write_tail 10 1 excess first_event no_tails) 1"
proof -
  let ?res = "store_write_many list_server one_event (\<lambda>n. None) one_primary [first_event] 10"
  have server: "stream_server list_server (\<lambda>s k. s k)" by unfold_locales
  have codec: "codec_ok one_event (\<lambda>b. Some (stored first_event)) stored" by (simp add: codec_ok_def one_event_def)
  have ok: "store_ok one_primary" by (simp add: store_ok_def one_primary_def placement_new_def)
  have holds: "store_holds (\<lambda>s k. s k) (\<lambda>b. Some (stored first_event)) one_primary (tails no_tails)"
  proof -
    have "stream_at (\<lambda>s k. s k) one_primary v = []" for v
    proof -
      obtain i where "index_for (seeds one_primary) (positions_key v) = Some i" "i < length (conns one_primary)" by (rule placed [OF ok])
      then show ?thesis by (simp add: stream_at_def one_primary_def)
    qed
    then show ?thesis by (simp add: store_holds_def no_tails_def)
  qed
  obtain i where "index_for (seeds one_primary) (positions_key 1) = Some i" "i < length (conns one_primary)" by (rule placed [OF ok])
  then have "fst ?res = Ok ()" by (simp add: store_write_many_def one_event_def first_event_def one_primary_def)
  moreover have "item_key one_event first_event = event_vehicle first_event" by (simp add: one_event_def)
  ultimately show ?thesis
    using history_store_refines_tails [OF server codec ok holds, of 1 5 "\<lambda>n. None" "[first_event]" 10] by blast
qed

end
