(* ===== verification/Snapshot_Diff.thy ===== *)
theory Snapshot_Diff
  imports Text_Ops Strategy
begin

text \<open>
  The comparison of benchmark snapshots (\<open>routers_viewer\<close>, \<open>bin/snapdiff\<close>: \<open>parse.rs\<close>, \<open>diff.rs\<close> and the
  loading of \<open>main.rs\<close>): a snapshot is parsed into its lines and coordinates, two snapshots are compared
  line by line, and how far the geometry moved is measured. The parser of decimal numbers, the distance
  and the sequence diff come from other crates; the diff promises edits that cover both sides in order.
\<close>

section \<open>Parsing\<close>

record coords_snapshot =
  snap_lines :: "string list"
  line_string :: "point list"

datatype snapshot_error =
  MissingOpener | NeverClosed | ExpectedPair nat string | TrailingTokens nat string | BadCoordinate

text \<open>\<open>lines\<close>: the pieces that end with a line feed, without it and a carriage return before it, and a last piece unless empty.\<close>

definition text_lines :: "string \<Rightarrow> string list" where
  "text_lines s =
     (let ps = split_all CHR 0x0A s
      in map (\<lambda>l. if l \<noteq> [] \<and> last l = CHR 0x0D then butlast l else l) (butlast ps) @ (if last ps = [] then [] else [last ps]))"

text \<open>The loop over the payload, with the index of its next line.\<close>

fun parse_payload :: "(string \<Rightarrow> real option) \<Rightarrow> nat \<Rightarrow> string list \<Rightarrow> (point list, snapshot_error) outcome" where
  "parse_payload f64 idx [] = Ok []"
| "parse_payload f64 idx (line # lines) =
     (case split_whitespace line of
        lon # lat # rest \<Rightarrow>
          (if rest \<noteq> [] then Err (TrailingTokens (idx + 1) line)
           else case f64 lon of
                  None \<Rightarrow> Err BadCoordinate
                | Some x \<Rightarrow>
                    (case f64 lat of
                       None \<Rightarrow> Err BadCoordinate
                     | Some y \<Rightarrow> and_then (parse_payload f64 (idx + 1) lines) (\<lambda>ps. Ok ((x, y) # ps))))
      | _ \<Rightarrow> Err (ExpectedPair (idx + 1) line))"

fun parse_frontmatter :: "(string \<Rightarrow> real option) \<Rightarrow> string list \<Rightarrow> (coords_snapshot, snapshot_error) outcome" where
  "parse_frontmatter f64 [] = Err NeverClosed"
| "parse_frontmatter f64 (line # lines) =
     (if trim line = ''---'' then
        let payload = map trim (filter (\<lambda>l. trim l \<noteq> []) lines)
        in and_then (parse_payload f64 0 payload) (\<lambda>ps. Ok \<lparr>snap_lines = payload, line_string = ps\<rparr>)
      else parse_frontmatter f64 lines)"

definition parse_coords_snap :: "(string \<Rightarrow> real option) \<Rightarrow> string \<Rightarrow> (coords_snapshot, snapshot_error) outcome" where
  "parse_coords_snap f64 content =
     (case text_lines content of
        l # ls \<Rightarrow> if trim l = ''---'' then parse_frontmatter f64 ls else Err MissingOpener
      | [] \<Rightarrow> Err MissingOpener)"

section \<open>Comparing\<close>

datatype diff_status = Added | Removed | Modified | Unchanged

definition badge :: "diff_status \<Rightarrow> string" where
  "badge s = (case s of Added \<Rightarrow> ''A'' | Removed \<Rightarrow> ''R'' | Modified \<Rightarrow> ''M'' | Unchanged \<Rightarrow> ''='')"

definition changed :: "diff_status \<Rightarrow> bool" where
  "changed s \<longleftrightarrow> s \<noteq> Unchanged"

text \<open>An edit: the start and the length of its old and of its new part.\<close>

datatype diff_op = EqualOp nat nat nat | DeleteOp nat nat nat | InsertOp nat nat nat | ReplaceOp nat nat nat nat

fun changed_spans :: "diff_op list \<Rightarrow> (nat \<times> nat) list \<times> (nat \<times> nat) list" where
  "changed_spans [] = ([], [])"
| "changed_spans (EqualOp old_index new_index len # ops) = changed_spans ops"
| "changed_spans (DeleteOp old_index old_len new_index # ops) =
     (let (b, h) = changed_spans ops in ((old_index, old_index + old_len) # b, h))"
| "changed_spans (InsertOp old_index new_index new_len # ops) =
     (let (b, h) = changed_spans ops in (b, (new_index, new_index + new_len) # h))"
| "changed_spans (ReplaceOp old_index old_len new_index new_len # ops) =
     (let (b, h) = changed_spans ops in ((old_index, old_index + old_len) # b, (new_index, new_index + new_len) # h))"

text \<open>The largest distance from a changed point to the other line; \<open>None\<close> is a slice that starts beyond its end.\<close>

definition nearest_distance :: "(point \<Rightarrow> point \<Rightarrow> real) \<Rightarrow> point list \<Rightarrow> point \<Rightarrow> real" where
  "nearest_distance haversine other c = (case other of [] \<Rightarrow> 0 | p # ps \<Rightarrow> fold min (map (haversine c) ps) (haversine c p))"

definition magnitude :: "(point \<Rightarrow> point \<Rightarrow> real) \<Rightarrow> point list \<Rightarrow> (nat \<times> nat) list \<Rightarrow> point list \<Rightarrow> real option" where
  "magnitude haversine from spans other =
     (if other = [] then Some 0
      else if \<exists>(s, e) \<in> set spans. s > min e (length from) then None
      else Some (fold max (map (nearest_distance haversine other) (concat (map (\<lambda>(s, e). slice (s, min e (length from)) from) spans))) 0))"

record fixture_diff =
  fixture :: string
  diff_status :: diff_status
  base_line :: "point list option"
  head_line :: "point list option"
  base_spans :: "(nat \<times> nat) list"
  head_spans :: "(nat \<times> nat) list"
  points_removed :: nat
  points_added :: nat
  magnitude_m :: real
  diff_error :: "snapshot_error option"

definition diff_compute ::
    "(string list \<Rightarrow> string list \<Rightarrow> diff_op list) \<Rightarrow> (point \<Rightarrow> point \<Rightarrow> real) \<Rightarrow> string \<Rightarrow> coords_snapshot option \<Rightarrow> coords_snapshot option \<Rightarrow> fixture_diff option" where
  "diff_compute capture_diff haversine name base head =
     (let status = (case (base, head) of
            (None, Some _) \<Rightarrow> Added
          | (Some _, None) \<Rightarrow> Removed
          | (Some b, Some h) \<Rightarrow> (if snap_lines b = snap_lines h then Unchanged else Modified)
          | _ \<Rightarrow> Modified);
          (bs, hs) = (case (base, head) of
            (Some b, Some h) \<Rightarrow> (if status = Modified then changed_spans (capture_diff (snap_lines b) (snap_lines h)) else ([], []))
          | _ \<Rightarrow> ([], []));
          moved = (case (base, head) of
            (Some b, Some h) \<Rightarrow>
              (case (magnitude haversine (line_string b) bs (line_string h), magnitude haversine (line_string h) hs (line_string b)) of
                 (Some x, Some y) \<Rightarrow> Some (max x y)
               | _ \<Rightarrow> None)
          | _ \<Rightarrow> Some 0)
      in map_option (\<lambda>m.
           \<lparr>fixture = name, diff_status = status, base_line = map_option line_string base, head_line = map_option line_string head,
            base_spans = bs, head_spans = hs, points_removed = sum_list (map range_len bs), points_added = sum_list (map range_len hs),
            magnitude_m = m, diff_error = None\<rparr>) moved)"

definition diff_parse_error :: "string \<Rightarrow> snapshot_error \<Rightarrow> fixture_diff" where
  "diff_parse_error name e =
     \<lparr>fixture = name, diff_status = Modified, base_line = None, head_line = None, base_spans = [], head_spans = [],
      points_removed = 0, points_added = 0, magnitude_m = 0, diff_error = Some e\<rparr>"

section \<open>Fixtures\<close>

definition COORDS_SUFFIX :: string where
  "COORDS_SUFFIX = ''_coords.snap''"

definition ends_with :: "string \<Rightarrow> string \<Rightarrow> bool" where
  "ends_with sfx s \<longleftrightarrow> length sfx \<le> length s \<and> drop (length s - length sfx) s = sfx"

definition strip_suffix :: "string \<Rightarrow> string \<Rightarrow> string option" where
  "strip_suffix sfx s = (if ends_with sfx s then Some (take (length s - length sfx) s) else None)"

definition fixture_name :: "string \<Rightarrow> string" where
  "fixture_name file =
     (let stem = (case strip_suffix COORDS_SUFFIX file of Some st \<Rightarrow> st | None \<Rightarrow> file)
      in case find_sub ''__'' stem of Some i \<Rightarrow> drop (i + 2) stem | None \<Rightarrow> stem)"

definition parse_side :: "(string \<Rightarrow> real option) \<Rightarrow> string option \<Rightarrow> (coords_snapshot option, snapshot_error) outcome" where
  "parse_side f64 content =
     (case content of None \<Rightarrow> Ok None | Some c \<Rightarrow> and_then (parse_coords_snap f64 c) (\<lambda>s. Ok (Some s)))"

definition compare_fixture ::
    "(string \<Rightarrow> real option) \<Rightarrow> (string list \<Rightarrow> string list \<Rightarrow> diff_op list) \<Rightarrow> (point \<Rightarrow> point \<Rightarrow> real)
      \<Rightarrow> string \<Rightarrow> string option \<Rightarrow> string option \<Rightarrow> fixture_diff option" where
  "compare_fixture f64 capture_diff haversine file base_txt head_txt =
     (case (parse_side f64 base_txt, parse_side f64 head_txt) of
        (Ok base, Ok head) \<Rightarrow> diff_compute capture_diff haversine (fixture_name file) base head
      | (Err e, _) \<Rightarrow> Some (diff_parse_error (fixture_name file) e)
      | (_, Err e) \<Rightarrow> Some (diff_parse_error (fixture_name file) e)
      | _ \<Rightarrow> None)"

section \<open>Laws\<close>

text \<open>Edits that cover both sequences in order, equal where they say so.\<close>

fun edits :: "nat \<Rightarrow> nat \<Rightarrow> diff_op list \<Rightarrow> 'a list \<Rightarrow> 'a list \<Rightarrow> bool" where
  "edits i j [] a b \<longleftrightarrow> a = [] \<and> b = []"
| "edits i j (EqualOp oi nj n # ops) a b \<longleftrightarrow>
     oi = i \<and> nj = j \<and> n \<le> length a \<and> n \<le> length b \<and> take n a = take n b \<and> edits (i + n) (j + n) ops (drop n a) (drop n b)"
| "edits i j (DeleteOp oi n nj # ops) a b \<longleftrightarrow> oi = i \<and> nj = j \<and> n \<le> length a \<and> edits (i + n) j ops (drop n a) b"
| "edits i j (InsertOp oi nj n # ops) a b \<longleftrightarrow> oi = i \<and> nj = j \<and> n \<le> length b \<and> edits i (j + n) ops a (drop n b)"
| "edits i j (ReplaceOp oi n nj m # ops) a b \<longleftrightarrow>
     oi = i \<and> nj = j \<and> n \<le> length a \<and> m \<le> length b \<and> edits (i + n) (j + m) ops (drop n a) (drop m b)"

definition diff_ok :: "(string list \<Rightarrow> string list \<Rightarrow> diff_op list) \<Rightarrow> bool" where
  "diff_ok capture_diff \<longleftrightarrow> (\<forall>a b. edits 0 0 (capture_diff a b) a b)"

text \<open>What lies outside the spans, from an index on; spans come in order.\<close>

fun outside :: "nat \<Rightarrow> (nat \<times> nat) list \<Rightarrow> 'a list \<Rightarrow> 'a list" where
  "outside i [] xs = xs"
| "outside i ((s, e) # spans) xs = take (s - i) xs @ outside e spans (drop (e - i) xs)"

fun spans_from :: "nat \<Rightarrow> nat \<Rightarrow> (nat \<times> nat) list \<Rightarrow> bool" where
  "spans_from i n [] \<longleftrightarrow> i \<le> n"
| "spans_from i n ((s, e) # spans) \<longleftrightarrow> i \<le> s \<and> s \<le> e \<and> spans_from e n spans"

lemma spans_from_later: "spans_from j n spans \<Longrightarrow> i \<le> j \<Longrightarrow> spans_from i n spans"
  by (cases spans rule: list.exhaust) auto

lemma spans_from_bound: "spans_from i n spans \<Longrightarrow> i \<le> n \<and> (\<forall>(s, e) \<in> set spans. s \<le> e \<and> e \<le> n)"
  by (induction i n spans rule: spans_from.induct) auto

lemma outside_later:
  "spans_from j (i + length xs) spans \<Longrightarrow> i \<le> j \<Longrightarrow> outside i spans xs = take (j - i) xs @ outside j spans (drop (j - i) xs)"
proof (cases spans rule: list.exhaust)
  case (Cons r rest)
  assume a: "spans_from j (i + length xs) spans" "i \<le> j"
  obtain s e where r: "r = (s, e)" by (cases r)
  have "j \<le> s" "s \<le> e" using a Cons r by simp_all
  then have "take (s - i) xs = take (j - i) xs @ take (s - j) (drop (j - i) xs)" "e - i = (e - j) + (j - i)"
    using \<open>i \<le> j\<close> by (simp_all flip: take_add)
  then show ?thesis by (simp add: Cons r)
qed simp

lemma changed_spans_spec:
  assumes "edits i j ops a b"
  shows "spans_from i (i + length a) (fst (changed_spans ops)) \<and> spans_from j (j + length b) (snd (changed_spans ops))
    \<and> outside i (fst (changed_spans ops)) a = outside j (snd (changed_spans ops)) b
    \<and> sum_list (map range_len (fst (changed_spans ops))) + length b = sum_list (map range_len (snd (changed_spans ops))) + length a"
  using assms
proof (induction i j ops a b rule: edits.induct)
  case (2 i j oi nj n ops a b)
  then have ih: "spans_from (i + n) (i + length a) (fst (changed_spans ops))" "spans_from (j + n) (j + length b) (snd (changed_spans ops))"
      "outside (i + n) (fst (changed_spans ops)) (drop n a) = outside (j + n) (snd (changed_spans ops)) (drop n b)"
      "sum_list (map range_len (fst (changed_spans ops))) + (length b - n) = sum_list (map range_len (snd (changed_spans ops))) + (length a - n)"
    by simp_all
  have "outside i (fst (changed_spans ops)) a = take n a @ outside (i + n) (fst (changed_spans ops)) (drop n a)"
      "outside j (snd (changed_spans ops)) b = take n b @ outside (j + n) (snd (changed_spans ops)) (drop n b)"
    using outside_later [OF ih(1)] outside_later [OF ih(2)] by simp_all
  then show ?case using 2(2) ih spans_from_later [OF ih(1), of i] spans_from_later [OF ih(2), of j] by simp linarith
qed (auto simp: Let_def range_len_def split: prod.split)

text \<open>
  What the comparison of two parsed snapshots shows: it never panics, the fixture is unchanged exactly if
  the lines are, outside the marked spans both sides have the same lines, and the counts account for
  the difference in length.
\<close>

lemma magnitude_ends:
  assumes "spans_from 0 (length from) spans"
  shows "\<exists>m \<ge> 0. magnitude haversine from spans other = Some m"
proof -
  have "\<not> (\<exists>(s, e) \<in> set spans. s > min e (length from))" using spans_from_bound [OF assms] by fastforce
  moreover have "0 \<le> fold max xs 0" for xs :: "real list"
  proof -
    have "a \<le> fold max xs a" for a by (induction xs arbitrary: a) (auto intro: order_trans [OF max.cobounded2])
    then show ?thesis .
  qed
  ultimately show ?thesis by (auto simp: magnitude_def)
qed

lemma diff_compute_spec:
  assumes "diff_ok capture_diff" "length (snap_lines b) = length (line_string b)" "length (snap_lines h) = length (line_string h)"
  shows "\<exists>d. diff_compute capture_diff haversine name (Some b) (Some h) = Some d \<and> (\<not> changed (diff_status d) \<longleftrightarrow> snap_lines b = snap_lines h)
    \<and> outside 0 (base_spans d) (snap_lines b) = outside 0 (head_spans d) (snap_lines h)
    \<and> points_removed d + length (snap_lines h) = points_added d + length (snap_lines b) \<and> 0 \<le> magnitude_m d"
proof -
  define ops where "ops = capture_diff (snap_lines b) (snap_lines h)"
  have e: "edits 0 0 ops (snap_lines b) (snap_lines h)" using assms(1) by (simp add: diff_ok_def ops_def)
  note spec = changed_spans_spec [OF e]
  obtain x where x: "x \<ge> 0" "magnitude haversine (line_string b) (fst (changed_spans ops)) (line_string h) = Some x"
    using magnitude_ends spec assms(2) by (metis add_0)
  obtain y where y: "y \<ge> 0" "magnitude haversine (line_string h) (snd (changed_spans ops)) (line_string b) = Some y"
    using magnitude_ends spec assms(3) by (metis add_0)
  obtain x' where x': "x' \<ge> 0" "magnitude haversine (line_string b) [] (line_string h) = Some x'" using magnitude_ends [of "line_string b" "[]"] by auto
  obtain y' where y': "y' \<ge> 0" "magnitude haversine (line_string h) [] (line_string b) = Some y'" using magnitude_ends [of "line_string h" "[]"] by auto
  show ?thesis
  proof (cases "snap_lines b = snap_lines h")
    case True
    then show ?thesis using x' y' by (simp add: diff_compute_def changed_def Let_def)
  next
    case False
    then show ?thesis using spec x y by (cases "changed_spans ops") (simp add: diff_compute_def changed_def Let_def flip: ops_def)
  qed
qed

text \<open>Without either side, as after two read errors, a fixture would be reported as modified.\<close>

lemma missing_sides:
  "map_option diff_status (diff_compute capture_diff haversine name None None) = Some Modified"
  "map_option diff_status (diff_compute capture_diff haversine name None (Some h)) = Some Added"
  "map_option diff_status (diff_compute capture_diff haversine name (Some b) None) = Some Removed"
  by (simp_all add: diff_compute_def)

text \<open>A parsed snapshot has one coordinate per line.\<close>

lemma parse_payload_length: "parse_payload f64 i ls = Ok ps \<Longrightarrow> length ps = length ls"
  by (induction f64 i ls arbitrary: ps rule: parse_payload.induct) (auto split: list.splits if_splits option.splits)

lemma parsed_lines_match: "parse_coords_snap f64 s = Ok sn \<Longrightarrow> length (snap_lines sn) = length (line_string sn)"
proof -
  have "parse_frontmatter f64 ls = Ok sn \<Longrightarrow> length (snap_lines sn) = length (line_string sn)" for ls
    by (induction ls) (auto simp: Let_def parse_payload_length split: if_splits)
  then show "parse_coords_snap f64 s = Ok sn \<Longrightarrow> length (snap_lines sn) = length (line_string sn)"
    by (auto simp: parse_coords_snap_def split: list.splits if_splits)
qed

lemma fixture_names:
  "fixture_name ''map_match__LAX_LYNWOOD_coords.snap'' = ''LAX_LYNWOOD''" "fixture_name ''plain_coords.snap'' = ''plain''"
  by code_simp+

end
