(* ===== verification/Shard_Files.thy ===== *)
theory Shard_Files
  imports Shard_Theorems Osm_Network_Laws
begin

unbundle bit_operations_syntax

text \<open>
  Shard files (\<open>bin/generate-shards.rs\<close>, the file functions of \<open>network.rs\<close>, \<open>loader/file.rs\<close>): the road
  network of a file is cut into one shard per inhabited geohash cell, each written to a file of its own and
  listed in a manifest; a service loads the shard of its cell from such a directory. A directory is a map
  from names to contents; what becomes of each write, and the iteration order of hash maps and sets, are
  parameters.
\<close>

type_synonym directory = "string \<rightharpoonup> bytes"

section \<open>The format hash\<close>

text \<open>
  The build script hashes the sources that define the file layout, each name followed by its contents; the
  hash is the version that files carry.
\<close>

definition fnv1a_from :: "bytes \<Rightarrow> 64 word \<Rightarrow> 64 word" where
  "fnv1a_from bs h = fold (\<lambda>b hash. (hash XOR ucast b) * 0x100000001b3) bs h"

definition build_format_hash :: "(bytes \<times> bytes) list \<Rightarrow> 64 word" where
  "build_format_hash files = fold (\<lambda>(rel, contents) h. fnv1a_from contents (fnv1a_from rel h)) files 0xcbf29ce484222325"

section \<open>The network as a source\<close>

definition PADDING_DISTANCE :: real where
  "PADDING_DISTANCE = 1000"

definition osm_source ::
    "(entry_id, 'g) graph_ops \<Rightarrow> (entry_id set \<Rightarrow> entry_id list) \<Rightarrow> 'g osm_network \<Rightarrow> (entry_id, edge_metadata) shard_source" where
  "osm_source G order N =
     \<lparr>source_nodes = map (\<lambda>k. (node_ident (the (on_hash N k)), node_position (the (on_hash N k)))) (order (dom (on_hash N))),
      source_edges = List.map_filter (\<lambda>(from, to, wt, i). map_option (\<lambda>md. (from, to, wt, md)) (on_meta N (edge_index i)))
        (dg_all_edges G (on_graph N))\<rparr>"

text \<open>The orders in which the network's nodes, the table of known nodes and the shard's nodes are iterated.\<close>

record iterations =
  it_hash :: "entry_id set \<Rightarrow> entry_id list"
  it_known :: "entry_id set \<Rightarrow> entry_id list"
  it_rows :: "entry_id set \<Rightarrow> entry_id list"
  it_cells :: "geohash set \<Rightarrow> geohash list"

definition cell_network ::
    "(entry_id, 'g) graph_ops \<Rightarrow> iterations \<Rightarrow> 'g osm_network \<Rightarrow> 's strategy_ops \<Rightarrow> 's
      \<Rightarrow> (entry_id, edge_metadata, 's, 'g) sharded" where
  "cell_network G it N st c =
     from_source G (it_known it) (it_rows it) (osm_source G (it_hash it) N) st (selection_new st c (OwnedAndPadded PADDING_DISTANCE))"

section \<open>Files\<close>

text \<open>
  \<open>wr\<close> tells what becomes of a write to a file: it succeeds (\<open>None\<close>), or fails and leaves something there.
\<close>

definition write_file ::
    "(string \<Rightarrow> bytes option option) \<Rightarrow> string \<Rightarrow> bytes \<Rightarrow> directory \<Rightarrow> bool \<times> directory" where
  "write_file wr path bs d =
     (case wr path of None \<Rightarrow> (True, d(path \<mapsto> bs)) | Some left \<Rightarrow> (False, d(path := left)))"

datatype save_shard_error = EncodeShard cache_error | WriteShard

definition save_to_file ::
    "('e, 'm, 's, 'g) shard_env \<Rightarrow> (string \<Rightarrow> bytes option option) \<Rightarrow> string \<Rightarrow> ('e, 'm, 's, 'g) sharded \<Rightarrow> directory
      \<Rightarrow> (unit, save_shard_error) outcome \<times> directory" where
  "save_to_file E wr path N d =
     (case to_cache_bytes E N of
        Ok bs \<Rightarrow> (case write_file wr path bs d of (ok, d') \<Rightarrow> (if ok then Ok () else Err WriteShard, d'))
      | Err e \<Rightarrow> (Err (EncodeShard e), d)
      | Panic \<Rightarrow> (Panic, d))"

datatype file_fetch_error = FileIo

definition file_fetch :: "directory \<Rightarrow> string \<Rightarrow> (bytes, file_fetch_error) outcome" where
  "file_fetch d key = (case d key of Some bs \<Rightarrow> Ok bs | None \<Rightarrow> Err FileIo)"

text \<open>The name of a shard's file. \<open>None\<close> is the panic of printing a hash with a digit above 31.\<close>

definition shard_file :: "geohash \<Rightarrow> string option" where
  "shard_file g = map_option (\<lambda>cs. map char_of cs @ ''.shard.rt'') (geohash_display g)"

section \<open>Generating the shards of a network\<close>

definition build_cell ::
    "(entry_id, edge_metadata, geohash, 'g) shard_env \<Rightarrow> iterations \<Rightarrow> (string \<Rightarrow> bytes option option) \<Rightarrow> 'g osm_network \<Rightarrow> geohash strategy_ops
      \<Rightarrow> geohash \<Rightarrow> directory \<Rightarrow> (geohash, save_shard_error) outcome \<times> directory" where
  "build_cell E it wr N st c d =
     (let net = cell_network (env_graph E) it N st c
      in case shard_file (sn_owned net) of
           None \<Rightarrow> (Panic, d)
         | Some path \<Rightarrow>
             (case save_to_file E wr path net d of
                (Ok _, d') \<Rightarrow> (Ok (sn_owned net), d')
              | (Err e, d') \<Rightarrow> (Err e, d')
              | (Panic, d') \<Rightarrow> (Panic, d')))"

text \<open>The cells in turn, the built ones apart from the failures; \<open>None\<close> is a panic.\<close>

fun build_cells ::
    "(entry_id, edge_metadata, geohash, 'g) shard_env \<Rightarrow> iterations \<Rightarrow> (string \<Rightarrow> bytes option option) \<Rightarrow> 'g osm_network \<Rightarrow> geohash strategy_ops
      \<Rightarrow> geohash list \<Rightarrow> directory \<Rightarrow> (geohash list \<times> save_shard_error list \<times> directory) option" where
  "build_cells E it wr N st [] d = Some ([], [], d)"
| "build_cells E it wr N st (c # cells) d =
     (case build_cell E it wr N st c d of
        (Ok own, d') \<Rightarrow> map_option (\<lambda>(built, failed, d''). (own # built, failed, d'')) (build_cells E it wr N st cells d')
      | (Err e, d') \<Rightarrow> map_option (\<lambda>(built, failed, d''). (built, e # failed, d'')) (build_cells E it wr N st cells d')
      | (Panic, d') \<Rightarrow> None)"

definition located_cells :: "(entry_id set \<Rightarrow> entry_id list) \<Rightarrow> geohash strategy_ops \<Rightarrow> 'g osm_network \<Rightarrow> geohash set" where
  "located_cells order st N =
     fold (\<lambda>k cells. insert (st_locate st (node_position (the (on_hash N k)))) cells) (order (dom (on_hash N))) {}"

definition manifest_bytes :: "string list \<Rightarrow> bytes" where
  "manifest_bytes names = map of_char (join [CHR 0x0A] names)"

definition generate_shards ::
    "(entry_id, edge_metadata, geohash, 'g) shard_env \<Rightarrow> iterations \<Rightarrow> (string \<Rightarrow> bytes option option)
      \<Rightarrow> nat \<Rightarrow> string \<Rightarrow> 'g osm_network \<Rightarrow> directory \<Rightarrow> (geohash list \<times> save_shard_error list \<times> directory) option" where
  "generate_shards E it wr precision manifest_filename N d =
     Option.bind (geohash_with_precision precision) (\<lambda>p.
       let st = geohash_strategy_ops p; cells = located_cells (it_hash it) st N
       in Option.bind (build_cells E it wr N st (it_cells it cells) d) (\<lambda>(built, failed, d').
            Option.bind (those (map shard_file built)) (\<lambda>names.
              case write_file wr manifest_filename (manifest_bytes names) d' of
                (ok, d'') \<Rightarrow> if ok then Some (built, failed, d'') else None)))"

text \<open>
  The command: the network is read from a map file or from a saved network. The outer \<open>None\<close> is a reader
  that does not return, the inner one a panic, which a file that cannot be parsed also is.
\<close>

datatype file_input = PbfFile bytes | RtFile "bytes option"

definition open_network ::
    "pbf_env \<Rightarrow> 'g save_env \<Rightarrow> (entry_id, 'g) graph_ops \<Rightarrow> (entry_id set \<Rightarrow> entry_id list) \<Rightarrow> (string set \<Rightarrow> string list)
      \<Rightarrow> (speed_limit_entry \<Rightarrow> 'k::linorder) \<Rightarrow> (processed_element list \<Rightarrow> processed_element parts) \<Rightarrow> file_input
      \<Rightarrow> 'g osm_network option option" where
  "open_network P S G order tag_order debug grouping file =
     (case file of
        PbfFile buf \<Rightarrow>
          map_option (\<lambda>r. case r of Ok N \<Rightarrow> Some N | _ \<Rightarrow> None) (from_pbf P G order tag_order debug grouping buf)
      | RtFile saved \<Rightarrow>
          Some (case saved of None \<Rightarrow> None | Some bs \<Rightarrow> (case osm_from_bytes S G order bs of Ok N \<Rightarrow> Some N | _ \<Rightarrow> None)))"

section \<open>Starting and answering: the matcher service\<close>

definition start_matcher ::
    "('e, 'm, geohash, 'g) shard_env \<Rightarrow> directory \<Rightarrow> geohash \<Rightarrow> (('e, 'm, geohash, 'g) sharded, file_fetch_error load_error) outcome" where
  "start_matcher E d shard =
     (case shard_file shard of
        None \<Rightarrow> Panic
      | Some name \<Rightarrow> fst (load E (file_fetch d) (\<lambda>_. name) cache_new shard))"

text \<open>
  One request: without a reply inbox or with undecodable bytes it is dropped; otherwise the answer is sent
  to the inbox, unless it cannot be encoded.
\<close>

definition answer_request ::
    "(bytes \<Rightarrow> 'ctx option) \<Rightarrow> ('reply \<Rightarrow> bytes option) \<Rightarrow> ('ctx \<Rightarrow> 'reply) \<Rightarrow> 'inbox option \<Rightarrow> bytes \<Rightarrow> ('inbox \<times> bytes) option" where
  "answer_request decode encode solve reply message =
     (case reply of
        None \<Rightarrow> None
      | Some inbox \<Rightarrow>
          (case decode message of
             None \<Rightarrow> None
           | Some ctx \<Rightarrow> map_option (\<lambda>bs. (inbox, bs)) (encode (solve ctx))))"

end
