(* ===== verification/Shard_Files_Laws.thy ===== *)
theory Shard_Files_Laws
  imports Shard_Files Osm_Theorems Match_Service Partition "HOL-Library.List_Lexorder"
begin

text \<open>
  What a generated directory holds: the source a network offers is the network, the file names of cells
  differ, and every inhabited cell is either among the failures or loads as the part of the network the
  cell stands for.
\<close>

section \<open>The network as a source\<close>

lemma map_of_unique:
  assumes "(k, v) \<in> set xs" "\<And>v'. (k, v') \<in> set xs \<Longrightarrow> v' = v"
  shows "map_of xs k = Some v"
proof -
  obtain v' where "map_of xs k = Some v'" using weak_map_of_SomeI [OF assms(1)] by blast
  then show ?thesis using assms(2) [OF map_of_SomeD] by simp
qed

definition names_right :: "'g osm_network \<Rightarrow> bool" where
  "names_right N \<longleftrightarrow> finite (dom (on_hash N)) \<and> (\<forall>k n. on_hash N k = Some n \<longrightarrow> node_ident n = k)"

lemma known_osm_source:
  assumes "orders order" "names_right N"
  shows "known_nodes (osm_source G order N) = (\<lambda>k. map_option node_position (on_hash N k))"
proof (rule ext)
  fix k
  let ?pairs = "map (\<lambda>k. (node_ident (the (on_hash N k)), node_position (the (on_hash N k)))) (order (dom (on_hash N)))"
  have set: "set ?pairs = {(k, node_position n) | k n. on_hash N k = Some n}"
    using assms by (force simp: orders_def names_right_def image_iff dom_def)
  show "known_nodes (osm_source G order N) k = map_option node_position (on_hash N k)"
  proof (cases "on_hash N k")
    case None
    then have "k \<notin> fst ` set (rev ?pairs)" unfolding set_rev set by (auto simp: image_iff)
    then have "map_of (rev ?pairs) k = None" by (simp only: map_of_eq_None_iff not_False_eq_True)
    then show ?thesis by (simp only: known_nodes_def osm_source_def shard_source.simps None option.map)
  next
    case (Some n)
    have "map_of (rev ?pairs) k = Some (node_position n)"
      by (rule map_of_unique) (unfold set_rev set, use Some in auto)
    then show ?thesis by (simp only: known_nodes_def osm_source_def shard_source.simps Some option.map)
  qed
qed

lemma source_edges_osm:
  assumes "graph_map G"
  shows "(a, b, w, md) \<in> set (source_edges (osm_source G order N))
    \<longleftrightarrow> (\<exists>i. dg_edge_weight G (on_graph N) a b = Some (w, i) \<and> on_meta N (edge_index i) = Some md)"
  by (force simp: osm_source_def List.map_filter_def graph_map.all_edges [OF assms] image_iff)

lemma last_weight_osm:
  assumes "graph_map G" "dg_edge_weight G (on_graph N) a b = Some (w, i)" "on_meta N (edge_index i) \<noteq> None"
  shows "last_weight (source_edges (osm_source G order N)) a b = Some w"
proof -
  let ?es = "source_edges (osm_source G order N)"
  obtain md where "on_meta N (edge_index i) = Some md" using assms(3) by blast
  then have "(a, b, w, md) \<in> set ?es" using assms(2) by (auto simp: source_edges_osm [OF assms(1)])
  then have "((a, b), w) \<in> set (rev (map (\<lambda>(a, b, w, m). ((a, b), w)) ?es))" by force
  then show ?thesis unfolding last_weight_def
    by (rule map_of_unique) (use assms(2) in \<open>auto simp: source_edges_osm [OF assms(1)]\<close>)
qed

section \<open>File names\<close>

lemma set_those: "those (map f xs) = Some ys \<Longrightarrow> y \<in> set ys \<Longrightarrow> \<exists>x \<in> set xs. f x = Some y"
  by (induction xs arbitrary: ys) (auto split: option.splits)

lemma display_small: "geohash_display g = Some cs \<Longrightarrow> c \<in> set cs \<Longrightarrow> c < 256"
  using BASE32_ascii(1,2) nth_mem [of _ BASE32] unfolding geohash_display_def
  by (fastforce dest!: set_those split: if_splits)

lemma shard_file_total: "geohash_valid n g \<Longrightarrow> 1 \<le> n \<Longrightarrow> n \<le> 12 \<Longrightarrow> \<exists>name. shard_file g = Some name"
  using geohash_print_parse [of n g] by (auto simp: shard_file_def)

lemma char_of_inj: "\<forall>c \<in> set xs. c < 256 \<Longrightarrow> \<forall>c \<in> set ys. c < 256 \<Longrightarrow> map char_of xs = (map char_of ys :: string) \<Longrightarrow> xs = (ys :: nat list)"
proof -
  assume small: "\<forall>c \<in> set xs. c < 256" "\<forall>c \<in> set ys. c < 256" and "map char_of xs = (map char_of ys :: string)"
  then have "map of_char (map char_of xs :: string) = (map of_char (map char_of ys :: string) :: nat list)" by simp
  then have "map (\<lambda>c. c mod 256) xs = map (\<lambda>c. c mod 256) ys" by (simp add: comp_def)
  moreover have "map (\<lambda>c. c mod 256) zs = zs" if "\<forall>c \<in> set zs. c < 256" for zs :: "nat list"
    by (rule map_idI) (use that in simp)
  ultimately show ?thesis using small by simp
qed

lemma shard_file_inj:
  assumes "geohash_valid n g" "geohash_valid n h" "1 \<le> n" "n \<le> 12" "shard_file g = shard_file h"
  shows "g = h"
proof -
  obtain xs ys where d: "geohash_display g = Some xs" "geohash_from_str xs = Ok g" "geohash_display h = Some ys" "geohash_from_str ys = Ok h"
    using geohash_print_parse [OF assms(1,3,4)] geohash_print_parse [OF assms(2,3,4)] by blast
  then have "map char_of xs = (map char_of ys :: string)" using assms(5) by (simp add: shard_file_def)
  then have "xs = ys" using char_of_inj display_small [OF d(1)] display_small [OF d(3)] by blast
  then show ?thesis using d by simp
qed

section \<open>Building the cells\<close>

text \<open>The contents of a cell's file, if it is written.\<close>

definition cell_bytes ::
    "(entry_id, edge_metadata, geohash, 'g) shard_env \<Rightarrow> iterations \<Rightarrow> 'g osm_network \<Rightarrow> geohash strategy_ops \<Rightarrow> geohash \<Rightarrow> (bytes, cache_error) outcome" where
  "cell_bytes E it N st c = to_cache_bytes E (cell_network (env_graph E) it N st c)"

definition cell_built ::
    "(entry_id, edge_metadata, geohash, 'g) shard_env \<Rightarrow> iterations \<Rightarrow> (string \<Rightarrow> bytes option option) \<Rightarrow> 'g osm_network
      \<Rightarrow> geohash strategy_ops \<Rightarrow> geohash \<Rightarrow> bool" where
  "cell_built E it wr N st c \<longleftrightarrow> (\<exists>bs. cell_bytes E it N st c = Ok bs) \<and> wr (the (shard_file c)) = None"

lemma cell_network_owned:
  "graph_map G \<Longrightarrow> orders (it_known it) \<Longrightarrow> sn_owned (cell_network G it N st c) = c"
  by (simp add: cell_network_def graph_map.from_source_assembled(3) [OF _ _ refl] selection_new_def)

lemma build_cell_cases:
  assumes "graph_map (env_graph E)" "orders (it_known it)" "shard_file c = Some name"
  obtains (built) bs where "cell_built E it wr N st c" "cell_bytes E it N st c = Ok bs"
      "build_cell E it wr N st c d = (Ok c, d(name \<mapsto> bs))"
    | (failed) e left where "\<not> cell_built E it wr N st c" "build_cell E it wr N st c d = (Err e, d(name := left))"
proof (cases "to_cache_bytes E (cell_network (env_graph E) it N st c)")
  case (Ok bs)
  show ?thesis
  proof (cases "wr name")
    case None
    then show ?thesis using Ok assms built
      by (simp add: cell_built_def cell_bytes_def build_cell_def save_to_file_def write_file_def cell_network_owned)
  next
    case (Some left)
    then show ?thesis using Ok assms failed [of WriteShard left]
      by (simp add: cell_built_def cell_bytes_def build_cell_def save_to_file_def write_file_def cell_network_owned)
  qed
next
  case (Err e)
  then show ?thesis using assms failed [of "EncodeShard e" "d name"]
    by (simp add: cell_built_def cell_bytes_def build_cell_def save_to_file_def cell_network_owned)
next
  case Panic
  then show ?thesis by (simp add: to_cache_bytes_def split: option.splits)
qed

lemma build_cells_spec:
  assumes "graph_map (env_graph E)" "orders (it_known it)" "distinct cs"
    and "\<forall>c \<in> set cs. shard_file c \<noteq> None" "inj_on shard_file (set cs)"
  shows "\<exists>built failed d'. build_cells E it wr N st cs d = Some (built, failed, d')
    \<and> built = filter (cell_built E it wr N st) cs \<and> length failed = length cs - length built
    \<and> (\<forall>c \<in> set built. \<exists>bs. cell_bytes E it N st c = Ok bs \<and> d' (the (shard_file c)) = Some bs)
    \<and> (\<forall>name. (\<forall>c \<in> set cs. shard_file c \<noteq> Some name) \<longrightarrow> d' name = d name)"
  using assms(3-5)
proof (induction cs arbitrary: d)
  case (Cons c cs)
  obtain name where name: "shard_file c = Some name" using Cons.prems(2) by auto
  have others: "\<forall>c' \<in> set cs. shard_file c' \<noteq> Some name"
    using Cons.prems(1,3) name by (auto simp: inj_on_def)
  have IH: "\<exists>built failed d'. build_cells E it wr N st cs d = Some (built, failed, d')
    \<and> built = filter (cell_built E it wr N st) cs \<and> length failed = length cs - length built
    \<and> (\<forall>c \<in> set built. \<exists>bs. cell_bytes E it N st c = Ok bs \<and> d' (the (shard_file c)) = Some bs)
    \<and> (\<forall>name. (\<forall>c \<in> set cs. shard_file c \<noteq> Some name) \<longrightarrow> d' name = d name)" for d
    using Cons.IH [of d] Cons.prems by (simp add: inj_on_def)
  from assms(1,2) name show ?case
  proof (cases rule: build_cell_cases [where wr = wr and N = N and st = st and d = d])
    case (built bs)
    then show ?thesis using IH [of "d(name \<mapsto> bs)"] others name by (auto simp: Suc_diff_le length_filter_le)
  next
    case (failed e left)
    then show ?thesis using IH [of "d(name := left)"] others name by (auto simp: Suc_diff_le length_filter_le)
  qed
qed simp

lemma located_cells_set:
  assumes "orders order" "finite (dom (on_hash N))"
  shows "located_cells order st N = (\<lambda>n. st_locate st (node_position n)) ` ran (on_hash N)"
proof -
  have "fold (\<lambda>k cells. insert (f k) cells) ks A = A \<union> f ` set ks" for f :: "entry_id \<Rightarrow> geohash" and ks A
    by (induction ks arbitrary: A) auto
  moreover have "set (order (dom (on_hash N))) = dom (on_hash N)" using assms by (simp add: orders_def)
  ultimately show ?thesis unfolding located_cells_def by (force simp: ran_def dom_def image_iff)
qed

section \<open>What a cell holds\<close>

text \<open>
  The part of a network that the shard of a cell stands for: the nodes located in the cell or in its padded
  bounds and the roads between them, with their weights. Whatever else a shard holds are nodes of the network
  that roads lead to from there, and roads of the network between held nodes.
\<close>

definition in_cell :: "'s strategy_ops \<Rightarrow> 's \<Rightarrow> point \<Rightarrow> bool" where
  "in_cell st c = admits st (selection_new st c (OwnedAndPadded PADDING_DISTANCE))"

definition road_links :: "(entry_id, 'g) graph_ops \<Rightarrow> 'g osm_network \<Rightarrow> (entry_id \<times> entry_id) set" where
  "road_links G N = {(a, b). has_edge G (on_graph N) a b}"

definition cell_holds ::
    "(entry_id, 'g) graph_ops \<Rightarrow> 'g osm_network \<Rightarrow> 's strategy_ops \<Rightarrow> 's \<Rightarrow> (entry_id, edge_metadata, 's, 'g) sharded \<Rightarrow> bool" where
  "cell_holds G N st c S \<longleftrightarrow> sn_owned S = c
     \<and> (\<forall>k n. on_hash N k = Some n \<longrightarrow> in_cell st c (node_position n) \<longrightarrow> sn_hash S k = Some n)
     \<and> (\<forall>a b n m wt i. on_hash N a = Some n \<longrightarrow> in_cell st c (node_position n) \<longrightarrow> on_hash N b = Some m \<longrightarrow> in_cell st c (node_position m)
          \<longrightarrow> dg_edge_weight G (on_graph N) a b = Some (wt, i) \<longrightarrow> (\<exists>j. dg_edge_weight G (sn_graph S) a b = Some (wt, j)))
     \<and> (\<forall>k n. sn_hash S k = Some n \<longrightarrow> on_hash N k = Some n
          \<and> (\<exists>a m. on_hash N a = Some m \<and> in_cell st c (node_position m) \<and> (a, k) \<in> (road_links G N)\<^sup>*))
     \<and> (\<forall>a b wt j. dg_edge_weight G (sn_graph S) a b = Some (wt, j) \<longrightarrow>
          sn_hash S a \<noteq> None \<and> sn_hash S b \<noteq> None \<and> (\<exists>i. dg_edge_weight G (on_graph N) a b = Some (wt, i)))"

lemma located_in_cell: "st_locate st p = c \<Longrightarrow> in_cell st c p"
  by (simp add: in_cell_def admits_def selection_new_def selection_contains_def)

lemma osm_ok_names: "osm_ok G els N \<Longrightarrow> finite (dom (on_hash N)) \<Longrightarrow> names_right N"
  unfolding osm_ok_def names_right_def by blast

lemma driven_has_metadata:
  assumes "osm_ok G els N" "drives els a b wt i"
  shows "on_meta N (edge_index i) \<noteq> None"
proof -
  obtain w where w: "w \<in> set (ways_of els)" "class_of w \<noteq> None" "edge_index i = way_id w"
    using assms(2) unfolding drives_def by auto
  note metas = assms(1) [unfolded osm_ok_def, THEN conjunct2, THEN conjunct2, THEN conjunct2, THEN conjunct2, THEN spec, of "way_id w"]
  show ?thesis using metas w by (cases "on_meta N (way_id w)") auto
qed

lemma edge_drives: "osm_ok G els N \<Longrightarrow> dg_edge_weight G (on_graph N) a b = Some (wt, i) \<Longrightarrow> drives els a b wt i"
  unfolding osm_ok_def by (elim conjE, erule allE [of _ a], erule allE [of _ b]) simp

lemma driven_edge: "osm_ok G els N \<Longrightarrow> drives els a b wt i \<Longrightarrow> \<exists>wt' i'. dg_edge_weight G (on_graph N) a b = Some (wt', i')"
  unfolding osm_ok_def by (elim conjE, erule allE [of _ a], erule allE [of _ b]) (auto split: option.splits)

lemma cell_network_holds:
  assumes G: "graph_map G" and it: "orders (it_known it)" "orders (it_hash it)"
    and ok: "osm_ok G els N" and names: "names_right N"
  shows "cell_holds G N st c (cell_network G it N st c)"
proof -
  let ?S = "cell_network G it N st c" and ?src = "osm_source G (it_hash it) N"
  let ?sel = "selection_new st c (OwnedAndPadded PADDING_DISTANCE)"
  have known: "known_nodes ?src k = map_option node_position (on_hash N k)" for k
    by (simp add: known_osm_source [OF it(2) names])
  have adm: "k \<in> admitted ?src st ?sel \<longleftrightarrow> (\<exists>n. on_hash N k = Some n \<and> in_cell st c (node_position n))" for k
    by (auto simp: admitted_def known in_cell_def dom_def)
  have S: "graph_map.assembled G (known_nodes ?src) (admitted ?src st ?sel) (source_edges ?src) (sn_graph ?S, sn_hash ?S, sn_meta ?S)"
    by (rule graph_map.from_source_assembled(1) [OF G it(1) cell_network_def])
  have nodes: "\<forall>k \<in> dom (sn_hash ?S). k \<in> dom (known_nodes ?src) \<and> sn_hash ?S k = map_option (\<lambda>p. node_new p k) (known_nodes ?src k)"
    using S unfolding graph_map.assembled_def [OF G] nodes_ok_def by blast
  have same: "on_hash N k = Some m" if "sn_hash ?S k = Some m" for k m
  proof -
    have "sn_hash ?S k = map_option (\<lambda>p. node_new p k) (map_option node_position (on_hash N k))"
      using nodes [THEN bspec, of k] that by (simp add: known domI)
    then show ?thesis using that names by (cases "on_hash N k") (auto simp: names_right_def node_new_def)
  qed
  have held: "sn_hash ?S k = Some n" if "on_hash N k = Some n" "in_cell st c (node_position n)" for k n
  proof -
    have "k \<in> dom (sn_hash ?S)" using S that adm unfolding graph_map.assembled_def [OF G] complete_for_def by blast
    then obtain m where "sn_hash ?S k = Some m" by blast
    then show ?thesis using same [of k m] that(1) by simp
  qed
  have edges: "\<exists>j. dg_edge_weight G (sn_graph ?S) a b = Some (wt, j)"
    if "on_hash N a = Some n" "in_cell st c (node_position n)" "on_hash N b = Some m" "in_cell st c (node_position m)"
      and e: "dg_edge_weight G (on_graph N) a b = Some (wt, i)" for a b n m wt i
  proof -
    have "last_weight (source_edges ?src) a b = Some wt"
      by (rule last_weight_osm [OF G e]) (rule driven_has_metadata [OF ok edge_drives [OF ok e]])
    moreover have "a \<in> admitted ?src st ?sel" "b \<in> admitted ?src st ?sel" using that(1-4) adm by blast+
    note graph_map.from_source_edges [OF G it(1) cell_network_def this]
    ultimately show ?thesis by simp
  qed
  have sound: "sn_hash ?S a \<noteq> None \<and> sn_hash ?S b \<noteq> None \<and> (\<exists>i. dg_edge_weight G (on_graph N) a b = Some (wt, i))"
    if "dg_edge_weight G (sn_graph ?S) a b = Some (wt, j)" for a b wt j
  proof -
    have k: "a \<in> dom (sn_hash ?S)" "b \<in> dom (sn_hash ?S)" "last_weight (source_edges ?src) a b = Some wt"
      using S that unfolding graph_map.assembled_def [OF G] edges_ok_def by blast+
    from last_weight_in [OF k(3)] obtain md where "(a, b, wt, md) \<in> set (source_edges ?src)" by (elim exE)
    then show ?thesis using k(1,2) unfolding source_edges_osm [OF G] by blast
  qed
  have within: "dom (sn_hash ?S) \<subseteq> (road_links G N)\<^sup>* `` admitted ?src st ?sel"
    by (rule graph_map.from_source_within [OF G it(1) cell_network_def])
      (auto simp: source_edges_osm [OF G] road_links_def has_edge_def intro: rtrancl_into_rtrancl)
  have reached: "on_hash N k = Some n \<and> (\<exists>a m. on_hash N a = Some m \<and> in_cell st c (node_position m) \<and> (a, k) \<in> (road_links G N)\<^sup>*)"
    if "sn_hash ?S k = Some n" for k n
    using same [OF that] within that adm by blast
  show ?thesis unfolding cell_holds_def
  proof (intro conjI allI impI)
    show "sn_owned ?S = c" by (rule cell_network_owned [OF G it(1)])
  qed (use held edges reached sound in blast)+
qed

lemma cell_holds_rebuild: "cell_holds G N st c (rebuild_indices G' order S) = cell_holds G N st c S"
  by (simp add: cell_holds_def)

text \<open>A service that starts on a written shard file gets the shard, with its indices rebuilt.\<close>

lemma start_from_file:
  assumes "codec_round_trips E" "to_cache_bytes E S = Ok bs" "shard_file c = Some name" "d name = Some bs"
  shows "start_matcher E d c = Ok (rebuild_indices (env_graph E) (env_order E) S)"
  by (simp add: start_matcher_def assms(3,4) load_cases cache_new_def fetch_shard_def file_fetch_def cache_bytes_round_trip [OF assms(1,2)])

section \<open>The generated directory\<close>

definition iterations_ok :: "iterations \<Rightarrow> bool" where
  "iterations_ok it \<longleftrightarrow> orders (it_hash it) \<and> orders (it_known it) \<and> (\<forall>A. finite A \<longrightarrow> set (it_cells it A) = A \<and> distinct (it_cells it A))"

text \<open>
  (C39) From a map file to the shards of its cells. Over the network of a file's elements, generating shards
  of any allowed precision never panics when the manifest can be written under a name of its own. Every node
  of the network lies in a cell that is either listed in the manifest or counted as a failure, which it is
  only if its shard could not be encoded or its file not written. Every listed cell is the cell of a node and
  loads in a service that starts on the directory, as a shard that holds the nodes located in the cell or in its
  padded bounds and the roads between them with their weights, and beyond these only nodes that roads of
  the network lead to from there and roads of the network between held nodes.
\<close>

theorem generated_shards_hold_network:
  fixes p :: "processed_element parts" and G :: "(entry_id, 'g) graph_ops"
  assumes G: "osm_queries G t order" and net: "network_of_elements G order debug p = Ok N"
    and E: "env_graph E = G" "codec_round_trips E" and it: "iterations_ok it"
    and precision: "1 \<le> n" "n \<le> 12" and manifest: "wr manifest = None" "\<forall>c. shard_file c \<noteq> Some manifest"
  shows "\<exists>built failed d'. generate_shards E it wr n manifest N d = Some (built, failed, d')
    \<and> d' manifest = Some (manifest_bytes (map (\<lambda>c. the (shard_file c)) built))
    \<and> (\<forall>k v. on_hash N k = Some v \<longrightarrow>
        (let c = geohash_locate n (node_position v)
         in c \<in> set built \<or> failed \<noteq> [] \<and> (to_allocvec E (cell_network G it N (geohash_strategy_ops n) c) = None \<or> wr (the (shard_file c)) \<noteq> None)))
    \<and> set built \<subseteq> (\<lambda>v. geohash_locate n (node_position v)) ` ran (on_hash N)
    \<and> (\<forall>c \<in> set built. \<exists>S. start_matcher E d' c = Ok S \<and> cell_holds G N (geohash_strategy_ops n) c S)"
proof -
  let ?st = "geohash_strategy_ops n" and ?built = "filter (cell_built E it wr N (geohash_strategy_ops n))"
  have gm: "graph_map G" using G by (simp add: osm_queries_def shard_queries_def)
  have ok: "osm_ok G (contents p) N" by (rule osm_queries.network_of_elements_ok [OF G net])
  have fin: "finite (dom (on_hash N))" by (rule osm_queries.network_indexed(2) [OF G net])
  define cs where "cs = it_cells it (located_cells (it_hash it) ?st N)"
  have cells: "located_cells (it_hash it) ?st N = (\<lambda>v. geohash_locate n (node_position v)) ` ran (on_hash N)"
    using it fin by (simp add: located_cells_set iterations_ok_def geohash_strategy_ops_def)
  have "finite (located_cells (it_hash it) ?st N)" unfolding cells using fin by (simp add: finite_ran)
  then have cs: "set cs = (\<lambda>v. geohash_locate n (node_position v)) ` ran (on_hash N)" "distinct cs"
    using it by (simp_all add: cs_def iterations_ok_def cells)
  have valid: "geohash_valid n c" if "c \<in> set cs" for c using that unfolding cs(1)
    by (elim imageE) (simp only: geohash_locate_spec(1) [OF precision(2)])
  have named: "\<forall>c \<in> set cs. shard_file c \<noteq> None" using shard_file_total [OF valid precision] by auto
  have inj: "inj_on shard_file (set cs)" by (rule inj_onI) (rule shard_file_inj [OF valid valid precision])
  obtain failed d' where run: "build_cells E it wr N ?st cs d = Some (?built cs, failed, d')"
      "length failed = length cs - length (?built cs)"
      "\<forall>c \<in> set (?built cs). \<exists>bs. cell_bytes E it N ?st c = Ok bs \<and> d' (the (shard_file c)) = Some bs"
    using build_cells_spec [OF gm [folded E(1)] _ cs(2) named inj, of it wr N ?st d] it by (auto simp: iterations_ok_def)
  let ?d = "d'(manifest \<mapsto> manifest_bytes (map (\<lambda>c. the (shard_file c)) (?built cs)))"
  have "those (map shard_file (?built cs)) = Some (map (\<lambda>c. the (shard_file c)) (?built cs))"
    by (rule those_map_Some) (use named in auto)
  then have gen: "generate_shards E it wr n manifest N d = Some (?built cs, failed, ?d)"
    using precision run(1) manifest(1) by (simp add: generate_shards_def geohash_with_precision_def Let_def write_file_def flip: cs_def)
  have place: "let c = geohash_locate n (node_position v)
       in c \<in> set (?built cs) \<or> failed \<noteq> [] \<and> (to_allocvec E (cell_network G it N ?st c) = None \<or> wr (the (shard_file c)) \<noteq> None)"
    if "on_hash N k = Some v" for k v
  proof -
    let ?c = "geohash_locate n (node_position v)"
    have c: "?c \<in> set cs" using that cs(1) by (auto simp: ran_def)
    show ?thesis
    proof (cases "cell_built E it wr N ?st ?c")
      case False
      then have "length (?built cs) < length cs" using c by (simp add: length_filter_less)
      then have "failed \<noteq> []" using run(2) by auto
      then show ?thesis using False E(1) by (auto simp: cell_built_def cell_bytes_def to_cache_bytes_def split: option.splits)
    qed (simp add: c)
  qed
  have loads: "\<exists>S. start_matcher E ?d c = Ok S \<and> cell_holds G N ?st c S" if c: "c \<in> set (?built cs)" for c
  proof -
    obtain name where name: "shard_file c = Some name" using c named by auto
    obtain bs where bs: "to_cache_bytes E (cell_network G it N ?st c) = Ok bs" "d' name = Some bs"
      using run(3) c name E(1) by (auto simp: cell_bytes_def)
    have "name \<noteq> manifest" using name manifest(2) by blast
    then have "?d name = Some bs" using bs(2) by simp
    note start_from_file [where d = ?d, OF E(2) bs(1) name this]
    then show ?thesis using cell_network_holds [OF gm _ _ ok osm_ok_names [OF ok fin], of it ?st c] it
      by (simp add: cell_holds_rebuild iterations_ok_def)
  qed
  have "set (?built cs) \<subseteq> (\<lambda>v. geohash_locate n (node_position v)) ` ran (on_hash N)" unfolding cs(1) [symmetric] by auto
  then show ?thesis using gen place loads by (intro exI [of _ "?built cs"] exI [of _ failed] exI [of _ ?d]) simp
qed

text \<open>The one-way street of \<open>Osm_Theorems\<close>, cut into geohashes of one character.\<close>

definition geohash_key :: "geohash \<Rightarrow> nat list" where
  "geohash_key g = gh_precision g # map unat (gh_data g)"

definition geohash_of_key :: "nat list \<Rightarrow> geohash" where
  "geohash_of_key ks = \<lparr>gh_data = map of_nat (tl ks), gh_precision = hd ks\<rparr>"

definition sorted_iterations :: iterations where
  "sorted_iterations = \<lparr>it_hash = sorted_list_of_set, it_known = sorted_list_of_set, it_rows = sorted_list_of_set,
     it_cells = (\<lambda>A. map geohash_of_key (sorted_list_of_set (geohash_key ` A)))\<rparr>"

lemma sorted_iterations_ok: "iterations_ok sorted_iterations"
proof -
  have key: "geohash_of_key (geohash_key g) = g" for g by (simp add: geohash_key_def geohash_of_key_def comp_def)
  have "inj_on geohash_of_key (geohash_key ` A)" for A by (rule inj_onI) (auto simp: key)
  then show ?thesis by (simp add: iterations_ok_def sorted_iterations_def image_image key distinct_map)
qed

definition street_shard :: "entry_id list_graph osm_network \<Rightarrow> (entry_id, edge_metadata, geohash, entry_id list_graph) sharded" where
  "street_shard N = cell_network list_graph sorted_iterations N (geohash_strategy_ops 1) (geohash_locate 1 (0, 0))"

definition street_env :: "entry_id list_graph osm_network \<Rightarrow> (entry_id, edge_metadata, geohash, entry_id list_graph) shard_env" where
  "street_env N = \<lparr>env_graph = list_graph, env_order = sorted_list_of_set, format_hash = 7,
     to_allocvec = (\<lambda>S. if without_indices S = without_indices (street_shard N) then Some [1] else None),
     from_bytes = (\<lambda>bs. Some (without_indices (street_shard N)))\<rparr>"

lemma street_nodes:
  assumes "osm_ok list_graph (contents street_parts) N"
  shows "on_hash N 1 = Some (node_new (0, 0) 1)" "on_hash N 2 \<noteq> None"
proof -
  have nodes: "nodes_of (contents street_parts) = [node_new (0, 0) 1, node_new (1, 0) 2, node_new (5, 5) 3]"
    by (simp add: street_parts_def nodes_of_def List.map_filter_def)
  have "\<forall>n \<in> set (nodes_of (contents street_parts)). (\<exists>x wt i. drives (contents street_parts) (node_ident n) x wt i
      \<or> drives (contents street_parts) x (node_ident n) wt i) \<longrightarrow> on_hash N (node_ident n) \<noteq> None"
    using assms unfolding osm_ok_def by blast
  then have known: "on_hash N 1 \<noteq> None" "on_hash N 2 \<noteq> None" by (simp_all add: nodes street_drives node_new_def)
  then obtain n where n: "on_hash N 1 = Some n" by blast
  have "n \<in> set (nodes_of (contents street_parts)) \<and> node_ident n = 1"
    using assms n unfolding osm_ok_def by blast
  then show "on_hash N 1 = Some (node_new (0, 0) 1)" "on_hash N 2 \<noteq> None"
    using n known(2) by (auto simp: nodes node_new_def)
qed

theorem generated_shards_hold_network_witness:
  "\<exists>N built failed d' S. network_of_elements list_graph sorted_list_of_set (\<lambda>e. 0 :: nat) street_parts = Ok N
    \<and> generate_shards (street_env N) sorted_iterations (\<lambda>name. None) 1 ''manifest.txt'' N Map.empty = Some (built, failed, d')
    \<and> start_matcher (street_env N) d' (geohash_locate 1 (0, 0)) = Ok S \<and> sn_hash S 1 = Some (node_new (0, 0) 1)"
proof -
  obtain N where N: "network_of_elements list_graph sorted_list_of_set (\<lambda>e. 0 :: nat) street_parts = Ok N"
    using street_network by blast
  have ok: "osm_ok list_graph (contents street_parts) N" by (rule list_osm.network_of_elements_ok [OF N])
  have codec: "codec_round_trips (street_env N)" by (auto simp: codec_round_trips_def street_env_def split: if_splits)
  have "shard_file c \<noteq> Some ''manifest.txt''" for c by (auto simp: shard_file_def append_eq_append_conv2 dest: arg_cong [where f = last])
  then have other: "\<forall>c. shard_file c \<noteq> Some ''manifest.txt''" by blast
  have G: "env_graph (street_env N) = list_graph" by (simp add: street_env_def)
  have writes: "to_allocvec (street_env N) (cell_network list_graph sorted_iterations N (geohash_strategy_ops 1) (geohash_locate 1 (0, 0))) \<noteq> None"
    by (simp add: street_env_def street_shard_def)
  obtain built failed d' where run:
      "generate_shards (street_env N) sorted_iterations (\<lambda>name. None) 1 ''manifest.txt'' N Map.empty = Some (built, failed, d')"
      "\<forall>k v. on_hash N k = Some v \<longrightarrow>
        (let c = geohash_locate 1 (node_position v)
         in c \<in> set built \<or> failed \<noteq> [] \<and> (to_allocvec (street_env N) (cell_network list_graph sorted_iterations N (geohash_strategy_ops 1) c) = None
           \<or> (\<lambda>name. None) (the (shard_file c)) \<noteq> (None :: bytes option option)))"
      "\<forall>c \<in> set built. \<exists>S. start_matcher (street_env N) d' c = Ok S
        \<and> cell_holds list_graph N (geohash_strategy_ops 1) c S"
    using generated_shards_hold_network [where E = "street_env N" and it = sorted_iterations and n = 1 and wr = "\<lambda>name. None" and d = Map.empty,
        OF list_osm.osm_queries_axioms N G codec sorted_iterations_ok _ _ refl other] by auto
  have "geohash_locate 1 (0, 0) \<in> set built"
    using run(2) [rule_format, OF street_nodes(1) [OF ok]] writes by (auto simp: node_new_def Let_def)
  with run(3) obtain S where S: "start_matcher (street_env N) d' (geohash_locate 1 (0, 0)) = Ok S"
      "cell_holds list_graph N (geohash_strategy_ops 1) (geohash_locate 1 (0, 0)) S" by blast
  have "in_cell (geohash_strategy_ops 1) (geohash_locate 1 (0, 0)) (node_position (node_new (0, 0) (1 :: entry_id)))"
    by (rule located_in_cell) (simp add: geohash_strategy_ops_def node_new_def)
  then have "sn_hash S 1 = Some (node_new (0, 0) 1)"
    using S(2) street_nodes [OF ok] unfolding cell_holds_def by blast
  then show ?thesis using N run(1) S(1) by blast
qed

section \<open>Versions and answers\<close>

text \<open>
  The version is the hash of the sources strung together, the hash of the vehicle placement, so it cannot tell
  where a name ends.
\<close>

lemma format_hash_strings_together: "build_format_hash files = fnv1a (concat (map (\<lambda>(rel, contents). rel @ contents) files))"
proof -
  have "fold (\<lambda>(rel, contents) h. fnv1a_from contents (fnv1a_from rel h)) files h
    = fold (\<lambda>b hash. (hash XOR ucast b) * 0x00000100000001b3) (concat (map (\<lambda>(rel, contents). rel @ contents) files)) h" for h
    by (induction files arbitrary: h) (auto simp: fnv1a_from_def)
  then show ?thesis by (simp add: build_format_hash_def fnv1a_def)
qed

text \<open>A decodable request with a reply inbox is answered, also when solving it panics, if its answer can be encoded.\<close>

lemma requests_are_answered:
  "decode message = Some ctx \<Longrightarrow> encode (service_answer m ctx) = Some bs
    \<Longrightarrow> answer_request decode encode (service_answer m) (Some inbox) message = Some (inbox, bs)"
  "service_solve m ctx = None \<Longrightarrow> decode message = Some ctx \<Longrightarrow> encode NoMatch = Some bs
    \<Longrightarrow> answer_request decode encode (service_answer m) (Some inbox) message = Some (inbox, bs)"
  by (simp_all add: answer_request_def service_answer_def)

section \<open>What the shards lose\<close>

text \<open>
  In a shard all edges out of a node share one identifier, that of the node, travelled forwards: the road
  and the direction of travel are gone, and where roads of different metadata leave a node, at most one of
  them keeps its own.
\<close>

lemma cell_edges_share_identity:
  assumes G: "graph_map G" "orders (it_known it)"
    and "dg_edge_weight G (sn_graph (cell_network G it N st c)) a b = Some (w, i)"
  shows "i = EdgeId a Outgoing"
  using graph_map.from_source_assembled(1) [OF G cell_network_def [where N = N and st = st and c = c]] assms(3)
  unfolding graph_map.assembled_def [OF G(1)] edges_ok_def prod.case edge_id_new.simps by blast

lemma crossing_loses_metadata:
  assumes G: "graph_map G" "orders (it_known it)"
    and "dg_edge_weight G (sn_graph (cell_network G it N st c)) a b = Some (w, i')"
    and "dg_edge_weight G (sn_graph (cell_network G it N st c)) a b' = Some (w', j')"
    and "on_meta N (edge_index i) \<noteq> on_meta N (edge_index j)"
  shows "sn_meta (cell_network G it N st c) (edge_index i') \<noteq> on_meta N (edge_index i)
    \<or> sn_meta (cell_network G it N st c) (edge_index j') \<noteq> on_meta N (edge_index j)"
  using cell_edges_share_identity [OF G assms(3)] cell_edges_share_identity [OF G assms(4)] assms(5) by auto

lemma nexts_of_those:
  "those (map (\<lambda>(_, nxt, w, e). map_option (\<lambda>p. (nxt, e, h w p)) (pos nxt)) es) = Some l
    \<Longrightarrow> map (\<lambda>(nxt, _, _). nxt) l = map (\<lambda>(_, nxt, _, _). nxt) es"
  by (induction es arbitrary: l) (auto split: option.splits)

text \<open>So on a shard, who may leave a node decides for all its edges at once.\<close>

lemma successors_all_or_none:
  assumes G: "graph_map G" "orders (it_known it)" and S: "S = cell_network G it N st c"
    and "successors_calculate geo (sharded_network G t S) acc rt key = Some l"
  shows "l = [] \<or> map (\<lambda>(nxt, _, _). nxt) l = map (\<lambda>(_, nxt, _, _). nxt) (sn_edges_outof G S key)"
proof -
  let ?out = "sn_edges_outof G S key"
  let ?may = "case sn_metadata S key of Some meta \<Rightarrow> acc meta rt Outgoing | None \<Rightarrow> False"
  have out: "i = EdgeId key Outgoing" if "(a, b, w, i) \<in> set ?out" for a b w i
  proof -
    have "dg_edge_weight G (sn_graph S) key b = Some (w, i)"
      using that by (simp add: sn_edges_outof_def graph_map.outgoing [OF G(1)])
    then show ?thesis unfolding S by (rule cell_edges_share_identity [OF G])
  qed
  have "filter (\<lambda>(_, _, _, e). case sn_metadata S (edge_index e) of Some meta \<Rightarrow> acc meta rt (edge_direction e) | None \<Rightarrow> False) ?out
      = filter (\<lambda>_. ?may) ?out"
    by (rule filter_cong [OF refl]) (auto dest!: out split: option.splits)
  then have "those (map (\<lambda>(_, nxt, w, e). map_option (\<lambda>p. (nxt, e, wad_new w (100 * haversine geo (the (sn_point S key)) p))) (sn_point S nxt))
      (if ?may then ?out else [])) = Some l"
    using assms(4) by (cases ?may) (auto simp: successors_calculate_def sharded_network_def split: option.splits)
  then show ?thesis by (cases ?may) (auto dest: nexts_of_those)
qed

text \<open>
  A road of the file that runs to a node the file does not have keeps its edge, and asking for the successors
  of its start is undefined: the position of the missing node is unwrapped unchecked.
\<close>

lemma those_None: "x \<in> set xs \<Longrightarrow> f x = None \<Longrightarrow> those (map f xs) = None"
  by (induction xs) (auto split: option.splits)

lemma clipped_road_is_undefined:
  assumes "graph_map G" "osm_ok G els N" "drives els a b wt i" "on_hash N b = None"
    and "\<And>md d. acc md rt d"
  shows "successors_calculate geo (osm_as_network G t N) acc rt a = None"
proof -
  obtain wt' i' where e: "dg_edge_weight G (on_graph N) a b = Some (wt', i')" using driven_edge [OF assms(2,3)] by blast
  obtain md where md: "on_meta N (edge_index i') = Some md"
    using driven_has_metadata [OF assms(2) edge_drives [OF assms(2) e]] by blast
  have out: "(a, b, wt', i') \<in> set (on_edges_outof G N a)" using e by (simp add: on_edges_outof_def graph_map.outgoing [OF assms(1)])
  show ?thesis
  proof (cases "on_hash N a")
    case (Some n)
    then show ?thesis unfolding successors_calculate_def osm_as_network_def
      by (auto simp: on_metadata_def on_point_def md assms(4,5) intro!: those_None [where x = "(a, b, wt', i')"] out)
  qed (simp add: successors_calculate_def osm_as_network_def on_point_def)
qed

end
