(* ===== verification/Replay.thy ===== *)
theory Replay
  imports Orchestrator Shard_Cache
begin

text \<open>
  The producer and the first hop of the realtime pipeline: the wire form of an observation (\<open>event.rs\<close>), the
  replay of a table of recorded observations (\<open>bin/replay.rs\<close>) and the forwarder of a partition
  (\<open>bin/orchestrator.rs\<close>). The table is the list of its rows, an instant is its nanoseconds since the epoch.
  The protobuf codec, the calendar's range and the hash of vehicle names are parameters; so are what becomes
  of each publication and the order in which the broker acknowledges them.
\<close>

section \<open>The wire form of an observation\<close>

record calendar_range =
  from_unix :: "int \<Rightarrow> int \<Rightarrow> int option"
  from_unix_micros :: "int \<Rightarrow> int option"

record proto_payload =
  pp_vehicle :: vehicle_id
  pp_timestamp :: "(int \<times> int) option"
  pp_point :: "point option"

definition to_proto :: "point payload \<Rightarrow> proto_payload" where
  "to_proto p =
     \<lparr>pp_vehicle = payload_vehicle p, pp_timestamp = Some (payload_time p div 10 ^ 9, payload_time p mod 10 ^ 9),
      pp_point = Some (payload_point p)\<rparr>"

text \<open>The nanoseconds are read as an unsigned number; an instant out of range is the epoch.\<close>

definition of_proto :: "calendar_range \<Rightarrow> proto_payload \<Rightarrow> point payload" where
  "of_proto C pp =
     (let pt = (case pp_point pp of Some p \<Rightarrow> p | None \<Rightarrow> (0, 0));
          (seconds, nanos) = (case pp_timestamp pp of Some t \<Rightarrow> t | None \<Rightarrow> (0, 0))
      in \<lparr>payload_vehicle = pp_vehicle pp,
          payload_time = (case from_unix C seconds (nanos mod 2 ^ 32) of Some t \<Rightarrow> t | None \<Rightarrow> 0),
          payload_point = pt\<rparr>)"

record wire =
  encode_to_vec :: "proto_payload \<Rightarrow> bytes"
  decode_from_slice :: "bytes \<Rightarrow> proto_payload option"

definition payload_encode :: "wire \<Rightarrow> point payload \<Rightarrow> bytes" where
  "payload_encode W p = encode_to_vec W (to_proto p)"

definition payload_decode :: "wire \<Rightarrow> calendar_range \<Rightarrow> bytes \<Rightarrow> point payload option" where
  "payload_decode W C bs = map_option (of_proto C) (decode_from_slice W bs)"

section \<open>Rows\<close>

record row =
  row_vehicle :: "string option"
  row_provider :: "string option"
  row_time :: "int option"
  row_latitude :: "real option"
  row_longitude :: "real option"

text \<open>
  A row without a vehicle is skipped (inner \<open>None\<close>), one without a position or a time is a panic (outer
  \<open>None\<close>). Times are microseconds, kept unsigned for the pace of the replay.
\<close>

definition row_of :: "calendar_range \<Rightarrow> (string \<Rightarrow> vehicle_id) \<Rightarrow> row \<Rightarrow> (64 word \<times> point payload) option option" where
  "row_of C name_hash r =
     (case row_vehicle r of
        None \<Rightarrow> Some None
      | Some v \<Rightarrow>
          (case (row_longitude r, row_latitude r, row_time r) of
             (Some lon, Some lat, Some t) \<Rightarrow>
               Some (Some (of_int t, \<lparr>payload_vehicle = name_hash v,
                 payload_time = (case from_unix_micros C t of Some x \<Rightarrow> x | None \<Rightarrow> 0), payload_point = (lon, lat)\<rparr>))
           | _ \<Rightarrow> None))"

definition rows_of :: "calendar_range \<Rightarrow> (string \<Rightarrow> vehicle_id) \<Rightarrow> row list \<Rightarrow> (64 word \<times> point payload) list option" where
  "rows_of C name_hash df = map_option (List.map_filter id) (those (map (row_of C name_hash) df))"

section \<open>Sending\<close>

definition ACK_WINDOW :: nat where
  "ACK_WINDOW = 256"

text \<open>The pace: a speed that is not positive floods. The microseconds a row waits after the start of its loop.\<close>

definition replay_speed :: "real \<Rightarrow> real option" where
  "replay_speed arg = (if arg \<le> 0 then None else Some arg)"

definition send_offset :: "real option \<Rightarrow> 64 word \<Rightarrow> 64 word \<Rightarrow> real" where
  "send_offset speed start time = (case speed of None \<Rightarrow> 0 | Some s \<Rightarrow> real (unat (time - start)) / s)"

text \<open>
  Whether the broker takes the k-th message and confirms it, and which of the messages in flight it settles next.
\<close>

record broker =
  publish_ok :: "nat \<Rightarrow> bool"
  ack_ok :: "nat \<Rightarrow> bool"
  settles :: "nat list \<Rightarrow> nat"

datatype replay_error = PublishFailed | AckFailed

record outbox =
  sent :: "(string \<times> bytes) list"
  in_flight :: "nat list"

text \<open>Waiting for acknowledgements until fewer than \<open>limit\<close> messages are in flight, or none.\<close>

lemma drop_one_shorter:
  assumes "xs \<noteq> []"
  shows "length (take (k mod length xs) xs @ drop (Suc (k mod length xs)) xs) < length xs"
proof -
  have "k mod length xs < length xs" using assms by simp
  then show ?thesis by (simp only: length_append length_take length_drop)
qed

function drain :: "broker \<Rightarrow> nat \<Rightarrow> nat list \<Rightarrow> (nat list, replay_error) outcome" where
  "drain B limit acks =
     (if length acks < limit \<or> acks = [] then Ok acks
      else
        let i = settles B acks mod length acks
        in if ack_ok B (acks ! i) then drain B limit (take i acks @ drop (Suc i) acks) else Err AckFailed)"
  by pat_completeness auto
termination
  by (relation "measure (\<lambda>(B, limit, acks). length acks)") (use drop_one_shorter in \<open>auto simp del: length_append\<close>)

declare drain.simps [simp del]

fun send_rows :: "wire \<Rightarrow> broker \<Rightarrow> (64 word \<times> point payload) list \<Rightarrow> outbox \<Rightarrow> (unit, replay_error) outcome \<times> outbox" where
  "send_rows W B [] s = (Ok (), s)"
| "send_rows W B ((time, p) # evs) s =
     (let subject = raw_subject (partition_of (payload_vehicle p)); k = length (sent s)
      in if \<not> publish_ok B k then (Err PublishFailed, s)
         else
           let s' = s\<lparr>sent := sent s @ [(subject, payload_encode W p)]\<rparr>
           in case drain B ACK_WINDOW (in_flight s @ [k]) of
                Ok acks \<Rightarrow> send_rows W B evs (s'\<lparr>in_flight := acks\<rparr>)
              | Err e \<Rightarrow> (Err e, s')
              | Panic \<Rightarrow> (Panic, s'))"

fun replay_loops :: "wire \<Rightarrow> broker \<Rightarrow> calendar_range \<Rightarrow> (string \<Rightarrow> vehicle_id) \<Rightarrow> row list \<Rightarrow> nat \<Rightarrow> outbox
      \<Rightarrow> (unit, replay_error) outcome \<times> outbox" where
  "replay_loops W B C name_hash df 0 s = (Ok (), s)"
| "replay_loops W B C name_hash df (Suc n) s =
     (case rows_of C name_hash df of
        None \<Rightarrow> (Panic, s)
      | Some evs \<Rightarrow>
          (case send_rows W B evs s of
             (Ok _, s') \<Rightarrow>
               (case drain B 0 (in_flight s') of
                  Ok acks \<Rightarrow> replay_loops W B C name_hash df n (s'\<lparr>in_flight := acks\<rparr>)
                | Err e \<Rightarrow> (Err e, s')
                | Panic \<Rightarrow> (Panic, s'))
           | r \<Rightarrow> r))"

definition replay :: "wire \<Rightarrow> broker \<Rightarrow> calendar_range \<Rightarrow> (string \<Rightarrow> vehicle_id) \<Rightarrow> row list \<Rightarrow> nat
      \<Rightarrow> (unit, replay_error) outcome \<times> outbox" where
  "replay W B C name_hash df loops =
     (if df = [] then (Ok (), \<lparr>sent = [], in_flight = []\<rparr>)
      else if List.map_filter row_time df = [] then (Panic, \<lparr>sent = [], in_flight = []\<rparr>)
      else replay_loops W B C name_hash df loops \<lparr>sent = [], in_flight = []\<rparr>)"

section \<open>Forwarding\<close>

datatype pulled = PullError | PulledBytes bytes

text \<open>
  What the forwarder of a partition sends to the lanes of its workers, and how many messages it
  acknowledges unread; \<open>open_lane k i\<close> tells whether the queue of worker \<open>i\<close> still takes a payload when \<open>k\<close>
  more messages are to be pulled, and a closed queue ends the forwarder. \<open>None\<close> is the panic of a pod
  without workers.
\<close>

fun forward :: "(bytes \<Rightarrow> point payload option) \<Rightarrow> nat \<Rightarrow> (nat \<Rightarrow> nat \<Rightarrow> bool) \<Rightarrow> pulled list
      \<Rightarrow> ((nat \<times> point payload) list \<times> nat) option" where
  "forward decode n open_lane [] = Some ([], 0)"
| "forward decode n open_lane (PullError # ms) = forward decode n open_lane ms"
| "forward decode n open_lane (PulledBytes bs # ms) =
     (case decode bs of
        None \<Rightarrow> map_option (\<lambda>(ds, poison). (ds, Suc poison)) (forward decode n open_lane ms)
      | Some p \<Rightarrow>
          (case worker_of n (payload_vehicle p) of
             None \<Rightarrow> None
           | Some i \<Rightarrow>
               if open_lane (length ms) i then map_option (\<lambda>(ds, poison). ((i, p) # ds, poison)) (forward decode n open_lane ms)
               else Some ([], 0)))"

end
