(* ===== verification/Replay_Laws.thy ===== *)
theory Replay_Laws
  imports Replay
begin

text \<open>
  The replay loses no row: what it sends is its rows in order, all of them confirmed in the end with a bounded
  number unconfirmed at any time. The forwarder of a partition brings whatever it is handed of them, once or
  again, to the lane of each vehicle in the order it is handed.
\<close>

section \<open>The wire\<close>

text \<open>The codec carries an observation, whose instant is in the calendar's range.\<close>

definition carries :: "wire \<Rightarrow> calendar_range \<Rightarrow> point payload \<Rightarrow> bool" where
  "carries W C p \<longleftrightarrow> decode_from_slice W (encode_to_vec W (to_proto p)) = Some (to_proto p)
     \<and> from_unix C (payload_time p div 10 ^ 9) (payload_time p mod 10 ^ 9) = Some (payload_time p)"

lemma payload_round_trip: "carries W C p \<Longrightarrow> payload_decode W C (payload_encode W p) = Some p"
proof -
  have "payload_time p mod 10 ^ 9 mod 2 ^ 32 = payload_time p mod 10 ^ 9"
    using pos_mod_bound [of "10 ^ 9" "payload_time p"] by (intro mod_pos_pos_trivial) simp_all
  then show "carries W C p \<Longrightarrow> payload_decode W C (payload_encode W p) = Some p"
    by (simp add: carries_def payload_decode_def payload_encode_def of_proto_def to_proto_def)
qed

text \<open>An instant out of the calendar's range is silently read as the epoch.\<close>

lemma out_of_range_is_epoch:
  assumes "decode_from_slice W (encode_to_vec W (to_proto p)) = Some (to_proto p)"
    and "from_unix C (payload_time p div 10 ^ 9) (payload_time p mod 10 ^ 9 mod 2 ^ 32) = None"
  shows "payload_decode W C (payload_encode W p) = Some (p\<lparr>payload_time := 0\<rparr>)"
  using assms by (simp add: payload_decode_def payload_encode_def of_proto_def to_proto_def)

section \<open>Sending\<close>

definition message_of :: "wire \<Rightarrow> 'a \<times> point payload \<Rightarrow> string \<times> bytes" where
  "message_of W e = (raw_subject (partition_of (payload_vehicle (snd e))), payload_encode W (snd e))"

lemma drain_spec:
  "drain B limit acks = Ok xs
    \<Longrightarrow> (length xs < limit \<or> xs = []) \<and> set xs \<subseteq> set acks \<and> (\<forall>k \<in> set acks. k \<in> set xs \<or> ack_ok B k)"
proof (induction B limit acks rule: drain.induct)
  case (1 B limit acks)
  let ?i = "settles B acks mod length acks"
  show ?case
  proof (cases "length acks < limit \<or> acks = []")
    case True
    then have "drain B limit acks = Ok acks" by (simp only: drain.simps [of B limit acks] if_True)
    then have "xs = acks" using 1(2) by simp
    then show ?thesis using True by simp
  next
    case False
    then have i: "?i < length acks" by simp
    have acked: "ack_ok B (acks ! ?i)" and rest: "drain B limit (take ?i acks @ drop (Suc ?i) acks) = Ok xs"
      using 1(2) False by (simp_all add: drain.simps [of B limit acks] Let_def split: if_splits)
    define others where "others = take ?i acks @ drop (Suc ?i) acks"
    have "set acks = insert (acks ! ?i) (set others)"
      unfolding others_def using arg_cong [OF id_take_nth_drop [OF i], of set] by simp
    moreover have "(length xs < limit \<or> xs = []) \<and> set xs \<subseteq> set others \<and> (\<forall>k \<in> set others. k \<in> set xs \<or> ack_ok B k)"
      unfolding others_def by (rule 1(1) [OF False refl acked rest])
    ultimately show ?thesis using acked by auto
  qed
qed

lemma drain_no_panic: "drain B limit acks \<noteq> Panic"
proof (induction B limit acks rule: drain.induct)
  case (1 B limit acks)
  then show ?case by (simp add: drain.simps [of B limit acks] Let_def)
qed

text \<open>Every message sent is in flight or confirmed, and the window is kept.\<close>

definition settled :: "broker \<Rightarrow> outbox \<Rightarrow> bool" where
  "settled B s \<longleftrightarrow> length (in_flight s) < ACK_WINDOW
     \<and> (\<forall>k < length (sent s). publish_ok B k \<and> (k \<in> set (in_flight s) \<or> ack_ok B k))"

lemma send_rows_spec:
  assumes "settled B s" "send_rows W B evs s = (Ok (), s')"
  shows "settled B s' \<and> sent s' = sent s @ map (message_of W) evs"
  using assms
proof (induction evs arbitrary: s)
  case (Cons e evs)
  obtain time p where e: "e = (time, p)" by (cases e)
  let ?k = "length (sent s)"
  obtain acks where k: "publish_ok B ?k" "drain B ACK_WINDOW (in_flight s @ [?k]) = Ok acks"
      and rest: "send_rows W B evs (s\<lparr>sent := sent s @ [message_of W e], in_flight := acks\<rparr>) = (Ok (), s')"
    using Cons.prems(2) by (auto simp: e message_of_def Let_def split: if_splits outcome.splits)
  have "settled B (s\<lparr>sent := sent s @ [message_of W e], in_flight := acks\<rparr>)"
    using Cons.prems(1) k(1) drain_spec [OF k(2)] by (auto simp: settled_def less_Suc_eq ACK_WINDOW_def)
  from Cons.IH [OF this rest] show ?case by simp
qed simp

lemma replay_loops_spec:
  assumes "rows_of C h df = Some evs" "settled B s" "in_flight s = []" "replay_loops W B C h df n s = (Ok (), s')"
  shows "settled B s' \<and> in_flight s' = [] \<and> sent s' = sent s @ concat (replicate n (map (message_of W) evs))"
  using assms(2-4)
proof (induction n arbitrary: s)
  case (Suc n)
  obtain s1 acks where s1: "send_rows W B evs s = (Ok (), s1)" "drain B 0 (in_flight s1) = Ok acks"
      and rest: "replay_loops W B C h df n (s1\<lparr>in_flight := acks\<rparr>) = (Ok (), s')"
    using Suc.prems(3) assms(1) by (auto split: outcome.splits prod.splits)
  note sends = send_rows_spec [OF Suc.prems(1) s1(1)]
  have "settled B (s1\<lparr>in_flight := acks\<rparr>)" "acks = []"
    using sends drain_spec [OF s1(2)] by (auto simp: settled_def ACK_WINDOW_def)
  then show ?case using Suc.IH [OF _ _ rest] sends by simp
qed simp

text \<open>Whatever happens, what was sent is a beginning of the rows.\<close>

lemma send_rows_prefix: "\<exists>j. sent (snd (send_rows W B evs s)) = sent s @ map (message_of W) (take j evs)"
proof (induction evs arbitrary: s)
  case (Cons e evs)
  obtain time p where e: "e = (time, p)" by (cases e)
  let ?k = "length (sent s)" and ?s = "s\<lparr>sent := sent s @ [message_of W e]\<rparr>"
  show ?case
  proof (cases "publish_ok B ?k")
    case True
    show ?thesis
    proof (cases "drain B ACK_WINDOW (in_flight s @ [?k])")
      case (Ok acks)
      obtain j where "sent (snd (send_rows W B evs (?s\<lparr>in_flight := acks\<rparr>))) = sent ?s @ map (message_of W) (take j evs)"
        using Cons.IH [of "?s\<lparr>in_flight := acks\<rparr>"] by auto
      then show ?thesis using True Ok by (intro exI [of _ "Suc j"]) (simp add: e message_of_def Let_def)
    qed (use True in \<open>auto simp: e message_of_def Let_def intro!: exI [of _ "Suc 0"]\<close>)
  qed (auto simp: e intro: exI [of _ 0])
qed simp

section \<open>Forwarding\<close>

text \<open>The payloads of what is pulled, in the order of the pulls.\<close>

fun pulled_payloads :: "(bytes \<Rightarrow> 'p option) \<Rightarrow> pulled list \<Rightarrow> 'p list" where
  "pulled_payloads decode [] = []"
| "pulled_payloads decode (PullError # ms) = pulled_payloads decode ms"
| "pulled_payloads decode (PulledBytes bs # ms) =
     (case decode bs of None \<Rightarrow> pulled_payloads decode ms | Some p \<Rightarrow> p # pulled_payloads decode ms)"

lemma set_pulled_payloads: "p \<in> set (pulled_payloads decode ms) \<longleftrightarrow> (\<exists>bs. PulledBytes bs \<in> set ms \<and> decode bs = Some p)"
  by (induction decode ms rule: pulled_payloads.induct) (auto split: option.splits)

lemma pulled_payloads_errors: "pulled_payloads decode (filter (\<lambda>m. m \<noteq> PullError) ms) = pulled_payloads decode ms"
  by (induction decode ms rule: pulled_payloads.induct) (auto split: option.splits)

lemma pulled_payloads_map: "(\<And>x. x \<in> set xs \<Longrightarrow> decode (f x) = Some (g x)) \<Longrightarrow> pulled_payloads decode (map (PulledBytes \<circ> f) xs) = map g xs"
  by (induction xs) auto

text \<open>Without poison, what reaches the lanes is a beginning of the payloads pulled, each on the lane of its vehicle.\<close>

lemma forward_lanes:
  assumes "0 < n" and "\<And>bs. PulledBytes bs \<in> set ms \<Longrightarrow> decode bs \<noteq> None"
  shows "\<exists>k. forward decode n open_lane ms
      = Some (map (\<lambda>p. (unat (mix (payload_vehicle p)) mod n, p)) (take k (pulled_payloads decode ms)), 0)
    \<and> ((\<forall>j i. open_lane j i) \<longrightarrow> length (pulled_payloads decode ms) \<le> k)"
  using assms(2)
proof (induction ms)
  case (Cons m ms)
  then obtain k where k: "forward decode n open_lane ms
      = Some (map (\<lambda>p. (unat (mix (payload_vehicle p)) mod n, p)) (take k (pulled_payloads decode ms)), 0)"
    "(\<forall>j i. open_lane j i) \<longrightarrow> length (pulled_payloads decode ms) \<le> k" by auto
  show ?case
  proof (cases m)
    case (PulledBytes bs)
    then obtain p where p: "decode bs = Some p" using Cons.prems [of bs] by auto
    let ?i = "unat (mix (payload_vehicle p)) mod n"
    have i: "worker_of n (payload_vehicle p) = Some ?i" using assms(1) by (simp add: worker_of_def)
    show ?thesis
    proof (cases "open_lane (length ms) ?i")
      case True
      then show ?thesis using k by (intro exI [of _ "Suc k"]) (simp add: PulledBytes p i)
    next
      case False
      then show ?thesis by (intro exI [of _ 0]) (auto simp: PulledBytes p i)
    qed
  qed (use k in auto)
qed simp

lemma raw_subject_inj: "p < PARTITIONS \<Longrightarrow> q < PARTITIONS \<Longrightarrow> raw_subject p = raw_subject q \<Longrightarrow> p = q"
  using show_nat_inj [of p q] by (simp add: raw_subject_def PARTITIONS_def)

text \<open>
  What the consumer of one partition may be handed of the messages sent: only those of its subject. A message
  may come again when its acknowledgement is late, out of turn, or not at all so far, and a pull may fail.
\<close>

definition delivers :: "nat \<Rightarrow> (string \<times> bytes) list \<Rightarrow> pulled list \<Rightarrow> bool" where
  "delivers q msgs ms \<longleftrightarrow> (\<forall>m \<in> set ms. case m of PullError \<Rightarrow> True | PulledBytes bs \<Rightarrow> (raw_subject q, bs) \<in> set msgs)"

text \<open>Each message of the subject once, in the order they were sent.\<close>

definition delivers_in_turn :: "nat \<Rightarrow> (string \<times> bytes) list \<Rightarrow> pulled list \<Rightarrow> bool" where
  "delivers_in_turn q msgs ms \<longleftrightarrow>
     filter (\<lambda>m. m \<noteq> PullError) ms = map (PulledBytes \<circ> snd) (filter (\<lambda>m. fst m = raw_subject q) msgs)"

lemma subject_of_partition:
  "q < PARTITIONS \<Longrightarrow> fst (message_of W e) = raw_subject q \<longleftrightarrow> partition_of (payload_vehicle (snd e)) = q"
  using raw_subject_inj [OF partition_of_range, of q "payload_vehicle (snd e)"] by (auto simp: message_of_def)

lemma delivered_row:
  assumes "q < PARTITIONS" "delivers q (map (message_of W) es) ms" "\<forall>e \<in> set es. carries W C (snd e)" "PulledBytes bs \<in> set ms"
  shows "\<exists>e \<in> set es. bs = payload_encode W (snd e) \<and> payload_decode W C bs = Some (snd e) \<and> partition_of (payload_vehicle (snd e)) = q"
proof -
  have "(raw_subject q, bs) \<in> set (map (message_of W) es)" using assms(2,4) unfolding delivers_def by fastforce
  then obtain e where e: "e \<in> set es" "message_of W e = (raw_subject q, bs)" by auto
  moreover have "partition_of (payload_vehicle (snd e)) = q" using subject_of_partition [OF assms(1), of W e] e(2) by simp
  moreover have "bs = payload_encode W (snd e)" using e(2) by (simp add: message_of_def)
  ultimately show ?thesis using payload_round_trip assms(3) by blast
qed

lemma in_turn_payloads:
  assumes "q < PARTITIONS" "delivers_in_turn q (map (message_of W) es) ms" "\<forall>e \<in> set es. carries W C (snd e)"
  shows "pulled_payloads (payload_decode W C) ms = map snd (filter (\<lambda>e. partition_of (payload_vehicle (snd e)) = q) es)"
proof -
  let ?mine = "filter (\<lambda>e. partition_of (payload_vehicle (snd e)) = q) es"
  have "filter (\<lambda>m. m \<noteq> PullError) ms = map (PulledBytes \<circ> (\<lambda>e. payload_encode W (snd e))) ?mine"
    using assms(2) unfolding delivers_in_turn_def by (simp add: filter_map comp_def subject_of_partition [OF assms(1)]) (simp add: message_of_def)
  then have "pulled_payloads (payload_decode W C) (filter (\<lambda>m. m \<noteq> PullError) ms) = map snd ?mine"
    using pulled_payloads_map [of ?mine "payload_decode W C" "\<lambda>e. payload_encode W (snd e)" snd] payload_round_trip assms(3) by simp
  then show ?thesis by (simp only: pulled_payloads_errors)
qed

lemma forward_rows:
  assumes "0 < n" "q < PARTITIONS" "delivers q (map (message_of W) es) ms" "\<forall>e \<in> set es. carries W C (snd e)"
  shows "\<exists>ds. forward (payload_decode W C) n open_lane ms = Some (ds, 0)
    \<and> (\<forall>(i, p) \<in> set ds. worker_of n (payload_vehicle p) = Some i \<and> partition_of (payload_vehicle p) = q \<and> p \<in> snd ` set es)
    \<and> prefix (map snd ds) (pulled_payloads (payload_decode W C) ms)
    \<and> ((\<forall>k i. open_lane k i) \<longrightarrow> map snd ds = pulled_payloads (payload_decode W C) ms)"
proof -
  note row = delivered_row [OF assms(2-4)]
  have "payload_decode W C bs \<noteq> None" if "PulledBytes bs \<in> set ms" for bs using row [OF that] by auto
  then have "\<exists>k. forward (payload_decode W C) n open_lane ms
      = Some (map (\<lambda>p. (unat (mix (payload_vehicle p)) mod n, p)) (take k (pulled_payloads (payload_decode W C) ms)), 0)
    \<and> ((\<forall>j i. open_lane j i) \<longrightarrow> length (pulled_payloads (payload_decode W C) ms) \<le> k)"
    by (rule forward_lanes [OF assms(1)])
  then obtain k where k: "forward (payload_decode W C) n open_lane ms
      = Some (map (\<lambda>p. (unat (mix (payload_vehicle p)) mod n, p)) (take k (pulled_payloads (payload_decode W C) ms)), 0)"
    "(\<forall>j i. open_lane j i) \<longrightarrow> length (pulled_payloads (payload_decode W C) ms) \<le> k"
    by blast
  have "partition_of (payload_vehicle p) = q \<and> p \<in> snd ` set es" if p: "p \<in> set (take k (pulled_payloads (payload_decode W C) ms))" for p
  proof -
    obtain bs where bs: "PulledBytes bs \<in> set ms" "payload_decode W C bs = Some p"
      using in_set_takeD [OF p] unfolding set_pulled_payloads by blast
    from row [OF bs(1)] bs(2) show ?thesis by auto
  qed
  then have lane: "\<forall>(i, p) \<in> set (map (\<lambda>p. (unat (mix (payload_vehicle p)) mod n, p)) (take k (pulled_payloads (payload_decode W C) ms))).
      worker_of n (payload_vehicle p) = Some i \<and> partition_of (payload_vehicle p) = q \<and> p \<in> snd ` set es"
    using assms(1) by (simp add: worker_of_def)
  show ?thesis
    by (intro exI conjI, rule k(1), rule lane) (use k(2) in \<open>simp_all add: comp_def take_is_prefix\<close>)
qed

text \<open>
  (C40) A replay that returns without an error has sent every row of its table as often as it loops, in the order
  of the table, each to the subject of its vehicle's partition, and the broker has taken and confirmed every
  message; nothing is left in flight. Whatever the consumer of a partition is then handed of these messages,
  again and out of turn too, its forwarder does not panic and finds nothing undecodable: what it forwards are
  observations of rows, of vehicles of its partition, each on the one lane of its vehicle, in the order they
  are pulled, up to the first that a closed lane refuses. While the lanes are open none that is pulled is
  lost; and if each message comes once and in turn, the lanes get of a vehicle exactly its rows in their
  order, on the forwarder of its partition, and nothing on any other.
\<close>

theorem replay_reaches_one_lane:
  fixes B :: broker and df :: "row list"
  assumes "rows_of C h df = Some evs" and "\<forall>e \<in> set evs. carries W C (snd e)" and "0 < n"
    and "replay W B C h df loops = (Ok (), s)"
  shows "in_flight s = [] \<and> (\<forall>k < length (sent s). publish_ok B k \<and> ack_ok B k)
    \<and> sent s = concat (replicate loops (map (message_of W) evs))
    \<and> (\<forall>q < PARTITIONS. \<forall>ms open_lane. delivers q (sent s) ms \<longrightarrow>
        (\<exists>ds. forward (payload_decode W C) n open_lane ms = Some (ds, 0)
          \<and> (\<forall>(i, p) \<in> set ds. worker_of n (payload_vehicle p) = Some i \<and> partition_of (payload_vehicle p) = q \<and> p \<in> snd ` set evs)
          \<and> prefix (map snd ds) (pulled_payloads (payload_decode W C) ms)
          \<and> ((\<forall>k i. open_lane k i) \<longrightarrow>
              (\<forall>e \<in> set evs. PulledBytes (payload_encode W (snd e)) \<in> set ms \<longrightarrow> snd e \<in> snd ` set ds)
            \<and> map snd ds = pulled_payloads (payload_decode W C) ms
            \<and> (delivers_in_turn q (sent s) ms \<longrightarrow> (\<forall>v. filter (\<lambda>p. payload_vehicle p = v) (map snd ds)
                = (if q = partition_of v then filter (\<lambda>p. payload_vehicle p = v) (concat (replicate loops (map snd evs))) else []))))))"
proof -
  let ?es = "concat (replicate loops evs)"
  have new: "settled B \<lparr>sent = [], in_flight = []\<rparr>" by (simp add: settled_def ACK_WINDOW_def)
  have "settled B s \<and> in_flight s = [] \<and> sent s = concat (replicate loops (map (message_of W) evs))"
  proof (cases "df = []")
    case True
    then show ?thesis using assms(1,4) new by (auto simp: replay_def rows_of_def List.map_filter_def)
  next
    case False
    then show ?thesis using replay_loops_spec [OF assms(1) new] assms(4) by (auto simp: replay_def split: if_splits)
  qed
  then have s: "in_flight s = []" "\<forall>k < length (sent s). publish_ok B k \<and> ack_ok B k" "sent s = map (message_of W) ?es"
      "sent s = concat (replicate loops (map (message_of W) evs))"
    by (auto simp: settled_def map_concat)
  have carried: "\<forall>e \<in> set ?es. carries W C (snd e)" "set ?es \<subseteq> set evs" using assms(2) by (auto split: if_splits)
  have in_turn: "filter (\<lambda>p. payload_vehicle p = v) (pulled_payloads (payload_decode W C) ms)
      = (if q = partition_of v then filter (\<lambda>p. payload_vehicle p = v) (concat (replicate loops (map snd evs))) else [])"
    if "q < PARTITIONS" "delivers_in_turn q (sent s) ms" for q ms v
  proof -
    have "filter (\<lambda>p. payload_vehicle p = v) (map snd (filter (\<lambda>e. partition_of (payload_vehicle (snd e)) = q) es))
        = (if q = partition_of v then filter (\<lambda>p. payload_vehicle p = v) (map snd es) else [])" for es :: "(64 word \<times> point payload) list"
      by (induction es) auto
    from this [of ?es] show ?thesis using in_turn_payloads [OF that(1) that(2) [unfolded s(3)] carried(1)] by (simp add: map_concat)
  qed
  have lanes: "\<exists>ds. forward (payload_decode W C) n open_lane ms = Some (ds, 0)
      \<and> (\<forall>(i, p) \<in> set ds. worker_of n (payload_vehicle p) = Some i \<and> partition_of (payload_vehicle p) = q \<and> p \<in> snd ` set evs)
      \<and> prefix (map snd ds) (pulled_payloads (payload_decode W C) ms)
      \<and> ((\<forall>k i. open_lane k i) \<longrightarrow> map snd ds = pulled_payloads (payload_decode W C) ms)"
    if "q < PARTITIONS" "delivers q (sent s) ms" for q ms open_lane
    using forward_rows [OF assms(3) that(1) that(2) [unfolded s(3)] carried(1), of open_lane] carried(2) by fastforce
  have pulled: "snd e \<in> set (pulled_payloads (payload_decode W C) ms)"
    if "e \<in> set evs" "PulledBytes (payload_encode W (snd e)) \<in> set ms" for e ms
    using that payload_round_trip assms(2) unfolding set_pulled_payloads by blast
  show ?thesis
  proof (intro conjI allI impI)
    fix q ms open_lane
    assume q: "q < PARTITIONS" and ms: "delivers q (sent s) ms"
    from lanes [OF q ms, of open_lane] obtain ds where ds: "forward (payload_decode W C) n open_lane ms = Some (ds, 0)"
      "\<forall>(i, p) \<in> set ds. worker_of n (payload_vehicle p) = Some i \<and> partition_of (payload_vehicle p) = q \<and> p \<in> snd ` set evs"
      "prefix (map snd ds) (pulled_payloads (payload_decode W C) ms)"
      "(\<forall>k i. open_lane k i) \<Longrightarrow> map snd ds = pulled_payloads (payload_decode W C) ms" by blast
    show "\<exists>ds. forward (payload_decode W C) n open_lane ms = Some (ds, 0)
        \<and> (\<forall>(i, p) \<in> set ds. worker_of n (payload_vehicle p) = Some i \<and> partition_of (payload_vehicle p) = q \<and> p \<in> snd ` set evs)
        \<and> prefix (map snd ds) (pulled_payloads (payload_decode W C) ms)
        \<and> ((\<forall>k i. open_lane k i) \<longrightarrow>
            (\<forall>e \<in> set evs. PulledBytes (payload_encode W (snd e)) \<in> set ms \<longrightarrow> snd e \<in> snd ` set ds)
          \<and> map snd ds = pulled_payloads (payload_decode W C) ms
          \<and> (delivers_in_turn q (sent s) ms \<longrightarrow> (\<forall>v. filter (\<lambda>p. payload_vehicle p = v) (map snd ds)
              = (if q = partition_of v then filter (\<lambda>p. payload_vehicle p = v) (concat (replicate loops (map snd evs))) else []))))"
      using ds(1-3) ds(4) pulled in_turn [OF q] by (intro exI [of _ ds] conjI impI allI ballI) (simp_all flip: set_map)
  qed (use s in auto)
qed

text \<open>Two rows of one vehicle, the second of which the broker confirms first.\<close>

definition two_fixes :: "row list" where
  "two_fixes =
     [\<lparr>row_vehicle = Some ''a'', row_provider = None, row_time = Some 1, row_latitude = Some 0, row_longitude = Some 0\<rparr>,
      \<lparr>row_vehicle = Some ''a'', row_provider = None, row_time = Some 2, row_latitude = Some 0, row_longitude = Some 1\<rparr>]"

definition fix_at :: "int \<Rightarrow> real \<Rightarrow> point payload" where
  "fix_at micros lon = \<lparr>payload_vehicle = 7, payload_time = micros * 1000, payload_point = (lon, 0)\<rparr>"

definition plain_calendar :: calendar_range where
  "plain_calendar = \<lparr>from_unix = (\<lambda>s n. Some (s * 10 ^ 9 + n)), from_unix_micros = (\<lambda>t. Some (t * 1000))\<rparr>"

definition two_wire :: wire where
  "two_wire = \<lparr>encode_to_vec = (\<lambda>pp. if pp = to_proto (fix_at 1 0) then [1] else [2]),
     decode_from_slice = (\<lambda>bs. Some (to_proto (if bs = [1] then fix_at 1 0 else fix_at 2 1)))\<rparr>"

definition late_broker :: broker where
  "late_broker = \<lparr>publish_ok = (\<lambda>k. True), ack_ok = (\<lambda>k. True), settles = (\<lambda>xs. length xs - 1)\<rparr>"

theorem replay_reaches_one_lane_witness:
  "\<exists>s ds. replay two_wire late_broker plain_calendar (\<lambda>v. 7) two_fixes 1 = (Ok (), s)
    \<and> forward (payload_decode two_wire plain_calendar) 4 (\<lambda>k i. True) [PulledBytes [2], PullError, PulledBytes [1], PulledBytes [2]] = Some (ds, 0)
    \<and> map snd ds = [fix_at 2 1, fix_at 1 0, fix_at 2 1]"
proof -
  have evs: "rows_of plain_calendar (\<lambda>v. 7) two_fixes = Some [(1, fix_at 1 0), (2, fix_at 2 1)]"
    by (simp add: rows_of_def two_fixes_def row_of_def plain_calendar_def fix_at_def List.map_filter_def)
  have ok: "\<forall>e \<in> set [(1 :: 64 word, fix_at 1 0), (2, fix_at 2 1)]. carries two_wire plain_calendar (snd e)"
    by (simp add: carries_def two_wire_def plain_calendar_def fix_at_def to_proto_def)
  obtain s where s: "replay two_wire late_broker plain_calendar (\<lambda>v. 7) two_fixes 1 = (Ok (), s)"
    using evs by (simp add: replay_def two_fixes_def List.map_filter_def late_broker_def drain.simps ACK_WINDOW_def Let_def)
  let ?ms = "[PulledBytes [2], PullError, PulledBytes [1], PulledBytes [2]]"
  have "(0 :: nat) < 4" by simp
  note reaches = replay_reaches_one_lane [OF evs ok this s]
  have "sent s = map (message_of two_wire) [(1 :: 64 word, fix_at 1 0), (2, fix_at 2 1)]" using reaches by simp
  then have ms: "delivers (partition_of 7) (sent s) ?ms"
    by (simp add: delivers_def message_of_def payload_encode_def two_wire_def fix_at_def to_proto_def)
  from reaches [THEN conjunct2, THEN conjunct2, THEN conjunct2, THEN spec, THEN mp, OF partition_of_range,
      THEN spec, THEN spec [of _ "\<lambda>k i. True"], THEN mp, OF ms]
  obtain ds where "forward (payload_decode two_wire plain_calendar) 4 (\<lambda>k i. True) ?ms = Some (ds, 0)"
    "map snd ds = pulled_payloads (payload_decode two_wire plain_calendar) ?ms"
    by blast
  moreover have "pulled_payloads (payload_decode two_wire plain_calendar) ?ms = [fix_at 2 1, fix_at 1 0, fix_at 2 1]"
    by (simp add: payload_decode_def two_wire_def of_proto_def to_proto_def fix_at_def plain_calendar_def)
  ultimately show ?thesis using s by auto
qed

text \<open>
  A row keeps its time as an unsigned number, so the pace of a table that starts before the epoch wraps, and in
  a release build still waits for the difference of the times.
\<close>

lemma offset_of_difference:
  assumes "0 \<le> t - start" "t - start < 2 ^ 64"
  shows "send_offset (Some s) (of_int start) (of_int t) = real_of_int (t - start) / s"
proof -
  have "unat (of_int t - of_int start :: 64 word) = nat (t - start)"
    using assms by (simp add: uint_word_of_int_eq take_bit_int_eq_self flip: of_int_diff nat_uint_eq)
  then show ?thesis using assms(1) by (simp add: send_offset_def)
qed

lemma flood_never_waits: "arg \<le> 0 \<Longrightarrow> send_offset (replay_speed arg) start time = 0"
  by (simp add: send_offset_def replay_speed_def)

end
