(* ===== verification/Tz_Boundaries.thy ===== *)
theory Tz_Boundaries
  imports Timezones
begin

text \<open>
  The boundaries of timezones (\<open>routers_tz/build/geojson.rs\<close>), from which the build computes the storages: the
  release of the database, the file of its boundaries and the extraction of named polygons. The file is
  given parsed, a position is its list of numbers; the polygon constructor of the geometry library and the
  timezone database are parameters.
\<close>

section \<open>Which release\<close>

definition DEFAULT_TZ_VERSION :: string where
  "DEFAULT_TZ_VERSION = ''2026a''"

definition tz_version :: "string option \<Rightarrow> string" where
  "tz_version env = (case env of Some v \<Rightarrow> v | None \<Rightarrow> DEFAULT_TZ_VERSION)"

definition geojson_path :: "string option \<Rightarrow> string" where
  "geojson_path env = ''data/'' @ tz_version env @ ''/timezones.geojson''"

section \<open>Geometries\<close>

type_synonym position = "real list"

datatype geo_value = PolygonValue "position list list" | MultiPolygonValue "position list list list" | OtherGeometry

datatype boundary_error =
    Unreadable | NotACollection | MissingTzid | MissingGeometry | UnsupportedGeometry | EmptyPolygon

text \<open>\<open>None\<close> is the panic on a position of fewer than two numbers; further numbers are dropped.\<close>

definition ring_to_linestring :: "position list \<Rightarrow> (real \<times> real) list option" where
  "ring_to_linestring ring = those (map (\<lambda>c. if length c < 2 then None else Some (c ! 0, c ! 1)) ring)"

definition rings_to_polygon ::
    "((real \<times> real) list \<Rightarrow> (real \<times> real) list list \<Rightarrow> 'poly) \<Rightarrow> position list list \<Rightarrow> ('poly, boundary_error) outcome" where
  "rings_to_polygon polygon_new rings =
     (case rings of
        [] \<Rightarrow> Err EmptyPolygon
      | exterior # interiors \<Rightarrow>
          (case (ring_to_linestring exterior, those (map ring_to_linestring interiors)) of
             (Some ext, Some ints) \<Rightarrow> Ok (polygon_new ext ints)
           | _ \<Rightarrow> Panic))"

definition to_multi_polygon ::
    "((real \<times> real) list \<Rightarrow> (real \<times> real) list list \<Rightarrow> 'poly) \<Rightarrow> geo_value \<Rightarrow> ('poly list, boundary_error) outcome" where
  "to_multi_polygon polygon_new v =
     (case v of
        PolygonValue rings \<Rightarrow> and_then (rings_to_polygon polygon_new rings) (\<lambda>p. Ok [p])
      | MultiPolygonValue polys \<Rightarrow> collect_results (map (rings_to_polygon polygon_new) polys)
      | OtherGeometry \<Rightarrow> Err UnsupportedGeometry)"

section \<open>Timezones\<close>

text \<open>A feature: its timezone identifier, if the property is there and text, and its geometry.\<close>

record geo_feature =
  gf_tzid :: "string option"
  gf_geometry :: "geo_value option"

datatype geo_json = FeatureCollection "geo_feature list" | OtherJson

fun extract_features ::
    "((real \<times> real) list \<Rightarrow> (real \<times> real) list list \<Rightarrow> 'poly) \<Rightarrow> (string \<rightharpoonup> 'tz) \<Rightarrow> geo_feature list
      \<Rightarrow> (('tz, 'poly list) timezone_build list, boundary_error) outcome" where
  "extract_features polygon_new db [] = Ok []"
| "extract_features polygon_new db (f # fs) =
     (case gf_tzid f of
        None \<Rightarrow> Err MissingTzid
      | Some tzid \<Rightarrow>
          (case gf_geometry f of
             None \<Rightarrow> Err MissingGeometry
           | Some geometry \<Rightarrow>
               and_then (to_multi_polygon polygon_new geometry) (\<lambda>multi_polygon.
                 case db tzid of
                   None \<Rightarrow> extract_features polygon_new db fs
                 | Some tz \<Rightarrow>
                     and_then (extract_features polygon_new db fs)
                       (\<lambda>ts. Ok (\<lparr>tb_tz = tz, tb_name = tzid, tb_geometry = multi_polygon\<rparr> # ts)))))"

text \<open>
  The file: absent, so that the shipped tables are kept (\<open>Ok None\<close>), or present and perhaps not to be parsed.
\<close>

definition extract_timezones ::
    "((real \<times> real) list \<Rightarrow> (real \<times> real) list list \<Rightarrow> 'poly) \<Rightarrow> (string \<rightharpoonup> 'tz) \<Rightarrow> geo_json option option
      \<Rightarrow> (('tz, 'poly list) timezone_build list option, boundary_error) outcome" where
  "extract_timezones polygon_new db file =
     (case file of
        None \<Rightarrow> Ok None
      | Some None \<Rightarrow> Err Unreadable
      | Some (Some OtherJson) \<Rightarrow> Err NotACollection
      | Some (Some (FeatureCollection fs)) \<Rightarrow> and_then (extract_features polygon_new db fs) (\<lambda>ts. Ok (Some ts)))"

section \<open>What is extracted\<close>

lemma ring_to_linestring_points:
  "ring_to_linestring ring = (if \<forall>c \<in> set ring. 2 \<le> length c then Some (map (\<lambda>c. (c ! 0, c ! 1)) ring) else None)"
  by (induction ring) (auto simp: ring_to_linestring_def)

lemma those_rings:
  "those (map ring_to_linestring rings)
    = (if \<forall>r \<in> set rings. \<forall>c \<in> set r. 2 \<le> length c then Some (map (map (\<lambda>c. (c ! 0, c ! 1))) rings) else None)"
  by (induction rings) (auto simp: ring_to_linestring_points)

text \<open>A polygon has its first ring as exterior and the rest as holes, in order and without heights.\<close>

lemma rings_to_polygon_Ok:
  "rings_to_polygon polygon_new rings = Ok p
    \<longleftrightarrow> (\<exists>exterior interiors. rings = exterior # interiors \<and> (\<forall>r \<in> set rings. \<forall>c \<in> set r. 2 \<le> length c)
      \<and> p = polygon_new (map (\<lambda>c. (c ! 0, c ! 1)) exterior) (map (map (\<lambda>c. (c ! 0, c ! 1))) interiors))"
  by (cases rings) (auto simp: rings_to_polygon_def those_rings ring_to_linestring_points)

text \<open>
  Extraction succeeds exactly when every feature has an identifier and a well-formed geometry, and then gives
  the features of known timezones in their order, each with its geometry; unknown ones are left out.
\<close>

definition feature_ok :: "((real \<times> real) list \<Rightarrow> (real \<times> real) list list \<Rightarrow> 'poly) \<Rightarrow> geo_feature \<Rightarrow> bool" where
  "feature_ok polygon_new f \<longleftrightarrow>
     gf_tzid f \<noteq> None \<and> (\<exists>g ps. gf_geometry f = Some g \<and> to_multi_polygon polygon_new g = Ok ps)"

definition extracted ::
    "((real \<times> real) list \<Rightarrow> (real \<times> real) list list \<Rightarrow> 'poly) \<Rightarrow> (string \<rightharpoonup> 'tz) \<Rightarrow> geo_feature \<Rightarrow> ('tz, 'poly list) timezone_build" where
  "extracted polygon_new db f =
     \<lparr>tb_tz = the (db (the (gf_tzid f))), tb_name = the (gf_tzid f),
      tb_geometry = (case to_multi_polygon polygon_new (the (gf_geometry f)) of Ok ps \<Rightarrow> ps | _ \<Rightarrow> [])\<rparr>"

theorem extracted_exactly:
  "extract_features polygon_new db fs = Ok ts
    \<longleftrightarrow> list_all (feature_ok polygon_new) fs
      \<and> ts = map (extracted polygon_new db) (filter (\<lambda>f. db (the (gf_tzid f)) \<noteq> None) fs)"
proof (induction fs arbitrary: ts)
  case (Cons f fs)
  show ?case
  proof (cases "feature_ok polygon_new f")
    case True
    then obtain tzid g ps where f: "gf_tzid f = Some tzid" "gf_geometry f = Some g" "to_multi_polygon polygon_new g = Ok ps"
      unfolding feature_ok_def by auto
    then show ?thesis using True Cons.IH by (cases "db tzid") (auto simp: extracted_def)
  next
    case False
    then have "extract_features polygon_new db (f # fs) \<noteq> Ok ts"
      by (auto simp: feature_ok_def split: option.splits)
    then show ?thesis using False by simp
  qed
qed auto

text \<open>A malformed boundary of a timezone that the database does not know still fails the build.\<close>

lemma unknown_timezone_can_fail:
  "gf_tzid f = Some tzid \<Longrightarrow> db tzid = None \<Longrightarrow> gf_geometry f = Some (PolygonValue [])
    \<Longrightarrow> extract_features polygon_new db (f # fs) = Err EmptyPolygon"
  by (simp add: to_multi_polygon_def rings_to_polygon_def)

end
