(* ===== verification/Element_Iteration.thy ===== *)
theory Element_Iteration
  imports Osm_Network_Laws
begin

text \<open>
  The parallel operations over the elements of a file (\<open>parallel.rs\<close>, \<open>element/iterator.rs\<close>,
  \<open>element/processed_iterator.rs\<close>): visiting, mapping with a reduction, and folding with a reduction, first
  inside every block and then over the blocks. How the work is split is a tree at either level, and the
  order in which elements are visited is any order. The laws say when that does not matter.
\<close>

section \<open>The operations\<close>

text \<open>A reduction of mapped items: the pieces start at the identity and are reduced in the order of the items.\<close>

primrec reduce_parts :: "('s \<Rightarrow> 's \<Rightarrow> 's) \<Rightarrow> 's \<Rightarrow> 's parts \<Rightarrow> 's" where
  "reduce_parts red ident (Part xs) = foldl red ident xs"
| "reduce_parts red ident (Fork l r) = red (reduce_parts red ident l) (reduce_parts red ident r)"

primrec map_parts :: "('a \<Rightarrow> 'b) \<Rightarrow> 'a parts \<Rightarrow> 'b parts" where
  "map_parts f (Part xs) = Part (map f xs)"
| "map_parts f (Fork l r) = Fork (map_parts f l) (map_parts f r)"

text \<open>A fold gives one state for every piece, which are then reduced.\<close>

primrec fold_parts :: "('s \<Rightarrow> 'a \<Rightarrow> 's) \<Rightarrow> 's \<Rightarrow> 'a parts \<Rightarrow> 's parts" where
  "fold_parts f ident (Part xs) = Part [foldl f ident xs]"
| "fold_parts f ident (Fork l r) = Fork (fold_parts f ident l) (fold_parts f ident r)"

definition map_red :: "('a \<Rightarrow> 't) \<Rightarrow> ('t \<Rightarrow> 't \<Rightarrow> 't) \<Rightarrow> 't \<Rightarrow> 'a parts parts \<Rightarrow> 't" where
  "map_red map_op red_op ident blocks =
     reduce_parts red_op ident (map_parts (\<lambda>block. reduce_parts red_op ident (map_parts map_op block)) blocks)"

definition fold_red :: "('t \<Rightarrow> 'a \<Rightarrow> 't) \<Rightarrow> ('t \<Rightarrow> 't \<Rightarrow> 't) \<Rightarrow> 't \<Rightarrow> 'a parts parts \<Rightarrow> 't" where
  "fold_red fold_op combine ident blocks =
     reduce_parts combine ident (map_parts (\<lambda>block. reduce_parts combine ident (fold_parts fold_op ident block)) blocks)"

text \<open>Visiting runs an effect on every element, in the order of some \<open>schedule\<close>.\<close>

definition for_each :: "('a list \<Rightarrow> 'a list) \<Rightarrow> ('a \<Rightarrow> 's \<Rightarrow> 's) \<Rightarrow> 'a parts parts \<Rightarrow> 's \<Rightarrow> 's" where
  "for_each schedule f blocks = fold f (schedule (concat (map contents (contents blocks))))"

section \<open>When the splitting does not matter\<close>

lemma contents_map_parts [simp]: "contents (map_parts f p) = map f (contents p)"
  by (induction p) simp_all

locale reduction =
  fixes red :: "'s \<Rightarrow> 's \<Rightarrow> 's" and ident :: 's
  assumes assoc: "red (red a b) c = red a (red b c)"
    and left: "red ident a = a" and right: "red a ident = a"
begin

lemma foldl_from: "foldl red s xs = red s (foldl red ident xs)"
proof (induction xs arbitrary: s)
  case (Cons x xs)
  show ?case using Cons [of "red s x"] Cons [of x] by (simp add: assoc left)
qed (simp add: right)

lemma reduce_contents: "reduce_parts red ident p = foldl red ident (contents p)"
proof (induction p)
  case (Fork l r)
  have "foldl red ident (contents l @ contents r) = red (foldl red ident (contents l)) (foldl red ident (contents r))"
    unfolding foldl_append by (rule foldl_from)
  then show ?case using Fork by simp
qed simp

lemma foldl_concat: "foldl red ident (map (\<lambda>xs. foldl red ident xs) xss) = foldl red ident (concat xss)"
proof (induction xss)
  case (Cons xs xss)
  show ?case using foldl_from [of "foldl red ident xs" "concat xss"] foldl_from [of "foldl red ident xs" "map (foldl red ident) xss"] Cons
    by (simp add: left)
qed simp

text \<open>A map with a reduction is the reduction of the mapped elements of the file, however they are split.\<close>

lemma map_red_sequential:
  "map_red f red ident blocks = foldl red ident (map f (concat (map contents (contents blocks))))"
proof -
  have "map_red f red ident blocks = foldl red ident (map (\<lambda>b. foldl red ident (map f (contents b))) (contents blocks))"
    by (simp add: map_red_def reduce_contents)
  also have "\<dots> = foldl red ident (map (foldl red ident) (map (map f) (map contents (contents blocks))))"
    by (simp add: comp_def)
  also have "\<dots> = foldl red ident (map f (concat (map contents (contents blocks))))"
    by (simp only: foldl_concat map_concat)
  finally show ?thesis .
qed

text \<open>So is a fold, if folding from a state is combining it with a fold from the identity.\<close>

lemma fold_red_sequential:
  assumes step: "\<And>s x. f s x = red s (f ident x)"
  shows "fold_red f red ident blocks = foldl f ident (concat (map contents (contents blocks)))"
proof -
  have start: "foldl f s xs = red s (foldl f ident xs)" for s xs
  proof (induction xs arbitrary: s)
    case (Cons x xs)
    have "foldl f s (x # xs) = red (f s x) (foldl f ident xs)" by (simp only: foldl.simps Cons [of "f s x"])
    also have "\<dots> = red (red s (f ident x)) (foldl f ident xs)" by (subst step) (rule refl)
    also have "\<dots> = red s (red (f ident x) (foldl f ident xs))" by (rule assoc)
    also have "\<dots> = red s (foldl f ident (x # xs))" by (simp only: foldl.simps Cons [of "f ident x"])
    finally show ?case .
  qed (simp add: right)
  have block: "reduce_parts red ident (fold_parts f ident b) = foldl f ident (contents b)" for b
  proof (induction b)
    case (Fork l r)
    have "foldl f ident (contents l @ contents r) = red (foldl f ident (contents l)) (foldl f ident (contents r))"
      unfolding foldl_append by (rule start)
    then show ?case using Fork by simp
  qed (simp add: left)
  have "foldl red s (map (\<lambda>xs. foldl f ident xs) xss) = foldl f s (concat xss)" for s xss
  proof (induction xss arbitrary: s)
    case (Cons xs xss)
    have "red s (foldl f ident xs) = foldl f s xs" by (rule start [symmetric])
    then show ?case using Cons by simp
  qed simp
  from this [of ident "map contents (contents blocks)"]
  have "reduce_parts red ident (map_parts (\<lambda>b. foldl f ident (contents b)) blocks) = foldl f ident (concat (map contents (contents blocks)))"
    by (simp add: reduce_contents comp_def)
  then show ?thesis by (simp only: fold_red_def block)
qed

end

text \<open>The trees that a network is reduced into are a reduction, and so is counting.\<close>

interpretation network_trees: reduction trees_extend trees_empty
  by unfold_locales (simp_all add: trees_extend_def trees_empty_def)

interpretation counting: reduction "(+) :: nat \<Rightarrow> nat \<Rightarrow> nat" 0
  by unfold_locales simp_all

text \<open>Collecting the nodes of a file does not depend on how it is split.\<close>

definition add_node :: "trees \<Rightarrow> processed_element \<Rightarrow> trees" where
  "add_node t e = (case e of ProcessedNode n \<Rightarrow> t\<lparr>tree_nodes := tree_nodes t @ [n]\<rparr> | _ \<Rightarrow> t)"

lemma collected_nodes:
  "tree_nodes (fold_red add_node trees_extend trees_empty blocks) = nodes_of (concat (map contents (contents blocks)))"
proof -
  have step: "add_node s x = trees_extend s (add_node trees_empty x)" for s x
    by (simp add: add_node_def trees_extend_def trees_empty_def split: processed_element.splits)
  have "tree_nodes (foldl add_node t es) = tree_nodes t @ nodes_of es" for t es
    by (induction es arbitrary: t) (auto simp: add_node_def nodes_of_def List.map_filter_def split: processed_element.splits)
  from this [of trees_empty] show ?thesis
    unfolding network_trees.fold_red_sequential [OF step] by (simp add: trees_empty_def)
qed

text \<open>Visiting with effects that commute does not depend on the order in which elements are visited.\<close>

lemma for_each_unordered:
  assumes "\<And>xs. mset (schedule xs) = mset xs"
    and "\<And>x y s. f x (f y s) = f y (f x s)"
  shows "for_each schedule f blocks s = fold f (concat (map contents (contents blocks))) s"
proof -
  let ?xs = "concat (map contents (contents blocks))"
  have "fold f (schedule ?xs) = fold f ?xs"
    using assms(2) by (intro fold_multiset_equiv assms(1)) (auto simp: fun_eq_iff)
  then show ?thesis by (simp add: for_each_def)
qed

text \<open>
  The example of the source: counting the nodes of a file, whose elements are those of its blocks in order.
\<close>

lemma count_nodes:
  assumes "map contents (contents blocks) = map (block_elements order) items"
  shows "map_red (\<lambda>e. case e of ProcessedNode n \<Rightarrow> 1 | _ \<Rightarrow> 0) (+) 0 blocks
    = length (filter (\<lambda>e. case e of ProcessedNode n \<Rightarrow> True | _ \<Rightarrow> False) (concat (map (block_elements order) items)))"
proof -
  have "foldl (+) k (map (\<lambda>e. case e of ProcessedNode n \<Rightarrow> 1 | _ \<Rightarrow> 0) es)
      = k + length (filter (\<lambda>e. case e of ProcessedNode n \<Rightarrow> True | _ \<Rightarrow> False) es)" for k :: nat and es
    by (induction es arbitrary: k) (auto split: processed_element.splits)
  then show ?thesis by (simp add: counting.map_red_sequential assms)
qed

end
