(* ===== verification/Conformance.thy ===== *)
theory Conformance
  imports Metrics Snapshot_Diff "HOL-Library.List_Lexorder" "HOL-Library.Char_ord"
begin

text \<open>
  The conformance harness (\<open>conformance/src\<close>: \<open>main.rs\<close>, \<open>runner.rs\<close>, \<open>report.rs\<close>, \<open>trace/loader.rs\<close>): the command
  line, the timed runs of every matcher over every trace, and the results as they are grouped, saved and
  merged. A matcher is what it answers to its k-th call; a map ordered by name is a partial function. The
  laws: a run reports every pair from exactly its timed calls, and a saved result reads back up to
  microseconds, except for an infinite rate.
\<close>

section \<open>The command line\<close>

datatype command = InitTraces | Merge "string list" | Usage | RunWith "string option" "string list"

definition starts_dash :: "string \<Rightarrow> bool" where
  "starts_dash s = (s \<noteq> [] \<and> hd s = CHR ''-'')"

fun scan_args :: "string list \<Rightarrow> string option \<Rightarrow> string list \<Rightarrow> string option \<times> string list" where
  "scan_args [] output positional = (output, positional)"
| "scan_args (a # as) output positional =
     (if a = ''--output'' then (case as of [] \<Rightarrow> (None, positional) | v # as' \<Rightarrow> scan_args as' (Some v) positional)
      else scan_args as output (positional @ [a]))"

text \<open>The arguments after the name of the program.\<close>

definition parse_command :: "string list \<Rightarrow> command" where
  "parse_command args =
     (let run = (case scan_args args None [] of (output, positional) \<Rightarrow> RunWith output positional)
      in case args of
           [] \<Rightarrow> run
         | a # as \<Rightarrow>
             if a = ''init-traces'' then InitTraces
             else if a = ''merge'' then (if as = [] then Usage else Merge as)
             else if starts_dash a \<and> a \<noteq> ''--output'' then Usage
             else run)"

text \<open>The last component of a path, if it names a file.\<close>

definition file_name :: "string \<Rightarrow> string option" where
  "file_name path =
     (let cs = filter (\<lambda>c. c \<noteq> [] \<and> c \<noteq> ''.'') (split_all CHR ''/'' path)
      in if cs = [] \<or> last cs = ''..'' then None else Some (last cs))"

definition or_same :: "string option \<Rightarrow> string \<Rightarrow> string" where
  "or_same x s = (case x of Some y \<Rightarrow> y | None \<Rightarrow> s)"

definition network_label_from_path :: "string \<Rightarrow> string" where
  "network_label_from_path network =
     (let name = or_same (file_name network) network;
          name = or_same (strip_suffix ''.osm.pbf'' name) name
      in or_same (strip_suffix ''-minified'' name) name)"

section \<open>Runs\<close>

record gps_trace =
  trace_id :: string
  trace_points :: "(real \<times> real) list"

text \<open>A trace file as parsed: the identifier, the kind of its geometry and its coordinates.\<close>

definition load_trace :: "string \<Rightarrow> string \<Rightarrow> (real \<times> real) list \<Rightarrow> (gps_trace, unit) outcome" where
  "load_trace ident kind coordinates =
     (if kind \<noteq> ''LineString'' then Err () else Ok \<lparr>trace_id = ident, trace_points = coordinates\<rparr>)"

text \<open>A matcher: its k-th call gives a duration and the number of points it matched, or fails.\<close>

record conformance_matcher =
  cm_name :: string
  cm_healthy :: bool
  cm_match :: "nat \<Rightarrow> gps_trace \<Rightarrow> (nat \<times> nat) option"

datatype run_error = Unhealthy | MatchFailed

fun time_trace :: "conformance_matcher \<Rightarrow> gps_trace \<Rightarrow> nat \<Rightarrow> nat \<Rightarrow> nat list \<Rightarrow> nat \<Rightarrow> (nat list \<times> nat, run_error) outcome" where
  "time_trace m t k 0 samples pts = Ok (samples, pts)"
| "time_trace m t k (Suc n) samples pts =
     (case cm_match m k t of
        None \<Rightarrow> Err MatchFailed
      | Some (d, p) \<Rightarrow> time_trace m t (Suc k) n (samples @ [d]) (pts + p))"

text \<open>The warm-up calls every trace in turn, as often as it is asked to; its durations are dropped.\<close>

fun warm_calls :: "conformance_matcher \<Rightarrow> nat \<Rightarrow> gps_trace list \<Rightarrow> (nat, run_error) outcome" where
  "warm_calls m k [] = Ok k"
| "warm_calls m k (t # ts) = (case cm_match m k t of None \<Rightarrow> Err MatchFailed | Some _ \<Rightarrow> warm_calls m (Suc k) ts)"

definition warmup_matcher :: "conformance_matcher \<Rightarrow> nat \<Rightarrow> gps_trace list \<Rightarrow> (nat, run_error) outcome" where
  "warmup_matcher m warmup traces = warm_calls m 0 (concat (replicate warmup traces))"

definition result_key :: "string \<Rightarrow> conformance_matcher \<Rightarrow> gps_trace \<Rightarrow> string" where
  "result_key label m t = label @ '' / '' @ cm_name m @ '' / '' @ trace_id t"

type_synonym results = "string \<rightharpoonup> matcher_metrics"

text \<open>Every trace of one matcher; \<open>Panic\<close> is the failed assertion that there are samples.\<close>

fun run_traces :: "string \<Rightarrow> conformance_matcher \<Rightarrow> nat \<Rightarrow> nat \<Rightarrow> gps_trace list \<Rightarrow> results \<Rightarrow> (results, run_error) outcome" where
  "run_traces label m k iterations [] out = Ok out"
| "run_traces label m k iterations (t # ts) out =
     and_then (time_trace m t k iterations [] 0) (\<lambda>(samples, pts).
       case compute_metrics samples pts of
         None \<Rightarrow> Panic
       | Some metrics \<Rightarrow> run_traces label m (k + iterations) iterations ts (out(result_key label m t \<mapsto> metrics)))"

fun run_matchers :: "string \<Rightarrow> nat \<Rightarrow> nat \<Rightarrow> gps_trace list \<Rightarrow> conformance_matcher list \<Rightarrow> results \<Rightarrow> (results, run_error) outcome" where
  "run_matchers label iterations warmup traces [] out = Ok out"
| "run_matchers label iterations warmup traces (m # ms) out =
     (if \<not> cm_healthy m then Err Unhealthy
      else and_then (warmup_matcher m warmup traces) (\<lambda>k.
             and_then (run_traces label m k iterations traces out) (run_matchers label iterations warmup traces ms)))"

section \<open>Results\<close>

text \<open>The rows of a table, grouped by the network in front of their names; the keys and the groups are in order.\<close>

definition split_key :: "string \<Rightarrow> string \<times> string" where
  "split_key key =
     (let i = find (\<lambda>i. take 3 (drop i key) = '' / '') [0..<length key]
      in case i of None \<Rightarrow> ('''', key) | Some i \<Rightarrow> (take i key, drop (i + 3) key))"

fun push_group :: "string \<Rightarrow> string \<Rightarrow> (string \<times> string list) list \<Rightarrow> (string \<times> string list) list" where
  "push_group network rest [] = [(network, [rest])]"
| "push_group network rest ((n, rs) # gs) =
     (if n = network then (n, rs @ [rest]) # gs
      else if network < n then (network, [rest]) # (n, rs) # gs
      else (n, rs) # push_group network rest gs)"

definition row_groups :: "string list \<Rightarrow> (string \<times> string list) list" where
  "row_groups keys = foldl (\<lambda>gs key. case split_key key of (network, rest) \<Rightarrow> push_group network rest gs) [] keys"

text \<open>One saved result: a whole number, a rate, or null for a number that is not finite.\<close>

datatype json_value = JWhole nat | JRate real | JNull

definition micros :: "nat \<Rightarrow> json_value" where
  "micros d = JWhole (d div 1000)"

definition saved_entry :: "matcher_metrics \<Rightarrow> string \<rightharpoonup> json_value" where
  "saved_entry m =
     map_of [(''throughput_pts_per_sec'', case throughput m of Some r \<Rightarrow> JRate r | None \<Rightarrow> JNull),
       (''mean_us'', micros (mt_mean m)), (''median_us'', micros (mt_median m)), (''p15_us'', micros (mt_p15 m)),
       (''lq_us'', micros (mt_lq m)), (''uq_us'', micros (mt_uq m)), (''p85_us'', micros (mt_p85 m)),
       (''min_us'', micros (mt_min m)), (''max_us'', micros (mt_max m)),
       (''total_points'', JWhole (total_points m)), (''total_duration_us'', micros (total_duration m))]"

text \<open>\<open>None\<close> is the panic of \<open>json!\<close> on a whole number of more than 64 bits.\<close>

definition fits_saved :: "matcher_metrics \<Rightarrow> bool" where
  "fits_saved m =
     (total_points m < 2 ^ 64 \<and> (\<forall>d \<in> {total_duration m, mt_mean m, mt_median m, mt_p15 m, mt_lq m, mt_uq m, mt_p85 m, mt_min m, mt_max m}.
        d div 1000 < 2 ^ 64))"

definition metrics_to_json :: "matcher_metrics \<Rightarrow> (string \<rightharpoonup> json_value) option" where
  "metrics_to_json m = (if fits_saved m then Some (saved_entry m) else None)"

definition whole_or_zero :: "json_value option \<Rightarrow> nat" where
  "whole_or_zero v = (case v of Some (JWhole n) \<Rightarrow> if n < 2 ^ 64 then n else 0 | _ \<Rightarrow> 0)"

definition rate_or_zero :: "json_value option \<Rightarrow> real" where
  "rate_or_zero v = (case v of Some (JRate r) \<Rightarrow> r | Some (JWhole n) \<Rightarrow> real n | _ \<Rightarrow> 0)"

definition metrics_from_json :: "(string \<rightharpoonup> json_value) \<Rightarrow> matcher_metrics" where
  "metrics_from_json v =
     (let us = (\<lambda>key. whole_or_zero (v key) * 1000)
      in \<lparr>total_points = whole_or_zero (v ''total_points''), total_duration = us ''total_duration_us'',
          throughput = Some (rate_or_zero (v ''throughput_pts_per_sec'')), mt_mean = us ''mean_us'', mt_median = us ''median_us'',
          mt_p15 = us ''p15_us'', mt_lq = us ''lq_us'', mt_uq = us ''uq_us'', mt_p85 = us ''p85_us'', mt_min = us ''min_us'', mt_max = us ''max_us''\<rparr>)"

text \<open>Saved files, read and parsed, merged in turn: a later one overrides an earlier one. A file that is not an object adds nothing.\<close>

definition merge_results :: "(string \<times> (string \<rightharpoonup> json_value)) list option list \<Rightarrow> results" where
  "merge_results files =
     foldl (\<lambda>out f. case f of None \<Rightarrow> out | Some obj \<Rightarrow> foldl (\<lambda>out (name, v). out(name \<mapsto> metrics_from_json v)) out obj) Map.empty files"

section \<open>Laws\<close>

lemma scan_args_positional: "''--output'' \<notin> set as \<Longrightarrow> scan_args as output positional = (output, positional @ as)"
  by (induction as arbitrary: positional) auto

text \<open>A format given anywhere among the arguments is taken, and the others keep their order.\<close>

lemma output_anywhere:
  assumes "''--output'' \<notin> set before" "''--output'' \<notin> set after"
  shows "scan_args (before @ [''--output'', fmt] @ after) None [] = (Some fmt, before @ after)"
proof -
  have "scan_args (before @ [''--output'', fmt] @ after) out pos = (Some fmt, pos @ before @ after)" for out pos
    using assms by (induction before arbitrary: pos) (auto simp: scan_args_positional)
  then show ?thesis by simp
qed

lemma time_trace_spec:
  assumes "\<And>i. i < n \<Longrightarrow> cm_match m (k + i) t = Some (d i, p i)"
  shows "time_trace m t k n samples pts = Ok (samples @ map d [0..<n], pts + sum_list (map p [0..<n]))"
  using assms
proof (induction n arbitrary: k samples pts d p)
  case (Suc n)
  have "time_trace m t (Suc k) n s q = Ok (s @ map (d \<circ> Suc) [0..<n], q + sum_list (map (p \<circ> Suc) [0..<n]))" for s q
    by (rule Suc.IH) (use Suc.prems [of "Suc _"] in simp)
  then show ?case using Suc.prems [of 0] by (simp add: map_upt_Suc o_def del: upt_Suc)
qed simp

lemma warm_calls_spec: "(\<And>j t. cm_match m j t \<noteq> None) \<Longrightarrow> warm_calls m k ts = Ok (k + length ts)"
  by (induction ts arbitrary: k) (auto split: option.splits)

lemma warmup_spec: "(\<And>j t. cm_match m j t \<noteq> None) \<Longrightarrow> warmup_matcher m w ts = Ok (w * length ts)"
  by (simp add: warmup_matcher_def warm_calls_spec length_concat sum_list_replicate)

text \<open>The samples of one trace of a matcher that always answers: the calls from k on.\<close>

definition timed_samples :: "conformance_matcher \<Rightarrow> gps_trace \<Rightarrow> nat \<Rightarrow> nat \<Rightarrow> nat list" where
  "timed_samples m t k n = map (\<lambda>i. fst (the (cm_match m (k + i) t))) [0..<n]"

definition timed_points :: "conformance_matcher \<Rightarrow> gps_trace \<Rightarrow> nat \<Rightarrow> nat \<Rightarrow> nat" where
  "timed_points m t k n = sum_list (map (\<lambda>i. snd (the (cm_match m (k + i) t))) [0..<n])"

lemma time_trace_answers:
  "(\<And>j t. cm_match m j t \<noteq> None) \<Longrightarrow> time_trace m t k n [] 0 = Ok (timed_samples m t k n, timed_points m t k n)"
  unfolding timed_samples_def timed_points_def by (subst time_trace_spec) auto

text \<open>A run of a matcher that always answers gives every trace the statistics of its own timed calls alone:
  with trace identifiers all different, the i-th trace is timed by the calls after the warm-up and after the
  calls of the traces before it.\<close>

lemma run_traces_reports:
  assumes "\<And>j t. cm_match m j t \<noteq> None" "0 < n" "n < 4294967296" "distinct (map trace_id ts)"
  shows "\<exists>out'. run_traces label m k n ts out = Ok out'
    \<and> (\<forall>i < length ts. out' (result_key label m (ts ! i))
        = compute_metrics (timed_samples m (ts ! i) (k + i * n) n) (timed_points m (ts ! i) (k + i * n) n))
    \<and> dom out' = dom out \<union> result_key label m ` set ts
    \<and> (\<forall>key. key \<notin> result_key label m ` set ts \<longrightarrow> out' key = out key)"
  using assms(4)
proof (induction ts arbitrary: k out)
  case (Cons t ts)
  have "timed_samples m t k n \<noteq> []" "length (timed_samples m t k n) = n" using assms(2) by (simp_all add: timed_samples_def)
  then obtain mt where mt: "compute_metrics (timed_samples m t k n) (timed_points m t k n) = Some mt"
    using assms(2,3) by (simp add: compute_metrics_def)
  have "distinct (map trace_id ts)" using Cons.prems by simp
  note rest = Cons.IH [OF this, of "k + n" "out(result_key label m t \<mapsto> mt)"]
  have fresh: "result_key label m t \<notin> result_key label m ` set ts" using Cons.prems by (auto simp: result_key_def)
  obtain out' where out': "run_traces label m (k + n) n ts (out(result_key label m t \<mapsto> mt)) = Ok out'"
    and vals: "\<forall>i < length ts. out' (result_key label m (ts ! i))
        = compute_metrics (timed_samples m (ts ! i) (k + n + i * n) n) (timed_points m (ts ! i) (k + n + i * n) n)"
    and dom: "dom out' = dom (out(result_key label m t \<mapsto> mt)) \<union> result_key label m ` set ts"
    and keep: "\<forall>key. key \<notin> result_key label m ` set ts \<longrightarrow> out' key = (out(result_key label m t \<mapsto> mt)) key"
    using rest by blast
  have "run_traces label m k n (t # ts) out = Ok out'"
    using assms(1) by (simp add: time_trace_answers mt out')
  moreover have "out' (result_key label m ((t # ts) ! i))
      = compute_metrics (timed_samples m ((t # ts) ! i) (k + i * n) n) (timed_points m ((t # ts) ! i) (k + i * n) n)"
    if "i < length (t # ts)" for i
    using that vals keep fresh mt by (cases i) (auto simp: ac_simps)
  ultimately show ?case using dom keep by auto
qed simp

lemma run_reports_all:
  assumes "\<And>m. m \<in> set ms \<Longrightarrow> cm_healthy m \<and> (\<forall>j t. cm_match m j t \<noteq> None)" "0 < n" "n < 4294967296" "distinct (map trace_id ts)"
  shows "\<exists>out'. run_matchers label n w ts ms out = Ok out' \<and> dom out' = dom out \<union> (\<Union>m \<in> set ms. result_key label m ` set ts)"
  using assms(1)
proof (induction ms arbitrary: out)
  case (Cons m ms)
  have answers: "\<And>j t. cm_match m j t \<noteq> None" and "cm_healthy m" using Cons.prems by auto
  obtain mid where "run_traces label m (w * length ts) n ts out = Ok mid" and mid: "dom mid = dom out \<union> result_key label m ` set ts"
    using run_traces_reports [OF answers assms(2-4)] by blast
  then have "run_matchers label n w ts (m # ms) out = run_matchers label n w ts ms mid"
    using \<open>cm_healthy m\<close> by (simp add: warmup_spec [OF answers])
  then show ?case using Cons.IH [of mid] Cons.prems mid by auto
qed simp

text \<open>With no iteration to time, the first trace ends the run in a panic.\<close>

lemma no_iterations_panics: "ts \<noteq> [] \<Longrightarrow> run_traces label m k 0 ts out = Panic"
  by (cases ts) (simp_all add: compute_metrics_def)

text \<open>Every row is in the group of its network and in no other, in its order.\<close>

lemma push_group_names: "fst ` set (push_group network rest gs) = insert network (fst ` set gs)"
  by (induction network rest gs rule: push_group.induct) (simp_all add: insert_commute)

lemma push_group_sorted:
  "sorted_wrt (<) (map fst gs) \<Longrightarrow> sorted_wrt (<) (map fst (push_group network rest gs))"
proof (induction network rest gs rule: push_group.induct)
  case (2 network rest n rs gs)
  have "\<forall>x \<in> fst ` set (push_group network rest gs). n < x" if "n \<noteq> network" "\<not> network < n"
    using 2 that by (auto simp: push_group_names)
  moreover have "\<forall>x \<in> fst ` set gs. network < x" if "network < n" using 2 that by fastforce
  ultimately show ?case using 2 by auto
qed simp

lemma push_group_rows:
  "sorted_wrt (<) (map fst gs) \<Longrightarrow> concat (map snd (filter (\<lambda>g. fst g = n) (push_group network rest gs)))
   = concat (map snd (filter (\<lambda>g. fst g = n) gs)) @ (if n = network then [rest] else [])"
proof (induction network rest gs rule: push_group.induct)
  case (2 network rest name rs gs)
  have "filter (\<lambda>g. fst g = network) gs = []" if "network \<le> name" using 2 that by (auto simp: filter_empty_conv)
  then show ?case using 2 by auto
qed simp

lemma row_groups_rows:
  "sorted_wrt (<) (map fst (row_groups keys))
   \<and> concat (map snd (filter (\<lambda>g. fst g = n) (row_groups keys))) = map (snd \<circ> split_key) (filter (\<lambda>key. fst (split_key key) = n) keys)"
proof (induction keys rule: rev_induct)
  case (snoc key keys)
  obtain network rest where key: "split_key key = (network, rest)" by fastforce
  have "row_groups (keys @ [key]) = push_group network rest (row_groups keys)" by (simp add: row_groups_def key)
  then show ?case using snoc push_group_rows [of "row_groups keys" n network rest] push_group_sorted key by auto
qed (simp add: row_groups_def)

text \<open>A saved result reads back with its durations cut to whole microseconds; an infinite rate reads back as 0.\<close>

definition cut_micros :: "nat \<Rightarrow> nat" where
  "cut_micros d = d div 1000 * 1000"

lemma saved_result_reads_back:
  assumes "metrics_to_json m = Some v"
  shows "metrics_from_json v =
    \<lparr>total_points = total_points m, total_duration = cut_micros (total_duration m),
     throughput = Some (case throughput m of Some r \<Rightarrow> r | None \<Rightarrow> 0), mt_mean = cut_micros (mt_mean m),
     mt_median = cut_micros (mt_median m), mt_p15 = cut_micros (mt_p15 m), mt_lq = cut_micros (mt_lq m), mt_uq = cut_micros (mt_uq m),
     mt_p85 = cut_micros (mt_p85 m), mt_min = cut_micros (mt_min m), mt_max = cut_micros (mt_max m)\<rparr>"
proof -
  have v: "v = saved_entry m" and fits: "fits_saved m"
    using assms unfolding metrics_to_json_def by (metis option.distinct(1) option.inject)+
  have micros: "whole_or_zero (Some (micros d)) * 1000 = cut_micros d" if "d div 1000 < 2 ^ 64" for d
    using that by (simp add: micros_def whole_or_zero_def cut_micros_def)
  have rate: "rate_or_zero (v ''throughput_pts_per_sec'') = (case throughput m of Some r \<Rightarrow> r | None \<Rightarrow> 0)"
    by (simp add: v saved_entry_def rate_or_zero_def split: option.splits)
  have pts: "whole_or_zero (v ''total_points'') = total_points m"
    using fits by (simp add: v saved_entry_def whole_or_zero_def fits_saved_def)
  show ?thesis using fits micros unfolding fits_saved_def metrics_from_json_def Let_def rate pts
    by (simp add: v saved_entry_def)
qed

text \<open>Merging: the last file that holds a name decides it.\<close>

lemma fold_entries: "foldl (\<lambda>out (name, v). out(name \<mapsto> f v)) out obj = out ++ map_of (rev (map (\<lambda>(name, v). (name, f v)) obj))"
  by (induction obj arbitrary: out) (auto simp: map_add_def fun_eq_iff split: option.splits)

lemma merge_later_wins:
  "merge_results (files @ [Some obj]) name =
     (case map_of (rev obj) name of Some v \<Rightarrow> Some (metrics_from_json v) | None \<Rightarrow> merge_results files name)"
proof -
  have "map_of (rev (map (\<lambda>(name, v). (name, f v)) xs)) name = map_option f (map_of (rev xs) name)"
    for f :: "(string \<rightharpoonup> json_value) \<Rightarrow> matcher_metrics" and xs
    by (simp add: rev_map map_of_map)
  then show ?thesis by (simp add: merge_results_def fold_entries map_add_def split: option.splits)
qed

end
