(* ===== verification/Spec2Isabelle.thy ===== *)
theory Spec2Isabelle
  imports Trellis_Theorems Matcher_Theorems Reach_Theorems Continuation Shard_Theorems Realtime_Theorems Osm_Theorems
    Clustering_Laws Mock_Network Rpc_Services Trace_Store Projection Cached_History Metrics
    Tile_Laws Redis_Laws Snapshot_Diff Shard_Files_Laws Replay_Laws Tz_Boundaries Element_Iteration Conformance
begin

text \<open>
  \<^bold>\<open>A verification of the \<open>routers\<close> map matcher.\<close> The workspace turns a sequence of positions into the roads
  driven: every position is anchored to candidate roads, the candidates form a layered graph whose
  boundaries are priced by routing on the road network, and the cheapest path through the graph is the
  match. Trips grow position by position, are cut behind the point where every cheap path agrees,
  survive between processes, and are solved on shards of the world by a realtime fleet. The road network
  is read from map files, cut into shards and served; tiles, timezones, request handlers and tools stand
  around it. This root theory imports all others and holds this description only.

  \<^bold>\<open>How the code is read.\<close> A struct is a record, an enum a datatype. A fallible function returns an \<open>outcome\<close>:
  \<open>Ok\<close>, \<open>Err\<close>, or \<open>Panic\<close> for an index out of range, a failed \<open>expect\<close> or a division by zero; where
  panicking is the only failure the result is an option. A \<open>&mut\<close> parameter is returned updated.
  Unsigned 32-bit sums that wrap or saturate do so in the definitions (\<open>Prelude\<close>); hashes, shard keys, tile
  coordinates and bytes are words (\<open>Word\<close>), whose sums wrap as in a release build; costs that the code
  computes in floating point are reals, with not-a-number and the saturating cast written out where the
  code can meet them. Text is a list of characters of the first 256 code points, one or two bytes each in
  UTF-8; the parsers that count bytes or slice by them do so on these (\<open>Text_Ops\<close>), and the geohash parser
  takes code points of any size. Loops over lists are structural recursions; searches that may not stop early
  (the Dijkstra iterator, the walk to a root, the reading of a file) recurse under a bound that is proved
  sufficient or by a measure, never under an assumed one.

  \<^bold>\<open>The parts, in the order they build on each other.\<close>
  \<^item> \<^emph>\<open>Shared.\<close> \<open>Prelude\<close>: outcomes, wrapping arithmetic, slices and iterator idioms. \<open>Decimal\<close>: decimal printing
    and parsing of \<open>u64\<close>, with the round trip. \<open>Text_Ops\<close>: splitting, joining and trimming of text.
  \<^item> \<^emph>\<open>The trellis\<close> (\<open>libs/routers_trellis\<close>). \<open>Trellis_Model\<close> is \<open>trellis.rs\<close>, \<open>transition.rs\<close> and \<open>solved.rs\<close>: flat
    tables of node weights and boundary matrices, with every accessor and mutation. \<open>Trellis_Laws\<close> holds
    the invariant \<open>trellis_ok\<close> of all trellises the interface can build, and the frame laws. \<open>Viterbi\<close> is
    \<open>solver/viterbi.rs\<close>, \<open>Brute\<close> is \<open>solver/brute.rs\<close>, \<open>Solvers\<close> the \<open>Solve\<close> trait as a locale, interpreted on
    both. \<open>Viterbi_Laws\<close> refines the forward pass into the recurrence over all paths; \<open>Convergence\<close> shows
    which layer the convergence query names. \<open>Trellis_Theorems\<close>: optimality, exact errors, agreement of the
    solvers, finality of converged prefixes, the certificate a solved trellis is.
  \<^item> \<^emph>\<open>The network and candidates\<close> (\<open>libs/routers_network\<close>, \<open>routers_transition/candidate\<close>, \<open>layer\<close>). \<open>Network_Model\<close>
    has the primitives and the network traits as a record of functions; \<open>Candidates\<close> the store, the
    generator and the emission order; \<open>Mock_Network\<close> the in-memory network of the tests, which meets the
    contract of the traits.
  \<^item> \<^emph>\<open>Reachability and costs.\<close> \<open>Dijkstra_Model\<close> is the bounded search over any priority queue (locale
    \<open>cost_heap\<close>), \<open>Reachability\<close> the two read-through caches and the expansion of one candidate into another,
    \<open>Costing\<close> the emission and transition heuristics with the path geometry. \<open>Reach_Theorems\<close>: termination of
    the search, connected routes, transparent caches, bounded default costs.
  \<^item> \<^emph>\<open>Matching\<close> (\<open>matcher\<close>, \<open>weigh\<close>, \<open>match\<close>). \<open>Trip\<close> is the state machine a caller keeps, \<open>Weigh\<close> the two weighing
    strategies and the location of a break, \<open>Matcher\<close> every operation of \<open>matcher/entity.rs\<close>, \<open>Sessions\<close> the
    life of a trip as a step relation, \<open>Routed\<close> the results and the facade. \<open>Matcher_Laws\<close> connects the
    matcher to the trellis: a solved trip carries the cheapest choice of candidates under the
    weigher's hop costs. \<open>Matcher_Theorems\<close> holds the properties of batches and of sessions; \<open>Continuation\<close> is
    the reconciliation of a persisted trip with a history.
  \<^item> \<^emph>\<open>Sharding\<close> (\<open>libs/routers_shard\<close>). \<open>Strategy\<close> states what a cell grid promises (locale \<open>sharding_grid\<close>), met by
    \<open>Quadtree\<close> and \<open>Geohash\<close> at every depth. \<open>Shard_Index\<close> has the row index and the interfaces of the packed
    tree and of the graph map, \<open>Shard_Network\<close> selection, assembly and the network methods, \<open>Shard_Laws\<close> the
    loop invariant of the assembly, \<open>Shard_Cache\<close> the cache bytes, the loader and the sliding window,
    \<open>Composite\<close> several shards as one network, \<open>Shard_Theorems\<close> their properties. \<open>Shard_Files\<close> is the command
    that cuts the network of a file into shard files and the service that starts on one; \<open>Shard_Files_Laws\<close>
    shows what the generated directory holds.
  \<^item> \<^emph>\<open>Map files\<close> (\<open>libs/routers_codec\<close>). The tag parsers: \<open>Transport\<close> (modes of travel and their hierarchy as a
    128-bit set), \<open>Access\<close>, \<open>Opening_Hours\<close>, \<open>Conditions\<close>, \<open>Speed_Limits\<close>, with their laws in \<open>Access_Laws\<close>,
    \<open>Opening_Laws\<close> and \<open>Condition_Laws\<close>. \<open>Osm_Metadata\<close> is the metadata of a road and who may use it, \<open>Osm_Elements\<close>
    the decoding of nodes, ways and relations from their blocks, \<open>Osm_Reading\<close> the framing of a file,
    \<open>Element_Iteration\<close> the parallel operations over elements, \<open>Osm_Network\<close> the reduction into a network, its
    saved form and its trait methods; \<open>Osm_Reading_Laws\<close> and
    \<open>Osm_Network_Laws\<close> prove what \<open>Osm_Theorems\<close> states.
  \<^item> \<^emph>\<open>The realtime fleet\<close> (\<open>libs/routers_realtime\<close>). \<open>Partition\<close> places vehicles on pods, streams and stores;
    \<open>Replay\<close> is the wire form of an observation, the producer and the forwarder of a partition;
    \<open>Match_Service\<close> is the solve of one context by a matcher; \<open>Orchestrator\<close> the pipeline of a worker, attempt by
    attempt, and a pod as a step relation with failures, evictions, crashes and redeliveries.
    \<open>Orchestrator_Laws\<close> holds its invariant: the lane of a vehicle agrees with its durable tail, except for
    an event that was archived while its worker did not hear of it. \<open>Redis_History\<close> is the fleet of primaries
    behind the tails, \<open>Redis_Laws\<close> its refinement to them, \<open>Cached_History\<close> the local window in front of it.
    \<open>Realtime_Theorems\<close> and \<open>Replay_Laws\<close> hold the properties.
  \<^item> \<^emph>\<open>Services and tools.\<close> \<open>Projection\<close> and \<open>Clustering\<close> are the projections and the density clustering of
    \<open>libs/routers_geo\<close>, \<open>Clustering_Laws\<close> proves the clusters the connected components of the core points.
    \<open>Timezones\<close> and \<open>Timezone_Laws\<close> are the three storages of \<open>libs/routers_tz\<close> and their lookups (locale
    \<open>timezone_resolver\<close>), \<open>Tz_Boundaries\<close> the boundaries they are built from. \<open>Tile_Queries\<close> and \<open>Tile_Laws\<close> are \<open>libs/routers_tiles\<close>: splitting tiles, date ranges, the
    plan of row ranges and the example service. \<open>Rpc_Services\<close> holds the request handlers of \<open>libs/routers_rpc\<close>,
    \<open>Trace_Store\<close> and \<open>Snapshot_Diff\<close> the trace store and the snapshot comparison of \<open>libs/routers_viewer\<close>, \<open>Metrics\<close>
    the statistics of \<open>conformance\<close> and \<open>Conformance\<close> its runner, saved results and their merging.

  \<^bold>\<open>How the parts meet.\<close> \<open>match_is_cheapest\<close> composes candidates, weighing and the solver: its proof rests on
  the solver locale's facts and on the refinement of the forward pass. \<open>streamed_prefix_is_final\<close> lifts
  the convergence of the trellis to trips. \<open>network_of_file\<close> relates a network to the ways of its file,
  \<open>from_source_faithful\<close> a shard to the restriction of its source, \<open>cache_bytes_preserve_shard\<close> a shard to its bytes, and
  \<open>generated_shards_hold_network\<close> chains the three from the file to the shard a service has loaded.
  \<open>shard_serves_matcher\<close> shows that an assembled shard answers the traits of \<open>Network_Model\<close> completely,
  \<open>composite_is_union\<close> that several do. \<open>replay_reaches_one_lane\<close> follows observations from the table to the lane
  of a worker, where \<open>pod_drives_to_acknowledgement\<close> takes over; that takes its replies from services which
  \<open>service_reply_spec\<close> describes, so that soundness of trips (\<open>sound_trip\<close>) is what travels between matchers,
  and keeps tails that \<open>history_store_refines_tails\<close> finds again in the fleet of primaries.

  \<^bold>\<open>Parameters.\<close> Code outside the repository is an argument with its documented behaviour as a named hypothesis or a
  locale, each instantiated in the theory that declares it: the geometry library (\<open>geo\<close>), the packed
  R-tree, the priority queue, hash and graph maps with their iteration order, the codecs behind cache
  bytes, blocks and messages, the evicting caches, the timezone database and its cells, the calendar, the
  Hilbert curve, the table service, the primaries, the sequence diff, and the answers of broker, store, file
  system and clock to one attempt. The tail of a vehicle keeps at least the configured number of entries,
  which is the documented meaning of an approximate \<open>MAXLEN\<close>. Round trips of codecs are asked only of values
  that encode, never of all values. Where the code trusts its input or its surroundings, a premise says so of
  that input: a trellis has fewer than 2^32 nodes in all, the headers of the file read claim no negative
  size, its roads are not tagged \<open>oneway=-1\<close>, a tile request asks for whole days and for at least one, the
  shard manifest can be written. Brokers and stores may fail, repeat and reorder: a consumer is handed
  messages of its subject only, again and out of turn too, a lane may close at any time, and a failed
  pipeline may have run any of its commands.

  \<^bold>\<open>Bounds.\<close> The search settles each node at most once, so more fuel than the graph has nodes lets it finish
  (\<open>bounded_search_terminates\<close>), and the walk from a target to its source visits each settled node once. \<open>push_each\<close>
  and \<open>drive\<close> recurse over their input. Reading a file ends by the bytes that remain when the headers it reaches claim no negative
  size (\<open>reading_ends\<close>). A tile splits at most as often as its zoom is away from 24. A trip holds fewer than 2^32
  candidates in a layer (\<open>generates_u32\<close>).

  \<^bold>\<open>What modelling showed.\<close> Among the findings of the manifest, with their lemmas here:
  \<open>Realtime_Theorems.cut_may_leave_the_fused_node\<close> (a trip cut at its convergence layer forgets the cost of
  reaching it, so the resumed solve may leave the node all solutions shared),
  \<open>Shard_Files_Laws.crossing_loses_metadata\<close> (a shard keeps one metadata per node, so roads that meet lose
  theirs, and the direction of travel is gone), \<open>Shard_Files_Laws.clipped_road_is_undefined\<close> (a road to a node
  the file lacks leads the search into an unchecked unwrap),
  \<open>Realtime_Theorems.redelivery_between_microseconds_passes\<close> (stored times are cut to microseconds, so the gate
  lets an event between two of them pass twice), \<open>Reach_Theorems.longer_can_be_cheaper\<close> (accumulated costs can
  decrease along a path), \<open>Shard_Theorems.target_outside_is_held\<close> (a shard also takes in the ends of edges that leave it),
  \<open>Timezone_Laws.lookup_collects_ancestors\<close> (a lookup does not stop at the first stored cell),
  \<open>Osm_Theorems.most_specific_tag_decides\<close>, \<open>Osm_Theorems.reversed_one_way_is_forward\<close>,
  \<open>Condition_Laws.superscript_panics\<close>, \<open>Osm_Reading_Laws.negative_size_never_ends\<close>,
  \<open>Trellis_Laws.new_ok_iff\<close>, \<open>Tile_Laws.weekday_filter_unused\<close>, \<open>Tile_Laws.no_dates_no_ranges\<close>,
  \<open>Cached_History.push_hides_history\<close>, \<open>Trace_Store.first_layer_drops_geometry\<close>.

  \<^bold>\<open>Not modelled.\<close> Pure input and output: subscriptions, headers and spans of the message bus, telemetry, the browser
  fetcher, command lines, the bytes and transport of tiles and remote calls, connections to stores and tables, the
  part of the build scripts that writes tables, the windows of the viewer, the
  clients of other matchers, benchmarks and examples. Floating-point rounding, and the parallel iteration of the
  weigher, which collects its results in order.
\<close>

end
